(* ===== verification/Prelude.thy ===== *)
theory Prelude
  imports Main "HOL-Library.Word" "HOL-Library.List_Lexorder"
begin

text \<open>
  The vocabulary the component theories share: the result type of fallible operations, time
  stamps with and without a time zone, identifiers, and the collections of lemmas that the
  component proofs are run with.
\<close>

section \<open>Collections of facts\<close>

named_theorems result_simps \<open>simplification of the result type and its binding operator\<close>
named_theorems clock_simps \<open>comparison of time stamps\<close>
named_theorems frame_simps \<open>what an operation leaves unchanged\<close>

section \<open>Results\<close>

text \<open>
  A fallible operation returns \<open>Inl e\<close> for a raised exception and \<open>Inr x\<close> for a value. An
  operation of an object with state returns the result paired with the new state, because the
  code may change the state and raise in the same call.
\<close>

definition bindR :: "'e + 'a \<Rightarrow> ('a \<Rightarrow> 'e + 'b) \<Rightarrow> 'e + 'b" where
  "bindR r f = (case r of Inl e \<Rightarrow> Inl e | Inr x \<Rightarrow> f x)"

definition mapErr :: "('e \<Rightarrow> 'd) \<Rightarrow> 'e + 'a \<Rightarrow> 'd + 'a" where
  "mapErr g r = (case r of Inl e \<Rightarrow> Inl (g e) | Inr x \<Rightarrow> Inr x)"

definition isOk :: "'e + 'a \<Rightarrow> bool" where
  "isOk r = (case r of Inl _ \<Rightarrow> False | Inr _ \<Rightarrow> True)"

lemma bindR_simps [simp, result_simps]:
  "bindR (Inl e) f = Inl e" "bindR (Inr x) f = f x"
  by (simp_all add: bindR_def)

lemma mapErr_simps [simp, result_simps]:
  "mapErr g (Inl e) = Inl (g e)" "mapErr g (Inr x) = Inr x"
  by (simp_all add: mapErr_def)

lemma isOk_simps [simp, result_simps]: "\<not> isOk (Inl e)" "isOk (Inr x)"
  by (simp_all add: isOk_def)

lemma isOkE: "isOk r \<Longrightarrow> (\<And>x. r = Inr x \<Longrightarrow> P) \<Longrightarrow> P"
  by (cases r) auto

lemma bindR_eq_Inr: "bindR r f = Inr y \<longleftrightarrow> (\<exists>x. r = Inr x \<and> f x = Inr y)"
  by (cases r) auto

lemma bindR_eq_Inl: "bindR r f = Inl e \<longleftrightarrow> r = Inl e \<or> (\<exists>x. r = Inr x \<and> f x = Inl e)"
  by (cases r) auto

section \<open>Identifiers and time\<close>

text \<open>
  A \<open>UUID\<close> is opaque to the code: it is compared, stored and printed. A fresh \<open>uuid4()\<close> is an
  argument of the operation that draws it.
\<close>

type_synonym uuid = nat

text \<open>
  A \<open>datetime\<close> is an instant in microseconds, with or without a time zone. Ordering an aware
  and a naive value raises \<open>TypeError\<close> in Python: the comparison is then \<open>None\<close>.
\<close>

datatype datetime = Aware int | Naive int

fun tz_missing :: "datetime \<Rightarrow> bool" where
  "tz_missing (Aware _) = False"
| "tz_missing (Naive _) = True"

fun dt_le :: "datetime \<Rightarrow> datetime \<Rightarrow> bool option" where
  "dt_le (Aware a) (Aware b) = Some (a \<le> b)"
| "dt_le (Naive a) (Naive b) = Some (a \<le> b)"
| "dt_le _ _ = None"

fun dt_add :: "datetime \<Rightarrow> int \<Rightarrow> datetime" where
  "dt_add (Aware a) d = Aware (a + d)"
| "dt_add (Naive a) d = Naive (a + d)"

fun dt_instant :: "datetime \<Rightarrow> int" where
  "dt_instant (Aware a) = a"
| "dt_instant (Naive a) = a"

lemma dt_le_aware [clock_simps]:
  "\<not> tz_missing a \<Longrightarrow> \<not> tz_missing b \<Longrightarrow> dt_le a b = Some (dt_instant a \<le> dt_instant b)"
  by (cases a; cases b) auto

lemma dt_le_None_iff [clock_simps]: "dt_le a b = None \<longleftrightarrow> tz_missing a \<noteq> tz_missing b"
  by (cases a; cases b) auto

lemma tz_missing_add [simp, clock_simps]: "tz_missing (dt_add a d) = tz_missing a"
  by (cases a) auto

lemma dt_instant_add [simp, clock_simps]: "dt_instant (dt_add a d) = dt_instant a + d"
  by (cases a) auto

section \<open>Lists and maps\<close>

lemma take_Cons_pos: "0 < n \<Longrightarrow> take n (x # xs) = x # take (n - 1) xs"
  by (cases n) auto

lemma drop_Cons_pos: "0 < n \<Longrightarrow> drop n (x # xs) = drop (n - 1) xs"
  by (cases n) auto

lemma ran_upd_subset: "ran (m(k \<mapsto> v)) \<subseteq> insert v (ran m)"
  by (auto simp: ran_def)

text \<open>Deleting a key from an association list, as \<open>del d[k]\<close> and \<open>dict.pop\<close> do.\<close>

definition map_del :: "('k \<rightharpoonup> 'v) \<Rightarrow> 'k \<Rightarrow> ('k \<rightharpoonup> 'v)" where
  "map_del m k = m(k := None)"

lemma map_del_apply [simp, frame_simps]: "map_del m k j = (if j = k then None else m j)"
  by (simp add: map_del_def)

end
