(* ===== verification/Py_Text.thy ===== *)
theory Py_Text
  imports Prelude
begin

text \<open>
  Python text and bytes. A \<open>str\<close> is a list of code points, \<open>bytes\<close> a list of 8-bit words.
  UTF-8 encoding and decoding, strict and with \<open>errors="ignore"\<close>, follow the standard: a
  surrogate cannot be encoded, and an ill-formed sequence is skipped by its maximal valid
  prefix. Big-endian integers and decimal digits are here too. The lemmas show that decoding
  inverts encoding, that strict decoding accepts exactly the encodings, and that decoding a
  truncated encoding drops exactly the character that was cut.
\<close>

section \<open>Text and bytes\<close>

type_synonym pystr = "nat list"
type_synonym byte = "8 word"
type_synonym bytes = "byte list"

text \<open>A literal of the source, as code points.\<close>

definition ustr :: "string \<Rightarrow> pystr" where
  "ustr s = map of_char s"

lemma ustr_simps [simp]: "ustr [] = []" "ustr (c # s) = of_char c # ustr s"
  by (simp_all add: ustr_def)

lemma ustr_append [simp]: "ustr (s @ t) = ustr s @ ustr t"
  by (simp add: ustr_def)

lemma inj_ustr [simp]: "ustr s = ustr t \<longleftrightarrow> s = t"
proof -
  have "inj (of_char :: char \<Rightarrow> nat)" by (rule inj_of_char)
  then show ?thesis by (simp add: ustr_def inj_map_eq_map)
qed

definition mkb :: "nat \<Rightarrow> byte" where
  "mkb n = word_of_nat n"

lemma unat_mkb: "unat (mkb n) = n mod 256"
  by (simp add: mkb_def unat_of_nat)

lemma unat_mkb_small [simp]: "n < 256 \<Longrightarrow> unat (mkb n) = n"
  by (simp add: unat_mkb)

lemma mkb_unat [simp]: "mkb (unat b) = b"
  by (simp add: mkb_def)

lemma unat_byte_less: "unat (b :: byte) < 256"
  using unsigned_less [of b] by simp

lemma mkb_eq_iff: "m < 256 \<Longrightarrow> mkb m = b \<longleftrightarrow> m = unat b"
  by (metis mkb_unat unat_mkb_small)

section \<open>UTF-8\<close>

definition surrogate :: "nat \<Rightarrow> bool" where
  "surrogate c \<longleftrightarrow> 0xD800 \<le> c \<and> c \<le> 0xDFFF"

definition utf8_char :: "nat \<Rightarrow> bytes option" where
  "utf8_char c =
     (if c < 0x80 then Some [mkb c]
      else if c < 0x800 then Some [mkb (0xC0 + c div 64), mkb (0x80 + c mod 64)]
      else if surrogate c then None
      else if c < 0x10000 then
        Some [mkb (0xE0 + c div 4096), mkb (0x80 + c div 64 mod 64), mkb (0x80 + c mod 64)]
      else if c < 0x110000 then
        Some [mkb (0xF0 + c div 262144), mkb (0x80 + c div 4096 mod 64),
              mkb (0x80 + c div 64 mod 64), mkb (0x80 + c mod 64)]
      else None)"

fun utf8_encode :: "pystr \<Rightarrow> bytes option" where
  "utf8_encode [] = Some []"
| "utf8_encode (c # s) =
     (case utf8_char c of None \<Rightarrow> None
      | Some bs \<Rightarrow> (case utf8_encode s of None \<Rightarrow> None | Some r \<Rightarrow> Some (bs @ r)))"

definition cont_byte :: "byte \<Rightarrow> bool" where
  "cont_byte b \<longleftrightarrow> 0x80 \<le> unat b \<and> unat b < 0xC0"

text \<open>The range of the second byte that a three- or four-byte lead allows.\<close>

definition second_ok :: "nat \<Rightarrow> byte \<Rightarrow> bool" where
  "second_ok l b \<longleftrightarrow>
     (if l = 0xE0 then 0xA0 \<le> unat b \<and> unat b < 0xC0
      else if l = 0xED then 0x80 \<le> unat b \<and> unat b < 0xA0
      else if l = 0xF0 then 0x90 \<le> unat b \<and> unat b < 0xC0
      else if l = 0xF4 then 0x80 \<le> unat b \<and> unat b < 0x90
      else cont_byte b)"

text \<open>
  One decoding step on \<open>b # bs\<close>: the character, or \<open>None\<close> for an ill-formed sequence, and
  the number of bytes after \<open>b\<close> that the step consumes.
\<close>

definition utf8_step :: "byte \<Rightarrow> bytes \<Rightarrow> nat option \<times> nat" where
  "utf8_step b bs =
     (let l = unat b in
      if l < 0x80 then (Some l, 0)
      else if 0xC2 \<le> l \<and> l < 0xE0 then
        (case bs of c # _ \<Rightarrow>
           if cont_byte c then (Some ((l - 0xC0) * 64 + (unat c - 0x80)), 1) else (None, 0)
         | [] \<Rightarrow> (None, 0))
      else if 0xE0 \<le> l \<and> l < 0xF0 then
        (case bs of c # r \<Rightarrow>
           if second_ok l c then
             (case r of d # _ \<Rightarrow>
                if cont_byte d
                then (Some ((l - 0xE0) * 4096 + (unat c - 0x80) * 64 + (unat d - 0x80)), 2)
                else (None, 1)
              | [] \<Rightarrow> (None, 1))
           else (None, 0)
         | [] \<Rightarrow> (None, 0))
      else if 0xF0 \<le> l \<and> l < 0xF5 then
        (case bs of c # r \<Rightarrow>
           if second_ok l c then
             (case r of d # q \<Rightarrow>
                if cont_byte d then
                  (case q of e # _ \<Rightarrow>
                     if cont_byte e
                     then (Some ((l - 0xF0) * 262144 + (unat c - 0x80) * 4096
                                 + (unat d - 0x80) * 64 + (unat e - 0x80)), 3)
                     else (None, 2)
                   | [] \<Rightarrow> (None, 2))
                else (None, 1)
              | [] \<Rightarrow> (None, 1))
           else (None, 0)
         | [] \<Rightarrow> (None, 0))
      else (None, 0))"

fun utf8_decode :: "bytes \<Rightarrow> pystr option" where
  "utf8_decode [] = Some []"
| "utf8_decode (b # bs) =
     (case utf8_step b bs of
        (None, _) \<Rightarrow> None
      | (Some c, k) \<Rightarrow> map_option ((#) c) (utf8_decode (drop k bs)))"

fun utf8_ignore :: "bytes \<Rightarrow> pystr" where
  "utf8_ignore [] = []"
| "utf8_ignore (b # bs) =
     (case utf8_step b bs of
        (None, k) \<Rightarrow> utf8_ignore (drop k bs)
      | (Some c, k) \<Rightarrow> c # utf8_ignore (drop k bs))"

section \<open>Decoding inverts encoding\<close>

lemma split64: "(n::nat) = (n div 64) * 64 + n mod 64"
  by simp

lemma split4096: "(n::nat) = (n div 4096) * 4096 + (n div 64 mod 64) * 64 + n mod 64"
proof -
  have "n div 64 div 64 = n div 4096" by (simp add: div_mult2_eq [symmetric])
  with split64 [of "n div 64"] split64 [of n] show ?thesis by linarith
qed

lemma split262144:
  "(n::nat) = (n div 262144) * 262144 + (n div 4096 mod 64) * 4096 + (n div 64 mod 64) * 64 + n mod 64"
proof -
  have "n div 4096 div 64 = n div 262144" by (simp add: div_mult2_eq [symmetric])
  with split64 [of "n div 4096"] split4096 [of n] show ?thesis by linarith
qed

lemma utf8_char_cases:
  assumes "utf8_char c = Some bs"
  obtains (one) "c < 0x80" "bs = [mkb c]"
    | (two) "0x80 \<le> c" "c < 0x800" "bs = [mkb (0xC0 + c div 64), mkb (0x80 + c mod 64)]"
    | (three) "0x800 \<le> c" "c < 0x10000" "\<not> surrogate c"
        "bs = [mkb (0xE0 + c div 4096), mkb (0x80 + c div 64 mod 64), mkb (0x80 + c mod 64)]"
    | (four) "0x10000 \<le> c" "c < 0x110000"
        "bs = [mkb (0xF0 + c div 262144), mkb (0x80 + c div 4096 mod 64),
               mkb (0x80 + c div 64 mod 64), mkb (0x80 + c mod 64)]"
  using assms by (auto simp: utf8_char_def not_less split: if_splits)

lemma cont_mkb: "cont_byte (mkb (0x80 + n mod 64))"
proof -
  have "n mod 64 < 64" by simp
  then show ?thesis unfolding cont_byte_def by (subst (1 2) unat_mkb_small) linarith+
qed

lemma unat_cont: "unat (mkb (0x80 + n mod 64)) - 0x80 = n mod 64"
proof -
  have "n mod 64 < 64" by simp
  then show ?thesis by (subst unat_mkb_small) linarith+
qed

lemma second_ok_three:
  assumes "0x800 \<le> c" "c < 0x10000" "\<not> surrogate c"
  shows "second_ok (0xE0 + c div 4096) (mkb (0x80 + c div 64 mod 64))"
proof -
  have u: "unat (mkb (0x80 + c div 64 mod 64)) = 0x80 + c div 64 mod 64"
  proof (rule unat_mkb_small)
    have "c div 64 mod 64 < 64" by simp
    then show "0x80 + c div 64 mod 64 < 256" by linarith
  qed
  have m: "c div 64 mod 64 < 64" by simp
  have r: "c mod 64 < 64" by simp
  have a: "0x20 \<le> c div 64 mod 64" if "c div 4096 = 0"
    using assms(1) that split4096 [of c] r by linarith
  have b: "c div 64 mod 64 < 0x20" if d: "c div 4096 = 13"
  proof (rule ccontr)
    assume "\<not> c div 64 mod 64 < 0x20"
    then have "0xD800 \<le> c" "c \<le> 0xDFFF"
      using d split4096 [of c] r m by linarith+
    with assms(3) show False by (simp add: surrogate_def)
  qed
  have "c div 4096 < 16" using assms(2) by linarith
  then show ?thesis using a b m unfolding second_ok_def cont_byte_def u by auto
qed

lemma second_ok_four:
  assumes "0x10000 \<le> c" "c < 0x110000"
  shows "second_ok (0xF0 + c div 262144) (mkb (0x80 + c div 4096 mod 64))"
proof -
  have u: "unat (mkb (0x80 + c div 4096 mod 64)) = 0x80 + c div 4096 mod 64"
  proof (rule unat_mkb_small)
    have "c div 4096 mod 64 < 64" by simp
    then show "0x80 + c div 4096 mod 64 < 256" by linarith
  qed
  have m: "c div 4096 mod 64 < 64" by simp
  have r: "c div 64 mod 64 < 64" "c mod 64 < 64" by simp_all
  have a: "0x10 \<le> c div 4096 mod 64" if "c div 262144 = 0"
    using assms(1) that split262144 [of c] r by linarith
  have b: "c div 4096 mod 64 < 0x10" if "c div 262144 = 4"
    using assms(2) that split262144 [of c] by linarith
  show ?thesis using a b m unfolding second_ok_def cont_byte_def u by auto
qed

lemma lead_bounds:
  shows "c < 0x800 \<Longrightarrow> 0x80 \<le> c \<Longrightarrow> unat (mkb (0xC0 + c div 64)) = 0xC0 + c div 64"
    and "c < 0x10000 \<Longrightarrow> unat (mkb (0xE0 + c div 4096)) = 0xE0 + c div 4096"
    and "c < 0x110000 \<Longrightarrow> unat (mkb (0xF0 + c div 262144)) = 0xF0 + c div 262144"
  by (subst unat_mkb_small; simp add: div_less_iff_less_mult)+

text \<open>A complete character decodes, whatever follows it; a cut one is skipped as a whole.\<close>

lemma utf8_step_char:
  assumes "utf8_char c = Some (b # r)"
  shows "utf8_step b (r @ t) = (Some c, length r)"
  using assms
proof (cases rule: utf8_char_cases)
  case one
  then show ?thesis by (simp add: utf8_step_def)
next
  case two
  have "c div 64 < 32" "2 \<le> c div 64" using two by linarith+
  then show ?thesis using two split64 [of c]
    by (simp add: utf8_step_def Let_def lead_bounds cont_mkb unat_cont)
next
  case three
  have "c div 4096 < 16" using three by linarith
  then show ?thesis using three split4096 [of c]
    by (simp add: utf8_step_def Let_def lead_bounds cont_mkb unat_cont second_ok_three)
next
  case four
  have "c div 262144 < 5" using four by linarith
  then show ?thesis using four split262144 [of c]
    by (simp add: utf8_step_def Let_def lead_bounds cont_mkb unat_cont second_ok_four)
qed

lemma utf8_step_cut:
  assumes "utf8_char c = Some (b # r)" "k < length r"
  shows "utf8_step b (take k r) = (None, k)"
  using assms(1)
proof (cases rule: utf8_char_cases)
  case one
  then show ?thesis using assms(2) by simp
next
  case two
  have "c div 64 < 32" "2 \<le> c div 64" using two by linarith+
  then show ?thesis using two assms(2)
    by (simp add: utf8_step_def Let_def lead_bounds cont_mkb unat_cont)
next
  case three
  have d: "c div 4096 < 16" using three by linarith
  have "k = 0 \<or> k = 1" using three assms(2) by auto
  then show ?thesis using three d
    by (elim disjE) (simp_all add: utf8_step_def Let_def lead_bounds cont_mkb unat_cont second_ok_three)
next
  case four
  have d: "c div 262144 < 5" using four by linarith
  have "k = 0 \<or> k = 1 \<or> k = 2" using four assms(2) by auto
  then show ?thesis using four d
    by (elim disjE)
      (simp_all add: utf8_step_def Let_def lead_bounds cont_mkb unat_cont second_ok_four
        numeral_2_eq_2)
qed

text \<open>A successful step has read exactly the encoding of its character.\<close>

lemma mkb_lead: "l \<le> unat b \<Longrightarrow> n = unat b - l \<Longrightarrow> mkb (l + n) = b"
  by simp

lemma mkb_lead_cont: "cont_byte c \<Longrightarrow> n = unat c - 0x80 \<Longrightarrow> mkb (0x80 + n) = c"
  by (simp add: cont_byte_def)

lemma cont_less: "cont_byte c \<Longrightarrow> unat c - 0x80 < 64"
  unfolding cont_byte_def by linarith

lemma second_ok_cont: "second_ok l c \<Longrightarrow> cont_byte c"
  by (auto simp: second_ok_def cont_byte_def split: if_splits)

lemma join64: "x < (64::nat) \<Longrightarrow> (a * 64 + x) div 64 = a" "x < (64::nat) \<Longrightarrow> (a * 64 + x) mod 64 = x"
  by simp_all

lemma div4096: "(n::nat) div 4096 = n div 64 div 64"
  by (simp add: div_mult2_eq [symmetric])

lemma div262144: "(n::nat) div 262144 = n div 64 div 64 div 64"
  by (simp add: div_mult2_eq [symmetric])

lemma nest4096: "a * 4096 + x * 64 + (y::nat) = (a * 64 + x) * 64 + y"
  by simp

lemma nest262144: "a * 262144 + x * 4096 + y * 64 + (z::nat) = ((a * 64 + x) * 64 + y) * 64 + z"
  by simp

lemmas join_simps = div4096 div262144 nest4096 nest262144 join64

lemma utf8_char_two:
  assumes "cont_byte c" "0xC2 \<le> unat b" "unat b < 0xE0"
  shows "utf8_char ((unat b - 0xC0) * 64 + (unat c - 0x80)) = Some [b, c]"
proof -
  define a x where "a = unat b - 0xC0" and "x = unat c - 0x80"
  have x: "x < 64" using assms(1) by (simp add: x_def cont_less)
  have a: "2 \<le> a" "a < 32" using assms by (simp_all add: a_def)
  have b: "mkb (0xC0 + a) = b" using assms by (intro mkb_lead) (simp_all add: a_def)
  have c: "mkb (0x80 + x) = c" using assms by (intro mkb_lead_cont) (simp_all add: x_def)
  have "0x80 \<le> a * 64 + x" "a * 64 + x < 0x800" using a x by linarith+
  then have "utf8_char (a * 64 + x) = Some [b, c]"
    using b c x by (simp add: utf8_char_def join64)
  then show ?thesis by (simp add: a_def x_def)
qed

lemma utf8_char_three:
  assumes "second_ok (unat b) c" "cont_byte d" "0xE0 \<le> unat b" "unat b < 0xF0"
  shows "utf8_char ((unat b - 0xE0) * 4096 + (unat c - 0x80) * 64 + (unat d - 0x80)) = Some [b, c, d]"
proof -
  define a x y where "a = unat b - 0xE0" and "x = unat c - 0x80" and "y = unat d - 0x80"
  have co: "cont_byte c" using assms(1) by (rule second_ok_cont)
  have x: "x < 64" "y < 64" using co assms(2) by (simp_all add: x_def y_def cont_less)
  have a: "a < 16" using assms by (simp add: a_def)
  have b: "mkb (0xE0 + a) = b" using assms by (intro mkb_lead) (simp_all add: a_def)
  have c: "mkb (0x80 + x) = c" "mkb (0x80 + y) = d"
    using co assms by (auto intro!: mkb_lead_cont simp: x_def y_def)
  define n where "n = a * 4096 + x * 64 + y"
  have z: "0x20 \<le> x" if "a = 0"
    using assms(1,3) that co by (auto simp: a_def x_def second_ok_def)
  have su: "x < 0x20" if "a = 13"
    using assms(1,3) that co by (auto simp: a_def x_def second_ok_def cont_byte_def split: if_splits)
  have lo: "0x800 \<le> n"
  proof (cases "a = 0")
    case True
    then show ?thesis using z unfolding n_def by linarith
  next
    case False
    then have "1 \<le> a" by simp
    then show ?thesis unfolding n_def by linarith
  qed
  have hi: "n < 0x10000" using a x unfolding n_def by linarith
  have ns: "\<not> surrogate n"
  proof
    assume "surrogate n"
    then have r: "0xD800 \<le> n" "n \<le> 0xDFFF" by (simp_all add: surrogate_def)
    then have "a = 13" using x unfolding n_def by linarith
    moreover from this r(1) x have "0x20 \<le> x" unfolding n_def by linarith
    ultimately show False using su by simp
  qed
  have "n div 4096 = a" "n div 64 mod 64 = x" "n mod 64 = y"
    using x unfolding n_def by (simp_all only: join_simps)
  then have "utf8_char n = Some [b, c, d]"
    using lo hi ns b c by (simp add: utf8_char_def)
  then show ?thesis by (simp add: n_def a_def x_def y_def)
qed

lemma utf8_char_four:
  assumes "second_ok (unat b) c" "cont_byte d" "cont_byte e" "0xF0 \<le> unat b" "unat b < 0xF5"
  shows "utf8_char ((unat b - 0xF0) * 262144 + (unat c - 0x80) * 4096 + (unat d - 0x80) * 64
    + (unat e - 0x80)) = Some [b, c, d, e]"
proof -
  define a x y z where "a = unat b - 0xF0" and "x = unat c - 0x80" and "y = unat d - 0x80"
    and "z = unat e - 0x80"
  have co: "cont_byte c" using assms(1) by (rule second_ok_cont)
  have x: "x < 64" "y < 64" "z < 64"
    using co assms(2,3) by (simp_all add: x_def y_def z_def cont_less)
  have a: "a < 5" using assms by (simp add: a_def)
  have b: "mkb (0xF0 + a) = b" using assms by (intro mkb_lead) (simp_all add: a_def)
  have c: "mkb (0x80 + x) = c" "mkb (0x80 + y) = d" "mkb (0x80 + z) = e"
    using co assms by (auto intro!: mkb_lead_cont simp: x_def y_def z_def)
  define n where "n = a * 262144 + x * 4096 + y * 64 + z"
  have lz: "0x10 \<le> x" if "a = 0"
    using assms(1,4) that co by (auto simp: a_def x_def second_ok_def)
  have hz: "x < 0x10" if "a = 4"
    using assms(1,4) that co by (auto simp: a_def x_def second_ok_def cont_byte_def split: if_splits)
  have lo: "0x10000 \<le> n"
  proof (cases "a = 0")
    case True
    then show ?thesis using lz unfolding n_def by linarith
  next
    case False
    then have "1 \<le> a" by simp
    then show ?thesis unfolding n_def by linarith
  qed
  have hi: "n < 0x110000"
  proof (cases "a = 4")
    case True
    then have "x < 16" by (rule hz)
    then show ?thesis using True x unfolding n_def by linarith
  next
    case False
    then have "a \<le> 3" using a by simp
    then show ?thesis using x unfolding n_def by linarith
  qed
  have "n div 262144 = a" "n div 4096 mod 64 = x" "n div 64 mod 64 = y" "n mod 64 = z"
    using x unfolding n_def by (simp_all only: join_simps)
  then have "utf8_char n = Some [b, c, d, e]"
    using lo hi b c by (simp add: utf8_char_def surrogate_def)
  then show ?thesis by (simp add: n_def a_def x_def y_def z_def)
qed

lemma utf8_step_sound:
  assumes "utf8_step b bs = (Some c, k)"
  shows "k \<le> length bs \<and> utf8_char c = Some (b # take k bs)"
proof -
  have one: "utf8_char (unat b) = Some [b]" if "unat b < 0x80"
    using that by (simp add: utf8_char_def)
  show ?thesis
    using assms
    by (auto simp: utf8_step_def Let_def one utf8_char_two utf8_char_three utf8_char_four
        numeral_2_eq_2 numeral_3_eq_3 split: if_splits list.splits)
qed

subsection \<open>Whole strings\<close>

lemma utf8_char_nonempty: "utf8_char c = Some bs \<Longrightarrow> \<exists>b r. bs = b # r"
  by (auto simp: utf8_char_def split: if_splits)

lemma utf8_char_length: "utf8_char c = Some bs \<Longrightarrow> 1 \<le> length bs \<and> length bs \<le> 4"
  by (auto simp: utf8_char_def split: if_splits)

lemma utf8_encode_Cons:
  "utf8_encode (c # s) = Some bs \<longleftrightarrow>
    (\<exists>b r t. utf8_char c = Some (b # r) \<and> utf8_encode s = Some t \<and> bs = b # r @ t)"
  by (auto split: option.splits dest: utf8_char_nonempty)

lemma utf8_encode_append:
  "utf8_encode (s @ t) =
     (case utf8_encode s of None \<Rightarrow> None | Some a \<Rightarrow> map_option (\<lambda>b. a @ b) (utf8_encode t))"
  by (induction s) (auto split: option.splits simp: map_option_case)

lemma utf8_decode_encode: "utf8_encode s = Some bs \<Longrightarrow> utf8_decode bs = Some s"
proof (induction s arbitrary: bs)
  case (Cons c s)
  then obtain b r t where "utf8_char c = Some (b # r)" "utf8_encode s = Some t" "bs = b # r @ t"
    by (auto simp: utf8_encode_Cons simp del: utf8_encode.simps)
  then show ?case using Cons.IH by (simp add: utf8_step_char)
qed simp

lemma utf8_encode_decode: "utf8_decode bs = Some s \<Longrightarrow> utf8_encode s = Some bs"
proof (induction bs arbitrary: s rule: utf8_decode.induct)
  case (2 b bs)
  then obtain c k t where st: "utf8_step b bs = (Some c, k)"
    and t: "utf8_decode (drop k bs) = Some t" and s: "s = c # t"
    by (auto split: prod.splits option.splits)
  have "utf8_encode t = Some (drop k bs)" using "2.IH" st t by simp
  with utf8_step_sound [OF st] show ?case by (simp add: s)
qed simp

theorem utf8_decode_iff: "utf8_decode bs = Some s \<longleftrightarrow> utf8_encode s = Some bs"
  using utf8_decode_encode utf8_encode_decode by blast

text \<open>The longest prefix of a text whose encoding fits into \<open>n\<close> bytes.\<close>

fun fit_bytes :: "nat \<Rightarrow> pystr \<Rightarrow> pystr" where
  "fit_bytes n [] = []"
| "fit_bytes n (c # s) =
     (case utf8_char c of None \<Rightarrow> []
      | Some bs \<Rightarrow> if length bs \<le> n then c # fit_bytes (n - length bs) s else [])"

lemma utf8_ignore_cut:
  assumes "utf8_encode s = Some bs"
  shows "utf8_ignore (take n bs) = fit_bytes n s"
  using assms
proof (induction s arbitrary: bs n)
  case (Cons c s)
  then obtain b r t where c: "utf8_char c = Some (b # r)" and t: "utf8_encode s = Some t"
    and bs: "bs = b # r @ t"
    by (auto simp: utf8_encode_Cons simp del: utf8_encode.simps)
  show ?case
  proof (cases n)
    case 0
    then show ?thesis using c by simp
  next
    case (Suc m)
    show ?thesis
    proof (cases "length r \<le> m")
      case True
      then show ?thesis
        using Suc c bs Cons.IH [OF t] by (simp add: utf8_step_char)
    next
      case False
      then show ?thesis using Suc c bs by (simp add: utf8_step_cut)
    qed
  qed
qed simp

lemma utf8_ignore_encode: "utf8_encode s = Some bs \<Longrightarrow> utf8_ignore bs = s"
proof (induction s arbitrary: bs)
  case (Cons c s)
  then obtain b r t where "utf8_char c = Some (b # r)" "utf8_encode s = Some t" "bs = b # r @ t"
    by (auto simp: utf8_encode_Cons simp del: utf8_encode.simps)
  then show ?case using Cons.IH by (simp add: utf8_step_char)
qed simp

lemma fit_bytes_prefix: "\<exists>t. s = fit_bytes n s @ t"
  by (induction n s rule: fit_bytes.induct) (auto split: option.splits)

lemma fit_bytes_encode:
  assumes "utf8_encode s = Some bs"
  obtains k where "utf8_encode (fit_bytes n s) = Some (take k bs)" "k \<le> n" "k \<le> length bs"
    "4 \<le> n \<Longrightarrow> bs \<noteq> [] \<Longrightarrow> 0 < k"
proof -
  have "\<exists>k. utf8_encode (fit_bytes n s) = Some (take k bs) \<and> k \<le> n \<and> k \<le> length bs
      \<and> (4 \<le> n \<longrightarrow> bs \<noteq> [] \<longrightarrow> 0 < k)"
    using assms
  proof (induction s arbitrary: bs n)
    case Nil
    then show ?case by auto
  next
    case (Cons c s)
    then obtain b r t where c: "utf8_char c = Some (b # r)" and t: "utf8_encode s = Some t"
      and bs: "bs = b # r @ t"
      by (auto simp: utf8_encode_Cons simp del: utf8_encode.simps)
    show ?case
    proof (cases "length (b # r) \<le> n")
      case True
      obtain k where "utf8_encode (fit_bytes (n - length (b # r)) s) = Some (take k t)"
        "k \<le> n - length (b # r)" "k \<le> length t"
        using Cons.IH [OF t] by blast
      then have "utf8_encode (fit_bytes n (c # s)) = Some (take (length (b # r) + k) bs)
          \<and> length (b # r) + k \<le> n \<and> length (b # r) + k \<le> length bs \<and> 0 < length (b # r) + k"
        using c bs True by simp
      then show ?thesis by blast
    next
      case False
      then have "n < 4" using utf8_char_length [OF c] by simp
      moreover have "utf8_encode (fit_bytes n (c # s)) = Some (take 0 bs)" using c False by simp
      ultimately show ?thesis by fastforce
    qed
  qed
  then show ?thesis using that by blast
qed

lemma utf8_ignore_length:
  assumes "utf8_encode s = Some bs"
  shows "\<exists>k. utf8_encode (utf8_ignore (take n bs)) = Some (take k bs) \<and> k \<le> n"
  using fit_bytes_encode [OF assms, of n] utf8_ignore_cut [OF assms] by metis

text \<open>A valid prefix of a valid encoding leaves a valid encoding.\<close>

lemma utf8_encode_split:
  assumes "utf8_encode s = Some bs" "utf8_decode (take n bs) = Some p"
  obtains q where "s = p @ q" "utf8_encode q = Some (drop n bs)"
proof -
  have p: "utf8_encode p = Some (take n bs)" using assms(2) by (rule utf8_encode_decode)
  have "\<exists>q. s = p @ q \<and> utf8_encode q = Some (drop n bs)"
    using assms(1) p
  proof (induction p arbitrary: s bs n)
    case Nil
    then show ?case by (cases "n = 0") auto
  next
    case (Cons c p)
    from Cons.prems(2) obtain b r t where c: "utf8_char c = Some (b # r)"
      and t: "utf8_encode p = Some t" and tk: "take n bs = b # r @ t"
      by (auto simp: utf8_encode_Cons simp del: utf8_encode.simps)
    have bs: "bs = b # r @ t @ drop n bs" using append_take_drop_id [of n bs] tk by simp
    have "s \<noteq> []" using Cons.prems(1) bs by auto
    then obtain c' s' where s: "s = c' # s'" by (cases s) auto
    then obtain b' r' t' where c': "utf8_char c' = Some (b' # r')"
      and t': "utf8_encode s' = Some t'" and bs': "bs = b' # r' @ t'"
      using Cons.prems(1) by (auto simp: utf8_encode_Cons simp del: utf8_encode.simps)
    have "utf8_step b (r @ t @ drop n bs) = (Some c, length r)" using utf8_step_char [OF c] by simp
    moreover have "utf8_step b' (r' @ t') = (Some c', length r')" using utf8_step_char [OF c'] by simp
    moreover have eq: "b' = b" "r' @ t' = r @ t @ drop n bs"
    proof -
      have "b' # (r' @ t') = b # (r @ t @ drop n bs)" using bs bs' by metis
      then show "b' = b" "r' @ t' = r @ t @ drop n bs" by blast+
    qed
    ultimately have "(Some c', length r') = (Some c, length r)" by metis
    then have cc: "c' = c" "length r' = length r" by blast+
    have rr: "r' = r" "t' = t @ drop n bs"
      using eq(2) cc(2) append_eq_append_conv [of r' r t' "t @ drop n bs"] by blast+
    have "\<exists>q. s' = p @ q \<and> utf8_encode q = Some (drop (length t) t')"
    proof (rule Cons.IH [of s' t' "length t"])
      show "utf8_encode s' = Some t'" by fact
      show "utf8_encode p = Some (take (length t) t')" using t by (simp add: rr(2))
    qed
    moreover have "drop (length t) t' = drop n bs" by (simp add: rr(2))
    ultimately show ?case using s cc(1) by auto
  qed
  then show ?thesis using that by blast
qed

lemma utf8_encode_ascii: "(\<forall>c \<in> set s. c < 128) \<Longrightarrow> utf8_encode s = Some (map mkb s)"
  by (induction s) (auto simp: utf8_char_def)

end
