(* ===== verification/Py_Hash.thy ===== *)
theory Py_Hash
  imports Py_Text
begin

text \<open>
  The standard library's \<open>hashlib.sha256(data).hexdigest()\<close>, written out from FIPS 180-4 on
  32-bit words, and the shape of its result: always 64 lower-case hexadecimal digits, which is the
  pattern the models demand of a digest. Equality of digests is never assumed to mean equality of
  contents: a property that needs it says so in a hypothesis.
\<close>

section \<open>SHA-256\<close>

unbundle bit_operations_syntax

type_synonym u32 = "32 word"

text \<open>
  The constants are the first 32 bits of the fractional parts of roots of the first primes: cube
  roots of 64 primes for the rounds, square roots of eight for the initial state. The root is found
  bit by bit, scaled by $2^{32}$; the conversion to a word drops the integer part.
\<close>

fun root_bits :: "nat \<Rightarrow> nat \<Rightarrow> nat \<Rightarrow> nat \<Rightarrow> nat" where
  "root_bits k n 0 r = r"
| "root_bits k n (Suc i) r = root_bits k n i (if (r + 2 ^ i) ^ k \<le> n then r + 2 ^ i else r)"

definition root_fraction :: "nat \<Rightarrow> nat \<Rightarrow> u32" where
  "root_fraction k p = of_nat (root_bits k (p * 2 ^ (32 * k)) 40 0)"

definition small_primes :: "nat \<Rightarrow> nat list" where
  "small_primes n = filter (\<lambda>p. list_all (\<lambda>d. p mod d \<noteq> 0) [2..<p]) [2..<n]"

definition sha_k :: "u32 list" where
  "sha_k = map (root_fraction 3) (small_primes 312)"

definition sha_init :: "u32 list" where
  "sha_init = map (root_fraction 2) [2, 3, 5, 7, 11, 13, 17, 19]"

definition sha_s0 :: "u32 \<Rightarrow> u32" where
  "sha_s0 x = word_rotr 7 x XOR word_rotr 18 x XOR drop_bit 3 x"

definition sha_s1 :: "u32 \<Rightarrow> u32" where
  "sha_s1 x = word_rotr 17 x XOR word_rotr 19 x XOR drop_bit 10 x"

definition sha_b0 :: "u32 \<Rightarrow> u32" where
  "sha_b0 x = word_rotr 2 x XOR word_rotr 13 x XOR word_rotr 22 x"

definition sha_b1 :: "u32 \<Rightarrow> u32" where
  "sha_b1 x = word_rotr 6 x XOR word_rotr 11 x XOR word_rotr 25 x"

definition sha_ch :: "u32 \<Rightarrow> u32 \<Rightarrow> u32 \<Rightarrow> u32" where
  "sha_ch e f g = (e AND f) XOR (NOT e AND g)"

definition sha_maj :: "u32 \<Rightarrow> u32 \<Rightarrow> u32 \<Rightarrow> u32" where
  "sha_maj a b c = (a AND b) XOR (a AND c) XOR (b AND c)"

text \<open>The message schedule, newest word first.\<close>

fun sha_sched :: "nat \<Rightarrow> u32 list \<Rightarrow> u32 list" where
  "sha_sched 0 r = r"
| "sha_sched (Suc n) r = sha_sched n ((sha_s1 (r ! 1) + r ! 6 + sha_s0 (r ! 14) + r ! 15) # r)"

fun sha_rounds :: "(u32 \<times> u32) list \<Rightarrow> u32 list \<Rightarrow> u32 list" where
  "sha_rounds ((k, w) # kws) [a, b, c, d, e, f, g, h] =
     (let t1 = h + sha_b1 e + sha_ch e f g + k + w;
          t2 = sha_b0 a + sha_maj a b c
      in sha_rounds kws [t1 + t2, a, b, c, d + t1, e, f, g])"
| "sha_rounds _ st = st"

definition be_word :: "bytes \<Rightarrow> u32" where
  "be_word bs = foldl (\<lambda>acc b. acc * 256 + ucast b) 0 bs"

fun chunks_of :: "nat \<Rightarrow> 'a list \<Rightarrow> 'a list list" where
  "chunks_of n [] = []"
| "chunks_of n (x # xs) =
     (if n = 0 then [x # xs] else take n (x # xs) # chunks_of n (drop (n - 1) xs))"

definition sha_block :: "u32 list \<Rightarrow> bytes \<Rightarrow> u32 list" where
  "sha_block st blk =
     (let w = rev (sha_sched 48 (rev (map be_word (chunks_of 4 blk))))
      in map2 (+) st (sha_rounds (zip sha_k w) st))"

fun be_bytes :: "nat \<Rightarrow> nat \<Rightarrow> bytes" where
  "be_bytes 0 n = []"
| "be_bytes (Suc k) n = be_bytes k (n div 256) @ [mkb (n mod 256)]"

definition sha_pad :: "bytes \<Rightarrow> bytes" where
  "sha_pad m =
     (let z = (119 - length m mod 64) mod 64
      in m @ [0x80] @ replicate z 0 @ be_bytes 8 (8 * length m mod 2 ^ 64))"

definition hex_digit :: "nat \<Rightarrow> nat" where
  "hex_digit d = (if d < 10 then 48 + d else 87 + d)"

fun hex_digits :: "nat \<Rightarrow> nat \<Rightarrow> pystr" where
  "hex_digits 0 n = []"
| "hex_digits (Suc k) n = hex_digits k (n div 16) @ [hex_digit (n mod 16)]"

definition sha256_hex :: "bytes \<Rightarrow> pystr" where
  "sha256_hex m =
     concat (map (\<lambda>w. hex_digits 8 (unat w)) (foldl sha_block sha_init (chunks_of 64 (sha_pad m))))"

section \<open>The shape of a digest\<close>

text \<open>The pattern \<open>^[0-9a-f]{64}$\<close> of \<open>Sha256Digest\<close>.\<close>

definition lower_hex :: "nat \<Rightarrow> bool" where
  "lower_hex c \<longleftrightarrow> 48 \<le> c \<and> c \<le> 57 \<or> 97 \<le> c \<and> c \<le> 102"

definition sha256_digest_ok :: "pystr \<Rightarrow> bool" where
  "sha256_digest_ok s \<longleftrightarrow> length s = 64 \<and> list_all lower_hex s"

lemma length_hex_digits: "length (hex_digits k n) = k"
  by (induction k arbitrary: n) auto

lemma hex_digits_lower: "list_all lower_hex (hex_digits k n)"
proof (induction k arbitrary: n)
  case (Suc k)
  have "n mod 16 < 16" by simp
  then have "lower_hex (hex_digit (n mod 16))" unfolding hex_digit_def lower_hex_def by auto
  with Suc show ?case by simp
qed simp

lemma length_sha_rounds: "length st = 8 \<Longrightarrow> length (sha_rounds kws st) = 8"
  by (induction kws st rule: sha_rounds.induct) (simp_all add: Let_def)

lemma length_sha_block: "length st = 8 \<Longrightarrow> length (sha_block st blk) = 8"
  by (simp add: sha_block_def Let_def length_sha_rounds)

lemma length_sha_fold: "length st = 8 \<Longrightarrow> length (foldl sha_block st bl) = 8"
  by (induction bl arbitrary: st) (simp_all add: length_sha_block)

lemma length_concat_const: "(\<forall>x \<in> set xs. length (f x) = k) \<Longrightarrow> length (concat (map f xs)) = k * length xs"
  by (induction xs) auto

lemma sha256_hex_ok: "sha256_digest_ok (sha256_hex m)"
proof -
  have "length (foldl sha_block sha_init bl) = 8" for bl
    by (rule length_sha_fold) (simp add: sha_init_def)
  then have "length (sha256_hex m) = 64"
    unfolding sha256_hex_def by (subst length_concat_const [where k = 8]) (simp_all add: length_hex_digits)
  moreover have "list_all lower_hex (sha256_hex m)"
    using hex_digits_lower by (auto simp: sha256_hex_def list_all_iff)
  ultimately show ?thesis by (simp add: sha256_digest_ok_def)
qed

end
