(* ===== verification/Py_Json.thy ===== *)
theory Py_Json
  imports Py_Hash "HOL-Library.Multiset"
begin

text \<open>
  JSON values and the canonical form of a payload (\<open>models/policy.py\<close>:
  \<open>canonicalize_payload\<close>, \<open>payload_digest\<close>). The canonical bytes are what approvals are
  frozen to, what the idempotency cache compares and what audit events are digested from. The
  lemmas show that the canonical form does not depend on the order of keys and that two payloads
  with the same canonical bytes are equal up to the order of keys.
\<close>

section \<open>JSON values\<close>

text \<open>
  A finite float is represented by the text \<open>float.__repr__\<close> gives for it, which identifies it;
  the two other constructors are the values \<open>allow_nan=False\<close> refuses. A \<open>dict\<close> is the list of
  its items in insertion order; its keys are distinct.
\<close>

datatype pyfloat = Finite pystr | NotANumber | Infinite bool

datatype json =
    JNull
  | JBool bool
  | JInt int
  | JFloat pyfloat
  | JStr pystr
  | JList "json list"
  | JObj "(pystr \<times> json) list"

section \<open>Serialization\<close>

fun dec_nat :: "nat \<Rightarrow> pystr" where
  "dec_nat n = (if n < 10 then [48 + n] else dec_nat (n div 10) @ [48 + n mod 10])"

declare dec_nat.simps [simp del]

definition dec_int :: "int \<Rightarrow> pystr" where
  "dec_int i = (if i < 0 then 45 # dec_nat (nat (- i)) else dec_nat (nat i))"

text \<open>\<open>json.dumps(..., ensure_ascii=False)\<close> escapes the quote, the backslash and controls only.\<close>

definition escape_char :: "nat \<Rightarrow> pystr" where
  "escape_char c =
     (if c = 34 then [92, 34]
      else if c = 92 then [92, 92]
      else if c = 10 then [92, 110]
      else if c = 13 then [92, 114]
      else if c = 9 then [92, 116]
      else if c = 12 then [92, 102]
      else if c = 8 then [92, 98]
      else if c < 32 then [92, 117] @ hex_digits 4 c
      else [c])"

definition dump_str :: "pystr \<Rightarrow> pystr" where
  "dump_str s = 34 # concat (map escape_char s) @ [34]"

text \<open>\<open>sort_keys=True\<close>: the items of every object by key, keys compared code point by code point.\<close>

fun sort_keys :: "json \<Rightarrow> json" where
  "sort_keys (JList xs) = JList (map sort_keys xs)"
| "sort_keys (JObj kvs) = JObj (sort_key fst (map (\<lambda>kv. (fst kv, sort_keys (snd kv))) kvs))"
| "sort_keys j = j"

text \<open>The serializer proper; \<open>None\<close> is the \<open>ValueError\<close> of a float that is not finite.\<close>

fun dump_json :: "json \<Rightarrow> pystr option"
  and dump_items :: "json list \<Rightarrow> pystr option"
  and dump_members :: "(pystr \<times> json) list \<Rightarrow> pystr option" where
  "dump_json JNull = Some (ustr ''null'')"
| "dump_json (JBool b) = Some (if b then ustr ''true'' else ustr ''false'')"
| "dump_json (JInt i) = Some (dec_int i)"
| "dump_json (JFloat (Finite r)) = Some r"
| "dump_json (JFloat NotANumber) = None"
| "dump_json (JFloat (Infinite n)) = None"
| "dump_json (JStr s) = Some (dump_str s)"
| "dump_json (JList xs) = map_option (\<lambda>t. 91 # t) (dump_items xs)"
| "dump_json (JObj kvs) = map_option (\<lambda>t. 123 # t) (dump_members kvs)"
| "dump_items [] = Some [93]"
| "dump_items [x] = map_option (\<lambda>a. a @ [93]) (dump_json x)"
| "dump_items (x # y # xs) =
     (case dump_json x of None \<Rightarrow> None
      | Some a \<Rightarrow> map_option (\<lambda>t. a @ 44 # t) (dump_items (y # xs)))"
| "dump_members [] = Some [125]"
| "dump_members [(k, v)] = map_option (\<lambda>a. dump_str k @ 58 # a @ [125]) (dump_json v)"
| "dump_members ((k, v) # m # kvs) =
     (case dump_json v of None \<Rightarrow> None
      | Some a \<Rightarrow> map_option (\<lambda>t. dump_str k @ 58 # a @ 44 # t) (dump_members (m # kvs)))"

datatype canonical_error = CanonicalValueError | CanonicalUnicodeEncodeError

definition canonicalize_payload :: "json \<Rightarrow> canonical_error + bytes" where
  "canonicalize_payload j =
     (case dump_json (sort_keys j) of
        None \<Rightarrow> Inl CanonicalValueError
      | Some t \<Rightarrow> (case utf8_encode t of None \<Rightarrow> Inl CanonicalUnicodeEncodeError | Some b \<Rightarrow> Inr b))"

definition payload_digest :: "bytes \<Rightarrow> pystr" where
  "payload_digest b = sha256_hex b"

lemma payload_digest_ok: "sha256_digest_ok (payload_digest b)"
  by (simp add: payload_digest_def sha256_hex_ok)

section \<open>The canonical form identifies the payload\<close>

text \<open>What \<open>float.__repr__\<close> yields for a finite float: digits, signs, a point or an exponent.\<close>

definition num_char :: "nat \<Rightarrow> bool" where
  "num_char c \<longleftrightarrow> 48 \<le> c \<and> c \<le> 57 \<or> c = 45 \<or> c = 43 \<or> c = 46 \<or> c = 101"

definition float_repr_ok :: "pystr \<Rightarrow> bool" where
  "float_repr_ok r \<longleftrightarrow> list_all num_char r \<and> (46 \<in> set r \<or> 101 \<in> set r)"

fun json_wf :: "json \<Rightarrow> bool" where
  "json_wf (JFloat (Finite r)) = float_repr_ok r"
| "json_wf (JList xs) = list_all json_wf xs"
| "json_wf (JObj kvs) = list_all (\<lambda>kv. json_wf (snd kv)) kvs"
| "json_wf _ = True"

subsection \<open>Strings\<close>

definition unhex_digit :: "nat \<Rightarrow> nat" where
  "unhex_digit c = (if c < 58 then c - 48 else c - 87)"

definition unescape :: "pystr \<Rightarrow> nat \<times> pystr" where
  "unescape t =
     (case t of
        [] \<Rightarrow> (0, [])
      | c # r \<Rightarrow>
          if c \<noteq> 92 then (c, r)
          else (case r of
              [] \<Rightarrow> (0, [])
            | d # q \<Rightarrow>
                if d = 110 then (10, q)
                else if d = 114 then (13, q)
                else if d = 116 then (9, q)
                else if d = 102 then (12, q)
                else if d = 98 then (8, q)
                else if d = 117 then (unhex_digit (q ! 2) * 16 + unhex_digit (q ! 3), drop 4 q)
                else (d, q)))"

lemma unhex_hex: "d < 16 \<Longrightarrow> unhex_digit (hex_digit d) = d"
  by (auto simp: unhex_digit_def hex_digit_def)

lemma hex_digits_4:
  "hex_digits 4 c = [hex_digit (c div 16 div 16 div 16 mod 16), hex_digit (c div 16 div 16 mod 16),
     hex_digit (c div 16 mod 16), hex_digit (c mod 16)]"
proof -
  have "(4::nat) = Suc (Suc (Suc (Suc 0)))" by simp
  then show ?thesis by (simp only: hex_digits.simps append_Nil append_Cons)
qed

lemma unescape_escape: "unescape (escape_char c @ t) = (c, t)"
proof (cases "c < 32")
  case True
  then have "unhex_digit (hex_digit (c div 16 mod 16)) * 16 + unhex_digit (hex_digit (c mod 16)) = c"
    by (simp add: unhex_hex)
  then show ?thesis
    using True by (simp add: escape_char_def unescape_def hex_digits_4)
next
  case False
  then show ?thesis by (auto simp: escape_char_def unescape_def)
qed

lemma escape_char_inject: "escape_char c @ t = escape_char d @ u \<longleftrightarrow> c = d \<and> t = u"
  by (metis Pair_inject unescape_escape)

lemma escape_char_head: "escape_char c @ t \<noteq> 34 # u" "34 # u \<noteq> escape_char c @ t"
  by (auto simp: escape_char_def)

lemma escape_text_inject:
  "concat (map escape_char s) @ 34 # r = concat (map escape_char t) @ 34 # q \<Longrightarrow> s = t \<and> r = q"
proof (induction s arbitrary: t)
  case Nil
  then show ?case by (cases t) (auto simp: escape_char_head)
next
  case (Cons c s)
  then show ?case by (cases t) (auto simp: escape_char_head escape_char_inject)
qed

lemma dump_str_inject: "dump_str s @ r = dump_str t @ q \<Longrightarrow> s = t \<and> r = q"
  by (rule escape_text_inject) (simp add: dump_str_def)

subsection \<open>Numbers\<close>

lemma dec_nat_num: "list_all (\<lambda>c. 48 \<le> c \<and> c \<le> 57) (dec_nat n)"
proof (induction n rule: dec_nat.induct)
  case (1 n)
  have "n mod 10 < 10" by simp
  then show ?case using 1 by (subst dec_nat.simps) auto
qed

lemma dec_nat_nonempty: "dec_nat n \<noteq> []"
  by (subst dec_nat.simps) auto

definition undec :: "pystr \<Rightarrow> nat" where
  "undec s = foldl (\<lambda>acc c. acc * 10 + (c - 48)) 0 s"

lemma undec_dec: "undec (dec_nat n) = n"
proof (induction n rule: dec_nat.induct)
  case (1 n)
  show ?case
  proof (cases "n < 10")
    case True
    then show ?thesis by (subst dec_nat.simps) (simp add: undec_def)
  next
    case False
    then show ?thesis using 1 by (subst dec_nat.simps) (simp add: undec_def)
  qed
qed

lemma dec_nat_inject [simp]: "dec_nat m = dec_nat n \<longleftrightarrow> m = n"
  by (metis undec_dec)

lemma dec_nat_head: "dec_nat n = c # t \<Longrightarrow> 48 \<le> c \<and> c \<le> 57"
  using dec_nat_num [of n] by simp

lemma dec_int_inject: "dec_int i = dec_int j \<longleftrightarrow> i = j"
proof
  assume eq: "dec_int i = dec_int j"
  have ne: "45 # dec_nat m \<noteq> dec_nat n" "dec_nat n \<noteq> 45 # dec_nat m" for m n
    using dec_nat_head [of n 45 "dec_nat m"] by auto
  show "i = j" using eq ne by (auto simp: dec_int_def split: if_splits)
qed simp

lemma dec_int_num: "list_all num_char (dec_int i)"
  and dec_int_no_point: "46 \<notin> set (dec_int i)" "101 \<notin> set (dec_int i)"
  and dec_int_nonempty: "dec_int i \<noteq> []"
  using dec_nat_num [of "nat i"] dec_nat_num [of "nat (- i)"]
  by (auto simp: dec_int_def num_char_def list_all_iff dec_nat_nonempty)

text \<open>A number ends where a delimiter or the end of the text begins.\<close>

definition ends_value :: "pystr \<Rightarrow> bool" where
  "ends_value r \<longleftrightarrow> r = [] \<or> hd r = 44 \<or> hd r = 93 \<or> hd r = 125"

lemma ends_value_simps [simp]: "ends_value []" "ends_value (44 # r)" "ends_value (93 # r)" "ends_value (125 # r)"
  by (simp_all add: ends_value_def)

lemma takeWhile_number: "list_all num_char a \<Longrightarrow> ends_value r \<Longrightarrow> takeWhile num_char (a @ r) = a"
  by (cases r) (auto simp: takeWhile_append list_all_iff ends_value_def num_char_def)

lemma number_inject:
  assumes "list_all num_char a" "list_all num_char b" "ends_value r" "ends_value q" "a @ r = b @ q"
  shows "a = b \<and> r = q"
  using assms takeWhile_number by (metis append_same_eq same_append_eq)

subsection \<open>Values\<close>

text \<open>The class of a value is visible in the first character of its text.\<close>

fun head_of :: "json \<Rightarrow> nat set" where
  "head_of JNull = {110}"
| "head_of (JBool b) = (if b then {116} else {102})"
| "head_of (JInt _) = {c. num_char c}"
| "head_of (JFloat _) = {c. num_char c}"
| "head_of (JStr _) = {34}"
| "head_of (JList _) = {91}"
| "head_of (JObj _) = {123}"

lemma num_char_disjoint:
  "\<not> num_char 110" "\<not> num_char 116" "\<not> num_char 102" "\<not> num_char 34" "\<not> num_char 91" "\<not> num_char 123"
  "\<not> num_char 93" "\<not> num_char 125" "\<not> num_char 44"
  by (simp_all add: num_char_def)

lemma float_repr_head: "float_repr_ok r \<Longrightarrow> \<exists>c t. r = c # t \<and> num_char c"
  by (cases r) (auto simp: float_repr_ok_def)

lemma dec_int_head: "\<exists>c t. dec_int i = c # t \<and> num_char c"
  using dec_int_num [of i] dec_int_nonempty [of i] by (cases "dec_int i") auto

lemma dump_json_head:
  assumes "dump_json j = Some a" "json_wf j"
  shows "\<exists>c t. a = c # t \<and> c \<in> head_of j"
proof (cases j)
  case (JInt i)
  then show ?thesis using assms dec_int_head [of i] by simp
next
  case (JFloat x)
  then show ?thesis using assms float_repr_head by (cases x) auto
next
  case (JStr s)
  then show ?thesis using assms by (auto simp: dump_str_def)
qed (use assms in \<open>auto split: if_splits\<close>)

lemma same_head:
  assumes "dump_json j = Some a" "json_wf j" "dump_json j' = Some a'" "json_wf j'" "a @ r = a' @ r'"
  shows "head_of j \<inter> head_of j' \<noteq> {}"
  using dump_json_head [OF assms(1,2)] dump_json_head [OF assms(3,4)] assms(5) by auto

lemma dump_value_not_end:
  "dump_json j = Some a \<Longrightarrow> json_wf j \<Longrightarrow> a @ r \<noteq> 93 # q"
  "dump_json j = Some a \<Longrightarrow> json_wf j \<Longrightarrow> 93 # q \<noteq> a @ r"
  using dump_json_head [of j a]
  by (cases j; auto simp: num_char_disjoint split: if_splits)+

lemma dump_int_float:
  "float_repr_ok r \<Longrightarrow> dec_int i \<noteq> r"
  using dec_int_no_point by (auto simp: float_repr_ok_def)

lemma dump_number_inject:
  assumes "dump_json j = Some a" "json_wf j" "dump_json j' = Some a'" "json_wf j'"
    "a @ r = a' @ r'" "ends_value r" "ends_value r'"
    "case j of JInt _ \<Rightarrow> True | JFloat _ \<Rightarrow> True | _ \<Rightarrow> False"
  shows "j = j' \<and> r = r'"
proof -
  have num: "list_all num_char b" if "dump_json k = Some b" "json_wf k"
      "case k of JInt _ \<Rightarrow> True | JFloat _ \<Rightarrow> True | _ \<Rightarrow> False" for k b
    using that dec_int_num
    by (cases k; auto simp: float_repr_ok_def split: json.splits)
       (metis dump_json.simps(4-6) float_repr_ok_def json_wf.simps(1) option.distinct(1) option.inject pyfloat.exhaust)
  have j': "case j' of JInt _ \<Rightarrow> True | JFloat _ \<Rightarrow> True | _ \<Rightarrow> False"
    using same_head [OF assms(1-5)] assms(8)
    by (cases j; cases j'; auto simp: num_char_disjoint split: if_splits)
  have "a = a' \<and> r = r'"
    using num [OF assms(1,2,8)] num [OF assms(3,4) j'] assms(5-7) by (intro number_inject)
  then show ?thesis
    using assms(1-4,8) j'
    by (cases j; cases j'; auto simp: dec_int_inject dump_int_float)
       (metis dump_json.simps(4-6) dump_int_float json_wf.simps(1) option.distinct(1) option.inject pyfloat.exhaust)+
qed

lemma dump_items_nonempty: "dump_items xs = Some a \<Longrightarrow> a \<noteq> []"
  by (cases xs rule: dump_items.cases) (auto split: option.splits)

lemma list3_cases [case_names none one more]:
  "(xs = [] \<Longrightarrow> P) \<Longrightarrow> (\<And>x. xs = [x] \<Longrightarrow> P) \<Longrightarrow> (\<And>x y ys. xs = x # y # ys \<Longrightarrow> P) \<Longrightarrow> P"
  by (cases xs rule: remdups_adj.cases) auto

lemma pairs3_cases [case_names none one more]:
  "(xs = [] \<Longrightarrow> P) \<Longrightarrow> (\<And>k v. xs = [(k, v)] \<Longrightarrow> P) \<Longrightarrow>
   (\<And>k v m ys. xs = (k, v) # m # ys \<Longrightarrow> P) \<Longrightarrow> P"
  by (cases xs rule: list3_cases) auto

text \<open>
  The text of a value determines the value, and so do the texts of the items of a list and of the
  members of an object up to their closing bracket.
\<close>

lemma dump_inject_all:
  "dump_json j = Some a \<Longrightarrow> json_wf j \<Longrightarrow> dump_json j' = Some a' \<Longrightarrow> json_wf j' \<Longrightarrow>
     a @ r = a' @ r' \<Longrightarrow> ends_value r \<Longrightarrow> ends_value r' \<Longrightarrow> j = j' \<and> r = r'"
  "dump_items xs = Some b \<Longrightarrow> list_all json_wf xs \<Longrightarrow> dump_items xs' = Some b' \<Longrightarrow>
     list_all json_wf xs' \<Longrightarrow> b @ r = b' @ r' \<Longrightarrow> xs = xs' \<and> r = r'"
  "dump_members ms = Some c \<Longrightarrow> list_all (\<lambda>kv. json_wf (snd kv)) ms \<Longrightarrow> dump_members ms' = Some c' \<Longrightarrow>
     list_all (\<lambda>kv. json_wf (snd kv)) ms' \<Longrightarrow> c @ r = c' @ r' \<Longrightarrow> ms = ms' \<and> r = r'"
proof (induction j and xs and ms arbitrary: a j' a' r r' and b xs' b' r r' and c ms' c' r r'
    rule: dump_json_dump_items_dump_members.induct)
  case 1
  then show ?case using same_head [of JNull a j' a' r r'] by (cases j') (auto simp: num_char_disjoint split: if_splits)
next
  case (2 b)
  then show ?case using same_head [of "JBool b" a j' a' r r'] by (cases j') (auto simp: num_char_disjoint split: if_splits)
next
  case (3 i)
  then show ?case using dump_number_inject [of "JInt i" a j' a' r r'] by simp
next
  case (4 f)
  then show ?case using dump_number_inject [of "JFloat (Finite f)" a j' a' r r'] by simp
next
  case (7 s)
  then show ?case using same_head [of "JStr s" a j' a' r r']
    by (cases j') (auto simp: num_char_disjoint dest: dump_str_inject split: if_splits)
next
  case (8 xs)
  obtain b where b: "dump_items xs = Some b" "a = 91 # b" using "8.prems"(1) by auto
  obtain ys where j': "j' = JList ys"
    using same_head [OF "8.prems"(1-5)] by (cases j') (auto simp: num_char_disjoint split: if_splits)
  obtain b' where b': "dump_items ys = Some b'" "a' = 91 # b'" using "8.prems"(3) j' by auto
  have "xs = ys \<and> r = r'"
    using "8.prems" b b' j' by (intro "8.IH" [of b ys b' r r']) auto
  then show ?case using j' by simp
next
  case (9 kvs)
  obtain b where b: "dump_members kvs = Some b" "a = 123 # b" using "9.prems"(1) by auto
  obtain ys where j': "j' = JObj ys"
    using same_head [OF "9.prems"(1-5)] by (cases j') (auto simp: num_char_disjoint split: if_splits)
  obtain b' where b': "dump_members ys = Some b'" "a' = 123 # b'" using "9.prems"(3) j' by auto
  have "kvs = ys \<and> r = r'"
    using "9.prems" b b' j' by (intro "9.IH" [of b ys b' r r']) auto
  then show ?case using j' by simp
next
  case (10 b xs' b' r r')
  then show ?case
    by (cases xs' rule: list3_cases) (auto simp: dump_value_not_end split: option.splits)
next
  case (11 x b xs' b' r r')
  obtain a where a: "dump_json x = Some a" "b = a @ [93]" using "11.prems"(1) by auto
  show ?case
  proof (cases xs' rule: list3_cases)
    case none
    then show ?thesis using "11.prems" a by (auto simp: dump_value_not_end)
  next
    case (one y)
    then obtain a' where a': "dump_json y = Some a'" "b' = a' @ [93]" using "11.prems" by auto
    have "x = y \<and> 93 # r = 93 # r'"
      using "11.prems" one a a' by (intro "11.IH" [of a y a' "93 # r" "93 # r'"]) auto
    then show ?thesis using one by simp
  next
    case (more y z zs)
    then obtain a' t where a': "dump_json y = Some a'" "b' = a' @ 44 # t"
      using "11.prems" by (auto split: option.splits)
    have "x = y \<and> 93 # r = 44 # t @ r'"
      using "11.prems" more a a' by (intro "11.IH" [of a y a' "93 # r" "44 # t @ r'"]) auto
    then show ?thesis by simp
  qed
next
  case (12 x y xs b xs' b' r r')
  obtain a t where a: "dump_json x = Some a" "dump_items (y # xs) = Some t" "b = a @ 44 # t"
    using "12.prems"(1) by (auto split: option.splits)
  show ?case
  proof (cases xs' rule: list3_cases)
    case none
    then show ?thesis using "12.prems" a by (auto simp: dump_value_not_end)
  next
    case (one z)
    then obtain a' where a': "dump_json z = Some a'" "b' = a' @ [93]" using "12.prems" by auto
    have "x = z \<and> 44 # t @ r = 93 # r'"
      using "12.prems" one a a' by (intro "12.IH"(1) [of a z a' "44 # t @ r" "93 # r'"]) auto
    then show ?thesis by simp
  next
    case (more z w zs)
    then obtain a' u where a': "dump_json z = Some a'" "dump_items (w # zs) = Some u" "b' = a' @ 44 # u"
      using "12.prems" by (auto split: option.splits)
    have "x = z \<and> 44 # t @ r = 44 # u @ r'"
      using "12.prems" more a a' by (intro "12.IH"(1) [of a z a' "44 # t @ r" "44 # u @ r'"]) auto
    moreover from this have "y # xs = w # zs \<and> r = r'"
      using "12.prems" more a a' by (intro "12.IH"(2) [of a t "w # zs" u r r']) auto
    ultimately show ?thesis using more by simp
  qed
next
  case (13 c ms' c' r r')
  then show ?case
    by (cases ms' rule: pairs3_cases) (auto simp: dump_str_def split: option.splits)
next
  case (14 k v c ms' c' r r')
  obtain a where a: "dump_json v = Some a" "c = dump_str k @ 58 # a @ [125]"
    using "14.prems"(1) by auto
  show ?case
  proof (cases ms' rule: pairs3_cases)
    case none
    then show ?thesis using "14.prems" a by (auto simp: dump_str_def)
  next
    case (one l w)
    then obtain a' where a': "dump_json w = Some a'" "c' = dump_str l @ 58 # a' @ [125]" using "14.prems" by auto
    have k: "k = l \<and> 58 # a @ 125 # r = 58 # a' @ 125 # r'"
      using "14.prems" one a a' by (intro dump_str_inject) auto
    have "v = w \<and> 125 # r = 125 # r'"
      using "14.prems" one a a' k by (intro "14.IH" [of a w a' "125 # r" "125 # r'"]) auto
    then show ?thesis using one k by simp
  next
    case (more l w m ws)
    then obtain a' t where a': "dump_json w = Some a'" "c' = dump_str l @ 58 # a' @ 44 # t"
      using "14.prems" by (auto split: option.splits)
    have k: "k = l \<and> 58 # a @ 125 # r = 58 # a' @ 44 # t @ r'"
      using "14.prems" more a a' by (intro dump_str_inject) auto
    have "v = w \<and> 125 # r = 44 # t @ r'"
      using "14.prems" more a a' k by (intro "14.IH" [of a w a' "125 # r" "44 # t @ r'"]) auto
    then show ?thesis by simp
  qed
next
  case (15 k v m kvs c ms' c' r r')
  obtain a t where a: "dump_json v = Some a" "dump_members (m # kvs) = Some t"
    "c = dump_str k @ 58 # a @ 44 # t" using "15.prems"(1) by (auto split: option.splits)
  show ?case
  proof (cases ms' rule: pairs3_cases)
    case none
    then show ?thesis using "15.prems" a by (auto simp: dump_str_def)
  next
    case (one l w)
    then obtain a' where a': "dump_json w = Some a'" "c' = dump_str l @ 58 # a' @ [125]" using "15.prems" by auto
    have k: "k = l \<and> 58 # a @ 44 # t @ r = 58 # a' @ 125 # r'"
      using "15.prems" one a a' by (intro dump_str_inject) auto
    have "v = w \<and> 44 # t @ r = 125 # r'"
      using "15.prems" one a a' k by (intro "15.IH"(1) [of a w a' "44 # t @ r" "125 # r'"]) auto
    then show ?thesis by simp
  next
    case (more l w n ws)
    then obtain a' u where a': "dump_json w = Some a'" "dump_members (n # ws) = Some u"
      "c' = dump_str l @ 58 # a' @ 44 # u" using "15.prems" by (auto split: option.splits)
    have k: "k = l \<and> 58 # a @ 44 # t @ r = 58 # a' @ 44 # u @ r'"
      using "15.prems" more a a' by (intro dump_str_inject) auto
    have v: "v = w \<and> 44 # t @ r = 44 # u @ r'"
      using "15.prems" more a a' k by (intro "15.IH"(1) [of a w a' "44 # t @ r" "44 # u @ r'"]) auto
    have "m # kvs = n # ws \<and> r = r'"
      using "15.prems" more a a' v by (intro "15.IH"(2) [of a t "n # ws" u r r']) auto
    then show ?thesis using more k v by simp
  qed
qed auto

subsection \<open>Canonical bytes\<close>

text \<open>Two payloads are the same when they differ in the order of keys only.\<close>

definition same_payload :: "json \<Rightarrow> json \<Rightarrow> bool" where
  "same_payload j k \<longleftrightarrow> sort_keys j = sort_keys k"

lemma json_wf_sort_keys: "json_wf j \<Longrightarrow> json_wf (sort_keys j)"
proof (induction j rule: sort_keys.induct)
  case (1 xs)
  then show ?case by (simp add: list_all_iff)
next
  case (2 kvs)
  have "json_wf (sort_keys (snd kv))" if "kv \<in> set kvs" for kv
    using that 2 by (auto simp: list_all_iff)
  then show ?case by (auto simp: list_all_iff)
qed auto

lemma canonicalize_payload_text:
  "canonicalize_payload j = Inr b \<longleftrightarrow> (\<exists>t. dump_json (sort_keys j) = Some t \<and> utf8_encode t = Some b)"
  by (auto simp: canonicalize_payload_def split: option.splits)

lemma same_payload_canonical: "same_payload j k \<Longrightarrow> canonicalize_payload j = canonicalize_payload k"
  by (simp add: same_payload_def canonicalize_payload_def)

lemma canonical_same_payload:
  assumes "json_wf j" "json_wf k" "canonicalize_payload j = Inr b" "canonicalize_payload k = Inr b"
  shows "same_payload j k"
proof -
  obtain t u where t: "dump_json (sort_keys j) = Some t" "utf8_encode t = Some b"
    and u: "dump_json (sort_keys k) = Some u" "utf8_encode u = Some b"
    using assms(3,4) by (auto simp: canonicalize_payload_text)
  have "t = u" using t(2) u(2) by (metis option.inject utf8_decode_encode)
  then have "sort_keys j = sort_keys k \<and> ([] :: pystr) = []"
    using t(1) u(1) assms(1,2) by (intro dump_inject_all(1) [of _ t _ u]) (auto intro: json_wf_sort_keys)
  then show ?thesis by (simp add: same_payload_def)
qed

lemma same_payload_perm:
  assumes "mset kvs = mset kvs'" "distinct (map fst kvs)"
  shows "same_payload (JObj kvs) (JObj kvs')"
proof -
  let ?f = "\<lambda>kv. (fst kv, sort_keys (snd kv))"
  have dist: "distinct (map fst (map ?f kvs))" using assms(2) by (simp add: comp_def)
  have m: "mset (map ?f kvs) = mset (map ?f kvs')" using assms(1) by simp
  have "sort_key fst (map ?f kvs) = sort_key fst (map ?f kvs')"
  proof (rule sort_key_inj_key_eq)
    show "mset (map ?f kvs) = mset (sort_key fst (map ?f kvs'))" using m by simp
    show "inj_on fst (set (map ?f kvs))" using dist distinct_map by blast
  qed simp
  then show ?thesis by (simp add: same_payload_def)
qed

section \<open>Which payloads have a canonical form\<close>

text \<open>Text of Unicode scalar values and finite floats are enough.\<close>

definition scalar_value :: "nat \<Rightarrow> bool" where
  "scalar_value c \<longleftrightarrow> c < 0x110000 \<and> \<not> surrogate c"

lemma scalar_small: "c < 0xD800 \<Longrightarrow> scalar_value c"
  by (simp add: scalar_value_def surrogate_def)

lemma utf8_encode_scalar: "list_all scalar_value s \<Longrightarrow> \<exists>b. utf8_encode s = Some b"
  by (induction s) (auto simp: scalar_value_def utf8_char_def)

lemma scalar_hex: "list_all scalar_value (hex_digits 4 c)"
  by (rule list.pred_mono_strong [OF hex_digits_lower [of 4 c]]) (auto simp: lower_hex_def intro: scalar_small)

lemma scalar_escape: "scalar_value c \<Longrightarrow> list_all scalar_value (escape_char c)"
  using scalar_hex [of c] by (simp add: escape_char_def scalar_small)

lemma scalar_dump_str: "list_all scalar_value s \<Longrightarrow> list_all scalar_value (dump_str s)"
proof -
  assume "list_all scalar_value s"
  then have "list_all scalar_value (concat (map escape_char s))" by (induction s) (simp_all add: scalar_escape)
  then show ?thesis by (simp add: dump_str_def scalar_small)
qed

lemma scalar_num: "list_all num_char s \<Longrightarrow> list_all scalar_value s"
  by (erule list.pred_mono_strong) (auto simp: num_char_def intro: scalar_small)

fun json_scalar :: "json \<Rightarrow> bool" where
  "json_scalar (JFloat (Finite r)) = list_all scalar_value r"
| "json_scalar (JFloat _) = False"
| "json_scalar (JStr s) = list_all scalar_value s"
| "json_scalar (JList xs) = list_all json_scalar xs"
| "json_scalar (JObj kvs) = list_all (\<lambda>kv. list_all scalar_value (fst kv) \<and> json_scalar (snd kv)) kvs"
| "json_scalar _ = True"

lemma json_scalar_sort_keys: "json_scalar j \<Longrightarrow> json_scalar (sort_keys j)"
  by (induction j rule: sort_keys.induct) (auto simp: list_all_iff)

lemma dump_scalar:
  "json_scalar j \<Longrightarrow> \<exists>t. dump_json j = Some t \<and> list_all scalar_value t"
  "list_all json_scalar xs \<Longrightarrow> \<exists>t. dump_items xs = Some t \<and> list_all scalar_value t"
  "list_all (\<lambda>kv. list_all scalar_value (fst kv) \<and> json_scalar (snd kv)) kvs \<Longrightarrow>
    \<exists>t. dump_members kvs = Some t \<and> list_all scalar_value t"
proof (induction j and xs and kvs rule: dump_json_dump_items_dump_members.induct)
  case (3 i)
  then show ?case using dec_int_num scalar_num by auto
qed (auto simp: scalar_small scalar_dump_str ustr_def)

lemma canonicalize_scalar: "json_scalar j \<Longrightarrow> \<exists>b. canonicalize_payload j = Inr b"
  using dump_scalar(1) [OF json_scalar_sort_keys] utf8_encode_scalar by (fastforce simp: canonicalize_payload_text)

end
