(* ===== verification/Tool_Policy.thy ===== *)
theory Tool_Policy
  imports Py_Json
begin

text \<open>
  The tool registry and the policy decision taken before any dispatch
  (\<open>models/policy.py\<close>: the policy models; \<open>gateway/policy.py\<close>: the constant tables,
  \<open>tool_policy_registry\<close>, \<open>registered_tool_names\<close>, \<open>evaluate_tool\<close>). The lemmas give the
  decision for every name and show that building the registry never raises.
\<close>

section \<open>Policy models\<close>

datatype trust_tier = FULL | UNTRUSTED

datatype policy_decision = ALLOW | REQUIRE_APPROVAL | DENY

datatype operation_class = READ_ONLY | USER_MUTATION | DESTRUCTIVE | PRIVILEGED

record tool_annotations =
  read_only_hint :: bool
  destructive_hint :: bool
  idempotent_hint :: bool
  open_world_hint :: bool

record tool_policy =
  tp_name :: string
  tp_operation_class :: operation_class
  tp_annotations :: tool_annotations
  tp_approval_required :: bool

text \<open>The pattern \<open>^[a-z][a-z0-9_]*$\<close> of a tool name.\<close>

definition lower_char :: "char \<Rightarrow> bool" where
  "lower_char c \<longleftrightarrow> 97 \<le> (of_char c :: nat) \<and> (of_char c :: nat) \<le> 122"

definition digit_char :: "char \<Rightarrow> bool" where
  "digit_char c \<longleftrightarrow> 48 \<le> (of_char c :: nat) \<and> (of_char c :: nat) \<le> 57"

fun tool_name_ok :: "string \<Rightarrow> bool" where
  "tool_name_ok [] = False"
| "tool_name_ok (c # cs) =
     (lower_char c \<and> list_all (\<lambda>d. lower_char d \<or> digit_char d \<or> d = CHR ''_'') cs)"

datatype policy_error = PatternError | ToolPolicyConsistencyError string

text \<open>Constructing a \<open>ToolPolicy\<close>: the field pattern, then the validator of the model.\<close>

definition ensure_consistent_read_only_policy :: "tool_policy \<Rightarrow> policy_error + tool_policy" where
  "ensure_consistent_read_only_policy p =
     (let is_read_only = (tp_operation_class p = READ_ONLY) in
      if read_only_hint (tp_annotations p) \<noteq> is_read_only
      then Inl (ToolPolicyConsistencyError (tp_name p))
      else if is_read_only \<and> (destructive_hint (tp_annotations p) \<or> tp_approval_required p)
      then Inl (ToolPolicyConsistencyError (tp_name p))
      else Inr p)"

definition make_tool_policy :: "tool_policy \<Rightarrow> policy_error + tool_policy" where
  "make_tool_policy p =
     (if tool_name_ok (tp_name p) then ensure_consistent_read_only_policy p else Inl PatternError)"

section \<open>The constant tables\<close>

definition prohibited_tool_names :: "string list" where
  "prohibited_tool_names =
     [''approval_grant'', ''approval_deny'', ''approval_list'', ''approve'', ''deny'']"

definition hard_deny_operation_names :: "string list" where
  "hard_deny_operation_names =
     [''credential_store_export'', ''windows_logon_bypass'', ''uac_secure_desktop_automation'',
      ''arbitrary_system_shell'', ''raw_disk_device_access'']"

definition read_only_names :: "string list" where
  "read_only_names =
     [''status'', ''fs_list'', ''fs_stat'', ''fs_read'', ''process_list'', ''computer_observe'',
      ''uia_find'', ''browser_status'', ''browser_snapshot'', ''browser_extract'', ''codex_status'',
      ''job_status'', ''job_output'']"

definition destructive_names :: "string list" where
  "destructive_names =
     [''fs_delete'', ''process_kill'', ''job_start'', ''job_cancel'', ''system_reboot'', ''system_shutdown'']"

definition privileged_names :: "string list" where
  "privileged_names = [''system_reboot'', ''system_shutdown'']"

definition open_world_names :: "string list" where
  "open_world_names =
     [''shell_run'', ''browser_status'', ''browser_open'', ''browser_navigate'', ''browser_snapshot'',
      ''browser_click'', ''browser_type'', ''browser_extract'', ''browser_close'', ''codex_run'', ''job_start'']"

definition idempotent_names :: "string list" where
  "idempotent_names =
     read_only_names @ destructive_names @
     [''fs_write'', ''fs_mkdir'', ''computer_move'', ''browser_close'', ''system_lock'', ''system_sleep'']"

definition tool_names :: "string list" where
  "tool_names =
     [''status'', ''shell_run'', ''fs_list'', ''fs_stat'', ''fs_read'', ''fs_write'', ''fs_move'',
      ''fs_copy'', ''fs_delete'', ''fs_mkdir'', ''process_list'', ''process_start'', ''process_kill'',
      ''app_open'', ''computer_observe'', ''computer_click'', ''computer_move'', ''computer_scroll'',
      ''computer_type'', ''computer_hotkey'', ''computer_key'', ''uia_find'', ''uia_action'',
      ''browser_status'', ''browser_open'', ''browser_navigate'', ''browser_snapshot'',
      ''browser_click'', ''browser_type'', ''browser_extract'', ''browser_close'', ''codex_status'',
      ''codex_run'', ''job_start'', ''job_status'', ''job_output'', ''job_cancel'', ''system_lock'',
      ''system_reboot'', ''system_shutdown'', ''system_sleep'']"

definition operation_class_of :: "string \<Rightarrow> operation_class" where
  "operation_class_of n =
     (if n \<in> set read_only_names then READ_ONLY
      else if n \<in> set privileged_names then PRIVILEGED
      else if n \<in> set destructive_names then DESTRUCTIVE
      else USER_MUTATION)"

definition registry_entry :: "string \<Rightarrow> tool_policy" where
  "registry_entry n =
     \<lparr>tp_name = n, tp_operation_class = operation_class_of n,
      tp_annotations =
        \<lparr>read_only_hint = (n \<in> set read_only_names), destructive_hint = (n \<in> set destructive_names),
         idempotent_hint = (n \<in> set idempotent_names), open_world_hint = (n \<in> set open_world_names)\<rparr>,
      tp_approval_required = (n \<in> set privileged_names \<or> n = ''job_start'')\<rparr>"

definition tool_policies :: "(policy_error + tool_policy) list" where
  "tool_policies = map (\<lambda>n. make_tool_policy (registry_entry n)) tool_names"

text \<open>The module raises when it is imported if one entry is inconsistent.\<close>

fun collect_ok :: "('e + 'a) list \<Rightarrow> 'e + 'a list" where
  "collect_ok [] = Inr []"
| "collect_ok (Inl e # rs) = Inl e"
| "collect_ok (Inr x # rs) = bindR (collect_ok rs) (\<lambda>xs. Inr (x # xs))"

definition tool_policy_registry :: "policy_error + tool_policy list" where
  "tool_policy_registry = collect_ok tool_policies"

text \<open>A dict display keeps the last of equal keys, hence the reversal.\<close>

definition policy_by_name :: "string \<rightharpoonup> tool_policy" where
  "policy_by_name =
     (case tool_policy_registry of
        Inl _ \<Rightarrow> Map.empty
      | Inr ps \<Rightarrow> map_of (rev (map (\<lambda>p. (tp_name p, p)) ps)))"

definition registered_tool_names :: "string set" where
  "registered_tool_names = dom policy_by_name"

datatype unknown_tool = UnknownToolError string

definition evaluate_tool :: "string \<Rightarrow> unknown_tool + policy_decision" where
  "evaluate_tool n =
     (if n \<in> set prohibited_tool_names then Inl (UnknownToolError n)
      else if n \<in> set hard_deny_operation_names then Inr DENY
      else (case policy_by_name n of
              None \<Rightarrow> Inl (UnknownToolError n)
            | Some entry \<Rightarrow> Inr (if tp_approval_required entry then REQUIRE_APPROVAL else ALLOW)))"

section \<open>The registry\<close>

lemma collect_ok_map: "(\<forall>x \<in> set xs. f x = Inr (g x)) \<Longrightarrow> collect_ok (map f xs) = Inr (map g xs)"
  by (induction xs) auto

lemma read_only_disjoint: "n \<in> set read_only_names \<Longrightarrow> n \<notin> set destructive_names \<and> n \<notin> set privileged_names \<and> n \<noteq> ''job_start''"
  by (auto simp: read_only_names_def destructive_names_def privileged_names_def)

lemma ensure_registry_entry: "ensure_consistent_read_only_policy (registry_entry n) = Inr (registry_entry n)"
  using read_only_disjoint [of n]
  by (auto simp: ensure_consistent_read_only_policy_def registry_entry_def operation_class_of_def Let_def)

lemma tool_names_ok: "\<forall>n \<in> set tool_names. tool_name_ok n"
  by (simp add: tool_names_def lower_char_def digit_char_def)

lemma registry_entry_sel [simp]:
  "tp_name (registry_entry n) = n"
  "tp_approval_required (registry_entry n) = (n \<in> set privileged_names \<or> n = ''job_start'')"
  by (simp_all add: registry_entry_def)

lemma tool_policies_eq: "tool_policy_registry = Inr (map registry_entry tool_names)"
  unfolding tool_policy_registry_def tool_policies_def
  by (rule collect_ok_map) (use tool_names_ok in \<open>auto simp: make_tool_policy_def ensure_registry_entry\<close>)

lemma map_of_rev_keys: "map_of (rev (map (\<lambda>n. (n, f n)) ns)) n = (if n \<in> set ns then Some (f n) else None)"
proof -
  have "map_of (map (\<lambda>n. (n, f n)) ms) n = (if n \<in> set ms then Some (f n) else None)" for ms
    by (induction ms) auto
  from this [of "rev ns"] show ?thesis by (simp add: rev_map)
qed

lemma policy_by_name_eq: "policy_by_name n = (if n \<in> set tool_names then Some (registry_entry n) else None)"
  by (simp add: policy_by_name_def tool_policies_eq comp_def map_of_rev_keys)

lemma evaluate_tool_eq:
  "evaluate_tool n =
     (if n \<in> set prohibited_tool_names then Inl (UnknownToolError n)
      else if n \<in> set hard_deny_operation_names then Inr DENY
      else if n \<notin> set tool_names then Inl (UnknownToolError n)
      else if n \<in> {''system_reboot'', ''system_shutdown'', ''job_start''} then Inr REQUIRE_APPROVAL
      else Inr ALLOW)"
  by (simp add: evaluate_tool_def policy_by_name_eq privileged_names_def)

text \<open>
  Importing the policy module never raises: every entry of the constant tables satisfies the
  name pattern and the read-only consistency validator, the registry lists the tools in the order of
  the table, and no remotely visible tool is one of the prohibited approval tools or one of the
  hard-denied operations.
\<close>

theorem registry_is_consistent:
  "tool_policy_registry = Inr (map registry_entry tool_names) \<and> distinct tool_names \<and>
   registered_tool_names = set tool_names \<and>
   registered_tool_names \<inter> (set prohibited_tool_names \<union> set hard_deny_operation_names) = {}"
proof -
  have "registered_tool_names = set tool_names"
    by (auto simp: registered_tool_names_def dom_def policy_by_name_eq)
  moreover have "set tool_names \<inter> (set prohibited_tool_names \<union> set hard_deny_operation_names) = {}"
    by (simp add: tool_names_def prohibited_tool_names_def hard_deny_operation_names_def)
  moreover have "distinct tool_names" by (simp add: tool_names_def)
  ultimately show ?thesis by (simp add: tool_policies_eq)
qed

text \<open>
  The policy decision for every tool name: approval is required for exactly
  \<open>system_reboot\<close>, \<open>system_shutdown\<close> and \<open>job_start\<close>, the hard-denied operations are denied, every
  other registered tool is allowed, and any other name (the approval tools included) is refused as
  unknown. The decision does not depend on annotations a caller claims.
\<close>

theorem evaluate_tool_decision:
  "(evaluate_tool n = Inr REQUIRE_APPROVAL \<longleftrightarrow> n \<in> {''system_reboot'', ''system_shutdown'', ''job_start''}) \<and>
   (evaluate_tool n = Inr DENY \<longleftrightarrow> n \<in> set hard_deny_operation_names) \<and>
   (evaluate_tool n = Inr ALLOW \<longleftrightarrow>
      n \<in> set tool_names - {''system_reboot'', ''system_shutdown'', ''job_start''}) \<and>
   (evaluate_tool n = Inl (UnknownToolError n) \<longleftrightarrow> n \<notin> set tool_names \<union> set hard_deny_operation_names)"
proof -
  have "n \<in> set prohibited_tool_names \<Longrightarrow> n \<notin> set tool_names \<union> set hard_deny_operation_names"
    by (auto simp: tool_names_def prohibited_tool_names_def hard_deny_operation_names_def)
  moreover have "n \<in> set hard_deny_operation_names \<Longrightarrow> n \<notin> set tool_names"
    by (auto simp: tool_names_def hard_deny_operation_names_def)
  moreover have "n \<in> {''system_reboot'', ''system_shutdown'', ''job_start''} \<Longrightarrow> n \<in> set tool_names"
    by (auto simp: tool_names_def)
  ultimately show ?thesis unfolding evaluate_tool_eq by auto
qed

end
