(* ===== verification/Approvals.thy ===== *)
theory Approvals
  imports Tool_Policy
begin

text \<open>
  The life cycle of an approval (\<open>models/policy.py\<close>: submission, decision, attempt, record;
  \<open>gateway/policy.py\<close>: \<open>ApprovalManager\<close>). An approval is requested for one exact payload, decided by
  the user, and consumed at most once. The lemmas give every branch of the three operations, and
  the invariant over all runs from which the two safety theorems follow: a consumed approval was
  requested and approved for this payload, operation and tool, and no approval is consumed twice.
\<close>

section \<open>Models\<close>

datatype approval_method = ELICITATION | LOCAL

datatype approval_state = PENDING | APPROVED | DENIED | CONSUMED | EXPIRED

record approval_submission =
  sub_operation_id :: uuid
  sub_tool_name :: string
  sub_payload :: json
  sub_requested_at :: datetime
  sub_expires_at :: datetime

record approval_decision =
  dec_approval_id :: uuid
  dec_approved :: bool
  dec_method :: approval_method
  dec_decided_at :: datetime

record approval_attempt =
  att_approval_id :: uuid
  att_operation_id :: "uuid option"
  att_tool_name :: "string option"
  att_payload :: json
  att_attempted_at :: datetime

record approval_record =
  ar_approval_id :: uuid
  ar_operation_id :: uuid
  ar_tool_name :: string
  ar_canonical_payload :: bytes
  ar_payload_digest :: pystr
  ar_requested_at :: datetime
  ar_expires_at :: datetime
  ar_state :: approval_state
  ar_method :: "approval_method option"

record approved_payload =
  app_operation_id :: uuid
  app_tool_name :: string
  app_canonical_payload :: bytes
  app_payload_digest :: pystr
  app_method :: approval_method

datatype approval_error =
    UnknownTool string
  | PolicyDeniedError string
  | CanonicalPayloadError canonical_error
  | ToolNamePatternError
  | ApprovalWindowError string
  | ApprovalNotFoundError uuid
  | ApprovalStateError uuid approval_state
  | ApprovalPendingError uuid
  | ApprovalConsumedError uuid
  | ApprovalDeniedError uuid
  | ApprovalExpiredError uuid
  | ApprovalPayloadMismatchError uuid
  | ApprovalBindingMismatchError uuid
  | ComparisonTypeError

text \<open>The subclasses of \<open>ApprovalLifecycleError\<close>.\<close>

fun approval_lifecycle_error :: "approval_error \<Rightarrow> bool" where
  "approval_lifecycle_error (ApprovalPendingError _) = True"
| "approval_lifecycle_error (ApprovalConsumedError _) = True"
| "approval_lifecycle_error (ApprovalDeniedError _) = True"
| "approval_lifecycle_error (ApprovalExpiredError _) = True"
| "approval_lifecycle_error (ApprovalPayloadMismatchError _) = True"
| "approval_lifecycle_error (ApprovalBindingMismatchError _) = True"
| "approval_lifecycle_error _ = False"

text \<open>Constructing a submission: the tool name pattern, the time window, a canonical payload.\<close>

definition ensure_valid_window :: "approval_submission \<Rightarrow> approval_error + approval_submission" where
  "ensure_valid_window sub =
     (if tz_missing (sub_requested_at sub) \<or> tz_missing (sub_expires_at sub)
      then Inl (ApprovalWindowError ''timezone_required'')
      else case dt_le (sub_expires_at sub) (sub_requested_at sub) of
             None \<Rightarrow> Inl ComparisonTypeError
           | Some True \<Rightarrow> Inl (ApprovalWindowError ''expiry_must_follow_request'')
           | Some False \<Rightarrow>
               (case canonicalize_payload (sub_payload sub) of
                  Inl e \<Rightarrow> Inl (CanonicalPayloadError e)
                | Inr _ \<Rightarrow> Inr sub))"

definition make_submission :: "approval_submission \<Rightarrow> approval_error + approval_submission" where
  "make_submission sub =
     (if tool_name_ok (sub_tool_name sub) then ensure_valid_window sub else Inl ToolNamePatternError)"

section \<open>The manager\<close>

type_synonym approvals = "uuid \<rightharpoonup> approval_record"

definition get_record :: "approvals \<Rightarrow> uuid \<Rightarrow> approval_error + approval_record" where
  "get_record s i = (case s i of None \<Rightarrow> Inl (ApprovalNotFoundError i) | Some r \<Rightarrow> Inr r)"

text \<open>\<open>i\<close> is the identifier that \<open>uuid4()\<close> draws.\<close>

definition request ::
  "approvals \<Rightarrow> uuid \<Rightarrow> approval_submission \<Rightarrow> (approval_error + approval_record) \<times> approvals" where
  "request s i sub =
     (case evaluate_tool (sub_tool_name sub) of
        Inl (UnknownToolError n) \<Rightarrow> (Inl (UnknownTool n), s)
      | Inr DENY \<Rightarrow> (Inl (PolicyDeniedError (sub_tool_name sub)), s)
      | Inr _ \<Rightarrow>
          (case canonicalize_payload (sub_payload sub) of
             Inl e \<Rightarrow> (Inl (CanonicalPayloadError e), s)
           | Inr canonical \<Rightarrow>
               (let r = \<lparr>ar_approval_id = i, ar_operation_id = sub_operation_id sub,
                         ar_tool_name = sub_tool_name sub, ar_canonical_payload = canonical,
                         ar_payload_digest = payload_digest canonical,
                         ar_requested_at = sub_requested_at sub,
                         ar_expires_at = sub_expires_at sub, ar_state = PENDING, ar_method = None\<rparr>
                in (Inr r, s(i \<mapsto> r)))))"

definition decide ::
  "approvals \<Rightarrow> approval_decision \<Rightarrow> (approval_error + approval_record) \<times> approvals" where
  "decide s d =
     (case get_record s (dec_approval_id d) of
        Inl e \<Rightarrow> (Inl e, s)
      | Inr r \<Rightarrow>
          (case dt_le (ar_expires_at r) (dec_decided_at d) of
             None \<Rightarrow> (Inl ComparisonTypeError, s)
           | Some True \<Rightarrow>
               (Inl (ApprovalExpiredError (ar_approval_id r)),
                s(ar_approval_id r \<mapsto> r\<lparr>ar_state := EXPIRED\<rparr>))
           | Some False \<Rightarrow>
               (if ar_state r \<noteq> PENDING
                then (Inl (ApprovalStateError (ar_approval_id r) (ar_state r)), s)
                else let u = r\<lparr>ar_state := (if dec_approved d then APPROVED else DENIED),
                               ar_method := Some (dec_method d)\<rparr>
                     in (Inr u, s(ar_approval_id r \<mapsto> u)))))"

definition binding_mismatch :: "approval_record \<Rightarrow> approval_attempt \<Rightarrow> bool" where
  "binding_mismatch r a \<longleftrightarrow>
     (att_operation_id a \<noteq> None \<and> Some (ar_operation_id r) \<noteq> att_operation_id a) \<or>
     (att_tool_name a \<noteq> None \<and> Some (ar_tool_name r) \<noteq> att_tool_name a)"

definition consume ::
  "approvals \<Rightarrow> approval_attempt \<Rightarrow> (approval_error + approved_payload) \<times> approvals" where
  "consume s a =
     (case get_record s (att_approval_id a) of
        Inl e \<Rightarrow> (Inl e, s)
      | Inr r \<Rightarrow>
          (case dt_le (ar_expires_at r) (att_attempted_at a) of
             None \<Rightarrow> (Inl ComparisonTypeError, s)
           | Some True \<Rightarrow>
               (Inl (ApprovalExpiredError (ar_approval_id r)),
                s(ar_approval_id r \<mapsto> r\<lparr>ar_state := EXPIRED\<rparr>))
           | Some False \<Rightarrow>
               (case canonicalize_payload (att_payload a) of
                  Inl e \<Rightarrow> (Inl (CanonicalPayloadError e), s)
                | Inr canonical \<Rightarrow>
                    if binding_mismatch r a
                    then (Inl (ApprovalBindingMismatchError (ar_approval_id r)), s)
                    else if canonical \<noteq> ar_canonical_payload r
                    then (Inl (ApprovalPayloadMismatchError (ar_approval_id r)), s)
                    else (case ar_state r of
                            APPROVED \<Rightarrow>
                              (case ar_method r of
                                 None \<Rightarrow> (Inl (ApprovalStateError (ar_approval_id r) (ar_state r)), s)
                               | Some m \<Rightarrow>
                                   (Inr \<lparr>app_operation_id = ar_operation_id r,
                                         app_tool_name = ar_tool_name r,
                                         app_canonical_payload = ar_canonical_payload r,
                                         app_payload_digest = ar_payload_digest r, app_method = m\<rparr>,
                                    s(ar_approval_id r \<mapsto> r\<lparr>ar_state := CONSUMED\<rparr>)))
                          | CONSUMED \<Rightarrow> (Inl (ApprovalConsumedError (ar_approval_id r)), s)
                          | DENIED \<Rightarrow> (Inl (ApprovalDeniedError (ar_approval_id r)), s)
                          | EXPIRED \<Rightarrow> (Inl (ApprovalExpiredError (ar_approval_id r)), s)
                          | PENDING \<Rightarrow> (Inl (ApprovalPendingError (ar_approval_id r)), s)))))"

section \<open>Branches of the operations\<close>

lemmas approval_defs = request_def decide_def consume_def get_record_def

lemma request_Inr:
  assumes "request s i sub = (Inr r, s')"
  obtains b where "canonicalize_payload (sub_payload sub) = Inr b"
    "evaluate_tool (sub_tool_name sub) \<in> {Inr ALLOW, Inr REQUIRE_APPROVAL}"
    "r = \<lparr>ar_approval_id = i, ar_operation_id = sub_operation_id sub,
          ar_tool_name = sub_tool_name sub, ar_canonical_payload = b,
          ar_payload_digest = payload_digest b, ar_requested_at = sub_requested_at sub,
          ar_expires_at = sub_expires_at sub, ar_state = PENDING, ar_method = None\<rparr>"
    "s' = s(i \<mapsto> r)"
  using assms
  by (auto simp: request_def Let_def split: sum.splits unknown_tool.splits policy_decision.splits)

lemma request_Inl: "request s i sub = (Inl e, s') \<Longrightarrow> s' = s"
  by (auto simp: request_def Let_def split: sum.splits unknown_tool.splits policy_decision.splits)

text \<open>What a decision does to the record it names, and to no other record.\<close>

lemma decide_cases:
  assumes "decide s d = (res, s')"
  obtains (refused) e where "res = Inl e" "s' = s"
    | (expired) r where "s (dec_approval_id d) = Some r" "res = Inl (ApprovalExpiredError (ar_approval_id r))"
        "s' = s(ar_approval_id r \<mapsto> r\<lparr>ar_state := EXPIRED\<rparr>)"
        "dt_le (ar_expires_at r) (dec_decided_at d) = Some True"
    | (decided) r where "s (dec_approval_id d) = Some r" "ar_state r = PENDING"
        "dt_le (ar_expires_at r) (dec_decided_at d) = Some False"
        "res = Inr (r\<lparr>ar_state := (if dec_approved d then APPROVED else DENIED), ar_method := Some (dec_method d)\<rparr>)"
        "s' = s(ar_approval_id r \<mapsto> r\<lparr>ar_state := (if dec_approved d then APPROVED else DENIED),
                                   ar_method := Some (dec_method d)\<rparr>)"
  using assms
  by (auto simp: decide_def get_record_def Let_def split: option.splits bool.splits if_splits sum.splits)

lemma consume_cases:
  assumes "consume s a = (res, s')"
  obtains (refused) e where "res = Inl e" "s' = s"
    | (expired) r where "s (att_approval_id a) = Some r" "res = Inl (ApprovalExpiredError (ar_approval_id r))"
        "s' = s(ar_approval_id r \<mapsto> r\<lparr>ar_state := EXPIRED\<rparr>)"
        "dt_le (ar_expires_at r) (att_attempted_at a) = Some True"
    | (consumed) r m where "s (att_approval_id a) = Some r" "ar_state r = APPROVED" "ar_method r = Some m"
        "dt_le (ar_expires_at r) (att_attempted_at a) = Some False" "\<not> binding_mismatch r a"
        "canonicalize_payload (att_payload a) = Inr (ar_canonical_payload r)"
        "res = Inr \<lparr>app_operation_id = ar_operation_id r, app_tool_name = ar_tool_name r,
                    app_canonical_payload = ar_canonical_payload r,
                    app_payload_digest = ar_payload_digest r, app_method = m\<rparr>"
        "s' = s(ar_approval_id r \<mapsto> r\<lparr>ar_state := CONSUMED\<rparr>)"
  using assms
  by (auto simp: consume_def get_record_def
      split: option.splits bool.splits if_splits sum.splits approval_state.splits)

section \<open>Runs\<close>

text \<open>
  A run is any sequence of calls on one manager that starts empty; the history lists the newest
  event first. A request draws an identifier that is not in use, as \<open>uuid4()\<close> does.
\<close>

datatype approval_event =
    Requested approval_submission uuid
  | Decided approval_decision
  | ConsumedBy approval_attempt approved_payload
  | Refused approval_error

inductive approval_run :: "approval_event list \<Rightarrow> approvals \<Rightarrow> bool" where
  init: "approval_run [] Map.empty"
| request: "approval_run h s \<Longrightarrow> s i = None \<Longrightarrow> make_submission sub = Inr sub \<Longrightarrow>
    request s i sub = (Inr r, s') \<Longrightarrow> approval_run (Requested sub i # h) s'"
| request_refused: "approval_run h s \<Longrightarrow> request s i sub = (Inl e, s') \<Longrightarrow> approval_run (Refused e # h) s'"
| decide: "approval_run h s \<Longrightarrow> decide s d = (Inr r, s') \<Longrightarrow> approval_run (Decided d # h) s'"
| decide_refused: "approval_run h s \<Longrightarrow> decide s d = (Inl e, s') \<Longrightarrow> approval_run (Refused e # h) s'"
| consume: "approval_run h s \<Longrightarrow> consume s a = (Inr p, s') \<Longrightarrow> approval_run (ConsumedBy a p # h) s'"
| consume_refused: "approval_run h s \<Longrightarrow> consume s a = (Inl e, s') \<Longrightarrow> approval_run (Refused e # h) s'"

inductive_cases approval_run_consumed: "approval_run (ConsumedBy a p # h) s"

fun consumes :: "uuid \<Rightarrow> approval_event \<Rightarrow> bool" where
  "consumes i (ConsumedBy a _) = (att_approval_id a = i)"
| "consumes i _ = False"

definition requested_as :: "approval_event list \<Rightarrow> uuid \<Rightarrow> approval_record \<Rightarrow> bool" where
  "requested_as h i r \<longleftrightarrow>
     (\<exists>sub. Requested sub i \<in> set h \<and> make_submission sub = Inr sub \<and>
        canonicalize_payload (sub_payload sub) = Inr (ar_canonical_payload r) \<and>
        ar_payload_digest r = payload_digest (ar_canonical_payload r) \<and>
        ar_operation_id r = sub_operation_id sub \<and> ar_tool_name r = sub_tool_name sub \<and>
        ar_expires_at r = sub_expires_at sub)"

definition approved_as :: "approval_event list \<Rightarrow> uuid \<Rightarrow> approval_record \<Rightarrow> bool" where
  "approved_as h i r \<longleftrightarrow>
     (\<exists>d. Decided d \<in> set h \<and> dec_approval_id d = i \<and> dec_approved d \<and>
        dt_le (ar_expires_at r) (dec_decided_at d) = Some False \<and> ar_method r = Some (dec_method d))"

definition record_inv :: "approval_event list \<Rightarrow> uuid \<Rightarrow> approval_record \<Rightarrow> bool" where
  "record_inv h i r \<longleftrightarrow>
     ar_approval_id r = i \<and> requested_as h i r \<and>
     (ar_state r = APPROVED \<longrightarrow> approved_as h i r) \<and>
     (ar_state r \<notin> {CONSUMED, EXPIRED} \<longrightarrow> filter (consumes i) h = []) \<and>
     length (filter (consumes i) h) \<le> 1"

definition approvals_inv :: "approval_event list \<Rightarrow> approvals \<Rightarrow> bool" where
  "approvals_inv h s \<longleftrightarrow>
     (\<forall>i. s i = None \<longrightarrow> filter (consumes i) h = []) \<and>
     (\<forall>i r. s i = Some r \<longrightarrow> record_inv h i r)"

lemma requested_as_mono: "requested_as h i r \<Longrightarrow> requested_as (e # h) i r"
  by (auto simp: requested_as_def)

lemma approved_as_mono: "approved_as h i r \<Longrightarrow> approved_as (e # h) i r"
  by (auto simp: approved_as_def)

lemma record_inv_mono: "record_inv h i r \<Longrightarrow> \<not> consumes i e \<Longrightarrow> record_inv (e # h) i r"
  by (auto simp: record_inv_def intro: requested_as_mono approved_as_mono)

lemma approvals_inv_lookup: "approvals_inv h s \<Longrightarrow> s i = Some r \<Longrightarrow> record_inv h i r"
  by (simp add: approvals_inv_def)

lemma approvals_inv_same: "approvals_inv h s \<Longrightarrow> (\<And>i. \<not> consumes i e) \<Longrightarrow> approvals_inv (e # h) s"
  unfolding approvals_inv_def by (auto intro: record_inv_mono)

lemma approvals_inv_update:
  assumes "approvals_inv h s" "record_inv (e # h) i r" "\<And>j. j \<noteq> i \<Longrightarrow> \<not> consumes j e"
  shows "approvals_inv (e # h) (s(i \<mapsto> r))"
  using assms unfolding approvals_inv_def by (auto intro: record_inv_mono)

lemma approvals_inv_expire:
  assumes "approvals_inv h s" "s i = Some r" "\<And>j. \<not> consumes j e"
  shows "approvals_inv (e # h) (s(ar_approval_id r \<mapsto> r\<lparr>ar_state := EXPIRED\<rparr>))"
proof -
  have r: "record_inv h i r" using approvals_inv_lookup [OF assms(1,2)] .
  then have "record_inv (e # h) i (r\<lparr>ar_state := EXPIRED\<rparr>)"
    using assms(3) by (auto simp: record_inv_def requested_as_def)
  moreover have "ar_approval_id r = i" using r by (simp add: record_inv_def)
  ultimately show ?thesis using approvals_inv_update [OF assms(1)] assms(3) by simp
qed

lemma decide_inv:
  assumes "approvals_inv h s" "decide s d = (res, s')" "\<And>j. \<not> consumes j e"
    "case res of Inl _ \<Rightarrow> True | Inr _ \<Rightarrow> e = Decided d"
  shows "approvals_inv (e # h) s'"
  using assms(2)
proof (cases rule: decide_cases)
  case (refused x)
  then show ?thesis using approvals_inv_same assms by simp
next
  case (expired r)
  then show ?thesis using approvals_inv_expire [OF assms(1) expired(1) assms(3)] by simp
next
  case (decided r)
  let ?i = "dec_approval_id d"
  have r: "record_inv h ?i r" using approvals_inv_lookup [OF assms(1) decided(1)] .
  have e: "e = Decided d" using assms(4) decided(4) by simp
  have "record_inv (e # h) ?i (r\<lparr>ar_state := (if dec_approved d then APPROVED else DENIED),
                                 ar_method := Some (dec_method d)\<rparr>)"
    using r decided(2,3) e
    by (auto simp: record_inv_def requested_as_def approved_as_def)
  moreover have "ar_approval_id r = ?i" using r by (simp add: record_inv_def)
  ultimately show ?thesis using decided(5) approvals_inv_update [OF assms(1)] assms(3) by simp
qed

lemma consume_inv:
  assumes "approvals_inv h s" "consume s a = (res, s')"
    "case res of Inl _ \<Rightarrow> (\<forall>j. \<not> consumes j e) | Inr p \<Rightarrow> e = ConsumedBy a p"
  shows "approvals_inv (e # h) s'"
  using assms(2)
proof (cases rule: consume_cases)
  case (refused x)
  then show ?thesis using approvals_inv_same [OF assms(1)] assms(3) by simp
next
  case (expired r)
  then show ?thesis using approvals_inv_expire [OF assms(1) expired(1)] assms(3) by simp
next
  case (consumed r m)
  let ?i = "att_approval_id a"
  have r: "record_inv h ?i r" using approvals_inv_lookup [OF assms(1) consumed(1)] .
  have e: "\<exists>p. e = ConsumedBy a p" using assms(3) consumed(7) by auto
  have "record_inv (e # h) ?i (r\<lparr>ar_state := CONSUMED\<rparr>)"
    using r consumed(2) e by (auto simp: record_inv_def requested_as_def)
  moreover have "ar_approval_id r = ?i" using r by (simp add: record_inv_def)
  moreover have "j \<noteq> ?i \<Longrightarrow> \<not> consumes j e" for j using e by auto
  ultimately show ?thesis using consumed(8) approvals_inv_update [OF assms(1)] by simp
qed

lemma approval_run_inv: "approval_run h s \<Longrightarrow> approvals_inv h s"
proof (induction rule: approval_run.induct)
  case init
  show ?case by (simp add: approvals_inv_def)
next
  case (request h s i sub r s')
  obtain b where b: "canonicalize_payload (sub_payload sub) = Inr b"
    "r = \<lparr>ar_approval_id = i, ar_operation_id = sub_operation_id sub,
          ar_tool_name = sub_tool_name sub, ar_canonical_payload = b,
          ar_payload_digest = payload_digest b, ar_requested_at = sub_requested_at sub,
          ar_expires_at = sub_expires_at sub, ar_state = PENDING, ar_method = None\<rparr>"
    "s' = s(i \<mapsto> r)"
    using request_Inr [OF request.hyps(4)] by metis
  have "filter (consumes i) h = []"
    using request.IH request.hyps(2) by (simp add: approvals_inv_def)
  then have "record_inv (Requested sub i # h) i r"
    using b request.hyps(3) by (auto simp: record_inv_def requested_as_def)
  then show ?case unfolding b(3) by (rule approvals_inv_update [OF request.IH]) simp
next
  case (request_refused h s i sub e s')
  then show ?case using approvals_inv_same request_Inl by fastforce
next
  case (decide h s d r s')
  then show ?case using decide_inv [of h s d "Inr r"] by simp
next
  case (decide_refused h s d e s')
  then show ?case using decide_inv [of h s d "Inl e"] by simp
next
  case (consume h s a p s')
  then show ?case using consume_inv [of h s a "Inr p"] by simp
next
  case (consume_refused h s a e s')
  then show ?case using consume_inv [of h s a "Inl e"] by simp
qed

text \<open>What a successful consumption says about the history before it.\<close>

definition approved_for :: "approval_event list \<Rightarrow> approval_attempt \<Rightarrow> approved_payload \<Rightarrow> bool" where
  "approved_for h a p \<longleftrightarrow>
     (\<exists>sub d. Requested sub (att_approval_id a) \<in> set h \<and> Decided d \<in> set h \<and>
        dec_approval_id d = att_approval_id a \<and> dec_approved d \<and> dec_method d = app_method p \<and>
        dt_le (sub_expires_at sub) (dec_decided_at d) = Some False \<and>
        dt_le (sub_expires_at sub) (att_attempted_at a) = Some False \<and>
        att_operation_id a \<in> {None, Some (sub_operation_id sub)} \<and>
        att_tool_name a \<in> {None, Some (sub_tool_name sub)} \<and>
        canonicalize_payload (sub_payload sub) = Inr (app_canonical_payload p) \<and>
        canonicalize_payload (att_payload a) = Inr (app_canonical_payload p) \<and>
        app_operation_id p = sub_operation_id sub \<and> app_tool_name p = sub_tool_name sub \<and>
        app_payload_digest p = payload_digest (app_canonical_payload p))"

lemma consume_approved_for:
  assumes "approvals_inv h s" "consume s a = (Inr p, s')"
  shows "approved_for h a p"
  using assms(2)
proof (cases rule: consume_cases)
  case (consumed r m)
  have r: "record_inv h (att_approval_id a) r" using approvals_inv_lookup [OF assms(1) consumed(1)] .
  then have ap: "approved_as h (att_approval_id a) r" using consumed(2) by (simp add: record_inv_def)
  have rq: "requested_as h (att_approval_id a) r" using r by (simp add: record_inv_def)
  obtain sub where sub: "Requested sub (att_approval_id a) \<in> set h"
      "canonicalize_payload (sub_payload sub) = Inr (ar_canonical_payload r)"
      "ar_payload_digest r = payload_digest (ar_canonical_payload r)"
      "ar_operation_id r = sub_operation_id sub" "ar_tool_name r = sub_tool_name sub"
      "ar_expires_at r = sub_expires_at sub"
    using rq unfolding requested_as_def by blast
  obtain d where d: "Decided d \<in> set h" "dec_approval_id d = att_approval_id a" "dec_approved d"
      "dt_le (ar_expires_at r) (dec_decided_at d) = Some False" "ar_method r = Some (dec_method d)"
    using ap unfolding approved_as_def by blast
  show ?thesis
    unfolding approved_for_def
    by (rule exI [of _ sub], rule exI [of _ d])
      (use sub d consumed(3-7) in \<open>auto simp: binding_mismatch_def\<close>)
qed auto

section \<open>Safety of approvals\<close>

text \<open>
  C1: An approval is one-shot: in every run of the approval manager, whatever the order and the
  arguments of the calls, each approval identifier is consumed successfully at most once.
\<close>

theorem approval_consumed_at_most_once:
  assumes "approval_run h s"
  shows "length (filter (consumes i) h) \<le> 1"
proof (cases "s i")
  case None
  then show ?thesis using approval_run_inv [OF assms] by (simp add: approvals_inv_def)
next
  case (Some r)
  then show ?thesis using approvals_inv_lookup [OF approval_run_inv [OF assms]] by (simp add: record_inv_def)
qed

text \<open>
  C2: Nothing is executed under an approval the user did not give for it: when \<open>consume\<close> succeeds,
  the history before it holds a request for the same approval and a positive user decision for it,
  both the decision and the attempt come before the expiry, the attempt names the operation and tool
  of the request (or names none), and the payload attempted has the same canonical bytes as the
  payload requested. For JSON payloads that means they are equal up to the order of keys.
\<close>

theorem consumed_payload_was_approved:
  assumes "approval_run (ConsumedBy a p # h) s"
  shows "approved_for h a p \<and>
    (\<forall>sub. Requested sub (att_approval_id a) \<in> set h \<longrightarrow>
       canonicalize_payload (sub_payload sub) = Inr (app_canonical_payload p) \<longrightarrow>
       json_wf (sub_payload sub) \<longrightarrow> json_wf (att_payload a) \<longrightarrow>
       same_payload (sub_payload sub) (att_payload a))"
proof -
  obtain s0 where s0: "approval_run h s0" "consume s0 a = (Inr p, s)"
    using assms by (auto elim: approval_run_consumed)
  then have ap: "approved_for h a p" using consume_approved_for approval_run_inv by blast
  then have "canonicalize_payload (att_payload a) = Inr (app_canonical_payload p)"
    by (auto simp: approved_for_def)
  then show ?thesis using ap canonical_same_payload by blast
qed

subsection \<open>A concrete run\<close>

definition sample_payload :: json where
  "sample_payload = JObj [(ustr ''a'', JInt 1)]"

definition sample_submission :: approval_submission where
  "sample_submission =
     \<lparr>sub_operation_id = 7, sub_tool_name = ''system_reboot'', sub_payload = sample_payload,
      sub_requested_at = Aware 0, sub_expires_at = Aware 300\<rparr>"

definition sample_decision :: approval_decision where
  "sample_decision =
     \<lparr>dec_approval_id = 1, dec_approved = True, dec_method = ELICITATION, dec_decided_at = Aware 10\<rparr>"

definition sample_attempt :: approval_attempt where
  "sample_attempt =
     \<lparr>att_approval_id = 1, att_operation_id = Some 7, att_tool_name = Some ''system_reboot'',
      att_payload = sample_payload, att_attempted_at = Aware 20\<rparr>"

definition sample_bytes :: bytes where
  "sample_bytes = map mkb (ustr ''{'' @ [34] @ ustr ''a'' @ [34] @ ustr '':1}'')"

definition sample_record :: "approval_state \<Rightarrow> approval_method option \<Rightarrow> approval_record" where
  "sample_record st m =
     \<lparr>ar_approval_id = 1, ar_operation_id = 7, ar_tool_name = ''system_reboot'',
      ar_canonical_payload = sample_bytes, ar_payload_digest = payload_digest sample_bytes,
      ar_requested_at = Aware 0, ar_expires_at = Aware 300, ar_state = st, ar_method = m\<rparr>"

definition sample_approved :: approved_payload where
  "sample_approved =
     \<lparr>app_operation_id = 7, app_tool_name = ''system_reboot'', app_canonical_payload = sample_bytes,
      app_payload_digest = payload_digest sample_bytes, app_method = ELICITATION\<rparr>"

lemma dec_int_1: "dec_int 1 = [49]"
  by (simp add: dec_int_def dec_nat.simps)

lemma sample_canonical: "canonicalize_payload sample_payload = Inr sample_bytes"
  by (simp add: canonicalize_payload_def sample_payload_def dump_str_def escape_char_def dec_int_1 sample_bytes_def utf8_char_def)

lemma sample_evaluate: "evaluate_tool ''system_reboot'' = Inr REQUIRE_APPROVAL"
  by (simp add: evaluate_tool_eq prohibited_tool_names_def hard_deny_operation_names_def tool_names_def)

lemmas sample_defs = sample_submission_def sample_decision_def sample_attempt_def sample_approved_def
  sample_record_def

lemma sample_make_submission: "make_submission sample_submission = Inr sample_submission"
  by (simp add: make_submission_def ensure_valid_window_def sample_submission_def sample_canonical
      lower_char_def digit_char_def)

lemma sample_request:
  "request Map.empty 1 sample_submission = (Inr (sample_record PENDING None), [1 \<mapsto> sample_record PENDING None])"
  by (simp add: request_def sample_defs sample_evaluate sample_canonical Let_def)

lemma sample_decide:
  "decide [1 \<mapsto> sample_record PENDING None] sample_decision =
     (Inr (sample_record APPROVED (Some ELICITATION)), [1 \<mapsto> sample_record APPROVED (Some ELICITATION)])"
  by (simp add: decide_def get_record_def sample_defs Let_def)

lemma sample_consume:
  "consume [1 \<mapsto> sample_record APPROVED (Some ELICITATION)] sample_attempt =
     (Inr sample_approved, [1 \<mapsto> sample_record CONSUMED (Some ELICITATION)])"
  by (simp add: consume_def get_record_def sample_defs sample_canonical binding_mismatch_def)

definition sample_history :: "approval_event list" where
  "sample_history = [Decided sample_decision, Requested sample_submission 1]"

lemma sample_run:
  "approval_run (ConsumedBy sample_attempt sample_approved # sample_history)
     [1 \<mapsto> sample_record CONSUMED (Some ELICITATION)]"
  unfolding sample_history_def
  by (rule approval_run.consume [OF approval_run.decide [OF approval_run.request
        [OF approval_run.init _ sample_make_submission sample_request] sample_decide] sample_consume]) simp

lemma approval_consumed_at_most_once_witness:
  "length (filter (consumes 1) (ConsumedBy sample_attempt sample_approved # sample_history)) \<le> 1"
  by (rule approval_consumed_at_most_once [OF sample_run])

lemma consumed_payload_was_approved_witness:
  "approved_for sample_history sample_attempt sample_approved"
  using consumed_payload_was_approved [OF sample_run] by (rule conjunct1)

end
