(* ===== verification/Audit_Trail.thy ===== *)
theory Audit_Trail
  imports Approvals "HOL-Library.AList"
begin

text \<open>
  The audit trail (\<open>gateway/audit.py\<close>) and the classification of peer payloads
  (\<open>gateway/result_outcome.py\<close>). An event keeps digests and lengths in place of free text. The
  lemmas show that no string of a payload survives in the event and that values under secret keys
  cannot influence it at all; the retention cleanup is shown to delete expired body artifacts only.
\<close>

section \<open>Models\<close>

datatype audit_outcome = AuditSucceeded | AuditFailed | AuditRejected

datatype audit_error_code = JOB_CANCELLED | JOB_FAILED | JOB_INTERRUPTED

record content_metadata =
  cm_size_bytes :: nat
  cm_sha256 :: pystr

record approval_audit_metadata =
  aam_approval_id :: uuid
  aam_method :: approval_method
  aam_frozen_payload_digest :: pystr

record audit_input =
  ai_event_id :: uuid
  ai_occurred_at :: datetime
  ai_tool_name :: string
  ai_operation_id :: "uuid option"
  ai_payload :: json
  ai_outcome :: audit_outcome
  ai_error_code :: "audit_error_code option"
  ai_approval :: "approval_audit_metadata option"
  ai_stdout :: "pystr option"
  ai_stderr :: "pystr option"
  ai_screenshot_body :: "bytes option"
  ai_untrusted_text :: "pystr option"

record audit_event =
  ae_event_id :: uuid
  ae_occurred_at :: datetime
  ae_tool_name :: string
  ae_operation_id :: "uuid option"
  ae_outcome :: audit_outcome
  ae_error_code :: "audit_error_code option"
  ae_approval :: "approval_audit_metadata option"
  ae_redacted_payload_json :: pystr
  ae_payload_digest :: pystr
  ae_stdout :: "content_metadata option"
  ae_stderr :: "content_metadata option"
  ae_screenshot :: "content_metadata option"
  ae_untrusted_text :: "content_metadata option"

datatype audit_error = AuditTimeError | AuditRetentionConfigurationError
  | AuditUnicodeError | AuditCanonicalError canonical_error

definition ensure_aware_time :: "audit_input \<Rightarrow> audit_error + audit_input" where
  "ensure_aware_time a = (if tz_missing (ai_occurred_at a) then Inl AuditTimeError else Inr a)"

section \<open>Redaction\<close>

definition secret_keys :: "pystr list" where
  "secret_keys = map ustr [''authorization'', ''cookie'', ''credential'', ''password'', ''secret'',
     ''token'', ''api_key'', ''apikey'']"

fun contains_text :: "pystr \<Rightarrow> pystr \<Rightarrow> bool" where
  "contains_text p [] = (p = [])"
| "contains_text p (c # cs) = (take (length p) (c # cs) = p \<or> contains_text p cs)"

text \<open>\<open>str.casefold\<close> is the argument \<open>cf\<close>: nothing below depends on its tables.\<close>

definition secret_key :: "(pystr \<Rightarrow> pystr) \<Rightarrow> pystr \<Rightarrow> bool" where
  "secret_key cf k \<longleftrightarrow> list_ex (\<lambda>s. contains_text s (cf k)) secret_keys"

definition summarize_key :: "pystr \<Rightarrow> pystr option" where
  "summarize_key k =
     map_option (\<lambda>body. ustr ''key:'' @ dec_nat (length body) @ ustr '':'' @ payload_digest body)
       (utf8_encode k)"

definition string_summary :: "bytes \<Rightarrow> json" where
  "string_summary body =
     JObj [(ustr ''type'', JStr (ustr ''string'')), (ustr ''size_bytes'', JInt (int (length body))),
           (ustr ''sha256'', JStr (payload_digest body))]"

definition redacted_mark :: json where
  "redacted_mark = JStr (ustr ''[REDACTED]'')"

text \<open>\<open>None\<close> is the \<open>UnicodeEncodeError\<close> of a lone surrogate.\<close>

fun summarize_payload :: "(pystr \<Rightarrow> pystr) \<Rightarrow> json \<Rightarrow> json option"
  and summarize_items :: "(pystr \<Rightarrow> pystr) \<Rightarrow> json list \<Rightarrow> json list option"
  and summarize_members :: "(pystr \<Rightarrow> pystr) \<Rightarrow> (pystr \<times> json) list \<Rightarrow> (pystr \<times> json) list \<Rightarrow>
        (pystr \<times> json) list option" where
  "summarize_payload cf JNull = Some JNull"
| "summarize_payload cf (JStr s) = map_option string_summary (utf8_encode s)"
| "summarize_payload cf (JBool b) = Some (JBool b)"
| "summarize_payload cf (JInt i) = Some (JInt i)"
| "summarize_payload cf (JFloat f) = Some (JFloat f)"
| "summarize_payload cf (JList xs) = map_option JList (summarize_items cf xs)"
| "summarize_payload cf (JObj kvs) = map_option JObj (summarize_members cf kvs [])"
| "summarize_items cf [] = Some []"
| "summarize_items cf (x # xs) =
     (case summarize_payload cf x of None \<Rightarrow> None
      | Some y \<Rightarrow> map_option (\<lambda>ys. y # ys) (summarize_items cf xs))"
| "summarize_members cf [] redacted = Some redacted"
| "summarize_members cf ((k, v) # kvs) redacted =
     (case summarize_key k of None \<Rightarrow> None
      | Some sk \<Rightarrow>
          if secret_key cf k then summarize_members cf kvs (AList.update sk redacted_mark redacted)
          else (case summarize_payload cf v of None \<Rightarrow> None
                | Some y \<Rightarrow> summarize_members cf kvs (AList.update sk y redacted)))"

definition content_metadata_bytes :: "bytes \<Rightarrow> content_metadata" where
  "content_metadata_bytes body = \<lparr>cm_size_bytes = length body, cm_sha256 = payload_digest body\<rparr>"

definition content_metadata_text :: "pystr option \<Rightarrow> audit_error + content_metadata option" where
  "content_metadata_text v =
     (case v of None \<Rightarrow> Inr None
      | Some s \<Rightarrow> (case utf8_encode s of None \<Rightarrow> Inl AuditUnicodeError
                   | Some body \<Rightarrow> Inr (Some (content_metadata_bytes body))))"

section \<open>The JSONL store\<close>

text \<open>
  Files are keyed by the UTC day of their name; artifacts are the other files of the directory with
  name and modification time. \<open>dump\<close> is \<open>AuditEvent.model_dump_json\<close>.
\<close>

record jsonl_store =
  js_retention :: int
  js_files :: "int \<rightharpoonup> pystr"
  js_artifacts :: "(string \<times> int) list"

definition make_jsonl_store :: "int \<Rightarrow> (string \<times> int) list \<Rightarrow> audit_error + jsonl_store" where
  "make_jsonl_store retention arts =
     (if retention \<le> 0 then Inl AuditRetentionConfigurationError
      else Inr \<lparr>js_retention = retention, js_files = Map.empty, js_artifacts = arts\<rparr>)"

definition path_for :: "datetime \<Rightarrow> audit_error + int" where
  "path_for t = (if tz_missing t then Inl AuditTimeError else Inr (dt_instant t div 86400000000))"

definition jsonl_record :: "(audit_event \<Rightarrow> pystr) \<Rightarrow> jsonl_store \<Rightarrow> audit_event \<Rightarrow> audit_error option \<times> jsonl_store" where
  "jsonl_record dump s e =
     (case path_for (ae_occurred_at e) of
        Inl x \<Rightarrow> (Some x, s)
      | Inr day \<Rightarrow>
          (let old = (case js_files s day of None \<Rightarrow> [] | Some t \<Rightarrow> t)
           in (None, s\<lparr>js_files := (js_files s)(day \<mapsto> old @ dump e @ [10])\<rparr>)))"

definition ends_with :: "string \<Rightarrow> string \<Rightarrow> bool" where
  "ends_with suffix s \<longleftrightarrow> length suffix \<le> length s \<and> drop (length s - length suffix) s = suffix"

definition sensitive_artifact :: "string \<Rightarrow> bool" where
  "sensitive_artifact name \<longleftrightarrow>
     list_ex (\<lambda>x. ends_with x name) [''.screenshot.body'', ''.stdout.body'', ''.stderr.body'']"

definition cleanup_expired_sensitive_artifacts ::
  "jsonl_store \<Rightarrow> datetime \<Rightarrow> (audit_error + string list) \<times> jsonl_store" where
  "cleanup_expired_sensitive_artifacts s now =
     (if tz_missing now then (Inl AuditTimeError, s)
      else let expiry = dt_instant now - js_retention s;
               doomed = (\<lambda>(name, mtime). sensitive_artifact name \<and> mtime < expiry)
           in (Inr (map fst (filter doomed (js_artifacts s))),
               s\<lparr>js_artifacts := filter (\<lambda>a. \<not> doomed a) (js_artifacts s)\<rparr>))"

section \<open>The recorder\<close>

record audit_recorder =
  rec_records :: "audit_event list"
  rec_store :: "jsonl_store option"

definition audit_event_of :: "(pystr \<Rightarrow> pystr) \<Rightarrow> audit_input \<Rightarrow> audit_error + audit_event" where
  "audit_event_of cf a =
     (case summarize_payload cf (ai_payload a) of
        None \<Rightarrow> Inl AuditUnicodeError
      | Some summary \<Rightarrow>
          bindR (mapErr AuditCanonicalError (canonicalize_payload summary)) (\<lambda>redacted.
          (case utf8_decode redacted of
             None \<Rightarrow> Inl AuditUnicodeError
           | Some text \<Rightarrow>
               bindR (content_metadata_text (ai_stdout a)) (\<lambda>out.
               bindR (content_metadata_text (ai_stderr a)) (\<lambda>err.
               bindR (content_metadata_text (ai_untrusted_text a)) (\<lambda>untrusted.
                 Inr \<lparr>ae_event_id = ai_event_id a, ae_occurred_at = ai_occurred_at a,
                      ae_tool_name = ai_tool_name a, ae_operation_id = ai_operation_id a,
                      ae_outcome = ai_outcome a, ae_error_code = ai_error_code a,
                      ae_approval = ai_approval a, ae_redacted_payload_json = text,
                      ae_payload_digest = payload_digest redacted, ae_stdout = out, ae_stderr = err,
                      ae_screenshot = map_option content_metadata_bytes (ai_screenshot_body a),
                      ae_untrusted_text = untrusted\<rparr>))))))"

definition audit_record ::
  "(pystr \<Rightarrow> pystr) \<Rightarrow> (audit_event \<Rightarrow> pystr) \<Rightarrow> audit_recorder \<Rightarrow> audit_input \<Rightarrow>
   (audit_error + audit_event) \<times> audit_recorder" where
  "audit_record cf dump s a =
     (case audit_event_of cf a of
        Inl e \<Rightarrow> (Inl e, s)
      | Inr event \<Rightarrow>
          (let s1 = s\<lparr>rec_records := rec_records s @ [event]\<rparr>
           in case rec_store s of
                None \<Rightarrow> (Inr event, s1)
              | Some st \<Rightarrow>
                  (case jsonl_record dump st event of
                     (Some e, st1) \<Rightarrow> (Inl e, s1\<lparr>rec_store := Some st1\<rparr>)
                   | (None, st1) \<Rightarrow> (Inr event, s1\<lparr>rec_store := Some st1\<rparr>))))"

section \<open>Peer payloads\<close>

definition semantic_action_result_tools :: "string list" where
  "semantic_action_result_tools =
     [''computer_click'', ''computer_hotkey'', ''computer_key'', ''computer_move'', ''computer_scroll'',
      ''computer_type'', ''uia_action'', ''uia_find'']"

definition semantic_result_outcome :: "string \<Rightarrow> (pystr \<times> json) list \<Rightarrow> audit_outcome" where
  "semantic_result_outcome tool payload =
     (if tool \<in> set semantic_action_result_tools \<and> map_of payload (ustr ''ok'') = Some (JBool False)
      then AuditRejected else AuditSucceeded)"

section \<open>What an event can contain\<close>

definition key_token :: "pystr \<Rightarrow> bool" where
  "key_token k \<longleftrightarrow> (\<exists>n d. k = ustr ''key:'' @ dec_nat n @ ustr '':'' @ d \<and> sha256_digest_ok d)"

inductive redacted_value :: "json \<Rightarrow> bool" where
  null: "redacted_value JNull"
| bool: "redacted_value (JBool b)"
| int: "redacted_value (JInt i)"
| float: "redacted_value (JFloat f)"
| mark: "redacted_value redacted_mark"
| string: "redacted_value (string_summary body)"
| list: "(\<forall>x \<in> set xs. redacted_value x) \<Longrightarrow> redacted_value (JList xs)"
| obj: "(\<forall>(k, v) \<in> set kvs. key_token k \<and> redacted_value v) \<Longrightarrow> redacted_value (JObj kvs)"

definition members_ok :: "(pystr \<times> json) list \<Rightarrow> bool" where
  "members_ok kvs \<longleftrightarrow> (\<forall>(k, v) \<in> set kvs. key_token k \<and> redacted_value v)"

lemma members_ok_Nil [simp]: "members_ok []"
  by (simp add: members_ok_def)

lemma members_ok_Cons: "members_ok ((k, v) # kvs) \<longleftrightarrow> key_token k \<and> redacted_value v \<and> members_ok kvs"
  by (simp add: members_ok_def)

lemma redacted_members: "members_ok kvs \<Longrightarrow> redacted_value (JObj kvs)"
  by (rule redacted_value.obj) (simp add: members_ok_def)

lemma summarize_key_token:
  assumes "summarize_key k = Some t"
  shows "key_token t"
proof -
  obtain body where "t = ustr ''key:'' @ dec_nat (length body) @ ustr '':'' @ payload_digest body"
    using assms by (auto simp: summarize_key_def)
  then show ?thesis unfolding key_token_def using payload_digest_ok by blast
qed

lemma members_update:
  assumes "members_ok kvs" "key_token t" "redacted_value w"
  shows "members_ok (AList.update t w kvs)"
  using assms by (induction kvs) (auto simp: members_ok_Cons)

lemma summarize_redacted:
  "summarize_payload cf v = Some r \<Longrightarrow> redacted_value r"
  "summarize_items cf xs = Some rs \<Longrightarrow> \<forall>x \<in> set rs. redacted_value x"
  "summarize_members cf kvs acc = Some ms \<Longrightarrow> members_ok acc \<Longrightarrow> members_ok ms"
proof (induction cf v and cf xs and cf kvs acc arbitrary: r and rs and ms
    rule: summarize_payload_summarize_items_summarize_members.induct)
  case (11 cf k v kvs acc)
  obtain sk where sk: "summarize_key k = Some sk" using "11.prems"(1) by (auto split: option.splits)
  then have tok: "key_token sk" by (rule summarize_key_token)
  show ?case
  proof (cases "secret_key cf k")
    case True
    then have "summarize_members cf kvs (AList.update sk redacted_mark acc) = Some ms"
      using "11.prems"(1) sk by simp
    then show ?thesis
      using "11.IH"(1) [OF sk True] members_update [OF "11.prems"(2) tok redacted_value.mark] by blast
  next
    case False
    obtain y where y: "summarize_payload cf v = Some y" using "11.prems"(1) sk False by (auto split: option.splits)
    then have "summarize_members cf kvs (AList.update sk y acc) = Some ms"
      using "11.prems"(1) sk False by simp
    then show ?thesis
      using "11.IH"(3) [OF sk False y] members_update [OF "11.prems"(2) tok "11.IH"(2) [OF sk False y]] by blast
  qed
qed (auto split: option.splits intro: redacted_value.intros redacted_members)

text \<open>The payload with every value under a secret key blanked.\<close>

fun mask_secrets :: "(pystr \<Rightarrow> pystr) \<Rightarrow> json \<Rightarrow> json" where
  "mask_secrets cf (JList xs) = JList (map (mask_secrets cf) xs)"
| "mask_secrets cf (JObj kvs) =
     JObj (map (\<lambda>kv. (fst kv, if secret_key cf (fst kv) then JNull else mask_secrets cf (snd kv))) kvs)"
| "mask_secrets cf v = v"

lemma summarize_masked:
  "summarize_payload cf (mask_secrets cf v) = summarize_payload cf v"
  "summarize_items cf (map (mask_secrets cf) xs) = summarize_items cf xs"
  "summarize_members cf (map (\<lambda>kv. (fst kv, if secret_key cf (fst kv) then JNull else mask_secrets cf (snd kv))) kvs) acc
     = summarize_members cf kvs acc"
  by (induction cf v and cf xs and cf kvs acc rule: summarize_payload_summarize_items_summarize_members.induct)
    (auto split: option.splits)

section \<open>The audit trail\<close>


text \<open>
  The trail is append-only: recording keeps every earlier event and every byte of every earlier
  line of the JSONL files, adds the event of this input and nothing else, and adds nothing when the
  event cannot be built.
\<close>

theorem audit_record_appends:
  assumes "audit_record cf dump s a = (res, s')"
  shows "rec_records s' = rec_records s @ (case audit_event_of cf a of Inl _ \<Rightarrow> [] | Inr e \<Rightarrow> [e]) \<and>
    (\<forall>st day old. rec_store s = Some st \<and> js_files st day = Some old \<longrightarrow>
       (\<exists>st' new. rec_store s' = Some st' \<and> js_files st' day = Some (old @ new)))"
  using assms
  by (auto simp: audit_record_def jsonl_record_def Let_def split: sum.splits option.splits prod.splits)

text \<open>
  Retention deletes exactly the legacy body artifacts that are older than the retention period,
  never a JSONL file of the trail.
\<close>

theorem cleanup_deletes_expired_bodies:
  assumes "cleanup_expired_sensitive_artifacts s now = (Inr deleted, s')"
  shows "js_files s' = js_files s \<and>
    set deleted = {n. \<exists>m. (n, m) \<in> set (js_artifacts s) \<and> sensitive_artifact n \<and>
                         m + js_retention s < dt_instant now} \<and>
    (\<forall>n. ends_with ''.jsonl'' n \<longrightarrow> n \<notin> set deleted) \<and>
    (\<forall>n m. (n, m) \<in> set (js_artifacts s') \<longleftrightarrow>
       (n, m) \<in> set (js_artifacts s) \<and> \<not> (sensitive_artifact n \<and> m + js_retention s < dt_instant now))"
proof -
  have last: "ends_with t n \<Longrightarrow> t \<noteq> [] \<Longrightarrow> last n = last t" for t n
    unfolding ends_with_def by (metis append_take_drop_id last_append)
  have "ends_with ''.jsonl'' n \<Longrightarrow> \<not> sensitive_artifact n" for n
    using last [of "''.jsonl''" n] last [of "''.screenshot.body''" n] last [of "''.stdout.body''" n]
      last [of "''.stderr.body''" n]
    by (auto simp: sensitive_artifact_def)
  moreover have "set deleted = {n. \<exists>m. (n, m) \<in> set (js_artifacts s) \<and> sensitive_artifact n \<and>
                         m + js_retention s < dt_instant now}"
    "js_files s' = js_files s"
    "\<And>n m. (n, m) \<in> set (js_artifacts s') \<longleftrightarrow>
       (n, m) \<in> set (js_artifacts s) \<and> \<not> (sensitive_artifact n \<and> m + js_retention s < dt_instant now)"
    using assms by (force simp: cleanup_expired_sensitive_artifacts_def Let_def split: if_splits)+
  ultimately show ?thesis by auto
qed

subsection \<open>A concrete event\<close>

definition sample_input :: audit_input where
  "sample_input =
     \<lparr>ai_event_id = 3, ai_occurred_at = Aware 5, ai_tool_name = ''status'', ai_operation_id = None,
      ai_payload = JObj [(ustr ''token'', JInt 1)], ai_outcome = AuditSucceeded, ai_error_code = None,
      ai_approval = None, ai_stdout = None, ai_stderr = None, ai_screenshot_body = None,
      ai_untrusted_text = None\<rparr>"

definition sample_recorder :: audit_recorder where
  "sample_recorder =
     \<lparr>rec_records = [], rec_store = Some \<lparr>js_retention = 10, js_files = Map.empty,
        js_artifacts = [(''a.stdout.body'', 1), (''b.stdout.body'', 95), (''audit-1.jsonl'', 1)]\<rparr>\<rparr>"

lemma sample_event: "\<exists>e. audit_event_of id sample_input = Inr e"
proof -
  have digest: "utf8_encode (payload_digest x) = Some (map mkb (payload_digest x))" for x
    using payload_digest_ok [of x]
    by (intro utf8_encode_ascii) (auto simp: sha256_digest_ok_def lower_hex_def list_all_iff)
  have esc: "concat (map escape_char (payload_digest x)) = payload_digest x" for x
  proof -
    have "list_all lower_hex s \<Longrightarrow> concat (map escape_char s) = s" for s
      by (induction s) (auto simp: lower_hex_def escape_char_def)
    then show ?thesis using payload_digest_ok [of x] by (simp add: sha256_digest_ok_def)
  qed
  have u: "utf8_encode (ustr ''token'') = Some (map mkb (ustr ''token''))"
    by (simp add: utf8_char_def)
  have "\<exists>b. canonicalize_payload (JObj [(ustr ''key:5:'' @ payload_digest (map mkb (ustr ''token'')), redacted_mark)]) = Inr b"
    by (simp add: canonicalize_payload_def dump_str_def esc escape_char_def redacted_mark_def
        utf8_encode_append digest utf8_char_def)
  then obtain b where b: "canonicalize_payload (JObj [(ustr ''key:5:'' @ payload_digest (map mkb (ustr ''token'')), redacted_mark)]) = Inr b"
    by blast
  then obtain t where t: "utf8_decode b = Some t"
    by (auto simp: canonicalize_payload_text utf8_decode_encode)
  have sk: "summarize_key (ustr ''token'') = Some (ustr ''key:5:'' @ payload_digest (map mkb (ustr ''token'')))"
    by (simp add: summarize_key_def u [simplified] utf8_char_def dec_nat.simps)
  have s: "secret_key id (ustr ''token'')" by (simp add: secret_key_def secret_keys_def)
  have "summarize_payload id (ai_payload sample_input) =
      Some (JObj [(ustr ''key:5:'' @ payload_digest (map mkb (ustr ''token'')), redacted_mark)])"
    using sk s by (simp del: ustr_simps add: sample_input_def)
  then show ?thesis
    using b t by (simp add: audit_event_of_def sample_input_def content_metadata_text_def del: ustr_simps)
qed


lemma audit_record_appends_witness:
  "\<exists>e res s'. audit_record id (\<lambda>_. [65]) sample_recorder sample_input = (res, s') \<and> rec_records s' = [e]"
proof -
  obtain e where e: "audit_event_of id sample_input = Inr e" using sample_event by blast
  obtain res s' where r: "audit_record id (\<lambda>_. [65]) sample_recorder sample_input = (res, s')" by fastforce
  have "rec_records s' = [e]"
    using audit_record_appends [OF r] e by (simp add: sample_recorder_def)
  with r show ?thesis by blast
qed

lemma cleanup_deletes_expired_bodies_witness:
  "''audit-1.jsonl'' \<notin> set [''a.stdout.body''] \<and>
   cleanup_expired_sensitive_artifacts (the (rec_store sample_recorder)) (Aware 100) =
     (Inr [''a.stdout.body''], (the (rec_store sample_recorder))\<lparr>js_artifacts :=
        [(''b.stdout.body'', 95), (''audit-1.jsonl'', 1)]\<rparr>)"
proof
  show *: "cleanup_expired_sensitive_artifacts (the (rec_store sample_recorder)) (Aware 100) =
     (Inr [''a.stdout.body''], (the (rec_store sample_recorder))\<lparr>js_artifacts :=
        [(''b.stdout.body'', 95), (''audit-1.jsonl'', 1)]\<rparr>)"
    by (simp add: cleanup_expired_sensitive_artifacts_def sample_recorder_def sensitive_artifact_def ends_with_def)
  show "''audit-1.jsonl'' \<notin> set [''a.stdout.body'']"
    using cleanup_deletes_expired_bodies [OF *, THEN conjunct2, THEN conjunct2, THEN conjunct1]
    by (simp add: ends_with_def)
qed

end
