(* ===== verification/Approval_Flow.thy ===== *)
theory Approval_Flow
  imports Audit_Trail
begin

text \<open>
  How a user's consent is obtained and spent: the coordinator that asks a surface and settles the
  approval (\<open>gateway/approval_coordinator.py\<close>), the MCP elicitation surface
  (\<open>gateway/approval_elicitation.py\<close>), the authorization of a dispatch call
  (\<open>gateway/approval_authorization.py\<close>) and the front end of the power tools
  (\<open>tools/system.py\<close>). The coordinator is written against the protocol \<open>ApprovalStore\<close>, which is
  the locale; it is interpreted on the approval manager.
\<close>

section \<open>The coordinator\<close>

text \<open>A surface answers, is unavailable, runs into the deadline, or fails to render the payload.\<close>

datatype surface_error = SurfaceUnavailable | SurfaceTimeout | SurfaceDecodeError

type_synonym surface = "approval_record \<Rightarrow> surface_error + bool"

datatype resolve_error = StoreError approval_error | SurfaceFailure

record approval_receipt =
  receipt_approval_id :: uuid
  receipt_method :: approval_method
  receipt_payload_digest :: pystr

fun try_surfaces :: "(surface option \<times> approval_method) list \<Rightarrow> approval_record \<Rightarrow>
    surface_error + (bool \<times> approval_method)" where
  "try_surfaces [] r = Inr (False, LOCAL)"
| "try_surfaces ((None, m) # ss) r = try_surfaces ss r"
| "try_surfaces ((Some surface, m) # ss) r =
     (case surface r of
        Inl SurfaceUnavailable \<Rightarrow> try_surfaces ss r
      | Inl e \<Rightarrow> Inl e
      | Inr approved \<Rightarrow> Inr (approved, m))"

definition resolve_surface :: "surface option \<Rightarrow> surface option \<Rightarrow> approval_record \<Rightarrow>
    surface_error + (bool \<times> approval_method)" where
  "resolve_surface elicitation local = try_surfaces [(elicitation, ELICITATION), (local, LOCAL)]"

text \<open>
  \<open>resolve\<close> awaits the surface between its two calls of the store; \<open>meanwhile\<close> is whatever other
  tasks do to the store in that time, \<open>now\<close> the clock when the decision is taken.
\<close>

definition coordinator_settle ::
  "('s \<Rightarrow> approval_decision \<Rightarrow> (approval_error + approval_record) \<times> 's) \<Rightarrow> 's \<Rightarrow> approval_record \<Rightarrow>
   surface_error + (bool \<times> approval_method) \<Rightarrow> datetime \<Rightarrow> (resolve_error + approval_receipt) \<times> 's" where
  "coordinator_settle dec s r answer now =
     (case answer of
        Inl SurfaceTimeout \<Rightarrow> (Inl (StoreError (ApprovalExpiredError (ar_approval_id r))), s)
      | Inl _ \<Rightarrow> (Inl SurfaceFailure, s)
      | Inr (approved, m) \<Rightarrow>
          (case dec s \<lparr>dec_approval_id = ar_approval_id r, dec_approved = approved, dec_method = m,
                       dec_decided_at = now\<rparr> of
             (Inl e, s1) \<Rightarrow> (Inl (StoreError e), s1)
           | (Inr _, s1) \<Rightarrow>
               if \<not> approved then (Inl (StoreError (ApprovalDeniedError (ar_approval_id r))), s1)
               else (Inr \<lparr>receipt_approval_id = ar_approval_id r, receipt_method = m,
                          receipt_payload_digest = ar_payload_digest r\<rparr>, s1)))"

definition coordinator_resolve ::
  "('s \<Rightarrow> uuid \<Rightarrow> approval_submission \<Rightarrow> (approval_error + approval_record) \<times> 's) \<Rightarrow>
   ('s \<Rightarrow> approval_decision \<Rightarrow> (approval_error + approval_record) \<times> 's) \<Rightarrow>
   surface option \<Rightarrow> surface option \<Rightarrow> ('s \<Rightarrow> 's) \<Rightarrow> datetime \<Rightarrow> 's \<Rightarrow> uuid \<Rightarrow> approval_submission \<Rightarrow>
   (resolve_error + approval_receipt) \<times> 's" where
  "coordinator_resolve req dec elicitation local meanwhile now s i sub =
     (case req s i sub of
        (Inl e, s1) \<Rightarrow> (Inl (StoreError e), s1)
      | (Inr r, s1) \<Rightarrow>
          if tz_missing (ar_expires_at r) then (Inl (StoreError ComparisonTypeError), s1)
          else coordinator_settle dec (meanwhile s1) r (resolve_surface elicitation local r) now)"

text \<open>
  The contract of an approval store. \<open>lookup\<close> is what the store holds for an identifier and \<open>inv\<close> its
  well-formedness.
\<close>

locale approval_store =
  fixes inv :: "'s \<Rightarrow> bool"
    and lookup :: "'s \<Rightarrow> uuid \<Rightarrow> approval_record option"
    and req :: "'s \<Rightarrow> uuid \<Rightarrow> approval_submission \<Rightarrow> (approval_error + approval_record) \<times> 's"
    and dec :: "'s \<Rightarrow> approval_decision \<Rightarrow> (approval_error + approval_record) \<times> 's"
  assumes req_ok: "inv s \<Longrightarrow> req s i sub = (Inr r, s') \<Longrightarrow>
      inv s' \<and> lookup s' i = Some r \<and> ar_approval_id r = i \<and> ar_state r = PENDING \<and>
      (\<forall>j. j \<noteq> i \<longrightarrow> lookup s' j = lookup s j)"
    and req_err: "req s i sub = (Inl x, s') \<Longrightarrow> s' = s"
    and dec_ok: "inv s \<Longrightarrow> dec s d = (Inr r, s') \<Longrightarrow>
      inv s' \<and> lookup s' (dec_approval_id d) = Some r \<and>
      ar_state r = (if dec_approved d then APPROVED else DENIED) \<and>
      (dec_approved d \<longrightarrow> ar_method r = Some (dec_method d)) \<and>
      (\<forall>j. j \<noteq> dec_approval_id d \<longrightarrow> lookup s' j = lookup s j)"
    and dec_err: "inv s \<Longrightarrow> dec s d = (Inl x, s') \<Longrightarrow>
      inv s' \<and> (\<forall>j q. lookup s' j = Some q \<longrightarrow> ar_state q = APPROVED \<longrightarrow> lookup s j = Some q)"
begin

definition approved_in :: "'s \<Rightarrow> uuid \<Rightarrow> bool" where
  "approved_in s i \<longleftrightarrow> (\<exists>r. lookup s i = Some r \<and> ar_state r = APPROVED)"

text \<open>A receipt is issued only for an explicit yes of the surface that is named in it.\<close>

lemma receipt_sound:
  assumes "inv s" "\<And>t. inv t \<Longrightarrow> inv (meanwhile t)"
    "coordinator_resolve req dec el lo meanwhile now s i sub = (Inr rc, s')"
  shows "\<exists>r. req s i sub = (Inr r, snd (req s i sub)) \<and> resolve_surface el lo r = Inr (True, receipt_method rc) \<and>
    receipt_approval_id rc = i \<and> receipt_payload_digest rc = ar_payload_digest r \<and> approved_in s' i"
proof -
  obtain r s1 where r: "req s i sub = (Inr r, s1)"
    using assms(3) by (auto simp: coordinator_resolve_def split: sum.splits prod.splits)
  have i1: "inv s1" "ar_approval_id r = i" using req_ok [OF assms(1) r] by auto
  obtain m where m: "resolve_surface el lo r = Inr (True, m)"
    and settle: "coordinator_settle dec (meanwhile s1) r (Inr (True, m)) now = (Inr rc, s')"
    using assms(3) r
    by (auto simp: coordinator_resolve_def coordinator_settle_def
        split: sum.splits prod.splits surface_error.splits if_splits)
  obtain q where d: "dec (meanwhile s1) \<lparr>dec_approval_id = ar_approval_id r, dec_approved = True,
        dec_method = m, dec_decided_at = now\<rparr> = (Inr q, s')"
      "rc = \<lparr>receipt_approval_id = ar_approval_id r, receipt_method = m, receipt_payload_digest = ar_payload_digest r\<rparr>"
    using settle by (auto simp: coordinator_settle_def split: sum.splits prod.splits)
  have "approved_in s' i"
    using dec_ok [OF assms(2) [OF i1(1)] d(1)] i1(2) by (auto simp: approved_in_def)
  then show ?thesis using r m d(2) i1(2) by auto
qed

text \<open>Without a yes nothing becomes approved that was not approved before.\<close>

lemma fails_closed:
  assumes "inv s" "\<And>t. inv t \<Longrightarrow> inv (meanwhile t)"
    and quiet: "\<And>t. inv t \<Longrightarrow> approved_in (meanwhile t) j \<Longrightarrow> approved_in t j"
    and no: "\<And>r. req s i sub = (Inr r, snd (req s i sub)) \<Longrightarrow> \<forall>m. resolve_surface el lo r \<noteq> Inr (True, m)"
    and run: "coordinator_resolve req dec el lo meanwhile now s i sub = (res, s')"
    and app: "approved_in s' j"
  shows "\<not> isOk res \<and> approved_in s j"
proof (cases "req s i sub")
  case (Pair x s1)
  show ?thesis
  proof (cases x)
    case (Inl e)
    then show ?thesis using run Pair req_err [of s i sub e s1] app by (auto simp: coordinator_resolve_def)
  next
    case (Inr r)
    have r: "req s i sub = (Inr r, s1)" using Pair Inr by simp
    have new: "approved_in s1 j \<Longrightarrow> approved_in s j"
      using req_ok [OF assms(1) r] by (cases "j = i") (auto simp: approved_in_def)
    have i1: "inv (meanwhile s1)" using assms(2) req_ok [OF assms(1) r] by blast
    have old: "approved_in (meanwhile s1) j \<Longrightarrow> approved_in s j"
      using quiet [of s1] req_ok [OF assms(1) r] new by blast
    show ?thesis
    proof (cases "tz_missing (ar_expires_at r)")
      case True
      then show ?thesis using run r app new by (auto simp: coordinator_resolve_def)
    next
      case False
      then have st: "coordinator_settle dec (meanwhile s1) r (resolve_surface el lo r) now = (res, s')"
        using run r by (simp add: coordinator_resolve_def)
      show ?thesis
      proof (cases "resolve_surface el lo r")
        case (Inl e)
        then show ?thesis using st app old by (cases e) (auto simp: coordinator_settle_def)
      next
        case (Inr am)
        then obtain m where am: "am = (False, m)" using no [of r] r by (cases am) auto
        let ?d = "\<lparr>dec_approval_id = ar_approval_id r, dec_approved = False, dec_method = m, dec_decided_at = now\<rparr>"
        obtain y s2 where d: "dec (meanwhile s1) ?d = (y, s2)" by fastforce
        have s2: "s' = s2" "\<not> isOk res" using st Inr am d by (auto simp: coordinator_settle_def split: sum.splits)
        show ?thesis
        proof (cases y)
          case (Inl e)
          then have "approved_in (meanwhile s1) j"
            using dec_err [OF i1] d app s2 by (fastforce simp: approved_in_def)
          then show ?thesis using old s2 by simp
        next
          case (Inr q)
          then have "approved_in (meanwhile s1) j"
            using dec_ok [OF i1, of ?d q s2] d app s2
            by (cases "j = ar_approval_id r") (auto simp: approved_in_def)
          then show ?thesis using old s2 by simp
        qed
      qed
    qed
  qed
qed

end

definition approvals_keyed :: "approvals \<Rightarrow> bool" where
  "approvals_keyed s \<longleftrightarrow> (\<forall>i r. s i = Some r \<longrightarrow> ar_approval_id r = i)"

lemma approvals_keyed_upd:
  "approvals_keyed s \<Longrightarrow> ar_approval_id r = i \<Longrightarrow> approvals_keyed (s(i \<mapsto> r))"
  by (simp add: approvals_keyed_def)

interpretation manager: approval_store approvals_keyed "\<lambda>s. s" request decide
proof unfold_locales
  fix s i sub r s' assume "approvals_keyed s" "request s i sub = (Inr r, s')"
  then show "approvals_keyed s' \<and> s' i = Some r \<and> ar_approval_id r = i \<and> ar_state r = PENDING \<and>
      (\<forall>j. j \<noteq> i \<longrightarrow> s' j = s j)"
    by (elim request_Inr) (auto intro: approvals_keyed_upd)
next
  fix s i sub x s' assume "request s i sub = (Inl x, s')"
  then show "s' = s" by (rule request_Inl)
next
  fix s d r s' assume k: "approvals_keyed s" and d: "decide s d = (Inr r, s')"
  from d show "approvals_keyed s' \<and> s' (dec_approval_id d) = Some r \<and>
      ar_state r = (if dec_approved d then APPROVED else DENIED) \<and>
      (dec_approved d \<longrightarrow> ar_method r = Some (dec_method d)) \<and>
      (\<forall>j. j \<noteq> dec_approval_id d \<longrightarrow> s' j = s j)"
  proof (cases rule: decide_cases)
    case (decided q)
    then have "ar_approval_id q = dec_approval_id d" using k by (simp add: approvals_keyed_def)
    then show ?thesis using decided k by (auto intro!: approvals_keyed_upd)
  qed auto
next
  fix s d x s' assume k: "approvals_keyed s" and d: "decide s d = (Inl x, s')"
  from d show "approvals_keyed s' \<and> (\<forall>j q. s' j = Some q \<longrightarrow> ar_state q = APPROVED \<longrightarrow> s j = Some q)"
    by (cases rule: decide_cases) (use k in \<open>auto intro!: approvals_keyed_upd\<close>)
qed

section \<open>The elicitation surface\<close>

text \<open>
  A client capability: \<open>None\<close> when the client declares no elicitation, otherwise whether it names the
  form and the URL mode. \<open>modern\<close> are the SDK's \<open>MODERN_PROTOCOL_VERSIONS\<close>.
\<close>

record elicitation_capability =
  cap_form :: bool
  cap_url :: bool

definition supports_form_elicitation ::
  "string list \<Rightarrow> elicitation_capability option option \<Rightarrow> string option \<Rightarrow> bool" where
  "supports_form_elicitation modern capabilities version =
     (case capabilities of
        Some (Some e) \<Rightarrow>
          if cap_form e then True
          else \<not> cap_url e \<and> (case version of None \<Rightarrow> True | Some v \<Rightarrow> v \<notin> set modern)
      | _ \<Rightarrow> False)"

datatype elicit_answer = AcceptedElicitation | DeclinedElicitation | CancelledElicitation
  | ElicitRaised | ElicitTimeout

record elicitation_context =
  ctx_capabilities :: "elicitation_capability option option"
  ctx_protocol_version :: "string option"
  ctx_can_send_request :: bool
  ctx_elicit :: "pystr \<Rightarrow> elicit_answer"

definition elicitation_message :: "approval_record \<Rightarrow> pystr option" where
  "elicitation_message r =
     map_option (\<lambda>payload.
       ustr ''Approve this frozen request exactly once? Tool: '' @ ustr (ar_tool_name r) @
       ustr ''; payload: '' @ payload @ ustr ''; digest: '' @ ar_payload_digest r)
     (utf8_decode (ar_canonical_payload r))"

definition elicitation_resolve :: "string list \<Rightarrow> elicitation_context \<Rightarrow> surface" where
  "elicitation_resolve modern ctx r =
     (if \<not> supports_form_elicitation modern (ctx_capabilities ctx) (ctx_protocol_version ctx) \<or>
         \<not> ctx_can_send_request ctx
      then Inl SurfaceUnavailable
      else (case elicitation_message r of
              None \<Rightarrow> Inl SurfaceDecodeError
            | Some message \<Rightarrow>
                (case ctx_elicit ctx message of
                   ElicitRaised \<Rightarrow> Inl SurfaceUnavailable
                 | ElicitTimeout \<Rightarrow> Inl SurfaceTimeout
                 | AcceptedElicitation \<Rightarrow> Inr True
                 | DeclinedElicitation \<Rightarrow> Inr False
                 | CancelledElicitation \<Rightarrow> Inr False)))"

text \<open>The text shown for a frozen request contains the canonical payload itself.\<close>

lemma elicitation_message_shows_payload:
  assumes "canonicalize_payload p = Inr (ar_canonical_payload r)"
  obtains t a z where "elicitation_message r = Some (a @ t @ z)"
    "dump_json (sort_keys p) = Some t" "utf8_encode t = Some (ar_canonical_payload r)"
proof -
  obtain t where t: "dump_json (sort_keys p) = Some t" "utf8_encode t = Some (ar_canonical_payload r)"
    using assms by (auto simp: canonicalize_payload_text)
  have "elicitation_message r =
    Some ((ustr ''Approve this frozen request exactly once? Tool: '' @ ustr (ar_tool_name r) @
      ustr ''; payload: '') @ t @ ustr ''; digest: '' @ ar_payload_digest r)"
    by (simp add: elicitation_message_def utf8_decode_encode [OF t(2)] del: ustr_simps)
  then show ?thesis using that t by blast
qed

section \<open>Authorization of a call\<close>

text \<open>The dispatch input (\<open>gateway/dispatcher.py\<close>) with the constraints of its fields.\<close>

record dispatch_call =
  dc_operation_id :: uuid
  dc_tool_name :: string
  dc_payload :: "(pystr \<times> json) list"
  dc_requested_at :: datetime
  dc_timeout_ms :: int
  dc_approval_id :: "uuid option"

definition dispatch_call_ok :: "dispatch_call \<Rightarrow> bool" where
  "dispatch_call_ok c \<longleftrightarrow>
     tool_name_ok (dc_tool_name c) \<and> \<not> tz_missing (dc_requested_at c) \<and>
     0 < dc_timeout_ms c \<and> dc_timeout_ms c \<le> 300000"

datatype authorization = Authorized "approval_audit_metadata option" | AuthorizationError string

definition attempt_of :: "dispatch_call \<Rightarrow> uuid \<Rightarrow> approval_attempt" where
  "attempt_of c i =
     \<lparr>att_approval_id = i, att_operation_id = Some (dc_operation_id c),
      att_tool_name = Some (dc_tool_name c), att_payload = JObj (dc_payload c),
      att_attempted_at = dc_requested_at c\<rparr>"

definition authorize :: "dispatch_call \<Rightarrow> approvals \<Rightarrow> (approval_error + authorization) \<times> approvals" where
  "authorize c s =
     (case evaluate_tool (dc_tool_name c) of
        Inl _ \<Rightarrow> (Inr (AuthorizationError ''policy_denied''), s)
      | Inr ALLOW \<Rightarrow> (Inr (Authorized None), s)
      | Inr DENY \<Rightarrow> (Inr (AuthorizationError ''policy_denied''), s)
      | Inr REQUIRE_APPROVAL \<Rightarrow>
          (case dc_approval_id c of
             None \<Rightarrow> (Inr (AuthorizationError ''approval_required''), s)
           | Some i \<Rightarrow>
               (case consume s (attempt_of c i) of
                  (Inl e, s1) \<Rightarrow>
                    if approval_lifecycle_error e \<or> (\<exists>j. e = ApprovalNotFoundError j)
                    then (Inr (AuthorizationError ''approval_invalid''), s1)
                    else (Inl e, s1)
                | (Inr p, s1) \<Rightarrow>
                    (Inr (Authorized (Some \<lparr>aam_approval_id = i, aam_method = app_method p,
                                           aam_frozen_payload_digest = app_payload_digest p\<rparr>)), s1))))"

text \<open>What an authorized call rests on: an allowed tool, or an approval spent on this very call.\<close>

lemma authorize_cases:
  assumes "authorize c s = (Inr (Authorized m), s')"
  obtains (allowed) "evaluate_tool (dc_tool_name c) = Inr ALLOW" "m = None" "s' = s"
    | (receipt) i p where "evaluate_tool (dc_tool_name c) = Inr REQUIRE_APPROVAL"
        "dc_approval_id c = Some i" "consume s (attempt_of c i) = (Inr p, s')"
        "m = Some \<lparr>aam_approval_id = i, aam_method = app_method p,
                   aam_frozen_payload_digest = app_payload_digest p\<rparr>"
  using assms
  by (auto simp: authorize_def split: sum.splits policy_decision.splits option.splits prod.splits if_splits)

lemma consume_errors:
  assumes "consume s a = (Inl e, s')" "\<not> tz_missing (att_attempted_at a)"
    "canonicalize_payload (att_payload a) = Inr b"
    "\<And>r. s (att_approval_id a) = Some r \<Longrightarrow> \<not> tz_missing (ar_expires_at r) \<and>
       (ar_state r = APPROVED \<longrightarrow> ar_method r \<noteq> None)"
  shows "approval_lifecycle_error e \<or> e = ApprovalNotFoundError (att_approval_id a)"
proof (cases "s (att_approval_id a)")
  case None
  then show ?thesis using assms(1) by (simp add: consume_def get_record_def)
next
  case (Some r)
  then have "dt_le (ar_expires_at r) (att_attempted_at a) \<noteq> None"
    "ar_state r = APPROVED \<Longrightarrow> ar_method r \<noteq> None"
    using assms(2,4) by (auto simp: dt_le_None_iff)
  then show ?thesis
    using assms(1,3) Some
    by (auto simp: consume_def get_record_def split: option.splits bool.splits if_splits approval_state.splits)
qed

lemma run_record_aware:
  assumes "approval_run h s" "s i = Some r"
  shows "\<not> tz_missing (ar_expires_at r) \<and> (ar_state r = APPROVED \<longrightarrow> ar_method r \<noteq> None)"
proof -
  have r: "record_inv h i r" using approvals_inv_lookup [OF approval_run_inv [OF assms(1)] assms(2)] .
  then obtain sub where sub: "make_submission sub = Inr sub" "ar_expires_at r = sub_expires_at sub"
    by (auto simp: record_inv_def requested_as_def)
  then have "\<not> tz_missing (ar_expires_at r)"
    by (auto simp: make_submission_def ensure_valid_window_def split: if_splits)
  moreover have "ar_state r = APPROVED \<longrightarrow> ar_method r \<noteq> None"
    using r by (auto simp: record_inv_def approved_as_def)
  ultimately show ?thesis by blast
qed

section \<open>The power tools\<close>

record power_input =
  pi_operation_id :: uuid
  pi_approval_id :: "uuid option"
  pi_delay_seconds :: int
  pi_reason :: pystr

definition power_input_ok :: "power_input \<Rightarrow> bool" where
  "power_input_ok r \<longleftrightarrow>
     0 \<le> pi_delay_seconds r \<and> pi_delay_seconds r \<le> 300 \<and>
     1 \<le> length (pi_reason r) \<and> length (pi_reason r) \<le> 200"

definition power_payload :: "power_input \<Rightarrow> (pystr \<times> json) list" where
  "power_payload r =
     [(ustr ''delay_seconds'', JInt (pi_delay_seconds r)), (ustr ''reason'', JStr (pi_reason r))]"

definition power_submission :: "string \<Rightarrow> power_input \<Rightarrow> int \<Rightarrow> approval_submission" where
  "power_submission tool r t =
     \<lparr>sub_operation_id = pi_operation_id r, sub_tool_name = tool, sub_payload = JObj (power_payload r),
      sub_requested_at = Aware t, sub_expires_at = Aware (t + 300000000)\<rparr>"

text \<open>
  \<open>_dispatch\<close> up to the dispatcher: obtain a receipt when none is presented. Denial and expiry leave the
  call without a receipt, every other error is raised. The clock is read when the submission is built
  (\<open>t0\<close>), when the surface has answered (\<open>t1\<close>) and for the call (\<open>t2\<close>).
\<close>

definition power_call ::
  "surface \<Rightarrow> (approvals \<Rightarrow> approvals) \<Rightarrow> int \<times> int \<times> int \<Rightarrow> uuid \<Rightarrow> bool \<Rightarrow> string \<Rightarrow> power_input \<Rightarrow>
   approvals \<Rightarrow> (resolve_error + dispatch_call) \<times> approvals" where
  "power_call surface meanwhile clock fresh has_manager tool r s =
     (case clock of (t0, t1, t2) \<Rightarrow>
        let call = (\<lambda>i. \<lparr>dc_operation_id = pi_operation_id r, dc_tool_name = tool,
                        dc_payload = power_payload r, dc_requested_at = Aware t2,
                        dc_timeout_ms = 5000, dc_approval_id = i\<rparr>)
        in if pi_approval_id r = None \<and> has_manager
           then (case make_submission (power_submission tool r t0) of
                   Inl e \<Rightarrow> (Inl (StoreError e), s)
                 | Inr sub \<Rightarrow>
                     (case coordinator_resolve request decide (Some surface) None meanwhile (Aware t1) s fresh sub of
                        (Inr receipt, s1) \<Rightarrow> (Inr (call (Some (receipt_approval_id receipt))), s1)
                      | (Inl (StoreError (ApprovalDeniedError _)), s1) \<Rightarrow> (Inr (call None), s1)
                      | (Inl (StoreError (ApprovalExpiredError _)), s1) \<Rightarrow> (Inr (call None), s1)
                      | (Inl e, s1) \<Rightarrow> (Inl e, s1)))
           else (Inr (call (pi_approval_id r)), s))"

section \<open>Consent\<close>


text \<open>
  The coordinator fails closed: when no configured surface says yes to the frozen record (it says
  no, is unavailable, times out or fails, or no surface is configured), the call returns an error and
  leaves no approval in state approved that was not approved before, provided the other tasks running
  meanwhile approve nothing themselves.
\<close>

theorem coordinator_fails_closed:
  assumes "approvals_keyed s" "\<And>t. approvals_keyed t \<Longrightarrow> approvals_keyed (meanwhile t)"
    "\<And>t j q. meanwhile t j = Some q \<Longrightarrow> ar_state q = APPROVED \<Longrightarrow> t j = Some q"
    "\<And>r m. resolve_surface el lo r \<noteq> Inr (True, m)"
    "coordinator_resolve request decide el lo meanwhile now s i sub = (res, s')"
    "s' j = Some q" "ar_state q = APPROVED"
  shows "\<not> isOk res \<and> (\<exists>q0. s j = Some q0 \<and> ar_state q0 = APPROVED)"
proof -
  have "\<not> isOk res \<and> manager.approved_in s j"
  proof (rule manager.fails_closed [OF assms(1,2) _ _ assms(5)])
    show "manager.approved_in s' j" using assms(6,7) by (auto simp: manager.approved_in_def)
    fix t assume "manager.approved_in (meanwhile t) j"
    then show "manager.approved_in t j" using assms(3) unfolding manager.approved_in_def by blast
  qed (use assms(4) in auto)
  then show ?thesis by (auto simp: manager.approved_in_def)
qed

text \<open>
  The elicitation surface reports a yes only when the client supports form elicitation over a
  transport that can carry it, and accepted a message in which the text of the frozen canonical
  payload is shown; the capability test accepts a client that declares the form mode, or declares
  neither mode on a protocol version that is not one of the modern ones, and no URL-only client.
\<close>

theorem elicitation_yes_saw_payload:
  assumes "elicitation_resolve modern ctx r = Inr True"
    "canonicalize_payload p = Inr (ar_canonical_payload r)"
  shows "\<exists>e t a z. ctx_capabilities ctx = Some (Some e) \<and> ctx_can_send_request ctx \<and>
    (cap_form e \<or> \<not> cap_url e \<and> (\<forall>v \<in> set modern. ctx_protocol_version ctx \<noteq> Some v)) \<and>
    dump_json (sort_keys p) = Some t \<and> utf8_encode t = Some (ar_canonical_payload r) \<and>
    ctx_elicit ctx (a @ t @ z) = AcceptedElicitation"
proof -
  obtain t a z where m: "elicitation_message r = Some (a @ t @ z)"
      "dump_json (sort_keys p) = Some t" "utf8_encode t = Some (ar_canonical_payload r)"
    using elicitation_message_shows_payload [OF assms(2)] .
  have sup: "supports_form_elicitation modern (ctx_capabilities ctx) (ctx_protocol_version ctx)"
      "ctx_can_send_request ctx" "ctx_elicit ctx (a @ t @ z) = AcceptedElicitation"
    using assms(1) m(1) by (auto simp: elicitation_resolve_def split: if_splits elicit_answer.splits)
  then obtain e where "ctx_capabilities ctx = Some (Some e)"
      "cap_form e \<or> \<not> cap_url e \<and> (\<forall>v \<in> set modern. ctx_protocol_version ctx \<noteq> Some v)"
    by (auto simp: supports_form_elicitation_def split: option.splits if_splits)
  with sup m show ?thesis by blast
qed

text \<open>
  C3: Authorization spends the approval it relies on: in any reachable state of the approvals, a call
  is authorized either because its tool needs no approval, and then nothing changes, or because the
  history holds the user's yes for this tool, operation and payload; in that case the approval is
  spent, and no later call on the resulting state is authorized by the same approval.
\<close>

theorem authorization_spends_approval:
  assumes "approval_run h s" "authorize c s = (Inr (Authorized m), s')"
  shows "(evaluate_tool (dc_tool_name c) = Inr ALLOW \<and> m = None \<and> s' = s) \<or>
    (\<exists>i p. evaluate_tool (dc_tool_name c) = Inr REQUIRE_APPROVAL \<and> dc_approval_id c = Some i \<and>
       approved_for h (attempt_of c i) p \<and> approval_run (ConsumedBy (attempt_of c i) p # h) s' \<and>
       m = Some \<lparr>aam_approval_id = i, aam_method = app_method p, aam_frozen_payload_digest = app_payload_digest p\<rparr> \<and>
       (\<forall>c' m' s''. dc_approval_id c' = Some i \<longrightarrow> authorize c' s' \<noteq> (Inr (Authorized (Some m')), s'')))"
  using assms(2)
proof (cases rule: authorize_cases)
  case (receipt i p)
  have run: "approval_run (ConsumedBy (attempt_of c i) p # h) s'"
    using approval_run.consume [OF assms(1) receipt(3)] .
  have spent: "consume s' (attempt_of c' i) \<noteq> (Inr q, s'')" for c' q s''
  proof
    assume "consume s' (attempt_of c' i) = (Inr q, s'')"
    then have "approvals_inv (ConsumedBy (attempt_of c' i) q # ConsumedBy (attempt_of c i) p # h) s''"
      using approval_run_inv approval_run.consume [OF run] by blast
    then have "length (filter (consumes i) (ConsumedBy (attempt_of c' i) q # ConsumedBy (attempt_of c i) p # h)) \<le> 1"
      by (cases "s'' i") (auto simp: approvals_inv_def record_inv_def)
    then show False by (simp add: attempt_of_def)
  qed
  have again: "authorize c' s' \<noteq> (Inr (Authorized (Some m')), s'')" if "dc_approval_id c' = Some i" for c' m' s''
  proof
    assume "authorize c' s' = (Inr (Authorized (Some m')), s'')"
    then show False by (cases rule: authorize_cases) (use that spent in auto)
  qed
  show ?thesis
    using receipt run again consume_approved_for [OF approval_run_inv [OF assms(1)] receipt(3)] by blast
qed auto

text \<open>
  Authorization of a well-formed call never raises: in a reachable state every refusal of a call
  whose payload has a canonical form is reported as one of the three error codes.
\<close>

theorem authorize_never_raises:
  assumes "approval_run h s" "dispatch_call_ok c" "canonicalize_payload (JObj (dc_payload c)) = Inr b"
  shows "\<exists>a s'. authorize c s = (Inr a, s') \<and>
    (\<forall>code. a = AuthorizationError code \<longrightarrow> code \<in> {''policy_denied'', ''approval_required'', ''approval_invalid''})"
proof (cases "evaluate_tool (dc_tool_name c) = Inr REQUIRE_APPROVAL \<and> dc_approval_id c \<noteq> None")
  case True
  then obtain i where i: "dc_approval_id c = Some i" by blast
  obtain x s' where x: "consume s (attempt_of c i) = (x, s')" by fastforce
  have "approval_lifecycle_error e \<or> (\<exists>j. e = ApprovalNotFoundError j)" if "x = Inl e" for e
    using consume_errors [of s "attempt_of c i" e s' b] x that assms(2,3) run_record_aware [OF assms(1)]
    by (auto simp: attempt_of_def dispatch_call_ok_def)
  then show ?thesis using True i x by (cases x) (auto simp: authorize_def)
next
  case False
  then show ?thesis by (auto simp: authorize_def split: sum.splits policy_decision.splits)
qed

subsection \<open>Concrete calls\<close>

definition yes_surface :: surface where
  "yes_surface r = Inr True"

definition no_surface :: surface where
  "no_surface r = Inr False"

definition sample_context :: elicitation_context where
  "sample_context =
     \<lparr>ctx_capabilities = Some (Some \<lparr>cap_form = False, cap_url = False\<rparr>),
      ctx_protocol_version = Some ''2025-06-18'', ctx_can_send_request = True,
      ctx_elicit = (\<lambda>_. AcceptedElicitation)\<rparr>"

definition sample_call :: dispatch_call where
  "sample_call =
     \<lparr>dc_operation_id = 7, dc_tool_name = ''system_reboot'', dc_payload = [(ustr ''a'', JInt 1)],
      dc_requested_at = Aware 20, dc_timeout_ms = 5000, dc_approval_id = Some 1\<rparr>"

lemma sample_attempt_of: "attempt_of sample_call 1 = sample_attempt"
  by (simp add: attempt_of_def sample_call_def sample_attempt_def sample_payload_def)

lemma sample_resolve:
  "coordinator_resolve request decide (Some yes_surface) None id (Aware 10) Map.empty 1 sample_submission =
     (Inr \<lparr>receipt_approval_id = 1, receipt_method = ELICITATION,
           receipt_payload_digest = payload_digest sample_bytes\<rparr>,
      [1 \<mapsto> sample_record APPROVED (Some ELICITATION)])"
  using sample_decide
  by (simp add: coordinator_resolve_def sample_request [simplified] resolve_surface_def yes_surface_def
      coordinator_settle_def sample_decision_def sample_record_def)


definition sample_other :: approval_record where
  "sample_other = (sample_record APPROVED None)\<lparr>ar_approval_id := 2\<rparr>"

lemma sample_request_other:
  "request [2 \<mapsto> sample_other] 1 sample_submission =
     (Inr (sample_record PENDING None), [2 \<mapsto> sample_other, 1 \<mapsto> sample_record PENDING None])"
  by (simp add: request_def sample_defs sample_evaluate sample_canonical Let_def)

lemma sample_deny:
  "decide [2 \<mapsto> sample_other, 1 \<mapsto> sample_record PENDING None]
      \<lparr>dec_approval_id = 1, dec_approved = False, dec_method = ELICITATION, dec_decided_at = Aware 10\<rparr> =
     (Inr (sample_record DENIED (Some ELICITATION)), [2 \<mapsto> sample_other, 1 \<mapsto> sample_record DENIED (Some ELICITATION)])"
  by (simp add: decide_def get_record_def sample_record_def Let_def)

lemma sample_resolve_denied:
  "coordinator_resolve request decide (Some no_surface) None id (Aware 10) [2 \<mapsto> sample_other] 1 sample_submission =
     (Inl (StoreError (ApprovalDeniedError 1)), [2 \<mapsto> sample_other, 1 \<mapsto> sample_record DENIED (Some ELICITATION)])"
  using sample_deny
  by (simp add: coordinator_resolve_def sample_request_other [simplified] resolve_surface_def no_surface_def
      coordinator_settle_def sample_record_def)

lemma coordinator_fails_closed_witness:
  "\<exists>q. [2 \<mapsto> sample_other] (2 :: nat) = Some q \<and> ar_state q = APPROVED"
proof -
  have k: "approvals_keyed [2 \<mapsto> sample_other]" by (simp add: approvals_keyed_def sample_other_def)
  have "resolve_surface (Some no_surface) None r \<noteq> Inr (True, m)" for r m
    by (simp add: resolve_surface_def no_surface_def)
  then show ?thesis
    using coordinator_fails_closed [OF k _ _ _ sample_resolve_denied, of 2 sample_other]
    by (simp add: sample_other_def sample_record_def)
qed

lemma elicitation_yes_saw_payload_witness:
  "\<exists>t a z. dump_json (sort_keys sample_payload) = Some t \<and>
     ctx_elicit sample_context (a @ t @ z) = AcceptedElicitation"
proof -
  have "elicitation_message (sample_record PENDING None) \<noteq> None"
    by (rule elicitation_message_shows_payload [of sample_payload "sample_record PENDING None"])
      (auto simp: sample_record_def sample_canonical)
  then have "elicitation_resolve [''2026-01-01''] sample_context (sample_record PENDING None) = Inr True"
    by (auto simp: elicitation_resolve_def sample_context_def supports_form_elicitation_def)
  then show ?thesis
    using elicitation_yes_saw_payload [of "[''2026-01-01'']" sample_context "sample_record PENDING None" sample_payload]
    by (auto simp: sample_record_def sample_canonical)
qed

lemma sample_approved_run:
  "approval_run sample_history [1 \<mapsto> sample_record APPROVED (Some ELICITATION)]"
  unfolding sample_history_def
  by (rule approval_run.decide [OF approval_run.request
        [OF approval_run.init _ sample_make_submission sample_request] sample_decide]) simp

lemma sample_authorize:
  "authorize sample_call [1 \<mapsto> sample_record APPROVED (Some ELICITATION)] =
     (Inr (Authorized (Some \<lparr>aam_approval_id = 1, aam_method = ELICITATION,
        aam_frozen_payload_digest = payload_digest sample_bytes\<rparr>)), [1 \<mapsto> sample_record CONSUMED (Some ELICITATION)])"
  using sample_attempt_of sample_consume sample_evaluate
  by (simp add: authorize_def sample_call_def sample_approved_def)

lemma authorization_spends_approval_witness:
  "\<forall>m s. authorize sample_call [1 \<mapsto> sample_record CONSUMED (Some ELICITATION)] \<noteq> (Inr (Authorized (Some m)), s)"
  using authorization_spends_approval [OF sample_approved_run sample_authorize] sample_evaluate
  by (auto simp: sample_call_def)

lemma authorize_never_raises_witness:
  "\<exists>a s'. authorize sample_call [1 \<mapsto> sample_record APPROVED (Some ELICITATION)] = (Inr a, s')"
proof -
  have "dispatch_call_ok sample_call"
    by (simp add: dispatch_call_ok_def sample_call_def lower_char_def digit_char_def)
  moreover have "canonicalize_payload (JObj (dc_payload sample_call)) = Inr sample_bytes"
    using sample_canonical by (simp add: sample_payload_def sample_call_def)
  ultimately show ?thesis using authorize_never_raises [OF sample_approved_run] by blast
qed

end
