(* ===== verification/Ipc_Protocol.thy ===== *)
theory Ipc_Protocol
  imports Tool_Policy
begin

text \<open>
  The messages between the gateway and its local peers (\<open>ipc/protocol.py\<close>,
  \<open>ipc/protocol_errors.py\<close>, \<open>ipc/chunk_errors.py\<close>, \<open>ipc/operation_policy.py\<close>): their fields, the
  constraints and validators of each, the correlation of responses with requests, and the parser
  over the schema library. \<open>ipc/registration.py\<close>: acceptance of a new registration.
\<close>

section \<open>Constants and roles\<close>

definition protocol_version :: int where "protocol_version = 1"
definition heartbeat_interval_seconds :: int where "heartbeat_interval_seconds = 5"
definition heartbeat_offline_seconds :: int where "heartbeat_offline_seconds = 15"
definition max_output_chunk_bytes :: int where "max_output_chunk_bytes = 65536"
definition max_output_offset :: int where "max_output_offset = 2 ^ 63 - 1"

datatype peer_role = GatewayRole | WorkerRole | PrivilegedHelperRole

section \<open>Messages\<close>

record worker_registration =
  wr_registration_id :: uuid
  wr_generation :: int
  wr_session_id :: int
  wr_username :: pystr

record worker_heartbeat =
  wh_registration_id :: uuid
  wh_sequence :: int
  wh_session_id :: int
  wh_username :: pystr

record helper_registration =
  hr_registration_id :: uuid
  hr_generation :: int

record helper_heartbeat =
  hh_registration_id :: uuid
  hh_sequence :: int

record ipc_request =
  rq_request_id :: uuid
  rq_operation :: string
  rq_payload :: "(pystr \<times> json) list"
  rq_timeout_ms :: int

record power_payload_fields =
  pw_delay_seconds :: int
  pw_reason :: pystr

record power_request =
  pq_request_id :: uuid
  pq_payload :: power_payload_fields
  pq_timeout_ms :: int

datatype request_message =
    WorkerRequest ipc_request
  | RebootRequestMsg power_request
  | ShutdownRequestMsg power_request

record ipc_response =
  rs_request_id :: uuid
  rs_ok :: bool
  rs_payload :: "(pystr \<times> json) list option"
  rs_error_code :: "string option"

record chunk_request =
  cq_request_id :: uuid
  cq_job_id :: uuid
  cq_offset :: int
  cq_limit :: int

record chunk_response =
  cr_request_id :: uuid
  cr_job_id :: uuid
  cr_offset :: int
  cr_data :: pystr
  cr_next_offset :: int
  cr_complete :: bool

record cancel_request =
  cx_request_id :: uuid
  cx_reason :: string

datatype ipc_message =
    GatewayHello peer_role
  | WorkerRegistrationMsg worker_registration
  | HeartbeatMsg worker_heartbeat
  | HelperRegistrationMsg helper_registration
  | HelperHeartbeatMsg helper_heartbeat
  | RequestMsg request_message
  | ResponseMsg ipc_response
  | ChunkRequestMsg chunk_request
  | ChunkResponseMsg chunk_response
  | CancelMsg cancel_request

fun request_id_of :: "request_message \<Rightarrow> uuid" where
  "request_id_of (WorkerRequest q) = rq_request_id q"
| "request_id_of (RebootRequestMsg q) = pq_request_id q"
| "request_id_of (ShutdownRequestMsg q) = pq_request_id q"

section \<open>Field constraints\<close>

definition timeout_ok :: "int \<Rightarrow> bool" where
  "timeout_ok t \<longleftrightarrow> 0 < t \<and> t \<le> 300000"

definition text_ok :: "'a list \<Rightarrow> nat \<Rightarrow> bool" where
  "text_ok s n \<longleftrightarrow> 1 \<le> length s \<and> length s \<le> n"

definition power_fields_ok :: "power_payload_fields \<Rightarrow> bool" where
  "power_fields_ok p \<longleftrightarrow>
     0 \<le> pw_delay_seconds p \<and> pw_delay_seconds p \<le> 300 \<and> text_ok (pw_reason p) 200"

fun request_ok :: "request_message \<Rightarrow> bool" where
  "request_ok (WorkerRequest q) \<longleftrightarrow>
     text_ok (rq_operation q) 128 \<and> tool_name_ok (rq_operation q) \<and> timeout_ok (rq_timeout_ms q)"
| "request_ok (RebootRequestMsg q) \<longleftrightarrow> power_fields_ok (pq_payload q) \<and> timeout_ok (pq_timeout_ms q)"
| "request_ok (ShutdownRequestMsg q) \<longleftrightarrow> power_fields_ok (pq_payload q) \<and> timeout_ok (pq_timeout_ms q)"

datatype protocol_error =
    ProtocolMessageError
  | ProtocolVersionError int
  | ResponseStateError bool "string option"
  | CorrelationError uuid "uuid option"
  | ChunkBoundsError int int
  | ChunkOffsetError int int
  | ChunkCorrelationError uuid uuid int int
  | ChunkUnicodeError

definition result_matches_status :: "ipc_response \<Rightarrow> protocol_error + ipc_response" where
  "result_matches_status r =
     (if rs_ok r \<and> rs_error_code r \<noteq> None then Inl (ResponseStateError (rs_ok r) (rs_error_code r))
      else if \<not> rs_ok r \<and> rs_error_code r = None then Inl (ResponseStateError (rs_ok r) (rs_error_code r))
      else Inr r)"

definition make_response :: "ipc_response \<Rightarrow> protocol_error + ipc_response" where
  "make_response r =
     (case rs_error_code r of
        None \<Rightarrow> result_matches_status r
      | Some code \<Rightarrow> if length code \<le> 128 then result_matches_status r else Inl ProtocolMessageError)"

definition window_fits_offset_domain :: "chunk_request \<Rightarrow> protocol_error + chunk_request" where
  "window_fits_offset_domain q =
     (if cq_offset q > max_output_offset - cq_limit q
      then Inl (ChunkBoundsError (cq_offset q) (cq_limit q)) else Inr q)"

definition make_chunk_request :: "chunk_request \<Rightarrow> protocol_error + chunk_request" where
  "make_chunk_request q =
     (if 0 \<le> cq_offset q \<and> cq_offset q \<le> max_output_offset \<and>
         0 < cq_limit q \<and> cq_limit q \<le> max_output_chunk_bytes
      then window_fits_offset_domain q else Inl ProtocolMessageError)"

definition data_matches_byte_offsets :: "chunk_response \<Rightarrow> protocol_error + chunk_response" where
  "data_matches_byte_offsets r =
     (case utf8_encode (cr_data r) of
        None \<Rightarrow> Inl ChunkUnicodeError
      | Some body \<Rightarrow>
          (let size = int (length body); expected = cr_offset r + size in
           if size > max_output_chunk_bytes \<or> cr_offset r > max_output_offset - size
           then Inl (ChunkBoundsError (cr_offset r) size)
           else if cr_next_offset r \<noteq> expected
           then Inl (ChunkOffsetError expected (cr_next_offset r))
           else Inr r))"

definition make_chunk_response :: "chunk_response \<Rightarrow> protocol_error + chunk_response" where
  "make_chunk_response r =
     (if 0 \<le> cr_offset r \<and> cr_offset r \<le> max_output_offset \<and>
         0 \<le> cr_next_offset r \<and> cr_next_offset r \<le> max_output_offset
      then data_matches_byte_offsets r else Inl ProtocolMessageError)"

fun message_ok :: "ipc_message \<Rightarrow> bool" where
  "message_ok (GatewayHello t) = (t \<in> {WorkerRole, PrivilegedHelperRole})"
| "message_ok (WorkerRegistrationMsg m) =
     (0 \<le> wr_generation m \<and> 0 \<le> wr_session_id m \<and> text_ok (wr_username m) 256)"
| "message_ok (HeartbeatMsg m) = (0 \<le> wh_sequence m \<and> 0 \<le> wh_session_id m \<and> text_ok (wh_username m) 256)"
| "message_ok (HelperRegistrationMsg m) = (0 \<le> hr_generation m)"
| "message_ok (HelperHeartbeatMsg m) = (0 \<le> hh_sequence m)"
| "message_ok (RequestMsg m) = request_ok m"
| "message_ok (ResponseMsg m) = isOk (make_response m)"
| "message_ok (ChunkRequestMsg m) = isOk (make_chunk_request m)"
| "message_ok (ChunkResponseMsg m) = isOk (make_chunk_response m)"
| "message_ok (CancelMsg m) = text_ok (cx_reason m) 256"

section \<open>Parsing\<close>

text \<open>
  The schema library is an argument: \<open>envelope\<close> reads the version of a JSON object, \<open>adapter\<close> parses
  a message; both return \<open>None\<close> for a validation error.
\<close>

definition parse_message :: "(bytes \<Rightarrow> int option) \<Rightarrow> (bytes \<Rightarrow> ipc_message option) \<Rightarrow> bytes \<Rightarrow>
    protocol_error + ipc_message" where
  "parse_message envelope adapter raw =
     (case envelope raw of
        None \<Rightarrow> Inl ProtocolMessageError
      | Some v \<Rightarrow>
          if v \<noteq> protocol_version then Inl (ProtocolVersionError v)
          else (case adapter raw of None \<Rightarrow> Inl ProtocolMessageError | Some m \<Rightarrow> Inr m))"

section \<open>Correlation\<close>

definition correlate_response :: "uuid \<Rightarrow> ipc_message \<Rightarrow> protocol_error + ipc_response" where
  "correlate_response expected m =
     (case m of
        ResponseMsg r \<Rightarrow>
          if rs_request_id r \<noteq> expected then Inl (CorrelationError expected (Some (rs_request_id r))) else Inr r
      | _ \<Rightarrow> Inl (CorrelationError expected None))"

definition correlate_chunk_response :: "chunk_request \<Rightarrow> ipc_message \<Rightarrow> protocol_error + chunk_response" where
  "correlate_chunk_response q m =
     (case m of
        ChunkResponseMsg r \<Rightarrow>
          if cr_request_id r \<noteq> cq_request_id q
          then Inl (CorrelationError (cq_request_id q) (Some (cr_request_id r)))
          else if cr_job_id r \<noteq> cq_job_id q \<or> cr_offset r \<noteq> cq_offset q
          then Inl (ChunkCorrelationError (cq_job_id q) (cr_job_id r) (cq_offset q) (cr_offset r))
          else (case utf8_encode (cr_data r) of
                  None \<Rightarrow> Inl ChunkUnicodeError
                | Some body \<Rightarrow>
                    if int (length body) > cq_limit q
                    then Inl (ChunkBoundsError (cr_offset r) (int (length body)))
                    else Inr r)
      | _ \<Rightarrow> Inl (CorrelationError (cq_request_id q) None))"

section \<open>Registration\<close>

datatype registration_error = RegistrationConflictError int int

definition accept_registration :: "('r \<Rightarrow> int) \<Rightarrow> 'r option \<Rightarrow> 'r \<Rightarrow> registration_error + 'r" where
  "accept_registration generation current candidate =
     (case current of
        None \<Rightarrow> Inr candidate
      | Some c \<Rightarrow>
          if generation candidate \<le> generation c
          then Inl (RegistrationConflictError (generation c) (generation candidate))
          else Inr candidate)"

section \<open>Validated responses\<close>

lemma make_response_status: "make_response r = Inr q \<Longrightarrow> q = r \<and> (rs_ok r \<longleftrightarrow> rs_error_code r = None)"
  by (auto simp: make_response_def result_matches_status_def split: option.splits if_splits)

lemma make_chunk_request_bounds:
  "make_chunk_request q = Inr q' \<Longrightarrow> q' = q \<and> 0 \<le> cq_offset q \<and> 0 < cq_limit q \<and>
     cq_limit q \<le> max_output_chunk_bytes \<and> cq_offset q + cq_limit q \<le> max_output_offset"
  by (auto simp: make_chunk_request_def window_fits_offset_domain_def split: if_splits)

lemma make_chunk_response_bounds:
  assumes "make_chunk_response r = Inr r'"
  obtains body where "r' = r" "utf8_encode (cr_data r) = Some body" "0 \<le> cr_offset r"
    "int (length body) \<le> max_output_chunk_bytes" "cr_next_offset r = cr_offset r + int (length body)"
    "cr_next_offset r \<le> max_output_offset"
  using assms
  by (auto simp: make_chunk_response_def data_matches_byte_offsets_def Let_def split: if_splits option.splits)

text \<open>
  A parsed and correlated chunk can be appended safely: when the request and the response satisfy
  their models and the correlation succeeds, the response is the answer to this request for this job
  at this offset, its UTF-8 data fits the requested limit and the chunk maximum, the next offset is
  the offset advanced by exactly the bytes received, and no offset leaves the signed 64-bit range.
\<close>

theorem correlated_chunk_is_safe:
  assumes "make_chunk_request q = Inr q" "make_chunk_response r = Inr r"
    "correlate_chunk_response q (ChunkResponseMsg r) = Inr r'"
  shows "\<exists>body. r' = r \<and> utf8_encode (cr_data r) = Some body \<and> utf8_decode body = Some (cr_data r) \<and>
    cr_request_id r = cq_request_id q \<and> cr_job_id r = cq_job_id q \<and> cr_offset r = cq_offset q \<and>
    int (length body) \<le> cq_limit q \<and> cq_limit q \<le> max_output_chunk_bytes \<and>
    cr_next_offset r = cq_offset q + int (length body) \<and>
    0 \<le> cr_next_offset r \<and> cr_next_offset r \<le> cq_offset q + cq_limit q \<and>
    cq_offset q + cq_limit q \<le> max_output_offset"
proof -
  obtain body where b: "utf8_encode (cr_data r) = Some body"
      "cr_next_offset r = cr_offset r + int (length body)" "0 \<le> cr_offset r"
    using make_chunk_response_bounds [OF assms(2)] by blast
  have c: "r' = r" "cr_request_id r = cq_request_id q" "cr_job_id r = cq_job_id q"
      "cr_offset r = cq_offset q" "int (length body) \<le> cq_limit q"
    using assms(3) b(1) by (auto simp: correlate_chunk_response_def split: if_splits)
  show ?thesis
    using b c make_chunk_request_bounds [OF assms(1)] utf8_decode_encode [OF b(1)] by auto
qed

text \<open>
  A response that reaches the caller is unambiguous: of all messages only a response with the
  request's own identifier is accepted, unchanged, and every other message or identifier is a
  correlation error that names what was received; a response that satisfies its model carries an
  error code exactly when it is not ok.
\<close>

theorem correlated_response_is_unambiguous:
  "(correlate_response i m = Inr r \<longleftrightarrow> m = ResponseMsg r \<and> rs_request_id r = i) \<and>
   (\<forall>e. correlate_response i m = Inl e \<longleftrightarrow>
      (\<exists>q. m = ResponseMsg q \<and> rs_request_id q \<noteq> i \<and> e = CorrelationError i (Some (rs_request_id q))) \<or>
      (\<forall>q. m \<noteq> ResponseMsg q) \<and> e = CorrelationError i None) \<and>
   (isOk (make_response r) \<longleftrightarrow> (rs_error_code r = None \<longleftrightarrow> rs_ok r) \<and>
      (case rs_error_code r of None \<Rightarrow> True | Some code \<Rightarrow> length code \<le> 128))"
  by (cases m) (auto simp: correlate_response_def make_response_def result_matches_status_def
      split: option.splits)

fun accept_all :: "('r \<Rightarrow> int) \<Rightarrow> 'r option \<Rightarrow> 'r list \<Rightarrow> 'r list" where
  "accept_all g current [] = []"
| "accept_all g current (c # cs) =
     (case accept_registration g current c of
        Inl _ \<Rightarrow> accept_all g current cs
      | Inr r \<Rightarrow> r # accept_all g (Some r) cs)"

lemma accept_all_newer:
  "(\<forall>r \<in> set (accept_all g (Some c) cs). g c < g r) \<and> sorted_wrt (<) (map g (accept_all g (Some c) cs))"
proof (induction cs arbitrary: c)
  case (Cons d cs)
  show ?case
  proof (cases "g d \<le> g c")
    case True
    then show ?thesis using Cons [of c] by (simp add: accept_registration_def)
  next
    case False
    then show ?thesis using Cons [of d] by (auto simp: accept_registration_def)
  qed
qed simp

text \<open>
  Generations only grow: folding registrations over a registry, whatever the order in which
  candidates arrive, an accepted candidate is strictly newer than every one accepted before it, and a
  refused one leaves the current registration in place.
\<close>

theorem accepted_generations_increase:
  "sorted_wrt (<) (map g (accept_all g current cs)) \<and>
   set (accept_all g current cs) \<subseteq> set cs"
proof
  show "sorted_wrt (<) (map g (accept_all g current cs))"
  proof (cases current)
    case None
    then show ?thesis using accept_all_newer [of g] by (cases cs) (auto simp: accept_registration_def)
  next
    case (Some c)
    then show ?thesis using accept_all_newer [of g c cs] by simp
  qed
  show "set (accept_all g current cs) \<subseteq> set cs"
    by (induction cs arbitrary: current)
      (fastforce simp: accept_registration_def split: sum.splits option.splits if_splits)+
qed

definition sample_chunk_request :: chunk_request where
  "sample_chunk_request = \<lparr>cq_request_id = 1, cq_job_id = 2, cq_offset = 10, cq_limit = 4\<rparr>"

definition sample_chunk_response :: chunk_response where
  "sample_chunk_response =
     \<lparr>cr_request_id = 1, cr_job_id = 2, cr_offset = 10, cr_data = [0xE9, 65], cr_next_offset = 13,
      cr_complete = False\<rparr>"

lemma correlated_chunk_is_safe_witness:
  "\<exists>body. utf8_encode (cr_data sample_chunk_response) = Some body \<and> int (length body) \<le> 4 \<and>
     cr_next_offset sample_chunk_response = 10 + int (length body)"
proof -
  have e: "utf8_encode [0xE9, 65] = Some [mkb 0xC3, mkb 0xA9, mkb 65]"
    by (simp add: utf8_char_def surrogate_def)
  have "make_chunk_request sample_chunk_request = Inr sample_chunk_request"
    by (simp add: make_chunk_request_def window_fits_offset_domain_def sample_chunk_request_def
        max_output_offset_def max_output_chunk_bytes_def)
  moreover have "make_chunk_response sample_chunk_response = Inr sample_chunk_response"
    using e by (simp add: make_chunk_response_def data_matches_byte_offsets_def sample_chunk_response_def
        max_output_offset_def max_output_chunk_bytes_def)
  moreover have "correlate_chunk_response sample_chunk_request (ChunkResponseMsg sample_chunk_response) =
      Inr sample_chunk_response"
    using e by (simp add: correlate_chunk_response_def sample_chunk_request_def sample_chunk_response_def)
  ultimately show ?thesis
    using correlated_chunk_is_safe [of sample_chunk_request sample_chunk_response sample_chunk_response]
    by (auto simp: sample_chunk_request_def)
qed

end
