(* ===== verification/Acl.thy ===== *)
theory Acl
  imports Py_Text
begin

text \<open>
  The access lists of the two named pipes (\<open>ipc/acl.py\<close>) and the endpoint configuration that uses
  them (\<open>ipc/named_pipe.py\<close>: \<open>_endpoint_acl\<close>, the pipe name pattern). A security descriptor is the
  list of its access control entries as the Win32 API returns them, or null. The lemmas show what a
  verified descriptor allows and that no broad principal is ever let in.
\<close>

section \<open>Security identifiers\<close>

definition everyone_sid :: pystr where "everyone_sid = ustr ''S-1-1-0''"
definition authenticated_users_sid :: pystr where "authenticated_users_sid = ustr ''S-1-5-11''"
definition interactive_users_sid :: pystr where "interactive_users_sid = ustr ''S-1-5-4''"
definition builtin_users_sid :: pystr where "builtin_users_sid = ustr ''S-1-5-32-545''"
definition local_service_sid :: pystr where "local_service_sid = ustr ''S-1-5-19''"
definition local_system_sid :: pystr where "local_system_sid = ustr ''S-1-5-18''"
definition administrators_sid :: pystr where "administrators_sid = ustr ''S-1-5-32-544''"

definition pipe_client_access :: "32 word" where "pipe_client_access = 0x0012019B"

definition forbidden_sids :: "pystr list" where
  "forbidden_sids = [everyone_sid, authenticated_users_sid, interactive_users_sid, builtin_users_sid]"

lemmas sid_defs = everyone_sid_def authenticated_users_sid_def interactive_users_sid_def
  builtin_users_sid_def local_service_sid_def local_system_sid_def administrators_sid_def forbidden_sids_def

datatype acl_error = PipeAclError pystr string

text \<open>
  \<open>str.strip\<close> and \<open>str.upper\<close>. Of all characters only the small letters and the long s (U+017F) have an
  upper case that can occur in a well-formed identifier, so the others may stay as they are.
\<close>

definition py_space :: "nat \<Rightarrow> bool" where
  "py_space c \<longleftrightarrow>
     9 \<le> c \<and> c \<le> 13 \<or> 28 \<le> c \<and> c \<le> 32 \<or> 8192 \<le> c \<and> c \<le> 8202 \<or>
     c \<in> {133, 160, 5760, 8232, 8233, 8239, 8287, 12288}"

definition py_strip :: "pystr \<Rightarrow> pystr" where
  "py_strip s = rev (dropWhile py_space (rev (dropWhile py_space s)))"

definition upper_char :: "nat \<Rightarrow> nat" where
  "upper_char c = (if 97 \<le> c \<and> c \<le> 122 then c - 32 else if c = 0x17F then 83 else c)"

fun split_dash :: "pystr \<Rightarrow> pystr list" where
  "split_dash [] = [[]]"
| "split_dash (c # cs) =
     (if c = 45 then [] # split_dash cs
      else (case split_dash cs of [] \<Rightarrow> [[c]] | p # ps \<Rightarrow> (c # p) # ps))"

definition digits_ok :: "pystr \<Rightarrow> bool" where
  "digits_ok s \<longleftrightarrow> s \<noteq> [] \<and> list_all (\<lambda>c. 48 \<le> c \<and> c \<le> 57) s"

definition sid_pattern :: "pystr \<Rightarrow> bool" where
  "sid_pattern s =
     (case split_dash s of
        a # b # c # d # ds \<Rightarrow> a = [83] \<and> b = [49] \<and> list_all digits_ok (c # d # ds)
      | _ \<Rightarrow> False)"

definition parse_sid :: "pystr \<Rightarrow> acl_error + pystr" where
  "parse_sid sid =
     (let normalized = map upper_char (py_strip sid) in
      if sid_pattern normalized then Inr normalized else Inl (PipeAclError sid ''invalid SID syntax''))"

section \<open>Access lists\<close>

type_synonym pipe_acl = "pystr list"

text \<open>\<open>dict.fromkeys\<close> keeps the first of equal keys.\<close>

definition from_keys :: "'a list \<Rightarrow> 'a list" where
  "from_keys xs = rev (remdups (rev xs))"

fun parse_all :: "pystr list \<Rightarrow> acl_error + pystr list" where
  "parse_all [] = Inr []"
| "parse_all (s # ss) =
     (case parse_sid s of
        Inl e \<Rightarrow> Inl e
      | Inr n \<Rightarrow> (case parse_all ss of Inl e \<Rightarrow> Inl e | Inr ns \<Rightarrow> Inr (n # ns)))"

definition make_acl :: "pystr list \<Rightarrow> acl_error + pipe_acl" where
  "make_acl sids =
     (case parse_all sids of
        Inl e \<Rightarrow> Inl e
      | Inr ns \<Rightarrow>
          (let normalized = from_keys ns;
               forbidden = filter (\<lambda>s. s \<in> set forbidden_sids) normalized
           in if forbidden \<noteq> [] then Inl (PipeAclError (hd (sort forbidden)) ''broad principals are forbidden'')
              else Inr normalized))"

definition build_worker_pipe_acl :: "pystr \<Rightarrow> acl_error + pipe_acl" where
  "build_worker_pipe_acl target_user_sid =
     (case parse_sid target_user_sid of
        Inl e \<Rightarrow> Inl e
      | Inr target_sid \<Rightarrow>
          if target_sid \<in> set forbidden_sids
          then Inl (PipeAclError target_sid ''broad principals are forbidden'')
          else make_acl [local_service_sid, target_sid, administrators_sid, local_system_sid])"

definition build_privileged_pipe_acl :: "acl_error + pipe_acl" where
  "build_privileged_pipe_acl = make_acl [local_service_sid, administrators_sid, local_system_sid]"

definition require_allowed_sid :: "pipe_acl \<Rightarrow> pystr \<Rightarrow> acl_error + pystr" where
  "require_allowed_sid acl actual =
     (case parse_sid actual of
        Inl e \<Rightarrow> Inl e
      | Inr n \<Rightarrow> if n \<notin> set acl then Inl (PipeAclError n ''peer identity is not explicitly allowed'') else Inr n)"

definition require_expected_sid :: "pystr \<Rightarrow> pystr \<Rightarrow> acl_error + pystr" where
  "require_expected_sid expected_sid actual_sid =
     (case parse_sid expected_sid of
        Inl e \<Rightarrow> Inl e
      | Inr expected \<Rightarrow>
          (case parse_sid actual_sid of
             Inl e \<Rightarrow> Inl e
           | Inr actual \<Rightarrow>
               if actual \<noteq> expected then Inl (PipeAclError actual ''peer identity mismatch'') else Inr actual))"

section \<open>Descriptors\<close>

record ace =
  ace_type :: int
  ace_flags :: int
  ace_mask :: "32 word"
  ace_sid :: pystr

definition access_allowed_ace_type :: int where "access_allowed_ace_type = 0"

datatype acl_verification_error = DaclIsNull | DaclTemplateMismatch | GetSecurityInfoFailed

definition ace_template :: "pystr \<Rightarrow> ace" where
  "ace_template sid = \<lparr>ace_type = access_allowed_ace_type, ace_flags = 0, ace_mask = pipe_client_access, ace_sid = sid\<rparr>"

text \<open>\<open>build_security_attributes\<close>: one entry per identifier, in order.\<close>

definition build_security_attributes :: "pipe_acl \<Rightarrow> ace list" where
  "build_security_attributes acl = map ace_template acl"

definition descriptor_acl_sids :: "ace list \<Rightarrow> pystr set" where
  "descriptor_acl_sids dacl = set (map ace_sid dacl)"

definition verify_pipe_security_descriptor :: "pipe_acl \<Rightarrow> ace list option \<Rightarrow> acl_verification_error + unit" where
  "verify_pipe_security_descriptor expected descriptor =
     (case descriptor of
        None \<Rightarrow> Inl DaclIsNull
      | Some aces \<Rightarrow>
          (let template_headers = map (\<lambda>sid. (access_allowed_ace_type, 0 :: int, pipe_client_access)) expected;
               actual_headers = map (\<lambda>a. (ace_type a, ace_flags a, ace_mask a)) aces
           in if actual_headers \<noteq> template_headers then Inl DaclTemplateMismatch
              else if map ace_sid aces \<noteq> expected then Inl DaclTemplateMismatch
              else Inr ()))"

datatype probe_state = VERIFIED | MISMATCH | UNVERIFIED

text \<open>Reading the descriptor of an owned handle either fails or yields it.\<close>

definition observe_client_pipe_acl :: "acl_verification_error + ace list option \<Rightarrow> pipe_acl \<Rightarrow> probe_state" where
  "observe_client_pipe_acl reading expected =
     (case (case reading of Inl e \<Rightarrow> Inl e | Inr d \<Rightarrow> verify_pipe_security_descriptor expected d) of
        Inr _ \<Rightarrow> VERIFIED
      | Inl DaclIsNull \<Rightarrow> MISMATCH
      | Inl DaclTemplateMismatch \<Rightarrow> MISMATCH
      | Inl GetSecurityInfoFailed \<Rightarrow> UNVERIFIED)"

section \<open>Endpoints\<close>

datatype pipe_endpoint = WorkerEndpoint | PrivilegedHelperEndpoint

datatype endpoint_error = PipeConfigurationError string | EndpointAclError acl_error

definition endpoint_acl :: "pipe_endpoint \<Rightarrow> pystr option \<Rightarrow> pystr option \<Rightarrow> endpoint_error + pipe_acl" where
  "endpoint_acl endpoint target_user_sid expected_peer_sid =
     (case endpoint of
        WorkerEndpoint \<Rightarrow>
          (case target_user_sid of
             None \<Rightarrow> Inl (PipeConfigurationError ''worker pipe requires target_user_sid'')
           | Some sid \<Rightarrow> mapErr EndpointAclError (build_worker_pipe_acl sid))
      | PrivilegedHelperEndpoint \<Rightarrow>
          if target_user_sid \<noteq> None
          then Inl (PipeConfigurationError ''privileged pipe does not accept a target user SID'')
          else (case build_privileged_pipe_acl of
                  Inl e \<Rightarrow> Inl (EndpointAclError e)
                | Inr acl \<Rightarrow>
                    (case expected_peer_sid of
                       None \<Rightarrow> Inr acl
                     | Some peer \<Rightarrow>
                         if peer = local_service_sid then Inr acl
                         else (case build_worker_pipe_acl peer of
                                 Inl e \<Rightarrow> Inl (EndpointAclError e)
                               | Inr sids \<Rightarrow> Inr (acl @ [sids ! 1])))))"

definition pipe_prefix :: pystr where
  "pipe_prefix = [92, 92, 46, 92] @ ustr ''pipe'' @ [92] @ ustr ''HermesWindowsBridge''"

definition pipe_name_char :: "nat \<Rightarrow> bool" where
  "pipe_name_char c \<longleftrightarrow> 48 \<le> c \<and> c \<le> 57 \<or> 65 \<le> c \<and> c \<le> 90 \<or> 97 \<le> c \<and> c \<le> 122 \<or> c = 45"

definition pipe_name_ok :: "pystr \<Rightarrow> bool" where
  "pipe_name_ok name \<longleftrightarrow>
     take (length pipe_prefix) name = pipe_prefix \<and>
     (let rest = drop (length pipe_prefix) name
      in 1 \<le> length rest \<and> length rest \<le> 128 \<and> list_all pipe_name_char rest)"

section \<open>Facts\<close>

lemma py_strip_id: "s \<noteq> [] \<Longrightarrow> \<not> py_space (hd s) \<Longrightarrow> \<not> py_space (last s) \<Longrightarrow> py_strip s = s"
proof -
  assume a: "s \<noteq> []" "\<not> py_space (hd s)" "\<not> py_space (last s)"
  have "dropWhile py_space s = s" using a by (cases s) auto
  moreover have "dropWhile py_space (rev s) = rev s" using a by (cases s rule: rev_cases) auto
  ultimately show ?thesis by (simp add: py_strip_def)
qed

lemma parse_sid_constants [simp]:
  "parse_sid local_service_sid = Inr local_service_sid"
  "parse_sid administrators_sid = Inr administrators_sid"
  "parse_sid local_system_sid = Inr local_system_sid"
  by (simp_all add: parse_sid_def sid_defs py_strip_id py_space_def upper_char_def sid_pattern_def digits_ok_def)

text \<open>A parsed identifier is in normal form.\<close>

lemma split_dash_join: "concat (map (\<lambda>p. 45 # p) (split_dash s)) = 45 # s"
proof (induction s)
  case (Cons c s)
  then show ?case by (cases "split_dash s") auto
qed simp

lemma split_dash_chars: "list_all (list_all P) (split_dash s) \<Longrightarrow> list_all (\<lambda>c. P c \<or> c = 45) s"
proof (induction s)
  case (Cons c s)
  then show ?case by (cases "split_dash s") (auto split: if_splits)
qed simp

lemma sid_pattern_chars:
  assumes "sid_pattern s"
  shows "list_all (\<lambda>c. 48 \<le> c \<and> c \<le> 57 \<or> c = 83 \<or> c = 45) s \<and> s \<noteq> []"
proof -
  obtain c d ds where p: "split_dash s = [83] # [49] # c # d # ds" "list_all digits_ok (c # d # ds)"
    using assms by (auto simp: sid_pattern_def split: list.splits)
  have "list_all (list_all (\<lambda>c. 48 \<le> c \<and> c \<le> 57 \<or> c = 83)) (split_dash s)"
    using p by (auto simp: digits_ok_def list_all_iff)
  then have "list_all (\<lambda>c. (48 \<le> c \<and> c \<le> 57 \<or> c = 83) \<or> c = 45) s" by (rule split_dash_chars)
  then show ?thesis using p(1) by (auto simp: list_all_iff)
qed

lemma parse_sid_normal: "parse_sid s = Inr n \<Longrightarrow> parse_sid n = Inr n"
proof -
  assume "parse_sid s = Inr n"
  then have n: "sid_pattern n" by (auto simp: parse_sid_def Let_def split: if_splits)
  then have c: "list_all (\<lambda>c. 48 \<le> c \<and> c \<le> 57 \<or> c = 83 \<or> c = 45) n" "n \<noteq> []"
    using sid_pattern_chars by auto
  have "list_all (\<lambda>c. \<not> py_space c) n"
    using c(1) by (rule list.pred_mono_strong) (auto simp: py_space_def)
  then have "\<not> py_space (hd n)" "\<not> py_space (last n)" using c(2) by (auto simp: list_all_iff)
  then have "py_strip n = n" using py_strip_id c(2) by blast
  moreover have "map upper_char n = n"
    using c(1) by (induction n) (auto simp: upper_char_def)
  ultimately show ?thesis using n by (simp add: parse_sid_def)
qed

lemma from_keys_props: "set (from_keys xs) = set xs" "distinct (from_keys xs)"
  by (simp_all add: from_keys_def)

lemma acl_constants_allowed:
  "local_service_sid \<notin> set forbidden_sids" "administrators_sid \<notin> set forbidden_sids"
  "local_system_sid \<notin> set forbidden_sids"
  by (simp_all add: sid_defs)

lemma make_acl_ok:
  assumes "parse_sid t = Inr t" "t \<notin> set forbidden_sids"
  shows "make_acl [local_service_sid, t, administrators_sid, local_system_sid] =
    Inr (from_keys [local_service_sid, t, administrators_sid, local_system_sid])"
  using assms acl_constants_allowed
  by (auto simp: make_acl_def Let_def filter_empty_conv from_keys_props)

lemma build_worker_acl:
  "build_worker_pipe_acl s = Inr acl \<longleftrightarrow>
     (\<exists>t. parse_sid s = Inr t \<and> t \<notin> set forbidden_sids \<and>
        acl = from_keys [local_service_sid, t, administrators_sid, local_system_sid])"
  by (auto simp: build_worker_pipe_acl_def make_acl_ok parse_sid_normal split: sum.splits)

lemma privileged_acl: "build_privileged_pipe_acl = Inr [local_service_sid, administrators_sid, local_system_sid]"
proof -
  have d: "local_service_sid \<noteq> administrators_sid" "local_service_sid \<noteq> local_system_sid"
    "administrators_sid \<noteq> local_system_sid"
    by (simp_all add: sid_defs)
  then have "from_keys [local_service_sid, administrators_sid, local_system_sid] =
      [local_service_sid, administrators_sid, local_system_sid]"
    by (simp add: from_keys_def)
  then show ?thesis
    using acl_constants_allowed by (simp add: build_privileged_pipe_acl_def make_acl_def)
qed

lemma verified_iff: "verify_pipe_security_descriptor acl d = Inr () \<longleftrightarrow> d = Some (build_security_attributes acl)"
proof -
  have "map (\<lambda>a. (ace_type a, ace_flags a, ace_mask a)) aces =
      map (\<lambda>sid. (access_allowed_ace_type, 0, pipe_client_access)) acl \<and> map ace_sid aces = acl \<longleftrightarrow>
      aces = map ace_template acl" for aces
  proof (induction aces arbitrary: acl)
    case (Cons a aces)
    then show ?case by (cases acl; cases a) (auto simp: ace_template_def)
  qed auto
  then show ?thesis
    by (cases d) (auto simp: verify_pipe_security_descriptor_def build_security_attributes_def Let_def)
qed

lemma observe_verified: "observe_client_pipe_acl reading acl = VERIFIED \<longleftrightarrow> reading = Inr (Some (build_security_attributes acl))"
proof (cases reading)
  case (Inl e)
  then show ?thesis by (cases e) (simp_all add: observe_client_pipe_acl_def)
next
  case (Inr d)
  show ?thesis
  proof (cases "verify_pipe_security_descriptor acl d")
    case (Inl e)
    then have "d \<noteq> Some (build_security_attributes acl)" using verified_iff [of acl d] by auto
    then show ?thesis using Inr Inl by (cases e) (simp_all add: observe_client_pipe_acl_def)
  next
    case R: (Inr u)
    then have "d = Some (build_security_attributes acl)" using verified_iff [of acl d] by simp
    then show ?thesis using Inr R by (simp add: observe_client_pipe_acl_def)
  qed
qed

lemma no_create_right: "\<not> bit pipe_client_access 2"
  by (simp add: pipe_client_access_def)

text \<open>
  A pipe that is reported as verified is exactly the pipe the bridge creates: the observation is
  \<open>verified\<close> precisely when the descriptor could be read and its entries are, in order, one allow
  entry with the client access mask for each identifier of the access list; every such entry lacks
  the right to create pipe instances. For a worker pipe built from any accepted user identifier the
  entries name exactly the gateway, the user, the administrators and the system, each once, and never
  a broad principal.
\<close>

theorem verified_pipe_is_exact:
  "(observe_client_pipe_acl reading acl = VERIFIED \<longleftrightarrow> reading = Inr (Some (build_security_attributes acl))) \<and>
   (\<forall>a \<in> set (build_security_attributes acl). ace_mask a = pipe_client_access \<and> \<not> bit (ace_mask a) 2) \<and>
   (build_worker_pipe_acl user = Inr acl \<longrightarrow>
      (\<exists>t. parse_sid user = Inr t \<and> set acl = {local_service_sid, t, administrators_sid, local_system_sid}) \<and>
      distinct acl \<and> set acl \<inter> set forbidden_sids = {} \<and>
      descriptor_acl_sids (build_security_attributes acl) = set acl)"
proof (intro conjI impI ballI)
  show "observe_client_pipe_acl reading acl = VERIFIED \<longleftrightarrow> reading = Inr (Some (build_security_attributes acl))"
    by (rule observe_verified)
  fix a assume "a \<in> set (build_security_attributes acl)"
  then show "ace_mask a = pipe_client_access"
    by (auto simp: build_security_attributes_def ace_template_def)
  then show "\<not> bit (ace_mask a) 2" using no_create_right by simp
next
  assume "build_worker_pipe_acl user = Inr acl"
  then obtain t where t: "parse_sid user = Inr t" "t \<notin> set forbidden_sids"
      "acl = from_keys [local_service_sid, t, administrators_sid, local_system_sid]"
    by (auto simp: build_worker_acl)
  have s: "set acl = {local_service_sid, t, administrators_sid, local_system_sid}"
    unfolding t(3) from_keys_props by simp
  show "\<exists>t. parse_sid user = Inr t \<and> set acl = {local_service_sid, t, administrators_sid, local_system_sid}"
    using t(1) s by blast
  show "distinct acl" unfolding t(3) by (rule from_keys_props)
  show "set acl \<inter> set forbidden_sids = {}" unfolding s using t(2) acl_constants_allowed by simp
  show "descriptor_acl_sids (build_security_attributes acl) = set acl"
    by (simp add: descriptor_acl_sids_def build_security_attributes_def ace_template_def image_image)
qed

text \<open>
  The second entry is the validated user, except when the user is the gateway's own account: then it
  is the administrators' group, because equal entries are merged.
\<close>

lemma second_entry:
  assumes "build_worker_pipe_acl s = Inr acl" "parse_sid s = Inr t"
  shows "acl ! 1 = (if t = local_service_sid then administrators_sid else t)"
proof -
  have "acl = from_keys [local_service_sid, t, administrators_sid, local_system_sid]"
    using assms by (auto simp: build_worker_acl)
  moreover have "local_service_sid \<noteq> administrators_sid" "local_service_sid \<noteq> local_system_sid"
    "administrators_sid \<noteq> local_system_sid"
    by (simp_all add: sid_defs)
  ultimately show ?thesis by (auto simp: from_keys_def)
qed

definition sample_user :: pystr where
  "sample_user = ustr '' s-1-5-21-1001''"

lemma sample_user_sid: "parse_sid sample_user = Inr (ustr ''S-1-5-21-1001'')"
  by (simp add: sample_user_def parse_sid_def py_strip_def py_space_def upper_char_def sid_pattern_def digits_ok_def)

lemma verified_pipe_is_exact_witness:
  "\<exists>acl. build_worker_pipe_acl sample_user = Inr acl \<and> distinct acl \<and> set acl \<inter> set forbidden_sids = {} \<and>
     observe_client_pipe_acl (Inr (Some (build_security_attributes acl))) acl = VERIFIED"
proof -
  have "ustr ''S-1-5-21-1001'' \<notin> set forbidden_sids" by (simp add: sid_defs)
  then obtain acl where a: "build_worker_pipe_acl sample_user = Inr acl"
    using build_worker_acl sample_user_sid by blast
  then show ?thesis
    using verified_pipe_is_exact [of "Inr (Some (build_security_attributes acl))" acl sample_user] by blast
qed

end
