(* ===== verification/Privileged.thy ===== *)
theory Privileged
  imports Ipc_Protocol Acl
begin

text \<open>
  The privileged helper (\<open>privileged/operations.py\<close>, \<open>privileged/ipc_server.py\<close>: the request
  builders, \<open>privileged/pipe_session.py\<close>, \<open>privileged/runtime.py\<close>). It accepts one gateway at a time,
  checks who is calling, and turns reboot and shutdown requests into power actions. The lemmas show
  that power actions happen only for verified peers and exactly as requested.
\<close>

section \<open>Requests\<close>

text \<open>
  The closed payload models: exactly the fields \<open>delay_seconds\<close> and \<open>reason\<close>, of the declared types and
  within the declared bounds.
\<close>

definition power_fields_of :: "(pystr \<times> json) list \<Rightarrow> power_payload_fields option" where
  "power_fields_of payload =
     (case (map_of payload (ustr ''delay_seconds''), map_of payload (ustr ''reason'')) of
        (Some (JInt d), Some (JStr r)) \<Rightarrow>
          (let p = \<lparr>pw_delay_seconds = d, pw_reason = r\<rparr> in
           if list_all (\<lambda>kv. fst kv = ustr ''delay_seconds'' \<or> fst kv = ustr ''reason'') payload \<and> power_fields_ok p
           then Some p else None)
      | _ \<Rightarrow> None)"

datatype privileged_request_error = InvalidPrivilegedRequestError

definition build_privileged_request ::
  "uuid \<Rightarrow> string \<Rightarrow> (pystr \<times> json) list \<Rightarrow> int \<Rightarrow> privileged_request_error + request_message" where
  "build_privileged_request operation_id tool_name payload timeout_ms =
     (if tool_name \<noteq> ''system_reboot'' \<and> tool_name \<noteq> ''system_shutdown'' then Inl InvalidPrivilegedRequestError
      else (case power_fields_of payload of
              None \<Rightarrow> Inl InvalidPrivilegedRequestError
            | Some pf \<Rightarrow>
                if \<not> timeout_ok timeout_ms then Inl InvalidPrivilegedRequestError
                else (let q = \<lparr>pq_request_id = operation_id, pq_payload = pf, pq_timeout_ms = timeout_ms\<rparr>
                      in Inr (if tool_name = ''system_reboot'' then RebootRequestMsg q else ShutdownRequestMsg q))))"

text \<open>The helper's own request type and its parser from the protocol's variants.\<close>

datatype privileged_request = RebootRequest power_payload_fields | ShutdownRequest power_payload_fields

definition parse_ipc_request :: "request_message \<Rightarrow> privileged_request option" where
  "parse_ipc_request m =
     (case m of
        RebootRequestMsg q \<Rightarrow> Some (RebootRequest (pq_payload q))
      | ShutdownRequestMsg q \<Rightarrow> Some (ShutdownRequest (pq_payload q))
      | WorkerRequest _ \<Rightarrow> None)"

fun operation_name :: "privileged_request \<Rightarrow> string" where
  "operation_name (RebootRequest _) = ''reboot''"
| "operation_name (ShutdownRequest _) = ''shutdown''"

section \<open>The Windows executor\<close>

text \<open>
  The token of the process as the executor sees it, and the shutdowns started: reason, delay, force
  and reboot flag. Each Win32 call either succeeds or raises.
\<close>

record power_host =
  ph_privilege :: bool
  ph_tokens_open :: nat
  ph_initiated :: "(pystr \<times> int \<times> bool \<times> bool) list"

record win32_outcome =
  wo_open :: bool
  wo_lookup :: bool
  wo_adjust :: bool
  wo_last_error :: int
  wo_initiate :: bool

datatype os_error = OsError

definition initiate_locked :: "win32_outcome \<Rightarrow> pystr \<Rightarrow> int \<Rightarrow> bool \<Rightarrow> power_host \<Rightarrow> (os_error + unit) \<times> power_host" where
  "initiate_locked w reason delay reboot h =
     (if \<not> wo_lookup w then (Inl OsError, h)
      else if \<not> wo_adjust w then (Inl OsError, h)
      else let previous = ph_privilege h;
               h1 = (if wo_last_error w = 0 then h\<lparr>ph_privilege := True\<rparr> else h);
               (r, h2) = (if wo_last_error w \<noteq> 0 then (Inl OsError, h1)
                          else if \<not> wo_initiate w then (Inl OsError, h1)
                          else (Inr (), h1\<lparr>ph_initiated := ph_initiated h1 @ [(reason, delay, False, reboot)]\<rparr>))
           in (r, h2\<lparr>ph_privilege := previous\<rparr>))"

definition initiate :: "win32_outcome \<Rightarrow> pystr \<Rightarrow> int \<Rightarrow> bool \<Rightarrow> power_host \<Rightarrow> (os_error + unit) \<times> power_host" where
  "initiate w reason delay reboot h =
     (if \<not> wo_open w then (Inl OsError, h)
      else case initiate_locked w reason delay reboot (h\<lparr>ph_tokens_open := ph_tokens_open h + 1\<rparr>) of
             (r, h1) \<Rightarrow> (r, h1\<lparr>ph_tokens_open := ph_tokens_open h1 - 1\<rparr>))"

text \<open>\<open>PowerActionService.execute\<close> with this executor.\<close>

definition execute_power :: "win32_outcome \<Rightarrow> privileged_request \<Rightarrow> power_host \<Rightarrow> (os_error + string) \<times> power_host" where
  "execute_power w r h =
     (case (case r of
              RebootRequest p \<Rightarrow> initiate w (pw_reason p) (pw_delay_seconds p) True h
            | ShutdownRequest p \<Rightarrow> initiate w (pw_reason p) (pw_delay_seconds p) False h) of
        (Inl e, h1) \<Rightarrow> (Inl e, h1)
      | (Inr _, h1) \<Rightarrow> (Inr (operation_name r), h1))"

section \<open>The session\<close>

datatype helper_session_error =
    UnexpectedHelperMessageError
  | HelperOsError
  | HelperPeerAclError acl_error
  | PeerSessionError int
  | HelperProtocolError protocol_error
  | HelperTruncatedFrame
  | HelperFrameTooLarge

definition helper_dispatch ::
  "win32_outcome \<Rightarrow> ipc_message \<Rightarrow> power_host \<Rightarrow> (helper_session_error + ipc_response) \<times> power_host" where
  "helper_dispatch w m h =
     (case m of
        RequestMsg q \<Rightarrow>
          (case parse_ipc_request q of
             Some r \<Rightarrow>
               (case execute_power w r h of
                  (Inl _, h1) \<Rightarrow> (Inl HelperOsError, h1)
                | (Inr op, h1) \<Rightarrow>
                    (Inr \<lparr>rs_request_id = request_id_of q, rs_ok = True,
                          rs_payload = Some [(ustr ''operation'', JStr (ustr op))], rs_error_code = None\<rparr>, h1))
           | None \<Rightarrow>
               (Inr \<lparr>rs_request_id = request_id_of q, rs_ok = False, rs_payload = None,
                     rs_error_code = Some ''invalid_privileged_request''\<rparr>, h))
      | _ \<Rightarrow> (Inl UnexpectedHelperMessageError, h))"

text \<open>
  A session reads until the pipe fails, an unexpected message arrives, or a stop is requested (the end
  of the list). Each message comes with the outcome of the Win32 calls it may cause.
\<close>

type_synonym reading = "(helper_session_error + ipc_message) \<times> win32_outcome"

fun helper_session :: "reading list \<Rightarrow> power_host \<Rightarrow> helper_session_error option \<times> ipc_response list \<times> power_host" where
  "helper_session [] h = (None, [], h)"
| "helper_session ((Inl e, w) # rest) h = (Some e, [], h)"
| "helper_session ((Inr m, w) # rest) h =
     (case helper_dispatch w m h of
        (Inl e, h1) \<Rightarrow> (Some e, [], h1)
      | (Inr response, h1) \<Rightarrow>
          (case helper_session rest h1 of (r, responses, h2) \<Rightarrow> (r, response # responses, h2)))"

section \<open>Accepting a gateway\<close>

record peer_identity =
  peer_sid :: pystr
  peer_process_id :: int

definition gateway_session_id :: int where "gateway_session_id = 0"

definition require_gateway_hello :: "ipc_message \<Rightarrow> helper_session_error + unit" where
  "require_gateway_hello m =
     (case m of
        GatewayHello target \<Rightarrow> if target = PrivilegedHelperRole then Inr () else Inl UnexpectedHelperMessageError
      | _ \<Rightarrow> Inl UnexpectedHelperMessageError)"

definition validate_gateway_peer :: "(int \<Rightarrow> int) \<Rightarrow> peer_identity \<Rightarrow> helper_session_error + unit" where
  "validate_gateway_peer session_of peer =
     (case require_expected_sid local_service_sid (peer_sid peer) of
        Inl e \<Rightarrow> Inl (HelperPeerAclError e)
      | Inr _ \<Rightarrow>
          if session_of (peer_process_id peer) \<noteq> gateway_session_id
          then Inl (PeerSessionError (session_of (peer_process_id peer))) else Inr ())"

text \<open>
  One connection of the pipe loop: the hello, the identity of the peer, the registration, the session.
  The result says how it ended and what was written after the registration.
\<close>

definition accept_connection ::
  "(int \<Rightarrow> int) \<Rightarrow> reading list \<Rightarrow> peer_identity \<Rightarrow> power_host \<Rightarrow>
   helper_session_error option \<times> ipc_response list \<times> power_host" where
  "accept_connection session_of readings peer h =
     (case readings of
        [] \<Rightarrow> (None, [], h)
      | (Inl e, w) # rest \<Rightarrow> (Some e, [], h)
      | (Inr m, w) # rest \<Rightarrow>
          (case require_gateway_hello m of
             Inl e \<Rightarrow> (Some e, [], h)
           | Inr _ \<Rightarrow>
               (case validate_gateway_peer session_of peer of
                  Inl e \<Rightarrow> (Some e, [], h)
                | Inr _ \<Rightarrow> helper_session rest h)))"

text \<open>The exceptions after which \<open>run_pipe_loop\<close> accepts again; any other ends the helper.\<close>

fun helper_loop_continues :: "helper_session_error \<Rightarrow> bool" where
  "helper_loop_continues HelperFrameTooLarge = False"
| "helper_loop_continues _ = True"

fun run_pipe_loop ::
  "(int \<Rightarrow> int) \<Rightarrow> (reading list \<times> peer_identity) list \<Rightarrow> power_host \<Rightarrow>
   helper_session_error option \<times> power_host" where
  "run_pipe_loop session_of [] h = (None, h)"
| "run_pipe_loop session_of ((readings, peer) # rest) h =
     (case accept_connection session_of readings peer h of
        (None, _, h1) \<Rightarrow> run_pipe_loop session_of rest h1
      | (Some e, _, h1) \<Rightarrow>
          if helper_loop_continues e then run_pipe_loop session_of rest h1 else (Some e, h1))"

section \<open>What the executor does\<close>

lemma initiate_effect:
  assumes "initiate w reason delay reboot h = (r, h')"
  shows "ph_privilege h' = ph_privilege h \<and> ph_tokens_open h' = ph_tokens_open h \<and>
    ph_initiated h' = ph_initiated h @ (if isOk r then [(reason, delay, False, reboot)] else [])"
  using assms by (auto simp: initiate_def initiate_locked_def Let_def split: if_splits prod.splits)

definition action_of :: "privileged_request \<Rightarrow> pystr \<times> int \<times> bool \<times> bool" where
  "action_of r =
     (case r of
        RebootRequest p \<Rightarrow> (pw_reason p, pw_delay_seconds p, False, True)
      | ShutdownRequest p \<Rightarrow> (pw_reason p, pw_delay_seconds p, False, False))"

lemma execute_power_effect:
  assumes "execute_power w r h = (x, h')"
  shows "ph_privilege h' = ph_privilege h \<and> ph_tokens_open h' = ph_tokens_open h \<and>
    ph_initiated h' = ph_initiated h @ (if isOk x then [action_of r] else [])"
proof -
  obtain reason delay reboot where a: "action_of r = (reason, delay, False, reboot)"
      "execute_power w r h = (case initiate w reason delay reboot h of
          (Inl e, h1) \<Rightarrow> (Inl e, h1) | (Inr _, h1) \<Rightarrow> (Inr (operation_name r), h1))"
    by (cases r) (auto simp: action_of_def execute_power_def)
  obtain y h1 where y: "initiate w reason delay reboot h = (y, h1)" by fastforce
  show ?thesis using initiate_effect [OF y] assms a y by (cases y) auto
qed

text \<open>The power requests among the messages that were handled before the session ended.\<close>

fun power_requests :: "ipc_message list \<Rightarrow> (uuid \<times> privileged_request) list" where
  "power_requests [] = []"
| "power_requests (RequestMsg q # ms) =
     (case parse_ipc_request q of
        None \<Rightarrow> power_requests ms
      | Some r \<Rightarrow> (request_id_of q, r) # power_requests ms)"
| "power_requests (_ # ms) = power_requests ms"

lemma helper_session_effect:
  assumes "helper_session rs h = (res, responses, h')"
  shows "ph_privilege h' = ph_privilege h \<and> ph_tokens_open h' = ph_tokens_open h \<and>
    (\<exists>ms. map Inr ms = take (length responses) (map fst rs) \<and> length ms = length responses \<and>
       ph_initiated h' = ph_initiated h @ map (\<lambda>(i, r). action_of r) (power_requests ms) \<and>
       map rs_request_id (filter rs_ok responses) = map fst (power_requests ms))"
  using assms
proof (induction rs h arbitrary: res responses h' rule: helper_session.induct)
  case (3 m w rest h)
  obtain x h1 where d: "helper_dispatch w m h = (x, h1)" by fastforce
  show ?case
  proof (cases x)
    case (Inl e)
    then have r: "responses = []" "h' = h1" using "3.prems" d by auto
    have "ph_privilege h1 = ph_privilege h \<and> ph_tokens_open h1 = ph_tokens_open h \<and> ph_initiated h1 = ph_initiated h"
    proof (cases "\<exists>q r. m = RequestMsg q \<and> parse_ipc_request q = Some r")
      case True
      then obtain q r where q: "m = RequestMsg q" "parse_ipc_request q = Some r" by blast
      obtain y h2 where y: "execute_power w r h = (y, h2)" by fastforce
      show ?thesis using d Inl q y execute_power_effect [OF y] by (cases y) (auto simp: helper_dispatch_def)
    next
      case False
      then show ?thesis using d Inl by (auto simp: helper_dispatch_def split: ipc_message.splits option.splits)
    qed
    then show ?thesis using r by auto
  next
    case (Inr response)
    obtain r2 rs2 h2 where rec: "helper_session rest h1 = (r2, rs2, h2)" by (metis prod_cases3)
    have out: "responses = response # rs2" "h' = h2" using "3.prems" d Inr rec by auto
    obtain ms where ms: "ph_privilege h2 = ph_privilege h1" "ph_tokens_open h2 = ph_tokens_open h1"
        "map Inr ms = take (length rs2) (map fst rest)" "length ms = length rs2"
        "ph_initiated h2 = ph_initiated h1 @ map (\<lambda>(i, r). action_of r) (power_requests ms)"
        "map rs_request_id (filter rs_ok rs2) = map fst (power_requests ms)"
      using "3.IH" [OF d [symmetric] Inr rec] by blast
    obtain q where q: "m = RequestMsg q"
      using d Inr by (auto simp: helper_dispatch_def split: ipc_message.splits)
    have h1: "ph_privilege h1 = ph_privilege h \<and> ph_tokens_open h1 = ph_tokens_open h \<and>
        ph_initiated h1 = ph_initiated h @ map (\<lambda>(i, r). action_of r) (power_requests [m]) \<and>
        map rs_request_id (filter rs_ok [response]) = map fst (power_requests [m])"
    proof (cases "parse_ipc_request q")
      case None
      then show ?thesis using d Inr q by (auto simp: helper_dispatch_def)
    next
      case (Some r)
      obtain y h3 where y: "execute_power w r h = (y, h3)" by fastforce
      show ?thesis using d Inr q Some y execute_power_effect [OF y] by (cases y) (auto simp: helper_dispatch_def)
    qed
    have "power_requests (m # ms) = power_requests [m] @ power_requests ms"
      using q by (simp split: option.splits)
    then show ?thesis
      using h1 ms out by (intro conjI exI [of _ "m # ms"]) auto
  qed
qed auto

section \<open>Safety of the helper\<close>

text \<open>
  Power actions happen only for the gateway and exactly as requested: if a connection makes the
  helper start a shutdown, the first message was a hello for the privileged helper and the caller runs
  as Local Service in session 0; the shutdowns started are those of the reboot and shutdown requests
  answered with success, in order, with the requested delay and reason, without forcing applications
  to close; and on every path, failures included, the process token has the privileges it had before
  and every opened token is closed.
\<close>

theorem power_only_for_gateway:
  assumes "accept_connection session_of readings peer h = (res, responses, h')"
  shows "ph_privilege h' = ph_privilege h \<and> ph_tokens_open h' = ph_tokens_open h \<and>
    (ph_initiated h' \<noteq> ph_initiated h \<longrightarrow>
       (\<exists>w rest. readings = (Inr (GatewayHello PrivilegedHelperRole), w) # rest) \<and>
       parse_sid (peer_sid peer) = Inr local_service_sid \<and> session_of (peer_process_id peer) = 0) \<and>
    (\<exists>ms. map Inr ms = take (length responses) (map fst (tl readings)) \<and>
       ph_initiated h' = ph_initiated h @ map (\<lambda>(i, r). action_of r) (power_requests ms) \<and>
       map rs_request_id (filter rs_ok responses) = map fst (power_requests ms))"
proof (cases "\<exists>m w rest. readings = (Inr m, w) # rest \<and> require_gateway_hello m = Inr () \<and>
    validate_gateway_peer session_of peer = Inr ()")
  case True
  then obtain m w rest where r: "readings = (Inr m, w) # rest" "require_gateway_hello m = Inr ()"
      "validate_gateway_peer session_of peer = Inr ()" by blast
  have s: "helper_session rest h = (res, responses, h')" using assms r by (simp add: accept_connection_def)
  have m: "m = GatewayHello PrivilegedHelperRole"
    using r(2) by (auto simp: require_gateway_hello_def split: ipc_message.splits if_splits)
  have p: "parse_sid (peer_sid peer) = Inr local_service_sid \<and> session_of (peer_process_id peer) = 0"
    using r(3) by (auto simp: validate_gateway_peer_def require_expected_sid_def gateway_session_id_def
        split: sum.splits if_splits)
  show ?thesis using helper_session_effect [OF s] r(1) m p by auto
next
  case False
  then have "responses = [] \<and> h' = h"
    using assms by (auto simp: accept_connection_def split: list.splits prod.splits sum.splits)
  then show ?thesis by auto
qed

text \<open>
  Whatever a tool call asks for, what the helper executes is what was asked: a privileged request
  is built only for the two power tools and only from a payload with exactly a delay of 0 to 300
  seconds and a reason of 1 to 200 characters; it satisfies the protocol's constraints, keeps the
  operation's identifier, and the helper parses it back to the action, delay and reason of the call.
\<close>

theorem privileged_request_is_faithful:
  assumes "build_privileged_request i tool payload t = Inr m"
  shows "\<exists>d r. map_of payload (ustr ''delay_seconds'') = Some (JInt d) \<and> map_of payload (ustr ''reason'') = Some (JStr r) \<and>
    set (map fst payload) = {ustr ''delay_seconds'', ustr ''reason''} \<and>
    0 \<le> d \<and> d \<le> 300 \<and> 1 \<le> length r \<and> length r \<le> 200 \<and> request_ok m \<and> request_id_of m = i \<and>
    (tool = ''system_reboot'' \<and> parse_ipc_request m = Some (RebootRequest \<lparr>pw_delay_seconds = d, pw_reason = r\<rparr>) \<or>
     tool = ''system_shutdown'' \<and> parse_ipc_request m = Some (ShutdownRequest \<lparr>pw_delay_seconds = d, pw_reason = r\<rparr>))"
proof -
  obtain f where f: "power_fields_of payload = Some f" "timeout_ok t"
      "tool = ''system_reboot'' \<or> tool = ''system_shutdown''"
      "m = (let q = \<lparr>pq_request_id = i, pq_payload = f, pq_timeout_ms = t\<rparr>
            in if tool = ''system_reboot'' then RebootRequestMsg q else ShutdownRequestMsg q)"
    using assms by (auto simp: build_privileged_request_def Let_def split: if_splits option.splits)
  obtain d r where dr: "map_of payload (ustr ''delay_seconds'') = Some (JInt d)"
      "map_of payload (ustr ''reason'') = Some (JStr r)" "f = \<lparr>pw_delay_seconds = d, pw_reason = r\<rparr>"
      "list_all (\<lambda>kv. fst kv = ustr ''delay_seconds'' \<or> fst kv = ustr ''reason'') payload" "power_fields_ok f"
    using f(1) by (auto simp: power_fields_of_def Let_def split: option.splits json.splits if_splits)
  have "set (map fst payload) = {ustr ''delay_seconds'', ustr ''reason''}"
    using dr(1,2,4) map_of_SomeD [OF dr(1)] map_of_SomeD [OF dr(2)] by (force simp: list_all_iff simp del: ustr_simps)
  then show ?thesis
    using f(2-4) dr by (auto simp: power_fields_ok_def text_ok_def parse_ipc_request_def Let_def simp del: ustr_simps)
qed

text \<open>
  The loop accepts a new connection after every failure but one: a frame that declares more than the
  maximal size is not among the exceptions it catches, and ends the helper's loop.
\<close>

lemma oversized_frame_ends_helper:
  "run_pipe_loop session_of ((((Inl HelperFrameTooLarge, w) # rest), peer) # later) h = (Some HelperFrameTooLarge, h)"
  by (simp add: accept_connection_def)

lemma other_failures_keep_helper:
  "(\<forall>(readings, peer) \<in> set cs. \<forall>(x, w) \<in> set readings. x \<noteq> Inl HelperFrameTooLarge) \<Longrightarrow>
   fst (run_pipe_loop session_of cs h) = None"
proof (induction cs arbitrary: h)
  case (Cons c cs)
  obtain readings peer where c: "c = (readings, peer)" by (cases c)
  have sess: "\<forall>(x, w) \<in> set rs. x \<noteq> Inl HelperFrameTooLarge \<Longrightarrow> fst (helper_session rs g) \<noteq> Some HelperFrameTooLarge" for rs g
    by (induction rs g rule: helper_session.induct)
      (auto simp: helper_dispatch_def split: sum.splits prod.splits ipc_message.splits option.splits)
  obtain r resp h1 where a: "accept_connection session_of readings peer h = (r, resp, h1)" by (metis prod_cases3)
  have "r \<noteq> Some HelperFrameTooLarge"
    using a Cons.prems sess [of "tl readings" h] c
    by (cases readings)
      (auto simp: accept_connection_def require_gateway_hello_def validate_gateway_peer_def
        split: sum.splits prod.splits ipc_message.splits if_splits)
  then have "r = None \<or> (\<exists>e. r = Some e \<and> helper_loop_continues e)"
    by (cases r) (auto, metis helper_loop_continues.elims(3))
  then show ?case using Cons c a by auto
qed simp

subsection \<open>A concrete session\<close>

definition sample_power_payload :: "(pystr \<times> json) list" where
  "sample_power_payload = [(ustr ''delay_seconds'', JInt 5), (ustr ''reason'', JStr [65])]"

definition sample_power_request :: request_message where
  "sample_power_request =
     RebootRequestMsg \<lparr>pq_request_id = 7, pq_payload = \<lparr>pw_delay_seconds = 5, pw_reason = [65]\<rparr>, pq_timeout_ms = 5000\<rparr>"

lemma sample_build: "build_privileged_request 7 ''system_reboot'' sample_power_payload 5000 = Inr sample_power_request"
  by (simp add: build_privileged_request_def power_fields_of_def sample_power_payload_def power_fields_ok_def
      text_ok_def timeout_ok_def sample_power_request_def)

lemma privileged_request_is_faithful_witness:
  "parse_ipc_request sample_power_request = Some (RebootRequest \<lparr>pw_delay_seconds = 5, pw_reason = [65]\<rparr>)"
  using privileged_request_is_faithful [OF sample_build]
  by (auto simp: sample_power_payload_def)

definition good_win32 :: win32_outcome where
  "good_win32 = \<lparr>wo_open = True, wo_lookup = True, wo_adjust = True, wo_last_error = 0, wo_initiate = True\<rparr>"

definition idle_host :: power_host where
  "idle_host = \<lparr>ph_privilege = False, ph_tokens_open = 0, ph_initiated = []\<rparr>"

lemma power_only_for_gateway_witness:
  "\<exists>res responses h'. accept_connection (\<lambda>_. 0)
      [(Inr (GatewayHello PrivilegedHelperRole), good_win32), (Inr (RequestMsg sample_power_request), good_win32)]
      \<lparr>peer_sid = local_service_sid, peer_process_id = 3\<rparr> idle_host = (res, responses, h') \<and>
    ph_privilege h' = False \<and> ph_initiated h' = [([65], 5, False, True)]"
proof -
  obtain res responses h' where a: "accept_connection (\<lambda>_. 0)
      [(Inr (GatewayHello PrivilegedHelperRole), good_win32), (Inr (RequestMsg sample_power_request), good_win32)]
      \<lparr>peer_sid = local_service_sid, peer_process_id = 3\<rparr> idle_host = (res, responses, h')"
    by (metis prod_cases3)
  have "length responses = 1"
    using a by (auto simp: accept_connection_def require_gateway_hello_def validate_gateway_peer_def
        require_expected_sid_def gateway_session_id_def helper_dispatch_def sample_power_request_def
        parse_ipc_request_def execute_power_def initiate_def initiate_locked_def good_win32_def Let_def)
  then have "ph_privilege h' = False \<and> ph_initiated h' = [([65], 5, False, True)]"
    using power_only_for_gateway [OF a]
    by (auto simp: idle_host_def sample_power_request_def parse_ipc_request_def action_of_def)
  then show ?thesis using a by blast
qed

end
