(* ===== verification/Peer_Registry.thy ===== *)
theory Peer_Registry
  imports Ipc_Protocol
begin

text \<open>
  The registries of the two local peers (\<open>worker/ipc_client.py\<close>: \<open>WorkerRegistry\<close>,
  \<open>run_heartbeat_loop\<close>; \<open>privileged/ipc_server.py\<close>: \<open>HelperRegistry\<close>). Both keep at most one
  connection, replace it by a newer generation only, refresh it by heartbeats and let it lapse. The
  locale states that contract once; it is interpreted on both registries. Times are readings of the
  monotonic clock in microseconds, clients and probes are identities.
\<close>

section \<open>State\<close>

record 'r peer_connection =
  pc_epoch :: int
  pc_registration :: 'r
  pc_client :: nat
  pc_heartbeat_at :: int
  pc_sequence :: int
  pc_probe :: "nat option"

record 'r peer_registry =
  pr_offline_after :: int
  pr_connection :: "'r peer_connection option"
  pr_next_epoch :: int

definition new_registry :: "int \<Rightarrow> 'r peer_registry" where
  "new_registry offline_after =
     \<lparr>pr_offline_after = offline_after, pr_connection = None, pr_next_epoch = 1\<rparr>"

datatype stale_error = StaleHeartbeatError string

datatype unavailable = PeerUnavailableError

section \<open>The worker registry\<close>

definition worker_register ::
  "worker_registration \<Rightarrow> nat \<Rightarrow> nat option \<Rightarrow> int \<Rightarrow> worker_registration peer_registry \<Rightarrow>
   (registration_error + unit) \<times> worker_registration peer_registry" where
  "worker_register registration client probe now s =
     (case accept_registration wr_generation (map_option pc_registration (pr_connection s)) registration of
        Inl e \<Rightarrow> (Inl e, s)
      | Inr accepted \<Rightarrow>
          (Inr (), s\<lparr>pr_connection := Some \<lparr>pc_epoch = pr_next_epoch s, pc_registration = accepted,
                        pc_client = client, pc_heartbeat_at = now, pc_sequence = - 1, pc_probe = probe\<rparr>,
                     pr_next_epoch := pr_next_epoch s + 1\<rparr>))"

definition worker_heartbeat_call ::
  "worker_heartbeat \<Rightarrow> int \<Rightarrow> worker_registration peer_registry \<Rightarrow>
   (stale_error + unit) \<times> worker_registration peer_registry" where
  "worker_heartbeat_call hb now s =
     (case pr_connection s of
        None \<Rightarrow> (Inl (StaleHeartbeatError ''worker_not_registered''), s)
      | Some c \<Rightarrow>
          (let matches = (wh_registration_id hb = wr_registration_id (pc_registration c) \<and>
                          wh_session_id hb = wr_session_id (pc_registration c) \<and>
                          wh_username hb = wr_username (pc_registration c))
           in if \<not> matches \<or> wh_sequence hb \<le> pc_sequence c
              then (Inl (StaleHeartbeatError ''registration_or_sequence_mismatch''), s)
              else (Inr (), s\<lparr>pr_connection := Some (c\<lparr>pc_heartbeat_at := now, pc_sequence := wh_sequence hb\<rparr>)\<rparr>)))"

text \<open>\<open>_current_connection_locked\<close>: a lapsed connection is dropped when it is looked at.\<close>

definition current_connection_locked :: "int \<Rightarrow> 'r peer_registry \<Rightarrow> 'r peer_connection option \<times> 'r peer_registry" where
  "current_connection_locked now s =
     (case pr_connection s of
        None \<Rightarrow> (None, s)
      | Some c \<Rightarrow>
          if pr_offline_after s \<le> now - pc_heartbeat_at c then (None, s\<lparr>pr_connection := None\<rparr>)
          else (Some c, s))"

definition worker_current :: "int \<Rightarrow> worker_registration peer_registry \<Rightarrow>
    (unavailable + nat) \<times> worker_registration peer_registry" where
  "worker_current now s =
     (case current_connection_locked now s of
        (None, s1) \<Rightarrow> (Inl PeerUnavailableError, s1)
      | (Some c, s1) \<Rightarrow> (Inr (pc_client c), s1))"

definition worker_disconnect :: "nat \<Rightarrow> worker_registration peer_registry \<Rightarrow> worker_registration peer_registry" where
  "worker_disconnect client s =
     (case pr_connection s of
        None \<Rightarrow> s
      | Some c \<Rightarrow> if pc_client c = client then s\<lparr>pr_connection := None\<rparr> else s)"

text \<open>
  The probe runs outside the lock: \<open>meanwhile\<close> is what other threads do to the registry in that time.
\<close>

definition pipe_acl_state ::
  "(nat \<Rightarrow> string) \<Rightarrow> ('r peer_registry \<Rightarrow> 'r peer_registry) \<Rightarrow> int \<Rightarrow> int \<Rightarrow> 'r peer_registry \<Rightarrow>
   string \<times> 'r peer_registry" where
  "pipe_acl_state probe meanwhile now1 now2 s =
     (case current_connection_locked now1 s of
        (None, s1) \<Rightarrow> (''offline'', s1)
      | (Some connection, s1) \<Rightarrow>
          (case pc_probe connection of
             None \<Rightarrow> (''unverified'', s1)
           | Some p \<Rightarrow>
               (case current_connection_locked now2 (meanwhile s1) of
                  (None, s2) \<Rightarrow> (''offline'', s2)
                | (Some current, s2) \<Rightarrow>
                    if pc_epoch current \<noteq> pc_epoch connection \<or> pc_client current \<noteq> pc_client connection
                    then (''offline'', s2)
                    else (probe p, s2))))"

section \<open>The helper registry\<close>

definition helper_register_transport ::
  "helper_registration \<Rightarrow> nat \<Rightarrow> nat option \<Rightarrow> int \<Rightarrow> helper_registration peer_registry \<Rightarrow>
   (registration_error + unit) \<times> helper_registration peer_registry" where
  "helper_register_transport registration client probe now s =
     (case accept_registration hr_generation (map_option pc_registration (pr_connection s)) registration of
        Inl e \<Rightarrow> (Inl e, s)
      | Inr accepted \<Rightarrow>
          (Inr (), s\<lparr>pr_connection := Some \<lparr>pc_epoch = pr_next_epoch s, pc_registration = accepted,
                        pc_client = client, pc_heartbeat_at = now, pc_sequence = - 1, pc_probe = probe\<rparr>,
                     pr_next_epoch := pr_next_epoch s + 1\<rparr>))"

definition helper_heartbeat_call ::
  "helper_heartbeat \<Rightarrow> int \<Rightarrow> helper_registration peer_registry \<Rightarrow>
   (stale_error + unit) \<times> helper_registration peer_registry" where
  "helper_heartbeat_call hb now s =
     (case pr_connection s of
        None \<Rightarrow> (Inl (StaleHeartbeatError ''helper_not_registered''), s)
      | Some c \<Rightarrow>
          if hh_registration_id hb \<noteq> hr_registration_id (pc_registration c) \<or> hh_sequence hb \<le> pc_sequence c
          then (Inl (StaleHeartbeatError ''registration_or_sequence_mismatch''), s)
          else (Inr (), s\<lparr>pr_connection := Some (c\<lparr>pc_heartbeat_at := now, pc_sequence := hh_sequence hb\<rparr>)\<rparr>))"

definition helper_current :: "int \<Rightarrow> helper_registration peer_registry \<Rightarrow>
    (unavailable + nat) \<times> helper_registration peer_registry" where
  "helper_current now s =
     (case current_connection_locked now s of
        (None, s1) \<Rightarrow> (Inl PeerUnavailableError, s1)
      | (Some c, s1) \<Rightarrow> (Inr (pc_client c), s1))"

definition helper_disconnect :: "nat \<Rightarrow> helper_registration peer_registry \<Rightarrow> helper_registration peer_registry" where
  "helper_disconnect client s =
     (case pr_connection s of
        None \<Rightarrow> s
      | Some c \<Rightarrow> if pc_client c = client then s\<lparr>pr_connection := None\<rparr> else s)"

section \<open>The contract of a registry\<close>

text \<open>
  A call at a clock reading, and the effect of a sequence of calls. \<open>matches\<close> says that a heartbeat
  belongs to a registration.
\<close>

datatype ('r, 'h) registry_call =
    RegisterCall 'r nat "nat option"
  | HeartbeatCall 'h
  | CurrentCall
  | DisconnectCall nat

definition run_registry ::
  "(int \<Rightarrow> ('r, 'h) registry_call \<Rightarrow> 'r peer_registry \<Rightarrow> 'r peer_registry) \<Rightarrow>
   (int \<times> ('r, 'h) registry_call) list \<Rightarrow> 'r peer_registry \<Rightarrow> 'r peer_registry" where
  "run_registry effect calls s = foldl (\<lambda>t (now, call). effect now call t) s calls"

definition epochs_ok :: "'r peer_registry \<Rightarrow> bool" where
  "epochs_ok s \<longleftrightarrow> (\<forall>c. pr_connection s = Some c \<longrightarrow> pc_epoch c < pr_next_epoch s)"

fun beats_of :: "(int \<times> ('r, 'h) registry_call) list \<Rightarrow> 'h list" where
  "beats_of [] = []"
| "beats_of ((t, HeartbeatCall h) # cs) = h # beats_of cs"
| "beats_of ((t, CurrentCall) # cs) = beats_of cs"
| "beats_of ((t, RegisterCall r c p) # cs) = beats_of cs"
| "beats_of ((t, DisconnectCall c) # cs) = beats_of cs"

fun timely :: "int \<Rightarrow> int \<Rightarrow> (int \<times> ('r, 'h) registry_call) list \<Rightarrow> bool" where
  "timely off since [] = True"
| "timely off since ((t, HeartbeatCall h) # cs) = timely off t cs"
| "timely off since ((t, CurrentCall) # cs) = (t - since < off \<and> timely off since cs)"
| "timely off since ((t, RegisterCall r c p) # cs) = False"
| "timely off since ((t, DisconnectCall c) # cs) = False"

fun last_beat :: "int \<Rightarrow> (int \<times> ('r, 'h) registry_call) list \<Rightarrow> int" where
  "last_beat t [] = t"
| "last_beat t ((u, HeartbeatCall h) # cs) = last_beat u cs"
| "last_beat t ((u, CurrentCall) # cs) = last_beat t cs"
| "last_beat t ((u, RegisterCall r c p) # cs) = last_beat t cs"
| "last_beat t ((u, DisconnectCall c) # cs) = last_beat t cs"

locale peer_registry =
  fixes effect :: "int \<Rightarrow> ('r, 'h) registry_call \<Rightarrow> 'r peer_registry \<Rightarrow> 'r peer_registry"
    and generation :: "'r \<Rightarrow> int"
    and matches :: "'h \<Rightarrow> 'r \<Rightarrow> bool"
    and beat :: "'h \<Rightarrow> int"
  assumes register_effect: "effect now (RegisterCall r c p) s =
      (if \<exists>k. pr_connection s = Some k \<and> generation r \<le> generation (pc_registration k) then s
       else s\<lparr>pr_connection := Some \<lparr>pc_epoch = pr_next_epoch s, pc_registration = r, pc_client = c,
                 pc_heartbeat_at = now, pc_sequence = - 1, pc_probe = p\<rparr>,
              pr_next_epoch := pr_next_epoch s + 1\<rparr>)"
    and heartbeat_effect: "effect now (HeartbeatCall h) s =
      (case pr_connection s of
         None \<Rightarrow> s
       | Some k \<Rightarrow> if matches h (pc_registration k) \<and> pc_sequence k < beat h
                   then s\<lparr>pr_connection := Some (k\<lparr>pc_heartbeat_at := now, pc_sequence := beat h\<rparr>)\<rparr> else s)"
    and current_effect: "effect now CurrentCall s = snd (current_connection_locked now s)"
    and disconnect_effect: "effect now (DisconnectCall c) s =
      (case pr_connection s of None \<Rightarrow> s | Some k \<Rightarrow> if pc_client k = c then s\<lparr>pr_connection := None\<rparr> else s)"
begin

lemmas effects = register_effect heartbeat_effect current_effect disconnect_effect current_connection_locked_def

lemma effect_epochs:
  assumes "epochs_ok s"
  shows "epochs_ok (effect now call s) \<and> pr_next_epoch s \<le> pr_next_epoch (effect now call s)"
  using assms by (cases call) (auto simp: effects epochs_ok_def split: option.splits)

text \<open>An epoch belongs to one connection for ever.\<close>

lemma effect_same_epoch:
  assumes "pr_connection (effect now call s) = Some k'" "pc_epoch k' \<noteq> pr_next_epoch s"
  shows "\<exists>k. pr_connection s = Some k \<and> pc_epoch k' = pc_epoch k \<and> pc_registration k' = pc_registration k \<and>
    pc_client k' = pc_client k \<and> pc_probe k' = pc_probe k \<and> pc_sequence k \<le> pc_sequence k'"
  using assms by (cases call) (auto simp: effects split: option.splits if_splits)

lemma run_same_epoch:
  assumes "epochs_ok s" "pr_connection s = Some k"
    "pr_connection (run_registry effect calls s) = Some k'" "pc_epoch k' = pc_epoch k"
  shows "pc_registration k' = pc_registration k \<and> pc_client k' = pc_client k \<and> pc_probe k' = pc_probe k \<and>
    pc_sequence k \<le> pc_sequence k'"
proof -
  have "epochs_ok (run_registry effect calls s) \<and> pc_epoch k < pr_next_epoch (run_registry effect calls s) \<and>
    (\<forall>k'. pr_connection (run_registry effect calls s) = Some k' \<longrightarrow> pc_epoch k' = pc_epoch k \<longrightarrow>
      pc_registration k' = pc_registration k \<and> pc_client k' = pc_client k \<and> pc_probe k' = pc_probe k \<and>
      pc_sequence k \<le> pc_sequence k')"
  proof (induction calls rule: rev_induct)
    case Nil
    then show ?case using assms(1,2) by (simp add: run_registry_def epochs_ok_def)
  next
    case (snoc nc calls)
    obtain now call where nc: "nc = (now, call)" by (cases nc)
    let ?t = "run_registry effect calls s"
    have t: "run_registry effect (calls @ [nc]) s = effect now call ?t" by (simp add: run_registry_def nc)
    have le: "epochs_ok (effect now call ?t)" "pr_next_epoch ?t \<le> pr_next_epoch (effect now call ?t)"
      using effect_epochs [of ?t now call] snoc by blast+
    show ?case
      unfolding t
    proof (intro conjI allI impI)
      show "epochs_ok (effect now call ?t)" "pc_epoch k < pr_next_epoch (effect now call ?t)"
        using le snoc by auto
      fix k' assume k': "pr_connection (effect now call ?t) = Some k'" "pc_epoch k' = pc_epoch k"
      then obtain j where j: "pr_connection ?t = Some j" "pc_epoch k' = pc_epoch j"
          "pc_registration k' = pc_registration j" "pc_client k' = pc_client j" "pc_probe k' = pc_probe j"
          "pc_sequence j \<le> pc_sequence k'"
        using effect_same_epoch [OF k'(1)] snoc by (metis less_irrefl)
      then have "pc_registration j = pc_registration k \<and> pc_client j = pc_client k \<and> pc_probe j = pc_probe k \<and>
          pc_sequence k \<le> pc_sequence j"
        using snoc k'(2) by metis
      then show "pc_registration k' = pc_registration k" "pc_client k' = pc_client k" "pc_probe k' = pc_probe k"
        "pc_sequence k \<le> pc_sequence k'"
        using j by auto
    qed
  qed
  then show ?thesis using assms(3,4) by blast
qed

lemma run_epochs: "epochs_ok s \<Longrightarrow> epochs_ok (run_registry effect calls s)"
proof (induction calls arbitrary: s)
  case (Cons nc calls)
  obtain now call where nc: "nc = (now, call)" by (cases nc)
  then show ?case
    using Cons.IH [of "effect now call s"] effect_epochs [OF Cons.prems] by (simp add: run_registry_def)
qed (simp add: run_registry_def)

lemma locked_epochs: "epochs_ok s \<Longrightarrow> epochs_ok (snd (current_connection_locked now s))"
  by (auto simp: current_connection_locked_def epochs_ok_def split: option.splits)

text \<open>A reported probe result belongs to the connection that is live before and after the probe.\<close>

lemma acl_state_sound:
  assumes "epochs_ok s" "pipe_acl_state probe (run_registry effect calls) now1 now2 s = (v, s')"
    "v \<notin> {''offline'', ''unverified''}"
  shows "\<exists>k k' p. pr_connection s = Some k \<and> pr_connection s' = Some k' \<and> pc_probe k = Some p \<and> v = probe p \<and>
    pc_registration k' = pc_registration k \<and> pc_client k' = pc_client k \<and> pc_probe k' = Some p \<and>
    now1 - pc_heartbeat_at k < pr_offline_after s \<and> now2 - pc_heartbeat_at k' < pr_offline_after s'"
proof -
  obtain k where k: "current_connection_locked now1 s = (Some k, s)" "pr_connection s = Some k"
      "now1 - pc_heartbeat_at k < pr_offline_after s"
    using assms(2,3) by (auto simp: pipe_acl_state_def current_connection_locked_def split: option.splits if_splits)
  obtain p where p: "pc_probe k = Some p"
    using assms(2,3) k(1) by (auto simp: pipe_acl_state_def split: option.splits)
  let ?t = "run_registry effect calls s"
  obtain k' where k': "current_connection_locked now2 ?t = (Some k', ?t)" "pr_connection ?t = Some k'"
      "now2 - pc_heartbeat_at k' < pr_offline_after ?t"
    using assms(2,3) k(1) p
    by (auto simp: pipe_acl_state_def current_connection_locked_def split: option.splits if_splits)
  have "pc_epoch k' = pc_epoch k" "v = probe p" "s' = ?t"
    using assms(2,3) k(1) p k'(1) by (auto simp: pipe_acl_state_def split: if_splits)
  then show ?thesis using run_same_epoch [OF assms(1) k(2) k'(2)] k k' p by auto
qed

text \<open>
  Calls that only beat and poll keep a connection as long as every beat belongs to it, the beats
  increase, and no poll comes a whole offline period after the last beat.
\<close>

lemma beats_keep_connection:
  "pr_connection s = Some k \<Longrightarrow> timely (pr_offline_after s) (pc_heartbeat_at k) calls \<Longrightarrow>
   \<forall>h \<in> set (beats_of calls). matches h (pc_registration k) \<and> pc_sequence k < beat h \<Longrightarrow>
   sorted_wrt (\<lambda>g h. beat g < beat h) (beats_of calls) \<Longrightarrow>
   \<exists>k'. pr_connection (run_registry effect calls s) = Some k' \<and> pc_epoch k' = pc_epoch k \<and>
     pc_registration k' = pc_registration k \<and> pc_client k' = pc_client k \<and>
     pc_heartbeat_at k' = last_beat (pc_heartbeat_at k) calls"
proof (induction calls arbitrary: s k rule: beats_of.induct)
  case 1
  then show ?case by (simp add: run_registry_def)
next
  case (2 t h cs)
  have m: "matches h (pc_registration k)" "pc_sequence k < beat h" using "2.prems"(3) by auto
  let ?k = "k\<lparr>pc_heartbeat_at := t, pc_sequence := beat h\<rparr>"
  have e: "effect t (HeartbeatCall h) s = s\<lparr>pr_connection := Some ?k\<rparr>"
    using m "2.prems"(1) by (simp add: heartbeat_effect)
  show ?case
    using "2.IH" [of "s\<lparr>pr_connection := Some ?k\<rparr>" ?k] "2.prems"(2-4) e
    by (simp add: run_registry_def)
next
  case (3 t cs)
  then have e: "effect t CurrentCall s = s" by (simp add: current_effect current_connection_locked_def)
  show ?case using "3.IH" [OF "3.prems"(1)] "3.prems"(2-4) e by (simp add: run_registry_def)
qed auto

end

section \<open>Both registries keep the contract\<close>

definition worker_matches :: "worker_heartbeat \<Rightarrow> worker_registration \<Rightarrow> bool" where
  "worker_matches hb r \<longleftrightarrow>
     wh_registration_id hb = wr_registration_id r \<and> wh_session_id hb = wr_session_id r \<and>
     wh_username hb = wr_username r"

definition helper_matches :: "helper_heartbeat \<Rightarrow> helper_registration \<Rightarrow> bool" where
  "helper_matches hb r \<longleftrightarrow> hh_registration_id hb = hr_registration_id r"

definition worker_effect ::
  "int \<Rightarrow> (worker_registration, worker_heartbeat) registry_call \<Rightarrow> worker_registration peer_registry \<Rightarrow>
   worker_registration peer_registry" where
  "worker_effect now call s =
     (case call of
        RegisterCall r c p \<Rightarrow> snd (worker_register r c p now s)
      | HeartbeatCall h \<Rightarrow> snd (worker_heartbeat_call h now s)
      | CurrentCall \<Rightarrow> snd (worker_current now s)
      | DisconnectCall c \<Rightarrow> worker_disconnect c s)"

definition helper_effect ::
  "int \<Rightarrow> (helper_registration, helper_heartbeat) registry_call \<Rightarrow> helper_registration peer_registry \<Rightarrow>
   helper_registration peer_registry" where
  "helper_effect now call s =
     (case call of
        RegisterCall r c p \<Rightarrow> snd (helper_register_transport r c p now s)
      | HeartbeatCall h \<Rightarrow> snd (helper_heartbeat_call h now s)
      | CurrentCall \<Rightarrow> snd (helper_current now s)
      | DisconnectCall c \<Rightarrow> helper_disconnect c s)"

interpretation workers: peer_registry worker_effect wr_generation worker_matches wh_sequence
  by unfold_locales
    (auto simp: worker_effect_def worker_register_def worker_heartbeat_call_def worker_current_def
      worker_disconnect_def accept_registration_def worker_matches_def Let_def current_connection_locked_def
      split: option.splits)

interpretation helpers: peer_registry helper_effect hr_generation helper_matches hh_sequence
  by unfold_locales
    (auto simp: helper_effect_def helper_register_transport_def helper_heartbeat_call_def helper_current_def
      helper_disconnect_def accept_registration_def helper_matches_def current_connection_locked_def
      split: option.splits)

section \<open>The heartbeat loop\<close>

text \<open>The first \<open>n\<close> heartbeats the endless loop sends, from sequence number \<open>i\<close> on.\<close>

datatype heartbeat_loop_error = InvalidHeartbeatIntervalError

fun heartbeat_messages :: "worker_registration \<Rightarrow> int \<Rightarrow> nat \<Rightarrow> worker_heartbeat list" where
  "heartbeat_messages r i 0 = []"
| "heartbeat_messages r i (Suc n) =
     \<lparr>wh_registration_id = wr_registration_id r, wh_sequence = i, wh_session_id = wr_session_id r,
      wh_username = wr_username r\<rparr> # heartbeat_messages r (i + 1) n"

definition run_heartbeat_loop :: "worker_registration \<Rightarrow> int \<Rightarrow> nat \<Rightarrow> heartbeat_loop_error + worker_heartbeat list" where
  "run_heartbeat_loop r interval n =
     (if interval \<le> 0 then Inl InvalidHeartbeatIntervalError else Inr (heartbeat_messages r 0 n))"

lemma heartbeat_messages_ok:
  "(\<forall>h \<in> set (heartbeat_messages r i n). worker_matches h r \<and> i \<le> wh_sequence h) \<and>
   sorted_wrt (\<lambda>g h. wh_sequence g < wh_sequence h) (heartbeat_messages r i n)"
proof (induction n arbitrary: i)
  case (Suc n)
  then show ?case using Suc [of "i + 1"] by (fastforce simp: worker_matches_def)
qed simp

section \<open>Liveness and freshness of peers\<close>

text \<open>
  A live worker stays reachable: once a registration is accepted, and as long as the heartbeats of
  the worker's own loop arrive in order and the registry is never asked more than an offline period
  after the last of them, every heartbeat is accepted, the registry keeps the same connection through
  any number of heartbeats and look-ups, and answers the next timely look-up with its client.
\<close>

theorem live_worker_stays_online:
  assumes "worker_register r c p t0 s = (Inr (), s1)"
    "run_heartbeat_loop r interval n = Inr beats" "beats_of calls = beats"
    "timely (pr_offline_after s) t0 calls" "t - last_beat t0 calls < pr_offline_after s"
  shows "\<exists>s2. worker_current t (run_registry worker_effect calls s1) = (Inr c, s2) \<and>
    (\<exists>k. pr_connection s2 = Some k \<and> pc_registration k = r \<and> pc_epoch k = pr_next_epoch s \<and>
       pc_heartbeat_at k = last_beat t0 calls)"
proof -
  let ?k = "\<lparr>pc_epoch = pr_next_epoch s, pc_registration = r, pc_client = c, pc_heartbeat_at = t0,
      pc_sequence = - 1, pc_probe = p\<rparr>"
  have s1: "pr_connection s1 = Some ?k" "pr_offline_after s1 = pr_offline_after s"
    using assms(1) by (auto simp: worker_register_def accept_registration_def split: sum.splits option.splits if_splits)
  have beats: "beats_of calls = heartbeat_messages r 0 n"
    using assms(2,3) by (auto simp: run_heartbeat_loop_def split: if_splits)
  have seq: "\<forall>h \<in> set (heartbeat_messages r 0 n). - 1 < wh_sequence h"
    using heartbeat_messages_ok [of r 0 n] by force
  obtain k where k: "pr_connection (run_registry worker_effect calls s1) = Some k" "pc_epoch k = pr_next_epoch s"
      "pc_registration k = r" "pc_client k = c" "pc_heartbeat_at k = last_beat t0 calls"
    using workers.beats_keep_connection [OF s1(1), of calls] assms(4) heartbeat_messages_ok [of r 0 n] s1(2) beats seq
    by auto
  have "pr_offline_after (run_registry worker_effect calls s1) = pr_offline_after s"
  proof -
    have "pr_offline_after (worker_effect now call u) = pr_offline_after u" for now call u
      by (cases call) (auto simp: workers.effects split: option.splits)
    then have "pr_offline_after (run_registry worker_effect cs u) = pr_offline_after u" for cs u
      by (induction cs arbitrary: u) (auto simp: run_registry_def)
    then show ?thesis using s1(2) by simp
  qed
  then show ?thesis
    using k assms(5) by (auto simp: worker_current_def current_connection_locked_def)
qed

text \<open>
  A security state that is reported belongs to the peer that is connected: when the state read is
  neither offline nor unverified, it is the result of the probe of a connection that was live before
  the probe, and whatever calls other threads made on the registry meanwhile, the connection that is
  live afterwards is that same registration with the same client and probe.
\<close>

theorem acl_state_is_fresh:
  assumes "epochs_ok s" "pipe_acl_state probe (run_registry helper_effect calls) now1 now2 s = (v, s')"
    "v \<notin> {''offline'', ''unverified''}"
  shows "\<exists>k k' p. pr_connection s = Some k \<and> pr_connection s' = Some k' \<and> pc_probe k = Some p \<and> v = probe p \<and>
    pc_registration k' = pc_registration k \<and> pc_client k' = pc_client k \<and> pc_probe k' = Some p \<and>
    now1 - pc_heartbeat_at k < pr_offline_after s \<and> now2 - pc_heartbeat_at k' < pr_offline_after s'"
  by (rule helpers.acl_state_sound [OF assms])

text \<open>The same for the worker's registry, and the invariant the hypothesis names.\<close>

lemma worker_acl_state_is_fresh:
  assumes "epochs_ok s" "pipe_acl_state probe (run_registry worker_effect calls) now1 now2 s = (v, s')"
    "v \<notin> {''offline'', ''unverified''}"
  shows "\<exists>k k' p. pr_connection s = Some k \<and> pr_connection s' = Some k' \<and> pc_probe k = Some p \<and> v = probe p \<and>
    pc_registration k' = pc_registration k \<and> pc_client k' = pc_client k \<and> pc_probe k' = Some p \<and>
    now1 - pc_heartbeat_at k < pr_offline_after s \<and> now2 - pc_heartbeat_at k' < pr_offline_after s'"
  by (rule workers.acl_state_sound [OF assms])

lemma new_registry_epochs: "epochs_ok (new_registry off)"
  by (simp add: epochs_ok_def new_registry_def)

lemma reachable_epochs:
  "epochs_ok (run_registry worker_effect calls (new_registry off))"
  "epochs_ok (run_registry helper_effect calls' (new_registry off))"
  by (simp_all add: workers.run_epochs helpers.run_epochs new_registry_epochs)

subsection \<open>Concrete registries\<close>

definition sample_worker :: worker_registration where
  "sample_worker = \<lparr>wr_registration_id = 4, wr_generation = 2, wr_session_id = 1, wr_username = [65]\<rparr>"

definition sample_helper :: helper_registration where
  "sample_helper = \<lparr>hr_registration_id = 9, hr_generation = 0\<rparr>"

lemma live_worker_stays_online_witness:
  "\<exists>s1 s2. worker_current 40 (run_registry worker_effect
      [(10, HeartbeatCall (hd (heartbeat_messages sample_worker 0 1))), (20, CurrentCall),
       (24, HeartbeatCall (hd (heartbeat_messages sample_worker 1 1)))] s1) = (Inr 3, s2)"
proof -
  obtain s1 where s1: "worker_register sample_worker 3 None 0 (new_registry 30) = (Inr (), s1)"
    by (auto simp: worker_register_def new_registry_def accept_registration_def)
  show ?thesis
    using live_worker_stays_online [OF s1, of 5 2 _ "[(10, HeartbeatCall (hd (heartbeat_messages sample_worker 0 1))),
        (20, CurrentCall), (24, HeartbeatCall (hd (heartbeat_messages sample_worker 1 1)))]" 40]
    by (force simp: run_heartbeat_loop_def new_registry_def numeral_2_eq_2)
qed

lemma acl_state_is_fresh_witness:
  "\<exists>k' s'. pipe_acl_state (\<lambda>_. ''verified'') (run_registry helper_effect [(3, CurrentCall)]) 2 4
      (snd (helper_register_transport sample_helper 7 (Some 1) 0 (new_registry 30))) = (''verified'', s') \<and>
    pr_connection s' = Some k' \<and> pc_client k' = 7"
proof -
  let ?s = "snd (helper_register_transport sample_helper 7 (Some 1) 0 (new_registry 30))"
  have e: "epochs_ok ?s"
    by (simp add: helper_register_transport_def new_registry_def accept_registration_def epochs_ok_def)
  obtain s' where s': "pipe_acl_state (\<lambda>_. ''verified'') (run_registry helper_effect [(3, CurrentCall)]) 2 4 ?s
      = (''verified'', s')"
    by (simp add: pipe_acl_state_def run_registry_def helpers.current_effect current_connection_locked_def
        helper_register_transport_def new_registry_def accept_registration_def)
  have "pr_connection ?s = Some k \<Longrightarrow> pc_client k = 7" for k
    by (auto simp: helper_register_transport_def new_registry_def accept_registration_def)
  then show ?thesis using acl_state_is_fresh [OF e s'] s' by force
qed

end
