(* ===== verification/Exchange.thy ===== *)
theory Exchange
  imports Peer_Registry Acl
begin

text \<open>
  The persistent connections of the gateway to its peers (\<open>gateway/worker_runtime.py\<close>,
  \<open>gateway/helper_runtime.py\<close>): correlation of responses with the one exchange in progress, the
  watchers that verify, register and serve a peer, and their reconnection with bounded back-off. The
  two connection classes are instances of one contract, stated as a locale. Every operation under one
  of the code's locks is one atomic step; steps of different threads interleave freely.
\<close>

section \<open>A connection\<close>

datatype exchange_error =
    EndpointDisconnectedError
  | EndpointTimeoutError
  | EndpointCancelledError
  | EndpointIoError "int option"
  | AbandonedExchangeError

record gateway_connection =
  gc_active :: "uuid option"
  gc_response :: "ipc_response option"
  gc_closed :: bool
  gc_written :: "ipc_message list"
  gc_handle_closes :: nat

definition new_connection :: gateway_connection where
  "new_connection =
     \<lparr>gc_active = None, gc_response = None, gc_closed = False, gc_written = [], gc_handle_closes = 0\<rparr>"

definition conn_begin :: "uuid \<Rightarrow> gateway_connection \<Rightarrow> (exchange_error + unit) \<times> gateway_connection" where
  "conn_begin rid c =
     (if gc_closed c then (Inl EndpointDisconnectedError, c)
      else (Inr (), c\<lparr>gc_active := Some rid, gc_response := None\<rparr>))"

definition conn_release :: "uuid \<Rightarrow> gateway_connection \<Rightarrow> gateway_connection" where
  "conn_release rid c = (if gc_active c = Some rid then c\<lparr>gc_active := None\<rparr> else c)"

definition conn_close :: "gateway_connection \<Rightarrow> gateway_connection" where
  "conn_close c =
     (if gc_closed c then c else c\<lparr>gc_closed := True, gc_handle_closes := gc_handle_closes c + 1\<rparr>)"

text \<open>\<open>_write\<close>: \<open>ok\<close> says whether the pipe accepted the frame.\<close>

definition conn_write :: "ipc_message \<Rightarrow> bool \<Rightarrow> bool \<Rightarrow> gateway_connection \<Rightarrow>
    (exchange_error + unit) \<times> gateway_connection" where
  "conn_write m abandoned ok c =
     (if abandoned then (Inl AbandonedExchangeError, c)
      else if \<not> ok then (Inl EndpointDisconnectedError, conn_close c)
      else (Inr (), c\<lparr>gc_written := gc_written c @ [m]\<rparr>))"

text \<open>
  The end of the wait in \<open>exchange_with_abandon\<close>; \<open>None\<close> while the wait goes on. The worker's class
  prefers the closed flag to a response, the helper's class prefers the response.
\<close>

definition worker_collect :: "bool \<Rightarrow> gateway_connection \<Rightarrow>
    ((exchange_error + ipc_response) \<times> gateway_connection) option" where
  "worker_collect timed_out c =
     (if gc_response c = None \<and> \<not> gc_closed c
      then (if timed_out then Some (Inl EndpointTimeoutError, c\<lparr>gc_active := None\<rparr>) else None)
      else if gc_closed c then Some (Inl EndpointDisconnectedError, c)
      else Some (case gc_response c of
                   None \<Rightarrow> Inl EndpointDisconnectedError
                 | Some r \<Rightarrow> Inr r, c\<lparr>gc_active := None, gc_response := None\<rparr>))"

definition helper_collect :: "bool \<Rightarrow> gateway_connection \<Rightarrow>
    ((exchange_error + ipc_response) \<times> gateway_connection) option" where
  "helper_collect timed_out c =
     (if gc_response c = None \<and> \<not> gc_closed c
      then (if timed_out then Some (Inl EndpointTimeoutError, c\<lparr>gc_active := None\<rparr>) else None)
      else Some (case gc_response c of
                   None \<Rightarrow> Inl EndpointDisconnectedError
                 | Some r \<Rightarrow> Inr r, c\<lparr>gc_active := None, gc_response := None\<rparr>))"

datatype deliver_error = UnexpectedMessageError | DeliverCorrelationError uuid uuid

definition conn_deliver :: "ipc_response \<Rightarrow> gateway_connection \<Rightarrow> (deliver_error + unit) \<times> gateway_connection" where
  "conn_deliver r c =
     (case gc_active c of
        None \<Rightarrow> (Inl UnexpectedMessageError, c)
      | Some active \<Rightarrow>
          if active \<noteq> rs_request_id r then (Inl (DeliverCorrelationError active (rs_request_id r)), c)
          else (Inr (), c\<lparr>gc_response := Some r\<rparr>))"

text \<open>\<open>cancel\<close>; \<open>meanwhile\<close> is what other threads do between its check and its write.\<close>

definition worker_cancel :: "uuid \<Rightarrow> string \<Rightarrow> bool \<Rightarrow> (gateway_connection \<Rightarrow> gateway_connection) \<Rightarrow>
    gateway_connection \<Rightarrow> (exchange_error + bool) \<times> gateway_connection" where
  "worker_cancel rid reason ok meanwhile c =
     (if gc_closed c \<or> gc_active c \<noteq> Some rid then (Inr False, c)
      else (case conn_write (CancelMsg \<lparr>cx_request_id = rid, cx_reason = reason\<rparr>) False ok (meanwhile c) of
              (Inl e, c1) \<Rightarrow> (Inl e, c1)
            | (Inr _, c1) \<Rightarrow> (Inr True, c1)))"

definition helper_cancel :: "uuid \<Rightarrow> string \<Rightarrow> bool \<Rightarrow> (gateway_connection \<Rightarrow> gateway_connection) \<Rightarrow>
    gateway_connection \<Rightarrow> (exchange_error + bool) \<times> gateway_connection" where
  "helper_cancel rid reason ok meanwhile c =
     (if gc_closed c \<or> gc_active c \<noteq> Some rid then (Inr False, c)
      else (case conn_write (CancelMsg \<lparr>cx_request_id = rid, cx_reason = reason\<rparr>) False ok (meanwhile c) of
              (Inl e, c1) \<Rightarrow> (Inl e, c1)
            | (Inr _, c1) \<Rightarrow> (Inr True, conn_close c1)))"

section \<open>Runs of a connection\<close>

datatype exchange_phase = Idle | Begun uuid | Waiting uuid

datatype exchange_event =
    Wrote uuid
  | Delivered ipc_response
  | Returned uuid ipc_response

inductive conn_run ::
  "(bool \<Rightarrow> gateway_connection \<Rightarrow> ((exchange_error + ipc_response) \<times> gateway_connection) option) \<Rightarrow>
   exchange_event list \<Rightarrow> exchange_phase \<Rightarrow> gateway_connection \<Rightarrow> bool"
  for collect where
  start: "conn_run collect [] Idle new_connection"
| start_exchange: "conn_run collect h Idle c \<Longrightarrow> conn_begin rid c = (Inr (), c') \<Longrightarrow> conn_run collect h (Begun rid) c'"
| abandon: "conn_run collect h (Begun rid) c \<Longrightarrow> conn_run collect h Idle (conn_release rid c)"
| send: "conn_run collect h (Begun rid) c \<Longrightarrow> request_id_of q = rid \<Longrightarrow>
    conn_write (RequestMsg q) False ok c = (Inr (), c') \<Longrightarrow> conn_run collect (Wrote rid # h) (Waiting rid) c'"
| send_failed: "conn_run collect h (Begun rid) c \<Longrightarrow>
    conn_write (RequestMsg q) False ok c = (Inl e, c') \<Longrightarrow> conn_run collect h Idle c'"
| collect: "conn_run collect h (Waiting rid) c \<Longrightarrow> collect timed_out c = Some (Inr r, c') \<Longrightarrow>
    conn_run collect (Returned rid r # h) Idle c'"
| collect_failed: "conn_run collect h (Waiting rid) c \<Longrightarrow> collect timed_out c = Some (Inl e, c') \<Longrightarrow>
    conn_run collect h Idle c'"
| deliver: "conn_run collect h p c \<Longrightarrow> conn_deliver r c = (Inr (), c') \<Longrightarrow> conn_run collect (Delivered r # h) p c'"
| send_cancel: "conn_run collect h p c \<Longrightarrow> conn_write (CancelMsg x) False ok c = (res, c') \<Longrightarrow> conn_run collect h p c'"
| close: "conn_run collect h p c \<Longrightarrow> conn_run collect h p (conn_close c)"

definition phase_id :: "exchange_phase \<Rightarrow> uuid option" where
  "phase_id p = (case p of Idle \<Rightarrow> None | Begun i \<Rightarrow> Some i | Waiting i \<Rightarrow> Some i)"

definition conn_inv :: "exchange_event list \<Rightarrow> exchange_phase \<Rightarrow> gateway_connection \<Rightarrow> bool" where
  "conn_inv h p c \<longleftrightarrow>
     (\<forall>r. gc_response c = Some r \<longrightarrow>
        Delivered r \<in> set h \<and> (p \<noteq> Idle \<longrightarrow> phase_id p = Some (rs_request_id r))) \<and>
     (p \<noteq> Idle \<longrightarrow> gc_active c = phase_id p) \<and>
     (\<forall>i. p = Waiting i \<longrightarrow> Wrote i \<in> set h) \<and>
     (\<forall>i r. Returned i r \<in> set h \<longrightarrow> rs_request_id r = i \<and> Delivered r \<in> set h \<and> Wrote i \<in> set h) \<and>
     gc_handle_closes c = (if gc_closed c then 1 else 0)"

text \<open>The contract of a connection class: how it ends a wait.\<close>

locale exchange_client =
  fixes collect :: "bool \<Rightarrow> gateway_connection \<Rightarrow> ((exchange_error + ipc_response) \<times> gateway_connection) option"
  assumes collect_ok: "collect t c = Some (Inr r, c') \<Longrightarrow>
      gc_response c = Some r \<and> c' = c\<lparr>gc_active := None, gc_response := None\<rparr>"
    and collect_err: "collect t c = Some (Inl e, c') \<Longrightarrow>
      c' = c \<or> gc_response c = None \<and> (c' = c\<lparr>gc_active := None\<rparr> \<or> c' = c\<lparr>gc_active := None, gc_response := None\<rparr>)"
    and collect_ends: "collect True c \<noteq> None"
    and collect_ready: "gc_response c \<noteq> None \<or> gc_closed c \<Longrightarrow> collect t c \<noteq> None"
begin

lemma run_inv: "conn_run collect h p c \<Longrightarrow> conn_inv h p c"
proof (induction rule: conn_run.induct)
  case start
  then show ?case by (simp add: conn_inv_def new_connection_def)
next
  case (start_exchange h c rid c')
  then show ?case by (auto simp: conn_inv_def conn_begin_def phase_id_def split: if_splits)
next
  case (abandon h rid c)
  then show ?case by (auto simp: conn_inv_def conn_release_def)
next
  case (send h rid c q ok c')
  then show ?case by (auto simp: conn_inv_def conn_write_def phase_id_def split: if_splits)
next
  case (send_failed h rid c q ok e c')
  then show ?case by (auto simp: conn_inv_def conn_write_def conn_close_def phase_id_def split: if_splits)
next
  case (collect h rid c timed_out r c')
  then show ?case using collect_ok [OF collect.hyps(2)] by (auto simp: conn_inv_def phase_id_def)
next
  case (collect_failed h rid c timed_out e c')
  then show ?case using collect_err [OF collect_failed.hyps(2)] by (auto simp: conn_inv_def phase_id_def)
next
  case (deliver h p c r c')
  then show ?case by (auto simp: conn_inv_def conn_deliver_def split: option.splits if_splits)
next
  case (send_cancel h p c x ok res c')
  then show ?case by (auto simp: conn_inv_def conn_write_def conn_close_def split: if_splits)
next
  case (close h p c)
  then show ?case by (auto simp: conn_inv_def conn_close_def)
qed

end

interpretation worker_client: exchange_client worker_collect
  by unfold_locales (auto simp: worker_collect_def split: if_splits option.splits)

interpretation helper_client: exchange_client helper_collect
  by unfold_locales (auto simp: helper_collect_def split: if_splits option.splits)

section \<open>Watchers\<close>

text \<open>The exceptions that serving a connection can raise.\<close>

datatype watch_exception =
    XCorrelation
  | XEndpointDisconnected
  | XOsError
  | XProtocolMessage
  | XProtocolVersion
  | XRegistrationConflict
  | XStaleHeartbeat
  | XUnexpectedMessage
  | XFrameTooLarge
  | XTruncatedFrame

definition worker_watcher_catches :: "watch_exception \<Rightarrow> bool" where
  "worker_watcher_catches x \<longleftrightarrow>
     x \<in> {XCorrelation, XEndpointDisconnected, XOsError, XProtocolMessage, XProtocolVersion,
          XRegistrationConflict, XStaleHeartbeat, XUnexpectedMessage}"

definition helper_watcher_catches :: "watch_exception \<Rightarrow> bool" where
  "helper_watcher_catches x \<longleftrightarrow>
     x \<in> {XCorrelation, XEndpointDisconnected, XOsError, XRegistrationConflict, XStaleHeartbeat, XUnexpectedMessage}"

definition initial_retry_ms :: nat where "initial_retry_ms = 50"
definition max_retry_ms :: nat where "max_retry_ms = 1000"

text \<open>
  The loop of \<open>run\<close>: each connection ends normally (\<open>None\<close>) or with an exception; the result is the
  list of delays waited for and the exception that ends the loop, if one does. The list of outcomes
  ends when a stop is requested.
\<close>

fun watcher_run :: "(watch_exception \<Rightarrow> bool) \<Rightarrow> nat \<Rightarrow> watch_exception option list \<Rightarrow>
    nat list \<times> watch_exception option" where
  "watcher_run catches delay [] = ([], None)"
| "watcher_run catches delay (None # outcomes) =
     (case watcher_run catches initial_retry_ms outcomes of (ds, x) \<Rightarrow> (initial_retry_ms # ds, x))"
| "watcher_run catches delay (Some e # outcomes) =
     (if catches e
      then (let next = min (delay * 2) max_retry_ms in
            case watcher_run catches next outcomes of (ds, x) \<Rightarrow> (next # ds, x))
      else ([], Some e))"

section \<open>Serving a peer\<close>

text \<open>
  \<open>_expected_acl_for_registration\<close>: \<open>resolve\<close> is the local account lookup (\<open>None\<close> for its error),
  \<open>reading\<close> the descriptor read from the connected handle.
\<close>

definition expected_acl_for_registration ::
  "pystr option \<Rightarrow> (pystr \<Rightarrow> pystr option) \<Rightarrow> acl_verification_error + ace list option \<Rightarrow>
   worker_registration \<Rightarrow> watch_exception + pipe_acl option" where
  "expected_acl_for_registration expected_sid resolve reading registration =
     (case expected_sid of
        None \<Rightarrow> Inr None
      | Some sid \<Rightarrow>
          (case resolve (wr_username registration) of
             None \<Rightarrow> Inl XEndpointDisconnected
           | Some registered_sid \<Rightarrow>
               (case build_worker_pipe_acl sid of
                  Inl _ \<Rightarrow> Inl XEndpointDisconnected
                | Inr acl \<Rightarrow>
                    if registered_sid \<noteq> acl ! 1 then Inl XEndpointDisconnected
                    else if observe_client_pipe_acl reading acl \<noteq> VERIFIED then Inl XEndpointDisconnected
                    else Inr (Some acl))))"

text \<open>Messages arrive with the clock reading of their arrival; the list ends when a stop is requested.\<close>

type_synonym arrival = "int \<times> (watch_exception + ipc_message)"

fun serve_worker_messages ::
  "arrival list \<Rightarrow> worker_registration peer_registry \<Rightarrow> gateway_connection \<Rightarrow>
   watch_exception option \<times> worker_registration peer_registry \<times> gateway_connection" where
  "serve_worker_messages [] reg c = (None, reg, c)"
| "serve_worker_messages ((t, Inl e) # ms) reg c = (Some e, reg, c)"
| "serve_worker_messages ((t, Inr (HeartbeatMsg hb)) # ms) reg c =
     (case worker_heartbeat_call hb t reg of
        (Inl _, reg1) \<Rightarrow> (Some XStaleHeartbeat, reg1, c)
      | (Inr _, reg1) \<Rightarrow> serve_worker_messages ms reg1 c)"
| "serve_worker_messages ((t, Inr (ResponseMsg r)) # ms) reg c =
     (case conn_deliver r c of
        (Inl UnexpectedMessageError, c1) \<Rightarrow> (Some XUnexpectedMessage, reg, c1)
      | (Inl (DeliverCorrelationError _ _), c1) \<Rightarrow> (Some XCorrelation, reg, c1)
      | (Inr _, c1) \<Rightarrow> serve_worker_messages ms reg c1)"
| "serve_worker_messages ((t, Inr m) # ms) reg c = (Some XUnexpectedMessage, reg, c)"

definition serve_worker ::
  "pystr option \<Rightarrow> (pystr \<Rightarrow> pystr option) \<Rightarrow> acl_verification_error + ace list option \<Rightarrow> nat \<Rightarrow>
   arrival list \<Rightarrow> worker_registration peer_registry \<Rightarrow>
   watch_exception option \<times> worker_registration peer_registry \<times> gateway_connection" where
  "serve_worker expected_sid resolve reading client arrivals reg =
     (case arrivals of
        (t, Inr (WorkerRegistrationMsg registration)) # ms \<Rightarrow>
          (case expected_acl_for_registration expected_sid resolve reading registration of
             Inl e \<Rightarrow> (Some e, reg, new_connection)
           | Inr acl \<Rightarrow>
               (case worker_register registration client (Some client) t reg of
                  (Inl _, reg1) \<Rightarrow> (Some XRegistrationConflict, reg1, new_connection)
                | (Inr _, reg1) \<Rightarrow> serve_worker_messages ms reg1 new_connection))
      | (t, Inl e) # ms \<Rightarrow> (Some e, reg, new_connection)
      | (t, Inr _) # ms \<Rightarrow> (Some XUnexpectedMessage, reg, new_connection)
      | [] \<Rightarrow> (Some XEndpointDisconnected, reg, new_connection))"

fun serve_helper_messages ::
  "arrival list \<Rightarrow> helper_registration peer_registry \<Rightarrow> gateway_connection \<Rightarrow>
   watch_exception option \<times> helper_registration peer_registry \<times> gateway_connection" where
  "serve_helper_messages [] reg c = (None, reg, c)"
| "serve_helper_messages ((t, Inl e) # ms) reg c = (Some e, reg, c)"
| "serve_helper_messages ((t, Inr (HelperHeartbeatMsg hb)) # ms) reg c =
     (case helper_heartbeat_call hb t reg of
        (Inl _, reg1) \<Rightarrow> (Some XStaleHeartbeat, reg1, c)
      | (Inr _, reg1) \<Rightarrow> serve_helper_messages ms reg1 c)"
| "serve_helper_messages ((t, Inr (ResponseMsg r)) # ms) reg c =
     (case conn_deliver r c of
        (Inl UnexpectedMessageError, c1) \<Rightarrow> (Some XUnexpectedMessage, reg, c1)
      | (Inl (DeliverCorrelationError _ _), c1) \<Rightarrow> (Some XCorrelation, reg, c1)
      | (Inr _, c1) \<Rightarrow> serve_helper_messages ms reg c1)"
| "serve_helper_messages ((t, Inr m) # ms) reg c = (Some XUnexpectedMessage, reg, c)"

definition serve_helper ::
  "acl_verification_error + ace list option \<Rightarrow> nat \<Rightarrow> arrival list \<Rightarrow> helper_registration peer_registry \<Rightarrow>
   watch_exception option \<times> helper_registration peer_registry \<times> gateway_connection" where
  "serve_helper reading client arrivals reg =
     (case build_privileged_pipe_acl of
        Inl _ \<Rightarrow> (Some XOsError, reg, new_connection)
      | Inr acl \<Rightarrow>
          if observe_client_pipe_acl reading acl \<noteq> VERIFIED then (Some XEndpointDisconnected, reg, new_connection)
          else (case arrivals of
                  (t, Inr (HelperRegistrationMsg registration)) # ms \<Rightarrow>
                    (case helper_register_transport registration client (Some client) t reg of
                       (Inl _, reg1) \<Rightarrow> (Some XRegistrationConflict, reg1, new_connection)
                     | (Inr _, reg1) \<Rightarrow> serve_helper_messages ms reg1 new_connection)
                | (t, Inl e) # ms \<Rightarrow> (Some e, reg, new_connection)
                | (t, Inr _) # ms \<Rightarrow> (Some XUnexpectedMessage, reg, new_connection)
                | [] \<Rightarrow> (Some XEndpointDisconnected, reg, new_connection)))"

text \<open>The \<open>finally\<close> block of \<open>run\<close>: the registry forgets this client, the handle is closed.\<close>

definition finish_worker :: "nat \<Rightarrow> worker_registration peer_registry \<Rightarrow> gateway_connection \<Rightarrow>
    worker_registration peer_registry \<times> gateway_connection" where
  "finish_worker client reg c = (worker_disconnect client reg, conn_close c)"

definition finish_helper :: "nat \<Rightarrow> helper_registration peer_registry \<Rightarrow> gateway_connection \<Rightarrow>
    helper_registration peer_registry \<times> gateway_connection" where
  "finish_helper client reg c = (helper_disconnect client reg, conn_close c)"

section \<open>Facts about serving\<close>

lemma helper_acl_never_fails: "\<exists>acl. build_privileged_pipe_acl = Inr acl"
  by (simp add: privileged_acl)

lemma expected_acl_Inr:
  assumes "expected_acl_for_registration (Some sid) resolve reading r = Inr a"
  shows "\<exists>acl t. build_worker_pipe_acl sid = Inr acl \<and> parse_sid sid = Inr t \<and>
    resolve (wr_username r) = Some (if t = local_service_sid then administrators_sid else t) \<and>
    reading = Inr (Some (build_security_attributes acl))"
proof -
  obtain u acl where a: "resolve (wr_username r) = Some u" "build_worker_pipe_acl sid = Inr acl" "u = acl ! 1"
      "observe_client_pipe_acl reading acl = VERIFIED"
    using assms by (auto simp: expected_acl_for_registration_def split: option.splits sum.splits if_splits)
  obtain t where t: "parse_sid sid = Inr t" using a(2) by (auto simp: build_worker_acl)
  show ?thesis using a t second_entry [OF a(2) t] observe_verified by auto
qed

lemma serve_worker_registers:
  assumes "serve_worker (Some sid) resolve reading client arrivals reg = (x, reg', c)" "reg' \<noteq> reg"
  shows "\<exists>t r ms acl. arrivals = (t, Inr (WorkerRegistrationMsg r)) # ms \<and>
    expected_acl_for_registration (Some sid) resolve reading r = Inr acl"
  using assms
  by (auto simp: serve_worker_def worker_register_def
      split: list.splits prod.splits sum.splits ipc_message.splits)

lemma watcher_delays_from:
  assumes "\<forall>x \<in> set xs. \<exists>e. x = Some e \<and> catches e" "1 \<le> d" "d \<le> 1000"
  shows "watcher_run catches d xs = (map (\<lambda>k. min (d * 2 ^ Suc k) 1000) [0..<length xs], None)"
  using assms
proof (induction xs arbitrary: d)
  case (Cons x xs)
  obtain e where e: "x = Some e" "catches e" using Cons.prems(1) by auto
  let ?d = "min (d * 2) 1000"
  have d: "1 \<le> ?d" "?d \<le> 1000" using Cons.prems(2) by auto
  have ih: "watcher_run catches ?d xs = (map (\<lambda>k. min (?d * 2 ^ Suc k) 1000) [0..<length xs], None)"
    using Cons.IH [OF _ d] Cons.prems(1) by simp
  have step: "min (?d * 2 ^ Suc k) 1000 = min (d * 2 ^ Suc (Suc k)) 1000" for k
  proof (cases "d * 2 \<le> 1000")
    case False
    have "1 \<le> (2 :: nat) ^ k" by simp
    then have "500 * (4 * 1) \<le> d * (4 * 2 ^ k)" using False by (intro mult_mono) auto
    then have "min (d * (4 * 2 ^ k)) 1000 = 1000" by simp
    then show ?thesis using False by (simp add: mult.assoc)
  qed simp
  have list: "[0..<length (x # xs)] = 0 # map Suc [0..<length xs]"
    by (simp add: map_Suc_upt upt_conv_Cons del: upt_Suc)
  show ?case
    unfolding list using e ih step by (simp add: max_retry_ms_def comp_def)
qed simp

lemma watcher_delays_bounded:
  "25 \<le> d \<Longrightarrow> watcher_run catches d xs = (ds, x) \<Longrightarrow> \<forall>k \<in> set ds. 50 \<le> k \<and> k \<le> 1000"
proof (induction xs arbitrary: d ds x)
  case (Cons y ys)
  show ?case
  proof (cases y)
    case None
    obtain es z where r: "watcher_run catches initial_retry_ms ys = (es, z)" by fastforce
    then show ?thesis
      using Cons.IH [of initial_retry_ms es z] Cons.prems(2) None by (auto simp: initial_retry_ms_def)
  next
    case (Some e)
    obtain es z where r: "watcher_run catches (min (d * 2) max_retry_ms) ys = (es, z)" by fastforce
    have "25 \<le> min (d * 2) max_retry_ms" using Cons.prems(1) by (simp add: max_retry_ms_def)
    then show ?thesis
      using Cons.IH [OF _ r] Cons.prems Some r by (fastforce simp: max_retry_ms_def split: if_splits)
  qed
qed simp

section \<open>Correlation, verification and recovery\<close>

text \<open>
  C13: An exchange gets its own response or an error: in every run of a connection of either class,
  with exchanges, deliveries, cancellations and closing interleaved in any way, a response that is
  returned for a request carries that request's identifier, was delivered by the peer and belongs to
  a request that was written; the kernel handle is closed at most once; and a wait always ends when
  its deadline passes, when a response is there or when the connection is closed.
\<close>

theorem exchange_returns_own_response:
  assumes "collect \<in> {worker_collect, helper_collect}" "conn_run collect h p c"
  shows "(\<forall>i r. Returned i r \<in> set h \<longrightarrow> rs_request_id r = i \<and> Delivered r \<in> set h \<and> Wrote i \<in> set h) \<and>
    gc_handle_closes c \<le> 1 \<and>
    (t \<or> gc_response c \<noteq> None \<or> gc_closed c \<longrightarrow> collect t c \<noteq> None)"
proof -
  have "conn_inv h p c" using assms worker_client.run_inv helper_client.run_inv by blast
  moreover have "t \<or> gc_response c \<noteq> None \<or> gc_closed c \<longrightarrow> collect t c \<noteq> None"
    using assms(1) worker_client.collect_ends [of c] helper_client.collect_ends [of c]
      worker_client.collect_ready [of c t] helper_client.collect_ready [of c t]
    by (cases t) auto
  ultimately show ?thesis by (auto simp: conn_inv_def)
qed


text \<open>
  The worker's watcher reconnects for ever with bounded back-off: as long as connections fail with
  the errors of a lost, stale or misbehaving peer, the loop goes on, waits 50 ms doubled after each
  failure in a row up to a second, and for any mix of failures and normal ends every delay lies
  between 50 ms and a second.
\<close>

theorem worker_watcher_recovers:
  assumes "\<forall>x \<in> set outcomes. \<forall>e. x = Some e \<longrightarrow> worker_watcher_catches e"
  shows "snd (watcher_run worker_watcher_catches initial_retry_ms outcomes) = None \<and>
    (\<forall>d \<in> set (fst (watcher_run worker_watcher_catches initial_retry_ms outcomes)). 50 \<le> d \<and> d \<le> 1000) \<and>
    length (fst (watcher_run worker_watcher_catches initial_retry_ms outcomes)) = length outcomes \<and>
    (None \<notin> set outcomes \<longrightarrow>
       fst (watcher_run worker_watcher_catches initial_retry_ms outcomes) =
         map (\<lambda>k. min (50 * 2 ^ Suc k) 1000) [0..<length outcomes])"
proof (intro conjI impI)
  have total: "snd (watcher_run worker_watcher_catches d outcomes) = None \<and>
      length (fst (watcher_run worker_watcher_catches d outcomes)) = length outcomes" for d
    using assms
  proof (induction outcomes arbitrary: d)
    case (Cons x xs)
    then show ?case by (cases x) (auto simp: Let_def case_prod_unfold)
  qed simp
  then show "snd (watcher_run worker_watcher_catches initial_retry_ms outcomes) = None"
    "length (fst (watcher_run worker_watcher_catches initial_retry_ms outcomes)) = length outcomes"
    by auto
  show "\<forall>d \<in> set (fst (watcher_run worker_watcher_catches initial_retry_ms outcomes)). 50 \<le> d \<and> d \<le> 1000"
    using watcher_delays_bounded [of initial_retry_ms worker_watcher_catches outcomes]
    by (cases "watcher_run worker_watcher_catches initial_retry_ms outcomes") (auto simp: initial_retry_ms_def)
  assume "None \<notin> set outcomes"
  then have "\<forall>x \<in> set outcomes. \<exists>e. x = Some e \<and> worker_watcher_catches e"
    using assms by (metis option.exhaust)
  then show "fst (watcher_run worker_watcher_catches initial_retry_ms outcomes) =
      map (\<lambda>k. min (50 * 2 ^ Suc k) 1000) [0..<length outcomes]"
    using watcher_delays_from [of outcomes worker_watcher_catches initial_retry_ms]
    by (simp add: initial_retry_ms_def)
qed

text \<open>
  The helper's watcher does not recover from everything the worker's watcher recovers from: one
  message of the helper that does not parse, or carries another protocol version, ends its loop for
  good, and so does a frame declared too large or cut short in both watchers; no further connection
  is attempted.
\<close>

theorem malformed_message_ends_helper_watcher:
  "(\<forall>x \<in> {XProtocolMessage, XProtocolVersion, XFrameTooLarge, XTruncatedFrame}.
      watcher_run helper_watcher_catches d (Some x # outcomes) = ([], Some x)) \<and>
   (\<forall>x \<in> {XFrameTooLarge, XTruncatedFrame}. watcher_run worker_watcher_catches d (Some x # outcomes) = ([], Some x)) \<and>
   (\<forall>x \<in> {XProtocolMessage, XProtocolVersion}. fst (watcher_run worker_watcher_catches d (Some x # outcomes)) \<noteq> [])"
  by (auto simp: helper_watcher_catches_def worker_watcher_catches_def Let_def split: prod.splits)

subsection \<open>Concrete connections\<close>

definition sample_request :: request_message where
  "sample_request =
     WorkerRequest \<lparr>rq_request_id = 5, rq_operation = ''status'', rq_payload = [], rq_timeout_ms = 100\<rparr>"

definition sample_response :: ipc_response where
  "sample_response = \<lparr>rs_request_id = 5, rs_ok = True, rs_payload = None, rs_error_code = None\<rparr>"

lemma sample_conn_run:
  "\<exists>c. conn_run worker_collect [Returned 5 sample_response, Delivered sample_response, Wrote 5] Idle c"
proof -
  let ?c1 = "new_connection\<lparr>gc_active := Some 5, gc_response := None\<rparr>"
  let ?c2 = "?c1\<lparr>gc_written := [RequestMsg sample_request]\<rparr>"
  let ?c3 = "?c2\<lparr>gc_response := Some sample_response\<rparr>"
  have 1: "conn_run worker_collect [] (Begun 5) ?c1"
    by (rule conn_run.start_exchange [OF conn_run.start]) (simp add: conn_begin_def new_connection_def)
  have 2: "conn_run worker_collect [Wrote 5] (Waiting 5) ?c2"
    by (rule conn_run.send [OF 1, of sample_request True])
      (simp_all add: sample_request_def conn_write_def new_connection_def)
  have 3: "conn_run worker_collect [Delivered sample_response, Wrote 5] (Waiting 5) ?c3"
    by (rule conn_run.deliver [OF 2]) (simp add: conn_deliver_def sample_response_def)
  have "conn_run worker_collect [Returned 5 sample_response, Delivered sample_response, Wrote 5] Idle
      (?c3\<lparr>gc_active := None, gc_response := None\<rparr>)"
    by (rule conn_run.collect [OF 3, of False]) (simp add: worker_collect_def new_connection_def)
  then show ?thesis by blast
qed

lemma exchange_returns_own_response_witness:
  "rs_request_id sample_response = 5"
proof -
  obtain c where "conn_run worker_collect [Returned 5 sample_response, Delivered sample_response, Wrote 5] Idle c"
    using sample_conn_run by blast
  from exchange_returns_own_response [OF _ this, of True] show ?thesis by auto
qed

definition registration_of_user :: worker_registration where
  "registration_of_user = \<lparr>wr_registration_id = 4, wr_generation = 1, wr_session_id = 1, wr_username = [65]\<rparr>"


lemma worker_watcher_recovers_witness:
  "snd (watcher_run worker_watcher_catches initial_retry_ms [Some XOsError, None, Some XProtocolMessage]) = None"
  using worker_watcher_recovers [of "[Some XOsError, None, Some XProtocolMessage]"]
  by (simp add: worker_watcher_catches_def)

lemma malformed_message_ends_helper_watcher_witness:
  "watcher_run helper_watcher_catches initial_retry_ms [Some XProtocolMessage, None] = ([], Some XProtocolMessage)"
  using malformed_message_ends_helper_watcher [of initial_retry_ms "[None]"] by simp

end
