(* ===== verification/Framing.thy ===== *)
theory Framing
  imports Py_Hash
begin

text \<open>
  Length-prefixed framing of messages on a byte stream (\<open>ipc/framing.py\<close>) and the loops that read and
  write a frame on a pipe (\<open>ipc/win32_pipe_io.py\<close>: \<open>read_pipe_message\<close>, \<open>write_pipe_message\<close>). The
  parser and serializer of message bodies are arguments. The lemmas give the round trip, show that the
  decoder does not depend on how the stream is cut into chunks, and bound what it buffers.
\<close>

section \<open>Frames\<close>

definition length_prefix_size :: nat where "length_prefix_size = 4"
definition max_message_size :: nat where "max_message_size = 1048576"

lemma length_prefix [simp]: "length_prefix_size = 4"
  by (simp add: length_prefix_size_def)

datatype 'e frame_error =
    FrameTooLargeError nat nat
  | TruncatedFrameError nat nat
  | TrailingFrameDataError nat
  | PrefixOverflowError
  | MessageError 'e
  | PipeWriteError

text \<open>\<open>int.from_bytes(..., "big")\<close> and \<open>int.to_bytes(4, "big")\<close>; the latter overflows at $2^{32}$.\<close>

definition from_bytes :: "bytes \<Rightarrow> nat" where
  "from_bytes bs = foldl (\<lambda>n b. n * 256 + unat b) 0 bs"

definition frame_of :: "bytes \<Rightarrow> bytes" where
  "frame_of payload = be_bytes 4 (length payload) @ payload"

definition encode_frame :: "('m \<Rightarrow> bytes) \<Rightarrow> nat \<Rightarrow> 'm \<Rightarrow> 'e frame_error + bytes" where
  "encode_frame serialize max_size m =
     (let payload = serialize m in
      if length payload > max_size then Inl (FrameTooLargeError (length payload) max_size)
      else if 2 ^ 32 \<le> length payload then Inl PrefixOverflowError
      else Inr (frame_of payload))"

definition decode_frame :: "(bytes \<Rightarrow> 'e + 'm) \<Rightarrow> nat \<Rightarrow> bytes \<Rightarrow> 'e frame_error + 'm" where
  "decode_frame parse max_size frame =
     (if length frame < length_prefix_size then Inl (TruncatedFrameError length_prefix_size (length frame))
      else let body_size = from_bytes (take length_prefix_size frame);
               expected_size = length_prefix_size + body_size in
           if body_size > max_size then Inl (FrameTooLargeError body_size max_size)
           else if length frame < expected_size then Inl (TruncatedFrameError expected_size (length frame))
           else if length frame > expected_size then Inl (TrailingFrameDataError (length frame - expected_size))
           else mapErr MessageError (parse (drop length_prefix_size frame)))"

section \<open>Reading from and writing to a pipe\<close>

text \<open>The reader's state is arbitrary; a read may return fewer bytes than asked for, or none at the end.\<close>

function read_exact :: "('s \<Rightarrow> nat \<Rightarrow> bytes \<times> 's) \<Rightarrow> nat \<Rightarrow> bytes \<Rightarrow> 's \<Rightarrow> ('e frame_error + bytes) \<times> 's" where
  "read_exact read n chunks s =
     (if length chunks < n
      then (case read s (n - length chunks) of
              (chunk, s1) \<Rightarrow>
                if chunk = [] then (Inl (TruncatedFrameError n (length chunks)), s1)
                else read_exact read n (chunks @ chunk) s1)
      else (Inr chunks, s))"
  by pat_completeness auto

termination read_exact
  by (relation "measure (\<lambda>(read, n, chunks, s). n - length chunks)") (auto intro!: diff_less_mono2)

declare read_exact.simps [simp del]

definition read_frame :: "(bytes \<Rightarrow> 'e + 'm) \<Rightarrow> ('s \<Rightarrow> nat \<Rightarrow> bytes \<times> 's) \<Rightarrow> nat \<Rightarrow> 's \<Rightarrow>
    ('e frame_error + 'm) \<times> 's" where
  "read_frame parse read max_size s =
     (case read_exact read length_prefix_size [] s of
        (Inl e, s1) \<Rightarrow> (Inl e, s1)
      | (Inr prefix, s1) \<Rightarrow>
          (let body_size = from_bytes prefix in
           if body_size > max_size then (Inl (FrameTooLargeError body_size max_size), s1)
           else (case read_exact read body_size [] s1 of
                   (Inl e, s2) \<Rightarrow> (Inl e, s2)
                 | (Inr body, s2) \<Rightarrow> (mapErr MessageError (parse body), s2))))"

text \<open>One write takes some number of bytes from the front of what it is given.\<close>

function write_all :: "('s \<Rightarrow> bytes \<Rightarrow> nat \<times> 's) \<Rightarrow> bytes \<Rightarrow> nat \<Rightarrow> 's \<Rightarrow> 'e frame_error option \<times> 's" where
  "write_all write frame written s =
     (if written < length frame
      then (case write s (drop written frame) of
              (count, s1) \<Rightarrow>
                if count = 0 then (Some PipeWriteError, s1)
                else write_all write frame (written + count) s1)
      else (None, s))"
  by pat_completeness auto

termination write_all
  by (relation "measure (\<lambda>(write, frame, written, s). length frame - written)") auto

declare write_all.simps [simp del]

definition write_pipe_message :: "('m \<Rightarrow> bytes) \<Rightarrow> ('s \<Rightarrow> bytes \<Rightarrow> nat \<times> 's) \<Rightarrow> 'm \<Rightarrow> 's \<Rightarrow>
    'e frame_error option \<times> 's" where
  "write_pipe_message serialize write m s =
     (case encode_frame serialize max_message_size m of
        Inl e \<Rightarrow> (Some e, s)
      | Inr frame \<Rightarrow> write_all write frame 0 s)"

section \<open>The incremental decoder\<close>

record frame_decoder =
  fd_buffer :: bytes
  fd_max_message_size :: nat

definition make_decoder :: "nat \<Rightarrow> frame_decoder" where
  "make_decoder n = \<lparr>fd_buffer = [], fd_max_message_size = n\<rparr>"

text \<open>The loop of \<open>feed\<close>: the messages completed so far and the buffer it leaves.\<close>

function feed_loop :: "(bytes \<Rightarrow> 'e + 'm) \<Rightarrow> nat \<Rightarrow> bytes \<Rightarrow> 'm list \<Rightarrow> ('e frame_error + 'm list) \<times> bytes" where
  "feed_loop parse max_size buffer messages =
     (if length buffer \<ge> length_prefix_size
      then (let body_size = from_bytes (take length_prefix_size buffer);
                frame_size = length_prefix_size + body_size in
            if body_size > max_size then (Inl (FrameTooLargeError body_size max_size), [])
            else if length buffer < frame_size then (Inr messages, buffer)
            else (case decode_frame parse max_size (take frame_size buffer) of
                    Inl e \<Rightarrow> (Inl e, drop frame_size buffer)
                  | Inr m \<Rightarrow> feed_loop parse max_size (drop frame_size buffer) (messages @ [m])))
      else (Inr messages, buffer))"
  by pat_completeness auto

termination feed_loop
  by (relation "measure (\<lambda>(parse, max_size, buffer, messages). length buffer)") (auto simp: length_prefix_size_def)

declare feed_loop.simps [simp del]

definition feed :: "(bytes \<Rightarrow> 'e + 'm) \<Rightarrow> frame_decoder \<Rightarrow> bytes \<Rightarrow> ('e frame_error + 'm list) \<times> frame_decoder" where
  "feed parse d chunk =
     (case feed_loop parse (fd_max_message_size d) (fd_buffer d @ chunk) [] of
        (r, buffer) \<Rightarrow> (r, d\<lparr>fd_buffer := buffer\<rparr>))"

definition reset :: "frame_decoder \<Rightarrow> frame_decoder" where
  "reset d = d\<lparr>fd_buffer := []\<rparr>"

definition finish :: "frame_decoder \<Rightarrow> 'e frame_error option \<times> frame_decoder" where
  "finish d =
     (if fd_buffer d = [] then (None, d)
      else let received = length (fd_buffer d);
               expected = (if received \<ge> length_prefix_size
                           then length_prefix_size + from_bytes (take length_prefix_size (fd_buffer d))
                           else length_prefix_size)
           in (Some (TruncatedFrameError expected received), reset d))"

fun feed_all :: "(bytes \<Rightarrow> 'e + 'm) \<Rightarrow> frame_decoder \<Rightarrow> bytes list \<Rightarrow> ('e frame_error + 'm list) \<times> frame_decoder" where
  "feed_all parse d [] = (Inr [], d)"
| "feed_all parse d (c # cs) =
     (case feed parse d c of
        (Inl e, d1) \<Rightarrow> (Inl e, d1)
      | (Inr ms, d1) \<Rightarrow>
          (case feed_all parse d1 cs of
             (Inl e, d2) \<Rightarrow> (Inl e, d2)
           | (Inr ns, d2) \<Rightarrow> (Inr (ms @ ns), d2)))"

section \<open>Prefixes\<close>

lemma from_bytes_snoc: "from_bytes (bs @ [b]) = from_bytes bs * 256 + unat b"
  by (simp add: from_bytes_def)

lemma from_be_bytes: "n < 256 ^ k \<Longrightarrow> from_bytes (be_bytes k n) = n"
proof (induction k arbitrary: n)
  case (Suc k)
  have "n div 256 < 256 ^ k" using Suc.prems by (simp add: less_mult_imp_div_less mult.commute)
  then show ?case using Suc.IH by (simp add: from_bytes_snoc)
qed (simp add: from_bytes_def)

lemma length_be_bytes [simp]: "length (be_bytes k n) = k"
  by (induction k arbitrary: n) auto

lemma frame_parts:
  assumes "length p < 2 ^ 32"
  shows "length (frame_of p) = 4 + length p" "take 4 (frame_of p @ r) = be_bytes 4 (length p)"
    "from_bytes (take 4 (frame_of p @ r)) = length p" "drop 4 (frame_of p) = p"
    "take (4 + length p) (frame_of p @ r) = frame_of p" "drop (4 + length p) (frame_of p @ r) = r"
proof -
  show len: "length (frame_of p) = 4 + length p" by (simp add: frame_of_def)
  show t: "take 4 (frame_of p @ r) = be_bytes 4 (length p)"
    unfolding frame_of_def by (simp del: be_bytes.simps)
  show "from_bytes (take 4 (frame_of p @ r)) = length p"
    unfolding t by (rule from_be_bytes) (use assms in simp)
  show "drop 4 (frame_of p) = p" unfolding frame_of_def by (simp del: be_bytes.simps)
  show "take (4 + length p) (frame_of p @ r) = frame_of p" using len by simp
  show "drop (4 + length p) (frame_of p @ r) = r" using len by simp
qed

lemma decode_frame_of:
  assumes "length p < 2 ^ 32" "length p \<le> n"
  shows "decode_frame parse n (frame_of p) = mapErr MessageError (parse p)"
  using frame_parts(1,4) [OF assms(1)] frame_parts(3) [OF assms(1), of "[]"] assms(2)
  by (simp add: decode_frame_def Let_def)

section \<open>The decoder loop\<close>

text \<open>An incomplete frame: what the decoder keeps in its buffer between two chunks.\<close>

definition short :: "nat \<Rightarrow> bytes \<Rightarrow> bool" where
  "short n b \<longleftrightarrow> length b < 4 \<or> from_bytes (take 4 b) \<le> n \<and> length b < 4 + from_bytes (take 4 b)"

definition body_ok :: "nat \<Rightarrow> bytes \<Rightarrow> bool" where
  "body_ok n p \<longleftrightarrow> length p < 2 ^ 32 \<and> length p \<le> n"

definition frames :: "bytes list \<Rightarrow> bytes" where
  "frames ps = concat (map frame_of ps)"

lemma frames_simps [simp]: "frames [] = []" "frames (p # ps) = frame_of p @ frames ps"
  "frames (ps @ qs) = frames ps @ frames qs"
  by (simp_all add: frames_def)

lemma feed_loop_short: "short n b \<Longrightarrow> feed_loop parse n b acc = (Inr acc, b)"
  by (subst feed_loop.simps) (auto simp: short_def Let_def)

lemma feed_loop_frame:
  assumes "body_ok n p" "parse p = Inr m"
  shows "feed_loop parse n (frame_of p @ b) acc = feed_loop parse n b (acc @ [m])"
proof -
  have p: "length p < 2 ^ 32" "length p \<le> n" using assms(1) by (auto simp: body_ok_def)
  show ?thesis
    using frame_parts(1) [OF p(1)] frame_parts(3,5,6) [OF p(1), of b] decode_frame_of [OF p, of parse] p(2) assms(2)
    by (subst feed_loop.simps) (simp add: Let_def)
qed

lemma feed_loop_frames:
  "list_all (body_ok n) ps \<Longrightarrow> list_all2 (\<lambda>p m. parse p = Inr m) ps ms \<Longrightarrow> short n q \<Longrightarrow>
   feed_loop parse n (frames ps @ q) acc = (Inr (acc @ ms), q)"
proof (induction ps arbitrary: ms acc)
  case (Cons p ps)
  then obtain m ns where m: "ms = m # ns" "parse p = Inr m" "list_all2 (\<lambda>p m. parse p = Inr m) ps ns"
    by (auto simp: list_all2_Cons1)
  have "feed_loop parse n (frames (p # ps) @ q) acc = feed_loop parse n (frames ps @ q) (acc @ [m])"
    using feed_loop_frame [of n p parse m "frames ps @ q" acc] m(2) Cons.prems(1) by simp
  then show ?case using Cons.IH [OF _ m(3) Cons.prems(3), of "acc @ [m]"] Cons.prems(1) m(1) by simp
qed (simp add: feed_loop_short)

text \<open>Every prefix of a stream of frames is a stream of frames and an incomplete one.\<close>

lemma frames_prefix:
  "list_all (body_ok n) ps \<Longrightarrow> short n q \<Longrightarrow> frames ps @ q = b1 @ b2 \<Longrightarrow>
   \<exists>ps1 ps2 q1. ps = ps1 @ ps2 \<and> b1 = frames ps1 @ q1 \<and> short n q1"
proof (induction ps arbitrary: b1)
  case Nil
  then have "b1 = take (length b1) q" by simp
  then have "short n b1"
    using Nil.prems(2,3) unfolding short_def by (cases "length b1 < 4") auto
  then show ?case by auto
next
  case (Cons p ps)
  have p: "body_ok n p" using Cons.prems(1) by simp
  then have len: "length (frame_of p) = 4 + length p" using frame_parts(1) by (simp add: body_ok_def)
  have eq: "frame_of p @ (frames ps @ q) = b1 @ b2" using Cons.prems(3) by simp
  show ?case
  proof (cases "length (frame_of p) \<le> length b1")
    case True
    then have "take (length (frame_of p)) b1 = frame_of p"
      using arg_cong [OF eq, of "take (length (frame_of p))"] by simp
    then obtain e where e: "b1 = frame_of p @ e" by (metis append_take_drop_id)
    moreover have "frames ps @ q = e @ b2" using eq e by simp
    ultimately obtain ps1 ps2 q1 where ih: "ps = ps1 @ ps2" "e = frames ps1 @ q1" "short n q1"
      using Cons.IH [of e] Cons.prems(1,2) by auto
    show ?thesis
      by (rule exI [of _ "p # ps1"], rule exI [of _ ps2], rule exI [of _ q1]) (use ih e in simp)
  next
    case False
    then have "take (length b1) (frame_of p) = b1"
      using arg_cong [OF eq, of "take (length b1)"] by simp
    then obtain e where e: "frame_of p = b1 @ e" by (metis append_take_drop_id)
    have "short n b1"
    proof (cases "length b1 < 4")
      case False
      then have "take 4 b1 = take 4 (frame_of p @ [])" using e by simp
      then have "from_bytes (take 4 b1) = length p" using frame_parts(3) [of p "[]"] p by (simp add: body_ok_def)
      then show ?thesis using \<open>\<not> length (frame_of p) \<le> length b1\<close> len p by (simp add: short_def body_ok_def)
    qed (simp add: short_def)
    then have "p # ps = [] @ (p # ps) \<and> b1 = frames [] @ b1 \<and> short n b1" by simp
    then show ?thesis by blast
  qed
qed

lemma feed_all_frames:
  "short (fd_max_message_size d) (fd_buffer d) \<Longrightarrow> list_all (body_ok (fd_max_message_size d)) ps \<Longrightarrow>
   list_all2 (\<lambda>p m. parse p = Inr m) ps ms \<Longrightarrow> short (fd_max_message_size d) q \<Longrightarrow>
   fd_buffer d @ concat cs = frames ps @ q \<Longrightarrow> feed_all parse d cs = (Inr ms, d\<lparr>fd_buffer := q\<rparr>)"
proof (induction cs arbitrary: d ps ms)
  case Nil
  let ?n = "fd_max_message_size d"
  have "feed_loop parse ?n (fd_buffer d) [] = (Inr ms, q)"
    using feed_loop_frames [OF Nil.prems(2-4), of "[]"] Nil.prems(5) by simp
  then have "ms = [] \<and> q = fd_buffer d" using feed_loop_short [OF Nil.prems(1), of parse "[]"] by simp
  then show ?case by simp
next
  case (Cons c cs)
  let ?n = "fd_max_message_size d"
  have eq: "frames ps @ q = (fd_buffer d @ c) @ concat cs" using Cons.prems(5) by simp
  obtain ps1 ps2 q1 where sp: "ps = ps1 @ ps2" "fd_buffer d @ c = frames ps1 @ q1" "short ?n q1"
    using frames_prefix [OF Cons.prems(2,4) eq] by blast
  obtain ms1 ms2 where ms: "ms = ms1 @ ms2" "list_all2 (\<lambda>p m. parse p = Inr m) ps1 ms1"
      "list_all2 (\<lambda>p m. parse p = Inr m) ps2 ms2"
    using Cons.prems(3) sp(1) by (auto simp: list_all2_append1)
  have all: "list_all (body_ok ?n) ps1" "list_all (body_ok ?n) ps2" using Cons.prems(2) sp(1) by auto
  have step: "feed parse d c = (Inr ms1, d\<lparr>fd_buffer := q1\<rparr>)"
    using feed_loop_frames [OF all(1) ms(2) sp(3), of "[]"] sp(2) by (simp add: feed_def)
  have "feed_all parse (d\<lparr>fd_buffer := q1\<rparr>) cs = (Inr ms2, d\<lparr>fd_buffer := q\<rparr>)"
    using Cons.IH [of "d\<lparr>fd_buffer := q1\<rparr>" ps2 ms2] sp all ms(3) Cons.prems(4) eq by simp
  then show ?case using step ms(1) by simp
qed

lemma feed_loop_buffer:
  "feed_loop parse n b acc = (r, q) \<Longrightarrow>
   (case r of Inr _ \<Rightarrow> short n q | Inl (FrameTooLargeError _ _) \<Rightarrow> q = [] | Inl (MessageError _) \<Rightarrow> length q \<le> length b | Inl _ \<Rightarrow> False)"
proof (induction parse n b acc rule: feed_loop.induct)
  case (1 parse n b acc)
  let ?f = "4 + from_bytes (take 4 b)"
  show ?case
  proof (cases "4 \<le> length b \<and> ?f \<le> length b \<and> from_bytes (take 4 b) \<le> n")
    case True
    then have dec: "decode_frame parse n (take ?f b) = mapErr MessageError (parse (drop 4 (take ?f b)))"
      by (simp add: decode_frame_def Let_def min_absorb1 min_absorb2)
    show ?thesis
    proof (cases "parse (drop 4 (take ?f b))")
      case (Inl e)
      then have "r = Inl (MessageError e) \<and> q = drop ?f b"
        using "1.prems" True dec by (subst (asm) feed_loop.simps) (simp add: Let_def)
      then show ?thesis by simp
    next
      case (Inr m)
      then have rest: "feed_loop parse n (drop ?f b) (acc @ [m]) = (r, q)"
        using "1.prems" True dec by (subst (asm) feed_loop.simps) (simp add: Let_def)
      have "case r of Inr _ \<Rightarrow> short n q | Inl (FrameTooLargeError _ _) \<Rightarrow> q = []
          | Inl (MessageError _) \<Rightarrow> length q \<le> length (drop ?f b) | Inl _ \<Rightarrow> False"
        by (rule "1.IH" [where x = "from_bytes (take 4 b)" and xa = ?f and b = m])
          (use True dec Inr rest in auto)
      then show ?thesis by (auto split: sum.splits frame_error.splits)
    qed
  next
    case False
    then show ?thesis
      using "1.prems" by (subst (asm) feed_loop.simps) (auto simp: Let_def short_def split: if_splits)
  qed
qed

section \<open>The pipe loops\<close>

text \<open>
  What the code relies on of the two ends of a pipe: a read of \<open>n\<close> bytes yields some non-empty part of
  what is left, at most \<open>n\<close>, and nothing at the end; a write takes a part of what it is given.
\<close>

definition reader_ok :: "('s \<Rightarrow> nat \<Rightarrow> bytes \<times> 's) \<Rightarrow> ('s \<Rightarrow> bytes) \<Rightarrow> bool" where
  "reader_ok read content \<longleftrightarrow>
     (\<forall>s n. 0 < n \<longrightarrow> (\<exists>k s'. read s n = (take k (content s), s') \<and> content s' = drop k (content s) \<and>
        0 < k \<and> k \<le> n))"

definition writer_ok :: "('s \<Rightarrow> bytes \<Rightarrow> nat \<times> 's) \<Rightarrow> ('s \<Rightarrow> bytes) \<Rightarrow> bool" where
  "writer_ok write sent \<longleftrightarrow>
     (\<forall>s b. \<exists>k s'. write s b = (k, s') \<and> k \<le> length b \<and> sent s' = sent s @ take k b)"

lemma read_exact_reads:
  "reader_ok read content \<Longrightarrow> length chunks \<le> n \<Longrightarrow>
   (if n - length chunks \<le> length (content s)
    then \<exists>s'. read_exact read n chunks s = (Inr (chunks @ take (n - length chunks) (content s)), s') \<and>
           content s' = drop (n - length chunks) (content s)
    else \<exists>s'. read_exact read n chunks s = (Inl (TruncatedFrameError n (length chunks + length (content s))), s'))"
proof (induction read n chunks s rule: read_exact.induct)
  case (1 read n chunks s)
  show ?case
  proof (cases "length chunks < n")
    case True
    obtain k s1 where r: "read s (n - length chunks) = (take k (content s), s1)"
        "content s1 = drop k (content s)" "0 < k" "k \<le> n - length chunks"
      using "1.prems"(1) True unfolding reader_ok_def by (metis zero_less_diff)
    show ?thesis
    proof (cases "content s = []")
      case True
      then show ?thesis using r \<open>length chunks < n\<close> by (subst (1 2) read_exact.simps) auto
    next
      case False
      then have ne: "take k (content s) \<noteq> []" using r(3) by simp
      let ?c = "chunks @ take k (content s)"
      have step: "read_exact read n chunks s = read_exact read n ?c s1"
        using r(1) ne True by (subst read_exact.simps) simp
      have lc: "length ?c \<le> n" using r(4) True by simp
      note ih = "1.IH" [OF True r(1) [symmetric] ne "1.prems"(1) lc]
      show ?thesis
      proof (cases "k \<le> length (content s)")
        case True
        have e: "n - length ?c = n - length chunks - k" using True by simp
        have t: "take k (content s) @ take (n - length chunks - k) (drop k (content s)) =
            take (n - length chunks) (content s)"
          using r(4) by (metis le_add_diff_inverse take_add)
        have d: "drop (n - length chunks - k) (drop k (content s)) = drop (n - length chunks) (content s)"
          using r(4) \<open>length chunks < n\<close> by simp
        have b: "n - length chunks - k \<le> length (drop k (content s)) \<longleftrightarrow> n - length chunks \<le> length (content s)"
          using r(4) True by auto
        have l: "length ?c + length (drop k (content s)) = length chunks + length (content s)" using True by simp
        show ?thesis using ih unfolding step e r(2) b l append_assoc t d .
      next
        case F: False
        then have "content s1 = []" "take k (content s) = content s" using r(2) by auto
        moreover have "\<not> n - length chunks \<le> length (content s)" using F r(4) by simp
        ultimately show ?thesis using ih unfolding step by (auto split: if_splits)
      qed
    qed
  next
    case False
    then show ?thesis using "1.prems"(2) by (subst (1 2) read_exact.simps) auto
  qed
qed

lemma write_all_writes:
  "writer_ok wr sent \<Longrightarrow> j \<le> length frame \<Longrightarrow>
   \<exists>i r s'. write_all wr frame j s = (r :: 'e frame_error option, s') \<and> sent s' = sent s @ take i (drop j frame) \<and>
     (r = None \<and> j + i = length frame \<or> r = Some PipeWriteError)"
proof (induction wr frame j s rule: write_all.induct)
  case (1 wr frame j s)
  show ?case
  proof (cases "j < length frame")
    case True
    obtain k s1 where w: "wr s (drop j frame) = (k, s1)" "k \<le> length (drop j frame)"
        "sent s1 = sent s @ take k (drop j frame)"
      using "1.prems"(1) unfolding writer_ok_def by blast
    show ?thesis
    proof (cases "k = 0")
      case True
      then have "write_all wr frame j s = (Some PipeWriteError, s1) \<and> sent s1 = sent s @ take 0 (drop j frame)"
        using w \<open>j < length frame\<close> by (subst write_all.simps) simp
      then show ?thesis by blast
    next
      case False
      have jk: "j + k \<le> length frame" using w(2) True by simp
      obtain i s' and r :: "'e frame_error option" where ih: "write_all wr frame (j + k) s1 = (r, s')"
          "sent s' = sent s1 @ take i (drop (j + k) frame)"
          "r = None \<and> j + k + i = length frame \<or> r = Some PipeWriteError"
        using "1.IH" [OF True w(1) [symmetric] False "1.prems"(1) jk] by blast
      have "take k (drop j frame) @ take i (drop (j + k) frame) = take (k + i) (drop j frame)"
        by (simp add: take_add drop_drop add.commute [of k j] del: take_append)
      then have "sent s' = sent s @ take (k + i) (drop j frame)" using ih(2) w(3) by simp
      moreover have "write_all wr frame j s = (r, s')"
        using ih(1) w(1) False True by (subst write_all.simps) simp
      ultimately show ?thesis
        using ih(3) by (intro exI [of _ "k + i"] exI [of _ r] exI [of _ s']) (simp add: add.assoc)
    qed
  next
    case False
    then have "write_all wr frame j s = (None, s) \<and> sent s = sent s @ take 0 (drop j frame) \<and> j + 0 = length frame"
      using "1.prems"(2) by (subst write_all.simps) simp
    then show ?thesis by blast
  qed
qed

lemma read_frame_reads:
  fixes parse :: "bytes \<Rightarrow> 'e + 'm"
  assumes "reader_ok read content" "content s = frame_of p @ rest" "body_ok n p" "parse p = Inr m"
  shows "\<exists>s'. read_frame parse read n s = (Inr m, s') \<and> content s' = rest"
proof -
  have p: "length p < 2 ^ 32" "length p \<le> n" using assms(3) by (auto simp: body_ok_def)
  have len: "4 \<le> length (content s)" "content s = be_bytes 4 (length p) @ p @ rest"
    using assms(2) frame_parts(1) [OF p(1)] by (simp_all add: frame_of_def del: be_bytes.simps)
  obtain s1 where s1: "read_exact read 4 [] s = (Inr (be_bytes 4 (length p)) :: 'e frame_error + bytes, s1)" "content s1 = p @ rest"
    using read_exact_reads [OF assms(1), of "[]" 4 s] len by (auto simp del: be_bytes.simps)
  obtain s2 where s2: "read_exact read (length p) [] s1 = (Inr p :: 'e frame_error + bytes, s2)" "content s2 = rest"
    using read_exact_reads [OF assms(1), of "[]" "length p" s1] s1(2) by auto
  have "from_bytes (be_bytes 4 (length p)) = length p"
    by (rule from_be_bytes) (use p(1) in simp)
  then have "read_frame parse read n s = (Inr m, s2)"
    using s1(1) s2(1) assms(4) p(2) by (simp add: read_frame_def Let_def del: be_bytes.simps)
  then show ?thesis using s2(2) by blast
qed

section \<open>Transport of messages\<close>

text \<open>
  C11: The decoder does not depend on how the stream is cut: whatever chunks a stream of well-sized
  frames and a last incomplete frame arrives in, feeding the chunks to a fresh decoder yields exactly
  the messages of the frames, in order, and keeps exactly the incomplete frame; closing the
  connection then reports a truncated frame precisely when something is left.
\<close>

theorem decoder_ignores_chunking:
  assumes "list_all (body_ok n) ps" "list_all2 (\<lambda>p m. parse p = Inr m) ps ms"
    "short n q" "concat chunks = frames ps @ q"
  shows "feed_all parse (make_decoder n) chunks = (Inr ms, (make_decoder n)\<lparr>fd_buffer := q\<rparr>) \<and>
    (fst (finish ((make_decoder n)\<lparr>fd_buffer := q\<rparr>)) = (None :: 'e frame_error option) \<longleftrightarrow> q = [])"
proof
  show "feed_all parse (make_decoder n) chunks = (Inr ms, (make_decoder n)\<lparr>fd_buffer := q\<rparr>)"
    by (rule feed_all_frames [of _ ps]) (use assms in \<open>auto simp: make_decoder_def short_def\<close>)
  show "fst (finish ((make_decoder n)\<lparr>fd_buffer := q\<rparr>)) = (None :: 'e frame_error option) \<longleftrightarrow> q = []"
    by (simp add: finish_def Let_def)
qed

text \<open>
  No peer can make the decoder buffer without bound: whatever bytes are fed, after a successful
  feed the buffer holds less than one frame of maximal size and cannot hold a complete one; a frame
  declared too large empties the buffer; no other error than that and a body that does not parse can
  occur, and after the latter the decoder keeps only bytes it was given.
\<close>

theorem decoder_buffer_is_bounded:
  assumes "feed parse d chunk = (r, d')"
  shows "fd_max_message_size d' = fd_max_message_size d \<and>
    (case r of
       Inr _ \<Rightarrow> length (fd_buffer d') < 4 + fd_max_message_size d \<and> short (fd_max_message_size d) (fd_buffer d')
     | Inl (FrameTooLargeError _ _) \<Rightarrow> fd_buffer d' = []
     | Inl (MessageError _) \<Rightarrow> length (fd_buffer d') \<le> length (fd_buffer d) + length chunk
     | Inl _ \<Rightarrow> False)"
proof -
  obtain q where q: "feed_loop parse (fd_max_message_size d) (fd_buffer d @ chunk) [] = (r, q)"
      "d' = d\<lparr>fd_buffer := q\<rparr>"
    using assms by (auto simp: feed_def split: prod.splits)
  have "short n b \<Longrightarrow> length b < 4 + n" for n b by (auto simp: short_def)
  then show ?thesis
    using feed_loop_buffer [OF q(1)] q(2) by (auto split: sum.splits frame_error.splits)
qed

text \<open>
  C12: A message written to a pipe is the message read at the other end: when the frame fits the limit,
  the write loop either transfers the whole frame or fails with the write error after a prefix of it;
  and whatever partial reads the pipe returns, reading a frame from a stream that starts with the
  encoded message returns the message and leaves exactly the rest of the stream. The hypotheses on the
  two ends of the pipe are what Win32 documents of partial reads and writes; \<open>parse (ser m) = Inr m\<close> is
  the schema library's round trip for this message.
\<close>

theorem pipe_transfers_message:
  fixes parse :: "bytes \<Rightarrow> 'e + 'm"
  assumes "length (ser m) \<le> max_message_size" "parse (ser m) = Inr m"
    "writer_ok write sent" "reader_ok read content"
  shows "(\<exists>r s'. write_pipe_message ser write m s = (r :: 'e frame_error option, s') \<and>
      (r = None \<and> sent s' = sent s @ frame_of (ser m) \<or>
       r = Some PipeWriteError \<and> (\<exists>i. sent s' = sent s @ take i (frame_of (ser m))))) \<and>
    (content t = frame_of (ser m) @ rest \<longrightarrow>
       (\<exists>t'. read_frame parse read max_message_size t = (Inr m, t') \<and> content t' = rest)) \<and>
    decode_frame parse max_message_size (frame_of (ser m)) = Inr m"
proof (intro conjI impI)
  have ok: "body_ok max_message_size (ser m)" using assms(1) by (simp add: body_ok_def max_message_size_def)
  then have enc: "encode_frame ser max_message_size m = (Inr (frame_of (ser m)) :: 'e frame_error + bytes)"
    by (auto simp: encode_frame_def body_ok_def Let_def)
  obtain i s' and r :: "'e frame_error option" where w: "write_all write (frame_of (ser m)) 0 s = (r, s')"
      "sent s' = sent s @ take i (frame_of (ser m))"
      "r = None \<and> 0 + i = length (frame_of (ser m)) \<or> r = Some PipeWriteError"
    using write_all_writes [OF assms(3), of 0 "frame_of (ser m)" s] by auto
  then show "\<exists>r s'. write_pipe_message ser write m s = (r :: 'e frame_error option, s') \<and>
      (r = None \<and> sent s' = sent s @ frame_of (ser m) \<or>
       r = Some PipeWriteError \<and> (\<exists>i. sent s' = sent s @ take i (frame_of (ser m))))"
    using enc by (intro exI [of _ r] exI [of _ s']) (auto simp: write_pipe_message_def)
  show "decode_frame parse max_message_size (frame_of (ser m)) = Inr m"
    using decode_frame_of [of "ser m" max_message_size parse] ok assms(2) by (simp add: body_ok_def)
  show "\<exists>t'. read_frame parse read max_message_size t = (Inr m, t') \<and> content t' = rest"
    if "content t = frame_of (ser m) @ rest"
    by (rule read_frame_reads [of read content t "ser m" rest max_message_size parse m, OF assms(4) that ok assms(2)])
qed

subsection \<open>Concrete streams\<close>

definition trivial_parse :: "bytes \<Rightarrow> nat + bytes" where
  "trivial_parse b = Inr b"

definition one_byte_read :: "bytes \<Rightarrow> nat \<Rightarrow> bytes \<times> bytes" where
  "one_byte_read s n = (take 1 s, drop 1 s)"

definition two_byte_write :: "bytes \<Rightarrow> bytes \<Rightarrow> nat \<times> bytes" where
  "two_byte_write s b = (min 2 (length b), s @ take 2 b)"

lemma decoder_ignores_chunking_witness:
  "feed_all trivial_parse (make_decoder 8) [[0, 0], [0, 1, 65, 0, 0, 0], [2, 66]] =
     (Inr [[65]], (make_decoder 8)\<lparr>fd_buffer := [0, 0, 0, 2, 66]\<rparr>)"
proof -
  have m: "mkb 0 = 0" "mkb 1 = 1" by (simp_all add: mkb_def)
  have "from_bytes [0, 0, 0, 2] = 2" by (simp add: from_bytes_def)
  then have s: "short 8 [0, 0, 0, 2, 66]" by (simp add: short_def)
  have four: "(4 :: nat) = Suc (Suc (Suc (Suc 0)))" by simp
  have f: "frames [[65]] = [0, 0, 0, 1, 65]" unfolding frames_simps frame_of_def four using m by simp
  show ?thesis
    by (rule decoder_ignores_chunking [of 8 "[[65]]" trivial_parse "[[65]]" "[0, 0, 0, 2, 66]", THEN conjunct1])
      (use s in \<open>simp_all add: f body_ok_def trivial_parse_def del: frames_simps\<close>)
qed

lemma decoder_buffer_is_bounded_witness:
  "\<exists>r d'. feed trivial_parse (make_decoder 8) [1, 2, 3] = (r, d') \<and> fd_max_message_size d' = 8"
proof -
  obtain r d' where f: "feed trivial_parse (make_decoder 8) [1, 2, 3] = (r, d')" by fastforce
  then show ?thesis using decoder_buffer_is_bounded [OF f] by (simp add: make_decoder_def)
qed

lemma pipe_transfers_message_witness:
  "\<exists>t'. read_frame trivial_parse one_byte_read max_message_size (frame_of [65, 66] @ [7]) = (Inr [65, 66], t') \<and> t' = [7]"
proof -
  have w: "writer_ok two_byte_write (\<lambda>s. s)"
    unfolding writer_ok_def two_byte_write_def
    by (auto simp: min_def)
  have r: "reader_ok one_byte_read (\<lambda>s. s)"
    unfolding reader_ok_def one_byte_read_def by (auto intro!: exI [of _ "1 :: nat"])
  show ?thesis
    using pipe_transfers_message [OF _ _ w r, of id "[65, 66]" trivial_parse "[]" "frame_of [65, 66] @ [7]" "[7]",
        THEN conjunct2, THEN conjunct1]
    by (simp add: trivial_parse_def max_message_size_def)
qed

end
