(* ===== verification/Pipe_Client.thy ===== *)
theory Pipe_Client
  imports Exchange Framing
begin

text \<open>
  The single-exchange client (\<open>worker/ipc_client.py\<close>: \<open>NamedPipeIpcClient\<close>, \<open>ExchangeAttempt\<close> and the
  classification of Win32 errors). The exchange and a concurrent cancellation both want to close the
  pipe handle; the lemmas show that no handle is closed twice and which path leaves one open.
\<close>

section \<open>Errors\<close>

text \<open>\<open>_raise_endpoint_error\<close> on the Win32 code of an error.\<close>

definition endpoint_error_of :: "int option \<Rightarrow> exchange_error" where
  "endpoint_error_of code =
     (case code of
        None \<Rightarrow> EndpointIoError None
      | Some c \<Rightarrow>
          if c \<in> {2, 109, 231, 232} then EndpointDisconnectedError
          else if c \<in> {121} then EndpointTimeoutError
          else if c \<in> {6, 995} then EndpointCancelledError
          else EndpointIoError (Some c))"

section \<open>One attempt\<close>

datatype attempt_error = AttemptExchange exchange_error | AttemptProtocol protocol_error

text \<open>
  \<open>ExchangeAttempt.run\<close>: the flag is read before the exchange (\<open>before\<close>) and after it (\<open>after\<close>); the
  exchange itself is the client's, and returns any message or raises.
\<close>

definition attempt_run ::
  "(ipc_message \<Rightarrow> bytes) \<Rightarrow> uuid \<Rightarrow> bool \<Rightarrow> bool \<Rightarrow> ('w \<Rightarrow> (exchange_error + ipc_message) \<times> 'w) \<Rightarrow> 'w \<Rightarrow>
   (attempt_error + bytes) \<times> 'w" where
  "attempt_run serialize rid before after client w =
     (if before then (Inl (AttemptExchange AbandonedExchangeError), w)
      else (case client w of
              (Inl e, w1) \<Rightarrow> (Inl (AttemptExchange e), w1)
            | (Inr m, w1) \<Rightarrow>
                (case correlate_response rid m of
                   Inl e \<Rightarrow> (Inl (AttemptProtocol e), w1)
                 | Inr r \<Rightarrow>
                     if after then (Inl (AttemptExchange AbandonedExchangeError), w1)
                     else (Inr (serialize (ResponseMsg r)), w1))))"

section \<open>Handles\<close>

datatype client_phase =
    ClientIdle
  | Connected uuid nat
  | Active uuid nat
  | Closing nat

record pipe_client =
  pcl_active :: "(uuid \<times> nat) option"
  pcl_cancelling :: "nat list"
  pcl_opened :: "nat list"
  pcl_closed :: "nat list"
  pcl_leaked :: "nat list"

definition new_client :: pipe_client where
  "new_client = \<lparr>pcl_active = None, pcl_cancelling = [], pcl_opened = [], pcl_closed = [], pcl_leaked = []\<rparr>"

text \<open>The atomic steps of the exchange.\<close>

definition client_connect :: "uuid \<Rightarrow> nat \<Rightarrow> pipe_client \<Rightarrow> client_phase \<times> pipe_client" where
  "client_connect rid h c = (Connected rid h, c\<lparr>pcl_opened := h # pcl_opened c\<rparr>)"

definition client_publish :: "uuid \<Rightarrow> nat \<Rightarrow> bool \<Rightarrow> pipe_client \<Rightarrow> client_phase \<times> pipe_client" where
  "client_publish rid h abandoned c =
     (if abandoned then (ClientIdle, c\<lparr>pcl_closed := h # pcl_closed c\<rparr>)
      else (Active rid h, c\<lparr>pcl_active := Some (rid, h)\<rparr>))"

text \<open>\<open>_release\<close>: only the exchange that is still registered closes its handle, outside the lock.\<close>

definition client_release :: "uuid \<Rightarrow> nat \<Rightarrow> pipe_client \<Rightarrow> client_phase \<times> pipe_client" where
  "client_release rid h c =
     (if pcl_active c \<noteq> Some (rid, h) then (ClientIdle, c) else (Closing h, c\<lparr>pcl_active := None\<rparr>))"

definition client_close :: "nat \<Rightarrow> pipe_client \<Rightarrow> client_phase \<times> pipe_client" where
  "client_close h c = (ClientIdle, c\<lparr>pcl_closed := h # pcl_closed c\<rparr>)"

text \<open>\<open>cancel\<close>: take the active exchange under the lock, then stop its I/O and close its handle.\<close>

definition cancel_take :: "uuid \<Rightarrow> pipe_client \<Rightarrow> bool \<times> pipe_client" where
  "cancel_take rid c =
     (case pcl_active c of
        None \<Rightarrow> (False, c)
      | Some (i, h) \<Rightarrow>
          if i \<noteq> rid then (False, c)
          else (True, c\<lparr>pcl_active := None, pcl_cancelling := h # pcl_cancelling c\<rparr>))"

definition cancel_finish :: "nat \<Rightarrow> bool \<Rightarrow> pipe_client \<Rightarrow> pipe_client" where
  "cancel_finish h io_cancelled c =
     (if io_cancelled
      then c\<lparr>pcl_cancelling := remove1 h (pcl_cancelling c), pcl_closed := h # pcl_closed c\<rparr>
      else c\<lparr>pcl_cancelling := remove1 h (pcl_cancelling c), pcl_leaked := h # pcl_leaked c\<rparr>)"

inductive client_run :: "client_phase \<Rightarrow> pipe_client \<Rightarrow> bool" where
  start: "client_run ClientIdle new_client"
| connect: "client_run ClientIdle c \<Longrightarrow> h \<notin> set (pcl_opened c) \<Longrightarrow> client_connect rid h c = (p, c') \<Longrightarrow> client_run p c'"
| publish: "client_run (Connected rid h) c \<Longrightarrow> client_publish rid h abandoned c = (p, c') \<Longrightarrow> client_run p c'"
| release: "client_run (Active rid h) c \<Longrightarrow> client_release rid h c = (p, c') \<Longrightarrow> client_run p c'"
| close_handle: "client_run (Closing h) c \<Longrightarrow> client_close h c = (p, c') \<Longrightarrow> client_run p c'"
| cancel: "client_run p c \<Longrightarrow> cancel_take rid c = (b, c') \<Longrightarrow> client_run p c'"
| finish_cancel: "client_run p c \<Longrightarrow> h \<in> set (pcl_cancelling c) \<Longrightarrow> client_run p (cancel_finish h ok c)"

definition phase_handles :: "client_phase \<Rightarrow> pipe_client \<Rightarrow> nat list" where
  "phase_handles p c =
     (case p of
        ClientIdle \<Rightarrow> []
      | Connected i h \<Rightarrow> [h]
      | Active i h \<Rightarrow> if pcl_active c = Some (i, h) then [h] else []
      | Closing h \<Rightarrow> [h])"

definition held :: "client_phase \<Rightarrow> pipe_client \<Rightarrow> nat list" where
  "held p c = phase_handles p c @ pcl_cancelling c @ pcl_closed c @ pcl_leaked c"

definition client_inv :: "client_phase \<Rightarrow> pipe_client \<Rightarrow> bool" where
  "client_inv p c \<longleftrightarrow>
     distinct (held p c) \<and> set (held p c) = set (pcl_opened c) \<and>
     (\<forall>i h. pcl_active c = Some (i, h) \<longrightarrow> p = Active i h)"

lemma move_handle:
  assumes "distinct (A @ B @ C @ D)" "h \<in> set B"
  shows "distinct (A @ remove1 h B @ (h # C) @ D) \<and> set (A @ remove1 h B @ (h # C) @ D) = set (A @ B @ C @ D)"
    "distinct (A @ remove1 h B @ C @ (h # D)) \<and> set (A @ remove1 h B @ C @ (h # D)) = set (A @ B @ C @ D)"
proof -
  have s: "set (remove1 h B) = set B - {h}" using assms(1) by simp
  show "distinct (A @ remove1 h B @ (h # C) @ D) \<and> set (A @ remove1 h B @ (h # C) @ D) = set (A @ B @ C @ D)"
    using assms by (simp add: s) blast
  show "distinct (A @ remove1 h B @ C @ (h # D)) \<and> set (A @ remove1 h B @ C @ (h # D)) = set (A @ B @ C @ D)"
    using assms by (simp add: s) blast
qed

lemma client_run_inv: "client_run p c \<Longrightarrow> client_inv p c"
proof (induction rule: client_run.induct)
  case start
  then show ?case by (simp add: client_inv_def held_def phase_handles_def new_client_def)
next
  case (connect c h rid p c')
  have eq: "p = Connected rid h" "c' = c\<lparr>pcl_opened := h # pcl_opened c\<rparr>"
    using connect.hyps(3) by (simp_all add: client_connect_def)
  have n: "pcl_active c = None" using connect.IH by (cases "pcl_active c") (auto simp: client_inv_def)
  show ?case
    using connect.IH connect.hyps(2) n unfolding eq by (simp add: client_inv_def held_def phase_handles_def)
next
  case (publish rid h c abandoned p c')
  have n: "pcl_active c = None" using publish.IH by (cases "pcl_active c") (auto simp: client_inv_def)
  show ?case
  proof (cases abandoned)
    case True
    then have eq: "p = ClientIdle" "c' = c\<lparr>pcl_closed := h # pcl_closed c\<rparr>"
      using publish.hyps(2) by (simp_all add: client_publish_def)
    show ?thesis using publish.IH n unfolding eq by (simp add: client_inv_def held_def phase_handles_def insert_commute)
  next
    case False
    then have eq: "p = Active rid h" "c' = c\<lparr>pcl_active := Some (rid, h)\<rparr>"
      using publish.hyps(2) by (simp_all add: client_publish_def)
    show ?thesis using publish.IH n unfolding eq by (simp add: client_inv_def held_def phase_handles_def)
  qed
next
  case (release rid h c p c')
  show ?case
  proof (cases "pcl_active c = Some (rid, h)")
    case True
    then have eq: "p = Closing h" "c' = c\<lparr>pcl_active := None\<rparr>"
      using release.hyps(2) by (simp_all add: client_release_def)
    show ?thesis using release.IH True unfolding eq by (simp add: client_inv_def held_def phase_handles_def)
  next
    case False
    then have eq: "p = ClientIdle" "c' = c" using release.hyps(2) by (simp_all add: client_release_def)
    have "pcl_active c = None"
      using release.IH False by (cases "pcl_active c") (auto simp: client_inv_def)
    then show ?thesis using release.IH False unfolding eq by (simp add: client_inv_def held_def phase_handles_def)
  qed
next
  case (close_handle h c p c')
  have eq: "p = ClientIdle" "c' = c\<lparr>pcl_closed := h # pcl_closed c\<rparr>"
    using close_handle.hyps(2) by (simp_all add: client_close_def)
  have n: "pcl_active c = None" using close_handle.IH by (cases "pcl_active c") (auto simp: client_inv_def)
  show ?case
    using close_handle.IH n unfolding eq by (simp add: client_inv_def held_def phase_handles_def insert_commute)
next
  case (cancel p c rid b c')
  show ?case
  proof (cases "b")
    case True
    obtain h where h: "pcl_active c = Some (rid, h)" "p = Active rid h"
        "c' = c\<lparr>pcl_active := None, pcl_cancelling := h # pcl_cancelling c\<rparr>"
      using True cancel.hyps(2) cancel.IH by (auto simp: cancel_take_def client_inv_def split: option.splits if_splits)
    show ?thesis
      using cancel.IH h(1) unfolding h(2,3) by (simp add: client_inv_def held_def phase_handles_def)
  next
    case False
    then have "c' = c" using cancel.hyps(2) by (auto simp: cancel_take_def split: option.splits if_splits)
    then show ?thesis using cancel.IH by simp
  qed
next
  case (finish_cancel p c h ok)
  have ph: "phase_handles p (cancel_finish h ok c) = phase_handles p c"
    by (auto simp: phase_handles_def cancel_finish_def split: client_phase.splits)
  have inv: "distinct (held p c)" "set (held p c) = set (pcl_opened c)"
      "\<forall>i h. pcl_active c = Some (i, h) \<longrightarrow> p = Active i h"
    using finish_cancel.IH by (simp_all add: client_inv_def)
  have "distinct (held p (cancel_finish h ok c)) \<and> set (held p (cancel_finish h ok c)) = set (held p c)"
    using move_handle [OF inv(1) [unfolded held_def] finish_cancel.hyps(2)]
    unfolding held_def ph by (cases ok) (simp_all add: cancel_finish_def)
  then show ?case using inv(2,3) by (simp add: client_inv_def cancel_finish_def)
qed

section \<open>Properties\<close>


text \<open>
  The path on which a handle is left open: the cancellation has taken the exchange, stopping its I/O
  raises, and the exchange no longer finds itself registered.
\<close>

lemma failed_cancel_leaks_handle:
  "\<exists>c. client_run ClientIdle c \<and> pcl_opened c = [1] \<and> pcl_closed c = [] \<and> pcl_leaked c = [1]"
proof -
  let ?c1 = "new_client\<lparr>pcl_opened := [1]\<rparr>"
  let ?c2 = "?c1\<lparr>pcl_active := Some (5, 1)\<rparr>"
  let ?c3 = "?c1\<lparr>pcl_active := None, pcl_cancelling := [1]\<rparr>"
  have 1: "client_run (Connected 5 1) ?c1"
    by (rule client_run.connect [OF client_run.start, of 1 5]) (simp_all add: client_connect_def new_client_def)
  have 2: "client_run (Active 5 1) ?c2"
    by (rule client_run.publish [OF 1, of False]) (simp add: client_publish_def)
  have 3: "client_run (Active 5 1) ?c3"
    by (rule client_run.cancel [OF 2, of 5 True]) (simp add: cancel_take_def new_client_def)
  have 4: "client_run (Active 5 1) (cancel_finish 1 False ?c3)"
    by (rule client_run.finish_cancel [OF 3]) simp
  have 5: "client_run ClientIdle (cancel_finish 1 False ?c3)"
    by (rule client_run.release [OF 4]) (simp add: client_release_def cancel_finish_def new_client_def)
  then show ?thesis by (auto simp: cancel_finish_def new_client_def)
qed

text \<open>
  An attempt yields bytes only for an answered, correlated and still wanted exchange: the bytes are
  the serialization of the response with the request's identifier that the client returned; an attempt
  abandoned before the exchange does not touch the peer, one abandoned later does not yield its
  response, and neither can therefore be cached.
\<close>

theorem attempt_yields_wanted_response:
  assumes "attempt_run serialize rid before after client w = (res, w')"
  shows "(before \<longrightarrow> res = Inl (AttemptExchange AbandonedExchangeError) \<and> w' = w) \<and>
    (\<not> before \<longrightarrow> w' = snd (client w)) \<and>
    (\<forall>b. res = Inr b \<longrightarrow> \<not> before \<and> \<not> after \<and>
       (\<exists>r. client w = (Inr (ResponseMsg r), w') \<and> rs_request_id r = rid \<and> b = serialize (ResponseMsg r)))"
proof (cases before)
  case True
  then show ?thesis using assms by (auto simp: attempt_run_def)
next
  case False
  obtain x w1 where x: "client w = (x, w1)" by fastforce
  show ?thesis
  proof (cases x)
    case (Inl e)
    then show ?thesis using assms x False by (auto simp: attempt_run_def)
  next
    case (Inr m)
    show ?thesis
    proof (cases "correlate_response rid m")
      case (Inl e)
      then show ?thesis using assms x Inr False by (auto simp: attempt_run_def)
    next
      case R: (Inr r)
      then have "m = ResponseMsg r \<and> rs_request_id r = rid"
        by (cases m) (auto simp: correlate_response_def split: if_splits)
      then show ?thesis using assms x Inr R False by (auto simp: attempt_run_def split: if_splits)
    qed
  qed
qed


lemma attempt_yields_wanted_response_witness:
  "\<exists>r. attempt_run (\<lambda>_. [1]) 5 False False (\<lambda>w. (Inr (ResponseMsg sample_response), w + 1)) (3 :: nat) = (Inr [1], 4) \<and>
     rs_request_id r = 5 \<and> r = sample_response"
proof -
  have a: "attempt_run (\<lambda>_. [1]) 5 False False (\<lambda>w. (Inr (ResponseMsg sample_response), w + 1)) (3 :: nat) = (Inr [1], 4)"
    by (simp add: attempt_run_def correlate_response_def sample_response_def)
  have "rs_request_id sample_response = 5"
    using attempt_yields_wanted_response [OF a, THEN conjunct2, THEN conjunct2, THEN spec, of "[1]"] by simp
  then show ?thesis using a by simp
qed

end
