(* ===== verification/Idempotency.thy ===== *)
theory Idempotency
  imports Py_Json
begin

text \<open>
  The idempotency store (\<open>gateway/idempotency.py\<close>). The callback that sends a request to a peer is
  a state transformer on the rest of the world, so that running it or not is visible. The locale
  states what the clients (the dispatcher and the job dispatch) rely on; it is interpreted on the
  store itself.
\<close>

section \<open>The store\<close>

record operation_call =
  oc_operation_id :: uuid
  oc_payload :: json
  oc_requested_at :: datetime

datatype 'e idem_error =
    OperationTimeError
  | IdemCanonicalError canonical_error
  | IdempotencyConflictError uuid
  | InvalidCacheTtlError int
  | IdemComparisonError
  | CallbackError 'e

definition make_operation_call :: "operation_call \<Rightarrow> 'e idem_error + operation_call" where
  "make_operation_call c =
     (if tz_missing (oc_requested_at c) then Inl OperationTimeError
      else (case canonicalize_payload (oc_payload c) of
              Inl e \<Rightarrow> Inl (IdemCanonicalError e)
            | Inr _ \<Rightarrow> Inr c))"

record idempotency_result =
  ir_payload :: bytes
  ir_replayed :: bool
  ir_payload_digest :: pystr

record cache_entry =
  ce_request_digest :: pystr
  ce_result :: bytes
  ce_result_digest :: pystr
  ce_expires_at :: datetime

record idempotency_store =
  is_ttl :: int
  is_entries :: "uuid \<rightharpoonup> cache_entry"

definition make_store :: "int \<Rightarrow> 'e idem_error + idempotency_store" where
  "make_store ttl =
     (if ttl \<le> 0 then Inl (InvalidCacheTtlError ttl) else Inr \<lparr>is_ttl = ttl, is_entries = Map.empty\<rparr>)"

text \<open>Dropping an expired entry, the first thing done under the lock.\<close>

definition drop_expired :: "idempotency_store \<Rightarrow> operation_call \<Rightarrow> ('e idem_error + cache_entry option) \<times> idempotency_store" where
  "drop_expired s c =
     (case is_entries s (oc_operation_id c) of
        None \<Rightarrow> (Inr None, s)
      | Some e \<Rightarrow>
          (case dt_le (ce_expires_at e) (oc_requested_at c) of
             None \<Rightarrow> (Inl IdemComparisonError, s)
           | Some True \<Rightarrow> (Inr None, s\<lparr>is_entries := map_del (is_entries s) (oc_operation_id c)\<rparr>)
           | Some False \<Rightarrow> (Inr (Some e), s)))"

definition execute ::
  "idempotency_store \<Rightarrow> operation_call \<Rightarrow> ('w \<Rightarrow> ('e + bytes) \<times> 'w) \<Rightarrow> 'w \<Rightarrow>
   ('e idem_error + idempotency_result) \<times> idempotency_store \<times> 'w" where
  "execute s c operation w =
     (case canonicalize_payload (oc_payload c) of
        Inl e \<Rightarrow> (Inl (IdemCanonicalError e), s, w)
      | Inr canonical \<Rightarrow>
          (case drop_expired s c of
             (Inl e, s1) \<Rightarrow> (Inl e, s1, w)
           | (Inr (Some entry), s1) \<Rightarrow>
               if ce_request_digest entry \<noteq> payload_digest canonical
               then (Inl (IdempotencyConflictError (oc_operation_id c)), s1, w)
               else (Inr \<lparr>ir_payload = ce_result entry, ir_replayed = True,
                          ir_payload_digest = ce_result_digest entry\<rparr>, s1, w)
           | (Inr None, s1) \<Rightarrow>
               (case operation w of
                  (Inl e, w1) \<Rightarrow> (Inl (CallbackError e), s1, w1)
                | (Inr result, w1) \<Rightarrow>
                    (Inr \<lparr>ir_payload = result, ir_replayed = False,
                          ir_payload_digest = payload_digest result\<rparr>,
                     s1\<lparr>is_entries := (is_entries s1)(oc_operation_id c \<mapsto>
                          \<lparr>ce_request_digest = payload_digest canonical, ce_result = result,
                           ce_result_digest = payload_digest result,
                           ce_expires_at = dt_add (oc_requested_at c) (is_ttl s1)\<rparr>)\<rparr>, w1))))"

section \<open>The contract of a replay cache\<close>

text \<open>
  \<open>lookup s i\<close> is what the store remembers of operation \<open>i\<close>: the digest of the request, the
  response and when it is forgotten. The laws: a live entry decides the call without running the
  callback and survives it; calls for other operations leave it alone; running the callback to
  success creates an entry.
\<close>

definition live_for :: "cache_entry \<Rightarrow> operation_call \<Rightarrow> bool" where
  "live_for e c \<longleftrightarrow> dt_le (ce_expires_at e) (oc_requested_at c) = Some False"

text \<open>A sequence of calls, each with its callback.\<close>

fun run_calls ::
  "('s \<Rightarrow> operation_call \<Rightarrow> ('w \<Rightarrow> ('e + bytes) \<times> 'w) \<Rightarrow> 'w \<Rightarrow>
      ('e idem_error + idempotency_result) \<times> 's \<times> 'w) \<Rightarrow>
   's \<Rightarrow> (operation_call \<times> ('w \<Rightarrow> ('e + bytes) \<times> 'w)) list \<Rightarrow> 'w \<Rightarrow> 's \<times> 'w" where
  "run_calls exec s [] w = (s, w)"
| "run_calls exec s ((c, f) # cs) w = (case exec s c f w of (_, s', w') \<Rightarrow> run_calls exec s' cs w')"

locale replay_cache =
  fixes exec :: "'s \<Rightarrow> operation_call \<Rightarrow> ('w \<Rightarrow> ('e + bytes) \<times> 'w) \<Rightarrow> 'w \<Rightarrow>
                 ('e idem_error + idempotency_result) \<times> 's \<times> 'w"
    and lookup :: "'s \<Rightarrow> uuid \<Rightarrow> cache_entry option"
  assumes live_same: "lookup s (oc_operation_id c) = Some e \<Longrightarrow> live_for e c \<Longrightarrow>
      canonicalize_payload (oc_payload c) = Inr b \<Longrightarrow> ce_request_digest e = payload_digest b \<Longrightarrow>
      exec s c f w = (Inr \<lparr>ir_payload = ce_result e, ir_replayed = True,
                           ir_payload_digest = ce_result_digest e\<rparr>, s, w)"
    and live_other: "lookup s (oc_operation_id c) = Some e \<Longrightarrow> live_for e c \<Longrightarrow>
      canonicalize_payload (oc_payload c) = Inr b \<Longrightarrow> ce_request_digest e \<noteq> payload_digest b \<Longrightarrow>
      exec s c f w = (Inl (IdempotencyConflictError (oc_operation_id c)), s, w)"
    and uncanonical: "canonicalize_payload (oc_payload c) = Inl x \<Longrightarrow>
      exec s c f w = (Inl (IdemCanonicalError x), s, w)"
    and frame: "exec s c f w = (res, s', w') \<Longrightarrow> i \<noteq> oc_operation_id c \<Longrightarrow> lookup s' i = lookup s i"
    and ran: "exec s c f w = (Inr r, s', w') \<Longrightarrow> \<not> ir_replayed r \<Longrightarrow>
      \<exists>e b. f w = (Inr (ir_payload r), w') \<and> canonicalize_payload (oc_payload c) = Inr b \<and>
        lookup s' (oc_operation_id c) = Some e \<and> ce_request_digest e = payload_digest b \<and>
        ce_result e = ir_payload r \<and> ce_result_digest e = ir_payload_digest r"
begin

lemma live_survives:
  assumes "lookup s i = Some e" "exec s c f w = (r, s', w')"
    "oc_operation_id c = i \<longrightarrow> live_for e c"
  shows "lookup s' i = Some e \<and> (oc_operation_id c = i \<longrightarrow> w' = w)"
proof (cases "oc_operation_id c = i")
  case True
  then have live: "lookup s (oc_operation_id c) = Some e" "live_for e c" using assms by auto
  show ?thesis
  proof (cases "canonicalize_payload (oc_payload c)")
    case (Inl x)
    then show ?thesis using uncanonical [OF Inl, of s f w] assms by simp
  next
    case (Inr b)
    then show ?thesis
      using live_same [OF live Inr, of f w] live_other [OF live Inr, of f w] assms True
      by (cases "ce_request_digest e = payload_digest b") auto
  qed
next
  case False
  then show ?thesis using frame [OF assms(2), of i] assms(1) by simp
qed

lemma live_survives_all:
  assumes "lookup s i = Some e" "\<forall>(c, f) \<in> set cs. oc_operation_id c = i \<longrightarrow> live_for e c"
  shows "lookup (fst (run_calls exec s cs w)) i = Some e"
  using assms
proof (induction cs arbitrary: s w)
  case (Cons cf cs)
  obtain c f where cf: "cf = (c, f)" by (cases cf)
  obtain r s' w' where x: "exec s c f w = (r, s', w')" by (metis prod_cases3)
  have "lookup s' i = Some e" using live_survives [OF Cons.prems(1) x] Cons.prems(2) cf by auto
  then show ?case using Cons.IH Cons.prems(2) by (simp add: cf x)
qed simp

text \<open>After a first execution every later call with the payload replays its bytes.\<close>

lemma replays:
  assumes first: "exec s c f w = (Inr r, s', w')" "\<not> ir_replayed r"
    and later: "\<And>e. lookup s' (oc_operation_id c) = Some e \<Longrightarrow>
      (\<forall>(d, g) \<in> set cs. oc_operation_id d = oc_operation_id c \<longrightarrow> live_for e d) \<and> live_for e d"
    and d: "oc_operation_id d = oc_operation_id c"
      "canonicalize_payload (oc_payload d) = canonicalize_payload (oc_payload c)"
  shows "exec (fst (run_calls exec s' cs v)) d g u =
    (Inr \<lparr>ir_payload = ir_payload r, ir_replayed = True, ir_payload_digest = ir_payload_digest r\<rparr>,
     fst (run_calls exec s' cs v), u)"
proof -
  obtain e b where e: "canonicalize_payload (oc_payload c) = Inr b"
      "lookup s' (oc_operation_id c) = Some e" "ce_request_digest e = payload_digest b"
      "ce_result e = ir_payload r" "ce_result_digest e = ir_payload_digest r"
    using ran [OF first] by blast
  have "lookup (fst (run_calls exec s' cs v)) (oc_operation_id d) = Some e"
    using live_survives_all [OF e(2)] later [OF e(2)] d by simp
  then show ?thesis using live_same [of _ d e b g u] later [OF e(2)] e d by simp
qed

end

lemma dt_add_live: "live_for e c \<Longrightarrow> dt_le (ce_expires_at e) (oc_requested_at c) = Some False"
  by (simp add: live_for_def)

lemma drop_expired_live:
  "is_entries s (oc_operation_id c) = Some e \<Longrightarrow> live_for e c \<Longrightarrow> drop_expired s c = (Inr (Some e), s)"
  by (simp add: drop_expired_def live_for_def)

lemma drop_expired_frame:
  "drop_expired s c = (r, s') \<Longrightarrow> i \<noteq> oc_operation_id c \<Longrightarrow> is_entries s' i = is_entries s i"
  by (auto simp: drop_expired_def split: option.splits bool.splits)

interpretation store: replay_cache execute is_entries
proof unfold_locales
  fix s :: idempotency_store and c :: operation_call and f :: "'w \<Rightarrow> ('e + bytes) \<times> 'w" and w r s' w' i
  assume x: "execute s c f w = (r, s', w')" "i \<noteq> oc_operation_id c"
  obtain q :: "'e idem_error + cache_entry option" and t where d: "drop_expired s c = (q, t)"
    by (rule prod.exhaust)
  then have "is_entries t i = is_entries s i" using drop_expired_frame x(2) by blast
  then show "is_entries s' i = is_entries s i"
    using x d by (auto simp: execute_def split: sum.splits option.splits if_splits prod.splits)
next
  fix s :: idempotency_store and c :: operation_call and f :: "'w \<Rightarrow> ('e + bytes) \<times> 'w" and w r s' w'
  assume x: "execute s c f w = (Inr r, s', w')" "\<not> ir_replayed r"
  obtain q :: "'e idem_error + cache_entry option" and t where d: "drop_expired s c = (q, t)"
    by (rule prod.exhaust)
  show "\<exists>e b. f w = (Inr (ir_payload r), w') \<and> canonicalize_payload (oc_payload c) = Inr b \<and>
      is_entries s' (oc_operation_id c) = Some e \<and> ce_request_digest e = payload_digest b \<and>
      ce_result e = ir_payload r \<and> ce_result_digest e = ir_payload_digest r"
    using x d by (auto simp: execute_def split: sum.splits option.splits if_splits prod.splits)
qed (auto simp: execute_def drop_expired_live)

section \<open>Replay and retry\<close>

lemma execute_entry:
  "execute s c f w = (Inr r, s', w') \<Longrightarrow> \<not> ir_replayed r \<Longrightarrow> is_entries s' (oc_operation_id c) = Some e \<Longrightarrow>
   ce_expires_at e = dt_add (oc_requested_at c) (is_ttl s)"
  by (auto simp: execute_def drop_expired_def split: sum.splits option.splits if_splits prod.splits bool.splits)

text \<open>A call before the time to live of a first call ends.\<close>

definition within_ttl :: "idempotency_store \<Rightarrow> operation_call \<Rightarrow> operation_call \<Rightarrow> bool" where
  "within_ttl s c d \<longleftrightarrow>
     \<not> tz_missing (oc_requested_at d) \<and>
     dt_instant (oc_requested_at d) < dt_instant (oc_requested_at c) + is_ttl s"

lemma within_ttl_live:
  assumes "ce_expires_at e = dt_add (oc_requested_at c) (is_ttl s)" "\<not> tz_missing (oc_requested_at c)"
    "within_ttl s c d"
  shows "live_for e d"
  using assms by (simp add: live_for_def within_ttl_def dt_le_aware)

text \<open>A first execution is replayed to an equal call within the time to live.\<close>

lemma execute_again:
  fixes f g :: "'w \<Rightarrow> ('e + bytes) \<times> 'w"
  assumes first: "execute s c f w = (Inr r, s', w')" "\<not> ir_replayed r" "\<not> tz_missing (oc_requested_at c)"
    and same: "oc_operation_id d = oc_operation_id c" "oc_payload d = oc_payload c" "within_ttl s c d"
  shows "execute s' d g u =
    (Inr \<lparr>ir_payload = ir_payload r, ir_replayed = True, ir_payload_digest = ir_payload_digest r\<rparr>, s', u)"
proof -
  have "live_for e d" if "is_entries s' (oc_operation_id c) = Some e" for e
    using within_ttl_live [OF execute_entry [OF first(1,2) that] first(3) same(3)] .
  then show ?thesis using store.replays [OF first(1,2) _ same(1), of "[]" u g u] same(2) by simp
qed

text \<open>
  C8: A completed operation is not executed again: once the callback of a call has run to success,
  then after any further calls (for other operations, or for this one within its time to live) a
  call with the same operation id and the same canonical payload, made within the time to live,
  returns the bytes and the digest of the first result marked as replayed, and neither runs its
  callback nor changes the store.
\<close>

theorem completed_operation_is_replayed:
  fixes f g :: "'w \<Rightarrow> ('e + bytes) \<times> 'w"
    and cs :: "(operation_call \<times> ('w \<Rightarrow> ('e + bytes) \<times> 'w)) list"
  assumes "execute s c f w = (Inr r, s', w')" "\<not> ir_replayed r" "\<not> tz_missing (oc_requested_at c)"
    "\<forall>(d, g) \<in> set cs. oc_operation_id d = oc_operation_id c \<longrightarrow> within_ttl s c d"
    "oc_operation_id d = oc_operation_id c" "within_ttl s c d"
    "canonicalize_payload (oc_payload d) = canonicalize_payload (oc_payload c)"
  shows "execute (fst (run_calls execute s' cs v)) d g u =
    (Inr \<lparr>ir_payload = ir_payload r, ir_replayed = True, ir_payload_digest = ir_payload_digest r\<rparr>,
     fst (run_calls execute s' cs v), u)"
proof (rule store.replays [OF assms(1,2) _ assms(5,7)])
  fix e assume "is_entries s' (oc_operation_id c) = Some e"
  then have x: "ce_expires_at e = dt_add (oc_requested_at c) (is_ttl s)"
    using execute_entry [OF assms(1,2)] by blast
  then show "(\<forall>(d, g) \<in> set cs. oc_operation_id d = oc_operation_id c \<longrightarrow> live_for e d) \<and> live_for e d"
    using assms(3,4,6) within_ttl_live [OF x] by auto
qed

text \<open>
  A live entry decides the call: while an operation id is remembered, a call with it never runs
  its callback and never changes the store; it gets the remembered bytes when its canonical payload
  has the remembered digest, and reuse of the id with an altered payload is refused as a conflict.
\<close>

theorem live_entry_decides:
  assumes "is_entries s (oc_operation_id d) = Some e" "live_for e d"
    "canonicalize_payload (oc_payload d) = Inr b"
  shows "execute s d g u =
    (if ce_request_digest e = payload_digest b
     then Inr \<lparr>ir_payload = ce_result e, ir_replayed = True, ir_payload_digest = ce_result_digest e\<rparr>
     else Inl (IdempotencyConflictError (oc_operation_id d)), s, u)"
  using store.live_same [OF assms, of g u] store.live_other [OF assms, of g u] by simp

text \<open>
  Only completed results are cached: when the callback raises, the error reaches the caller, the
  store holds no entry for the operation, and a later call for it runs its own callback.
\<close>

theorem failed_operation_is_retried:
  assumes "execute s c f w = (Inl (CallbackError e), s', w')"
    "oc_operation_id d = oc_operation_id c" "canonicalize_payload (oc_payload d) = Inr b"
    "g u = (Inr result, u')"
  shows "is_entries s' (oc_operation_id c) = None \<and> f w = (Inl e, w') \<and>
    (\<exists>s''. execute s' d g u =
       (Inr \<lparr>ir_payload = result, ir_replayed = False, ir_payload_digest = payload_digest result\<rparr>, s'', u'))"
proof -
  have none: "is_entries s' (oc_operation_id c) = None" "f w = (Inl e, w')"
    using assms(1)
    by (auto simp: execute_def drop_expired_def split: sum.splits option.splits if_splits prod.splits bool.splits)
  then show ?thesis using assms(2-) by (simp add: execute_def drop_expired_def)
qed

subsection \<open>A concrete operation\<close>

definition sample_operation :: "int \<Rightarrow> json \<Rightarrow> operation_call" where
  "sample_operation t p = \<lparr>oc_operation_id = 5, oc_payload = p, oc_requested_at = Aware t\<rparr>"

definition sample_store :: idempotency_store where
  "sample_store = \<lparr>is_ttl = 100, is_entries = Map.empty\<rparr>"

definition count_callback :: "nat \<Rightarrow> (nat + bytes) \<times> nat" where
  "count_callback n = (if n = 9 then (Inl n, n) else (Inr [mkb n], Suc n))"

lemma canonical_null: "canonicalize_payload JNull = Inr (map mkb (ustr ''null''))"
  by (simp add: canonicalize_payload_def utf8_char_def)

lemma canonical_true: "canonicalize_payload (JBool True) = Inr (map mkb (ustr ''true''))"
  by (simp add: canonicalize_payload_def utf8_char_def)

lemma live_entry_decides_witness:
  "execute (sample_store\<lparr>is_entries := [5 \<mapsto> \<lparr>ce_request_digest = [], ce_result = [], ce_result_digest = [],
       ce_expires_at = Aware 10\<rparr>]\<rparr>) (sample_operation 0 JNull) count_callback 3 =
    (Inl (IdempotencyConflictError 5), sample_store\<lparr>is_entries := [5 \<mapsto> \<lparr>ce_request_digest = [],
       ce_result = [], ce_result_digest = [], ce_expires_at = Aware 10\<rparr>]\<rparr>, 3)"
proof -
  have "[] \<noteq> payload_digest b" for b using payload_digest_ok [of b] by (auto simp: sha256_digest_ok_def)
  then show ?thesis
    using live_entry_decides [of "sample_store\<lparr>is_entries := [5 \<mapsto> \<lparr>ce_request_digest = [], ce_result = [],
        ce_result_digest = [], ce_expires_at = Aware 10\<rparr>]\<rparr>" "sample_operation 0 JNull" _ _ count_callback 3]
    by (simp add: sample_operation_def live_for_def canonical_null)
qed

definition sample_executed :: "(nat idem_error + idempotency_result) \<times> idempotency_store \<times> nat" where
  "sample_executed = execute sample_store (sample_operation 0 JNull) count_callback 3"

lemma sample_executed_eq:
  "execute sample_store (sample_operation 0 JNull) count_callback 3 =
     (Inr \<lparr>ir_payload = [mkb 3], ir_replayed = False, ir_payload_digest = payload_digest [mkb 3]\<rparr>,
      fst (snd sample_executed), 4)"
  by (simp add: sample_executed_def execute_def sample_operation_def canonical_null drop_expired_def
      sample_store_def count_callback_def)

lemma completed_operation_is_replayed_witness:
  "execute (fst (run_calls execute (fst (snd sample_executed))
       [(sample_operation 20 (JBool True), count_callback)] 4)) (sample_operation 50 JNull) count_callback 4 =
    (Inr \<lparr>ir_payload = [mkb 3], ir_replayed = True, ir_payload_digest = payload_digest [mkb 3]\<rparr>,
     fst (run_calls execute (fst (snd sample_executed)) [(sample_operation 20 (JBool True), count_callback)] 4), 4)"
  using completed_operation_is_replayed [OF sample_executed_eq,
      of "[(sample_operation 20 (JBool True), count_callback)]" "sample_operation 50 JNull" 4 count_callback 4]
  by (simp add: sample_operation_def within_ttl_def sample_store_def)

lemma failed_operation_is_retried_witness:
  "is_entries sample_store 5 = None \<and> count_callback 9 = (Inl 9, 9) \<and>
    (\<exists>s''. execute sample_store (sample_operation 1 JNull) count_callback 3 =
       (Inr \<lparr>ir_payload = [mkb 3], ir_replayed = False, ir_payload_digest = payload_digest [mkb 3]\<rparr>, s'', 4))"
  using failed_operation_is_retried [of sample_store "sample_operation 0 JNull" count_callback 9 9
      sample_store 9 "sample_operation 1 JNull" "map mkb (ustr ''null'')" count_callback 3 "[mkb 3]" 4]
  by (simp add: sample_operation_def canonical_null execute_def drop_expired_def sample_store_def count_callback_def)

end
