(* ===== verification/Job_Store.thy ===== *)
theory Job_Store
  imports Py_Json "HOL-Library.AList"
begin

text \<open>
  Durable jobs: their metadata (\<open>gateway/job_models.py\<close>), the files that hold them
  (\<open>gateway/job_store.py\<close>) and what a restart makes of them (\<open>gateway/job_recovery.py\<close>). The
  contract recovery relies on, the protocol \<open>JobSnapshotStore\<close>, is a locale; it is interpreted on
  the store.
\<close>

section \<open>Job metadata\<close>

datatype job_kind = PROCESS | SHELL | CODEX

datatype job_state = QUEUED | RUNNING | SUCCEEDED | FAILED | CANCELLED | INTERRUPTED

definition terminal_job_states :: "job_state set" where
  "terminal_job_states = {SUCCEEDED, FAILED, CANCELLED, INTERRUPTED}"

lemma terminal_job_states_iff [simp]: "st \<in> terminal_job_states \<longleftrightarrow> st \<noteq> QUEUED \<and> st \<noteq> RUNNING"
  by (cases st) (auto simp: terminal_job_states_def)

record job_spec =
  spec_operation_id :: uuid
  spec_kind :: job_kind
  spec_argv :: "pystr list"
  spec_cwd :: pystr

text \<open>The retention period is in microseconds, the resolution of \<open>timedelta\<close>.\<close>

record job_limits =
  max_concurrent :: int
  max_output_bytes :: int
  retention :: int

record job_snapshot =
  sn_job_id :: uuid
  sn_operation_id :: uuid
  sn_request_digest :: pystr
  sn_kind :: job_kind
  sn_state :: job_state
  sn_created_at :: datetime
  sn_updated_at :: datetime
  sn_exit_code :: "int option"
  sn_pid :: "int option"
  sn_stdout_bytes :: int
  sn_stderr_bytes :: int
  sn_retained_bytes :: int
  sn_truncated :: bool

datatype job_error =
    InvalidJobConfigurationError
  | InvalidJobSpecError
  | InvalidOutputWindowError
  | JobRegistryClosedError
  | JobReplayConflictError uuid
  | JobNotFoundError uuid
  | InvalidJobMetadataError uuid
  | InvalidJobMetadataStateError string
  | InvalidTerminalJobStateError job_state
  | JobFieldError
  | JobCanonicalError canonical_error
  | JobUnicodeError
  | JobKeyError uuid
  | JobComparisonError

text \<open>The constraints of the fields and the validator of the whole.\<close>

definition snapshot_fields_ok :: "job_snapshot \<Rightarrow> bool" where
  "snapshot_fields_ok p \<longleftrightarrow>
     sha256_digest_ok (sn_request_digest p) \<and> (case sn_pid p of None \<Rightarrow> True | Some i \<Rightarrow> 0 < i) \<and>
     0 \<le> sn_stdout_bytes p \<and> 0 \<le> sn_stderr_bytes p \<and> 0 \<le> sn_retained_bytes p"

definition ensure_valid_timeline_and_state :: "job_snapshot \<Rightarrow> job_error + job_snapshot" where
  "ensure_valid_timeline_and_state p =
     (if tz_missing (sn_created_at p) \<or> tz_missing (sn_updated_at p)
      then Inl (InvalidJobMetadataStateError ''timezone_required'')
      else if dt_le (sn_created_at p) (sn_updated_at p) \<noteq> Some True
      then Inl (InvalidJobMetadataStateError ''updated_before_created'')
      else if sn_state p = RUNNING \<and> sn_pid p = None
      then Inl (InvalidJobMetadataStateError ''running_pid_required'')
      else if sn_state p = SUCCEEDED \<and> sn_exit_code p \<noteq> Some 0
      then Inl (InvalidJobMetadataStateError ''success_exit_code'')
      else Inr p)"

definition make_snapshot :: "job_snapshot \<Rightarrow> job_error + job_snapshot" where
  "make_snapshot p =
     (if snapshot_fields_ok p then ensure_valid_timeline_and_state p else Inl JobFieldError)"

text \<open>The digest that a repeated start of the same operation must match.\<close>

fun kind_value :: "job_kind \<Rightarrow> string" where
  "kind_value PROCESS = ''process''"
| "kind_value SHELL = ''shell''"
| "kind_value CODEX = ''codex''"

definition job_request_payload :: "job_spec \<Rightarrow> job_limits \<Rightarrow> json" where
  "job_request_payload spec limits =
     JObj [(ustr ''argv'', JList (map JStr (spec_argv spec))),
           (ustr ''cwd'', JStr (spec_cwd spec)),
           (ustr ''kind'', JStr (ustr (kind_value (spec_kind spec)))),
           (ustr ''limits'', JObj
              [(ustr ''max_concurrent'', JInt (max_concurrent limits)),
               (ustr ''max_output_bytes'', JInt (max_output_bytes limits)),
               (ustr ''retention_seconds'', JInt (retention limits div 1000000))])]"

definition job_request_digest :: "job_spec \<Rightarrow> job_limits \<Rightarrow> job_error + pystr" where
  "job_request_digest spec limits =
     mapErr JobCanonicalError
       (bindR (canonicalize_payload (job_request_payload spec limits)) (\<lambda>b. Inr (payload_digest b)))"

section \<open>The store\<close>

text \<open>
  The directory holds a metadata file for each job, listed in the order \<open>glob\<close> finds them, and up
  to two output files. A metadata file is what \<open>model_dump_json\<close> wrote, and so has the content of
  a snapshot, or does not parse. The temporary file is replaced atomically and is not modelled.
  The store runs on Windows only: its constructor sets the directory's Windows ACL. Text files are
  therefore written with every line feed expanded to a carriage return and a line feed.
\<close>

datatype metadata_file = Metadata job_snapshot | Unparsable

datatype job_stream = Stdout | Stderr

record job_store =
  jst_retention :: int
  jst_metadata :: "(uuid \<times> metadata_file) list"
  jst_outputs :: "uuid \<times> job_stream \<Rightarrow> bytes option"

definition text_mode :: "pystr \<Rightarrow> pystr" where
  "text_mode t = concat (map (\<lambda>c. if c = 10 then [13, 10] else [c]) t)"

definition write_snapshot :: "job_snapshot \<Rightarrow> job_store \<Rightarrow> job_store" where
  "write_snapshot p s = s\<lparr>jst_metadata := AList.update (sn_job_id p) (Metadata p) (jst_metadata s)\<rparr>"

definition write_output :: "uuid \<Rightarrow> job_stream \<Rightarrow> pystr \<Rightarrow> job_store \<Rightarrow> (job_error + unit) \<times> job_store" where
  "write_output j stream t s =
     (case utf8_encode (text_mode t) of
        None \<Rightarrow> (Inl JobUnicodeError, s\<lparr>jst_outputs := (jst_outputs s)((j, stream) \<mapsto> [])\<rparr>)
      | Some b \<Rightarrow> (Inr (), s\<lparr>jst_outputs := (jst_outputs s)((j, stream) \<mapsto> b)\<rparr>))"

definition read_output :: "uuid \<Rightarrow> job_stream \<Rightarrow> job_store \<Rightarrow> bytes" where
  "read_output j stream s = (case jst_outputs s (j, stream) of Some b \<Rightarrow> b | None \<Rightarrow> [])"

definition delete_job :: "uuid \<Rightarrow> uuid \<Rightarrow> job_store \<Rightarrow> job_store" where
  "delete_job j path s =
     s\<lparr>jst_metadata := AList.delete path (jst_metadata s),
       jst_outputs := (jst_outputs s)((j, Stdout) := None, (j, Stderr) := None)\<rparr>"

fun load_files :: "int \<Rightarrow> (uuid \<times> metadata_file) list \<Rightarrow> job_store \<Rightarrow>
  (job_error + job_snapshot list) \<times> job_store" where
  "load_files expiry [] s = (Inr [], s)"
| "load_files expiry ((path, Unparsable) # fs) s = (Inl (InvalidJobMetadataError path), s)"
| "load_files expiry ((path, Metadata p) # fs) s =
     (case make_snapshot p of
        Inl _ \<Rightarrow> (Inl (InvalidJobMetadataError path), s)
      | Inr q \<Rightarrow>
          (case dt_le (Aware expiry) (sn_updated_at q) of
             None \<Rightarrow> (Inl JobComparisonError, s)
           | Some False \<Rightarrow> load_files expiry fs (delete_job (sn_job_id q) path s)
           | Some True \<Rightarrow>
               (case load_files expiry fs s of
                  (Inl e, s1) \<Rightarrow> (Inl e, s1)
                | (Inr qs, s1) \<Rightarrow> (Inr (q # qs), s1))))"

definition load :: "int \<Rightarrow> job_store \<Rightarrow> (job_error + job_snapshot list) \<times> job_store" where
  "load now s = load_files (now - jst_retention s) (jst_metadata s) s"

section \<open>Recovery\<close>

definition interrupt_on_recovery :: "job_snapshot \<Rightarrow> datetime \<Rightarrow> job_snapshot" where
  "interrupt_on_recovery p updated_at =
     (if sn_state p \<notin> {QUEUED, RUNNING} then p
      else p\<lparr>sn_state := INTERRUPTED, sn_pid := None, sn_updated_at := updated_at\<rparr>)"

definition interrupt_stale_snapshot :: "job_snapshot \<Rightarrow> datetime \<Rightarrow> job_snapshot" where
  "interrupt_stale_snapshot p now =
     (case sn_state p of
        QUEUED \<Rightarrow> p\<lparr>sn_state := INTERRUPTED, sn_pid := None, sn_updated_at := now\<rparr>
      | RUNNING \<Rightarrow> p\<lparr>sn_state := INTERRUPTED, sn_pid := None, sn_updated_at := now\<rparr>
      | _ \<Rightarrow> p)"

record recovery_result =
  rr_snapshots :: "job_snapshot list"
  rr_interrupted_job_ids :: "uuid list"

definition recover_snapshots :: "job_snapshot list \<Rightarrow> datetime \<Rightarrow> recovery_result" where
  "recover_snapshots original now =
     \<lparr>rr_snapshots = map (\<lambda>p. interrupt_stale_snapshot p now) original,
      rr_interrupted_job_ids = map sn_job_id (filter (\<lambda>p. sn_state p \<in> {QUEUED, RUNNING}) original)\<rparr>"

text \<open>A process the registry owns: its handle and its process identifier.\<close>

record job_process =
  jp_handle :: nat
  jp_pid :: int

record job_record =
  jr_snapshot :: job_snapshot
  jr_process :: "job_process option"

definition new_record :: "job_snapshot \<Rightarrow> job_record" where
  "new_record p = \<lparr>jr_snapshot = p, jr_process = None\<rparr>"

text \<open>A dictionary is the list of its items in insertion order, the keys being distinct.\<close>

definition dict_of :: "('k \<times> 'v) list \<Rightarrow> ('k \<times> 'v) list" where
  "dict_of kvs = foldl (\<lambda>d kv. AList.update (fst kv) (snd kv) d) [] kvs"

record recovered_state =
  rs_records :: "(uuid \<times> job_record) list"
  rs_operation_jobs :: "(uuid \<times> uuid \<times> pystr) list"

definition recovered_of :: "job_snapshot list \<Rightarrow> recovered_state" where
  "recovered_of ps =
     \<lparr>rs_records = dict_of (map (\<lambda>p. (sn_job_id p, new_record p)) ps),
      rs_operation_jobs = dict_of (map (\<lambda>p. (sn_operation_id p, sn_job_id p, sn_request_digest p)) ps)\<rparr>"

definition write_interrupted :: "(job_snapshot \<Rightarrow> 's \<Rightarrow> 's) \<Rightarrow> uuid list \<Rightarrow> job_snapshot list \<Rightarrow> 's \<Rightarrow> 's" where
  "write_interrupted store_write interrupted ps s =
     foldl (\<lambda>s p. if sn_job_id p \<in> set interrupted then store_write p s else s) s ps"

definition recover_store ::
  "('s \<Rightarrow> (job_error + job_snapshot list) \<times> 's) \<Rightarrow> (job_snapshot \<Rightarrow> 's \<Rightarrow> 's) \<Rightarrow> datetime \<Rightarrow> 's \<Rightarrow>
   (job_error + recovered_state) \<times> 's" where
  "recover_store store_load store_write now s =
     (case store_load s of
        (Inl e, s1) \<Rightarrow> (Inl e, s1)
      | (Inr ps, s1) \<Rightarrow>
          (let result = recover_snapshots ps now
           in (Inr (recovered_of (rr_snapshots result)),
               write_interrupted store_write (rr_interrupted_job_ids result) (rr_snapshots result) s1)))"

text \<open>
  The receipt sorts identifiers by their text. Identifiers are numbers here; as all texts of
  identifiers have the same length, their order is the numerical one.
\<close>

record cleanup_receipt =
  cr_removed_job_ids :: "uuid list"
  cr_retained_job_ids :: "uuid list"

definition retention_cleanup_receipt :: "uuid list \<Rightarrow> uuid list \<Rightarrow> cleanup_receipt" where
  "retention_cleanup_receipt previous retained =
     \<lparr>cr_removed_job_ids = sorted_list_of_set (set previous - set retained),
      cr_retained_job_ids = sorted_list_of_set (set retained)\<rparr>"

definition cleanup_retained_state ::
  "('s \<Rightarrow> (job_error + job_snapshot list) \<times> 's) \<Rightarrow> recovered_state \<Rightarrow> 's \<Rightarrow>
   (job_error + cleanup_receipt \<times> recovered_state) \<times> 's" where
  "cleanup_retained_state store_load state s =
     (case store_load s of
        (Inl e, s1) \<Rightarrow> (Inl e, s1)
      | (Inr ps, s1) \<Rightarrow>
          (let receipt = retention_cleanup_receipt (map fst (rs_records state)) (map sn_job_id ps);
               retained = set (cr_retained_job_ids receipt)
           in (Inr (receipt,
                 \<lparr>rs_records = filter (\<lambda>kv. fst kv \<in> retained) (rs_records state),
                  rs_operation_jobs = filter (\<lambda>kv. fst (snd kv) \<in> retained) (rs_operation_jobs state)\<rparr>), s1)))"

section \<open>Dictionaries\<close>

lemma map_of_foldl_update:
  "map_of (foldl (\<lambda>d kv. AList.update (fst kv) (snd kv) d) d kvs) = map_of d ++ map_of (rev kvs)"
  by (induction kvs arbitrary: d) (auto simp: update_conv' fun_eq_iff map_add_def split: option.splits)

lemma map_of_dict_of: "map_of (dict_of kvs) = map_of (rev kvs)"
  by (simp add: dict_of_def map_of_foldl_update)

lemma distinct_foldl_update:
  "distinct (map fst d) \<Longrightarrow> distinct (map fst (foldl (\<lambda>d kv. AList.update (fst kv) (snd kv) d) d kvs))"
  by (induction kvs arbitrary: d) (auto intro: distinct_update)

lemma distinct_dict_of: "distinct (map fst (dict_of kvs))"
  by (simp add: dict_of_def distinct_foldl_update)

lemma map_of_rev_same: "distinct (map fst kvs) \<Longrightarrow> map_of (rev kvs) = map_of kvs"
proof (induction kvs)
  case (Cons kv kvs)
  then have "map_of kvs (fst kv) = None" by (simp add: map_of_eq_None_iff)
  then show ?case using Cons by (cases kv) (auto simp: fun_eq_iff map_add_def split: option.splits)
qed simp

lemma map_of_dict_of_distinct: "distinct (map fst kvs) \<Longrightarrow> map_of (dict_of kvs) = map_of kvs"
  by (simp add: map_of_dict_of map_of_rev_same)

lemma map_of_filter_key: "map_of (filter (\<lambda>kv. P (fst kv)) kvs) k = (if P k then map_of kvs k else None)"
  by (induction kvs) auto

lemma map_of_job_ids:
  "map_of (map (\<lambda>p. (sn_job_id p, f p)) ps) j =
     map_option f (map_of (map (\<lambda>p. (sn_job_id p, p)) ps) j)"
  by (induction ps) auto

lemma map_of_job_ids_Some:
  "map_of (map (\<lambda>p. (sn_job_id p, p)) ps) j = Some p \<Longrightarrow> p \<in> set ps \<and> sn_job_id p = j"
  by (induction ps) (auto split: if_splits)

lemma map_of_job_ids_dom: "map_of (map (\<lambda>p. (sn_job_id p, p)) ps) j = None \<longleftrightarrow> j \<notin> sn_job_id ` set ps"
  by (induction ps) auto

section \<open>Snapshots\<close>

lemma make_snapshot_Inr: "make_snapshot p = Inr q \<Longrightarrow> q = p"
  by (auto simp: make_snapshot_def ensure_valid_timeline_and_state_def split: if_splits)

definition snapshot_ok :: "job_snapshot \<Rightarrow> bool" where
  "snapshot_ok p \<longleftrightarrow> make_snapshot p = Inr p"

lemma snapshot_ok_iff:
  "snapshot_ok p \<longleftrightarrow> snapshot_fields_ok p \<and> \<not> tz_missing (sn_created_at p) \<and>
     \<not> tz_missing (sn_updated_at p) \<and> dt_instant (sn_created_at p) \<le> dt_instant (sn_updated_at p) \<and>
     (sn_state p = RUNNING \<longrightarrow> sn_pid p \<noteq> None) \<and> (sn_state p = SUCCEEDED \<longrightarrow> sn_exit_code p = Some 0)"
  by (auto simp: snapshot_ok_def make_snapshot_def ensure_valid_timeline_and_state_def dt_le_aware)

lemma interrupt_stale_simps [simp]:
  "sn_job_id (interrupt_stale_snapshot p now) = sn_job_id p"
  "sn_operation_id (interrupt_stale_snapshot p now) = sn_operation_id p"
  "sn_request_digest (interrupt_stale_snapshot p now) = sn_request_digest p"
  by (simp_all add: interrupt_stale_snapshot_def split: job_state.splits)

lemma interrupt_stale_terminal: "sn_state (interrupt_stale_snapshot p now) \<in> terminal_job_states"
  by (cases "sn_state p") (simp_all add: interrupt_stale_snapshot_def)

lemma interrupt_stale_id: "sn_state p \<in> terminal_job_states \<Longrightarrow> interrupt_stale_snapshot p now = p"
  by (cases "sn_state p") (simp_all add: interrupt_stale_snapshot_def)

text \<open>The two spellings of the same step, in \<open>job_models.py\<close> and in \<open>job_recovery.py\<close>.\<close>

lemma interrupt_on_recovery_same: "interrupt_on_recovery p now = interrupt_stale_snapshot p now"
  by (cases "sn_state p") (simp_all add: interrupt_on_recovery_def interrupt_stale_snapshot_def)

section \<open>The contract of a snapshot store\<close>

text \<open>
  \<open>contents s j\<close> is the durable metadata of job \<open>j\<close>. Loading yields exactly what the store
  still holds afterwards, and drops but never alters metadata; writing replaces the metadata of one job.
\<close>

locale job_snapshot_store =
  fixes store_load :: "'s \<Rightarrow> (job_error + job_snapshot list) \<times> 's"
    and store_write :: "job_snapshot \<Rightarrow> 's \<Rightarrow> 's"
    and contents :: "'s \<Rightarrow> uuid \<Rightarrow> job_snapshot option"
    and wf :: "'s \<Rightarrow> bool"
  assumes load_wf: "wf s \<Longrightarrow> store_load s = (Inr ps, s') \<Longrightarrow> wf s'"
    and load_distinct: "wf s \<Longrightarrow> store_load s = (Inr ps, s') \<Longrightarrow> distinct (map sn_job_id ps)"
    and load_contents: "wf s \<Longrightarrow> store_load s = (Inr ps, s') \<Longrightarrow>
      contents s' = map_of (map (\<lambda>p. (sn_job_id p, p)) ps)"
    and load_keeps: "wf s \<Longrightarrow> store_load s = (r, s') \<Longrightarrow> contents s' \<subseteq>\<^sub>m contents s"
    and write_wf: "wf s \<Longrightarrow> wf (store_write p s)"
    and write_contents: "wf s \<Longrightarrow> contents (store_write p s) = (contents s)(sn_job_id p \<mapsto> p)"
begin

lemma write_interrupted_wf: "wf s \<Longrightarrow> wf (write_interrupted store_write ids ps s)"
  unfolding write_interrupted_def by (induction ps arbitrary: s) (auto intro: write_wf)

lemma write_interrupted_contents:
  assumes "wf s" "distinct (map sn_job_id ps)"
  shows "contents (write_interrupted store_write ids ps s) j =
    (case map_of (map (\<lambda>p. (sn_job_id p, p)) ps) j of
       Some p \<Rightarrow> if j \<in> set ids then Some p else contents s j
     | None \<Rightarrow> contents s j)"
  using assms
proof (induction ps arbitrary: s)
  case Nil
  then show ?case by (simp add: write_interrupted_def)
next
  case (Cons p ps)
  let ?s = "if sn_job_id p \<in> set ids then store_write p s else s"
  have s: "wf ?s" using Cons.prems(1) by (simp add: write_wf)
  have step: "write_interrupted store_write ids (p # ps) s = write_interrupted store_write ids ps ?s"
    by (simp add: write_interrupted_def)
  have "map_of (map (\<lambda>p. (sn_job_id p, p)) ps) (sn_job_id p) = None"
    using Cons.prems(2) by (simp add: map_of_job_ids_dom)
  then show ?case
    unfolding step using Cons.IH [OF s] Cons.prems by (simp add: write_contents split: option.splits)
qed

lemma recover_form:
  assumes s: "wf s" and rec: "recover_store store_load store_write now s = (Inr st, s')"
  obtains ps s1 where "store_load s = (Inr ps, s1)"
    "st = recovered_of (map (\<lambda>p. interrupt_stale_snapshot p now) ps)"
    "s' = write_interrupted store_write
        (map sn_job_id (filter (\<lambda>p. sn_state p \<in> {QUEUED, RUNNING}) ps))
        (map (\<lambda>p. interrupt_stale_snapshot p now) ps) s1"
proof (cases "store_load s")
  case (Pair r s1)
  then show ?thesis using rec that by (cases r) (auto simp: recover_store_def recover_snapshots_def)
qed

lemma recover_agrees:
  assumes s: "wf s" and rec: "recover_store store_load store_write now s = (Inr st, s')"
  shows "\<exists>ps. wf s' \<and> distinct (map sn_job_id ps) \<and>
    contents s' = map_of (map (\<lambda>p. (sn_job_id p, p)) ps) \<and>
    map_of (rs_records st) = (\<lambda>j. map_option new_record (contents s' j)) \<and>
    rs_operation_jobs st = dict_of (map (\<lambda>p. (sn_operation_id p, sn_job_id p, sn_request_digest p)) ps) \<and>
    (\<forall>j p. contents s' j = Some p \<longrightarrow> (\<exists>q. contents s j = Some q \<and> p = interrupt_stale_snapshot q now))"
proof -
  obtain ps s1 where ld: "store_load s = (Inr ps, s1)"
    and st: "st = recovered_of (map (\<lambda>p. interrupt_stale_snapshot p now) ps)"
    and s': "s' = write_interrupted store_write
        (map sn_job_id (filter (\<lambda>p. sn_state p \<in> {QUEUED, RUNNING}) ps))
        (map (\<lambda>p. interrupt_stale_snapshot p now) ps) s1"
    by (rule recover_form [OF s rec])
  define qs where "qs = map (\<lambda>p. interrupt_stale_snapshot p now) ps"
  have d: "distinct (map sn_job_id ps)" by (rule load_distinct [OF s ld])
  then have dq: "distinct (map sn_job_id qs)" by (simp add: qs_def comp_def)
  have wf1: "wf s1" by (rule load_wf [OF s ld])
  have look: "map_of (map (\<lambda>p. (sn_job_id p, p)) qs) j =
      map_option (\<lambda>p. interrupt_stale_snapshot p now) (contents s1 j)" for j
    unfolding load_contents [OF s ld] qs_def
    using map_of_job_ids [of "\<lambda>p. interrupt_stale_snapshot p now" ps j] by (simp add: comp_def)
  have cont: "contents s' j = map_of (map (\<lambda>p. (sn_job_id p, p)) qs) j" for j
  proof (cases "contents s1 j")
    case None
    then show ?thesis
      unfolding s' qs_def [symmetric] by (simp add: write_interrupted_contents [OF wf1 dq] look)
  next
    case (Some p)
    then have p: "p \<in> set ps" "sn_job_id p = j"
      using load_contents [OF s ld] map_of_job_ids_Some by metis+
    have active: "j \<in> set (map sn_job_id (filter (\<lambda>p. sn_state p \<in> {QUEUED, RUNNING}) ps)) \<longleftrightarrow>
        sn_state p \<in> {QUEUED, RUNNING}"
      using p d by (auto simp: distinct_map inj_on_def)
    show ?thesis
    proof (cases "sn_state p \<in> {QUEUED, RUNNING}")
      case True
      then show ?thesis
        unfolding s' qs_def [symmetric] write_interrupted_contents [OF wf1 dq] look
        using Some active by (simp del: set_map)
    next
      case False
      then have "interrupt_stale_snapshot p now = p" by (intro interrupt_stale_id) auto
      then show ?thesis
        unfolding s' qs_def [symmetric] write_interrupted_contents [OF wf1 dq] look
        using Some active False by (simp del: set_map)
    qed
  qed
  have recs: "map_of (rs_records st) = (\<lambda>j. map_option new_record (contents s' j))"
    using dq by (simp add: st qs_def [symmetric] recovered_of_def map_of_dict_of_distinct comp_def
        map_of_job_ids [of new_record] cont fun_eq_iff)
  have old: "\<exists>q. contents s j = Some q \<and> p = interrupt_stale_snapshot q now" if "contents s' j = Some p" for j p
  proof -
    obtain q where "contents s1 j = Some q" "p = interrupt_stale_snapshot q now"
      using \<open>contents s' j = Some p\<close> by (auto simp: cont look)
    then show ?thesis using load_keeps [OF s ld] by (metis map_le_def domI)
  qed
  have "wf s'" using write_interrupted_wf [OF wf1] by (simp add: s')
  moreover have "contents s' = map_of (map (\<lambda>p. (sn_job_id p, p)) qs)" using cont by blast
  moreover have "rs_operation_jobs st = dict_of (map (\<lambda>p. (sn_operation_id p, sn_job_id p, sn_request_digest p)) qs)"
    by (simp add: st qs_def recovered_of_def)
  ultimately show ?thesis using dq recs old by (intro exI [of _ qs]) simp
qed

lemma cleanup_agrees:
  assumes s: "wf s" and cl: "cleanup_retained_state store_load st s = (Inr (receipt, st'), s')"
    and agree: "\<And>j. contents s j = map_option jr_snapshot (map_of (rs_records st) j)"
  shows "wf s'" "contents s' j = map_option jr_snapshot (map_of (rs_records st') j)"
    "map_of (rs_records st') j = (if contents s' j = None then None else map_of (rs_records st) j)"
    "rs_operation_jobs st' = filter (\<lambda>kv. contents s' (fst (snd kv)) \<noteq> None) (rs_operation_jobs st)"
proof -
  obtain ps where ld: "store_load s = (Inr ps, s')"
    and st': "st' = \<lparr>rs_records = filter (\<lambda>kv. fst kv \<in> sn_job_id ` set ps) (rs_records st),
        rs_operation_jobs = filter (\<lambda>kv. fst (snd kv) \<in> sn_job_id ` set ps) (rs_operation_jobs st)\<rparr>"
    using cl by (auto simp: cleanup_retained_state_def retention_cleanup_receipt_def Let_def split: prod.splits sum.splits)
  show "wf s'" by (rule load_wf [OF s ld])
  have k: "j \<in> sn_job_id ` set ps \<longleftrightarrow> contents s' j \<noteq> None" for j
    using load_contents [OF s ld] map_of_job_ids_dom [of ps j] by auto
  have f: "map_of (rs_records st') j = (if j \<in> sn_job_id ` set ps then map_of (rs_records st) j else None)"
    by (simp add: st' map_of_filter_key [of "\<lambda>i. i \<in> sn_job_id ` set ps"])
  then show r: "map_of (rs_records st') j = (if contents s' j = None then None else map_of (rs_records st) j)"
    using k [of j] by argo
  show "contents s' j = map_option jr_snapshot (map_of (rs_records st') j)"
    using r agree [of j] load_keeps [OF s ld] by (auto simp: map_le_def dom_def)
  show "rs_operation_jobs st' = filter (\<lambda>kv. contents s' (fst (snd kv)) \<noteq> None) (rs_operation_jobs st)"
    by (simp add: st' k)
qed

end

section \<open>The store keeps the contract\<close>

definition store_contents :: "job_store \<Rightarrow> uuid \<Rightarrow> job_snapshot option" where
  "store_contents s j =
     (case map_of (jst_metadata s) j of Some (Metadata p) \<Rightarrow> Some p | _ \<Rightarrow> None)"

text \<open>Every file is named after the job it describes.\<close>

fun file_named :: "uuid \<times> metadata_file \<Rightarrow> bool" where
  "file_named (k, Metadata p) = (sn_job_id p = k)"
| "file_named (k, Unparsable) = True"

definition store_wf :: "job_store \<Rightarrow> bool" where
  "store_wf s \<longleftrightarrow> distinct (map fst (jst_metadata s)) \<and> list_all file_named (jst_metadata s)"

fun file_kept :: "int \<Rightarrow> metadata_file \<Rightarrow> bool" where
  "file_kept expiry (Metadata p) = (expiry \<le> dt_instant (sn_updated_at p))"
| "file_kept expiry Unparsable = True"

fun file_ok :: "metadata_file \<Rightarrow> bool" where
  "file_ok (Metadata p) = snapshot_ok p"
| "file_ok Unparsable = False"

fun snapshots_of :: "(uuid \<times> metadata_file) list \<Rightarrow> job_snapshot list" where
  "snapshots_of [] = []"
| "snapshots_of ((k, Metadata p) # fs) = p # snapshots_of fs"
| "snapshots_of ((k, Unparsable) # fs) = snapshots_of fs"

text \<open>What loading does to the directory, whether or not it succeeds.\<close>

lemma delete_is_filter: "AList.delete k xs = filter (\<lambda>kv. fst kv \<noteq> k) xs"
  by (induction xs) auto

lemma load_files_bad:
  "\<not> snapshot_ok p \<Longrightarrow> load_files expiry ((k, Metadata p) # fs) s = (Inl (InvalidJobMetadataError k), s)"
  using make_snapshot_Inr [of p] by (auto simp: snapshot_ok_def split: sum.splits)

lemma load_files_ok:
  assumes "snapshot_ok p"
  shows "load_files expiry ((k, Metadata p) # fs) s =
    (if file_kept expiry (Metadata p)
     then (case load_files expiry fs s of (Inl e, s1) \<Rightarrow> (Inl e, s1) | (Inr qs, s1) \<Rightarrow> (Inr (p # qs), s1))
     else load_files expiry fs (delete_job (sn_job_id p) k s))"
proof -
  have "\<not> tz_missing (sn_updated_at p)" using assms by (simp add: snapshot_ok_iff)
  then have "dt_le (Aware expiry) (sn_updated_at p) = Some (file_kept expiry (Metadata p))"
    by (cases "sn_updated_at p") auto
  then show ?thesis using assms by (simp add: snapshot_ok_def)
qed

lemma file_cases [case_names unparsable bad ok]:
  assumes "f = Unparsable \<Longrightarrow> Q" "\<And>p. f = Metadata p \<Longrightarrow> \<not> snapshot_ok p \<Longrightarrow> Q"
    "\<And>p. f = Metadata p \<Longrightarrow> snapshot_ok p \<Longrightarrow> Q"
  shows Q
  using assms by (cases f) blast+

lemma load_files_filter:
  "load_files expiry fs s = (r, s') \<Longrightarrow> \<exists>ks. jst_metadata s' = filter (\<lambda>kv. fst kv \<notin> ks) (jst_metadata s)"
proof (induction fs arbitrary: s r s')
  case Nil
  then show ?case by (intro exI [of _ "{}"]) simp
next
  case (Cons kf fs)
  obtain k f where kf: "kf = (k, f)" by (cases kf) auto
  show ?case
  proof (cases f rule: file_cases)
    case unparsable
    then show ?thesis using Cons.prems by (intro exI [of _ "{}"]) (simp add: kf)
  next
    case (bad p)
    then show ?thesis using Cons.prems by (intro exI [of _ "{}"]) (simp add: kf load_files_bad del: load_files.simps)
  next
    case (ok p)
    show ?thesis
    proof (cases "file_kept expiry f")
      case True
      then obtain r1 where "load_files expiry fs s = (r1, s')"
        using Cons.prems ok by (auto simp: kf load_files_ok simp del: load_files.simps split: prod.splits sum.splits)
      then show ?thesis by (rule Cons.IH)
    next
      case False
      then have "load_files expiry fs (delete_job (sn_job_id p) k s) = (r, s')"
        using Cons.prems ok by (simp add: kf load_files_ok del: load_files.simps)
      then obtain ks where "jst_metadata s' = filter (\<lambda>kv. fst kv \<notin> ks) (filter (\<lambda>kv. fst kv \<noteq> k) (jst_metadata s))"
        using Cons.IH by (fastforce simp: delete_job_def delete_is_filter)
      then show ?thesis by (intro exI [of _ "insert k ks"]) (simp add: conj_commute cong: filter_cong)
    qed
  qed
qed

lemma load_files_Inr:
  assumes "load_files expiry fs s = (Inr ps, s')"
  shows "list_all (\<lambda>kv. file_ok (snd kv)) fs \<and> ps = snapshots_of (filter (\<lambda>kv. file_kept expiry (snd kv)) fs) \<and>
    jst_metadata s' = filter (\<lambda>kv. fst kv \<notin> fst ` {kv \<in> set fs. \<not> file_kept expiry (snd kv)}) (jst_metadata s)"
  using assms
proof (induction fs arbitrary: s ps s')
  case (Cons kf fs)
  obtain k f where kf: "kf = (k, f)" by (cases kf) auto
  show ?case
  proof (cases f rule: file_cases)
    case (ok p)
    show ?thesis
    proof (cases "file_kept expiry f")
      case True
      then obtain qs where l: "load_files expiry fs s = (Inr qs, s')" "ps = p # qs"
        using Cons.prems ok by (auto simp: kf load_files_ok simp del: load_files.simps split: prod.splits sum.splits)
      have same: "{kv \<in> set (kf # fs). \<not> file_kept expiry (snd kv)} = {kv \<in> set fs. \<not> file_kept expiry (snd kv)}"
        using True by (auto simp: kf)
      show ?thesis using Cons.IH [OF l(1)] l(2) True ok unfolding same by (simp add: kf)
    next
      case False
      then have l: "load_files expiry fs (delete_job (sn_job_id p) k s) = (Inr ps, s')"
        using Cons.prems ok by (simp add: kf load_files_ok del: load_files.simps)
      have same: "{kv \<in> set (kf # fs). \<not> file_kept expiry (snd kv)} =
          insert kf {kv \<in> set fs. \<not> file_kept expiry (snd kv)}"
        using False by (auto simp: kf)
      show ?thesis using Cons.IH [OF l] False ok unfolding same
        by (simp add: kf delete_job_def delete_is_filter conj_commute)
    qed
  qed (use Cons.prems in \<open>simp_all add: kf load_files_bad del: load_files.simps(3)\<close>)
qed simp

lemma load_files_total:
  "list_all (\<lambda>kv. file_ok (snd kv)) fs \<Longrightarrow> \<exists>ps s'. load_files expiry fs s = (Inr ps, s')"
proof (induction fs arbitrary: s)
  case (Cons kf fs)
  obtain k f where kf: "kf = (k, f)" by (cases kf) auto
  then obtain p where p: "f = Metadata p" "snapshot_ok p" using Cons.prems by (cases f) auto
  show ?case
  proof (cases "file_kept expiry f")
    case True
    then show ?thesis using Cons.IH [of s] Cons.prems p
      by (auto simp: kf load_files_ok simp del: load_files.simps)
  next
    case False
    then show ?thesis using Cons.IH [of "delete_job (sn_job_id p) k s"] Cons.prems p
      by (auto simp: kf load_files_ok simp del: load_files.simps)
  qed
qed simp

lemma snapshots_of_keys:
  "list_all file_named fs \<Longrightarrow> list_all (\<lambda>kv. file_ok (snd kv)) fs \<Longrightarrow> map sn_job_id (snapshots_of fs) = map fst fs"
  by (induction fs rule: snapshots_of.induct) auto

lemma snapshots_of_map:
  "list_all file_named fs \<Longrightarrow> list_all (\<lambda>kv. file_ok (snd kv)) fs \<Longrightarrow>
    map_of (map (\<lambda>p. (sn_job_id p, p)) (snapshots_of fs)) j =
      (case map_of fs j of Some (Metadata p) \<Rightarrow> Some p | _ \<Rightarrow> None)"
  by (induction fs rule: snapshots_of.induct) auto

lemma load_Inr:
  assumes wf: "store_wf s" and ld: "load now s = (Inr ps, s')"
  defines "fs \<equiv> filter (\<lambda>kv. file_kept (now - jst_retention s) (snd kv)) (jst_metadata s)"
  shows "jst_metadata s' = fs" "ps = snapshots_of fs" "list_all (\<lambda>kv. file_ok (snd kv)) (jst_metadata s)"
proof -
  have d: "distinct (map fst (jst_metadata s))" using wf by (simp add: store_wf_def)
  note l = load_files_Inr [OF ld [unfolded load_def]]
  show "ps = snapshots_of fs" "list_all (\<lambda>kv. file_ok (snd kv)) (jst_metadata s)" using l by (simp_all add: fs_def)
  have "fst kv \<notin> fst ` {kv \<in> set (jst_metadata s). \<not> file_kept e (snd kv)} \<longleftrightarrow> file_kept e (snd kv)"
    if "kv \<in> set (jst_metadata s)" for kv e
    using d that by (auto simp: distinct_map inj_on_def image_iff) (metis fst_conv snd_conv)+
  then show "jst_metadata s' = fs" using l by (simp add: fs_def cong: filter_cong)
qed

lemma set_update_subset: "kv \<in> set (AList.update k v xs) \<Longrightarrow> kv = (k, v) \<or> kv \<in> set xs"
  by (induction xs) (auto split: if_splits)

lemma filter_named: "list_all file_named fs \<Longrightarrow> list_all file_named (filter P fs)"
  by (auto simp: list_all_iff)

lemma distinct_filter_keys: "distinct (map fst fs) \<Longrightarrow> distinct (map fst (filter P fs))"
  by (induction fs) auto

interpretation file_store: job_snapshot_store "load now" write_snapshot store_contents store_wf for now
proof unfold_locales
  fix s s' and ps :: "job_snapshot list"
  assume wf: "store_wf s" and ld: "load now s = (Inr ps, s')"
  note l = load_Inr [OF wf ld]
  show wf': "store_wf s'" using wf l(1) by (simp add: store_wf_def filter_named distinct_filter_keys)
  have ok: "list_all (\<lambda>kv. file_ok (snd kv)) (jst_metadata s')" using l(1,3) by (auto simp: list_all_iff)
  have ps: "ps = snapshots_of (jst_metadata s')" using l(1,2) by simp
  show "distinct (map sn_job_id ps)" using wf' ok unfolding ps by (simp add: snapshots_of_keys store_wf_def)
  show "store_contents s' = map_of (map (\<lambda>p. (sn_job_id p, p)) ps)"
    using wf' ok unfolding ps by (simp add: fun_eq_iff snapshots_of_map store_wf_def store_contents_def)
next
  fix s s' and r :: "job_error + job_snapshot list"
  assume "load now s = (r, s')"
  then obtain ks where "jst_metadata s' = filter (\<lambda>kv. fst kv \<notin> ks) (jst_metadata s)"
    using load_files_filter unfolding load_def by blast
  then show "store_contents s' \<subseteq>\<^sub>m store_contents s"
    using map_of_filter_key [of "\<lambda>k. k \<notin> ks" "jst_metadata s"]
    by (auto simp: map_le_def store_contents_def dom_def split: if_splits)
next
  fix s p
  assume "store_wf s"
  then show "store_wf (write_snapshot p s)"
    by (auto simp: store_wf_def write_snapshot_def distinct_update list_all_iff dest: set_update_subset)
  show "store_contents (write_snapshot p s) = (store_contents s)(sn_job_id p \<mapsto> p)"
    by (auto simp: fun_eq_iff store_contents_def write_snapshot_def update_conv')
qed

end
