(* ===== verification/Job_Registry.thy ===== *)
theory Job_Registry
  imports Job_Store Audit_Trail
begin

text \<open>
  The registry of background jobs (\<open>gateway/jobs.py\<close>, \<open>gateway/job_audit.py\<close>). Every block
  the code runs under the registry's lock is one operation here; a background run is the sequence of
  its blocks, between which other operations happen. Job processes belong to the Worker: creating
  one, its process identifier and its result are arguments of the operations, and the
  cancellations sent to processes are recorded.
\<close>

section \<open>The registry\<close>

text \<open>What \<open>wait\<close> returns (\<open>JobProcessResult\<close>).\<close>

record job_result =
  res_exit_code :: int
  res_stdout :: pystr
  res_stderr :: pystr
  res_stdout_bytes :: int
  res_stderr_bytes :: int
  res_truncated :: bool

record job_registry =
  reg_limits :: job_limits
  reg_store :: job_store
  reg_records :: "(uuid \<times> job_record) list"
  reg_operation_jobs :: "(uuid \<times> uuid \<times> pystr) list"
  reg_closed :: bool
  reg_submitted :: "(uuid \<times> job_spec) list"
  reg_cancelled :: "nat list"
  reg_audit :: "audit_input list option"

definition make_registry ::
  "job_limits \<Rightarrow> job_store \<Rightarrow> bool \<Rightarrow> int \<Rightarrow> int \<Rightarrow> (job_error + job_registry) \<times> job_store" where
  "make_registry limits store audited now load_now =
     (if min (max_concurrent limits) (max_output_bytes limits) < 1 \<or> retention limits \<le> 0
      then (Inl InvalidJobConfigurationError, store)
      else (case recover_store (load load_now) write_snapshot (Aware now) (store\<lparr>jst_retention := retention limits\<rparr>) of
              (Inl e, store1) \<Rightarrow> (Inl e, store1)
            | (Inr recovered, store1) \<Rightarrow>
                (Inr \<lparr>reg_limits = limits, reg_store = store1, reg_records = rs_records recovered,
                      reg_operation_jobs = rs_operation_jobs recovered, reg_closed = False,
                      reg_submitted = [], reg_cancelled = [],
                      reg_audit = (if audited then Some [] else None)\<rparr>, store1)))"

definition get_job :: "uuid \<Rightarrow> job_registry \<Rightarrow> job_error + job_record" where
  "get_job j reg =
     (case map_of (reg_records reg) j of None \<Rightarrow> Inl (JobNotFoundError j) | Some r \<Rightarrow> Inr r)"

text \<open>Assigning a record's snapshot and writing it to the store, the pair of steps all operations share.\<close>

definition put_record :: "uuid \<Rightarrow> job_record \<Rightarrow> job_registry \<Rightarrow> job_registry" where
  "put_record j r reg = reg\<lparr>reg_records := AList.update j r (reg_records reg)\<rparr>"

definition store_snapshot :: "job_snapshot \<Rightarrow> job_registry \<Rightarrow> job_registry" where
  "store_snapshot p reg = reg\<lparr>reg_store := write_snapshot p (reg_store reg)\<rparr>"

section \<open>Starting\<close>

definition spec_ok :: "job_spec \<Rightarrow> bool" where
  "spec_ok spec \<longleftrightarrow> spec_argv spec \<noteq> [] \<and> \<not> list_ex (\<lambda>v. v = [] \<or> 0 \<in> set v) (spec_argv spec)"

definition queued_snapshot :: "uuid \<Rightarrow> job_spec \<Rightarrow> pystr \<Rightarrow> int \<Rightarrow> job_snapshot" where
  "queued_snapshot j spec digest now =
     \<lparr>sn_job_id = j, sn_operation_id = spec_operation_id spec, sn_request_digest = digest,
      sn_kind = spec_kind spec, sn_state = QUEUED, sn_created_at = Aware now, sn_updated_at = Aware now,
      sn_exit_code = None, sn_pid = None, sn_stdout_bytes = 0, sn_stderr_bytes = 0,
      sn_retained_bytes = 0, sn_truncated = False\<rparr>"

text \<open>The new identifier is the caller's or a fresh \<open>uuid4()\<close>.\<close>

definition start ::
  "int \<Rightarrow> uuid \<Rightarrow> job_spec \<Rightarrow> uuid option \<Rightarrow> job_registry \<Rightarrow> (job_error + job_snapshot) \<times> job_registry" where
  "start now fresh spec job_id reg =
     (if \<not> spec_ok spec then (Inl InvalidJobSpecError, reg)
      else if reg_closed reg then (Inl JobRegistryClosedError, reg)
      else (case job_request_digest spec (reg_limits reg) of
              Inl e \<Rightarrow> (Inl e, reg)
            | Inr digest \<Rightarrow>
                (case map_of (reg_operation_jobs reg) (spec_operation_id spec) of
                   Some (existing_id, existing_digest) \<Rightarrow>
                     if existing_digest \<noteq> digest
                     then (Inl (JobReplayConflictError (spec_operation_id spec)), reg)
                     else (case map_of (reg_records reg) existing_id of
                             None \<Rightarrow> (Inl (JobKeyError existing_id), reg)
                           | Some r \<Rightarrow> (Inr (jr_snapshot r), reg))
                 | None \<Rightarrow>
                     (let j = (case job_id of Some i \<Rightarrow> i | None \<Rightarrow> fresh) in
                      if map_of (reg_records reg) j \<noteq> None
                      then (Inl (JobReplayConflictError (spec_operation_id spec)), reg)
                      else (case make_snapshot (queued_snapshot j spec digest now) of
                              Inl e \<Rightarrow> (Inl e, reg)
                            | Inr p \<Rightarrow>
                                (Inr p,
                                 store_snapshot p
                                   ((put_record j (new_record p) reg)
                                     \<lparr>reg_operation_jobs :=
                                        AList.update (spec_operation_id spec) (j, digest) (reg_operation_jobs reg),
                                      reg_submitted := reg_submitted reg @ [(j, spec)]\<rparr>)))))))"

section \<open>Status and output\<close>

definition status :: "uuid \<Rightarrow> job_registry \<Rightarrow> job_error + job_snapshot" where
  "status j reg = bindR (get_job j reg) (\<lambda>r. Inr (jr_snapshot r))"

definition max_job_output_chunk_bytes :: int where
  "max_job_output_chunk_bytes = 65536"

record job_output =
  jo_job_id :: uuid
  jo_stream :: job_stream
  jo_data :: pystr
  jo_offset :: int
  jo_next_offset :: int
  jo_complete :: bool
  jo_total_bytes :: int
  jo_retained_bytes :: int
  jo_truncated :: bool

definition job_output_window :: "uuid \<Rightarrow> job_stream \<Rightarrow> int \<Rightarrow> int \<Rightarrow> job_registry \<Rightarrow> job_error + job_output" where
  "job_output_window j stream offset limit reg =
     (if offset < 0 \<or> limit < 1 \<or> limit > max_job_output_chunk_bytes then Inl InvalidOutputWindowError
      else bindR (get_job j reg) (\<lambda>r.
        let snapshot = jr_snapshot r;
            data = read_output j stream (reg_store reg)
        in if utf8_decode (take (nat offset) data) = None then Inl InvalidOutputWindowError
           else (let text = utf8_ignore (take (nat limit) (drop (nat offset) data)) in
                 case utf8_encode text of
                   None \<Rightarrow> Inl JobUnicodeError
                 | Some encoded \<Rightarrow>
                     (let consumed = int (length encoded) in
                      Inr \<lparr>jo_job_id = j, jo_stream = stream, jo_data = text, jo_offset = offset,
                           jo_next_offset = offset + consumed,
                           jo_complete = (offset + consumed \<ge> int (length data)),
                           jo_total_bytes = (case stream of Stdout \<Rightarrow> sn_stdout_bytes snapshot
                                                          | Stderr \<Rightarrow> sn_stderr_bytes snapshot),
                           jo_retained_bytes = int (length data),
                           jo_truncated = sn_truncated snapshot\<rparr>))))"

section \<open>Auditing\<close>

definition for_terminal_state :: "job_state \<Rightarrow> job_error + audit_outcome \<times> audit_error_code option" where
  "for_terminal_state st =
     (case st of
        SUCCEEDED \<Rightarrow> Inr (AuditSucceeded, None)
      | FAILED \<Rightarrow> Inr (AuditFailed, Some JOB_FAILED)
      | CANCELLED \<Rightarrow> Inr (AuditRejected, Some JOB_CANCELLED)
      | INTERRUPTED \<Rightarrow> Inr (AuditRejected, Some JOB_INTERRUPTED)
      | QUEUED \<Rightarrow> Inl (InvalidTerminalJobStateError QUEUED)
      | RUNNING \<Rightarrow> Inl (InvalidTerminalJobStateError RUNNING))"

text \<open>\<open>str\<close> of an identifier: 32 hexadecimal digits in groups.\<close>

definition uuid_str :: "uuid \<Rightarrow> pystr" where
  "uuid_str u =
     hex_digits 8 (u div 2 ^ 96) @ 45 # hex_digits 4 (u div 2 ^ 80 mod 2 ^ 16) @
     45 # hex_digits 4 (u div 2 ^ 64 mod 2 ^ 16) @ 45 # hex_digits 4 (u div 2 ^ 48 mod 2 ^ 16) @
     45 # hex_digits 12 (u mod 2 ^ 48)"

definition job_audit_input ::
  "int \<Rightarrow> uuid \<Rightarrow> job_snapshot \<Rightarrow> audit_outcome \<times> audit_error_code option \<Rightarrow> pystr option \<Rightarrow> pystr option \<Rightarrow> audit_input" where
  "job_audit_input now event p verdict out err =
     \<lparr>ai_event_id = event, ai_occurred_at = Aware now,
      ai_tool_name = (if sn_state p = CANCELLED then ''job_cancel'' else ''job_start''),
      ai_operation_id = Some (sn_operation_id p),
      ai_payload = JObj [(ustr ''job_id'', JStr (uuid_str (sn_job_id p))),
                         (ustr ''kind'', JStr (ustr (kind_value (sn_kind p))))],
      ai_outcome = fst verdict, ai_error_code = snd verdict, ai_approval = None,
      ai_stdout = out, ai_stderr = err, ai_screenshot_body = None, ai_untrusted_text = None\<rparr>"

definition record_audit ::
  "int \<Rightarrow> uuid \<Rightarrow> job_snapshot \<Rightarrow> pystr option \<Rightarrow> pystr option \<Rightarrow> job_registry \<Rightarrow> (job_error + unit) \<times> job_registry" where
  "record_audit now event p out err reg =
     (case reg_audit reg of
        None \<Rightarrow> (Inr (), reg)
      | Some entries \<Rightarrow>
          (case for_terminal_state (sn_state p) of
             Inl e \<Rightarrow> (Inl e, reg)
           | Inr verdict \<Rightarrow> (Inr (), reg\<lparr>reg_audit := Some (entries @ [job_audit_input now event p verdict out err])\<rparr>)))"

section \<open>Cancelling, closing and retention\<close>

definition cancel_process :: "job_process \<Rightarrow> job_registry \<Rightarrow> job_registry" where
  "cancel_process p reg = reg\<lparr>reg_cancelled := reg_cancelled reg @ [jp_handle p]\<rparr>"

definition cancel :: "int \<Rightarrow> uuid \<Rightarrow> uuid \<Rightarrow> job_registry \<Rightarrow> (job_error + job_snapshot) \<times> job_registry" where
  "cancel now event j reg =
     (case get_job j reg of
        Inl e \<Rightarrow> (Inl e, reg)
      | Inr r \<Rightarrow>
          if sn_state (jr_snapshot r) \<in> terminal_job_states then (Inr (jr_snapshot r), reg)
          else (let cancelled = (jr_snapshot r)\<lparr>sn_state := CANCELLED, sn_updated_at := Aware now\<rparr>;
                    reg1 = store_snapshot cancelled (put_record j (r\<lparr>jr_snapshot := cancelled\<rparr>) reg);
                    reg2 = (case jr_process r of None \<Rightarrow> reg1 | Some p \<Rightarrow> cancel_process p reg1)
                in case record_audit now event cancelled None None reg2 of
                     (Inl e, reg3) \<Rightarrow> (Inl e, reg3)
                   | (Inr _, reg3) \<Rightarrow> (Inr cancelled, reg3)))"

text \<open>The block of \<open>close\<close> under the lock; it then cancels the jobs of the list one after the other.\<close>

definition close_begin :: "job_registry \<Rightarrow> uuid list \<times> job_registry" where
  "close_begin reg =
     (if reg_closed reg then ([], reg)
      else (map fst (filter (\<lambda>kv. sn_state (jr_snapshot (snd kv)) \<notin> terminal_job_states) (reg_records reg)),
            reg\<lparr>reg_closed := True\<rparr>))"

definition cleanup_retention :: "int \<Rightarrow> job_registry \<Rightarrow> (job_error + cleanup_receipt) \<times> job_registry" where
  "cleanup_retention now reg =
     (case cleanup_retained_state (load now)
             \<lparr>rs_records = reg_records reg, rs_operation_jobs = reg_operation_jobs reg\<rparr> (reg_store reg) of
        (Inl e, store1) \<Rightarrow> (Inl e, reg\<lparr>reg_store := store1\<rparr>)
      | (Inr (receipt, kept), store1) \<Rightarrow>
          (Inr receipt, reg\<lparr>reg_store := store1, reg_records := rs_records kept,
                            reg_operation_jobs := rs_operation_jobs kept\<rparr>))"

section \<open>A background run\<close>

definition run_admit :: "uuid \<Rightarrow> job_registry \<Rightarrow> job_error + bool" where
  "run_admit j reg = bindR (get_job j reg) (\<lambda>r. Inr (sn_state (jr_snapshot r) \<noteq> CANCELLED))"

definition run_spawn_failed :: "int \<Rightarrow> uuid \<Rightarrow> uuid \<Rightarrow> job_registry \<Rightarrow> (job_error + unit) \<times> job_registry" where
  "run_spawn_failed now event j reg =
     (case get_job j reg of
        Inl e \<Rightarrow> (Inl e, reg)
      | Inr r \<Rightarrow>
          (let failed = (jr_snapshot r)\<lparr>sn_state := FAILED, sn_updated_at := Aware now\<rparr>
           in record_audit now event failed None None
                (store_snapshot failed (put_record j (r\<lparr>jr_snapshot := failed\<rparr>) reg))))"

definition run_spawned :: "int \<Rightarrow> uuid \<Rightarrow> job_process \<Rightarrow> job_registry \<Rightarrow> (job_error + unit) \<times> job_registry" where
  "run_spawned now j p reg =
     (case get_job j reg of
        Inl e \<Rightarrow> (Inl e, reg)
      | Inr r \<Rightarrow>
          if sn_state (jr_snapshot r) = CANCELLED
          then (Inr (), cancel_process p (put_record j (r\<lparr>jr_process := Some p\<rparr>) reg))
          else (let running = (jr_snapshot r)\<lparr>sn_state := RUNNING, sn_pid := Some (jp_pid p), sn_updated_at := Aware now\<rparr>
                in (Inr (), store_snapshot running
                      (put_record j (r\<lparr>jr_snapshot := running, jr_process := Some p\<rparr>) reg))))"

definition finished_snapshot :: "int \<Rightarrow> job_result \<Rightarrow> nat \<Rightarrow> job_snapshot \<Rightarrow> job_snapshot" where
  "finished_snapshot now res retained p =
     p\<lparr>sn_state := (if sn_state p \<noteq> CANCELLED
                    then (if res_exit_code res = 0 then SUCCEEDED else FAILED) else sn_state p),
       sn_exit_code := Some (res_exit_code res), sn_updated_at := Aware now,
       sn_stdout_bytes := res_stdout_bytes res, sn_stderr_bytes := res_stderr_bytes res,
       sn_retained_bytes := int retained, sn_truncated := res_truncated res\<rparr>"

definition run_finished :: "int \<Rightarrow> uuid \<Rightarrow> uuid \<Rightarrow> job_result \<Rightarrow> job_registry \<Rightarrow> (job_error + unit) \<times> job_registry" where
  "run_finished now event j res reg =
     (case get_job j reg of
        Inl e \<Rightarrow> (Inl e, reg)
      | Inr r \<Rightarrow>
          (case write_output j Stdout (res_stdout res) (reg_store reg) of
             (Inl e, st1) \<Rightarrow> (Inl e, reg\<lparr>reg_store := st1\<rparr>)
           | (Inr _, st1) \<Rightarrow>
          (case write_output j Stderr (res_stderr res) st1 of
             (Inl e, st2) \<Rightarrow> (Inl e, reg\<lparr>reg_store := st2\<rparr>)
           | (Inr _, st2) \<Rightarrow>
          (case (utf8_encode (res_stdout res), utf8_encode (res_stderr res)) of
             (Some a, Some b) \<Rightarrow>
               (let p = finished_snapshot now res (length a + length b) (jr_snapshot r);
                    reg1 = store_snapshot p (put_record j (r\<lparr>jr_snapshot := p\<rparr>) (reg\<lparr>reg_store := st2\<rparr>))
                in case record_audit now event p (Some (res_stdout res)) (Some (res_stderr res)) reg1 of
                     (Inl e, reg2) \<Rightarrow> (Inl e, reg2)
                   | (Inr _, reg2) \<Rightarrow> (Inr (), put_record j \<lparr>jr_snapshot = p, jr_process = None\<rparr> reg2))
           | _ \<Rightarrow> (Inl JobUnicodeError, reg\<lparr>reg_store := st2\<rparr>)))))"

section \<open>Interleaved runs\<close>

text \<open>
  \<open>sys_active\<close> holds the runs the executor's threads are in the middle of: creating the process, or
  waiting for it. The executor takes submitted runs in order, at most \<open>max_concurrent\<close> at a time.
\<close>

datatype run_phase = Spawning job_spec | Waiting job_process

record job_system =
  sys_registry :: job_registry
  sys_active :: "(uuid \<times> run_phase) list"
  sys_clock :: int

datatype job_event =
    StartJob job_spec "uuid option" uuid
  | CancelJob uuid uuid
  | CloseRegistry
  | CleanupRetention
  | TakeJob
  | SpawnFails uuid uuid
  | Spawns uuid job_process
  | Finishes uuid job_result uuid

text \<open>
  What the environment promises: identifiers drawn or passed for a new job are not those of a run still in
  progress, process identifiers are positive, byte counts are not negative, and output is text decoded from UTF-8.
\<close>

fun event_ok :: "job_event \<Rightarrow> job_system \<Rightarrow> bool" where
  "event_ok (StartJob spec job_id fresh) \<sigma> =
     ((case job_id of Some i \<Rightarrow> i | None \<Rightarrow> fresh) \<notin>
        fst ` set (reg_submitted (sys_registry \<sigma>)) \<union> fst ` set (sys_active \<sigma>))"
| "event_ok (Spawns j p) \<sigma> = (0 < jp_pid p)"
| "event_ok (Finishes j res event) \<sigma> =
     (0 \<le> res_stdout_bytes res \<and> 0 \<le> res_stderr_bytes res \<and>
      utf8_encode (res_stdout res) \<noteq> None \<and> utf8_encode (res_stderr res) \<noteq> None)"
| "event_ok _ \<sigma> = True"

text \<open>The step an event makes at time \<open>t\<close>; \<open>None\<close> when it cannot happen.\<close>

fun job_apply :: "int \<Rightarrow> job_event \<Rightarrow> job_system \<Rightarrow> job_system option" where
  "job_apply t (StartJob spec job_id fresh) \<sigma> =
     Some (\<sigma>\<lparr>sys_registry := snd (start t fresh spec job_id (sys_registry \<sigma>)), sys_clock := t\<rparr>)"
| "job_apply t (CancelJob j event) \<sigma> =
     Some (\<sigma>\<lparr>sys_registry := snd (cancel t event j (sys_registry \<sigma>)), sys_clock := t\<rparr>)"
| "job_apply t CloseRegistry \<sigma> =
     Some (\<sigma>\<lparr>sys_registry := snd (close_begin (sys_registry \<sigma>)), sys_clock := t\<rparr>)"
| "job_apply t CleanupRetention \<sigma> =
     Some (\<sigma>\<lparr>sys_registry := snd (cleanup_retention t (sys_registry \<sigma>)), sys_clock := t\<rparr>)"
| "job_apply t TakeJob \<sigma> =
     (case reg_submitted (sys_registry \<sigma>) of
        [] \<Rightarrow> None
      | (j, spec) # rest \<Rightarrow>
          if int (length (sys_active \<sigma>)) < max_concurrent (reg_limits (sys_registry \<sigma>))
          then Some (\<sigma>\<lparr>sys_registry := (sys_registry \<sigma>)\<lparr>reg_submitted := rest\<rparr>,
                       sys_active := (if run_admit j (sys_registry \<sigma>) = Inr True
                                      then (j, Spawning spec) # sys_active \<sigma> else sys_active \<sigma>),
                       sys_clock := t\<rparr>)
          else None)"
| "job_apply t (SpawnFails j event) \<sigma> =
     (case map_of (sys_active \<sigma>) j of
        Some (Spawning spec) \<Rightarrow>
          Some (\<sigma>\<lparr>sys_registry := snd (run_spawn_failed t event j (sys_registry \<sigma>)),
                  sys_active := AList.delete j (sys_active \<sigma>), sys_clock := t\<rparr>)
      | _ \<Rightarrow> None)"
| "job_apply t (Spawns j p) \<sigma> =
     (case map_of (sys_active \<sigma>) j of
        Some (Spawning spec) \<Rightarrow>
          (case run_spawned t j p (sys_registry \<sigma>) of
             (Inl _, reg) \<Rightarrow> Some (\<sigma>\<lparr>sys_registry := reg, sys_active := AList.delete j (sys_active \<sigma>), sys_clock := t\<rparr>)
           | (Inr _, reg) \<Rightarrow> Some (\<sigma>\<lparr>sys_registry := reg, sys_active := AList.update j (Waiting p) (sys_active \<sigma>), sys_clock := t\<rparr>))
      | _ \<Rightarrow> None)"
| "job_apply t (Finishes j res event) \<sigma> =
     (case map_of (sys_active \<sigma>) j of
        Some (Waiting p) \<Rightarrow>
          Some (\<sigma>\<lparr>sys_registry := snd (run_finished t event j res (sys_registry \<sigma>)),
                  sys_active := AList.delete j (sys_active \<sigma>), sys_clock := t\<rparr>)
      | _ \<Rightarrow> None)"

inductive job_reachable :: "job_system \<Rightarrow> bool" where
  created: "store_wf store \<Longrightarrow> make_registry limits store audited now load_now = (Inr reg, store') \<Longrightarrow>
    (\<And>j p. store_contents store j = Some p \<Longrightarrow> dt_instant (sn_updated_at p) \<le> now) \<Longrightarrow>
    now \<le> t \<Longrightarrow> job_reachable \<lparr>sys_registry = reg, sys_active = [], sys_clock = t\<rparr>"
| step: "job_reachable \<sigma> \<Longrightarrow> sys_clock \<sigma> \<le> t \<Longrightarrow> event_ok e \<sigma> \<Longrightarrow> job_apply t e \<sigma> = Some \<sigma>' \<Longrightarrow>
    job_reachable \<sigma>'"

section \<open>What memory and disk agree on\<close>

definition jobs_inv :: "int \<Rightarrow> job_store \<Rightarrow> (uuid \<times> job_record) list \<Rightarrow> (uuid \<times> uuid \<times> pystr) list \<Rightarrow> bool" where
  "jobs_inv clk store recs ops \<longleftrightarrow>
     store_wf store \<and> list_all (\<lambda>kv. file_ok (snd kv)) (jst_metadata store) \<and>
     (\<forall>j. store_contents store j = map_option jr_snapshot (map_of recs j)) \<and>
     (\<forall>j r. map_of recs j = Some r \<longrightarrow> sn_job_id (jr_snapshot r) = j \<and> snapshot_ok (jr_snapshot r) \<and>
        dt_instant (sn_updated_at (jr_snapshot r)) \<le> clk) \<and>
     distinct (map fst ops) \<and>
     (\<forall>op j d. map_of ops op = Some (j, d) \<longrightarrow>
        (\<exists>r. map_of recs j = Some r \<and> sn_operation_id (jr_snapshot r) = op \<and> sn_request_digest (jr_snapshot r) = d))"

lemma jobs_invD:
  assumes "jobs_inv clk store recs ops"
  shows "store_wf store" "list_all (\<lambda>kv. file_ok (snd kv)) (jst_metadata store)"
    "store_contents store j = map_option jr_snapshot (map_of recs j)"
    "map_of recs j = Some r \<Longrightarrow> sn_job_id (jr_snapshot r) = j"
    "map_of recs j = Some r \<Longrightarrow> snapshot_ok (jr_snapshot r)"
    "map_of recs j = Some r \<Longrightarrow> dt_instant (sn_updated_at (jr_snapshot r)) \<le> clk"
    "distinct (map fst ops)"
    "map_of ops op = Some (j, d) \<Longrightarrow> \<exists>r. map_of recs j = Some r \<and> sn_operation_id (jr_snapshot r) = op \<and>
       sn_request_digest (jr_snapshot r) = d"
  using assms by (simp_all add: jobs_inv_def)

lemma jobs_inv_mono: "jobs_inv clk store recs ops \<Longrightarrow> clk \<le> t \<Longrightarrow> jobs_inv t store recs ops"
  by (fastforce simp: jobs_inv_def)

lemma jobs_inv_outputs [simp]: "jobs_inv clk (store\<lparr>jst_outputs := f\<rparr>) recs ops = jobs_inv clk store recs ops"
  by (simp add: jobs_inv_def store_wf_def store_contents_def)

lemma write_snapshot_files:
  assumes "list_all (\<lambda>kv. file_ok (snd kv)) (jst_metadata store)" "snapshot_ok p"
  shows "list_all (\<lambda>kv. file_ok (snd kv)) (jst_metadata (write_snapshot p store))"
  using assms by (auto simp: list_all_iff write_snapshot_def dest!: set_update_subset)

lemma jobs_inv_put:
  assumes inv: "jobs_inv clk store recs ops" and r: "map_of recs j = Some r"
    and p: "sn_job_id p = j" "sn_operation_id p = sn_operation_id (jr_snapshot r)"
      "sn_request_digest p = sn_request_digest (jr_snapshot r)"
    and ok: "snapshot_ok p" "dt_instant (sn_updated_at p) \<le> t" "clk \<le> t" and r': "jr_snapshot r' = p"
  shows "jobs_inv t (write_snapshot p store) (AList.update j r' recs) ops"
  unfolding jobs_inv_def
proof (intro conjI allI impI)
  note D = jobs_invD [OF inv]
  show "store_wf (write_snapshot p store)" by (rule file_store.write_wf [OF D(1)])
  show "list_all (\<lambda>kv. file_ok (snd kv)) (jst_metadata (write_snapshot p store))"
    by (rule write_snapshot_files [OF D(2) ok(1)])
  show "store_contents (write_snapshot p store) i = map_option jr_snapshot (map_of (AList.update j r' recs) i)" for i
    using file_store.write_contents [OF D(1), of p] D(3) by (simp add: update_conv' p(1) r')
  show "distinct (map fst ops)" by (rule D)
  fix i q
  assume q: "map_of (AList.update j r' recs) i = Some q"
  show "sn_job_id (jr_snapshot q) = i" "snapshot_ok (jr_snapshot q)" "dt_instant (sn_updated_at (jr_snapshot q)) \<le> t"
    using q D(4,5,6) [of i q] p(1) ok r' by (auto simp: update_conv' split: if_splits)
next
  fix op i d
  assume "map_of ops op = Some (i, d)"
  then show "\<exists>q. map_of (AList.update j r' recs) i = Some q \<and> sn_operation_id (jr_snapshot q) = op \<and>
      sn_request_digest (jr_snapshot q) = d"
    using jobs_invD(8) [OF inv] r p r' by (fastforce simp: update_conv')
qed

lemma jobs_inv_process:
  assumes inv: "jobs_inv clk store recs ops" and r: "map_of recs j = Some r"
    and r': "jr_snapshot r' = jr_snapshot r"
  shows "jobs_inv clk store (AList.update j r' recs) ops"
proof -
  note D = jobs_invD [OF inv]
  have "map_option jr_snapshot (map_of (AList.update j r' recs) i) = map_option jr_snapshot (map_of recs i)" for i
    by (simp add: update_conv' r r')
  moreover have "\<exists>q. map_of (AList.update j r' recs) i = Some q \<and> sn_operation_id (jr_snapshot q) = op \<and>
      sn_request_digest (jr_snapshot q) = d" if "map_of ops op = Some (i, d)" for op i d
    using D(8) [OF that] r r' by (fastforce simp: update_conv')
  ultimately show ?thesis
    using D(1,2,3,7) D(4,5,6) r r' unfolding jobs_inv_def by (auto simp: update_conv' split: if_splits)
qed

lemma jobs_inv_new:
  assumes inv: "jobs_inv clk store recs ops" and j: "map_of recs j = None" and op: "map_of ops op = None"
    and p: "sn_job_id p = j" "sn_operation_id p = op" "sn_request_digest p = d"
    and ok: "snapshot_ok p" "dt_instant (sn_updated_at p) \<le> t" "clk \<le> t"
  shows "jobs_inv t (write_snapshot p store) (AList.update j (new_record p) recs) (AList.update op (j, d) ops)"
  unfolding jobs_inv_def
proof (intro conjI allI impI)
  note D = jobs_invD [OF inv]
  show "store_wf (write_snapshot p store)" by (rule file_store.write_wf [OF D(1)])
  show "list_all (\<lambda>kv. file_ok (snd kv)) (jst_metadata (write_snapshot p store))"
    by (rule write_snapshot_files [OF D(2) ok(1)])
  show "store_contents (write_snapshot p store) i = map_option jr_snapshot (map_of (AList.update j (new_record p) recs) i)" for i
    using file_store.write_contents [OF D(1), of p] D(3) by (simp add: update_conv' p(1) new_record_def)
  show "distinct (map fst (AList.update op (j, d) ops))" using D(7) by (rule distinct_update)
  fix i q
  assume q: "map_of (AList.update j (new_record p) recs) i = Some q"
  show "sn_job_id (jr_snapshot q) = i" "snapshot_ok (jr_snapshot q)" "dt_instant (sn_updated_at (jr_snapshot q)) \<le> t"
    using q D(4,5,6) [of i q] p(1) ok by (auto simp: update_conv' new_record_def split: if_splits)
next
  fix o' i e
  assume a: "map_of (AList.update op (j, d) ops) o' = Some (i, e)"
  show "\<exists>q. map_of (AList.update j (new_record p) recs) i = Some q \<and> sn_operation_id (jr_snapshot q) = o' \<and>
      sn_request_digest (jr_snapshot q) = e"
  proof (cases "o' = op")
    case True
    then show ?thesis using a p by (auto simp: update_conv' new_record_def)
  next
    case False
    then have "map_of ops o' = Some (i, e)" using a by (simp add: update_conv')
    then show ?thesis using jobs_invD(8) [OF inv] j by (fastforce simp: update_conv')
  qed
qed

lemma map_of_filter_value:
  "distinct (map fst kvs) \<Longrightarrow> map_of (filter (\<lambda>kv. P (snd kv)) kvs) k =
    (case map_of kvs k of Some v \<Rightarrow> if P v then Some v else None | None \<Rightarrow> None)"
  by (induction kvs) (auto simp: map_of_eq_None_iff split: option.splits)

lemma jobs_inv_cleanup:
  assumes inv: "jobs_inv clk store recs ops"
    and cl: "cleanup_retained_state (load now) \<lparr>rs_records = recs, rs_operation_jobs = ops\<rparr> store = (Inr (receipt, kept), store1)"
  shows "jobs_inv clk store1 (rs_records kept) (rs_operation_jobs kept)"
proof -
  note D = jobs_invD [OF inv]
  have agree: "store_contents store i = map_option jr_snapshot (map_of (rs_records \<lparr>rs_records = recs, rs_operation_jobs = ops\<rparr>) i)" for i
    using D(3) by simp
  note C = file_store.cleanup_agrees [OF D(1) cl agree]
  have older: "map_of (rs_records kept) j = Some r \<Longrightarrow> map_of recs j = Some r"
    "store_contents store1 j \<noteq> None \<Longrightarrow> map_of (rs_records kept) j = map_of recs j" for j r
    using C(3) [of j] by (auto split: if_splits)
  have kept_ops: "rs_operation_jobs kept = filter (\<lambda>kv. store_contents store1 (fst (snd kv)) \<noteq> None) ops"
    using C(4) by (simp only: recovered_state.select_convs)
  obtain ps where ld: "load now store = (Inr ps, store1)"
    using cl by (auto simp: cleanup_retained_state_def Let_def split: prod.splits sum.splits)
  have "list_all (\<lambda>kv. file_ok (snd kv)) (jst_metadata store1)"
    using load_Inr [OF D(1) ld] by (auto simp: list_all_iff)
  moreover have "\<exists>r. map_of (rs_records kept) j = Some r \<and> sn_operation_id (jr_snapshot r) = op \<and> sn_request_digest (jr_snapshot r) = d"
    if "map_of (rs_operation_jobs kept) op = Some (j, d)" for op j d
  proof -
    have "(case map_of ops op of Some v \<Rightarrow> if store_contents store1 (fst v) \<noteq> None then Some v else None | None \<Rightarrow> None) = Some (j, d)"
      using that map_of_filter_value [OF D(7), of "\<lambda>v. store_contents store1 (fst v) \<noteq> None" op] by (simp only: kept_ops)
    then have "map_of ops op = Some (j, d)" "store_contents store1 j \<noteq> None"
      by (auto split: option.splits if_splits)
    then show ?thesis using D(8) [of op j d] older(2) [of j] by simp
  qed
  moreover have "distinct (map fst (rs_operation_jobs kept))" using D(7) unfolding kept_ops by (simp add: distinct_filter_keys)
  moreover have "sn_job_id (jr_snapshot r) = j \<and> snapshot_ok (jr_snapshot r) \<and>
      dt_instant (sn_updated_at (jr_snapshot r)) \<le> clk" if "map_of (rs_records kept) j = Some r" for j r
    using older(1) [OF that] D(4,5,6) by blast
  ultimately show ?thesis
    using C(1,2) unfolding jobs_inv_def by blast
qed

lemma recover_load:
  assumes "recover_store (load load_now) write_snapshot now store = (Inr st, store')"
  obtains ps store1 where "load load_now store = (Inr ps, store1)"
proof (cases "load load_now store")
  case (Pair r s1)
  then show ?thesis using assms that by (cases r) (auto simp: recover_store_def)
qed

lemma write_interrupted_files:
  assumes "list_all (\<lambda>kv. file_ok (snd kv)) (jst_metadata s)" "\<And>p. p \<in> set ps \<Longrightarrow> sn_job_id p \<in> set ids \<Longrightarrow> snapshot_ok p"
  shows "list_all (\<lambda>kv. file_ok (snd kv)) (jst_metadata (write_interrupted write_snapshot ids ps s))"
  using assms
proof (induction ps arbitrary: s)
  case (Cons p ps)
  have "write_interrupted write_snapshot ids (p # ps) s =
      write_interrupted write_snapshot ids ps (if sn_job_id p \<in> set ids then write_snapshot p s else s)"
    by (simp add: write_interrupted_def)
  then show ?case using Cons by (auto intro!: Cons.IH write_snapshot_files)
qed (simp add: write_interrupted_def)

lemma interrupt_stale_ok:
  assumes "snapshot_ok p" "dt_instant (sn_updated_at p) \<le> now"
  shows "snapshot_ok (interrupt_stale_snapshot p (Aware now)) \<and>
    dt_instant (sn_updated_at (interrupt_stale_snapshot p (Aware now))) \<le> now"
  using assms by (cases "sn_state p") (auto simp: snapshot_ok_iff interrupt_stale_snapshot_def snapshot_fields_ok_def)

text \<open>After recovery memory and disk agree, every snapshot is valid and no job is active.\<close>

lemma recover_jobs_inv:
  assumes wf: "store_wf store"
    and rec: "recover_store (load load_now) write_snapshot (Aware now) store = (Inr st, store')"
    and past: "\<And>j p. store_contents store j = Some p \<Longrightarrow> dt_instant (sn_updated_at p) \<le> now"
  shows "jobs_inv now store' (rs_records st) (rs_operation_jobs st)"
    and "map_of (rs_records st) j = Some r \<Longrightarrow>
      \<exists>q. store_contents store j = Some q \<and> r = new_record (interrupt_stale_snapshot q (Aware now))"
proof -
  obtain ps store1 where ld: "load load_now store = (Inr ps, store1)" by (rule recover_load [OF rec])
  note L = load_Inr [OF wf ld]
  obtain qs where Q: "store_wf store'" "distinct (map sn_job_id qs)"
    "store_contents store' = map_of (map (\<lambda>p. (sn_job_id p, p)) qs)"
    "map_of (rs_records st) = (\<lambda>j. map_option new_record (store_contents store' j))"
    "rs_operation_jobs st = dict_of (map (\<lambda>p. (sn_operation_id p, sn_job_id p, sn_request_digest p)) qs)"
    "\<forall>j p. store_contents store' j = Some p \<longrightarrow>
        (\<exists>q. store_contents store j = Some q \<and> p = interrupt_stale_snapshot q (Aware now))"
    using file_store.recover_agrees [OF wf rec] by (elim exE conjE) (rule that)
  have okS: "snapshot_ok q \<and> sn_job_id q = j" if "store_contents store j = Some q" for j q
  proof -
    have "(j, Metadata q) \<in> set (jst_metadata store)"
      using that by (auto simp: store_contents_def split: option.splits metadata_file.splits dest: map_of_SomeD)
    then show ?thesis using L(3) wf by (fastforce simp: list_all_iff store_wf_def)
  qed
  have ok': "snapshot_ok p \<and> sn_job_id p = j \<and> dt_instant (sn_updated_at p) \<le> now" if "store_contents store' j = Some p" for j p
    using Q(6) that okS past interrupt_stale_ok by fastforce
  have files: "list_all (\<lambda>kv. file_ok (snd kv)) (jst_metadata store')"
  proof -
    have "store' = write_interrupted write_snapshot (rr_interrupted_job_ids (recover_snapshots ps (Aware now)))
        (rr_snapshots (recover_snapshots ps (Aware now))) store1"
      using rec ld by (simp add: recover_store_def Let_def)
    moreover have "list_all (\<lambda>kv. file_ok (snd kv)) (jst_metadata store1)" using L(1,3) by (auto simp: list_all_iff)
    moreover have "snapshot_ok p" if sn: "p \<in> set (rr_snapshots (recover_snapshots ps (Aware now)))" for p
    proof -
      obtain q where q: "q \<in> set ps" "p = interrupt_stale_snapshot q (Aware now)"
        using sn by (auto simp: recover_snapshots_def)
      have "map_of (map (\<lambda>p. (sn_job_id p, p)) ps) (sn_job_id q) = Some q"
        using q(1) file_store.load_distinct [OF wf ld] by (intro map_of_is_SomeI) (auto simp: comp_def)
      then have "store_contents store1 (sn_job_id q) = Some q" by (simp add: file_store.load_contents [OF wf ld])
      then have "store_contents store (sn_job_id q) = Some q"
        using file_store.load_keeps [OF wf ld] by (metis map_le_def domI)
      then show ?thesis using okS past interrupt_stale_ok q(2) by blast
    qed
    ultimately show ?thesis by (auto intro: write_interrupted_files)
  qed
  have "\<exists>r. map_of (rs_records st) j = Some r \<and> sn_operation_id (jr_snapshot r) = op \<and> sn_request_digest (jr_snapshot r) = d"
    if "map_of (rs_operation_jobs st) op = Some (j, d)" for op j d
  proof -
    have "(op, j, d) \<in> set (map (\<lambda>p. (sn_operation_id p, sn_job_id p, sn_request_digest p)) qs)"
      using that unfolding Q(5) map_of_dict_of by (auto dest: map_of_SomeD)
    then obtain p where p: "p \<in> set qs" "sn_operation_id p = op" "sn_job_id p = j" "sn_request_digest p = d" by auto
    then have "store_contents store' j = Some p"
      unfolding Q(3) using Q(2) by (intro map_of_is_SomeI) (auto simp: comp_def)
    then show ?thesis using p by (simp add: Q(4) new_record_def)
  qed
  moreover have "distinct (map fst (rs_operation_jobs st))" unfolding Q(5) by (rule distinct_dict_of)
  moreover have "store_contents store' j = map_option jr_snapshot (map_of (rs_records st) j)" for j
    by (simp add: Q(4) option.map_comp comp_def new_record_def option.map_ident)
  moreover have "sn_job_id (jr_snapshot r) = j \<and> snapshot_ok (jr_snapshot r) \<and>
      dt_instant (sn_updated_at (jr_snapshot r)) \<le> now" if r: "map_of (rs_records st) j = Some r" for j r
  proof -
    obtain p where "store_contents store' j = Some p" "r = new_record p" using r by (auto simp: Q(4))
    then show ?thesis using ok' by (simp add: new_record_def)
  qed
  ultimately show "jobs_inv now store' (rs_records st) (rs_operation_jobs st)"
    using Q(1) files unfolding jobs_inv_def by blast
  show "map_of (rs_records st) j = Some r \<Longrightarrow>
      \<exists>q. store_contents store j = Some q \<and> r = new_record (interrupt_stale_snapshot q (Aware now))"
    using Q(6) by (auto simp: Q(4))
qed

section \<open>Effects of the operations\<close>

lemma record_audit_frame [simp, frame_simps]:
  "reg_store (snd (record_audit now ev p a b reg)) = reg_store reg"
  "reg_records (snd (record_audit now ev p a b reg)) = reg_records reg"
  "reg_operation_jobs (snd (record_audit now ev p a b reg)) = reg_operation_jobs reg"
  "reg_submitted (snd (record_audit now ev p a b reg)) = reg_submitted reg"
  "reg_cancelled (snd (record_audit now ev p a b reg)) = reg_cancelled reg"
  "reg_limits (snd (record_audit now ev p a b reg)) = reg_limits reg"
  by (simp_all add: record_audit_def split: option.splits sum.splits)

lemma record_audit_terminal:
  "sn_state p \<in> terminal_job_states \<Longrightarrow> fst (record_audit now ev p a b reg) = Inr ()"
  by (auto simp: record_audit_def for_terminal_state_def split: option.splits job_state.splits)

lemma put_store_simps [simp, frame_simps]:
  "reg_store (put_record j r reg) = reg_store reg"
  "reg_records (put_record j r reg) = AList.update j r (reg_records reg)"
  "reg_operation_jobs (put_record j r reg) = reg_operation_jobs reg"
  "reg_submitted (put_record j r reg) = reg_submitted reg"
  "reg_cancelled (put_record j r reg) = reg_cancelled reg"
  "reg_limits (put_record j r reg) = reg_limits reg"
  "reg_store (store_snapshot p reg) = write_snapshot p (reg_store reg)"
  "reg_records (store_snapshot p reg) = reg_records reg"
  "reg_operation_jobs (store_snapshot p reg) = reg_operation_jobs reg"
  "reg_submitted (store_snapshot p reg) = reg_submitted reg"
  "reg_cancelled (store_snapshot p reg) = reg_cancelled reg"
  "reg_limits (store_snapshot p reg) = reg_limits reg"
  "reg_store (cancel_process q reg) = reg_store reg"
  "reg_records (cancel_process q reg) = reg_records reg"
  "reg_operation_jobs (cancel_process q reg) = reg_operation_jobs reg"
  "reg_submitted (cancel_process q reg) = reg_submitted reg"
  "reg_cancelled (cancel_process q reg) = reg_cancelled reg @ [jp_handle q]"
  "reg_limits (cancel_process q reg) = reg_limits reg"
  by (simp_all add: put_record_def store_snapshot_def cancel_process_def)

lemma get_job_iff: "get_job j reg = Inr r \<longleftrightarrow> map_of (reg_records reg) j = Some r"
  "get_job j reg = Inl e \<longleftrightarrow> map_of (reg_records reg) j = None \<and> e = JobNotFoundError j"
  by (auto simp: get_job_def split: option.splits)

lemma encode_text_mode: "utf8_encode t = Some b \<Longrightarrow> \<exists>b'. utf8_encode (text_mode t) = Some b'"
proof (induction t arbitrary: b)
  case (Cons c t)
  then obtain x r u where "utf8_char c = Some (x # r)" "utf8_encode t = Some u"
    by (auto simp: utf8_encode_Cons simp del: utf8_encode.simps)
  moreover have "utf8_char 13 = Some [mkb 13]" "utf8_char 10 = Some [mkb 10]" by (simp_all add: utf8_char_def)
  ultimately show ?case using Cons.IH by (auto simp: text_mode_def)
qed (simp add: text_mode_def)

definition cancelled_of :: "int \<Rightarrow> job_record \<Rightarrow> job_snapshot" where
  "cancelled_of now r = (jr_snapshot r)\<lparr>sn_state := CANCELLED, sn_updated_at := Aware now\<rparr>"

lemma cancel_effect:
  obtains (same) "snd (cancel now ev j reg) = reg"
    | (active) r where "map_of (reg_records reg) j = Some r" "sn_state (jr_snapshot r) \<in> {QUEUED, RUNNING}"
      "fst (cancel now ev j reg) = Inr (cancelled_of now r)"
      "reg_store (snd (cancel now ev j reg)) = write_snapshot (cancelled_of now r) (reg_store reg)"
      "reg_records (snd (cancel now ev j reg)) = AList.update j (r\<lparr>jr_snapshot := cancelled_of now r\<rparr>) (reg_records reg)"
      "reg_operation_jobs (snd (cancel now ev j reg)) = reg_operation_jobs reg"
      "reg_submitted (snd (cancel now ev j reg)) = reg_submitted reg"
      "reg_cancelled (snd (cancel now ev j reg)) =
         reg_cancelled reg @ (case jr_process r of None \<Rightarrow> [] | Some p \<Rightarrow> [jp_handle p])"
proof (cases "get_job j reg")
  case (Inl e)
  then show ?thesis using same by (simp add: cancel_def)
next
  case (Inr r)
  show ?thesis
  proof (cases "sn_state (jr_snapshot r) \<in> terminal_job_states")
    case True
    then show ?thesis using same Inr by (simp add: cancel_def)
  next
    case False
    define reg1 where "reg1 = store_snapshot (cancelled_of now r) (put_record j (r\<lparr>jr_snapshot := cancelled_of now r\<rparr>) reg)"
    define reg2 where "reg2 = (case jr_process r of None \<Rightarrow> reg1 | Some p \<Rightarrow> cancel_process p reg1)"
    define reg3 where "reg3 = snd (record_audit now ev (cancelled_of now r) None None reg2)"
    have "fst (record_audit now ev (cancelled_of now r) None None reg2) = Inr ()"
      by (rule record_audit_terminal) (simp add: cancelled_of_def)
    then have c: "cancel now ev j reg = (Inr (cancelled_of now r), reg3)"
      using Inr False unfolding cancel_def Let_def reg3_def reg2_def reg1_def cancelled_of_def
      by (auto split: prod.splits sum.splits simp del: terminal_job_states_iff)
    show ?thesis
      by (rule active [of r])
        (use Inr False in \<open>auto simp: c get_job_iff reg3_def reg2_def reg1_def split: option.splits\<close>)
  qed
qed

definition failed_of :: "int \<Rightarrow> job_record \<Rightarrow> job_snapshot" where
  "failed_of now r = (jr_snapshot r)\<lparr>sn_state := FAILED, sn_updated_at := Aware now\<rparr>"

lemma run_spawn_failed_effect:
  obtains (same) "snd (run_spawn_failed now ev j reg) = reg" "map_of (reg_records reg) j = None"
    | (failed) r where "map_of (reg_records reg) j = Some r"
      "reg_store (snd (run_spawn_failed now ev j reg)) = write_snapshot (failed_of now r) (reg_store reg)"
      "reg_records (snd (run_spawn_failed now ev j reg)) = AList.update j (r\<lparr>jr_snapshot := failed_of now r\<rparr>) (reg_records reg)"
      "reg_operation_jobs (snd (run_spawn_failed now ev j reg)) = reg_operation_jobs reg"
      "reg_submitted (snd (run_spawn_failed now ev j reg)) = reg_submitted reg"
      "reg_cancelled (snd (run_spawn_failed now ev j reg)) = reg_cancelled reg"
proof (cases "get_job j reg")
  case (Inl e)
  show ?thesis by (rule same) (use Inl in \<open>simp_all add: run_spawn_failed_def get_job_def split: option.splits\<close>)
next
  case (Inr r)
  then have "run_spawn_failed now ev j reg = record_audit now ev (failed_of now r) None None
      (store_snapshot (failed_of now r) (put_record j (r\<lparr>jr_snapshot := failed_of now r\<rparr>) reg))"
    by (simp add: run_spawn_failed_def failed_of_def Let_def)
  then show ?thesis using Inr by (intro failed [of r]) (simp_all add: get_job_iff)
qed

text \<open>A run whose output is text finishes without an error.\<close>

lemma run_finished_eq:
  fixes now :: int
  assumes r: "map_of (reg_records reg) j = Some r"
    and ab: "utf8_encode (res_stdout res) = Some a" "utf8_encode (res_stderr res) = Some b"
    and ab': "utf8_encode (text_mode (res_stdout res)) = Some a'" "utf8_encode (text_mode (res_stderr res)) = Some b'"
  defines "p \<equiv> finished_snapshot now res (length a + length b) (jr_snapshot r)"
    and "f \<equiv> (jst_outputs (reg_store reg))((j, Stdout) \<mapsto> a', (j, Stderr) \<mapsto> b')"
  shows "run_finished now ev j res reg =
    (Inr (), put_record j \<lparr>jr_snapshot = p, jr_process = None\<rparr>
       (snd (record_audit now ev p (Some (res_stdout res)) (Some (res_stderr res))
          (store_snapshot p (put_record j (r\<lparr>jr_snapshot := p\<rparr>) (reg\<lparr>reg_store := (reg_store reg)\<lparr>jst_outputs := f\<rparr>\<rparr>))))))"
proof -
  define reg1 where "reg1 = store_snapshot p (put_record j (r\<lparr>jr_snapshot := p\<rparr>) (reg\<lparr>reg_store := (reg_store reg)\<lparr>jst_outputs := f\<rparr>\<rparr>))"
  define reg2 where "reg2 = snd (record_audit now ev p (Some (res_stdout res)) (Some (res_stderr res)) reg1)"
  have g: "get_job j reg = Inr r" using r by (simp add: get_job_iff)
  have w: "write_output j Stdout (res_stdout res) (reg_store reg) =
      (Inr (), (reg_store reg)\<lparr>jst_outputs := (jst_outputs (reg_store reg))((j, Stdout) \<mapsto> a')\<rparr>)"
    "write_output j Stderr (res_stderr res) ((reg_store reg)\<lparr>jst_outputs := (jst_outputs (reg_store reg))((j, Stdout) \<mapsto> a')\<rparr>) =
      (Inr (), (reg_store reg)\<lparr>jst_outputs := f\<rparr>)"
    by (simp_all add: write_output_def ab' f_def)
  have "sn_state p \<in> terminal_job_states" by (simp add: p_def finished_snapshot_def)
  then have "fst (record_audit now ev p (Some (res_stdout res)) (Some (res_stderr res)) reg1) = Inr ()"
    by (rule record_audit_terminal)
  then have ra: "record_audit now ev p (Some (res_stdout res)) (Some (res_stderr res)) reg1 = (Inr (), reg2)"
    unfolding reg2_def by (cases "record_audit now ev p (Some (res_stdout res)) (Some (res_stderr res)) reg1") simp
  show ?thesis
    unfolding run_finished_def g sum.case w prod.case ab option.case p_def [symmetric] Let_def reg1_def [symmetric] ra
      reg2_def [symmetric] by simp
qed

lemma run_finished_effect:
  assumes enc: "utf8_encode (res_stdout res) \<noteq> None" "utf8_encode (res_stderr res) \<noteq> None"
  obtains (same) "snd (run_finished now ev j res reg) = reg" "map_of (reg_records reg) j = None"
    | (finished) r k f where "map_of (reg_records reg) j = Some r"
      "reg_store (snd (run_finished now ev j res reg)) =
         write_snapshot (finished_snapshot now res k (jr_snapshot r)) ((reg_store reg)\<lparr>jst_outputs := f\<rparr>)"
      "reg_records (snd (run_finished now ev j res reg)) =
         AList.update j \<lparr>jr_snapshot = finished_snapshot now res k (jr_snapshot r), jr_process = None\<rparr>
           (AList.update j (r\<lparr>jr_snapshot := finished_snapshot now res k (jr_snapshot r)\<rparr>) (reg_records reg))"
      "reg_operation_jobs (snd (run_finished now ev j res reg)) = reg_operation_jobs reg"
      "reg_submitted (snd (run_finished now ev j res reg)) = reg_submitted reg"
      "reg_cancelled (snd (run_finished now ev j res reg)) = reg_cancelled reg"
proof (cases "map_of (reg_records reg) j")
  case None
  show ?thesis by (rule same) (use None in \<open>simp_all add: run_finished_def get_job_def\<close>)
next
  case (Some r)
  obtain a b where ab: "utf8_encode (res_stdout res) = Some a" "utf8_encode (res_stderr res) = Some b" using enc by blast
  obtain a' b' where ab': "utf8_encode (text_mode (res_stdout res)) = Some a'" "utf8_encode (text_mode (res_stderr res)) = Some b'"
    using encode_text_mode ab by meson
  show ?thesis by (rule finished [OF Some]) (simp_all add: run_finished_eq [OF Some ab ab'])
qed

section \<open>Runs and their jobs\<close>

text \<open>
  What the state of a job says about its run: a queued job waits in the executor's queue or for its process,
  a running one has a process that is being waited for, and a job with no run is in a terminal state. A
  cancelled job whose process runs has had it cancelled.
\<close>

definition run_matches ::
  "(uuid \<times> job_spec) list \<Rightarrow> (uuid \<times> run_phase) list \<Rightarrow> nat list \<Rightarrow> uuid \<Rightarrow> job_record \<Rightarrow> bool" where
  "run_matches submitted active cancelled j r =
     (case map_of active j of
        Some (Waiting p) \<Rightarrow> jr_process r = Some p \<and>
          (sn_state (jr_snapshot r) = RUNNING \<or>
           sn_state (jr_snapshot r) = CANCELLED \<and> jp_handle p \<in> set cancelled)
      | Some (Spawning _) \<Rightarrow> jr_process r = None \<and> sn_state (jr_snapshot r) \<in> {QUEUED, CANCELLED}
      | None \<Rightarrow> jr_process r = None \<and>
          (if j \<in> fst ` set submitted then sn_state (jr_snapshot r) \<in> {QUEUED, CANCELLED}
           else sn_state (jr_snapshot r) \<in> terminal_job_states))"

definition sys_inv :: "job_system \<Rightarrow> bool" where
  "sys_inv \<sigma> \<longleftrightarrow>
     jobs_inv (sys_clock \<sigma>) (reg_store (sys_registry \<sigma>)) (reg_records (sys_registry \<sigma>)) (reg_operation_jobs (sys_registry \<sigma>)) \<and>
     distinct (map fst (reg_submitted (sys_registry \<sigma>)) @ map fst (sys_active \<sigma>)) \<and>
     (\<forall>j r. map_of (reg_records (sys_registry \<sigma>)) j = Some r \<longrightarrow>
        run_matches (reg_submitted (sys_registry \<sigma>)) (sys_active \<sigma>) (reg_cancelled (sys_registry \<sigma>)) j r)"

lemma sys_invI:
  assumes "jobs_inv t (reg_store reg) (reg_records reg) (reg_operation_jobs reg)"
    "distinct (map fst (reg_submitted reg) @ map fst act)"
    "\<And>j r. map_of (reg_records reg) j = Some r \<Longrightarrow> run_matches (reg_submitted reg) act (reg_cancelled reg) j r"
  shows "sys_inv \<lparr>sys_registry = reg, sys_active = act, sys_clock = t\<rparr>"
  using assms by (simp add: sys_inv_def)

lemma sys_invD:
  assumes "sys_inv \<sigma>"
  shows "jobs_inv (sys_clock \<sigma>) (reg_store (sys_registry \<sigma>)) (reg_records (sys_registry \<sigma>)) (reg_operation_jobs (sys_registry \<sigma>))"
    "distinct (map fst (reg_submitted (sys_registry \<sigma>)) @ map fst (sys_active \<sigma>))"
    "map_of (reg_records (sys_registry \<sigma>)) j = Some r \<Longrightarrow>
        run_matches (reg_submitted (sys_registry \<sigma>)) (sys_active \<sigma>) (reg_cancelled (sys_registry \<sigma>)) j r"
  using assms by (simp_all add: sys_inv_def)

lemma run_matches_other:
  assumes "run_matches sub act can i r" "map_of act' i = map_of act i"
    "i \<in> fst ` set sub' \<longleftrightarrow> i \<in> fst ` set sub" "set can \<subseteq> set can'"
  shows "run_matches sub' act' can' i r"
  using assms by (auto simp: run_matches_def split: option.splits run_phase.splits if_splits)

lemma snapshot_ok_update:
  assumes "snapshot_ok p" "dt_instant (sn_updated_at p) \<le> t" "st \<notin> {RUNNING, SUCCEEDED}"
  shows "snapshot_ok (p\<lparr>sn_state := st, sn_updated_at := Aware t\<rparr>)"
  using assms by (auto simp: snapshot_ok_iff snapshot_fields_ok_def)

lemma start_effect:
  fixes job_id fresh
  defines "j \<equiv> (case job_id of Some i \<Rightarrow> i | None \<Rightarrow> fresh)"
  obtains (same) "snd (start t fresh spec job_id reg) = reg"
    | (new) digest p where "map_of (reg_records reg) j = None"
      "map_of (reg_operation_jobs reg) (spec_operation_id spec) = None"
      "make_snapshot (queued_snapshot j spec digest t) = Inr p"
      "snd (start t fresh spec job_id reg) = store_snapshot p ((put_record j (new_record p) reg)
         \<lparr>reg_operation_jobs := AList.update (spec_operation_id spec) (j, digest) (reg_operation_jobs reg),
          reg_submitted := reg_submitted reg @ [(j, spec)]\<rparr>)"
proof (cases "spec_ok spec \<and> \<not> reg_closed reg")
  case True
  show ?thesis
  proof (cases "job_request_digest spec (reg_limits reg)")
    case (Inl e)
    then show ?thesis using True same by (simp add: start_def)
  next
    case (Inr digest)
    show ?thesis
    proof (cases "map_of (reg_operation_jobs reg) (spec_operation_id spec)")
      case None
      show ?thesis
      proof (cases "make_snapshot (queued_snapshot j spec digest t)")
        case (Inl e)
        then have "snd (start t fresh spec job_id reg) = reg"
          using True Inr None by (simp add: start_def j_def [symmetric] Let_def)
        then show ?thesis by (rule same)
      next
        case make: (Inr p)
        show ?thesis
        proof (cases "map_of (reg_records reg) j")
          case r: None
          show ?thesis
            by (rule new [OF r None make]) (use True Inr None make r in \<open>simp add: start_def j_def [symmetric] Let_def\<close>)
        next
          case (Some r)
          then have "snd (start t fresh spec job_id reg) = reg"
            using True Inr None by (simp add: start_def j_def [symmetric] Let_def)
          then show ?thesis by (rule same)
        qed
      qed
    next
      case (Some x)
      then have "snd (start t fresh spec job_id reg) = reg"
        using True Inr by (cases x) (simp add: start_def split: option.splits)
      then show ?thesis by (rule same)
    qed
  qed
next
  case False
  then have "snd (start t fresh spec job_id reg) = reg" by (auto simp: start_def)
  then show ?thesis by (rule same)
qed

lemma start_inv:
  assumes inv: "sys_inv \<sigma>" and t: "sys_clock \<sigma> \<le> t" and ev: "event_ok (StartJob spec job_id fresh) \<sigma>"
  shows "sys_inv (\<sigma>\<lparr>sys_registry := snd (start t fresh spec job_id (sys_registry \<sigma>)), sys_clock := t\<rparr>)"
proof -
  define reg where "reg = sys_registry \<sigma>"
  define j where "j = (case job_id of Some i \<Rightarrow> i | None \<Rightarrow> fresh)"
  note D = sys_invD [OF inv, folded reg_def]
  have same: "sys_inv (\<sigma>\<lparr>sys_registry := reg, sys_clock := t\<rparr>)"
    using D jobs_inv_mono [OF D(1) t] by (simp add: sys_inv_def)
  show ?thesis
  proof (cases rule: start_effect [where t = t and fresh = fresh and spec = spec and job_id = job_id and reg = reg, folded j_def, case_names same new])
    case same
    then show ?thesis using \<open>sys_inv (\<sigma>\<lparr>sys_registry := reg, sys_clock := t\<rparr>)\<close> by (simp add: reg_def)
  next
    case (new digest p)
    have p: "p = queued_snapshot j spec digest t" using make_snapshot_Inr [OF new(3)] .
    have ok: "snapshot_ok p" using new(3) p by (simp add: snapshot_ok_def)
    have fresh: "j \<notin> fst ` set (reg_submitted reg)" "j \<notin> fst ` set (sys_active \<sigma>)"
      using ev by (auto simp: j_def reg_def)
    have nact: "map_of (sys_active \<sigma>) j = None" using fresh(2) by (simp add: map_of_eq_None_iff)
    have "jobs_inv t (write_snapshot p (reg_store reg)) (AList.update j (new_record p) (reg_records reg))
        (AList.update (spec_operation_id spec) (j, digest) (reg_operation_jobs reg))"
      by (rule jobs_inv_new [OF D(1) new(1,2)]) (use ok t in \<open>simp_all add: p queued_snapshot_def reg_def\<close>)
    moreover have "run_matches (reg_submitted reg @ [(j, spec)]) (sys_active \<sigma>) (reg_cancelled reg) i r"
      if "map_of (AList.update j (new_record p) (reg_records reg)) i = Some r" for i r
    proof (cases "i = j")
      case True
      then have "r = new_record p" using that by (simp add: update_conv')
      then show ?thesis using nact True by (simp add: run_matches_def new_record_def p queued_snapshot_def)
    next
      case False
      then show ?thesis using that by (intro run_matches_other [OF D(3)]) (auto simp: update_conv')
    qed
    ultimately show ?thesis
      using D(2) fresh unfolding reg_def [symmetric] new(4) sys_inv_def by (auto simp: image_iff)
  qed
qed

lemma cancelled_ok:
  assumes "jobs_inv clk store recs ops" "map_of recs j = Some r" "clk \<le> t"
  shows "snapshot_ok (cancelled_of t r)" "snapshot_ok (failed_of t r)"
  using jobs_invD(5,6) [OF assms(1,2)] assms(3)
  by (auto simp: cancelled_of_def failed_of_def intro!: snapshot_ok_update)

lemma run_states:
  assumes "run_matches sub act can j r"
  shows "map_of act j = Some (Waiting p) \<Longrightarrow> jr_process r = Some p \<and> sn_state (jr_snapshot r) \<in> {RUNNING, CANCELLED}"
    "map_of act j = Some (Spawning spec) \<Longrightarrow> jr_process r = None \<and> sn_state (jr_snapshot r) \<in> {QUEUED, CANCELLED}"
    "map_of act j = None \<Longrightarrow> jr_process r = None"
  using assms by (auto simp: run_matches_def)

lemma cancel_inv:
  assumes inv: "sys_inv \<sigma>" and t: "sys_clock \<sigma> \<le> t"
  shows "sys_inv (\<sigma>\<lparr>sys_registry := snd (cancel t ev j (sys_registry \<sigma>)), sys_clock := t\<rparr>)"
proof -
  define reg where "reg = sys_registry \<sigma>"
  note D = sys_invD [OF inv, folded reg_def]
  show ?thesis
  proof (cases rule: cancel_effect [where now = t and ev = ev and j = j and reg = reg, case_names same active])
    case same
    then show ?thesis using D jobs_inv_mono [OF D(1) t] by (simp add: sys_inv_def reg_def)
  next
    case (active r)
    let ?r = "r\<lparr>jr_snapshot := cancelled_of t r\<rparr>"
    have "jobs_inv t (write_snapshot (cancelled_of t r) (reg_store reg)) (AList.update j ?r (reg_records reg)) (reg_operation_jobs reg)"
      by (rule jobs_inv_put [OF D(1) active(1) _ _ _ cancelled_ok(1) [OF D(1) active(1) t] _ t])
        (use jobs_invD(4) [OF D(1) active(1)] in \<open>simp_all add: cancelled_of_def\<close>)
    moreover have "run_matches (reg_submitted reg) (sys_active \<sigma>) (reg_cancelled reg @
        (case jr_process r of None \<Rightarrow> [] | Some p \<Rightarrow> [jp_handle p])) i q"
      if q: "map_of (AList.update j ?r (reg_records reg)) i = Some q" for i q
    proof (cases "i = j")
      case True
      then have "q = ?r" using q by (simp add: update_conv')
      then show ?thesis
        using D(3) [OF active(1)] True
        by (auto simp: run_matches_def cancelled_of_def split: option.splits run_phase.splits)
    next
      case False
      then show ?thesis using q by (intro run_matches_other [OF D(3)]) (auto simp: update_conv')
    qed
    ultimately show ?thesis
      using D(2) unfolding reg_def [symmetric] sys_inv_def by (simp add: active)
  qed
qed

lemma close_inv:
  assumes inv: "sys_inv \<sigma>" and t: "sys_clock \<sigma> \<le> t"
  shows "sys_inv (\<sigma>\<lparr>sys_registry := snd (close_begin (sys_registry \<sigma>)), sys_clock := t\<rparr>)"
  using sys_invD [OF inv] jobs_inv_mono [OF sys_invD(1) [OF inv] t] by (simp add: sys_inv_def close_begin_def)

lemma load_never_fails:
  assumes "jobs_inv clk store recs ops"
  obtains ps store1 where "load now store = (Inr ps, store1)"
  using load_files_total jobs_invD(2) [OF assms] unfolding load_def by blast

lemma cleanup_effect:
  assumes "jobs_inv clk (reg_store reg) (reg_records reg) (reg_operation_jobs reg)"
  obtains receipt kept store1 where
    "cleanup_retained_state (load now) \<lparr>rs_records = reg_records reg, rs_operation_jobs = reg_operation_jobs reg\<rparr> (reg_store reg) =
       (Inr (receipt, kept), store1)"
    "cleanup_retention now reg = (Inr receipt, reg\<lparr>reg_store := store1, reg_records := rs_records kept,
       reg_operation_jobs := rs_operation_jobs kept\<rparr>)"
    "\<And>j r. map_of (rs_records kept) j = Some r \<Longrightarrow> map_of (reg_records reg) j = Some r"
proof -
  obtain ps store1 where ld: "load now (reg_store reg) = (Inr ps, store1)" by (rule load_never_fails [OF assms])
  let ?st = "\<lparr>rs_records = reg_records reg, rs_operation_jobs = reg_operation_jobs reg\<rparr>"
  obtain receipt kept where cl: "cleanup_retained_state (load now) ?st (reg_store reg) = (Inr (receipt, kept), store1)"
    using ld by (simp add: cleanup_retained_state_def Let_def)
  have agree: "store_contents (reg_store reg) i = map_option jr_snapshot (map_of (rs_records ?st) i)" for i
    using jobs_invD(3) [OF assms] by simp
  have "map_of (reg_records reg) j = Some r" if "map_of (rs_records kept) j = Some r" for j r
    using file_store.cleanup_agrees(3) [OF jobs_invD(1) [OF assms] cl agree, of j] that by (auto split: if_splits)
  then show ?thesis using cl by (intro that [of receipt kept store1]) (simp_all add: cleanup_retention_def)
qed

lemma cleanup_inv:
  assumes inv: "sys_inv \<sigma>" and t: "sys_clock \<sigma> \<le> t"
  shows "sys_inv (\<sigma>\<lparr>sys_registry := snd (cleanup_retention now (sys_registry \<sigma>)), sys_clock := t\<rparr>)"
proof -
  note D = sys_invD [OF inv]
  obtain receipt kept store1 where c:
    "cleanup_retained_state (load now) \<lparr>rs_records = reg_records (sys_registry \<sigma>), rs_operation_jobs = reg_operation_jobs (sys_registry \<sigma>)\<rparr>
       (reg_store (sys_registry \<sigma>)) = (Inr (receipt, kept), store1)"
    "cleanup_retention now (sys_registry \<sigma>) = (Inr receipt, (sys_registry \<sigma>)\<lparr>reg_store := store1, reg_records := rs_records kept,
       reg_operation_jobs := rs_operation_jobs kept\<rparr>)"
    "\<And>j r. map_of (rs_records kept) j = Some r \<Longrightarrow> map_of (reg_records (sys_registry \<sigma>)) j = Some r"
    by (rule cleanup_effect [OF D(1)]) blast
  have "jobs_inv t store1 (rs_records kept) (rs_operation_jobs kept)"
    by (rule jobs_inv_mono [OF jobs_inv_cleanup [OF D(1) c(1)] t])
  then show ?thesis using D(2,3) c(3) by (simp add: c(2) sys_inv_def)
qed

lemma map_of_delete: "map_of (AList.delete j act) i = (if i = j then None else map_of act i)"
  by (simp add: delete_conv')

lemma submitted_not_active:
  assumes "distinct (map fst sub @ map fst act)" "map_of act j = Some x"
  shows "j \<notin> fst ` set sub"
proof -
  have "j \<in> fst ` set act" using assms(2) by (force dest!: map_of_SomeD)
  then show ?thesis using assms(1) by auto
qed

lemma distinct_delete_active:
  "distinct (map fst sub @ map fst act) \<Longrightarrow> distinct (map fst sub @ map fst (AList.delete j act))"
  unfolding delete_is_filter by (auto simp: distinct_filter_keys)

lemma distinct_update_active:
  assumes "distinct (map fst sub @ map fst act)" "map_of act j = Some x"
  shows "distinct (map fst sub @ map fst (AList.update j y act))"
proof -
  have "j \<in> fst ` set act" using assms(2) by (force dest!: map_of_SomeD)
  then have "map fst (AList.update j y act) = map fst act" by (simp add: update_keys)
  then show ?thesis using assms(1) by simp
qed

lemma take_inv:
  assumes inv: "sys_inv \<sigma>" and t: "sys_clock \<sigma> \<le> t" and step: "job_apply t TakeJob \<sigma> = Some \<sigma>'"
  shows "sys_inv \<sigma>'"
proof -
  define reg where "reg = sys_registry \<sigma>"
  note D = sys_invD [OF inv, folded reg_def]
  obtain j spec rest where sub: "reg_submitted reg = (j, spec) # rest"
    and \<sigma>': "\<sigma>' = \<sigma>\<lparr>sys_registry := reg\<lparr>reg_submitted := rest\<rparr>,
        sys_active := (if run_admit j reg = Inr True then (j, Spawning spec) # sys_active \<sigma> else sys_active \<sigma>),
        sys_clock := t\<rparr>"
    using step by (auto simp: reg_def split: list.splits if_splits)
  have d: "j \<notin> fst ` set rest" "j \<notin> fst ` set (sys_active \<sigma>)" using D(2) sub by auto
  then have nact: "map_of (sys_active \<sigma>) j = None" by (simp add: map_of_eq_None_iff)
  define act where "act = (if run_admit j reg = Inr True then (j, Spawning spec) # sys_active \<sigma> else sys_active \<sigma>)"
  have "run_matches rest act (reg_cancelled reg) i r" if r: "map_of (reg_records reg) i = Some r" for i r
  proof (cases "i = j")
    case True
    have "jr_process r = None" "sn_state (jr_snapshot r) \<in> {QUEUED, CANCELLED}"
      using D(3) [OF r] nact sub True by (auto simp: run_matches_def)
    then show ?thesis
      using r d nact True by (auto simp: act_def run_matches_def run_admit_def get_job_def image_iff)
  next
    case False
    then show ?thesis by (intro run_matches_other [OF D(3) [OF r]]) (auto simp: sub act_def)
  qed
  moreover have "distinct (map fst rest @ map fst act)" using D(2) d by (auto simp: sub act_def)
  ultimately show ?thesis
    using jobs_inv_mono [OF D(1) t] by (simp add: sys_inv_def \<sigma>' act_def [symmetric])
qed

lemma spawn_failed_inv:
  assumes inv: "sys_inv \<sigma>" and t: "sys_clock \<sigma> \<le> t" and act: "map_of (sys_active \<sigma>) j = Some (Spawning spec)"
  shows "sys_inv (\<sigma>\<lparr>sys_registry := snd (run_spawn_failed t ev j (sys_registry \<sigma>)),
    sys_active := AList.delete j (sys_active \<sigma>), sys_clock := t\<rparr>)"
proof -
  define reg where "reg = sys_registry \<sigma>"
  note D = sys_invD [OF inv, folded reg_def]
  note d = distinct_delete_active [OF D(2), of j]
  show ?thesis
  proof (cases rule: run_spawn_failed_effect [where now = t and ev = ev and j = j and reg = reg, case_names same failed])
    case same
    have "run_matches (reg_submitted reg) (AList.delete j (sys_active \<sigma>)) (reg_cancelled reg) i r"
      if r: "map_of (reg_records reg) i = Some r" for i r
      using r same by (intro run_matches_other [OF D(3) [OF r]]) (auto simp: map_of_delete)
    then show ?thesis using d jobs_inv_mono [OF D(1) t] same by (simp add: sys_inv_def reg_def [symmetric])
  next
    case (failed r)
    let ?r = "r\<lparr>jr_snapshot := failed_of t r\<rparr>"
    have "jobs_inv t (write_snapshot (failed_of t r) (reg_store reg)) (AList.update j ?r (reg_records reg)) (reg_operation_jobs reg)"
      by (rule jobs_inv_put [OF D(1) failed(1) _ _ _ cancelled_ok(2) [OF D(1) failed(1) t] _ t])
        (use jobs_invD(4) [OF D(1) failed(1)] in \<open>simp_all add: failed_of_def\<close>)
    moreover have "run_matches (reg_submitted reg) (AList.delete j (sys_active \<sigma>)) (reg_cancelled reg) i q"
      if q: "map_of (AList.update j ?r (reg_records reg)) i = Some q" for i q
    proof (cases "i = j")
      case True
      then have "q = ?r" using q by (simp add: update_conv')
      then show ?thesis
        using run_states(2) [OF D(3) [OF failed(1)] act] True submitted_not_active [OF D(2) act]
        by (simp add: run_matches_def map_of_delete failed_of_def)
    next
      case False
      then show ?thesis using q by (intro run_matches_other [OF D(3)]) (auto simp: update_conv' map_of_delete)
    qed
    ultimately show ?thesis
      using d unfolding reg_def [symmetric] sys_inv_def by (simp add: failed)
  qed
qed

lemma finished_ok:
  assumes "snapshot_ok p" "dt_instant (sn_updated_at p) \<le> t" "0 \<le> res_stdout_bytes res" "0 \<le> res_stderr_bytes res"
  shows "snapshot_ok (finished_snapshot t res k p)"
  using assms by (auto simp: snapshot_ok_iff snapshot_fields_ok_def finished_snapshot_def)

lemma finished_inv:
  assumes inv: "sys_inv \<sigma>" and t: "sys_clock \<sigma> \<le> t" and act: "map_of (sys_active \<sigma>) j = Some (Waiting p)"
    and ev: "event_ok (Finishes j res ev) \<sigma>"
  shows "sys_inv (\<sigma>\<lparr>sys_registry := snd (run_finished t ev j res (sys_registry \<sigma>)),
    sys_active := AList.delete j (sys_active \<sigma>), sys_clock := t\<rparr>)"
proof -
  define reg where "reg = sys_registry \<sigma>"
  note D = sys_invD [OF inv, folded reg_def]
  note d = distinct_delete_active [OF D(2), of j]
  have enc: "utf8_encode (res_stdout res) \<noteq> None" "utf8_encode (res_stderr res) \<noteq> None" using ev by simp_all
  show ?thesis
  proof (cases rule: run_finished_effect [OF enc, where now = t and ev = ev and j = j and reg = reg, case_names same finished])
    case same
    have "run_matches (reg_submitted reg) (AList.delete j (sys_active \<sigma>)) (reg_cancelled reg) i r"
      if r: "map_of (reg_records reg) i = Some r" for i r
      using r same by (intro run_matches_other [OF D(3) [OF r]]) (auto simp: map_of_delete)
    then show ?thesis using d jobs_inv_mono [OF D(1) t] same by (simp add: sys_inv_def reg_def [symmetric])
  next
    case (finished r k f)
    let ?p = "finished_snapshot t res k (jr_snapshot r)"
    let ?recs = "AList.update j (r\<lparr>jr_snapshot := ?p\<rparr>) (reg_records reg)"
    let ?r = "\<lparr>jr_snapshot = ?p, jr_process = None\<rparr>"
    have D1: "jobs_inv (sys_clock \<sigma>) ((reg_store reg)\<lparr>jst_outputs := f\<rparr>) (reg_records reg) (reg_operation_jobs reg)"
      using D(1) by simp
    have ok: "snapshot_ok ?p"
      using jobs_invD(5,6) [OF D(1) finished(1)] ev t by (intro finished_ok) auto
    have "jobs_inv t (write_snapshot ?p ((reg_store reg)\<lparr>jst_outputs := f\<rparr>)) ?recs (reg_operation_jobs reg)"
      by (rule jobs_inv_put [OF D1 finished(1) _ _ _ ok _ t])
        (use jobs_invD(4) [OF D(1) finished(1)] in \<open>simp_all add: finished_snapshot_def\<close>)
    then have "jobs_inv t (write_snapshot ?p ((reg_store reg)\<lparr>jst_outputs := f\<rparr>)) (AList.update j ?r ?recs) (reg_operation_jobs reg)"
      by (rule jobs_inv_process [where r = "r\<lparr>jr_snapshot := ?p\<rparr>"]) (simp_all add: update_conv')
    moreover have "run_matches (reg_submitted reg) (AList.delete j (sys_active \<sigma>)) (reg_cancelled reg) i q"
      if q: "map_of (AList.update j ?r ?recs) i = Some q" for i q
    proof (cases "i = j")
      case True
      then have "q = ?r" using q by (simp add: update_conv')
      then show ?thesis
        using True submitted_not_active [OF D(2) act] by (simp add: run_matches_def map_of_delete finished_snapshot_def)
    next
      case False
      then show ?thesis using q by (intro run_matches_other [OF D(3)]) (auto simp: update_conv' map_of_delete)
    qed
    ultimately show ?thesis
      using d unfolding reg_def [symmetric] sys_inv_def by (simp add: finished)
  qed
qed

lemma run_spawned_effect:
  obtains (same) "run_spawned now j p reg = (Inl (JobNotFoundError j), reg)" "map_of (reg_records reg) j = None"
    | (cancelled) r where "map_of (reg_records reg) j = Some r" "sn_state (jr_snapshot r) = CANCELLED"
      "run_spawned now j p reg = (Inr (), cancel_process p (put_record j (r\<lparr>jr_process := Some p\<rparr>) reg))"
    | (running) r q where "map_of (reg_records reg) j = Some r" "sn_state (jr_snapshot r) \<noteq> CANCELLED"
      "q = (jr_snapshot r)\<lparr>sn_state := RUNNING, sn_pid := Some (jp_pid p), sn_updated_at := Aware now\<rparr>"
      "run_spawned now j p reg = (Inr (), store_snapshot q (put_record j (r\<lparr>jr_snapshot := q, jr_process := Some p\<rparr>) reg))"
proof (cases "map_of (reg_records reg) j")
  case None
  then show ?thesis using same by (simp add: run_spawned_def get_job_def)
next
  case (Some r)
  show ?thesis
  proof (cases "sn_state (jr_snapshot r) = CANCELLED")
    case True
    then show ?thesis using Some by (intro cancelled [of r]) (simp_all add: run_spawned_def get_job_def)
  next
    case False
    then show ?thesis using Some by (intro running [of r]) (simp_all add: run_spawned_def get_job_def Let_def)
  qed
qed

lemma spawned_inv:
  assumes inv: "sys_inv \<sigma>" and t: "sys_clock \<sigma> \<le> t" and act: "map_of (sys_active \<sigma>) j = Some (Spawning spec)"
    and p: "0 < jp_pid p" and step: "job_apply t (Spawns j p) \<sigma> = Some \<sigma>'"
  shows "sys_inv \<sigma>'"
proof -
  define reg where "reg = sys_registry \<sigma>"
  note D = sys_invD [OF inv, folded reg_def]
  have others: "run_matches (reg_submitted reg) act' (reg_cancelled reg @ xs) i r"
    if "map_of (reg_records reg) i = Some r" "i \<noteq> j" "\<And>i. i \<noteq> j \<Longrightarrow> map_of act' i = map_of (sys_active \<sigma>) i" for i r act' xs
    using that by (intro run_matches_other [OF D(3)]) auto
  show ?thesis
  proof (cases rule: run_spawned_effect [where now = t and j = j and p = p and reg = reg, case_names same cancelled running])
    case same
    then have \<sigma>': "\<sigma>' = \<sigma>\<lparr>sys_registry := reg, sys_active := AList.delete j (sys_active \<sigma>), sys_clock := t\<rparr>"
      using step act by (simp add: reg_def)
    have "run_matches (reg_submitted reg) (AList.delete j (sys_active \<sigma>)) (reg_cancelled reg) i r"
      if r: "map_of (reg_records reg) i = Some r" for i r
      using r same(2) by (intro run_matches_other [OF D(3) [OF r]]) (auto simp: map_of_delete)
    then show ?thesis
      using distinct_delete_active [OF D(2), of j] jobs_inv_mono [OF D(1) t] by (simp add: sys_inv_def \<sigma>')
  next
    case (cancelled r)
    let ?r = "r\<lparr>jr_process := Some p\<rparr>"
    have \<sigma>': "\<sigma>' = \<sigma>\<lparr>sys_registry := cancel_process p (put_record j ?r reg),
        sys_active := AList.update j (Waiting p) (sys_active \<sigma>), sys_clock := t\<rparr>"
      using step act cancelled(3) by (simp add: reg_def)
    have "jobs_inv t (reg_store reg) (AList.update j ?r (reg_records reg)) (reg_operation_jobs reg)"
      by (rule jobs_inv_process [OF jobs_inv_mono [OF D(1) t] cancelled(1)]) simp
    moreover have "run_matches (reg_submitted reg) (AList.update j (Waiting p) (sys_active \<sigma>)) (reg_cancelled reg @ [jp_handle p]) i q"
      if q: "map_of (AList.update j ?r (reg_records reg)) i = Some q" for i q
    proof (cases "i = j")
      case True
      then show ?thesis using q cancelled(2) by (auto simp: update_conv' run_matches_def)
    next
      case False
      then show ?thesis using q by (intro others) (auto simp: update_conv')
    qed
    ultimately show ?thesis
      using distinct_update_active [OF D(2) act, of "Waiting p"] by (simp add: sys_inv_def \<sigma>')
  next
    case (running r q)
    let ?r = "r\<lparr>jr_snapshot := q, jr_process := Some p\<rparr>"
    have \<sigma>': "\<sigma>' = \<sigma>\<lparr>sys_registry := store_snapshot q (put_record j ?r reg),
        sys_active := AList.update j (Waiting p) (sys_active \<sigma>), sys_clock := t\<rparr>"
      using step act running(4) by (simp add: reg_def)
    have ok: "snapshot_ok q"
      using jobs_invD(5,6) [OF D(1) running(1)] t p by (auto simp: running(3) snapshot_ok_iff snapshot_fields_ok_def)
    have "jobs_inv t (write_snapshot q (reg_store reg)) (AList.update j ?r (reg_records reg)) (reg_operation_jobs reg)"
      by (rule jobs_inv_put [OF D(1) running(1) _ _ _ ok _ t])
        (use jobs_invD(4) [OF D(1) running(1)] in \<open>simp_all add: running(3)\<close>)
    moreover have "run_matches (reg_submitted reg) (AList.update j (Waiting p) (sys_active \<sigma>)) (reg_cancelled reg) i q'"
      if q: "map_of (AList.update j ?r (reg_records reg)) i = Some q'" for i q'
    proof (cases "i = j")
      case True
      then show ?thesis using q running(3) by (auto simp: update_conv' run_matches_def)
    next
      case False
      then show ?thesis using q others [of i q' "AList.update j (Waiting p) (sys_active \<sigma>)" "[]"] by (auto simp: update_conv')
    qed
    ultimately show ?thesis
      using distinct_update_active [OF D(2) act, of "Waiting p"] by (simp add: sys_inv_def \<sigma>')
  qed
qed

text \<open>Every event keeps the invariant, so every reachable state has it.\<close>

lemma job_apply_inv:
  assumes inv: "sys_inv \<sigma>" and t: "sys_clock \<sigma> \<le> t" and ev: "event_ok e \<sigma>" and step: "job_apply t e \<sigma> = Some \<sigma>'"
  shows "sys_inv \<sigma>'"
proof (cases e)
  case (StartJob spec job_id fresh)
  then show ?thesis using start_inv [OF inv t] ev step by auto
next
  case (CancelJob j event)
  then show ?thesis using cancel_inv [OF inv t] step by auto
next
  case CloseRegistry
  then show ?thesis using close_inv [OF inv t] step by auto
next
  case CleanupRetention
  then show ?thesis using cleanup_inv [OF inv t] step by auto
next
  case TakeJob
  then show ?thesis using take_inv [OF inv t] step by auto
next
  case (SpawnFails j event)
  then show ?thesis using spawn_failed_inv [OF inv t] step by (auto split: option.splits run_phase.splits)
next
  case (Spawns j p)
  then obtain spec where "map_of (sys_active \<sigma>) j = Some (Spawning spec)"
    using step by (auto split: option.splits run_phase.splits)
  then show ?thesis using spawned_inv [OF inv t] ev step Spawns by auto
next
  case (Finishes j res event)
  then obtain p where "map_of (sys_active \<sigma>) j = Some (Waiting p)"
    "\<sigma>' = \<sigma>\<lparr>sys_registry := snd (run_finished t event j res (sys_registry \<sigma>)),
        sys_active := AList.delete j (sys_active \<sigma>), sys_clock := t\<rparr>"
    using step by (auto split: option.splits run_phase.splits)
  then show ?thesis using finished_inv [OF inv t _ ev [unfolded Finishes]] by blast
qed

definition limits_ok :: "job_limits \<Rightarrow> bool" where
  "limits_ok limits \<longleftrightarrow> 1 \<le> max_concurrent limits \<and> 1 \<le> max_output_bytes limits \<and> 0 < retention limits"

lemma store_retention_simps [simp]:
  "store_wf (store\<lparr>jst_retention := r\<rparr>) = store_wf store"
  "store_contents (store\<lparr>jst_retention := r\<rparr>) = store_contents store"
  by (simp_all add: store_wf_def store_contents_def fun_eq_iff)

lemma make_registry_form:
  assumes "make_registry limits store audited now load_now = (Inr reg, store')"
  obtains st where "recover_store (load load_now) write_snapshot (Aware now) (store\<lparr>jst_retention := retention limits\<rparr>) = (Inr st, store')"
    "reg_store reg = store'" "reg_records reg = rs_records st" "reg_operation_jobs reg = rs_operation_jobs st"
    "reg_submitted reg = []" "reg_cancelled reg = []"
  using assms by (auto simp: make_registry_def split: if_splits prod.splits sum.splits)

lemma make_registry_inv:
  assumes wf: "store_wf store" and mk: "make_registry limits store audited now load_now = (Inr reg, store')"
    and past: "\<And>j p. store_contents store j = Some p \<Longrightarrow> dt_instant (sn_updated_at p) \<le> now" and t: "now \<le> t"
  shows "sys_inv \<lparr>sys_registry = reg, sys_active = [], sys_clock = t\<rparr>"
proof -
  obtain st where st: "recover_store (load load_now) write_snapshot (Aware now) (store\<lparr>jst_retention := retention limits\<rparr>) = (Inr st, store')"
    and reg: "reg_store reg = store'" "reg_records reg = rs_records st" "reg_operation_jobs reg = rs_operation_jobs st"
      "reg_submitted reg = []" "reg_cancelled reg = []"
    by (rule make_registry_form [OF mk])
  have wf': "store_wf (store\<lparr>jst_retention := retention limits\<rparr>)" using wf by simp
  have past': "dt_instant (sn_updated_at p) \<le> now"
    if "store_contents (store\<lparr>jst_retention := retention limits\<rparr>) j = Some p" for j p
    using past that by simp
  have "jobs_inv t store' (rs_records st) (rs_operation_jobs st)"
    by (rule jobs_inv_mono [OF recover_jobs_inv(1) [OF wf' st past'] t])
  moreover have "run_matches [] [] [] j r" if r: "map_of (rs_records st) j = Some r" for j r
  proof -
    obtain q where "r = new_record (interrupt_stale_snapshot q (Aware now))"
      using recover_jobs_inv(2) [OF wf' st _ r] past' by blast
    then show ?thesis using interrupt_stale_terminal [of q "Aware now"] by (simp add: run_matches_def new_record_def)
  qed
  ultimately show ?thesis by (simp add: sys_inv_def reg)
qed

lemma job_reachable_inv: "job_reachable \<sigma> \<Longrightarrow> sys_inv \<sigma>"
proof (induction rule: job_reachable.induct)
  case created
  then show ?case by (rule make_registry_inv)
next
  case step
  then show ?case by (blast intro: job_apply_inv)
qed

lemma recover_succeeds:
  assumes "list_all (\<lambda>kv. file_ok (snd kv)) (jst_metadata store)"
  shows "\<exists>st store'. recover_store (load load_now) write_snapshot now store = (Inr st, store')"
  using load_files_total [OF assms, of "load_now - jst_retention store" store]
  unfolding load_def [symmetric] by (auto simp: recover_store_def Let_def)

text \<open>A job that has not expired survives loading.\<close>

lemma load_retains:
  assumes wf: "store_wf store" and ld: "load now store = (Inr ps, store1)"
    and p: "store_contents store j = Some p" "now - jst_retention store \<le> dt_instant (sn_updated_at p)"
  shows "store_contents store1 j = Some p"
proof -
  have m: "map_of (jst_metadata store) j = Some (Metadata p)"
    using p(1) by (auto simp: store_contents_def split: option.splits metadata_file.splits)
  have "map_of (filter (\<lambda>kv. file_kept (now - jst_retention store) (snd kv)) (jst_metadata store)) j = Some (Metadata p)"
    using m p(2) wf map_of_filter_value [of "jst_metadata store" "file_kept (now - jst_retention store)" j]
    by (simp add: store_wf_def)
  then show ?thesis using load_Inr(1) [OF wf ld] by (simp add: store_contents_def)
qed

section \<open>Properties\<close>


text \<open>
  C17: how a job ended is final. From any reachable state, whatever happens next, a job in a terminal
  state either keeps that state, in memory and on disk, or is removed as a whole by the retention cleanup.
  The one exception is a job whose process could not be created: see the next lemma.
\<close>

theorem terminal_jobs_stay_terminal:
  assumes "job_reachable \<sigma>" "sys_clock \<sigma> \<le> t" "event_ok e \<sigma>" "job_apply t e \<sigma> = Some \<sigma>'"
    and "map_of (reg_records (sys_registry \<sigma>)) j = Some r" "sn_state (jr_snapshot r) \<in> terminal_job_states"
    and "\<And>ev. e \<noteq> SpawnFails j ev"
  shows "(map_of (reg_records (sys_registry \<sigma>')) j = None \<and> store_contents (reg_store (sys_registry \<sigma>')) j = None \<and>
       e = CleanupRetention) \<or>
    (\<exists>r'. map_of (reg_records (sys_registry \<sigma>')) j = Some r' \<and>
       sn_state (jr_snapshot r') = sn_state (jr_snapshot r) \<and>
       store_contents (reg_store (sys_registry \<sigma>')) j = Some (jr_snapshot r'))"
proof -
  define reg where "reg = sys_registry \<sigma>"
  have inv: "sys_inv \<sigma>" by (rule job_reachable_inv [OF assms(1)])
  note D = sys_invD [OF inv, folded reg_def]
  have r: "map_of (reg_records reg) j = Some r" using assms(5) by (simp add: reg_def)
  note ended = assms(6)
  have inv': "sys_inv \<sigma>'" by (rule job_apply_inv [OF inv assms(2,3,4)])
  have disk: "store_contents (reg_store (sys_registry \<sigma>')) j = map_option jr_snapshot (map_of (reg_records (sys_registry \<sigma>')) j)"
    using jobs_invD(3) [OF sys_invD(1) [OF inv']] .
  have kept: "\<exists>r'. map_of (reg_records (sys_registry \<sigma>')) j = Some r' \<and> sn_state (jr_snapshot r') = sn_state (jr_snapshot r)"
    if "e \<noteq> CleanupRetention"
  proof (cases e)
    case (StartJob spec job_id fresh)
    then have \<sigma>': "sys_registry \<sigma>' = snd (start t fresh spec job_id reg)" using assms(4) by (auto simp: reg_def)
    show ?thesis
      by (cases rule: start_effect [where t = t and fresh = fresh and spec = spec and job_id = job_id and reg = reg])
        (use r in \<open>auto simp: \<sigma>' update_conv'\<close>)
  next
    case (CancelJob i ev)
    then have \<sigma>': "sys_registry \<sigma>' = snd (cancel t ev i reg)" using assms(4) by (auto simp: reg_def)
    show ?thesis
      by (cases rule: cancel_effect [where now = t and ev = ev and j = i and reg = reg])
        (use r ended in \<open>auto simp: \<sigma>' update_conv'\<close>)
  next
    case CloseRegistry
    then show ?thesis using assms(4) r by (auto simp: reg_def close_begin_def)
  next
    case TakeJob
    then show ?thesis using assms(4) r by (auto simp: reg_def split: list.splits if_splits)
  next
    case (SpawnFails i ev)
    then have "i \<noteq> j" using assms(7) by blast
    have \<sigma>': "sys_registry \<sigma>' = snd (run_spawn_failed t ev i reg)"
      using assms(4) SpawnFails by (auto simp: reg_def split: option.splits run_phase.splits)
    show ?thesis
      by (cases rule: run_spawn_failed_effect [where now = t and ev = ev and j = i and reg = reg])
        (use r \<open>i \<noteq> j\<close> in \<open>auto simp: \<sigma>' update_conv'\<close>)
  next
    case (Spawns i p)
    then obtain spec where act: "map_of (sys_active \<sigma>) i = Some (Spawning spec)"
      and \<sigma>': "sys_registry \<sigma>' = snd (run_spawned t i p reg)"
      using assms(4) by (auto simp: reg_def split: option.splits run_phase.splits prod.splits sum.splits)
    have "sn_state (jr_snapshot r) = CANCELLED" if "i = j"
      using run_states(2) [OF D(3) [OF r], of spec] act ended that by auto
    then show ?thesis
      by (cases rule: run_spawned_effect [where now = t and j = i and p = p and reg = reg])
        (use r in \<open>auto simp: \<sigma>' update_conv'\<close>)
  next
    case (Finishes i res ev)
    then obtain p where act: "map_of (sys_active \<sigma>) i = Some (Waiting p)"
      and \<sigma>': "sys_registry \<sigma>' = snd (run_finished t ev i res reg)"
      using assms(4) by (auto simp: reg_def split: option.splits run_phase.splits)
    have enc: "utf8_encode (res_stdout res) \<noteq> None" "utf8_encode (res_stderr res) \<noteq> None"
      using assms(3) Finishes by simp_all
    have "sn_state (jr_snapshot r) = CANCELLED" if "i = j"
      using run_states(1) [OF D(3) [OF r], of p] act ended that by auto
    then show ?thesis
      by (cases rule: run_finished_effect [OF enc, where now = t and ev = ev and j = i and reg = reg])
        (use r in \<open>auto simp: \<sigma>' update_conv' finished_snapshot_def\<close>)
  qed (use that in blast)
  show ?thesis
  proof (cases "e = CleanupRetention")
    case True
    obtain receipt kept store1 where c0: "cleanup_retained_state (load t)
        \<lparr>rs_records = reg_records reg, rs_operation_jobs = reg_operation_jobs reg\<rparr> (reg_store reg) = (Inr (receipt, kept), store1)"
      and c: "cleanup_retention t reg = (Inr receipt, reg\<lparr>reg_store := store1, reg_records := rs_records kept,
       reg_operation_jobs := rs_operation_jobs kept\<rparr>)" "\<And>j r. map_of (rs_records kept) j = Some r \<Longrightarrow> map_of (reg_records reg) j = Some r"
      by (rule cleanup_effect [OF D(1), where now = t]) blast
    have "reg_records (sys_registry \<sigma>') = rs_records kept" using True assms(4) c(1) by (auto simp: reg_def)
    then show ?thesis using disk c(2) [of j] r True by (cases "map_of (rs_records kept) j") auto
  next
    case False
    then show ?thesis using kept disk by auto
  qed
qed

text \<open>
  A job that was cancelled, and reported and audited as such, while its process was being created ends up
  as failed when the creation fails: the handler of that error does not look at the state again.
\<close>

lemma cancelled_job_becomes_failed:
  assumes "map_of (sys_active \<sigma>) j = Some (Spawning spec)" "map_of (reg_records (sys_registry \<sigma>)) j = Some r"
    "sn_state (jr_snapshot r) = CANCELLED"
  shows "\<exists>\<sigma>' r'. job_apply t (SpawnFails j ev) \<sigma> = Some \<sigma>' \<and>
    map_of (reg_records (sys_registry \<sigma>')) j = Some r' \<and> sn_state (jr_snapshot r') = FAILED"
  using assms(1,2)
  by (cases rule: run_spawn_failed_effect [where now = t and ev = ev and j = j and reg = "sys_registry \<sigma>"])
    (auto simp: update_conv' failed_of_def)

text \<open>
  C18: an operation starts one job. After a successful start the operation is bound to the job and to the
  request's digest; starting the same request again, with whatever identifiers, returns the job as it is
  and changes nothing, and a different request under the same operation is refused without effect. A start
  submits at most one run, and none when it fails.
\<close>

theorem operation_starts_one_job:
  assumes "job_reachable \<sigma>" "start t fresh spec job_id (sys_registry \<sigma>) = (Inr p, reg')"
  shows "(\<exists>d. job_request_digest spec (reg_limits (sys_registry \<sigma>)) = Inr d \<and>
      map_of (reg_operation_jobs reg') (spec_operation_id spec) = Some (sn_job_id p, d)) \<and>
    start t' fresh' spec job_id' reg' = (Inr p, reg') \<and>
    (\<forall>other d'. spec_ok other \<longrightarrow> spec_operation_id other = spec_operation_id spec \<longrightarrow>
      job_request_digest other (reg_limits (sys_registry \<sigma>)) = Inr d' \<longrightarrow>
      job_request_digest spec (reg_limits (sys_registry \<sigma>)) \<noteq> Inr d' \<longrightarrow>
      start t' fresh' other job_id' reg' = (Inl (JobReplayConflictError (spec_operation_id spec)), reg')) \<and>
    (reg_submitted reg' = reg_submitted (sys_registry \<sigma>) \<or>
      reg_submitted reg' = reg_submitted (sys_registry \<sigma>) @ [(sn_job_id p, spec)] \<and>
      map_of (reg_operation_jobs (sys_registry \<sigma>)) (spec_operation_id spec) = None)"
proof -
  define reg where "reg = sys_registry \<sigma>"
  note D = jobs_invD [OF sys_invD(1) [OF job_reachable_inv [OF assms(1)]], folded reg_def]
  have st: "start t fresh spec job_id reg = (Inr p, reg')" using assms(2) by (simp add: reg_def)
  have ok: "spec_ok spec" "\<not> reg_closed reg" using st by (auto simp: start_def split: if_splits)
  obtain d where d: "job_request_digest spec (reg_limits reg) = Inr d"
    using st ok by (cases "job_request_digest spec (reg_limits reg)") (auto simp: start_def)
  have known: "start t' fresh' other job_id' reg' =
      (if d' = d then (Inr p, reg') else (Inl (JobReplayConflictError (spec_operation_id other)), reg'))"
    if "spec_ok other" "map_of (reg_operation_jobs reg') (spec_operation_id other) = Some (sn_job_id p, d)"
      "map_of (reg_records reg') (sn_job_id p) = Some r" "jr_snapshot r = p" "\<not> reg_closed reg'"
      "job_request_digest other (reg_limits reg') = Inr d'" for other r d'
    using that by (auto simp: start_def)
  have "(\<exists>r. map_of (reg_operation_jobs reg') (spec_operation_id spec) = Some (sn_job_id p, d) \<and>
        map_of (reg_records reg') (sn_job_id p) = Some r \<and> jr_snapshot r = p) \<and> \<not> reg_closed reg' \<and> reg_limits reg' = reg_limits reg \<and>
      (reg_submitted reg' = reg_submitted reg \<or> reg_submitted reg' = reg_submitted reg @ [(sn_job_id p, spec)] \<and>
       map_of (reg_operation_jobs reg) (spec_operation_id spec) = None)"
  proof (cases "map_of (reg_operation_jobs reg) (spec_operation_id spec)")
    case (Some x)
    obtain j e where x: "x = (j, e)" by (cases x) auto
    obtain r where r: "map_of (reg_records reg) j = Some r" "sn_operation_id (jr_snapshot r) = spec_operation_id spec"
      using D(8) Some x by blast
    have "e = d" "p = jr_snapshot r" "reg' = reg"
      using st ok d Some x r(1) by (auto simp: start_def split: if_splits)
    then show ?thesis using Some x r D(4) [OF r(1)] ok by simp
  next
    case None
    let ?j = "case job_id of Some i \<Rightarrow> i | None \<Rightarrow> fresh"
    have fr: "map_of (reg_records reg) ?j = None"
      using st ok d None by (auto simp: start_def Let_def split: if_splits)
    obtain q where q: "make_snapshot (queued_snapshot ?j spec d t) = Inr q"
      using st ok d None fr by (cases "make_snapshot (queued_snapshot ?j spec d t)") (auto simp: start_def Let_def)
    have "q = queued_snapshot ?j spec d t" using make_snapshot_Inr [OF q] .
    moreover have "p = q" "reg' = store_snapshot q ((put_record ?j (new_record q) reg)
         \<lparr>reg_operation_jobs := AList.update (spec_operation_id spec) (?j, d) (reg_operation_jobs reg),
          reg_submitted := reg_submitted reg @ [(?j, spec)]\<rparr>)"
      using st ok d None fr q by (auto simp: start_def Let_def)
    ultimately show ?thesis using None ok
      by (simp add: update_conv' queued_snapshot_def new_record_def put_record_def store_snapshot_def)
  qed
  then obtain r where E: "map_of (reg_operation_jobs reg') (spec_operation_id spec) = Some (sn_job_id p, d)"
    "map_of (reg_records reg') (sn_job_id p) = Some r" "jr_snapshot r = p" "\<not> reg_closed reg'" "reg_limits reg' = reg_limits reg"
    and sub: "reg_submitted reg' = reg_submitted reg \<or> reg_submitted reg' = reg_submitted reg @ [(sn_job_id p, spec)] \<and>
       map_of (reg_operation_jobs reg) (spec_operation_id spec) = None"
    by blast
  have again: "start t' fresh' spec job_id' reg' = (Inr p, reg')"
    using known [OF ok(1) E(1,2,3,4), of d] d E(5) by simp
  have other: "start t' fresh' other job_id' reg' = (Inl (JobReplayConflictError (spec_operation_id spec)), reg')"
    if "spec_ok other" "spec_operation_id other = spec_operation_id spec"
      "job_request_digest other (reg_limits reg) = Inr d'" "job_request_digest spec (reg_limits reg) \<noteq> Inr d'" for other d'
    using known [OF that(1) _ E(2,3,4), of d'] E(1,5) that d by auto
  show ?thesis unfolding reg_def [symmetric] using d E(1) again other sub by blast
qed

section \<open>Concrete registries\<close>

definition sample_limits :: job_limits where
  "sample_limits = \<lparr>max_concurrent = 4, max_output_bytes = 200000, retention = 86400000000\<rparr>"

definition sample_done :: job_snapshot where
  "sample_done =
     \<lparr>sn_job_id = 1, sn_operation_id = 2, sn_request_digest = replicate 64 97, sn_kind = PROCESS,
      sn_state = SUCCEEDED, sn_created_at = Aware 10, sn_updated_at = Aware 20, sn_exit_code = Some 0,
      sn_pid = Some 77, sn_stdout_bytes = 5, sn_stderr_bytes = 0, sn_retained_bytes = 5, sn_truncated = False\<rparr>"

definition sample_job_store :: job_store where
  "sample_job_store =
     \<lparr>jst_retention = 86400000000, jst_metadata = [(1, Metadata sample_done)],
      jst_outputs = [(1, Stdout) \<mapsto> map mkb [104, 195, 169, 33, 33]]\<rparr>"

definition sample_registry :: job_registry where
  "sample_registry =
     \<lparr>reg_limits = sample_limits, reg_store = sample_job_store, reg_records = [(1, new_record sample_done)],
      reg_operation_jobs = [(2, 1, replicate 64 97)], reg_closed = False, reg_submitted = [],
      reg_cancelled = [], reg_audit = Some []\<rparr>"

definition sample_system :: job_system where
  "sample_system = \<lparr>sys_registry = sample_registry, sys_active = [], sys_clock = 30\<rparr>"

lemma sample_digest_ok: "sha256_digest_ok (replicate 64 97)"
  by (simp add: sha256_digest_ok_def lower_hex_def list_all_iff)

lemma sample_done_ok: "make_snapshot sample_done = Inr sample_done"
  using sample_digest_ok by (simp add: sample_done_def make_snapshot_def snapshot_fields_ok_def
      ensure_valid_timeline_and_state_def del: replicate.simps)

lemma sample_load: "load now sample_job_store =
    (if now - 86400000000 \<le> 20 then (Inr [sample_done], sample_job_store)
     else (Inr [], delete_job 1 1 sample_job_store))"
  by (simp add: load_def sample_job_store_def sample_done_ok)
    (simp add: sample_done_def)

lemma sample_make_registry:
  "make_registry sample_limits sample_job_store True 30 30 = (Inr sample_registry, sample_job_store)"
proof -
  have r: "sample_job_store\<lparr>jst_retention := retention sample_limits\<rparr> = sample_job_store"
    by (simp add: sample_job_store_def sample_limits_def)
  have "interrupt_stale_snapshot sample_done now = sample_done" for now
    by (rule interrupt_stale_id) (simp add: sample_done_def)
  then have "recover_store (load 30) write_snapshot (Aware 30) sample_job_store =
      (Inr \<lparr>rs_records = [(1, new_record sample_done)], rs_operation_jobs = [(2, 1, replicate 64 97)]\<rparr>, sample_job_store)"
    by (simp add: recover_store_def sample_load recover_snapshots_def write_interrupted_def recovered_of_def dict_of_def)
      (simp add: sample_done_def)
  then show ?thesis
    unfolding make_registry_def r by (simp add: sample_registry_def sample_limits_def)
qed

lemma sample_reachable: "job_reachable sample_system"
  unfolding sample_system_def
  by (rule job_reachable.created [OF _ sample_make_registry])
    (auto simp: sample_job_store_def store_wf_def store_contents_def sample_done_def split: if_splits)


lemma terminal_jobs_stay_terminal_witness:
  "\<exists>r'. map_of (reg_records (snd (cancel 40 9 1 sample_registry))) 1 = Some r' \<and> sn_state (jr_snapshot r') = SUCCEEDED"
proof -
  have "job_apply 40 (CancelJob 1 9) sample_system =
      Some (sample_system\<lparr>sys_registry := snd (cancel 40 9 1 sample_registry), sys_clock := 40\<rparr>)"
    by (simp add: sample_system_def)
  from terminal_jobs_stay_terminal [OF sample_reachable _ _ this, of 1 "new_record sample_done"]
  show ?thesis by (fastforce simp: sample_system_def sample_registry_def new_record_def sample_done_def simp del: replicate.simps)
qed

definition sample_job_spec :: job_spec where
  "sample_job_spec = \<lparr>spec_operation_id = 5, spec_kind = PROCESS, spec_argv = [[97]], spec_cwd = [98]\<rparr>"

lemma sample_job_digest: "\<exists>d. job_request_digest sample_job_spec sample_limits = Inr d"
proof -
  have "\<exists>b. canonicalize_payload (job_request_payload sample_job_spec sample_limits) = Inr b"
    by (simp add: canonicalize_payload_def job_request_payload_def sample_job_spec_def sample_limits_def
        dump_str_def escape_char_def utf8_char_def dec_int_def dec_nat.simps)
  then show ?thesis by (auto simp: job_request_digest_def)
qed

lemma sample_start:
  obtains d reg' where "start 40 3 sample_job_spec None sample_registry = (Inr (queued_snapshot 3 sample_job_spec d 40), reg')"
    "reg_submitted reg' = [(3, sample_job_spec)]"
proof -
  obtain d where d: "job_request_digest sample_job_spec sample_limits = Inr d" using sample_job_digest by blast
  then obtain b where "d = payload_digest b" by (auto simp: job_request_digest_def bindR_eq_Inr mapErr_def split: sum.splits)
  then have "sha256_digest_ok d" by (simp add: payload_digest_ok)
  then have mk: "make_snapshot (queued_snapshot 3 sample_job_spec d 40) = Inr (queued_snapshot 3 sample_job_spec d 40)"
    by (simp add: make_snapshot_def snapshot_fields_ok_def ensure_valid_timeline_and_state_def queued_snapshot_def)
  have sp: "spec_ok sample_job_spec" "spec_operation_id sample_job_spec = 5" by (simp_all add: spec_ok_def sample_job_spec_def)
  have "\<exists>reg'. start 40 3 sample_job_spec None sample_registry = (Inr (queued_snapshot 3 sample_job_spec d 40), reg') \<and>
      reg_submitted reg' = [(3, sample_job_spec)]"
    using d mk sp by (simp add: start_def sample_registry_def)
  then show ?thesis using that by blast
qed

lemma operation_starts_one_job_witness:
  "\<exists>p reg'. start 40 3 sample_job_spec None sample_registry = (Inr p, reg') \<and>
     start 50 8 sample_job_spec None reg' = (Inr p, reg')"
proof -
  obtain d reg' where st: "start 40 3 sample_job_spec None (sys_registry sample_system) =
      (Inr (queued_snapshot 3 sample_job_spec d 40), reg')"
    by (rule sample_start) (simp add: sample_system_def)
  from operation_starts_one_job [OF sample_reachable st, of 50 8 None] st show ?thesis
    by (auto simp: sample_system_def)
qed

end
