(* ===== verification/Job_Output.thy ===== *)
theory Job_Output
  imports Job_Registry "HOL-Library.Sublist"
begin

text \<open>
  The output of jobs and of shell commands: how two pipes are captured under one byte budget
  (\<open>worker/job_process.py\<close>, \<open>worker/shell.py\<close>), and how a client reads a stored stream
  back in windows (\<open>gateway/jobs.py\<close>). The budget is an interface with two providers, the class of the
  job process and that of the shell worker.
\<close>

section \<open>Byte budgets\<close>

text \<open>\<open>take\<close> returns what is kept of a chunk and the budget that remains.\<close>

definition byte_budget_take :: "nat \<Rightarrow> bytes \<Rightarrow> bytes \<times> nat" where
  "byte_budget_take remaining chunk =
     (let kept = take remaining chunk in (kept, remaining - length kept))"

definition output_budget_take :: "nat \<Rightarrow> bytes \<Rightarrow> bytes \<times> nat" where
  "output_budget_take remaining chunk =
     (let kept = take remaining chunk in (kept, remaining - length kept))"

record capture =
  cap_chunks :: "bytes list"
  cap_total_bytes :: nat

definition new_capture :: capture where
  "new_capture = \<lparr>cap_chunks = [], cap_total_bytes = 0\<rparr>"

text \<open>One turn of \<open>drain\<close>: the chunk a read of the pipe returned is counted, and its kept part stored.\<close>

definition capture_chunk :: "(nat \<Rightarrow> bytes \<Rightarrow> bytes \<times> nat) \<Rightarrow> bytes \<Rightarrow> capture \<Rightarrow> nat \<Rightarrow> capture \<times> nat" where
  "capture_chunk budget chunk c remaining =
     (case budget remaining chunk of (kept, remaining') \<Rightarrow>
        (\<lparr>cap_chunks = (if kept \<noteq> [] then cap_chunks c @ [kept] else cap_chunks c),
          cap_total_bytes = cap_total_bytes c + length chunk\<rparr>, remaining'))"

text \<open>The two drain threads take turns in any order: a list of the chunks with the stream each is from.\<close>

fun drain_pipes ::
  "(nat \<Rightarrow> bytes \<Rightarrow> bytes \<times> nat) \<Rightarrow> (job_stream \<times> bytes) list \<Rightarrow> capture \<Rightarrow> capture \<Rightarrow> nat \<Rightarrow> capture \<times> capture \<times> nat" where
  "drain_pipes budget [] out err remaining = (out, err, remaining)"
| "drain_pipes budget ((Stdout, chunk) # reads) out err remaining =
     (case capture_chunk budget chunk out remaining of
        (out', remaining') \<Rightarrow> drain_pipes budget reads out' err remaining')"
| "drain_pipes budget ((Stderr, chunk) # reads) out err remaining =
     (case capture_chunk budget chunk err remaining of
        (err', remaining') \<Rightarrow> drain_pipes budget reads out err' remaining')"

definition capture_text :: "capture \<Rightarrow> pystr" where
  "capture_text c = utf8_ignore (concat (cap_chunks c))"

definition written :: "job_stream \<Rightarrow> (job_stream \<times> bytes) list \<Rightarrow> bytes" where
  "written stream reads = concat (map snd (filter (\<lambda>sc. fst sc = stream) reads))"

text \<open>\<open>RunningJobProcess.wait\<close>: the result of a process that wrote the given chunks.\<close>

definition process_wait :: "nat \<Rightarrow> int \<Rightarrow> (job_stream \<times> bytes) list \<Rightarrow> job_result option" where
  "process_wait limit exit_code reads =
     (case drain_pipes byte_budget_take reads new_capture new_capture limit of (out, err, _) \<Rightarrow>
        (case (utf8_encode (capture_text out), utf8_encode (capture_text err)) of
           (Some a, Some b) \<Rightarrow>
             Some \<lparr>res_exit_code = exit_code, res_stdout = capture_text out, res_stderr = capture_text err,
                   res_stdout_bytes = int (cap_total_bytes out), res_stderr_bytes = int (cap_total_bytes err),
                   res_truncated = (length a + length b < cap_total_bytes out + cap_total_bytes err)\<rparr>
         | _ \<Rightarrow> None))"

section \<open>The contract of a budget\<close>

locale byte_budget =
  fixes budget :: "nat \<Rightarrow> bytes \<Rightarrow> bytes \<times> nat"
  assumes kept: "fst (budget n chunk) = take n chunk"
    and left: "snd (budget n chunk) = n - length (fst (budget n chunk))"
begin

lemma budget_eq: "budget n chunk = (take n chunk, n - length chunk)"
  using kept [of n chunk] left [of n chunk] by (cases "budget n chunk") auto

lemma capture_chunk_concat:
  "capture_chunk budget chunk c n = (c', n') \<Longrightarrow>
    concat (cap_chunks c') = concat (cap_chunks c) @ take n chunk \<and>
    cap_total_bytes c' = cap_total_bytes c + length chunk \<and> n' = n - length chunk"
  by (auto simp: capture_chunk_def budget_eq split: if_splits)

text \<open>Each stream keeps a prefix of what was written, and together they keep as much as fits.\<close>

lemma drain_prefix:
  assumes "drain_pipes budget reads out err n = (out', err', n')"
  shows "\<exists>k m. concat (cap_chunks out') = concat (cap_chunks out) @ take k (written Stdout reads) \<and>
    concat (cap_chunks err') = concat (cap_chunks err) @ take m (written Stderr reads) \<and>
    k \<le> length (written Stdout reads) \<and> m \<le> length (written Stderr reads) \<and>
    k + m = min n (length (written Stdout reads) + length (written Stderr reads))"
  using assms
proof (induction reads arbitrary: out err n)
  case Nil
  then show ?case by (intro exI [of _ 0]) (simp add: written_def)
next
  case (Cons sc reads)
  obtain stream chunk where sc: "sc = (stream, chunk)" by (cases sc) auto
  show ?case
  proof (cases stream)
    case Stdout
    obtain c n1 where c: "capture_chunk budget chunk out n = (c, n1)" by fastforce
    note C = capture_chunk_concat [OF c]
    have "drain_pipes budget reads c err n1 = (out', err', n')" using Cons.prems sc Stdout c by simp
    from Cons.IH [OF this] obtain k m where K: "concat (cap_chunks out') = concat (cap_chunks c) @ take k (written Stdout reads)"
      "concat (cap_chunks err') = concat (cap_chunks err) @ take m (written Stderr reads)"
      "k \<le> length (written Stdout reads)" "m \<le> length (written Stderr reads)"
      "k + m = min n1 (length (written Stdout reads) + length (written Stderr reads))" by blast
    have w: "written Stdout (sc # reads) = chunk @ written Stdout reads" "written Stderr (sc # reads) = written Stderr reads"
      using sc Stdout by (simp_all add: written_def)
    show ?thesis
    proof (cases "length chunk \<le> n")
      case True
      then show ?thesis unfolding w using K C by - (rule exI [where x = "length chunk + k"], rule exI [where x = m], auto)
    next
      case False
      then show ?thesis unfolding w using K C by - (rule exI [where x = n], rule exI [where x = 0], auto)
    qed
  next
    case Stderr
    obtain c n1 where c: "capture_chunk budget chunk err n = (c, n1)" by fastforce
    note C = capture_chunk_concat [OF c]
    have "drain_pipes budget reads out c n1 = (out', err', n')" using Cons.prems sc Stderr c by simp
    from Cons.IH [OF this] obtain k m where K: "concat (cap_chunks out') = concat (cap_chunks out) @ take k (written Stdout reads)"
      "concat (cap_chunks err') = concat (cap_chunks c) @ take m (written Stderr reads)"
      "k \<le> length (written Stdout reads)" "m \<le> length (written Stderr reads)"
      "k + m = min n1 (length (written Stdout reads) + length (written Stderr reads))" by blast
    have w: "written Stdout (sc # reads) = written Stdout reads" "written Stderr (sc # reads) = chunk @ written Stderr reads"
      using sc Stderr by (simp_all add: written_def)
    show ?thesis
    proof (cases "length chunk \<le> n")
      case True
      then show ?thesis unfolding w using K C by - (rule exI [where x = k], rule exI [where x = "length chunk + m"], auto)
    next
      case False
      then show ?thesis unfolding w using K C by - (rule exI [where x = 0], rule exI [where x = n], auto)
    qed
  qed
qed

lemma drain_totals:
  assumes "drain_pipes budget reads out err n = (out', err', n')"
  shows "cap_total_bytes out' = cap_total_bytes out + length (written Stdout reads)"
    "cap_total_bytes err' = cap_total_bytes err + length (written Stderr reads)"
proof -
  have "cap_total_bytes out' = cap_total_bytes out + length (written Stdout reads) \<and>
    cap_total_bytes err' = cap_total_bytes err + length (written Stderr reads)"
    using assms
  proof (induction budget reads out err n rule: drain_pipes.induct)
    case (2 b chunk reads out err n)
    then show ?case by (auto simp: written_def capture_chunk_def split: prod.splits)
  next
    case (3 b chunk reads out err n)
    then show ?case by (auto simp: written_def capture_chunk_def split: prod.splits)
  qed (simp add: written_def)
  then show "cap_total_bytes out' = cap_total_bytes out + length (written Stdout reads)"
    "cap_total_bytes err' = cap_total_bytes err + length (written Stderr reads)" by blast+
qed

end

interpretation job_budget: byte_budget byte_budget_take
  by unfold_locales (simp_all add: byte_budget_take_def Let_def)

interpretation shell_budget: byte_budget output_budget_take
  by unfold_locales (simp_all add: output_budget_take_def Let_def)

section \<open>Decoding what was kept\<close>

lemma utf8_ignore_subseq: "\<exists>bs'. utf8_encode (utf8_ignore bs) = Some bs' \<and> subseq bs' bs"
proof (induction bs rule: utf8_ignore.induct)
  case (2 b bs)
  obtain oc k where st: "utf8_step b bs = (oc, k)" by fastforce
  show ?case
  proof (cases oc)
    case None
    then obtain bs' where "utf8_encode (utf8_ignore (drop k bs)) = Some bs'" "subseq bs' (drop k bs)"
      using "2.IH" st by auto
    moreover have "subseq (drop k bs) (b # bs)"
      by (rule suffix_imp_subseq) (simp add: suffix_drop suffix_ConsI)
    ultimately show ?thesis using None st by (auto intro: subseq_order.trans)
  next
    case (Some c)
    then obtain bs' where bs': "utf8_encode (utf8_ignore (drop k bs)) = Some bs'" "subseq bs' (drop k bs)"
      using "2.IH" st by auto
    have "utf8_char c = Some (b # take k bs)" using utf8_step_sound st Some by blast
    then have "utf8_encode (utf8_ignore (b # bs)) = Some (b # take k bs @ bs')" using Some st bs' by simp
    moreover have "subseq (take k bs @ bs') (take k bs @ drop k bs)"
      by (rule list_emb_append_mono [OF subseq_order.refl bs'(2)])
    then have "subseq (b # take k bs @ bs') (b # bs)" by (simp only: append_take_drop_id subseq_Cons2)
    ultimately show ?thesis by blast
  qed
qed simp

lemma utf8_ignore_whole:
  assumes "utf8_encode (utf8_ignore bs) = Some bs'" "length bs \<le> length bs'"
  shows "bs' = bs"
  using assms utf8_ignore_subseq [of bs] subseq_same_length [of bs' bs] list_emb_length [of "(=)" bs' bs] by auto

section \<open>Reading a stream back\<close>

text \<open>A client that asks for one window after the other, with the limits of the list.\<close>

fun read_windows :: "uuid \<Rightarrow> job_stream \<Rightarrow> int \<Rightarrow> int list \<Rightarrow> job_registry \<Rightarrow> job_error + pystr \<times> int" where
  "read_windows j stream offset [] reg = Inr ([], offset)"
| "read_windows j stream offset (limit # limits) reg =
     bindR (job_output_window j stream offset limit reg) (\<lambda>w.
     bindR (read_windows j stream (jo_next_offset w) limits reg) (\<lambda>(t, offset').
       Inr (jo_data w @ t, offset')))"

lemma window_step:
  assumes r: "map_of (reg_records reg) j = Some r"
    and data: "utf8_encode (p @ q) = Some (read_output j stream (reg_store reg))" "utf8_encode p = Some a"
    and limit: "4 \<le> limit" "limit \<le> max_job_output_chunk_bytes"
  shows "\<exists>w s t b. job_output_window j stream (int (length a)) limit reg = Inr w \<and>
    q = s @ t \<and> jo_data w = s \<and> utf8_encode (p @ s) = Some b \<and> jo_next_offset w = int (length b) \<and>
    (q = [] \<longrightarrow> s = []) \<and> (q \<noteq> [] \<longrightarrow> length a < length b)"
proof -
  define d where "d = read_output j stream (reg_store reg)"
  obtain qb where qb: "utf8_encode q = Some qb" "d = a @ qb"
    using data by (auto simp: utf8_encode_append d_def split: option.splits)
  have pre: "utf8_decode (take (length a) d) = Some p"
    using utf8_decode_encode [OF data(2)] qb(2) by simp
  define s where "s = fit_bytes (nat limit) q"
  have cut: "utf8_ignore (take (nat limit) (drop (length a) d)) = s"
    using utf8_ignore_cut [OF qb(1), of "nat limit"] qb(2) by (simp add: s_def)
  obtain k where k: "utf8_encode s = Some (take k qb)" "k \<le> nat limit" "k \<le> length qb"
    "4 \<le> nat limit \<Longrightarrow> qb \<noteq> [] \<Longrightarrow> 0 < k"
    unfolding s_def by (rule fit_bytes_encode [OF qb(1), of "nat limit"]) blast
  have b: "utf8_encode (p @ s) = Some (a @ take k qb)" using data(2) k(1) by (simp add: utf8_encode_append)
  obtain t where t: "q = s @ t" using fit_bytes_prefix [of q "nat limit"] by (auto simp: s_def)
  define w where "w = \<lparr>jo_job_id = j, jo_stream = stream, jo_data = s, jo_offset = int (length a),
      jo_next_offset = int (length a) + int (length (take k qb)),
      jo_complete = (int (length a) + int (length (take k qb)) \<ge> int (length d)),
      jo_total_bytes = (case stream of Stdout \<Rightarrow> sn_stdout_bytes (jr_snapshot r) | Stderr \<Rightarrow> sn_stderr_bytes (jr_snapshot r)),
      jo_retained_bytes = int (length d), jo_truncated = sn_truncated (jr_snapshot r)\<rparr>"
  have nw: "\<not> (int (length a) < 0 \<or> limit < 1 \<or> limit > max_job_output_chunk_bytes)" using limit by simp
  have g: "get_job j reg = Inr r" using r by (simp add: get_job_def)
  have w: "job_output_window j stream (int (length a)) limit reg = Inr w"
    unfolding job_output_window_def if_not_P [OF nw] g bindR_simps Let_def nat_int d_def [symmetric] pre cut k(1) option.case
    by (simp add: w_def)
  have "qb \<noteq> [] \<longleftrightarrow> q \<noteq> []" using qb(1) utf8_decode_encode [OF qb(1)] by auto
  then have "q \<noteq> [] \<longrightarrow> length a < length (a @ take k qb)" using k(4) limit(1) by auto
  moreover have "q = [] \<longrightarrow> s = []" by (simp add: s_def)
  moreover have "jo_data w = s" "jo_next_offset w = int (length (a @ take k qb))" by (simp_all add: w_def)
  ultimately show ?thesis using w t b by blast
qed

lemma read_windows_from:
  assumes "map_of (reg_records reg) j = Some r"
    and "utf8_encode (p @ q) = Some (read_output j stream (reg_store reg))" "utf8_encode p = Some a"
    and "\<forall>l \<in> set limits. 4 \<le> l \<and> l \<le> max_job_output_chunk_bytes"
    and "length (read_output j stream (reg_store reg)) \<le> length a + length limits"
  shows "read_windows j stream (int (length a)) limits reg =
    Inr (q, int (length (read_output j stream (reg_store reg))))"
  using assms
proof (induction limits arbitrary: p q a)
  case Nil
  obtain qb where qb: "utf8_encode q = Some qb" "read_output j stream (reg_store reg) = a @ qb"
    using Nil.prems(2,3) by (auto simp: utf8_encode_append split: option.splits)
  then have "qb = []" using Nil.prems(5) by simp
  then have "q = []" using utf8_decode_encode [OF qb(1)] by simp
  then show ?case using qb \<open>qb = []\<close> by simp
next
  case (Cons l limits)
  have l: "4 \<le> l" "l \<le> max_job_output_chunk_bytes" using Cons.prems(4) by auto
  obtain w s t b where W: "job_output_window j stream (int (length a)) l reg = Inr w" "q = s @ t" "jo_data w = s"
    "utf8_encode (p @ s) = Some b" "jo_next_offset w = int (length b)"
    "q = [] \<longrightarrow> s = []" "q \<noteq> [] \<longrightarrow> length a < length b"
    using window_step [OF Cons.prems(1,2,3) l] by (elim exE conjE) (rule that)
  have len: "length (read_output j stream (reg_store reg)) \<le> length b + length limits"
  proof (cases "q = []")
    case True
    then have "b = a" "read_output j stream (reg_store reg) = a" using W(4,6) Cons.prems(2,3) by auto
    then show ?thesis by simp
  next
    case False
    then show ?thesis using W(7) Cons.prems(5) by simp
  qed
  have "read_windows j stream (int (length b)) limits reg = Inr (t, int (length (read_output j stream (reg_store reg))))"
  proof (rule Cons.IH [OF Cons.prems(1) _ W(4) _ len])
    show "utf8_encode ((p @ s) @ t) = Some (read_output j stream (reg_store reg))"
      using Cons.prems(2) unfolding W(2) by simp
    show "\<forall>l \<in> set limits. 4 \<le> l \<and> l \<le> max_job_output_chunk_bytes" using Cons.prems(4) by simp
  qed
  then show ?case by (simp add: W(1,3,5) W(2))
qed

text \<open>A run that finishes without an error has stored both streams as text files.\<close>

lemma run_finished_output:
  assumes fin: "run_finished now ev j res reg = (Inr (), reg')"
  shows "\<exists>r. map_of (reg_records reg') j = Some r"
    "utf8_encode (text_mode (res_stdout res)) = Some (read_output j Stdout (reg_store reg'))"
    "utf8_encode (text_mode (res_stderr res)) = Some (read_output j Stderr (reg_store reg'))"
proof -
  obtain r where r: "map_of (reg_records reg) j = Some r"
    using fin by (cases "map_of (reg_records reg) j") (auto simp: run_finished_def get_job_def)
  have g: "get_job j reg = Inr r" using r by (simp add: get_job_iff)
  obtain a' where a': "utf8_encode (text_mode (res_stdout res)) = Some a'"
    using fin by (cases "utf8_encode (text_mode (res_stdout res))") (simp_all add: run_finished_def g write_output_def)
  obtain b' where b': "utf8_encode (text_mode (res_stderr res)) = Some b'"
    using fin by (cases "utf8_encode (text_mode (res_stderr res))") (simp_all add: run_finished_def g write_output_def a')
  obtain a where a: "utf8_encode (res_stdout res) = Some a"
    using fin by (cases "utf8_encode (res_stdout res)") (simp_all add: run_finished_def g write_output_def a' b')
  obtain b where b: "utf8_encode (res_stderr res) = Some b"
    using fin by (cases "utf8_encode (res_stderr res)") (simp_all add: run_finished_def g write_output_def a' b' a)
  note reg' = arg_cong [OF fin [unfolded run_finished_eq [OF r a b a' b']], of snd, simplified, symmetric]
  show "\<exists>r. map_of (reg_records reg') j = Some r" by (simp add: reg' update_conv')
  show "utf8_encode (text_mode (res_stdout res)) = Some (read_output j Stdout (reg_store reg'))"
    "utf8_encode (text_mode (res_stderr res)) = Some (read_output j Stderr (reg_store reg'))"
    by (simp_all add: reg' read_output_def write_snapshot_def a' b')
qed

section \<open>Properties\<close>

text \<open>
  What a job printed can be read back. Once a run has finished, a client that reads a stream window
  by window, with any limits of at least four bytes, gets exactly the stored text, with every line feed
  expanded as Windows text files have it, after at most as many reads as the stream has bytes.
\<close>

theorem job_output_roundtrip:
  assumes "run_finished now ev j res reg = (Inr (), reg')"
    and "\<forall>l \<in> set limits. 4 \<le> l \<and> l \<le> max_job_output_chunk_bytes"
    and "length (read_output j stream (reg_store reg')) \<le> length limits"
  shows "read_windows j stream 0 limits reg' =
    Inr (text_mode (case stream of Stdout \<Rightarrow> res_stdout res | Stderr \<Rightarrow> res_stderr res),
         int (length (read_output j stream (reg_store reg'))))"
proof -
  obtain r where r: "map_of (reg_records reg') j = Some r" using run_finished_output(1) [OF assms(1)] by blast
  have "utf8_encode ([] @ text_mode (case stream of Stdout \<Rightarrow> res_stdout res | Stderr \<Rightarrow> res_stderr res)) =
      Some (read_output j stream (reg_store reg'))"
    using run_finished_output(2,3) [OF assms(1)] by (cases stream) simp_all
  from read_windows_from [OF r this _ assms(2), of "[]"] assms(3) show ?thesis by simp
qed

text \<open>
  Captured output is bounded and its loss is reported. However the chunks of the two pipes
  interleave, what is kept of each stream is decoded from a prefix of what was written to it, the kept texts together
  fit into the limit, the byte counts are those of what was written, and \<open>truncated\<close> is reported exactly
  when some byte that was written is missing from the texts.
\<close>

theorem captured_output_is_bounded:
  shows "\<exists>res a b k m. process_wait limit exit_code reads = Some res \<and>
    utf8_encode (res_stdout res) = Some a \<and> utf8_encode (res_stderr res) = Some b \<and>
    res_stdout res = utf8_ignore (take k (written Stdout reads)) \<and>
    res_stderr res = utf8_ignore (take m (written Stderr reads)) \<and>
    length a + length b \<le> limit \<and>
    res_stdout_bytes res = int (length (written Stdout reads)) \<and>
    res_stderr_bytes res = int (length (written Stderr reads)) \<and>
    (\<not> res_truncated res \<longleftrightarrow> a = written Stdout reads \<and> b = written Stderr reads)"
proof -
  obtain out err n where d: "drain_pipes byte_budget_take reads new_capture new_capture limit = (out, err, n)"
    by (cases "drain_pipes byte_budget_take reads new_capture new_capture limit") auto
  obtain k m where km: "concat (cap_chunks out) = take k (written Stdout reads)"
    "concat (cap_chunks err) = take m (written Stderr reads)"
    "k \<le> length (written Stdout reads)" "m \<le> length (written Stderr reads)" "k + m \<le> limit"
    using job_budget.drain_prefix [OF d] by (auto simp: new_capture_def)
  have tot: "cap_total_bytes out = length (written Stdout reads)" "cap_total_bytes err = length (written Stderr reads)"
    using job_budget.drain_totals [OF d] by (simp_all add: new_capture_def)
  obtain a where a: "utf8_encode (capture_text out) = Some a" "subseq a (take k (written Stdout reads))"
    using utf8_ignore_subseq [of "concat (cap_chunks out)"] by (auto simp: capture_text_def km(1))
  obtain b where b: "utf8_encode (capture_text err) = Some b" "subseq b (take m (written Stderr reads))"
    using utf8_ignore_subseq [of "concat (cap_chunks err)"] by (auto simp: capture_text_def km(2))
  have la: "length a \<le> k" "length b \<le> m"
    using list_emb_length [OF a(2)] list_emb_length [OF b(2)] by simp_all
  define res where "res = \<lparr>res_exit_code = exit_code, res_stdout = capture_text out, res_stderr = capture_text err,
    res_stdout_bytes = int (cap_total_bytes out), res_stderr_bytes = int (cap_total_bytes err),
    res_truncated = (length a + length b < cap_total_bytes out + cap_total_bytes err)\<rparr>"
  have whole: "a = written Stdout reads \<and> b = written Stderr reads" if "\<not> res_truncated res"
  proof -
    have len: "length (written Stdout reads) \<le> length a" "length (written Stderr reads) \<le> length b"
      using that la km(3,4) by (simp_all add: res_def tot)
    have "k = length (written Stdout reads)" "m = length (written Stderr reads)" using len la km(3,4) by simp_all
    then have "subseq a (written Stdout reads)" "subseq b (written Stderr reads)" using a(2) b(2) by simp_all
    then show ?thesis using len list_emb_length subseq_same_length by (metis le_antisym)
  qed
  have "process_wait limit exit_code reads = Some res" using a(1) b(1) by (simp add: process_wait_def d res_def)
  moreover have "\<not> res_truncated res" if "a = written Stdout reads" "b = written Stderr reads"
    using that by (simp add: res_def tot)
  moreover have "utf8_encode (res_stdout res) = Some a" "utf8_encode (res_stderr res) = Some b"
    "res_stdout res = utf8_ignore (take k (written Stdout reads))"
    "res_stderr res = utf8_ignore (take m (written Stderr reads))"
    "res_stdout_bytes res = int (length (written Stdout reads))"
    "res_stderr_bytes res = int (length (written Stderr reads))"
    using a(1) b(1) by (simp_all add: res_def tot capture_text_def km(1,2))
  ultimately show ?thesis using whole la km(5) by (intro exI conjI) (assumption | linarith | blast)+
qed

section \<open>Shell output\<close>

text \<open>Decoding UTF-16, little endian, with errors ignored, as the output of \<open>cmd.exe\<close> is read.\<close>

definition code_unit :: "byte \<Rightarrow> byte \<Rightarrow> nat" where
  "code_unit lo hi = unat hi * 256 + unat lo"

fun utf16_ignore :: "bytes \<Rightarrow> pystr" where
  "utf16_ignore [] = []"
| "utf16_ignore [_] = []"
| "utf16_ignore (a # b # bs) =
     (let u = code_unit a b in
      if 0xD800 \<le> u \<and> u < 0xDC00
      then (case bs of
              c # d # rest \<Rightarrow>
                (let v = code_unit c d in
                 if 0xDC00 \<le> v \<and> v < 0xE000
                 then (0x10000 + (u - 0xD800) * 1024 + (v - 0xDC00)) # utf16_ignore rest
                 else utf16_ignore bs)
            | _ \<Rightarrow> [])
      else if 0xDC00 \<le> u \<and> u < 0xE000 then utf16_ignore bs
      else u # utf16_ignore bs)"

datatype shell_kind = POWERSHELL | CMD | GIT_BASH

definition shell_decode :: "shell_kind \<Rightarrow> bytes \<Rightarrow> pystr" where
  "shell_decode kind bs = (if kind = CMD then utf16_ignore bs else utf8_ignore bs)"

text \<open>\<open>_PipeCapture.text\<close>: re-encoded text is cut to the second budget at a character boundary.\<close>

definition shell_text :: "shell_kind \<Rightarrow> capture \<Rightarrow> nat \<Rightarrow> ((pystr \<times> bool) \<times> nat) option" where
  "shell_text kind c remaining =
     (case utf8_encode (shell_decode kind (concat (cap_chunks c))) of
        None \<Rightarrow> None
      | Some encoded \<Rightarrow>
          (case output_budget_take remaining encoded of
             (kept, remaining') \<Rightarrow>
               (let text = utf8_ignore kept in
                case utf8_encode text of
                  None \<Rightarrow> None
                | Some e \<Rightarrow> Some ((text, length e < length encoded), remaining'))))"

record shell_output =
  so_stdout :: pystr
  so_stderr :: pystr
  so_truncated :: bool
  so_stdout_bytes :: nat
  so_stderr_bytes :: nat

datatype shell_error = ShellTimeoutLimitError

text \<open>The part of \<open>ShellWorker.run\<close> between its timeout check and its result that deals with output.\<close>

definition shell_output_of :: "nat \<Rightarrow> shell_kind \<Rightarrow> (job_stream \<times> bytes) list \<Rightarrow> shell_output option" where
  "shell_output_of limit kind reads =
     (case drain_pipes output_budget_take reads new_capture new_capture limit of (out, err, _) \<Rightarrow>
        (case shell_text kind out limit of
           None \<Rightarrow> None
         | Some ((out_text, out_trimmed), remaining) \<Rightarrow>
             (case shell_text kind err remaining of
                None \<Rightarrow> None
              | Some ((err_text, err_trimmed), _) \<Rightarrow>
                  Some \<lparr>so_stdout = out_text, so_stderr = err_text,
                        so_truncated = (cap_total_bytes out + cap_total_bytes err > limit \<or> out_trimmed \<or> err_trimmed),
                        so_stdout_bytes = cap_total_bytes out, so_stderr_bytes = cap_total_bytes err\<rparr>)))"

definition max_sync_seconds :: int where "max_sync_seconds = 110"

definition shell_timeout_ok :: "int \<Rightarrow> int \<Rightarrow> shell_error + unit" where
  "shell_timeout_ok configured timeout_s =
     (if timeout_s > min configured max_sync_seconds then Inl ShellTimeoutLimitError else Inr ())"

text \<open>What decoding UTF-16 yields can be encoded: it has no surrogates.\<close>

lemma code_unit_less: "code_unit a b < 0x10000"
proof -
  have "unat a < 256" "unat b < 256" by (rule unat_byte_less)+
  then show ?thesis by (simp add: code_unit_def)
qed

lemma utf8_char_total: "c < 0x110000 \<Longrightarrow> \<not> surrogate c \<Longrightarrow> \<exists>b. utf8_char c = Some b"
  by (simp add: utf8_char_def)

lemma utf16_ignore_encodes: "\<exists>b. utf8_encode (utf16_ignore bs) = Some b"
proof (induction bs rule: utf16_ignore.induct)
  case (3 a b bs)
  let ?u = "code_unit a b"
  consider (high) "0xD800 \<le> ?u" "?u < 0xDC00" | (low) "0xDC00 \<le> ?u" "?u < 0xE000" | (plain) "\<not> (0xD800 \<le> ?u \<and> ?u < 0xE000)"
    by linarith
  then show ?case
  proof cases
    case high
    show ?thesis
    proof (cases "\<exists>c d rest. bs = c # d # rest")
      case True
      then obtain c d rest where bs: "bs = c # d # rest" by blast
      let ?v = "code_unit c d"
      show ?thesis
      proof (cases "0xDC00 \<le> ?v \<and> ?v < 0xE000")
        case True
        let ?w = "0x10000 + (?u - 0xD800) * 1024 + (?v - 0xDC00)"
        have "?w < 0x110000" "\<not> surrogate ?w" using high True by (auto simp: surrogate_def)
        then obtain e where "utf8_char ?w = Some e" using utf8_char_total by blast
        moreover obtain r where "utf8_encode (utf16_ignore rest) = Some r" using "3.IH"(1) high bs True by blast
        ultimately show ?thesis using high True by (simp add: bs Let_def)
      next
        case False
        then show ?thesis using "3.IH"(2) high bs by (auto simp: Let_def)
      qed
    next
      case False
      then show ?thesis using high by (auto simp: Let_def split: list.splits)
    qed
  next
    case low
    then show ?thesis using "3.IH"(3) by (auto simp: Let_def)
  next
    case plain
    have "\<not> surrogate ?u" "?u < 0x110000" using plain code_unit_less [of a b] by (auto simp: surrogate_def)
    then obtain e where "utf8_char ?u = Some e" using utf8_char_total by blast
    moreover obtain r where "utf8_encode (utf16_ignore bs) = Some r" using "3.IH"(4) plain by auto
    ultimately show ?thesis using plain by (auto simp: Let_def)
  qed
qed simp_all

lemma shell_decode_encodes: "\<exists>b. utf8_encode (shell_decode kind bs) = Some b"
  using utf16_ignore_encodes utf8_ignore_subseq by (fastforce simp: shell_decode_def)

lemma shell_text_total:
  "\<exists>text trimmed e. shell_text kind c remaining = Some ((text, trimmed), remaining - length (the (utf8_encode (shell_decode kind (concat (cap_chunks c)))))) \<and>
     utf8_encode text = Some e \<and>
     length e \<le> min remaining (length (the (utf8_encode (shell_decode kind (concat (cap_chunks c)))))) \<and>
     (\<not> trimmed \<longrightarrow> text = shell_decode kind (concat (cap_chunks c)))"
proof -
  obtain d where d: "utf8_encode (shell_decode kind (concat (cap_chunks c))) = Some d" using shell_decode_encodes by blast
  obtain e where e: "utf8_encode (utf8_ignore (take remaining d)) = Some e" "subseq e (take remaining d)"
    using utf8_ignore_subseq by blast
  have le: "length e \<le> min remaining (length d)" using list_emb_length [OF e(2)] by simp
  have "utf8_ignore (take remaining d) = shell_decode kind (concat (cap_chunks c))" if "length d \<le> length e"
  proof -
    have "take remaining d = d" using that le by simp
    then show ?thesis using utf8_ignore_encode [OF d] by simp
  qed
  then show ?thesis
    using d e le by (simp add: shell_text_def shell_budget.budget_eq Let_def not_less)
qed

text \<open>
  A shell result is bounded in its re-encoded form, and when it is not marked as truncated it is the
  decoding of everything that was written.
\<close>

lemma shell_output_is_bounded:
  "\<exists>so a b. shell_output_of limit kind reads = Some so \<and> utf8_encode (so_stdout so) = Some a \<and>
     utf8_encode (so_stderr so) = Some b \<and> length a + length b \<le> limit \<and>
     so_stdout_bytes so = length (written Stdout reads) \<and> so_stderr_bytes so = length (written Stderr reads) \<and>
     (\<not> so_truncated so \<longrightarrow> so_stdout so = shell_decode kind (written Stdout reads) \<and>
        so_stderr so = shell_decode kind (written Stderr reads))"
proof -
  obtain out err n where d: "drain_pipes output_budget_take reads new_capture new_capture limit = (out, err, n)"
    by (cases "drain_pipes output_budget_take reads new_capture new_capture limit") auto
  obtain k m where km: "concat (cap_chunks out) = take k (written Stdout reads)"
    "concat (cap_chunks err) = take m (written Stderr reads)"
    "k \<le> length (written Stdout reads)" "m \<le> length (written Stderr reads)"
    "k + m = min limit (length (written Stdout reads) + length (written Stderr reads))"
    using shell_budget.drain_prefix [OF d] by (auto simp: new_capture_def)
  have tot: "cap_total_bytes out = length (written Stdout reads)" "cap_total_bytes err = length (written Stderr reads)"
    using shell_budget.drain_totals [OF d] by (simp_all add: new_capture_def)
  let ?d = "length (the (utf8_encode (shell_decode kind (concat (cap_chunks out)))))"
  obtain t f e where t: "shell_text kind out limit = Some ((t, f), limit - ?d)" "utf8_encode t = Some e"
    "length e \<le> min limit ?d" "\<not> f \<longrightarrow> t = shell_decode kind (concat (cap_chunks out))"
    using shell_text_total [of kind out limit] by blast
  obtain t' f' e' r where t': "shell_text kind err (limit - ?d) = Some ((t', f'), r)" "utf8_encode t' = Some e'"
    "length e' \<le> limit - ?d" "\<not> f' \<longrightarrow> t' = shell_decode kind (concat (cap_chunks err))"
    using shell_text_total [of kind err "limit - ?d"] by auto
  have whole: "concat (cap_chunks out) = written Stdout reads" "concat (cap_chunks err) = written Stderr reads"
    if "cap_total_bytes out + cap_total_bytes err \<le> limit"
    using that km tot by simp_all
  show ?thesis
    using t t' whole by (intro exI [of _ "\<lparr>so_stdout = t, so_stderr = t',
        so_truncated = (cap_total_bytes out + cap_total_bytes err > limit \<or> f \<or> f'),
        so_stdout_bytes = cap_total_bytes out, so_stderr_bytes = cap_total_bytes err\<rparr>"] exI [of _ e] exI [of _ e'])
      (auto simp: shell_output_of_def d tot not_less)
qed

section \<open>Concrete output\<close>

definition sample_process_result :: job_result where
  "sample_process_result =
     \<lparr>res_exit_code = 0, res_stdout = [104, 233, 10], res_stderr = [], res_stdout_bytes = 4,
      res_stderr_bytes = 0, res_truncated = False\<rparr>"

lemma sample_text: "utf8_encode (text_mode [104, 233, 10]) = Some (map mkb [104, 195, 169, 13, 10])"
  "utf8_encode [104, 233, 10] = Some (map mkb [104, 195, 169, 10])" "text_mode [] = []"
  by (simp_all add: text_mode_def utf8_char_def)

lemma job_output_roundtrip_witness:
  "\<exists>reg'. run_finished 50 9 1 sample_process_result sample_registry = (Inr (), reg') \<and>
     read_windows 1 Stdout 0 [4, 4, 4, 4, 65536] reg' = Inr ([104, 233, 13, 10], 5)"
proof -
  have r: "map_of (reg_records sample_registry) 1 = Some (new_record sample_done)" by (simp add: sample_registry_def)
  have e: "utf8_encode (res_stdout sample_process_result) = Some (map mkb [104, 195, 169, 10])"
    "utf8_encode (res_stderr sample_process_result) = Some []"
    "utf8_encode (text_mode (res_stdout sample_process_result)) = Some (map mkb [104, 195, 169, 13, 10])"
    "utf8_encode (text_mode (res_stderr sample_process_result)) = Some []"
    using sample_text by (simp_all add: sample_process_result_def)
  obtain reg' where f: "run_finished 50 9 1 sample_process_result sample_registry = (Inr (), reg')"
    using run_finished_eq [OF r e] by blast
  have "read_output 1 Stdout (reg_store reg') = map mkb [104, 195, 169, 13, 10]"
    using run_finished_output(2) [OF f] e(3) by simp
  then show ?thesis
    using f job_output_roundtrip [OF f, of "[4, 4, 4, 4, 65536]" Stdout]
    by (simp add: max_job_output_chunk_bytes_def sample_process_result_def text_mode_def)
qed

text \<open>
  A window that is smaller than the character at its start is empty and does not advance: the client is
  told that the stream is not complete and to ask again at the same offset.
\<close>

lemma small_window_makes_no_progress:
  "\<exists>w. job_output_window 1 Stdout 1 1 sample_registry = Inr w \<and> jo_data w = [] \<and> jo_next_offset w = 1 \<and>
     \<not> jo_complete w"
  by (simp add: job_output_window_def sample_registry_def get_job_def read_output_def sample_job_store_def
      max_job_output_chunk_bytes_def utf8_step_def cont_byte_def Let_def)

text \<open>
  The retention cleanup looks at the age of a job only: a run that takes longer than the retention period
  loses its job, and its process is left without an owner.
\<close>

lemma retention_removes_active_job:
  assumes "make_snapshot p = Inr p" "dt_instant (sn_updated_at p) < now - period"
  shows "load now \<lparr>jst_retention = period, jst_metadata = [(sn_job_id p, Metadata p)], jst_outputs = f\<rparr> =
    (Inr [], delete_job (sn_job_id p) (sn_job_id p)
       \<lparr>jst_retention = period, jst_metadata = [(sn_job_id p, Metadata p)], jst_outputs = f\<rparr>)"
  using assms load_files_ok [of p "now - period" "sn_job_id p" "[]"] by (simp add: load_def snapshot_ok_def)

end
