(* ===== verification/Job_Dispatch.thy ===== *)
theory Job_Dispatch
  imports Idempotency Job_Output
begin

text \<open>
  Local job calls (\<open>gateway/job_dispatch.py\<close>): the typed invocation of the registry under the
  idempotency store, and the public error codes. What the schema library does is an argument: lax
  conversion of identifiers, integers and paths, the text of a time stamp, the JSON parser.
\<close>

section \<open>Payloads\<close>

record job_codec =
  lax_uuid :: "json \<Rightarrow> uuid option"
  lax_int :: "json \<Rightarrow> int option"
  lax_path :: "json \<Rightarrow> pystr option"
  datetime_text :: "datetime \<Rightarrow> pystr"
  parse_payload :: "bytes \<Rightarrow> (pystr \<times> json) list option"

definition only_fields :: "string list \<Rightarrow> (pystr \<times> json) list \<Rightarrow> bool" where
  "only_fields names payload \<longleftrightarrow> list_all (\<lambda>kv. fst kv \<in> set (map ustr names)) payload"

definition kind_of :: "json \<Rightarrow> job_kind option" where
  "kind_of v = (case v of
     JStr s \<Rightarrow> (if s = ustr ''process'' then Some PROCESS else if s = ustr ''shell'' then Some SHELL
                else if s = ustr ''codex'' then Some CODEX else None)
   | _ \<Rightarrow> None)"

definition stream_of :: "json \<Rightarrow> job_stream option" where
  "stream_of v = (case v of
     JStr s \<Rightarrow> (if s = ustr ''stdout'' then Some Stdout else if s = ustr ''stderr'' then Some Stderr else None)
   | _ \<Rightarrow> None)"

fun strings_of :: "json list \<Rightarrow> pystr list option" where
  "strings_of [] = Some []"
| "strings_of (JStr s # vs) = map_option ((#) s) (strings_of vs)"
| "strings_of (_ # vs) = None"

definition argv_of :: "json \<Rightarrow> pystr list option" where
  "argv_of v = (case v of
     JList vs \<Rightarrow> (case strings_of vs of
                    None \<Rightarrow> None
                  | Some argv \<Rightarrow> if 1 \<le> length argv \<and> length argv \<le> 256 then Some argv else None)
   | _ \<Rightarrow> None)"

definition parse_job_start :: "job_codec \<Rightarrow> uuid \<Rightarrow> (pystr \<times> json) list \<Rightarrow> job_spec option" where
  "parse_job_start codec operation_id payload =
     (if \<not> only_fields [''kind'', ''argv'', ''cwd''] payload then None
      else (case (case map_of payload (ustr ''kind'') of None \<Rightarrow> Some PROCESS | Some v \<Rightarrow> kind_of v,
                  Option.bind (map_of payload (ustr ''argv'')) argv_of,
                  Option.bind (map_of payload (ustr ''cwd'')) (lax_path codec)) of
              (Some kind, Some argv, Some cwd) \<Rightarrow>
                Some \<lparr>spec_operation_id = operation_id, spec_kind = kind, spec_argv = argv, spec_cwd = cwd\<rparr>
            | _ \<Rightarrow> None))"

definition parse_job_id :: "job_codec \<Rightarrow> (pystr \<times> json) list \<Rightarrow> uuid option" where
  "parse_job_id codec payload =
     (if \<not> only_fields [''job_id''] payload then None
      else Option.bind (map_of payload (ustr ''job_id'')) (lax_uuid codec))"

definition parse_job_output :: "job_codec \<Rightarrow> (pystr \<times> json) list \<Rightarrow> (uuid \<times> job_stream \<times> int \<times> int) option" where
  "parse_job_output codec payload =
     (if \<not> only_fields [''job_id'', ''stream'', ''offset'', ''limit''] payload then None
      else (case (Option.bind (map_of payload (ustr ''job_id'')) (lax_uuid codec),
                  case map_of payload (ustr ''stream'') of None \<Rightarrow> Some Stdout | Some v \<Rightarrow> stream_of v,
                  Option.bind (map_of payload (ustr ''offset'')) (lax_int codec),
                  Option.bind (map_of payload (ustr ''limit'')) (lax_int codec)) of
              (Some j, Some stream, Some offset, Some limit) \<Rightarrow>
                if 0 \<le> offset \<and> 0 < limit \<and> limit \<le> max_job_output_chunk_bytes
                then Some (j, stream, offset, limit) else None
            | _ \<Rightarrow> None))"

section \<open>Results\<close>

fun state_value :: "job_state \<Rightarrow> string" where
  "state_value QUEUED = ''queued''"
| "state_value RUNNING = ''running''"
| "state_value SUCCEEDED = ''succeeded''"
| "state_value FAILED = ''failed''"
| "state_value CANCELLED = ''cancelled''"
| "state_value INTERRUPTED = ''interrupted''"

definition optional_int :: "int option \<Rightarrow> json" where
  "optional_int v = (case v of None \<Rightarrow> JNull | Some i \<Rightarrow> JInt i)"

definition snapshot_json :: "job_codec \<Rightarrow> job_snapshot \<Rightarrow> json" where
  "snapshot_json codec p =
     JObj [(ustr ''job_id'', JStr (uuid_str (sn_job_id p))),
           (ustr ''operation_id'', JStr (uuid_str (sn_operation_id p))),
           (ustr ''request_digest'', JStr (sn_request_digest p)),
           (ustr ''kind'', JStr (ustr (kind_value (sn_kind p)))),
           (ustr ''state'', JStr (ustr (state_value (sn_state p)))),
           (ustr ''created_at'', JStr (datetime_text codec (sn_created_at p))),
           (ustr ''updated_at'', JStr (datetime_text codec (sn_updated_at p))),
           (ustr ''exit_code'', optional_int (sn_exit_code p)), (ustr ''pid'', optional_int (sn_pid p)),
           (ustr ''stdout_bytes'', JInt (sn_stdout_bytes p)), (ustr ''stderr_bytes'', JInt (sn_stderr_bytes p)),
           (ustr ''retained_bytes'', JInt (sn_retained_bytes p)), (ustr ''truncated'', JBool (sn_truncated p))]"

fun stream_value :: "job_stream \<Rightarrow> string" where
  "stream_value Stdout = ''stdout''"
| "stream_value Stderr = ''stderr''"

definition output_json :: "job_output \<Rightarrow> json" where
  "output_json w =
     JObj [(ustr ''job_id'', JStr (uuid_str (jo_job_id w))), (ustr ''stream'', JStr (ustr (stream_value (jo_stream w)))),
           (ustr ''data'', JStr (jo_data w)), (ustr ''offset'', JInt (jo_offset w)),
           (ustr ''next_offset'', JInt (jo_next_offset w)), (ustr ''complete'', JBool (jo_complete w)),
           (ustr ''total_bytes'', JInt (jo_total_bytes w)), (ustr ''retained_bytes'', JInt (jo_retained_bytes w)),
           (ustr ''truncated'', JBool (jo_truncated w))]"

section \<open>Invocation\<close>

record job_call =
  jc_operation_id :: uuid
  jc_tool_name :: string
  jc_payload :: "(pystr \<times> json) list"
  jc_requested_at :: datetime

text \<open>The clock of the registry and the identifiers it draws during the call.\<close>

record job_env =
  je_now :: int
  je_fresh :: uuid
  je_event :: uuid

datatype job_call_error = JobValidationError | JobRaised job_error | JobResultCanonical canonical_error

definition invoke :: "job_codec \<Rightarrow> job_env \<Rightarrow> job_call \<Rightarrow> job_registry \<Rightarrow> (job_call_error + json) \<times> job_registry" where
  "invoke codec env call reg =
     (if jc_tool_name call = ''job_start''
      then (case parse_job_start codec (jc_operation_id call) (jc_payload call) of
              None \<Rightarrow> (Inl JobValidationError, reg)
            | Some spec \<Rightarrow>
                (case start (je_now env) (je_fresh env) spec None reg of
                   (Inl e, reg') \<Rightarrow> (Inl (JobRaised e), reg')
                 | (Inr p, reg') \<Rightarrow> (Inr (snapshot_json codec p), reg')))
      else if jc_tool_name call = ''job_status''
      then (case parse_job_id codec (jc_payload call) of
              None \<Rightarrow> (Inl JobValidationError, reg)
            | Some j \<Rightarrow> (bindR (mapErr JobRaised (status j reg)) (\<lambda>p. Inr (snapshot_json codec p)), reg))
      else if jc_tool_name call = ''job_output''
      then (case parse_job_output codec (jc_payload call) of
              None \<Rightarrow> (Inl JobValidationError, reg)
            | Some (j, stream, offset, limit) \<Rightarrow>
                (bindR (mapErr JobRaised (job_output_window j stream offset limit reg)) (\<lambda>w. Inr (output_json w)), reg))
      else (case parse_job_id codec (jc_payload call) of
              None \<Rightarrow> (Inl JobValidationError, reg)
            | Some j \<Rightarrow>
                (case cancel (je_now env) (je_event env) j reg of
                   (Inl e, reg') \<Rightarrow> (Inl (JobRaised e), reg')
                 | (Inr p, reg') \<Rightarrow> (Inr (snapshot_json codec p), reg'))))"

definition job_operation_call :: "job_call \<Rightarrow> operation_call" where
  "job_operation_call call =
     \<lparr>oc_operation_id = jc_operation_id call,
      oc_payload = JObj [(ustr ''tool'', JStr (ustr (jc_tool_name call))), (ustr ''payload'', JObj (jc_payload call))],
      oc_requested_at = jc_requested_at call\<rparr>"

definition invoke_bytes :: "job_codec \<Rightarrow> job_env \<Rightarrow> job_call \<Rightarrow> job_registry \<Rightarrow> (job_call_error + bytes) \<times> job_registry" where
  "invoke_bytes codec env call reg =
     (case invoke codec env call reg of
        (Inl e, reg') \<Rightarrow> (Inl e, reg')
      | (Inr v, reg') \<Rightarrow> (mapErr JobResultCanonical (canonicalize_payload v), reg'))"

text \<open>A \<open>JobDispatchError\<close> with its public code, or an exception no clause catches.\<close>

datatype job_dispatch_error = JobDispatchError string | JobDispatchEscapes "job_call_error idem_error"

fun job_error_code :: "job_call_error idem_error \<Rightarrow> job_dispatch_error" where
  "job_error_code (IdempotencyConflictError i) = JobDispatchError ''idempotency_conflict''"
| "job_error_code OperationTimeError = JobDispatchError ''invalid_request''"
| "job_error_code (IdemCanonicalError e) = JobDispatchError ''invalid_request''"
| "job_error_code (CallbackError JobValidationError) = JobDispatchError ''invalid_request''"
| "job_error_code (CallbackError (JobRaised InvalidJobSpecError)) = JobDispatchError ''invalid_request''"
| "job_error_code (CallbackError (JobRaised InvalidOutputWindowError)) = JobDispatchError ''invalid_request''"
| "job_error_code (CallbackError (JobRaised (JobNotFoundError j))) = JobDispatchError ''job_not_found''"
| "job_error_code (CallbackError (JobRaised JobRegistryClosedError)) = JobDispatchError ''job_service_unavailable''"
| "job_error_code e = JobDispatchEscapes e"

definition execute_job_call ::
  "job_codec \<Rightarrow> job_env \<Rightarrow> job_call \<Rightarrow> idempotency_store \<Rightarrow> job_registry \<Rightarrow>
   (job_dispatch_error + (pystr \<times> json) list \<times> bool) \<times> idempotency_store \<times> job_registry" where
  "execute_job_call codec env call store reg =
     (case make_operation_call (job_operation_call call) of
        Inl e \<Rightarrow> (Inl (job_error_code e), store, reg)
      | Inr oc \<Rightarrow>
          (case execute store oc (invoke_bytes codec env call) reg of
             (Inl e, store', reg') \<Rightarrow> (Inl (job_error_code e), store', reg')
           | (Inr cached, store', reg') \<Rightarrow>
               (case parse_payload codec (ir_payload cached) of
                  None \<Rightarrow> (Inl (JobDispatchError ''invalid_request''), store', reg')
                | Some payload \<Rightarrow> (Inr (payload, ir_replayed cached), store', reg'))))"

text \<open>A call that outlives its timeout goes on in its thread; the caller gets the timeout.\<close>

definition dispatch_job ::
  "job_codec \<Rightarrow> job_env \<Rightarrow> bool \<Rightarrow> job_registry option \<Rightarrow> idempotency_store \<Rightarrow> job_call \<Rightarrow>
   (job_dispatch_error + (pystr \<times> json) list \<times> bool) \<times> idempotency_store \<times> job_registry option" where
  "dispatch_job codec env timed_out registry store call =
     (case registry of
        None \<Rightarrow> (Inl (JobDispatchError ''job_service_unavailable''), store, None)
      | Some reg \<Rightarrow>
          (case execute_job_call codec env call store reg of
             (r, store', reg') \<Rightarrow>
               (if timed_out then Inl (JobDispatchError ''dispatch_timeout'') else r, store', Some reg')))"

section \<open>What a call does to the registry\<close>

lemma invoke_effect:
  assumes "invoke codec env call reg = (r, reg')"
  obtains (unchanged) "reg' = reg"
    | (start) spec where "jc_tool_name call = ''job_start''"
        "parse_job_start codec (jc_operation_id call) (jc_payload call) = Some spec"
        "reg' = snd (start (je_now env) (je_fresh env) spec None reg)"
    | (cancel) j where "jc_tool_name call \<notin> {''job_start'', ''job_status'', ''job_output''}"
        "parse_job_id codec (jc_payload call) = Some j" "reg' = snd (cancel (je_now env) (je_event env) j reg)"
proof (cases "jc_tool_name call = ''job_start''")
  case True
  then show ?thesis
    using assms unchanged start
    by (cases "parse_job_start codec (jc_operation_id call) (jc_payload call)")
      (auto simp: invoke_def split: prod.splits sum.splits)
next
  case False
  show ?thesis
  proof (cases "jc_tool_name call \<in> {''job_status'', ''job_output''}")
    case True
    then show ?thesis using assms unchanged by (auto simp: invoke_def split: option.splits prod.splits)
  next
    case tool: False
    then show ?thesis
      using assms unchanged cancel False
      by (cases "parse_job_id codec (jc_payload call)") (auto simp: invoke_def split: prod.splits sum.splits)
  qed
qed

lemma invoke_bytes_registry: "snd (invoke_bytes codec env call reg) = snd (invoke codec env call reg)"
  by (simp add: invoke_bytes_def split: prod.splits sum.splits)

lemma execute_frame:
  assumes "execute s c f w = (r, s', w')"
  shows "w' = w \<or> w' = snd (f w)"
  using assms by (auto simp: execute_def split: sum.splits option.splits prod.splits if_splits)

lemma execute_job_call_registry:
  assumes "execute_job_call codec env call store reg = (r, store', reg')"
  shows "reg' = reg \<or> reg' = snd (invoke codec env call reg)"
proof (cases "make_operation_call (job_operation_call call) :: job_call_error idem_error + operation_call")
  case (Inl e)
  then show ?thesis using assms by (simp add: execute_job_call_def)
next
  case (Inr oc)
  obtain x s1 reg1 where x: "execute store oc (invoke_bytes codec env call) reg = (x, s1, reg1)" by (metis prod_cases3)
  have "reg' = reg1" using assms Inr x by (cases x) (auto simp: execute_job_call_def split: option.splits)
  then show ?thesis using execute_frame [OF x] by (simp add: invoke_bytes_registry)
qed

section \<open>Properties\<close>

text \<open>
  C19: a local job call refines the job system. Whatever the store, the payload and the outcome, the call either
  leaves the registry alone or is exactly one step of it: the start of the job its payload describes, or the
  cancellation of the job it names; so every registry reached through calls is a reachable one, and
  status and output calls never change it.
\<close>

theorem job_call_is_registry_step:
  assumes "job_reachable \<sigma>" "sys_clock \<sigma> \<le> je_now env"
    "je_fresh env \<notin> fst ` set (reg_submitted (sys_registry \<sigma>)) \<union> fst ` set (sys_active \<sigma>)"
    and "execute_job_call codec env call store (sys_registry \<sigma>) = (r, store', reg')"
    and "\<sigma>' = \<sigma>\<lparr>sys_registry := reg', sys_clock := je_now env\<rparr>" "reg' \<noteq> sys_registry \<sigma>"
  shows "job_reachable \<sigma>' \<and>
    ((\<exists>spec. jc_tool_name call = ''job_start'' \<and>
        parse_job_start codec (jc_operation_id call) (jc_payload call) = Some spec \<and>
        job_apply (je_now env) (StartJob spec None (je_fresh env)) \<sigma> = Some \<sigma>') \<or>
     (\<exists>j. jc_tool_name call \<notin> {''job_start'', ''job_status'', ''job_output''} \<and>
        parse_job_id codec (jc_payload call) = Some j \<and>
        job_apply (je_now env) (CancelJob j (je_event env)) \<sigma> = Some \<sigma>'))"
proof -
  obtain x reg1 where x: "invoke codec env call (sys_registry \<sigma>) = (x, reg1)" by fastforce
  have reg1: "reg1 = reg'" using execute_job_call_registry [OF assms(4)] assms(6) x by auto
  show ?thesis
  proof (cases rule: invoke_effect [OF x, case_names unchanged start cancel])
    case unchanged
    then show ?thesis using assms(6) reg1 by simp
  next
    case (start spec)
    then have a: "job_apply (je_now env) (StartJob spec None (je_fresh env)) \<sigma> = Some \<sigma>'"
      using assms(5) reg1 by simp
    have "job_reachable \<sigma>'" by (rule job_reachable.step [OF assms(1,2) _ a]) (use assms(3) in simp)
    then show ?thesis using a start(1,2) by blast
  next
    case (cancel j)
    then have a: "job_apply (je_now env) (CancelJob j (je_event env)) \<sigma> = Some \<sigma>'"
      using assms(5) reg1 by simp
    have "job_reachable \<sigma>'" by (rule job_reachable.step [OF assms(1,2) _ a]) simp
    then show ?thesis using a cancel(1,2) by blast
  qed
qed

text \<open>
  A repeated job call acts once. After a call has succeeded, the same call made again within the time to live
  leaves registry and store untouched, whatever has happened to the registry since, and returns the first
  payload, marked as replayed.
\<close>

theorem repeated_job_call_is_replayed:
  assumes "execute_job_call codec env call store reg = (Inr (payload, False), store', reg')"
    and "call' = call\<lparr>jc_requested_at := t\<rparr>" "\<not> tz_missing t"
      "dt_instant t < dt_instant (jc_requested_at call) + is_ttl store"
  shows "execute_job_call codec env' call' store' reg2 = (Inr (payload, True), store', reg2)"
proof -
  obtain oc where oc: "make_operation_call (job_operation_call call) = (Inr oc :: job_call_error idem_error + operation_call)"
    using assms(1) by (cases "make_operation_call (job_operation_call call) :: job_call_error idem_error + operation_call")
      (simp_all add: execute_job_call_def)
  have eq: "oc = job_operation_call call" and aware: "\<not> tz_missing (oc_requested_at oc)"
    using oc by (auto simp: make_operation_call_def split: if_splits sum.splits)
  obtain x s1 reg1 where x: "execute store oc (invoke_bytes codec env call) reg = (x, s1, reg1)" by (metis prod_cases3)
  obtain cached where c: "x = Inr cached" using assms(1) oc x by (cases x) (simp_all add: execute_job_call_def)
  have p: "parse_payload codec (ir_payload cached) = Some payload" "\<not> ir_replayed cached" "s1 = store'"
    using assms(1) oc x c by (auto simp: execute_job_call_def split: option.splits)
  have same: "oc_operation_id (job_operation_call call') = oc_operation_id oc"
    "oc_payload (job_operation_call call') = oc_payload oc" "oc_requested_at (job_operation_call call') = t"
    by (simp_all add: assms(2) eq job_operation_call_def)
  have mk: "make_operation_call (job_operation_call call') =
      (Inr (job_operation_call call') :: job_call_error idem_error + operation_call)"
    using oc assms(3) same by (auto simp: make_operation_call_def eq split: if_splits sum.splits)
  have "within_ttl store oc (job_operation_call call')"
    using assms(3,4) same(3) by (simp add: within_ttl_def eq) (simp add: job_operation_call_def)
  note again = execute_again [OF x [unfolded c p(3)] p(2) aware same(1,2) this]
  show ?thesis using p(1) by (simp add: execute_job_call_def mk again)
qed

text \<open>A replay conflict between registry and store is an exception no clause catches.\<close>

lemma replay_conflict_escapes:
  assumes "start (je_now env) (je_fresh env) spec None reg = (Inl (JobReplayConflictError i), reg')"
    and "parse_job_start codec (jc_operation_id call) (jc_payload call) = Some spec" "jc_tool_name call = ''job_start''"
    and "make_operation_call (job_operation_call call) = (Inr oc :: job_call_error idem_error + operation_call)"
    and "is_entries store (jc_operation_id call) = None"
  shows "execute_job_call codec env call store reg =
    (Inl (JobDispatchEscapes (CallbackError (JobRaised (JobReplayConflictError i)))), store, reg')"
proof -
  have oc: "oc = job_operation_call call" "\<exists>b. canonicalize_payload (oc_payload oc) = Inr b"
    using assms(4) by (auto simp: make_operation_call_def split: if_splits sum.splits)
  have "is_entries store (oc_operation_id oc) = None" using assms(5) oc(1) by (simp add: job_operation_call_def)
  then have "drop_expired store oc = ((Inr None, store) :: (job_call_error idem_error + _) \<times> _)" by (simp add: drop_expired_def)
  then show ?thesis
    using assms(1,2,3,4) oc(2) by (auto simp: execute_job_call_def execute_def invoke_bytes_def invoke_def)
qed

section \<open>Concrete calls\<close>

definition sample_codec :: job_codec where
  "sample_codec =
     \<lparr>lax_uuid = (\<lambda>v. case v of JInt i \<Rightarrow> Some (nat i) | _ \<Rightarrow> None), lax_int = (\<lambda>_. None),
      lax_path = (\<lambda>v. case v of JStr s \<Rightarrow> Some s | _ \<Rightarrow> None), datetime_text = (\<lambda>_. [84]),
      parse_payload = (\<lambda>_. Some [])\<rparr>"

definition sample_job_env :: job_env where
  "sample_job_env = \<lparr>je_now = 40, je_fresh = 3, je_event = 9\<rparr>"

definition start_call :: job_call where
  "start_call =
     \<lparr>jc_operation_id = 5, jc_tool_name = ''job_start'',
      jc_payload = [(ustr ''argv'', JList [JStr [97]]), (ustr ''cwd'', JStr [98])], jc_requested_at = Aware 40\<rparr>"

definition status_job_call :: "datetime \<Rightarrow> job_call" where
  "status_job_call t =
     \<lparr>jc_operation_id = 6, jc_tool_name = ''job_status'', jc_payload = [(ustr ''job_id'', JInt 1)], jc_requested_at = t\<rparr>"

definition replay_store :: idempotency_store where
  "replay_store = \<lparr>is_ttl = 60, is_entries = Map.empty\<rparr>"

lemma scalar_ustr: "list_all scalar_value (ustr s)"
proof (induction s)
  case (Cons c s)
  have "of_char c < (256 :: nat)" by simp
  then have "of_char c < (0xD800 :: nat)" by linarith
  then have "scalar_value (of_char c)" by (rule scalar_small)
  then show ?case using Cons by simp
qed simp

lemma execute_job_call_empty:
  assumes "json_scalar (JObj (jc_payload call))" "\<not> tz_missing (jc_requested_at call)"
  shows "snd (snd (execute_job_call codec env call replay_store reg)) = snd (invoke codec env call reg)"
    "invoke_bytes codec env call reg = (Inr b, reg') \<Longrightarrow> parse_payload codec b = Some p \<Longrightarrow>
      \<exists>store'. execute_job_call codec env call replay_store reg = (Inr (p, False), store', reg')"
proof -
  have "json_scalar (oc_payload (job_operation_call call))"
    using assms(1) by (simp add: job_operation_call_def scalar_ustr del: ustr_simps)
  then obtain c where c: "canonicalize_payload (oc_payload (job_operation_call call)) = Inr c" using canonicalize_scalar by blast
  then have mk: "make_operation_call (job_operation_call call) = (Inr (job_operation_call call) :: job_call_error idem_error + operation_call)"
    using assms(2) by (simp add: make_operation_call_def) (simp add: job_operation_call_def)
  have d: "drop_expired replay_store (job_operation_call call) = ((Inr None, replay_store) :: (job_call_error idem_error + _) \<times> _)"
    by (simp add: drop_expired_def replay_store_def)
  note run = execute_job_call_def mk execute_def c d
  show "snd (snd (execute_job_call codec env call replay_store reg)) = snd (invoke codec env call reg)"
    by (simp add: run flip: invoke_bytes_registry split: prod.splits sum.splits option.splits)
  show "\<exists>store'. execute_job_call codec env call replay_store reg = (Inr (p, False), store', reg')"
    if "invoke_bytes codec env call reg = (Inr b, reg')" "parse_payload codec b = Some p"
    using that by (simp add: run)
qed

lemma job_call_is_registry_step_witness:
  "\<exists>r store' reg'. execute_job_call sample_codec sample_job_env start_call replay_store sample_registry = (r, store', reg') \<and>
     job_reachable (sample_system\<lparr>sys_registry := reg', sys_clock := 40\<rparr>) \<and> reg_submitted reg' = [(3, sample_job_spec)]"
proof -
  obtain d reg' where st: "start 40 3 sample_job_spec None sample_registry = (Inr (queued_snapshot 3 sample_job_spec d 40), reg')"
    "reg_submitted reg' = [(3, sample_job_spec)]" by (rule sample_start)
  have "parse_job_start sample_codec 5 (jc_payload start_call) = Some sample_job_spec"
    by (simp add: parse_job_start_def only_fields_def start_call_def argv_of_def sample_codec_def sample_job_spec_def)
  then have "snd (invoke sample_codec sample_job_env start_call sample_registry) = reg'"
    using st by (simp add: invoke_def start_call_def sample_job_env_def)
  moreover have "json_scalar (JObj (jc_payload start_call))" "\<not> tz_missing (jc_requested_at start_call)"
    by (simp_all add: start_call_def scalar_ustr scalar_small del: ustr_simps)
  ultimately obtain r store' where x:
    "execute_job_call sample_codec sample_job_env start_call replay_store (sys_registry sample_system) = (r, store', reg')"
    using execute_job_call_empty(1) [of start_call sample_codec sample_job_env sample_registry]
    by (cases "execute_job_call sample_codec sample_job_env start_call replay_store sample_registry") (auto simp: sample_system_def)
  have "reg_submitted sample_registry = []" by (simp add: sample_registry_def)
  then have "reg' \<noteq> sys_registry sample_system" using st(2) by (auto simp: sample_system_def)
  from job_call_is_registry_step [OF sample_reachable _ _ x refl this] x st(2) show ?thesis
    by (auto simp: sample_system_def sample_job_env_def sample_registry_def)
qed

lemma repeated_job_call_is_replayed_witness:
  "\<exists>store'. execute_job_call sample_codec sample_job_env (status_job_call (Aware 50)) store' sample_registry =
     (Inr ([], True), store', sample_registry)"
proof -
  have "list_all scalar_value (replicate 64 97)" by (simp add: list_all_iff scalar_small)
  moreover have hex: "list_all scalar_value (hex_digits k n)" for k n
    by (rule list.pred_mono_strong [OF hex_digits_lower]) (auto simp: lower_hex_def intro: scalar_small)
  moreover have "list_all scalar_value (uuid_str i)" for i
    using hex by (simp add: uuid_str_def scalar_small del: hex_digits.simps)
  ultimately have "json_scalar (snapshot_json sample_codec sample_done)"
    by (simp add: snapshot_json_def sample_codec_def sample_done_def optional_int_def scalar_ustr scalar_small del: ustr_simps replicate.simps)
  then obtain b where "canonicalize_payload (snapshot_json sample_codec sample_done) = Inr b" using canonicalize_scalar by blast
  moreover have "parse_job_id sample_codec (jc_payload (status_job_call (Aware 40))) = Some 1"
    by (simp add: status_job_call_def parse_job_id_def only_fields_def sample_codec_def)
  moreover have "status 1 sample_registry = Inr sample_done"
    by (simp add: status_def get_job_def sample_registry_def new_record_def)
  ultimately have "invoke_bytes sample_codec sample_job_env (status_job_call (Aware 40)) sample_registry = (Inr b, sample_registry)"
    by (simp add: invoke_bytes_def invoke_def) (simp add: status_job_call_def)
  moreover have "json_scalar (JObj (jc_payload (status_job_call (Aware 40))))" "\<not> tz_missing (jc_requested_at (status_job_call (Aware 40)))"
    by (simp_all add: status_job_call_def scalar_ustr del: ustr_simps)
  moreover have "parse_payload sample_codec b = Some []" by (simp add: sample_codec_def)
  ultimately obtain store' where
    x: "execute_job_call sample_codec sample_job_env (status_job_call (Aware 40)) replay_store sample_registry =
      (Inr ([], False), store', sample_registry)"
    using execute_job_call_empty(2) by blast
  show ?thesis
    using repeated_job_call_is_replayed [OF x, of "status_job_call (Aware 50)" "Aware 50" sample_job_env sample_registry]
    by (auto simp: status_job_call_def replay_store_def)
qed

end
