(* ===== verification/Dispatcher.thy ===== *)
theory Dispatcher
  imports Approval_Flow Privileged Pipe_Client Audit_Trail Job_Dispatch
begin

text \<open>
  The dispatcher (\<open>gateway/dispatcher.py\<close>): policy and approval, then the local job registry or a peer,
  then the audited presentation. A dispatch is one transition of the gateway's state; what the peer
  answers, whether the wait for it ends early and what other clocks read are arguments of the transition.
  The lemmas show that nothing happens without an authorization, that a tool which needs an approval
  spends one that was frozen to the very payload that is sent, and that every outcome is audited.
\<close>

section \<open>State and environment\<close>

record gateway_state =
  gw_workers :: "worker_registration peer_registry"
  gw_helpers :: "helper_registration peer_registry"
  gw_idempotency :: idempotency_store
  gw_approvals :: approvals
  gw_audit :: audit_recorder
  gw_jobs :: "job_registry option"
  gw_sent :: "(peer_role \<times> request_message) list"
  gw_cancels :: "(peer_role \<times> uuid \<times> string) list"

datatype wait_outcome = Returned | TimedOut | CallerCancelled

text \<open>
  \<open>de_peer\<close> is what \<open>exchange\<close> of the routed client returns or raises; the two flags are the readings of
  the attempt's \<open>abandoned\<close> event before and after it. The codec fields are the schema library, and
  \<open>de_casefold\<close> and \<open>de_dump\<close> the text functions of the audit trail.
\<close>

record dispatch_env =
  de_now :: int
  de_peer :: "request_message \<Rightarrow> exchange_error + ipc_message"
  de_before :: bool
  de_after :: bool
  de_wait :: wait_outcome
  de_event :: uuid
  de_job :: job_env
  de_job_codec :: job_codec
  de_serialize :: "ipc_message \<Rightarrow> bytes"
  de_envelope :: "bytes \<Rightarrow> int option"
  de_adapter :: "bytes \<Rightarrow> ipc_message option"
  de_casefold :: "pystr \<Rightarrow> pystr"
  de_dump :: "audit_event \<Rightarrow> pystr"

record dispatch_outcome =
  do_payload :: "(pystr \<times> json) list"
  do_text :: bytes
  do_is_error :: bool
  do_target :: peer_role
  do_replayed :: bool
  do_audit :: audit_event

datatype exchange_failure =
    IdempotentFailure "attempt_error idem_error"
  | ParseFailure protocol_error

datatype dispatch_exception =
    ApprovalRaised approval_error
  | RequestInvalid
  | JobRaisedThrough "job_call_error idem_error"
  | ExchangeRaised exchange_failure
  | AuditRaised audit_error
  | ResultCanonical canonical_error
  | Cancelled

type_synonym dispatch_result = "dispatch_exception + dispatch_outcome"

section \<open>Presentation\<close>

definition present ::
  "dispatch_env \<Rightarrow> dispatch_call \<Rightarrow> peer_role \<Rightarrow> (pystr \<times> json) list \<times> bool \<times> audit_outcome \<Rightarrow>
   approval_audit_metadata option \<Rightarrow> gateway_state \<Rightarrow> dispatch_result \<times> gateway_state" where
  "present env c target view approval g =
     (case view of (payload, replayed, outcome) \<Rightarrow>
        (case audit_record (de_casefold env) (de_dump env) (gw_audit g)
                \<lparr>ai_event_id = de_event env, ai_occurred_at = dc_requested_at c, ai_tool_name = dc_tool_name c,
                 ai_operation_id = Some (dc_operation_id c), ai_payload = JObj (dc_payload c), ai_outcome = outcome,
                 ai_error_code = None, ai_approval = approval, ai_stdout = None, ai_stderr = None,
                 ai_screenshot_body = None, ai_untrusted_text = None\<rparr> of
           (Inl e, recorder) \<Rightarrow> (Inl (AuditRaised e), g\<lparr>gw_audit := recorder\<rparr>)
         | (Inr event, recorder) \<Rightarrow>
             (case canonicalize_payload (JObj payload) of
                Inl e \<Rightarrow> (Inl (ResultCanonical e), g\<lparr>gw_audit := recorder\<rparr>)
              | Inr text \<Rightarrow>
                  (Inr \<lparr>do_payload = payload, do_text = text, do_is_error = (outcome = AuditRejected),
                        do_target = target, do_replayed = replayed, do_audit = event\<rparr>, g\<lparr>gw_audit := recorder\<rparr>))))"

definition error_payload :: "string \<Rightarrow> (pystr \<times> json) list" where
  "error_payload code = [(ustr ''error'', JObj [(ustr ''code'', JStr (ustr code))])]"

definition present_error ::
  "dispatch_env \<Rightarrow> dispatch_call \<Rightarrow> peer_role \<Rightarrow> string \<Rightarrow> approval_audit_metadata option \<Rightarrow> gateway_state \<Rightarrow>
   dispatch_result \<times> gateway_state" where
  "present_error env c target code approval g = present env c target (error_payload code, False, AuditRejected) approval g"

section \<open>Routing\<close>

record route =
  ro_request :: request_message
  ro_client :: nat
  ro_target :: peer_role

datatype route_error = RouteWorkerUnavailable | RouteHelperUnavailable | RouteInvalidPrivileged | RouteRequestInvalid

definition route_call :: "dispatch_env \<Rightarrow> dispatch_call \<Rightarrow> gateway_state \<Rightarrow> (route_error + route) \<times> gateway_state" where
  "route_call env c g =
     (if dc_tool_name c = ''system_reboot'' \<or> dc_tool_name c = ''system_shutdown''
      then (case build_privileged_request (dc_operation_id c) (dc_tool_name c) (dc_payload c) (dc_timeout_ms c) of
              Inl _ \<Rightarrow> (Inl RouteInvalidPrivileged, g)
            | Inr q \<Rightarrow>
                (case helper_current (de_now env) (gw_helpers g) of
                   (Inl _, h) \<Rightarrow> (Inl RouteHelperUnavailable, g\<lparr>gw_helpers := h\<rparr>)
                 | (Inr client, h) \<Rightarrow>
                     (Inr \<lparr>ro_request = q, ro_client = client, ro_target = PrivilegedHelperRole\<rparr>, g\<lparr>gw_helpers := h\<rparr>)))
      else (let q = WorkerRequest \<lparr>rq_request_id = dc_operation_id c, rq_operation = dc_tool_name c,
                                   rq_payload = dc_payload c, rq_timeout_ms = dc_timeout_ms c\<rparr>
            in if \<not> request_ok q then (Inl RouteRequestInvalid, g)
               else (case worker_current (de_now env) (gw_workers g) of
                       (Inl _, w) \<Rightarrow> (Inl RouteWorkerUnavailable, g\<lparr>gw_workers := w\<rparr>)
                     | (Inr client, w) \<Rightarrow>
                         (Inr \<lparr>ro_request = q, ro_client = client, ro_target = WorkerRole\<rparr>, g\<lparr>gw_workers := w\<rparr>))))"

section \<open>Exchange\<close>

definition dispatch_operation_call :: "dispatch_call \<Rightarrow> operation_call" where
  "dispatch_operation_call c =
     \<lparr>oc_operation_id = dc_operation_id c,
      oc_payload = JObj [(ustr ''tool'', JStr (ustr (dc_tool_name c))), (ustr ''payload'', JObj (dc_payload c))],
      oc_requested_at = dc_requested_at c\<rparr>"

text \<open>The attempt: the client is asked, which is visible in the log of what was sent.\<close>

definition attempt_of_route ::
  "dispatch_env \<Rightarrow> route \<Rightarrow> (peer_role \<times> request_message) list \<Rightarrow> (attempt_error + bytes) \<times> (peer_role \<times> request_message) list" where
  "attempt_of_route env ro =
     attempt_run (de_serialize env) (request_id_of (ro_request ro)) (de_before env) (de_after env)
       (\<lambda>sent. (de_peer env (ro_request ro), sent @ [(ro_target ro, ro_request ro)]))"

definition exchange_idempotently ::
  "dispatch_env \<Rightarrow> dispatch_call \<Rightarrow> route \<Rightarrow> gateway_state \<Rightarrow> (exchange_failure + ipc_response \<times> bool) \<times> gateway_state" where
  "exchange_idempotently env c ro g =
     (case make_operation_call (dispatch_operation_call c) of
        Inl e \<Rightarrow> (Inl (IdempotentFailure e), g)
      | Inr oc \<Rightarrow>
          (case execute (gw_idempotency g) oc (attempt_of_route env ro) (gw_sent g) of
             (Inl e, store, sent) \<Rightarrow> (Inl (IdempotentFailure e), g\<lparr>gw_idempotency := store, gw_sent := sent\<rparr>)
           | (Inr cached, store, sent) \<Rightarrow>
               (mapErr ParseFailure
                  (bindR (parse_message (de_envelope env) (de_adapter env) (ir_payload cached)) (\<lambda>m.
                   bindR (correlate_response (request_id_of (ro_request ro)) m) (\<lambda>r. Inr (r, ir_replayed cached)))),
                g\<lparr>gw_idempotency := store, gw_sent := sent\<rparr>)))"

text \<open>Which \<open>except\<close> clause of \<open>_send\<close> takes a failure.\<close>

datatype failure_class = ClassTimeout | ClassCancelled | ClassDisconnected | ClassProtocol | ClassUncaught

fun protocol_class :: "protocol_error \<Rightarrow> failure_class" where
  "protocol_class (CorrelationError a b) = ClassProtocol"
| "protocol_class (ResponseStateError a b) = ClassProtocol"
| "protocol_class ProtocolMessageError = ClassProtocol"
| "protocol_class _ = ClassUncaught"

fun failure_class_of :: "exchange_failure \<Rightarrow> failure_class" where
  "failure_class_of (IdempotentFailure (CallbackError (AttemptExchange EndpointTimeoutError))) = ClassTimeout"
| "failure_class_of (IdempotentFailure (CallbackError (AttemptExchange EndpointCancelledError))) = ClassCancelled"
| "failure_class_of (IdempotentFailure (CallbackError (AttemptExchange EndpointDisconnectedError))) = ClassDisconnected"
| "failure_class_of (IdempotentFailure (CallbackError (AttemptProtocol e))) = protocol_class e"
| "failure_class_of (ParseFailure e) = protocol_class e"
| "failure_class_of _ = ClassUncaught"

definition disconnect_route :: "route \<Rightarrow> gateway_state \<Rightarrow> gateway_state" where
  "disconnect_route ro g =
     (case ro_target ro of
        WorkerRole \<Rightarrow> g\<lparr>gw_workers := worker_disconnect (ro_client ro) (gw_workers g)\<rparr>
      | PrivilegedHelperRole \<Rightarrow> g\<lparr>gw_helpers := helper_disconnect (ro_client ro) (gw_helpers g)\<rparr>
      | GatewayRole \<Rightarrow> g)"

fun unavailable_code :: "peer_role \<Rightarrow> string" where
  "unavailable_code WorkerRole = ''worker_unavailable''"
| "unavailable_code PrivilegedHelperRole = ''helper_unavailable''"
| "unavailable_code GatewayRole = ''gateway_unavailable''"

text \<open>\<open>_cancel\<close> asks the client to cancel; its failures are swallowed.\<close>

definition cancel_route :: "route \<Rightarrow> string \<Rightarrow> gateway_state \<Rightarrow> gateway_state" where
  "cancel_route ro reason g =
     g\<lparr>gw_cancels := gw_cancels g @ [(ro_target ro, request_id_of (ro_request ro), reason)]\<rparr>"

definition safe_filesystem_errors :: "string list" where
  "safe_filesystem_errors = [''path_outside_allowed_roots'', ''path_policy_denied'']"

definition peer_error_code :: "dispatch_call \<Rightarrow> route \<Rightarrow> ipc_response \<Rightarrow> string" where
  "peer_error_code c ro r =
     (if ro_target ro = WorkerRole \<and> take 3 (dc_tool_name c) = ''fs_''
      then (case rs_error_code r of
              Some code \<Rightarrow> if code \<in> set safe_filesystem_errors then code else ''peer_error''
            | None \<Rightarrow> ''peer_error'')
      else ''peer_error'')"

definition send ::
  "dispatch_env \<Rightarrow> dispatch_call \<Rightarrow> route \<Rightarrow> approval_audit_metadata option \<Rightarrow> gateway_state \<Rightarrow> dispatch_result \<times> gateway_state" where
  "send env c ro approval g =
     (case exchange_idempotently env c ro g of
        (result, g1) \<Rightarrow>
          (case de_wait env of
             TimedOut \<Rightarrow> present_error env c (ro_target ro) ''dispatch_timeout'' approval (cancel_route ro ''timeout'' g1)
           | CallerCancelled \<Rightarrow>
               (case present_error env c (ro_target ro) ''dispatch_cancelled'' approval (cancel_route ro ''caller_cancelled'' g1) of
                  (Inl e, g2) \<Rightarrow> (Inl e, g2)
                | (Inr _, g2) \<Rightarrow> (Inl Cancelled, g2))
           | Returned \<Rightarrow>
               (case result of
                  Inl f \<Rightarrow>
                    (case failure_class_of f of
                       ClassTimeout \<Rightarrow> present_error env c (ro_target ro) ''dispatch_timeout'' approval (cancel_route ro ''timeout'' g1)
                     | ClassCancelled \<Rightarrow> present_error env c (ro_target ro) ''dispatch_cancelled'' approval g1
                     | ClassDisconnected \<Rightarrow>
                         present_error env c (ro_target ro) (unavailable_code (ro_target ro)) approval (disconnect_route ro g1)
                     | ClassProtocol \<Rightarrow> present_error env c (ro_target ro) ''ipc_protocol_error'' approval g1
                     | ClassUncaught \<Rightarrow> (Inl (ExchangeRaised f), g1))
                | Inr (response, replayed) \<Rightarrow>
                    if \<not> rs_ok response
                    then present_error env c (ro_target ro) (peer_error_code c ro response) approval g1
                    else (let payload = (case rs_payload response of None \<Rightarrow> [] | Some p \<Rightarrow> p)
                          in present env c (ro_target ro)
                               (payload, replayed, semantic_result_outcome (dc_tool_name c) payload) approval g1))))"

section \<open>Dispatch\<close>

definition job_tool_names :: "string list" where
  "job_tool_names = [''job_start'', ''job_status'', ''job_output'', ''job_cancel'']"

definition job_call_of :: "dispatch_call \<Rightarrow> job_call" where
  "job_call_of c =
     \<lparr>jc_operation_id = dc_operation_id c, jc_tool_name = dc_tool_name c, jc_payload = dc_payload c,
      jc_requested_at = dc_requested_at c\<rparr>"

definition dispatch_job_call ::
  "dispatch_env \<Rightarrow> dispatch_call \<Rightarrow> approval_audit_metadata option \<Rightarrow> gateway_state \<Rightarrow> dispatch_result \<times> gateway_state" where
  "dispatch_job_call env c approval g =
     (case dispatch_job (de_job_codec env) (de_job env) (de_wait env = TimedOut) (gw_jobs g) (gw_idempotency g) (job_call_of c) of
        (r, store, jobs) \<Rightarrow>
          (let g1 = g\<lparr>gw_idempotency := store, gw_jobs := jobs\<rparr>
           in if de_wait env = CallerCancelled then (Inl Cancelled, g1)
              else (case r of
                      Inl (JobDispatchError code) \<Rightarrow> present_error env c GatewayRole code approval g1
                    | Inl (JobDispatchEscapes e) \<Rightarrow> (Inl (JobRaisedThrough e), g1)
                    | Inr (payload, replayed) \<Rightarrow> present env c GatewayRole (payload, replayed, AuditSucceeded) approval g1)))"

definition dispatch :: "dispatch_env \<Rightarrow> dispatch_call \<Rightarrow> gateway_state \<Rightarrow> dispatch_result \<times> gateway_state" where
  "dispatch env c g =
     (case authorize c (gw_approvals g) of
        (auth, approvals') \<Rightarrow>
          (let g1 = g\<lparr>gw_approvals := approvals'\<rparr> in
           case auth of
             Inl e \<Rightarrow> (Inl (ApprovalRaised e), g1)
           | Inr (AuthorizationError code) \<Rightarrow> present_error env c GatewayRole code None g1
           | Inr (Authorized approval) \<Rightarrow>
               if dc_tool_name c \<in> set job_tool_names \<and> gw_jobs g1 \<noteq> None
               then dispatch_job_call env c approval g1
               else (case route_call env c g1 of
                       (Inl RouteWorkerUnavailable, g2) \<Rightarrow> present_error env c WorkerRole ''worker_unavailable'' approval g2
                     | (Inl RouteHelperUnavailable, g2) \<Rightarrow>
                         present_error env c PrivilegedHelperRole ''helper_unavailable'' approval g2
                     | (Inl RouteInvalidPrivileged, g2) \<Rightarrow>
                         present_error env c PrivilegedHelperRole ''invalid_request'' approval g2
                     | (Inl RouteRequestInvalid, g2) \<Rightarrow> (Inl RequestInvalid, g2)
                     | (Inr ro, g2) \<Rightarrow> send env c ro approval g2)))"

section \<open>What each part changes\<close>

lemma present_frame:
  "present env c target view approval g = (res, g') \<Longrightarrow> \<exists>rec. g' = g\<lparr>gw_audit := rec\<rparr>"
  by (auto simp: present_def split: prod.splits sum.splits)

lemma present_error_frame:
  "present_error env c target code approval g = (res, g') \<Longrightarrow> \<exists>rec. g' = g\<lparr>gw_audit := rec\<rparr>"
  by (auto simp: present_error_def dest: present_frame)

text \<open>What a presentation that succeeds returns, and the event it records.\<close>

lemma present_Inr:
  assumes "present env c target (payload, replayed, outcome) approval g = (Inr o', g')"
  shows "do_payload o' = payload \<and> do_replayed o' = replayed \<and> do_target o' = target \<and>
    do_is_error o' = (outcome = AuditRejected) \<and> canonicalize_payload (JObj payload) = Inr (do_text o') \<and>
    rec_records (gw_audit g') = rec_records (gw_audit g) @ [do_audit o'] \<and>
    ae_event_id (do_audit o') = de_event env \<and> ae_tool_name (do_audit o') = dc_tool_name c \<and>
    ae_operation_id (do_audit o') = Some (dc_operation_id c) \<and> ae_outcome (do_audit o') = outcome \<and>
    ae_approval (do_audit o') = approval"
proof -
  obtain inp where inp: "inp = \<lparr>ai_event_id = de_event env, ai_occurred_at = dc_requested_at c, ai_tool_name = dc_tool_name c,
       ai_operation_id = Some (dc_operation_id c), ai_payload = JObj (dc_payload c), ai_outcome = outcome,
       ai_error_code = None, ai_approval = approval, ai_stdout = None, ai_stderr = None,
       ai_screenshot_body = None, ai_untrusted_text = None\<rparr>" by blast
  obtain a recorder where ar: "audit_record (de_casefold env) (de_dump env) (gw_audit g) inp = (a, recorder)" by fastforce
  obtain event where ev: "a = Inr event" using assms ar by (cases a) (simp_all add: present_def inp)
  obtain body where tx: "canonicalize_payload (JObj payload) = Inr body"
    using assms ar ev by (cases "canonicalize_payload (JObj payload)") (simp_all add: present_def inp)
  have o': "o' = \<lparr>do_payload = payload, do_text = body, do_is_error = (outcome = AuditRejected),
      do_target = target, do_replayed = replayed, do_audit = event\<rparr>" "g' = g\<lparr>gw_audit := recorder\<rparr>"
    using assms ar ev tx by (simp_all add: present_def inp)
  have e: "audit_event_of (de_casefold env) inp = Inr event" "rec_records recorder = rec_records (gw_audit g) @ [event]"
    using ar ev by (auto simp: audit_record_def Let_def split: sum.splits option.splits prod.splits)
  have "ae_event_id event = ai_event_id inp" "ae_tool_name event = ai_tool_name inp"
    "ae_operation_id event = ai_operation_id inp" "ae_outcome event = ai_outcome inp" "ae_approval event = ai_approval inp"
    using e(1) by (auto simp: audit_event_of_def bindR_eq_Inr split: option.splits)
  then show ?thesis using e(2) tx by (simp add: o' inp)
qed

lemma present_error_Inr:
  assumes "present_error env c target code approval g = (Inr o', g')"
  shows "do_is_error o' \<and> do_target o' = target \<and> do_payload o' = error_payload code \<and> \<not> do_replayed o'"
  using present_Inr [OF assms [unfolded present_error_def]] by simp

lemma attempt_sent:
  "snd (attempt_of_route env ro sent) = sent \<or>
   snd (attempt_of_route env ro sent) = sent @ [(ro_target ro, ro_request ro)]"
  by (simp add: attempt_of_route_def attempt_run_def split: sum.splits)

lemma exchange_frame:
  assumes "exchange_idempotently env c ro g = (r, g')"
  shows "\<exists>store sent. g' = g\<lparr>gw_idempotency := store, gw_sent := sent\<rparr> \<and>
    (sent = gw_sent g \<or> sent = gw_sent g @ [(ro_target ro, ro_request ro)])"
proof (cases "make_operation_call (dispatch_operation_call c) :: attempt_error idem_error + operation_call")
  case (Inl e)
  then show ?thesis using assms
    by (intro exI [of _ "gw_idempotency g"] exI [of _ "gw_sent g"]) (simp add: exchange_idempotently_def)
next
  case (Inr oc)
  obtain x store sent where x: "execute (gw_idempotency g) oc (attempt_of_route env ro) (gw_sent g) = (x, store, sent)"
    by (metis prod_cases3)
  then have "g' = g\<lparr>gw_idempotency := store, gw_sent := sent\<rparr>"
    using assms Inr by (cases x) (simp_all add: exchange_idempotently_def)
  moreover have "sent = gw_sent g \<or> sent = gw_sent g @ [(ro_target ro, ro_request ro)]"
    using execute_frame [OF x] attempt_sent [of env ro "gw_sent g"] by argo
  ultimately show ?thesis by blast
qed

definition same_effects :: "gateway_state \<Rightarrow> gateway_state \<Rightarrow> bool" where
  "same_effects g g' \<longleftrightarrow> gw_jobs g' = gw_jobs g \<and> gw_approvals g' = gw_approvals g \<and> gw_sent g' = gw_sent g"

lemma same_effects_refl [simp]: "same_effects g g"
  by (simp add: same_effects_def)

lemma same_effects_present:
  "present env c target view approval g = (res, g') \<Longrightarrow> same_effects g g'"
  "present_error env c target code approval g = (res, g') \<Longrightarrow> same_effects g g'"
  by (auto simp: same_effects_def dest!: present_frame present_error_frame)

lemma same_effects_route [simp]:
  "same_effects g (cancel_route ro reason g1) = same_effects g g1"
  "same_effects g (disconnect_route ro g1) = same_effects g g1"
  "same_effects (cancel_route ro reason g1) g = same_effects g1 g"
  "same_effects (disconnect_route ro g1) g = same_effects g1 g"
  by (simp_all add: same_effects_def cancel_route_def disconnect_route_def split: peer_role.splits)

lemma send_effect:
  assumes "send env c ro approval g = (res, g')"
  obtains r g1 where "exchange_idempotently env c ro g = (r, g1)" "same_effects g1 g'"
proof -
  obtain r g1 where x: "exchange_idempotently env c ro g = (r, g1)" by fastforce
  have "same_effects g1 g'"
  proof (cases "de_wait env")
    case Returned
    show ?thesis
    proof (cases r)
      case (Inl f)
      then show ?thesis
        using assms x Returned same_effects_present(2) [of env c _ _ _ _ res g']
        by (cases "failure_class_of f") (auto simp: send_def, fastforce+)
    next
      case (Inr y)
      then show ?thesis
        using assms x Returned same_effects_present [of env c _ _ _ _ res g']
        by (cases y) (auto simp: send_def Let_def split: if_splits)
    qed
  next
    case TimedOut
    then show ?thesis using assms x same_effects_present(2) [of env c _ _ _ _ res g'] by (fastforce simp: send_def)
  next
    case CallerCancelled
    obtain y g2 where y: "present_error env c (ro_target ro) ''dispatch_cancelled'' approval (cancel_route ro ''caller_cancelled'' g1) = (y, g2)"
      by fastforce
    then have "g' = g2" using assms x CallerCancelled by (cases y) (simp_all add: send_def)
    then show ?thesis using same_effects_present(2) [OF y] by simp
  qed
  then show ?thesis using that x by blast
qed

lemma route_frame:
  assumes "route_call env c g = (r, g')"
  shows "same_effects g g' \<and> gw_idempotency g' = gw_idempotency g \<and> gw_audit g' = gw_audit g"
proof (cases "dc_tool_name c = ''system_reboot'' \<or> dc_tool_name c = ''system_shutdown''")
  case True
  then show ?thesis using assms
    by (auto simp: route_call_def same_effects_def split: sum.splits prod.splits)
next
  case False
  then show ?thesis using assms
    by (auto simp: route_call_def same_effects_def Let_def split: sum.splits prod.splits if_splits)
qed

text \<open>The request a route carries is the call's.\<close>

lemma route_request:
  assumes "route_call env c g = (Inr ro, g')"
  shows "(ro_target ro = PrivilegedHelperRole \<and> dc_tool_name c \<in> {''system_reboot'', ''system_shutdown''} \<and>
       build_privileged_request (dc_operation_id c) (dc_tool_name c) (dc_payload c) (dc_timeout_ms c) = Inr (ro_request ro)) \<or>
    (ro_target ro = WorkerRole \<and> dc_tool_name c \<notin> {''system_reboot'', ''system_shutdown''} \<and>
       ro_request ro = WorkerRequest \<lparr>rq_request_id = dc_operation_id c, rq_operation = dc_tool_name c,
         rq_payload = dc_payload c, rq_timeout_ms = dc_timeout_ms c\<rparr>)"
proof (cases "dc_tool_name c = ''system_reboot'' \<or> dc_tool_name c = ''system_shutdown''")
  case True
  then show ?thesis using assms by (auto simp: route_call_def split: sum.splits prod.splits)
next
  case False
  then show ?thesis using assms by (auto simp: route_call_def Let_def split: sum.splits prod.splits if_splits)
qed

lemma dispatch_job_frame:
  assumes "dispatch_job_call env c approval g = (res, g')"
  shows "gw_approvals g' = gw_approvals g \<and> gw_sent g' = gw_sent g"
proof -
  obtain r store jobs where d: "dispatch_job (de_job_codec env) (de_job env) (de_wait env = TimedOut) (gw_jobs g)
      (gw_idempotency g) (job_call_of c) = (r, store, jobs)" by (metis prod_cases3)
  define g1 where "g1 = g\<lparr>gw_idempotency := store, gw_jobs := jobs\<rparr>"
  have "same_effects g1 g'"
  proof (cases "de_wait env = CallerCancelled")
    case True
    then show ?thesis using assms d by (simp add: dispatch_job_call_def g1_def)
  next
    case False
    show ?thesis
    proof (cases r)
      case (Inl e)
      then show ?thesis using assms d False same_effects_present(2) [of env c GatewayRole _ approval g1 res g']
        by (cases e) (auto simp: dispatch_job_call_def g1_def)
    next
      case (Inr y)
      then show ?thesis using assms d False same_effects_present(1) [of env c GatewayRole _ approval g1 res g']
        by (cases y) (auto simp: dispatch_job_call_def g1_def)
    qed
  qed
  then show ?thesis by (simp add: same_effects_def g1_def)
qed

text \<open>A dispatch changes approvals only through \<open>authorize\<close>, and sends at most the routed request.\<close>

lemma dispatch_effect:
  assumes d: "dispatch env c g = (res, g')"
  obtains (none) a where "authorize c (gw_approvals g) = (a, gw_approvals g')" "\<nexists>m. a = Inr (Authorized m)"
      "gw_sent g' = gw_sent g" "gw_jobs g' = gw_jobs g"
    | (job) m where "authorize c (gw_approvals g) = (Inr (Authorized m), gw_approvals g')" "gw_sent g' = gw_sent g"
    | (unrouted) m where "authorize c (gw_approvals g) = (Inr (Authorized m), gw_approvals g')"
      "gw_sent g' = gw_sent g" "gw_jobs g' = gw_jobs g"
    | (routed) m ro g2 where "authorize c (gw_approvals g) = (Inr (Authorized m), gw_approvals g')"
      "route_call env c (g\<lparr>gw_approvals := gw_approvals g'\<rparr>) = (Inr ro, g2)" "gw_jobs g' = gw_jobs g"
      "gw_sent g' = gw_sent g \<or> gw_sent g' = gw_sent g @ [(ro_target ro, ro_request ro)]"
proof -
  obtain a s' where a: "authorize c (gw_approvals g) = (a, s')" by fastforce
  define g1 where "g1 = g\<lparr>gw_approvals := s'\<rparr>"
  show ?thesis
  proof (cases "\<exists>m. a = Inr (Authorized m)")
    case False
    have "same_effects g1 g'"
    proof (cases a)
      case (Inl e)
      then show ?thesis using d a by (simp add: dispatch_def g1_def)
    next
      case (Inr x)
      then obtain code where "x = AuthorizationError code" using False by (cases x) auto
      then have "present_error env c GatewayRole code None g1 = (res, g')" using d a Inr by (simp add: dispatch_def g1_def)
      then show ?thesis by (rule same_effects_present(2))
    qed
    then show ?thesis using none [of a] a False by (simp add: same_effects_def g1_def)
  next
    case True
    then obtain m where m: "a = Inr (Authorized m)" by blast
    show ?thesis
    proof (cases "dc_tool_name c \<in> set job_tool_names \<and> gw_jobs g \<noteq> None")
      case True
      then have "dispatch_job_call env c m g1 = (res, g')" using d a m by (simp add: dispatch_def g1_def)
      then have "gw_approvals g' = s'" "gw_sent g' = gw_sent g" using dispatch_job_frame by (simp_all add: g1_def)
      then show ?thesis using job a m by simp
    next
      case jobs: False
      obtain r g2 where r: "route_call env c g1 = (r, g2)" by fastforce
      have f: "same_effects g1 g2" using route_frame [OF r] by blast
      show ?thesis
      proof (cases r)
        case (Inl e)
        have "same_effects g2 g'"
          using d a m jobs r Inl same_effects_present(2) [of env c _ _ m g2 res g']
          by (cases e) (auto simp: dispatch_def g1_def)
        then show ?thesis using unrouted a m f by (simp add: same_effects_def g1_def)
      next
        case (Inr ro)
        then have "send env c ro m g2 = (res, g')" using d a m jobs r by (auto simp: dispatch_def g1_def)
        then obtain x g3 where x: "exchange_idempotently env c ro g2 = (x, g3)" "same_effects g3 g'" by (rule send_effect)
        have "gw_approvals g' = s'" "gw_jobs g' = gw_jobs g"
          "gw_sent g' = gw_sent g \<or> gw_sent g' = gw_sent g @ [(ro_target ro, ro_request ro)]"
          using exchange_frame [OF x(1)] x(2) f by (auto simp: same_effects_def g1_def)
        then show ?thesis using routed [of m ro g2] a m r Inr by (simp add: g1_def)
      qed
    qed
  qed
qed

text \<open>A send that returns an outcome has presented it, from a state with the audit trail it started from.\<close>

lemma send_presents:
  assumes "send env c ro m g = (Inr o', g')"
  obtains target view g3 where "present env c target view m g3 = (Inr o', g')" "gw_audit g3 = gw_audit g"
proof -
  obtain r g1 where x: "exchange_idempotently env c ro g = (r, g1)" by fastforce
  have au: "gw_audit g1 = gw_audit g" using exchange_frame [OF x] by auto
  have rt: "gw_audit (cancel_route ro reason g1) = gw_audit g" "gw_audit (disconnect_route ro g1) = gw_audit g" for reason
    using au by (simp_all add: cancel_route_def disconnect_route_def split: peer_role.splits)
  show ?thesis
  proof (cases "de_wait env")
    case Returned
    show ?thesis
    proof (cases r)
      case (Inl f)
      then show ?thesis using assms x Returned au rt that
        by (cases "failure_class_of f") (auto simp: send_def present_error_def)
    next
      case (Inr y)
      then show ?thesis using assms x Returned au that
        by (cases y) (auto simp: send_def present_error_def Let_def split: if_splits)
    qed
  next
    case TimedOut
    then show ?thesis using assms x rt that by (auto simp: send_def present_error_def)
  next
    case CallerCancelled
    then show ?thesis using assms x by (auto simp: send_def split: prod.splits sum.splits)
  qed
qed

text \<open>A send whose outcome is no error has shown an accepted response.\<close>

lemma send_success:
  assumes "send env c ro m g = (Inr o', g')" "\<not> do_is_error o'"
  obtains resp replayed g1 where "de_wait env = Returned"
    "exchange_idempotently env c ro g = (Inr (resp, replayed), g1)" "rs_ok resp"
    "present env c (ro_target ro) (case rs_payload resp of None \<Rightarrow> [] | Some p \<Rightarrow> p, replayed,
        semantic_result_outcome (dc_tool_name c) (case rs_payload resp of None \<Rightarrow> [] | Some p \<Rightarrow> p)) m g1 = (Inr o', g')"
proof -
  obtain r g1 where x: "exchange_idempotently env c ro g = (r, g1)" by fastforce
  note E = present_error_Inr [of env c _ _ m _ o' g']
  show ?thesis
  proof (cases "de_wait env")
    case Returned
    show ?thesis
    proof (cases r)
      case (Inl f)
      then show ?thesis using assms x Returned E by (cases "failure_class_of f") (auto simp: send_def)
    next
      case (Inr y)
      obtain resp replayed where y: "y = (resp, replayed)" by (cases y) auto
      have "rs_ok resp" using assms x Returned Inr y E by (auto simp: send_def split: if_splits)
      then show ?thesis using that [of resp replayed g1] assms x Returned Inr y by (simp add: send_def Let_def)
    qed
  next
    case TimedOut
    then show ?thesis using assms x E by (auto simp: send_def)
  next
    case CallerCancelled
    then show ?thesis using assms x by (auto simp: send_def split: prod.splits sum.splits)
  qed
qed

lemma dispatch_allowed:
  assumes "evaluate_tool (dc_tool_name c) = Inr ALLOW" "dc_tool_name c \<notin> set job_tool_names \<or> gw_jobs g = None"
  shows "dispatch env c g = (case route_call env c g of
       (Inl RouteWorkerUnavailable, g2) \<Rightarrow> present_error env c WorkerRole ''worker_unavailable'' None g2
     | (Inl RouteHelperUnavailable, g2) \<Rightarrow> present_error env c PrivilegedHelperRole ''helper_unavailable'' None g2
     | (Inl RouteInvalidPrivileged, g2) \<Rightarrow> present_error env c PrivilegedHelperRole ''invalid_request'' None g2
     | (Inl RouteRequestInvalid, g2) \<Rightarrow> (Inl RequestInvalid, g2)
     | (Inr ro, g2) \<Rightarrow> send env c ro None g2)"
  using assms by (cases "dc_tool_name c \<in> set job_tool_names") (simp_all add: dispatch_def authorize_def)

lemma exchange_Inr:
  assumes "exchange_idempotently env c ro g = (Inr (resp, replayed), g')"
  obtains oc cached m where "make_operation_call (dispatch_operation_call c) = (Inr oc :: attempt_error idem_error + operation_call)"
    "oc = dispatch_operation_call c"
    "execute (gw_idempotency g) oc (attempt_of_route env ro) (gw_sent g) = (Inr cached, gw_idempotency g', gw_sent g')"
    "replayed = ir_replayed cached" "parse_message (de_envelope env) (de_adapter env) (ir_payload cached) = Inr m"
    "correlate_response (request_id_of (ro_request ro)) m = Inr resp"
proof -
  obtain oc where oc: "make_operation_call (dispatch_operation_call c) = (Inr oc :: attempt_error idem_error + operation_call)"
    using assms by (cases "make_operation_call (dispatch_operation_call c) :: attempt_error idem_error + operation_call")
      (simp_all add: exchange_idempotently_def)
  have eq: "oc = dispatch_operation_call c"
    using oc by (auto simp: make_operation_call_def split: if_splits sum.splits)
  obtain x store sent where x: "execute (gw_idempotency g) oc (attempt_of_route env ro) (gw_sent g) = (x, store, sent)"
    by (metis prod_cases3)
  obtain cached where "x = Inr cached" using assms oc x by (cases x) (simp_all add: exchange_idempotently_def)
  then show ?thesis using assms oc x eq that
    by (auto simp: exchange_idempotently_def mapErr_def bindR_eq_Inr split: sum.splits)
qed

text \<open>Repeating an exchange that has just succeeded asks nobody.\<close>

lemma exchange_again:
  assumes first: "exchange_idempotently env c ro g = (Inr (resp, False), g1)"
    and same: "dc_operation_id c' = dc_operation_id c" "dc_tool_name c' = dc_tool_name c" "dc_payload c' = dc_payload c"
      "request_id_of (ro_request ro') = request_id_of (ro_request ro)"
      "de_envelope env' = de_envelope env" "de_adapter env' = de_adapter env"
    and soon: "\<not> tz_missing (dc_requested_at c')"
      "dt_instant (dc_requested_at c') < dt_instant (dc_requested_at c) + is_ttl (gw_idempotency g)"
    and store: "gw_idempotency g2 = gw_idempotency g1"
  shows "exchange_idempotently env' c' ro' g2 = (Inr (resp, True), g2)"
proof -
  obtain oc cached m where X: "make_operation_call (dispatch_operation_call c) = (Inr oc :: attempt_error idem_error + operation_call)"
    "oc = dispatch_operation_call c"
    "execute (gw_idempotency g) oc (attempt_of_route env ro) (gw_sent g) = (Inr cached, gw_idempotency g1, gw_sent g1)"
    "False = ir_replayed cached" "parse_message (de_envelope env) (de_adapter env) (ir_payload cached) = Inr m"
    "correlate_response (request_id_of (ro_request ro)) m = Inr resp"
    by (rule exchange_Inr [OF first])
  let ?oc' = "dispatch_operation_call c'"
  have payload: "oc_payload ?oc' = oc_payload oc" "oc_operation_id ?oc' = oc_operation_id oc"
    using same by (simp_all add: X(2) dispatch_operation_call_def)
  have aware: "\<not> tz_missing (oc_requested_at oc)" "canonicalize_payload (oc_payload oc) \<noteq> Inl x" for x
    using X(1,2) by (auto simp: make_operation_call_def split: if_splits sum.splits)
  have mk: "make_operation_call ?oc' = (Inr ?oc' :: attempt_error idem_error + operation_call)"
    using aware(2) soon(1) payload(1)
    by (cases "canonicalize_payload (oc_payload oc)") (auto simp: make_operation_call_def dispatch_operation_call_def)
  have "execute (gw_idempotency g1) ?oc' (attempt_of_route env' ro') (gw_sent g2) =
      (Inr \<lparr>ir_payload = ir_payload cached, ir_replayed = True, ir_payload_digest = ir_payload_digest cached\<rparr>,
       gw_idempotency g1, gw_sent g2)"
    using soon X(4)
    by (intro execute_again [OF X(3) _ aware(1) payload(2,1)]) (simp_all add: within_ttl_def dispatch_operation_call_def X(2))
  then show ?thesis
    using mk X(5,6) same(4,5,6) by (simp add: exchange_idempotently_def store)
qed

lemma route_allowed:
  assumes "evaluate_tool (dc_tool_name c) = Inr ALLOW"
  shows "dc_tool_name c \<notin> {''system_reboot'', ''system_shutdown''}"
  using assms by (auto simp: evaluate_tool_eq prohibited_tool_names_def hard_deny_operation_names_def tool_names_def)

section \<open>Properties\<close>

text \<open>
  C4: nothing happens without authority. When a dispatch sends a request to a peer or touches the job registry,
  the policy allows the tool outright, or it requires an approval and the call presented one that had been
  requested for this operation, tool and payload, that a human surface had granted before it expired, and that
  is consumed by this dispatch.
\<close>

theorem dispatch_effects_are_authorized:
  assumes "approval_run h (gw_approvals g)" "dispatch env c g = (res, g')"
    and "gw_sent g' \<noteq> gw_sent g \<or> gw_jobs g' \<noteq> gw_jobs g"
  shows "evaluate_tool (dc_tool_name c) = Inr ALLOW \<or>
    (evaluate_tool (dc_tool_name c) = Inr REQUIRE_APPROVAL \<and>
     (\<exists>i p r. dc_approval_id c = Some i \<and> approved_for h (attempt_of c i) p \<and>
        app_operation_id p = dc_operation_id c \<and> app_tool_name p = dc_tool_name c \<and>
        canonicalize_payload (JObj (dc_payload c)) = Inr (app_canonical_payload p) \<and>
        gw_approvals g' i = Some r \<and> ar_state r = CONSUMED))"
proof -
  have "\<exists>m. authorize c (gw_approvals g) = (Inr (Authorized m), gw_approvals g')"
    by (cases rule: dispatch_effect [OF assms(2)]) (use assms(3) in auto)
  then obtain m where m: "authorize c (gw_approvals g) = (Inr (Authorized m), gw_approvals g')" by blast
  show ?thesis
  proof (cases rule: authorize_cases [OF m, case_names allowed receipt])
    case allowed
    then show ?thesis by simp
  next
    case (receipt i p)
    have granted: "approved_for h (attempt_of c i) p"
      by (rule consume_approved_for [OF approval_run_inv [OF assms(1)] receipt(3)])
    have "app_operation_id p = dc_operation_id c \<and> app_tool_name p = dc_tool_name c \<and>
        canonicalize_payload (JObj (dc_payload c)) = Inr (app_canonical_payload p) \<and>
        (\<exists>r. gw_approvals g' i = Some r \<and> ar_state r = CONSUMED)"
      using receipt(3)
    proof (cases rule: consume_cases)
      case (consumed r m)
      have "ar_approval_id r = i"
        using approvals_inv_lookup [OF approval_run_inv [OF assms(1)] consumed(1)] by (simp add: record_inv_def attempt_of_def)
      then show ?thesis using consumed by (auto simp: attempt_of_def binding_mismatch_def)
    qed simp_all
    then show ?thesis using receipt(1,2) granted by blast
  qed
qed

text \<open>
  C5: what is sent is the call. A dispatch sends at most one request; it carries the identifier, the timeout and
  the payload of the call; only the two power tools reach the privileged helper, as the closed request built from
  a payload of exactly the two declared fields, and no other request ever does.
\<close>

theorem dispatched_request_is_the_call:
  assumes "dispatch env c g = (res, g')" "gw_sent g' \<noteq> gw_sent g"
  shows "\<exists>role q. gw_sent g' = gw_sent g @ [(role, q)] \<and> request_id_of q = dc_operation_id c \<and>
    (role = WorkerRole \<and> dc_tool_name c \<notin> {''system_reboot'', ''system_shutdown''} \<and>
       q = WorkerRequest \<lparr>rq_request_id = dc_operation_id c, rq_operation = dc_tool_name c,
         rq_payload = dc_payload c, rq_timeout_ms = dc_timeout_ms c\<rparr> \<or>
     role = PrivilegedHelperRole \<and>
       (\<exists>pf. power_fields_of (dc_payload c) = Some pf \<and>
         (dc_tool_name c = ''system_reboot'' \<and> q = RebootRequestMsg
            \<lparr>pq_request_id = dc_operation_id c, pq_payload = pf, pq_timeout_ms = dc_timeout_ms c\<rparr> \<or>
          dc_tool_name c = ''system_shutdown'' \<and> q = ShutdownRequestMsg
            \<lparr>pq_request_id = dc_operation_id c, pq_payload = pf, pq_timeout_ms = dc_timeout_ms c\<rparr>)))"
proof (cases rule: dispatch_effect [OF assms(1), case_names none job unrouted routed])
  case (routed m ro g2)
  have sent: "gw_sent g' = gw_sent g @ [(ro_target ro, ro_request ro)]" using routed(4) assms(2) by blast
  from route_request [OF routed(2)] show ?thesis
  proof
    assume a: "ro_target ro = PrivilegedHelperRole \<and> dc_tool_name c \<in> {''system_reboot'', ''system_shutdown''} \<and>
       build_privileged_request (dc_operation_id c) (dc_tool_name c) (dc_payload c) (dc_timeout_ms c) = Inr (ro_request ro)"
    then obtain pf where "power_fields_of (dc_payload c) = Some pf"
      "ro_request ro = (if dc_tool_name c = ''system_reboot''
         then RebootRequestMsg \<lparr>pq_request_id = dc_operation_id c, pq_payload = pf, pq_timeout_ms = dc_timeout_ms c\<rparr>
         else ShutdownRequestMsg \<lparr>pq_request_id = dc_operation_id c, pq_payload = pf, pq_timeout_ms = dc_timeout_ms c\<rparr>)"
      by (auto simp: build_privileged_request_def Let_def split: option.splits if_splits)
    then show ?thesis using a sent by (intro exI [of _ "ro_target ro"] exI [of _ "ro_request ro"]) auto
  next
    assume "ro_target ro = WorkerRole \<and> dc_tool_name c \<notin> {''system_reboot'', ''system_shutdown''} \<and>
       ro_request ro = WorkerRequest \<lparr>rq_request_id = dc_operation_id c, rq_operation = dc_tool_name c,
         rq_payload = dc_payload c, rq_timeout_ms = dc_timeout_ms c\<rparr>"
    then show ?thesis using sent by (intro exI [of _ "ro_target ro"] exI [of _ "ro_request ro"]) auto
  qed
qed (use assms(2) in simp_all)

text \<open>
  C6: every outcome is audited. A dispatch that returns an outcome has appended exactly one event to the trail,
  the one the outcome carries, for this operation and tool; the event is a rejection exactly when the caller is told of
  an error, and it names the approval exactly when one was spent.
\<close>

theorem every_outcome_is_audited:
  assumes "dispatch env c g = (Inr o', g')"
  shows "rec_records (gw_audit g') = rec_records (gw_audit g) @ [do_audit o'] \<and>
    ae_tool_name (do_audit o') = dc_tool_name c \<and> ae_operation_id (do_audit o') = Some (dc_operation_id c) \<and>
    (ae_outcome (do_audit o') = AuditRejected \<longleftrightarrow> do_is_error o') \<and>
    canonicalize_payload (JObj (do_payload o')) = Inr (do_text o') \<and>
    ae_approval (do_audit o') =
      (case fst (authorize c (gw_approvals g)) of Inr (Authorized m) \<Rightarrow> m | _ \<Rightarrow> None)"
proof -
  define shown where "shown m g2 = (rec_records (gw_audit g') = rec_records (gw_audit g2) @ [do_audit o'] \<and>
    ae_tool_name (do_audit o') = dc_tool_name c \<and> ae_operation_id (do_audit o') = Some (dc_operation_id c) \<and>
    (ae_outcome (do_audit o') = AuditRejected \<longleftrightarrow> do_is_error o') \<and>
    canonicalize_payload (JObj (do_payload o')) = Inr (do_text o') \<and> ae_approval (do_audit o') = m)"
    for m and g2 :: gateway_state
  have P: "shown m g2" if "present env c target view m g2 = (Inr o', g')" for target view m g2
    using present_Inr [of env c target "fst view" "fst (snd view)" "snd (snd view)" m g2 o' g'] that
    by (auto simp: shown_def)
  have E: "shown m g2" if "present_error env c target code m g2 = (Inr o', g')" for target code m g2
    using P that by (simp add: present_error_def)
  obtain a s' where a: "authorize c (gw_approvals g) = (a, s')" by fastforce
  define g1 where "g1 = g\<lparr>gw_approvals := s'\<rparr>"
  show ?thesis
  proof (cases a)
    case (Inl e)
    then show ?thesis using assms a by (simp add: dispatch_def)
  next
    case (Inr x)
    show ?thesis
    proof (cases x)
      case (AuthorizationError code)
      then have "shown None g1" using assms a Inr by (intro E [of GatewayRole code]) (simp add: dispatch_def g1_def)
      then show ?thesis using a Inr AuthorizationError by (simp add: shown_def g1_def)
    next
      case (Authorized m)
      have "shown m g1"
      proof (cases "dc_tool_name c \<in> set job_tool_names \<and> gw_jobs g \<noteq> None")
        case True
        then have j: "dispatch_job_call env c m g1 = (Inr o', g')" using assms a Inr Authorized by (simp add: dispatch_def g1_def)
        obtain r store jobs where d: "dispatch_job (de_job_codec env) (de_job env) (de_wait env = TimedOut) (gw_jobs g1)
          (gw_idempotency g1) (job_call_of c) = (r, store, jobs)" by (metis prod_cases3)
        define g2 where "g2 = g1\<lparr>gw_idempotency := store, gw_jobs := jobs\<rparr>"
        have nc: "de_wait env \<noteq> CallerCancelled" using j d by (auto simp: dispatch_job_call_def)
        have "shown m g2"
        proof (cases r)
          case (Inl e)
          then show ?thesis using j d nc E [of GatewayRole _ m g2] by (cases e) (auto simp: dispatch_job_call_def g2_def)
        next
          case (Inr y)
          then show ?thesis using j d nc P [of GatewayRole _ m g2] by (cases y) (auto simp: dispatch_job_call_def g2_def)
        qed
        then show ?thesis by (simp add: shown_def g2_def)
      next
        case jobs: False
        obtain r g2 where r: "route_call env c g1 = (r, g2)" by fastforce
        have au: "gw_audit g2 = gw_audit g1" using route_frame [OF r] by blast
        have "shown m g2"
        proof (cases r)
          case (Inl e)
          then show ?thesis using assms a \<open>a = Inr x\<close> Authorized jobs r E [of _ _ m g2]
            by (cases e) (auto simp: dispatch_def g1_def)
        next
          case ro: (Inr ro)
          then have "send env c ro m g2 = (Inr o', g')"
            using assms a \<open>a = Inr x\<close> Authorized jobs r by (auto simp: dispatch_def g1_def)
          then obtain target view g3 where "present env c target view m g3 = (Inr o', g')" "gw_audit g3 = gw_audit g2"
            by (rule send_presents)
          then show ?thesis using P [of target view m g3] by (simp add: shown_def)
        qed
        then show ?thesis using au by (simp add: shown_def)
      qed
      then show ?thesis using a Inr Authorized by (simp add: shown_def g1_def)
    qed
  qed
qed

text \<open>
  A retry is not executed again. After a dispatch of a tool that needs no approval has succeeded at a peer, a
  later dispatch of the same operation, tool and payload within the time to live, in whatever state the rest of the
  gateway is as long as the worker is registered, sends nothing and shows the same payload, marked as replayed.
\<close>

theorem retried_dispatch_is_replayed:
  assumes "evaluate_tool (dc_tool_name c) = Inr ALLOW"
    and "dispatch env c g = (Inr o1, g1)" "\<not> do_is_error o1" "\<not> do_replayed o1"
    and "dc_tool_name c \<notin> set job_tool_names \<or> gw_jobs g = None \<and> gw_jobs g2 = None"
    and "c' = c\<lparr>dc_requested_at := t, dc_timeout_ms := n\<rparr>" "\<not> tz_missing t"
      "dt_instant t < dt_instant (dc_requested_at c) + is_ttl (gw_idempotency g)"
    and "gw_idempotency g2 = gw_idempotency g1" "de_envelope env' = de_envelope env" "de_adapter env' = de_adapter env"
    and "worker_current (de_now env') (gw_workers g2) = (Inr client, w)" "de_wait env' = Returned"
    and "dispatch env' c' g2 = (Inr o2, g3)"
  shows "gw_sent g3 = gw_sent g2 \<and> do_payload o2 = do_payload o1 \<and> do_replayed o2 \<and> \<not> do_is_error o2"
proof -
  have tool: "dc_tool_name c \<notin> {''system_reboot'', ''system_shutdown''}" by (rule route_allowed [OF assms(1)])
  have c': "dc_tool_name c' = dc_tool_name c" "dc_payload c' = dc_payload c" "dc_operation_id c' = dc_operation_id c"
    "dc_requested_at c' = t" using assms(6) by simp_all
  obtain r ga where ra: "route_call env c g = (r, ga)" by fastforce
  have "\<exists>ro. r = Inr ro"
  proof (rule ccontr)
    assume "\<nexists>ro. r = Inr ro"
    then obtain e where "r = Inl e" by (cases r) auto
    then show False using assms(2,3,5) present_error_Inr [of env c _ _ None ga o1 g1] dispatch_allowed [OF assms(1), of g env] ra
      by (cases e) auto
  qed
  then obtain ro where ro: "r = Inr ro" by blast
  have s1: "send env c ro None ga = (Inr o1, g1)" using assms(2,5) dispatch_allowed [OF assms(1), of g env] ra ro by auto
  obtain resp rep gb where S: "exchange_idempotently env c ro ga = (Inr (resp, rep), gb)" "rs_ok resp"
    "present env c (ro_target ro) (case rs_payload resp of None \<Rightarrow> [] | Some p \<Rightarrow> p, rep,
        semantic_result_outcome (dc_tool_name c) (case rs_payload resp of None \<Rightarrow> [] | Some p \<Rightarrow> p)) None gb = (Inr o1, g1)"
    by (rule send_success [OF s1 assms(3)])
  note P1 = present_Inr [OF S(3)]
  have rep: "rep = False" using P1 assms(4) by simp
  have idem: "gw_idempotency g1 = gw_idempotency gb" using present_frame [OF S(3)] by auto
  have idem0: "gw_idempotency ga = gw_idempotency g" using route_frame [OF ra] by blast
  define q where "q = WorkerRequest \<lparr>rq_request_id = dc_operation_id c', rq_operation = dc_tool_name c',
      rq_payload = dc_payload c', rq_timeout_ms = dc_timeout_ms c'\<rparr>"
  have q: "request_ok q"
  proof (rule ccontr)
    assume "\<not> request_ok q"
    then have "route_call env' c' g2 = (Inl RouteRequestInvalid, g2)" using tool c' by (simp add: route_call_def q_def Let_def)
    then show False using assms(5,14) dispatch_allowed [of c' g2 env'] assms(1) c'(1) by auto
  qed
  define ro' where "ro' = \<lparr>ro_request = q, ro_client = client, ro_target = WorkerRole\<rparr>"
  define gc where "gc = g2\<lparr>gw_workers := w\<rparr>"
  have "route_call env' c' g2 = (Inr ro', gc)"
    using tool c' q assms(12) unfolding route_call_def q_def [symmetric] Let_def by (simp add: ro'_def gc_def)
  then have s2: "send env' c' ro' None gc = (Inr o2, g3)"
    using assms(5,14) dispatch_allowed [of c' g2 env'] assms(1) c'(1) by auto
  have "request_id_of (ro_request ro) = dc_operation_id c"
    using route_request [OF ra [unfolded ro]] tool by auto
  then have "exchange_idempotently env' c' ro' gc = (Inr (resp, True), gc)"
    using c' assms(7,8,9,10,11) idem idem0
    by (intro exchange_again [OF S(1) [unfolded rep]]) (simp_all add: ro'_def q_def gc_def)
  then have "present env' c' WorkerRole (case rs_payload resp of None \<Rightarrow> [] | Some p \<Rightarrow> p, True,
      semantic_result_outcome (dc_tool_name c) (case rs_payload resp of None \<Rightarrow> [] | Some p \<Rightarrow> p)) None gc = (Inr o2, g3)"
    using s2 S(2) assms(13) c'(1) by (simp add: send_def Let_def ro'_def)
  from present_Inr [OF this] present_frame [OF this] P1 assms(3) show ?thesis by (auto simp: gc_def)
qed

section \<open>A concrete dispatch\<close>

definition status_call :: "datetime \<Rightarrow> dispatch_call" where
  "status_call t =
     \<lparr>dc_operation_id = 7, dc_tool_name = ''status'', dc_payload = [], dc_requested_at = t,
      dc_timeout_ms = 5000, dc_approval_id = None\<rparr>"

definition status_response :: ipc_response where
  "status_response = \<lparr>rs_request_id = 7, rs_ok = True, rs_payload = Some [], rs_error_code = None\<rparr>"

definition status_request :: request_message where
  "status_request = WorkerRequest \<lparr>rq_request_id = 7, rq_operation = ''status'', rq_payload = [], rq_timeout_ms = 5000\<rparr>"

definition status_env :: dispatch_env where
  "status_env =
     \<lparr>de_now = 1, de_peer = (\<lambda>q. Inr (ResponseMsg status_response)), de_before = False, de_after = False,
      de_wait = Returned, de_event = 5, de_job = \<lparr>je_now = 1, je_fresh = 2, je_event = 3\<rparr>,
      de_job_codec = \<lparr>lax_uuid = (\<lambda>_. None), lax_int = (\<lambda>_. None), lax_path = (\<lambda>_. None),
        datetime_text = (\<lambda>_. []), parse_payload = (\<lambda>_. Some [])\<rparr>,
      de_serialize = (\<lambda>_. [1]), de_envelope = (\<lambda>_. Some protocol_version),
      de_adapter = (\<lambda>_. Some (ResponseMsg status_response)), de_casefold = id, de_dump = (\<lambda>_. [65])\<rparr>"

definition status_gateway :: gateway_state where
  "status_gateway =
     \<lparr>gw_workers = \<lparr>pr_offline_after = 30, pr_connection = Some \<lparr>pc_epoch = 1, pc_registration = sample_worker,
        pc_client = 3, pc_heartbeat_at = 0, pc_sequence = 0, pc_probe = None\<rparr>, pr_next_epoch = 2\<rparr>,
      gw_helpers = new_registry 30, gw_idempotency = \<lparr>is_ttl = 60, is_entries = Map.empty\<rparr>, gw_approvals = Map.empty,
      gw_audit = \<lparr>rec_records = [], rec_store = None\<rparr>, gw_jobs = None, gw_sent = [], gw_cancels = []\<rparr>"

lemma empty_object_canonical: "canonicalize_payload (JObj []) = Inr [123, 125]"
  by (simp add: canonicalize_payload_def utf8_char_def mkb_def)

lemma empty_object_text: "utf8_decode [123, 125] = Some (ustr ''{}'')"
  unfolding utf8_decode_iff by (simp add: utf8_char_def mkb_def)

lemma status_policy: "evaluate_tool (dc_tool_name (status_call t)) = Inr ALLOW"
  by (simp add: status_call_def evaluate_tool_eq prohibited_tool_names_def hard_deny_operation_names_def tool_names_def)

lemma status_not_job: "dc_tool_name (status_call t) \<notin> set job_tool_names"
  by (simp add: status_call_def job_tool_names_def)

lemma status_request_ok: "request_ok status_request"
  by (simp add: status_request_def text_ok_def timeout_ok_def lower_char_def)

lemma status_route:
  assumes "gw_workers g = gw_workers status_gateway"
  shows "route_call status_env (status_call t) g =
    (Inr \<lparr>ro_request = status_request, ro_client = 3, ro_target = WorkerRole\<rparr>, g\<lparr>gw_workers := gw_workers status_gateway\<rparr>)"
  using status_request_ok assms
  by (simp add: route_call_def status_call_def status_request_def Let_def status_env_def status_gateway_def
      worker_current_def current_connection_locked_def)

lemma status_operation_canonical:
  "\<exists>b. canonicalize_payload (oc_payload (dispatch_operation_call (status_call t))) = Inr b"
  by (simp add: dispatch_operation_call_def status_call_def canonicalize_payload_def utf8_char_def dump_str_def escape_char_def)

lemma empty_payload_event:
  assumes "ai_payload a = JObj []" "ai_stdout a = None" "ai_stderr a = None" "ai_untrusted_text a = None"
  shows "\<exists>e. audit_event_of id a = Inr e"
  using assms by (simp add: audit_event_of_def empty_object_canonical empty_object_text content_metadata_text_def
      del: utf8_decode.simps)

lemma status_presented:
  assumes "rec_store (gw_audit g) = None"
  shows "\<exists>o' g'. present status_env (status_call t) target ([], r, AuditSucceeded) None g = (Inr o', g')"
proof -
  let ?a = "\<lparr>ai_event_id = 5, ai_occurred_at = t, ai_tool_name = ''status'', ai_operation_id = Some 7,
      ai_payload = JObj [], ai_outcome = AuditSucceeded, ai_error_code = None, ai_approval = None, ai_stdout = None,
      ai_stderr = None, ai_screenshot_body = None, ai_untrusted_text = None\<rparr>"
  obtain e where "audit_event_of id ?a = Inr e" using empty_payload_event [of ?a] by auto
  then have "audit_record id (\<lambda>_. [65]) (gw_audit g) ?a = (Inr e, (gw_audit g)\<lparr>rec_records := rec_records (gw_audit g) @ [e]\<rparr>)"
    using assms by (simp add: audit_record_def Let_def)
  then show ?thesis by (simp add: present_def status_env_def status_call_def empty_object_canonical)
qed

definition status_route_of :: route where
  "status_route_of = \<lparr>ro_request = status_request, ro_client = 3, ro_target = WorkerRole\<rparr>"

lemma status_exchange:
  assumes "is_entries (gw_idempotency g) = Map.empty"
  shows "\<exists>store. exchange_idempotently status_env (status_call (Aware 0)) status_route_of g =
    (Inr (status_response, False), g\<lparr>gw_idempotency := store, gw_sent := gw_sent g @ [(WorkerRole, status_request)]\<rparr>)"
proof -
  obtain b where b: "canonicalize_payload (oc_payload (dispatch_operation_call (status_call (Aware 0)))) = Inr b"
    using status_operation_canonical by blast
  have a: "attempt_of_route status_env status_route_of w = (Inr [1], w @ [(WorkerRole, status_request)])" for w
    by (simp add: attempt_of_route_def attempt_run_def status_env_def status_route_of_def status_request_def
        correlate_response_def status_response_def)
  have mk: "make_operation_call (dispatch_operation_call (status_call (Aware 0))) =
      (Inr (dispatch_operation_call (status_call (Aware 0))) :: attempt_error idem_error + operation_call)"
    using b by (simp add: make_operation_call_def) (simp add: dispatch_operation_call_def status_call_def)
  have p: "parse_message (de_envelope status_env) (de_adapter status_env) x = Inr (ResponseMsg status_response)" for x
    by (simp add: parse_message_def status_env_def)
  have c: "correlate_response (request_id_of (ro_request status_route_of)) (ResponseMsg status_response) = Inr status_response"
    by (simp add: correlate_response_def status_route_of_def status_request_def status_response_def)
  show ?thesis
    using assms b by (auto simp: exchange_idempotently_def mk execute_def drop_expired_def a p c mapErr_def
      split: option.splits)
qed

lemma status_dispatch:
  obtains o1 g1 where "dispatch status_env (status_call (Aware 0)) status_gateway = (Inr o1, g1)"
    "\<not> do_is_error o1" "\<not> do_replayed o1" "gw_sent g1 = [(WorkerRole, status_request)]"
    "gw_workers g1 = gw_workers status_gateway" "gw_jobs g1 = None"
    "\<exists>g2. exchange_idempotently status_env (status_call (Aware 0)) status_route_of status_gateway =
       (Inr (status_response, False), g2) \<and> gw_idempotency g1 = gw_idempotency g2"
proof -
  obtain store where x: "exchange_idempotently status_env (status_call (Aware 0)) status_route_of status_gateway =
      (Inr (status_response, False), status_gateway\<lparr>gw_idempotency := store, gw_sent := [(WorkerRole, status_request)]\<rparr>)"
    using status_exchange [of status_gateway] by (auto simp: status_gateway_def)
  let ?g = "status_gateway\<lparr>gw_idempotency := store, gw_sent := [(WorkerRole, status_request)]\<rparr>"
  have none: "rec_store (gw_audit ?g) = None" by (simp add: status_gateway_def)
  obtain o1 g1 where q: "present status_env (status_call (Aware 0)) WorkerRole ([], False, AuditSucceeded) None ?g = (Inr o1, g1)"
    using status_presented [OF none] by blast
  have "dispatch status_env (status_call (Aware 0)) status_gateway =
      send status_env (status_call (Aware 0)) status_route_of None status_gateway"
    using dispatch_allowed [OF status_policy disjI1 [OF status_not_job]] status_route [OF refl]
    by (simp add: status_route_of_def)
  also have "\<dots> = (Inr o1, g1)"
    using x q by (simp add: send_def Let_def status_env_def [THEN arg_cong [of _ _ de_wait]] status_response_def
      status_route_of_def semantic_result_outcome_def)
  finally have d: "dispatch status_env (status_call (Aware 0)) status_gateway = (Inr o1, g1)" .
  obtain recorder where "g1 = ?g\<lparr>gw_audit := recorder\<rparr>" using present_frame [OF q] by blast
  then show ?thesis using present_Inr [OF q] x by (intro that [OF d]) (simp_all add: status_gateway_def)
qed

text \<open>The same call ten seconds later, in the state the first one left but for a fresh audit trail.\<close>

lemma status_dispatch_again:
  assumes "exchange_idempotently status_env (status_call (Aware 0)) status_route_of status_gateway = (Inr (status_response, False), g1)"
    and "gw_idempotency g = gw_idempotency g1" "gw_workers g = gw_workers status_gateway" "rec_store (gw_audit g) = None"
  shows "\<exists>o2 g2. dispatch status_env (status_call (Aware 10)) g = (Inr o2, g2)"
proof -
  let ?g = "g\<lparr>gw_workers := gw_workers status_gateway\<rparr>"
  have x: "exchange_idempotently status_env (status_call (Aware 10)) status_route_of ?g = (Inr (status_response, True), ?g)"
    using assms(2) by (intro exchange_again [OF assms(1)]) (simp_all add: status_call_def status_gateway_def)
  have none: "rec_store (gw_audit ?g) = None" using assms(4) by simp
  obtain o2 g2 where q: "present status_env (status_call (Aware 10)) WorkerRole ([], True, AuditSucceeded) None ?g = (Inr o2, g2)"
    using status_presented [OF none] by blast
  have "dispatch status_env (status_call (Aware 10)) g = send status_env (status_call (Aware 10)) status_route_of None ?g"
    using dispatch_allowed [OF status_policy disjI1 [OF status_not_job]] status_route [OF assms(3)]
    by (simp add: status_route_of_def)
  also have "\<dots> = (Inr o2, g2)"
    using x q by (simp add: send_def Let_def status_env_def [THEN arg_cong [of _ _ de_wait]] status_response_def
      status_route_of_def semantic_result_outcome_def)
  finally show ?thesis by blast
qed

lemma dispatch_effects_are_authorized_witness:
  "\<exists>o1 g1. dispatch status_env (status_call (Aware 0)) status_gateway = (Inr o1, g1) \<and>
     evaluate_tool (dc_tool_name (status_call (Aware 0))) = Inr ALLOW"
proof -
  obtain o1 g1 where d: "dispatch status_env (status_call (Aware 0)) status_gateway = (Inr o1, g1)"
    "gw_sent g1 = [(WorkerRole, status_request)]" by (rule status_dispatch)
  have "approval_run [] (gw_approvals status_gateway)" by (simp add: status_gateway_def approval_run.init)
  from dispatch_effects_are_authorized [OF this d(1)] d show ?thesis
    by (auto simp: status_gateway_def status_call_def)
qed

lemma dispatched_request_is_the_call_witness:
  "\<exists>o1 g1 role q. dispatch status_env (status_call (Aware 0)) status_gateway = (Inr o1, g1) \<and>
     gw_sent g1 = [(role, q)] \<and> request_id_of q = 7"
proof -
  obtain o1 g1 where d: "dispatch status_env (status_call (Aware 0)) status_gateway = (Inr o1, g1)"
    "gw_sent g1 = [(WorkerRole, status_request)]" by (rule status_dispatch)
  from dispatched_request_is_the_call [OF d(1)] d show ?thesis
    by (auto simp: status_gateway_def status_call_def)
qed

lemma every_outcome_is_audited_witness:
  "\<exists>o1 g1. dispatch status_env (status_call (Aware 0)) status_gateway = (Inr o1, g1) \<and>
     rec_records (gw_audit g1) = [do_audit o1] \<and> ae_tool_name (do_audit o1) = ''status''"
proof -
  obtain o1 g1 where d: "dispatch status_env (status_call (Aware 0)) status_gateway = (Inr o1, g1)" by (rule status_dispatch)
  from every_outcome_is_audited [OF d] d show ?thesis by (auto simp: status_gateway_def status_call_def)
qed

lemma retried_dispatch_is_replayed_witness:
  "\<exists>o1 g1 g2 o2 g3. dispatch status_env (status_call (Aware 0)) status_gateway = (Inr o1, g1) \<and>
     dispatch status_env (status_call (Aware 10)) g2 = (Inr o2, g3) \<and> gw_sent g3 = gw_sent g2 \<and> do_replayed o2"
proof -
  obtain o1 g1 where d: "dispatch status_env (status_call (Aware 0)) status_gateway = (Inr o1, g1)"
    "\<not> do_is_error o1" "\<not> do_replayed o1" "gw_workers g1 = gw_workers status_gateway"
    "\<exists>g2. exchange_idempotently status_env (status_call (Aware 0)) status_route_of status_gateway =
       (Inr (status_response, False), g2) \<and> gw_idempotency g1 = gw_idempotency g2" by (rule status_dispatch)
  let ?g = "g1\<lparr>gw_audit := gw_audit status_gateway\<rparr>"
  have none: "rec_store (gw_audit ?g) = None" by (simp add: status_gateway_def)
  obtain o2 g3 where e: "dispatch status_env (status_call (Aware 10)) ?g = (Inr o2, g3)"
    using d(4,5) status_dispatch_again [OF _ _ _ none] by auto
  have "gw_sent g3 = gw_sent ?g \<and> do_payload o2 = do_payload o1 \<and> do_replayed o2 \<and> \<not> do_is_error o2"
  proof (rule retried_dispatch_is_replayed [OF status_policy d(1,2,3) disjI1 [OF status_not_job], where t = "Aware 10" and n = 5000])
    show "worker_current (de_now status_env) (gw_workers ?g) = (Inr 3, gw_workers status_gateway)"
      using d(4) by (simp add: status_env_def status_gateway_def worker_current_def current_connection_locked_def)
    show "dispatch status_env (status_call (Aware 10)) ?g = (Inr o2, g3)" by (rule e)
  qed (simp_all add: status_call_def status_gateway_def status_env_def)
  then show ?thesis using d(1) e by blast
qed

end
