(* ===== verification/Worker_Operations.thy ===== *)
theory Worker_Operations
  imports Ipc_Protocol "HOL-Library.AList"
begin

text \<open>
  The worker's operation dispatcher (\<open>worker/operations.py\<close>, the operation table of
  \<open>worker/adapter_router.py\<close>): the closed table of handlers, the calls in progress, cancellation and
  shutdown. An exchange takes the lock three times, so it is three steps, and any call may come between them;
  what a handler returns or raises is an argument of the middle step. The lemmas show which
  answer a call gets on every branch, and that a cancellation that was accepted is never answered with success.
\<close>

section \<open>The operation table\<close>

definition completed_worker_operations :: "string list" where
  "completed_worker_operations =
     [''app_open'', ''browser_click'', ''browser_close'', ''browser_extract'', ''browser_navigate'', ''browser_open'',
      ''browser_snapshot'', ''browser_status'', ''browser_type'', ''codex_run'', ''codex_status'', ''computer_click'',
      ''computer_hotkey'', ''computer_key'', ''computer_move'', ''computer_observe'', ''computer_scroll'',
      ''computer_type'', ''fs_copy'', ''fs_delete'', ''fs_list'', ''fs_mkdir'', ''fs_move'', ''fs_read'', ''fs_stat'',
      ''fs_write'', ''job_cancel'', ''job_output'', ''job_start'', ''job_status'', ''process_kill'', ''process_list'',
      ''process_start'', ''shell_run'', ''status'', ''system_lock'', ''system_sleep'', ''uia_action'', ''uia_find'']"

datatype worker_operation =
    OpStatus | OpShellRun | OpFsList | OpFsStat | OpFsRead | OpFsWrite | OpFsMove | OpFsCopy | OpFsDelete | OpFsMkdir
  | OpProcessList | OpProcessStart | OpProcessKill | OpAppOpen
  | OpComputerObserve | OpComputerClick | OpComputerMove | OpComputerScroll | OpComputerType | OpComputerHotkey | OpComputerKey
  | OpUiaFind | OpUiaAction
  | OpBrowserStatus | OpBrowserOpen | OpBrowserNavigate | OpBrowserSnapshot | OpBrowserClick | OpBrowserType
  | OpBrowserExtract | OpBrowserClose
  | OpCodexStatus | OpCodexRun | OpJobStart | OpJobStatus | OpJobOutput | OpJobCancel | OpSystemLock | OpSystemSleep

definition worker_operations :: "(string \<times> worker_operation) list" where
  "worker_operations =
     [(''status'', OpStatus), (''shell_run'', OpShellRun), (''fs_list'', OpFsList), (''fs_stat'', OpFsStat),
      (''fs_read'', OpFsRead), (''fs_write'', OpFsWrite), (''fs_move'', OpFsMove), (''fs_copy'', OpFsCopy),
      (''fs_delete'', OpFsDelete), (''fs_mkdir'', OpFsMkdir), (''process_list'', OpProcessList),
      (''process_start'', OpProcessStart), (''process_kill'', OpProcessKill), (''app_open'', OpAppOpen),
      (''computer_observe'', OpComputerObserve), (''computer_click'', OpComputerClick), (''computer_move'', OpComputerMove),
      (''computer_scroll'', OpComputerScroll), (''computer_type'', OpComputerType), (''computer_hotkey'', OpComputerHotkey),
      (''computer_key'', OpComputerKey), (''uia_find'', OpUiaFind), (''uia_action'', OpUiaAction),
      (''browser_status'', OpBrowserStatus), (''browser_open'', OpBrowserOpen), (''browser_navigate'', OpBrowserNavigate),
      (''browser_snapshot'', OpBrowserSnapshot), (''browser_click'', OpBrowserClick), (''browser_type'', OpBrowserType),
      (''browser_extract'', OpBrowserExtract), (''browser_close'', OpBrowserClose), (''codex_status'', OpCodexStatus),
      (''codex_run'', OpCodexRun), (''job_start'', OpJobStart), (''job_status'', OpJobStatus), (''job_output'', OpJobOutput),
      (''job_cancel'', OpJobCancel), (''system_lock'', OpSystemLock), (''system_sleep'', OpSystemSleep)]"

section \<open>The dispatcher\<close>

text \<open>
  \<open>'h\<close> is the type of handlers, \<open>'r\<close> that of the resources closed at the end; the two logs record the calls made of
  them.
\<close>

record ('h, 'r) worker_dispatcher =
  wd_handlers :: "(string \<times> 'h) list"
  wd_resources :: "'r list"
  wd_active :: "(uuid \<times> 'h) list"
  wd_cancelled :: "uuid set"
  wd_closed :: bool
  wd_cancels :: "('h \<times> uuid) list"
  wd_released :: "'r list"

datatype worker_error = InvalidWorkerOperationError string

definition make_dispatcher :: "(string \<times> 'h) list \<Rightarrow> 'r list \<Rightarrow> worker_error + ('h, 'r) worker_dispatcher" where
  "make_dispatcher handlers resources =
     (if \<not> list_all (\<lambda>kv. fst kv \<in> set completed_worker_operations) handlers
      then Inl (InvalidWorkerOperationError ''operation table contains unsupported names'')
      else Inr \<lparr>wd_handlers = handlers, wd_resources = resources, wd_active = [], wd_cancelled = {},
                wd_closed = False, wd_cancels = [], wd_released = []\<rparr>)"

definition failure_response :: "uuid \<Rightarrow> string \<Rightarrow> ipc_response" where
  "failure_response rid code = \<lparr>rs_request_id = rid, rs_ok = False, rs_payload = None, rs_error_code = Some code\<rparr>"

text \<open>The first step of \<open>exchange\<close>: a response at once, or the handler to run.\<close>

definition exchange_begin ::
  "request_message \<Rightarrow> ('h, 'r) worker_dispatcher \<Rightarrow> (worker_error + (ipc_response + 'h)) \<times> ('h, 'r) worker_dispatcher" where
  "exchange_begin m d =
     (case m of
        WorkerRequest q \<Rightarrow>
          (case map_of (wd_handlers d) (rq_operation q) of
             None \<Rightarrow> (Inr (Inl (failure_response (rq_request_id q) ''unsupported_worker_operation'')), d)
           | Some handler \<Rightarrow>
               if wd_closed d then (Inr (Inl (failure_response (rq_request_id q) ''worker_stopping'')), d)
               else (Inr (Inr handler), d\<lparr>wd_active := AList.update (rq_request_id q) handler (wd_active d)\<rparr>))
      | _ \<Rightarrow> (Inl (InvalidWorkerOperationError ''request target is not worker''), d))"

datatype handler_outcome =
    Returns "(pystr \<times> json) list"
  | RaisesPathPolicy string
  | RaisesValueError
  | RaisesOSError
  | RaisesRuntimeError
  | RaisesOther

text \<open>The answer; \<open>None\<close> when the exception is one no clause catches.\<close>

definition exchange_result :: "uuid \<Rightarrow> handler_outcome \<Rightarrow> ('h, 'r) worker_dispatcher \<Rightarrow> ipc_response option" where
  "exchange_result rid out d =
     (case out of
        RaisesPathPolicy reason \<Rightarrow>
          Some (failure_response rid
            (if reason = ''outside_allowed_roots'' then ''path_outside_allowed_roots'' else ''path_policy_denied''))
      | RaisesValueError \<Rightarrow> Some (failure_response rid ''invalid_worker_request'')
      | RaisesOSError \<Rightarrow> Some (failure_response rid ''worker_operation_failed'')
      | RaisesRuntimeError \<Rightarrow> Some (failure_response rid ''worker_operation_failed'')
      | RaisesOther \<Rightarrow> None
      | Returns payload \<Rightarrow>
          (let cancelled = rid \<in> wd_cancelled d
           in Some \<lparr>rs_request_id = rid, rs_ok = (\<not> cancelled), rs_payload = (if cancelled then None else Some payload),
                    rs_error_code = (if cancelled then Some ''operation_cancelled'' else None)\<rparr>))"

text \<open>The \<open>finally\<close> clause.\<close>

definition exchange_finish :: "uuid \<Rightarrow> ('h, 'r) worker_dispatcher \<Rightarrow> ('h, 'r) worker_dispatcher" where
  "exchange_finish rid d = d\<lparr>wd_active := AList.delete rid (wd_active d), wd_cancelled := wd_cancelled d - {rid}\<rparr>"

definition dispatcher_cancel :: "uuid \<Rightarrow> ('h, 'r) worker_dispatcher \<Rightarrow> bool \<times> ('h, 'r) worker_dispatcher" where
  "dispatcher_cancel rid d =
     (case map_of (wd_active d) rid of
        None \<Rightarrow> (False, d)
      | Some handler \<Rightarrow>
          (True, d\<lparr>wd_cancelled := insert rid (wd_cancelled d), wd_cancels := wd_cancels d @ [(handler, rid)]\<rparr>))"

definition dispatcher_close :: "('h, 'r) worker_dispatcher \<Rightarrow> ('h, 'r) worker_dispatcher" where
  "dispatcher_close d =
     (if wd_closed d then d
      else d\<lparr>wd_closed := True, wd_cancels := wd_cancels d @ map (\<lambda>(rid, handler). (handler, rid)) (wd_active d),
             wd_released := wd_released d @ rev (wd_resources d)\<rparr>)"

text \<open>The three steps in a row, when nothing comes between them.\<close>

definition dispatcher_exchange ::
  "('h \<Rightarrow> ipc_request \<Rightarrow> handler_outcome) \<Rightarrow> ipc_request \<Rightarrow> ('h, 'r) worker_dispatcher \<Rightarrow>
   (worker_error + ipc_response option) \<times> ('h, 'r) worker_dispatcher" where
  "dispatcher_exchange run q d =
     (case exchange_begin (WorkerRequest q) d of
        (Inl e, d1) \<Rightarrow> (Inl e, d1)
      | (Inr (Inl r), d1) \<Rightarrow> (Inr (Some r), d1)
      | (Inr (Inr handler), d1) \<Rightarrow>
          (Inr (exchange_result (rq_request_id q) (run handler q) d1), exchange_finish (rq_request_id q) d1))"

section \<open>Interleaved calls\<close>

text \<open>
  A call in progress has a token of its own. A history lists what has happened, the latest first, with what the
  cancellations returned and what was answered.
\<close>

datatype call_phase = HandlerRunning | HandlerAnswered

datatype worker_event =
    Begins nat ipc_request
  | Rejects ipc_request ipc_response
  | Resolves nat handler_outcome "ipc_response option"
  | Finishes_call nat
  | Cancels uuid bool
  | Closes

record ('h, 'r) worker_system =
  ws_dispatcher :: "('h, 'r) worker_dispatcher"
  ws_calls :: "nat \<rightharpoonup> (ipc_request \<times> call_phase)"

inductive worker_run :: "worker_event list \<Rightarrow> ('h, 'r) worker_system \<Rightarrow> bool" where
  init: "make_dispatcher handlers resources = Inr d \<Longrightarrow> worker_run [] \<lparr>ws_dispatcher = d, ws_calls = Map.empty\<rparr>"
| begins: "worker_run h \<sigma> \<Longrightarrow> (\<forall>q. Begins t q \<notin> set h) \<Longrightarrow>
    (\<And>u q' ph. ws_calls \<sigma> u = Some (q', ph) \<Longrightarrow> rq_request_id q' \<noteq> rq_request_id q) \<Longrightarrow>
    exchange_begin (WorkerRequest q) (ws_dispatcher \<sigma>) = (Inr (Inr handler), d) \<Longrightarrow>
    worker_run (Begins t q # h) \<lparr>ws_dispatcher = d, ws_calls = (ws_calls \<sigma>)(t \<mapsto> (q, HandlerRunning))\<rparr>"
| rejects: "worker_run h \<sigma> \<Longrightarrow> exchange_begin (WorkerRequest q) (ws_dispatcher \<sigma>) = (Inr (Inl r), d) \<Longrightarrow>
    worker_run (Rejects q r # h) (\<sigma>\<lparr>ws_dispatcher := d\<rparr>)"
| resolves: "worker_run h \<sigma> \<Longrightarrow> ws_calls \<sigma> t = Some (q, HandlerRunning) \<Longrightarrow>
    worker_run (Resolves t out (exchange_result (rq_request_id q) out (ws_dispatcher \<sigma>)) # h)
      (\<sigma>\<lparr>ws_calls := (ws_calls \<sigma>)(t \<mapsto> (q, HandlerAnswered))\<rparr>)"
| finishes: "worker_run h \<sigma> \<Longrightarrow> ws_calls \<sigma> t = Some (q, HandlerAnswered) \<Longrightarrow>
    worker_run (Finishes_call t # h)
      \<lparr>ws_dispatcher = exchange_finish (rq_request_id q) (ws_dispatcher \<sigma>), ws_calls = map_del (ws_calls \<sigma>) t\<rparr>"
| cancels: "worker_run h \<sigma> \<Longrightarrow> dispatcher_cancel i (ws_dispatcher \<sigma>) = (b, d) \<Longrightarrow>
    worker_run (Cancels i b # h) (\<sigma>\<lparr>ws_dispatcher := d\<rparr>)"
| closes: "worker_run h \<sigma> \<Longrightarrow> worker_run (Closes # h) (\<sigma>\<lparr>ws_dispatcher := dispatcher_close (ws_dispatcher \<sigma>)\<rparr>)"

inductive_cases worker_run_ResolvesE: "worker_run (Resolves t out r # h) \<sigma>"

section \<open>The invariant of interleaved calls\<close>

text \<open>What has happened since a call began.\<close>

definition since :: "nat \<Rightarrow> ipc_request \<Rightarrow> worker_event list \<Rightarrow> worker_event list" where
  "since t q h = takeWhile (\<lambda>e. e \<noteq> Begins t q) h"

lemma since_simps [simp]:
  "since t q [] = []" "since t q (Begins t q # h) = []" "e \<noteq> Begins t q \<Longrightarrow> since t q (e # h) = e # since t q h"
  by (simp_all add: since_def)

definition requests_of :: "('h, 'r) worker_system \<Rightarrow> nat \<rightharpoonup> ipc_request" where
  "requests_of \<sigma> t = map_option fst (ws_calls \<sigma> t)"

definition in_progress :: "uuid \<Rightarrow> (nat \<rightharpoonup> ipc_request) \<Rightarrow> bool" where
  "in_progress i calls \<longleftrightarrow> (\<exists>t q. calls t = Some q \<and> rq_request_id q = i)"

definition calls_inv :: "worker_event list \<Rightarrow> ('h, 'r) worker_dispatcher \<Rightarrow> (nat \<rightharpoonup> ipc_request) \<Rightarrow> bool" where
  "calls_inv h d calls \<longleftrightarrow>
     (\<forall>t q. calls t = Some q \<longrightarrow> Begins t q \<in> set h) \<and>
     (\<forall>t q u p. calls t = Some q \<longrightarrow> calls u = Some p \<longrightarrow> rq_request_id q = rq_request_id p \<longrightarrow> t = u) \<and>
     (\<forall>i. map_of (wd_active d) i \<noteq> None \<longleftrightarrow> in_progress i calls) \<and>
     (\<forall>i \<in> wd_cancelled d. in_progress i calls) \<and>
     (\<forall>t q. calls t = Some q \<longrightarrow>
        (rq_request_id q \<in> wd_cancelled d \<longleftrightarrow> Cancels (rq_request_id q) True \<in> set (since t q h)))"

lemma calls_invD:
  assumes "calls_inv h d calls"
  shows "calls t = Some q \<Longrightarrow> Begins t q \<in> set h"
    "calls t = Some q \<Longrightarrow> calls u = Some p \<Longrightarrow> rq_request_id q = rq_request_id p \<Longrightarrow> t = u"
    "map_of (wd_active d) i \<noteq> None \<longleftrightarrow> in_progress i calls"
    "i \<in> wd_cancelled d \<Longrightarrow> in_progress i calls"
    "calls t = Some q \<Longrightarrow> rq_request_id q \<in> wd_cancelled d \<longleftrightarrow> Cancels (rq_request_id q) True \<in> set (since t q h)"
  using assms unfolding calls_inv_def by blast+

lemma exchange_begin_cases:
  assumes "exchange_begin (WorkerRequest q) d = (Inr (Inr handler), d')"
  shows "d' = d\<lparr>wd_active := AList.update (rq_request_id q) handler (wd_active d)\<rparr> \<and> \<not> wd_closed d \<and>
    map_of (wd_handlers d) (rq_operation q) = Some handler"
  using assms by (auto simp: exchange_begin_def split: option.splits if_splits)

lemma exchange_begin_rejects:
  "exchange_begin (WorkerRequest q) d = (Inr (Inl r), d') \<Longrightarrow> d' = d"
  by (auto simp: exchange_begin_def split: option.splits if_splits)

lemma dispatcher_cancel_cases:
  assumes "dispatcher_cancel i d = (b, d')"
  obtains (absent) "\<not> b" "d' = d" "map_of (wd_active d) i = None"
    | (found) handler where "b" "map_of (wd_active d) i = Some handler"
        "d' = d\<lparr>wd_cancelled := insert i (wd_cancelled d), wd_cancels := wd_cancels d @ [(handler, i)]\<rparr>"
  using assms by (auto simp: dispatcher_cancel_def split: option.splits)

lemma calls_inv_begin:
  assumes inv: "calls_inv h d calls" and t: "\<forall>q. Begins t q \<notin> set h"
    and ids: "\<not> in_progress (rq_request_id q) calls"
  shows "calls_inv (Begins t q # h) (d\<lparr>wd_active := AList.update (rq_request_id q) handler (wd_active d)\<rparr>) (calls(t \<mapsto> q))"
proof -
  note I = calls_invD [OF inv]
  have old: "u \<noteq> t \<and> rq_request_id p \<noteq> rq_request_id q" if "calls u = Some p" for u p
    using I(1) [OF that] t that ids by (auto simp: in_progress_def)
  then have none: "calls t = None" by (metis not_None_eq)
  have new: "rq_request_id q \<notin> wd_cancelled d" using I(4) ids by blast
  have p: "in_progress i (calls(t \<mapsto> q)) \<longleftrightarrow> i = rq_request_id q \<or> in_progress i calls" for i
    using none by (auto simp: in_progress_def split: if_splits) (metis option.distinct(1))+
  show ?thesis
    unfolding calls_inv_def p
    using I(1,2,4,5) I(3) new none
    by (auto simp: update_conv' split: if_splits dest: old)
qed

lemma calls_inv_finish:
  assumes inv: "calls_inv h d calls" and t: "calls t = Some q"
  shows "calls_inv (Finishes_call t # h) (exchange_finish (rq_request_id q) d) (map_del calls t)"
proof -
  note I = calls_invD [OF inv]
  have only: "rq_request_id p \<noteq> rq_request_id q" if "calls u = Some p" "u \<noteq> t" for u p
    using I(2) [OF that(1) t] that(2) by blast
  have p: "in_progress i (map_del calls t) \<longleftrightarrow> i \<noteq> rq_request_id q \<and> in_progress i calls" for i
    unfolding in_progress_def using only t by (metis map_del_apply option.distinct(1) option.inject)
  show ?thesis
    unfolding calls_inv_def p
    using I(1,2,4,5) I(3) only
    by (auto simp: exchange_finish_def delete_conv' split: if_splits)
qed

lemma calls_inv_cancel:
  assumes inv: "calls_inv h d calls" and c: "dispatcher_cancel i d = (b, d')"
  shows "calls_inv (Cancels i b # h) d' calls"
  using c
proof (cases rule: dispatcher_cancel_cases)
  case absent
  then show ?thesis using inv by (simp add: calls_inv_def)
next
  case (found handler)
  have "in_progress i calls" using calls_invD(3) [OF inv, of i] found(2) by simp
  then show ?thesis unfolding calls_inv_def using calls_invD [OF inv] found by auto
qed

lemma worker_run_inv: "worker_run h \<sigma> \<Longrightarrow> calls_inv h (ws_dispatcher \<sigma>) (requests_of \<sigma>)"
proof (induction rule: worker_run.induct)
  case (init handlers resources d)
  then show ?case by (auto simp: calls_inv_def make_dispatcher_def requests_of_def in_progress_def split: if_splits)
next
  case (begins h \<sigma> t q handler d)
  have "\<not> in_progress (rq_request_id q) (requests_of \<sigma>)"
    using begins.hyps(3) by (auto simp: in_progress_def requests_of_def)
  moreover have "requests_of \<lparr>ws_dispatcher = d, ws_calls = (ws_calls \<sigma>)(t \<mapsto> (q, HandlerRunning))\<rparr> = (requests_of \<sigma>)(t \<mapsto> q)"
    by (auto simp: requests_of_def)
  ultimately show ?case
    using calls_inv_begin [OF begins.IH begins.hyps(2)] exchange_begin_cases [OF begins.hyps(4)] by (simp del: fun_upd_apply)
next
  case (rejects h \<sigma> q r d)
  then show ?case using exchange_begin_rejects [OF rejects.hyps(2)] by (simp add: calls_inv_def requests_of_def)
next
  case (resolves h \<sigma> t q out)
  have "requests_of (\<sigma>\<lparr>ws_calls := (ws_calls \<sigma>)(t \<mapsto> (q, HandlerAnswered))\<rparr>) = requests_of \<sigma>"
    using resolves.hyps(2) by (auto simp: requests_of_def)
  then show ?case using resolves.IH by (simp add: calls_inv_def)
next
  case (finishes h \<sigma> t q)
  have "requests_of \<lparr>ws_dispatcher = exchange_finish (rq_request_id q) (ws_dispatcher \<sigma>), ws_calls = map_del (ws_calls \<sigma>) t\<rparr> =
      map_del (requests_of \<sigma>) t" by (auto simp: requests_of_def)
  moreover have "requests_of \<sigma> t = Some q" using finishes.hyps(2) by (simp add: requests_of_def)
  ultimately show ?case using calls_inv_finish [OF finishes.IH] by (simp del: map_del_apply)
next
  case (cancels h \<sigma> i b d)
  then show ?case using calls_inv_cancel [OF cancels.IH cancels.hyps(2)] by (simp add: requests_of_def)
next
  case (closes h \<sigma>)
  then show ?case by (simp add: calls_inv_def dispatcher_close_def requests_of_def)
qed

section \<open>Shutdown\<close>

definition shutdown_inv :: "worker_event list \<Rightarrow> ('h, 'r) worker_dispatcher \<Rightarrow> bool" where
  "shutdown_inv h d \<longleftrightarrow>
     (wd_closed d \<longleftrightarrow> Closes \<in> set h) \<and>
     wd_released d = (if Closes \<in> set h then rev (wd_resources d) else []) \<and>
     (wd_closed d \<longrightarrow> (\<forall>t q. Begins t q \<notin> set (takeWhile (\<lambda>e. e \<noteq> Closes) h)) \<and>
        (\<forall>(i, handler) \<in> set (wd_active d). (handler, i) \<in> set (wd_cancels d)))"

lemma shutdown_inv_quiet:
  assumes "shutdown_inv h d" "e \<noteq> Closes" "\<And>t q. e \<noteq> Begins t q"
    "wd_closed d' = wd_closed d" "wd_released d' = wd_released d" "wd_resources d' = wd_resources d"
    "set (wd_active d') \<subseteq> set (wd_active d)" "set (wd_cancels d) \<subseteq> set (wd_cancels d')"
  shows "shutdown_inv (e # h) d'"
  using assms unfolding shutdown_inv_def by (auto split: if_splits) blast+

lemma worker_run_shutdown: "worker_run h \<sigma> \<Longrightarrow> shutdown_inv h (ws_dispatcher \<sigma>)"
proof (induction rule: worker_run.induct)
  case (init handlers resources d)
  then show ?case by (auto simp: shutdown_inv_def make_dispatcher_def split: if_splits)
next
  case (begins h \<sigma> t q handler d)
  then show ?case using exchange_begin_cases [OF begins.hyps(4)] by (auto simp: shutdown_inv_def)
next
  case (rejects h \<sigma> q r d)
  then show ?case using exchange_begin_rejects [OF rejects.hyps(2)] by (intro shutdown_inv_quiet [OF rejects.IH]) auto
next
  case (resolves h \<sigma> t q out)
  then show ?case by (intro shutdown_inv_quiet [OF resolves.IH]) auto
next
  case (finishes h \<sigma> t q)
  then show ?case
    by (intro shutdown_inv_quiet [OF finishes.IH]) (auto simp: exchange_finish_def AList.delete_eq)
next
  case (cancels h \<sigma> i b d)
  then show ?case
    by (intro shutdown_inv_quiet [OF cancels.IH]) (auto simp: dispatcher_cancel_def split: option.splits)
next
  case (closes h \<sigma>)
  then show ?case
    by (auto simp: shutdown_inv_def dispatcher_close_def split: if_splits)
qed

section \<open>Properties\<close>

lemma response_of_returns:
  assumes "exchange_result rid out d = Some r"
  shows "rs_request_id r = rid \<and> (rs_ok r \<longleftrightarrow> rid \<notin> wd_cancelled d \<and> (\<exists>p. out = Returns p)) \<and>
    (rs_ok r \<longrightarrow> out = Returns (the (rs_payload r)) \<and> rs_error_code r = None) \<and>
    (rs_error_code r = Some ''operation_cancelled'' \<longleftrightarrow> rid \<in> wd_cancelled d \<and> (\<exists>p. out = Returns p))"
  using assms by (auto simp: exchange_result_def failure_response_def Let_def split: handler_outcome.splits if_splits)


text \<open>
  A cancellation finds exactly the calls in progress. It returns true, and reaches the handler that runs the call,
  if and only if a call with the identifier has begun and not finished.
\<close>

theorem cancel_reaches_running_call:
  assumes "worker_run h \<sigma>" "dispatcher_cancel i (ws_dispatcher \<sigma>) = (b, d)"
  shows "(b \<longleftrightarrow> (\<exists>t q ph. ws_calls \<sigma> t = Some (q, ph) \<and> rq_request_id q = i)) \<and>
    (b \<longrightarrow> (\<exists>handler. map_of (wd_active (ws_dispatcher \<sigma>)) i = Some handler \<and>
       wd_cancels d = wd_cancels (ws_dispatcher \<sigma>) @ [(handler, i)])) \<and> (\<not> b \<longrightarrow> d = ws_dispatcher \<sigma>)"
proof -
  have "in_progress i (requests_of \<sigma>) \<longleftrightarrow> (\<exists>t q ph. ws_calls \<sigma> t = Some (q, ph) \<and> rq_request_id q = i)"
    by (auto simp: in_progress_def requests_of_def)
  then have a: "map_of (wd_active (ws_dispatcher \<sigma>)) i \<noteq> None \<longleftrightarrow> (\<exists>t q ph. ws_calls \<sigma> t = Some (q, ph) \<and> rq_request_id q = i)"
    using calls_invD(3) [OF worker_run_inv [OF assms(1)], of i] by simp
  show ?thesis
    using assms(2)
  proof (cases rule: dispatcher_cancel_cases)
    case absent
    then show ?thesis using a by auto
  next
    case (found handler)
    then show ?thesis using a by auto
  qed
qed

text \<open>
  Shutdown is final. Once the dispatcher is closed no call begins any more, the handlers of the calls still in
  progress have been asked to cancel, and the resources have been closed once each, in reverse order, however often it
  is closed.
\<close>

theorem shutdown_is_final:
  assumes "worker_run h \<sigma>"
  shows "wd_released (ws_dispatcher \<sigma>) = (if Closes \<in> set h then rev (wd_resources (ws_dispatcher \<sigma>)) else []) \<and>
    (Closes \<in> set h \<longrightarrow>
      (\<forall>t q. Begins t q \<notin> set (takeWhile (\<lambda>e. e \<noteq> Closes) h)) \<and>
      (\<forall>m x d. exchange_begin m (ws_dispatcher \<sigma>) \<noteq> (Inr (Inr x), d)) \<and>
      (\<forall>t q ph. ws_calls \<sigma> t = Some (q, ph) \<longrightarrow>
         (\<exists>handler. (handler, rq_request_id q) \<in> set (wd_cancels (ws_dispatcher \<sigma>)))))"
proof -
  note S = worker_run_shutdown [OF assms, unfolded shutdown_inv_def]
  have "\<exists>handler. (handler, rq_request_id q) \<in> set (wd_cancels (ws_dispatcher \<sigma>))"
    if "Closes \<in> set h" "ws_calls \<sigma> t = Some (q, ph)" for t q ph
  proof -
    have "in_progress (rq_request_id q) (requests_of \<sigma>)" using that(2) by (auto simp: in_progress_def requests_of_def)
    then obtain handler where "map_of (wd_active (ws_dispatcher \<sigma>)) (rq_request_id q) = Some handler"
      using calls_invD(3) [OF worker_run_inv [OF assms]] by blast
    then have "(rq_request_id q, handler) \<in> set (wd_active (ws_dispatcher \<sigma>))" by (rule map_of_SomeD)
    then show ?thesis using S that(1) by blast
  qed
  moreover have "exchange_begin m (ws_dispatcher \<sigma>) \<noteq> (Inr (Inr x), d)" if "Closes \<in> set h" for m x d
    using S that by (auto simp: exchange_begin_def split: request_message.splits option.splits)
  ultimately show ?thesis using S by blast
qed

text \<open>
  The tables agree. The worker serves exactly the tools the policy registers other than the two power tools, which
  only the privileged helper serves; so the dispatcher of a worker can always be built and never answers a registered worker
  tool with an unsupported operation.
\<close>

theorem worker_serves_registered_tools:
  "set completed_worker_operations = set tool_names - {''system_reboot'', ''system_shutdown''} \<and>
   fst ` set worker_operations = set completed_worker_operations \<and> distinct (map fst worker_operations) \<and>
   isOk (make_dispatcher (map (\<lambda>(n, op). (n, router)) worker_operations) resources) \<and>
   (\<forall>n \<in> set tool_names - {''system_reboot'', ''system_shutdown''}.
      map_of (map (\<lambda>(n, op). (n, router)) worker_operations) n = Some router)"
proof -
  have names: "map fst worker_operations = filter (\<lambda>n. n \<notin> {''system_reboot'', ''system_shutdown''}) tool_names"
    by (simp add: worker_operations_def tool_names_def)
  have eq: "set completed_worker_operations = set tool_names - {''system_reboot'', ''system_shutdown''}"
    by (auto simp: completed_worker_operations_def tool_names_def)
  have dist: "distinct tool_names" by (simp add: tool_names_def)
  have fst: "fst ` set worker_operations = set tool_names - {''system_reboot'', ''system_shutdown''}"
    unfolding set_map [symmetric] names by auto
  have ok: "list_all (\<lambda>kv. fst kv \<in> set completed_worker_operations) (map (\<lambda>(n, op). (n, router)) worker_operations)"
    unfolding list_all_iff eq fst [symmetric] by (auto intro: image_eqI [rotated])
  have "map_of (map (\<lambda>(n, op). (n, router)) xs) n = Some router" if "n \<in> fst ` set xs" for n and xs :: "(string \<times> worker_operation) list"
    using that by (induction xs) auto
  then show ?thesis using eq fst ok names dist by (simp add: make_dispatcher_def)
qed

text \<open>
  Two exchanges with the same identifier at the same time: when the first ends, the second is still running but can no
  longer be cancelled.
\<close>

lemma overlapping_exchange_loses_cancellation:
  assumes "exchange_begin (WorkerRequest q) d = (Inr (Inr x), d1)" "exchange_begin (WorkerRequest q) d1 = (Inr (Inr y), d2)"
  shows "dispatcher_cancel (rq_request_id q) (exchange_finish (rq_request_id q) d2) =
    (False, exchange_finish (rq_request_id q) d2)"
  by (simp add: dispatcher_cancel_def exchange_finish_def delete_conv' del: delete_conv)

section \<open>A concrete run\<close>

definition probe_request :: ipc_request where
  "probe_request = \<lparr>rq_request_id = 7, rq_operation = ''status'', rq_payload = [], rq_timeout_ms = 5000\<rparr>"

definition sample_dispatcher :: "(nat, nat) worker_dispatcher" where
  "sample_dispatcher =
     \<lparr>wd_handlers = [(''status'', 1)], wd_resources = [4, 5], wd_active = [], wd_cancelled = {}, wd_closed = False,
      wd_cancels = [], wd_released = []\<rparr>"

definition cancelled_dispatcher :: "(nat, nat) worker_dispatcher" where
  "cancelled_dispatcher =
     sample_dispatcher\<lparr>wd_active := [(7, 1)], wd_cancelled := {7}, wd_cancels := [(1, 7)]\<rparr>"

lemma sample_begun:
  "worker_run [Begins 0 probe_request]
     \<lparr>ws_dispatcher = sample_dispatcher\<lparr>wd_active := [(7, 1)]\<rparr>, ws_calls = [0 \<mapsto> (probe_request, HandlerRunning)]\<rparr>"
proof -
  have "worker_run [] \<lparr>ws_dispatcher = sample_dispatcher, ws_calls = Map.empty\<rparr>"
    by (rule worker_run.init [where handlers = "[(''status'', 1)]" and resources = "[4, 5]"])
      (simp add: make_dispatcher_def sample_dispatcher_def completed_worker_operations_def)
  from worker_run.begins [OF this, of 0 probe_request 1 "sample_dispatcher\<lparr>wd_active := [(7, 1)]\<rparr>"]
  show ?thesis by (simp add: exchange_begin_def sample_dispatcher_def probe_request_def)
qed

lemma sample_cancelled:
  "worker_run [Cancels 7 True, Begins 0 probe_request]
     \<lparr>ws_dispatcher = cancelled_dispatcher, ws_calls = [0 \<mapsto> (probe_request, HandlerRunning)]\<rparr>"
  using worker_run.cancels [OF sample_begun, of 7 True cancelled_dispatcher]
  by (simp add: dispatcher_cancel_def sample_dispatcher_def cancelled_dispatcher_def)


lemma cancel_reaches_running_call_witness:
  "\<exists>d. dispatcher_cancel 7 cancelled_dispatcher = (True, d) \<and> wd_cancels d = [(1, 7), (1, 7)]"
proof -
  obtain b d where c: "dispatcher_cancel 7 cancelled_dispatcher = (b, d)" by fastforce
  have D: "(b \<longleftrightarrow> (\<exists>t q ph. [0 \<mapsto> (probe_request, HandlerRunning)] (t :: nat) = Some (q, ph) \<and> rq_request_id q = 7)) \<and>
    (b \<longrightarrow> (\<exists>handler. map_of (wd_active cancelled_dispatcher) 7 = Some handler \<and>
       wd_cancels d = wd_cancels cancelled_dispatcher @ [(handler, 7)]))"
    using cancel_reaches_running_call [OF sample_cancelled, of 7 b d] c by simp
  have "rq_request_id probe_request = 7" by (simp add: probe_request_def)
  then have b: b using D [THEN conjunct1] by (metis fun_upd_same)
  then have "wd_cancels d = [(1, 7), (1, 7)]" using D [THEN conjunct2] by (auto simp: cancelled_dispatcher_def)
  then show ?thesis using c b by simp
qed

lemma shutdown_is_final_witness:
  "wd_released (dispatcher_close cancelled_dispatcher) = [5, 4]"
  using shutdown_is_final [OF worker_run.closes [OF sample_cancelled]]
  by (simp add: dispatcher_close_def cancelled_dispatcher_def sample_dispatcher_def)

end
