(* ===== verification/Worker_Pipe.thy ===== *)
theory Worker_Pipe
  imports Peer_Registry Acl "HOL-Library.Sublist"
begin

text \<open>
  The worker's side of the pipe (\<open>worker/pipe_server.py\<close>): a connection is accepted from a verified gateway
  only, and then a reader, one request thread and the heartbeat thread share the session. Every lock region is a step;
  what the operation dispatcher answers and whether a write succeeds are arguments of the steps. The
  lemmas show that one request runs at a time and is answered at most once, and that the heartbeats are the
  gateway's expected sequence.
\<close>

section \<open>Accepting the gateway\<close>

record worker_pipe_config =
  wpc_target_user_sid :: pystr
  wpc_registration :: worker_registration
  wpc_expected_gateway_sid :: pystr

datatype serve_outcome = ClientRejected | PeerRefused acl_error | SessionStarted worker_registration

text \<open>
  One connection of the loop: the hello is read, then the identity of the client is verified, then the registration is
  written. A hello that is not for the worker drops the connection, an identity that is not the gateway's raises.
\<close>

definition accept_gateway :: "worker_pipe_config \<Rightarrow> ipc_message \<Rightarrow> pystr \<Rightarrow> serve_outcome" where
  "accept_gateway config hello peer =
     (if hello \<noteq> GatewayHello WorkerRole then ClientRejected
      else (case require_expected_sid (wpc_expected_gateway_sid config) peer of
              Inl e \<Rightarrow> PeerRefused e
            | Inr _ \<Rightarrow> SessionStarted (wpc_registration config)))"

section \<open>The session\<close>

datatype request_phase = OperationRunning | ResponseWritten

record worker_session =
  sn_registration :: worker_registration
  sn_active :: "uuid option"
  sn_stop :: bool
  sn_reading :: bool
  sn_sequence :: nat
  sn_written :: "ipc_message list"
  sn_cancels :: "uuid list"

definition new_session :: "worker_registration \<Rightarrow> worker_session" where
  "new_session r =
     \<lparr>sn_registration = r, sn_active = None, sn_stop = False, sn_reading = True, sn_sequence = 0, sn_written = [],
      sn_cancels = []\<rparr>"

text \<open>\<open>_write\<close>: a write that fails ends the session.\<close>

definition session_write :: "ipc_message \<Rightarrow> bool \<Rightarrow> worker_session \<Rightarrow> worker_session" where
  "session_write m delivered s =
     (if delivered then s\<lparr>sn_written := sn_written s @ [m]\<rparr> else s\<lparr>sn_stop := True\<rparr>)"

definition busy_response :: "uuid \<Rightarrow> ipc_response" where
  "busy_response rid = \<lparr>rs_request_id = rid, rs_ok = False, rs_payload = None, rs_error_code = Some ''busy''\<rparr>"

text \<open>\<open>_start_request\<close>: whether a thread is started for the request.\<close>

definition start_request :: "ipc_request \<Rightarrow> bool \<Rightarrow> worker_session \<Rightarrow> bool \<times> worker_session" where
  "start_request q delivered s =
     (if sn_active s \<noteq> None then (False, session_write (ResponseMsg (busy_response (rq_request_id q))) delivered s)
      else (True, s\<lparr>sn_active := Some (rq_request_id q)\<rparr>))"

text \<open>\<open>_exchange\<close>: the answer is written, and in a later step the session is free again. \<open>None\<close> is an operation that raised.\<close>

definition write_answer :: "ipc_response option \<Rightarrow> bool \<Rightarrow> worker_session \<Rightarrow> worker_session" where
  "write_answer answer delivered s =
     (case answer of None \<Rightarrow> s | Some r \<Rightarrow> session_write (ResponseMsg r) delivered s)"

definition release_request :: "uuid \<Rightarrow> worker_session \<Rightarrow> worker_session" where
  "release_request rid s = (if sn_active s = Some rid then s\<lparr>sn_active := None\<rparr> else s)"

definition session_heartbeat :: "worker_session \<Rightarrow> worker_heartbeat" where
  "session_heartbeat s =
     \<lparr>wh_registration_id = wr_registration_id (sn_registration s), wh_sequence = int (sn_sequence s),
      wh_session_id = wr_session_id (sn_registration s), wh_username = wr_username (sn_registration s)\<rparr>"

text \<open>One round of \<open>_heartbeats\<close>; \<open>None\<close> when the loop has ended.\<close>

definition beat :: "bool \<Rightarrow> bool \<Rightarrow> worker_session \<Rightarrow> worker_session option" where
  "beat outer_stop delivered s =
     (if sn_stop s \<or> outer_stop then None
      else Some ((session_write (HeartbeatMsg (session_heartbeat s)) delivered s)\<lparr>sn_sequence := Suc (sn_sequence s)\<rparr>))"

text \<open>\<open>finally\<close> of \<open>run\<close>: stop the other threads and cancel the request in progress.\<close>

definition end_session :: "worker_session \<Rightarrow> worker_session" where
  "end_session s =
     s\<lparr>sn_stop := True, sn_reading := False,
       sn_cancels := sn_cancels s @ (case sn_active s of None \<Rightarrow> [] | Some rid \<Rightarrow> [rid])\<rparr>"

text \<open>What the reader does with a message; the flag tells whether a thread is started.\<close>

definition receive :: "ipc_message \<Rightarrow> bool \<Rightarrow> worker_session \<Rightarrow> bool \<times> worker_session" where
  "receive m delivered s =
     (case m of
        RequestMsg (WorkerRequest q) \<Rightarrow> start_request q delivered s
      | CancelMsg c \<Rightarrow> (False, s\<lparr>sn_cancels := sn_cancels s @ [cx_request_id c]\<rparr>)
      | _ \<Rightarrow> (False, end_session s))"

section \<open>Runs\<close>

datatype session_event =
    Received ipc_message bool
  | Answers uuid "ipc_response option"
  | Released uuid
  | Beats
  | SessionEnded

text \<open>
  The thread of a request is \<open>None\<close> or its request and how far it has got. The dispatcher answers a request
  with its own identifier.
\<close>

inductive session_run :: "worker_registration \<Rightarrow> session_event list \<Rightarrow> (uuid \<times> request_phase) option \<Rightarrow> worker_session \<Rightarrow> bool"
  for r :: worker_registration where
  init: "session_run r [] None (new_session r)"
| received: "session_run r h th s \<Longrightarrow> sn_reading s \<Longrightarrow> \<not> sn_stop s \<Longrightarrow> receive m delivered s = (started, s') \<Longrightarrow>
    th' = (case m of RequestMsg (WorkerRequest q) \<Rightarrow> if started then Some (rq_request_id q, OperationRunning) else th | _ \<Rightarrow> th) \<Longrightarrow>
    session_run r (Received m started # h) th' s'"
| answers: "session_run r h (Some (rid, OperationRunning)) s \<Longrightarrow>
    (\<And>a. answer = Some a \<Longrightarrow> rs_request_id a = rid) \<Longrightarrow>
    session_run r (Answers rid answer # h) (Some (rid, ResponseWritten)) (write_answer answer delivered s)"
| released: "session_run r h (Some (rid, ResponseWritten)) s \<Longrightarrow>
    session_run r (Released rid # h) None (release_request rid s)"
| beats: "session_run r h th s \<Longrightarrow> beat outer_stop delivered s = Some s' \<Longrightarrow> session_run r (Beats # h) th s'"
| ended: "session_run r h th s \<Longrightarrow> sn_reading s \<Longrightarrow> session_run r (SessionEnded # h) th (end_session s)"

definition beats_in :: "ipc_message list \<Rightarrow> worker_heartbeat list" where
  "beats_in ms = concat (map (\<lambda>m. case m of HeartbeatMsg b \<Rightarrow> [b] | _ \<Rightarrow> []) ms)"

definition responses_in :: "ipc_message list \<Rightarrow> ipc_response list" where
  "responses_in ms = concat (map (\<lambda>m. case m of ResponseMsg a \<Rightarrow> [a] | _ \<Rightarrow> []) ms)"

text \<open>How many threads the reader has started, and how many answers they have given.\<close>

definition started_requests :: "session_event list \<Rightarrow> uuid list" where
  "started_requests h =
     concat (map (\<lambda>e. case e of Received (RequestMsg (WorkerRequest q)) True \<Rightarrow> [rq_request_id q] | _ \<Rightarrow> []) h)"

definition answered_requests :: "session_event list \<Rightarrow> uuid list" where
  "answered_requests h = concat (map (\<lambda>e. case e of Answers rid _ \<Rightarrow> [rid] | _ \<Rightarrow> []) h)"

definition given_responses :: "session_event list \<Rightarrow> ipc_response list" where
  "given_responses h =
     concat (map (\<lambda>e. case e of
         Received (RequestMsg (WorkerRequest q)) False \<Rightarrow> [busy_response (rq_request_id q)]
       | Answers rid (Some a) \<Rightarrow> [a] | _ \<Rightarrow> []) h)"

lemma list_readings [simp]:
  "beats_in [] = []" "beats_in (ms @ [HeartbeatMsg b]) = beats_in ms @ [b]" "beats_in (ms @ [ResponseMsg a]) = beats_in ms"
  "responses_in [] = []" "responses_in (ms @ [HeartbeatMsg b]) = responses_in ms"
  "responses_in (ms @ [ResponseMsg a]) = responses_in ms @ [a]"
  by (simp_all add: beats_in_def responses_in_def)

lemma event_readings [simp]:
  "started_requests [] = []" "answered_requests [] = []" "given_responses [] = []"
  "started_requests (Answers i a # h) = started_requests h" "answered_requests (Answers i a # h) = i # answered_requests h"
  "given_responses (Answers i a # h) = (case a of None \<Rightarrow> [] | Some x \<Rightarrow> [x]) @ given_responses h"
  "started_requests (Received m b # h) = (case m of RequestMsg (WorkerRequest q) \<Rightarrow> if b then [rq_request_id q] else [] | _ \<Rightarrow> []) @ started_requests h"
  "answered_requests (Received m b # h) = answered_requests h"
  "given_responses (Received m b # h) =
     (case m of RequestMsg (WorkerRequest q) \<Rightarrow> if b then [] else [busy_response (rq_request_id q)] | _ \<Rightarrow> []) @ given_responses h"
  "started_requests (Released i # h) = started_requests h" "answered_requests (Released i # h) = answered_requests h"
  "given_responses (Released i # h) = given_responses h"
  "started_requests (Beats # h) = started_requests h" "answered_requests (Beats # h) = answered_requests h"
  "given_responses (Beats # h) = given_responses h"
  "started_requests (SessionEnded # h) = started_requests h" "answered_requests (SessionEnded # h) = answered_requests h"
  "given_responses (SessionEnded # h) = given_responses h"
  by (simp_all add: started_requests_def answered_requests_def given_responses_def split: ipc_message.splits request_message.splits option.splits)

definition session_inv :: "worker_registration \<Rightarrow> session_event list \<Rightarrow> (uuid \<times> request_phase) option \<Rightarrow> worker_session \<Rightarrow> bool" where
  "session_inv r h th s \<longleftrightarrow>
     sn_registration s = r \<and> sn_active s = map_option fst th \<and>
     started_requests h = (case th of Some (rid, OperationRunning) \<Rightarrow> [rid] | _ \<Rightarrow> []) @ answered_requests h \<and>
     subseq (responses_in (sn_written s)) (rev (given_responses h)) \<and>
     (\<exists>k. beats_in (sn_written s) = heartbeat_messages r 0 k \<and> (\<not> sn_stop s \<longrightarrow> k = sn_sequence s))"

lemma heartbeat_messages_snoc:
  "heartbeat_messages r i n @
     [\<lparr>wh_registration_id = wr_registration_id r, wh_sequence = i + int n, wh_session_id = wr_session_id r,
       wh_username = wr_username r\<rparr>] = heartbeat_messages r i (Suc n)"
proof (induction n arbitrary: i)
  case (Suc n)
  then show ?case using Suc [of "i + 1"] by (simp add: algebra_simps)
qed simp

lemma subseq_write:
  "subseq (responses_in (sn_written s)) g \<Longrightarrow> subseq (responses_in (sn_written (session_write (ResponseMsg a) b s))) (g @ [a])"
  by (simp add: session_write_def list_emb_prefix)

lemma session_run_inv: "session_run r h th s \<Longrightarrow> session_inv r h th s"
proof (induction rule: session_run.induct)
  case init
  then show ?case by (simp add: session_inv_def new_session_def)
next
  case (received h th s m delivered started s' th')
  show ?case
  proof (cases "\<exists>q. m = RequestMsg (WorkerRequest q)")
    case True
    then obtain q where m: "m = RequestMsg (WorkerRequest q)" by blast
    show ?thesis
    proof (cases "sn_active s")
      case None
      then have "th = None" using received.IH by (cases th) (auto simp: session_inv_def)
      then show ?thesis using received None m by (auto simp: session_inv_def receive_def start_request_def)
    next
      case (Some rid)
      then have s': "started = False" "s' = session_write (ResponseMsg (busy_response (rq_request_id q))) delivered s"
        using received.hyps(4) m by (auto simp: receive_def start_request_def)
      have "subseq (responses_in (sn_written s')) (rev (given_responses h) @ [busy_response (rq_request_id q)])"
        using received.IH unfolding s'(2) by (intro subseq_write) (simp add: session_inv_def)
      then show ?thesis using received.IH received.hyps(5) m s'
        by (auto simp: session_inv_def session_write_def)
    qed
  next
    case False
    then have "th' = th" "started = False" using received.hyps(4,5)
      by (auto simp: receive_def split: ipc_message.splits request_message.splits)
    moreover have "sn_registration s' = sn_registration s" "sn_active s' = sn_active s" "sn_written s' = sn_written s"
      "sn_sequence s' = sn_sequence s" "sn_stop s \<longrightarrow> sn_stop s'"
      using received.hyps(4) False by (auto simp: receive_def end_session_def split: ipc_message.splits request_message.splits)
    ultimately show ?thesis using received.IH received.hyps(3) False
      by (auto simp: session_inv_def split: ipc_message.splits request_message.splits)
  qed
next
  case (answers h rid s answer delivered)
  show ?case
  proof (cases answer)
    case None
    then show ?thesis using answers.IH by (auto simp: session_inv_def write_answer_def)
  next
    case (Some a)
    have "subseq (responses_in (sn_written (session_write (ResponseMsg a) delivered s))) (rev (given_responses h) @ [a])"
      using answers.IH by (intro subseq_write) (simp add: session_inv_def)
    then show ?thesis using answers.IH Some by (auto simp: session_inv_def write_answer_def session_write_def)
  qed
next
  case (released h rid s)
  then show ?case by (auto simp: session_inv_def release_request_def)
next
  case (beats h th s outer_stop delivered s')
  then have go: "\<not> sn_stop s" and
    s': "s' = (session_write (HeartbeatMsg (session_heartbeat s)) delivered s)\<lparr>sn_sequence := Suc (sn_sequence s)\<rparr>"
    by (auto simp: beat_def split: if_splits)
  have "beats_in (sn_written s) = heartbeat_messages r 0 (sn_sequence s)" "sn_registration s = r"
    using beats.IH go by (auto simp: session_inv_def)
  then have "beats_in (sn_written s) @ [session_heartbeat s] = heartbeat_messages r 0 (Suc (sn_sequence s))"
    using heartbeat_messages_snoc [of r 0 "sn_sequence s"] by (simp add: session_heartbeat_def)
  then have "\<exists>k. beats_in (sn_written s') = heartbeat_messages r 0 k \<and> (\<not> sn_stop s' \<longrightarrow> k = sn_sequence s')"
  proof (cases delivered)
    case True
    then show ?thesis using \<open>_ @ _ = _\<close>
      by (intro exI [of _ "Suc (sn_sequence s)"]) (simp add: s' session_write_def del: heartbeat_messages.simps)
  next
    case False
    then show ?thesis using beats.IH by (auto simp: session_inv_def s' session_write_def)
  qed
  then show ?case using beats.IH unfolding session_inv_def s' by (simp add: session_write_def)
next
  case (ended h th s)
  then show ?case by (auto simp: session_inv_def end_session_def)
qed

section \<open>Properties\<close>


lemma take_heartbeat_messages: "take n (heartbeat_messages r i m) = heartbeat_messages r i (min n m)"
proof (induction m arbitrary: n i)
  case (Suc m)
  then show ?case by (cases n) simp_all
qed simp

text \<open>
  A worker whose session runs stays registered. Whatever requests, answers and failures the session has seen, the
  gateway's registry accepts the heartbeats it has written, as far as they have arrived, and keeps the worker as its
  current connection as long as it is never asked more than an offline period after the last of them.
\<close>

theorem session_keeps_worker_registered:
  assumes "session_run r h th s" "beats_of calls = take n (beats_in (sn_written s))"
    and "worker_register r c p t0 reg = (Inr (), reg1)" "timely (pr_offline_after reg) t0 calls"
      "t - last_beat t0 calls < pr_offline_after reg"
  shows "\<exists>reg2. worker_current t (run_registry worker_effect calls reg1) = (Inr c, reg2) \<and>
    (\<exists>k. pr_connection reg2 = Some k \<and> pc_registration k = r \<and> pc_heartbeat_at k = last_beat t0 calls)"
proof -
  obtain k where k: "beats_in (sn_written s) = heartbeat_messages r 0 k"
    using session_run_inv [OF assms(1)] by (auto simp: session_inv_def)
  have "run_heartbeat_loop r 5 (min n k) = Inr (beats_of calls)"
    by (simp add: run_heartbeat_loop_def assms(2) k take_heartbeat_messages)
  from live_worker_stays_online [OF assms(3) this refl assms(4,5)] show ?thesis by blast
qed

text \<open>
  Between the write of an answer and the end of its thread the session still refuses: a gateway that reacts to the answer
  with its next request at once can be told that the worker is busy.
\<close>

lemma answered_session_is_still_busy:
  assumes "session_run r h (Some (rid, ResponseWritten)) s"
  shows "receive (RequestMsg (WorkerRequest q)) True s =
    (False, s\<lparr>sn_written := sn_written s @ [ResponseMsg (busy_response (rq_request_id q))]\<rparr>)"
  using session_run_inv [OF assms] by (simp add: session_inv_def receive_def start_request_def session_write_def)

section \<open>A concrete session\<close>

definition ping :: ipc_request where
  "ping = \<lparr>rq_request_id = 7, rq_operation = ''status'', rq_payload = [], rq_timeout_ms = 5000\<rparr>"

definition pong :: ipc_response where
  "pong = \<lparr>rs_request_id = 7, rs_ok = True, rs_payload = Some [], rs_error_code = None\<rparr>"

definition first_beat :: worker_heartbeat where
  "first_beat = \<lparr>wh_registration_id = 4, wh_sequence = 0, wh_session_id = 1, wh_username = [65]\<rparr>"

definition ping_session :: worker_session where
  "ping_session =
     \<lparr>sn_registration = sample_worker, sn_active = Some 7, sn_stop = False, sn_reading = True, sn_sequence = 1,
      sn_written = [HeartbeatMsg first_beat, ResponseMsg pong], sn_cancels = []\<rparr>"

lemma ping_run:
  "session_run sample_worker [Answers 7 (Some pong), Received (RequestMsg (WorkerRequest ping)) True, Beats]
     (Some (7, ResponseWritten)) ping_session"
proof -
  let ?s1 = "(new_session sample_worker)\<lparr>sn_sequence := 1, sn_written := [HeartbeatMsg first_beat]\<rparr>"
  have "session_run sample_worker [Beats] None ?s1"
    by (rule session_run.beats [OF session_run.init, where outer_stop = False and delivered = True])
      (simp add: beat_def new_session_def session_write_def session_heartbeat_def first_beat_def sample_worker_def)
  from session_run.received [OF this, where m = "RequestMsg (WorkerRequest ping)" and delivered = True and started = True
      and s' = "?s1\<lparr>sn_active := Some 7\<rparr>"]
  have "session_run sample_worker [Received (RequestMsg (WorkerRequest ping)) True, Beats]
      (Some (7, OperationRunning)) (?s1\<lparr>sn_active := Some 7\<rparr>)"
    by (simp add: receive_def start_request_def new_session_def ping_def)
  from session_run.answers [OF this, where answer = "Some pong" and delivered = True] show ?thesis
    by (simp add: write_answer_def session_write_def new_session_def ping_session_def pong_def)
qed


lemma session_keeps_worker_registered_witness:
  "\<exists>reg1 reg2. worker_register sample_worker 3 None 0 (new_registry 30) = (Inr (), reg1) \<and>
     worker_current 40 (run_registry worker_effect [(24, HeartbeatCall first_beat)] reg1) = (Inr 3, reg2)"
proof -
  obtain reg1 where reg1: "worker_register sample_worker 3 None 0 (new_registry 30) = (Inr (), reg1)"
    by (auto simp: worker_register_def new_registry_def accept_registration_def)
  have "\<exists>reg2. worker_current 40 (run_registry worker_effect [(24, HeartbeatCall first_beat)] reg1) = (Inr 3, reg2) \<and>
    (\<exists>k. pr_connection reg2 = Some k \<and> pc_registration k = sample_worker \<and>
       pc_heartbeat_at k = last_beat 0 [(24, HeartbeatCall first_beat) :: int \<times> (worker_registration, worker_heartbeat) registry_call])"
    by (rule session_keeps_worker_registered [OF ping_run _ reg1, where n = 1])
      (simp_all add: ping_session_def new_registry_def beats_in_def)
  then show ?thesis using reg1 by blast
qed

end
