(* ===== verification/Worker_Desktop.thy ===== *)
theory Worker_Desktop
  imports Py_Text "HOL-Library.AList"
begin

text \<open>
  The safety of desktop input (\<open>worker/desktop_lock.py\<close>: the persistent stop marker and the mutation gate;
  \<open>worker/emergency_hotkey.py\<close>: the message loop of the local emergency stop; \<open>worker/runtime_lifecycle.py\<close>: the
  combined stop signal; \<open>worker/session_power.py\<close> and \<open>validate_worker_session\<close> of \<open>worker/runtime.py\<close>:
  the session guards). Threads meet at the gate, so its regions are steps of a run. The lemmas show that mutations
  exclude each other, that none begins while the stop is in force, that waiting is bounded, and that losing the hotkey
  stops input or the worker.
\<close>

section \<open>The mutation gate\<close>

datatype desktop_error = EmergencyStopActiveError | DesktopBusyError

text \<open>The marker file is on disk: it outlives the process and only a local user removes it.\<close>

record desktop_gate =
  dg_marker :: bool
  dg_occupied :: bool

datatype gate_answer = GateEnters | GateWaits | GateRaises desktop_error

text \<open>The loop under the condition, once: on entry and after each wake-up.\<close>

definition gate_try :: "int \<Rightarrow> int \<Rightarrow> desktop_gate \<Rightarrow> gate_answer \<times> desktop_gate" where
  "gate_try now deadline g =
     (if dg_occupied g
      then (if dg_marker g then (GateRaises EmergencyStopActiveError, g)
            else if deadline - now \<le> 0 then (GateRaises DesktopBusyError, g)
            else (GateWaits, g))
      else if dg_marker g then (GateRaises EmergencyStopActiveError, g)
      else (GateEnters, g\<lparr>dg_occupied := True\<rparr>))"

definition gate_release :: "desktop_gate \<Rightarrow> desktop_gate" where
  "gate_release g = g\<lparr>dg_occupied := False\<rparr>"

text \<open>After \<open>validate()\<close>: \<open>None\<close> is an exception of it, which releases the gate; otherwise whether the mutation is run.\<close>

definition gate_validated :: "bool \<Rightarrow> desktop_gate \<Rightarrow> desktop_error option \<times> desktop_gate \<times> bool" where
  "gate_validated valid g =
     (if \<not> valid then (None, gate_release g, False)
      else if dg_marker g then (Some EmergencyStopActiveError, gate_release g, False)
      else (None, g, True))"

text \<open>\<open>activate_emergency_stop\<close>; the flag says whether the marker could be written.\<close>

definition activate_emergency_stop :: "bool \<Rightarrow> desktop_gate \<Rightarrow> bool \<times> desktop_gate" where
  "activate_emergency_stop writable g = (if writable then (True, g\<lparr>dg_marker := True\<rparr>) else (False, g))"

datatype gate_phase = AtGate int | Validating | Mutating

datatype gate_event =
    Arrives nat
  | Enters nat
  | Refused nat desktop_error
  | ValidationFails nat
  | Mutates nat
  | Leaves nat
  | StopActivated
  | MarkerRemoved

record gate_system =
  gs_gate :: desktop_gate
  gs_threads :: "nat \<rightharpoonup> gate_phase"

inductive gate_run :: "bool \<Rightarrow> int \<Rightarrow> gate_event list \<Rightarrow> gate_system \<Rightarrow> bool" for marker timeout where
  init: "gate_run marker timeout [] \<lparr>gs_gate = \<lparr>dg_marker = marker, dg_occupied = False\<rparr>, gs_threads = Map.empty\<rparr>"
| arrives: "gate_run marker timeout h \<sigma> \<Longrightarrow> gs_threads \<sigma> t = None \<Longrightarrow>
    gate_run marker timeout (Arrives t # h) (\<sigma>\<lparr>gs_threads := (gs_threads \<sigma>)(t \<mapsto> AtGate (now + timeout))\<rparr>)"
| enters: "gate_run marker timeout h \<sigma> \<Longrightarrow> gs_threads \<sigma> t = Some (AtGate d) \<Longrightarrow> gate_try now d (gs_gate \<sigma>) = (GateEnters, g) \<Longrightarrow>
    gate_run marker timeout (Enters t # h) \<lparr>gs_gate = g, gs_threads = (gs_threads \<sigma>)(t \<mapsto> Validating)\<rparr>"
| refused: "gate_run marker timeout h \<sigma> \<Longrightarrow> gs_threads \<sigma> t = Some (AtGate d) \<Longrightarrow>
    gate_try now d (gs_gate \<sigma>) = (GateRaises e, g) \<Longrightarrow>
    gate_run marker timeout (Refused t e # h) \<lparr>gs_gate = g, gs_threads = map_del (gs_threads \<sigma>) t\<rparr>"
| invalid: "gate_run marker timeout h \<sigma> \<Longrightarrow> gs_threads \<sigma> t = Some Validating \<Longrightarrow>
    gate_validated valid (gs_gate \<sigma>) = (e, g, False) \<Longrightarrow>
    gate_run marker timeout (ValidationFails t # h) \<lparr>gs_gate = g, gs_threads = map_del (gs_threads \<sigma>) t\<rparr>"
| mutates: "gate_run marker timeout h \<sigma> \<Longrightarrow> gs_threads \<sigma> t = Some Validating \<Longrightarrow>
    gate_validated True (gs_gate \<sigma>) = (e, g, True) \<Longrightarrow>
    gate_run marker timeout (Mutates t # h) \<lparr>gs_gate = g, gs_threads = (gs_threads \<sigma>)(t \<mapsto> Mutating)\<rparr>"
| leaves: "gate_run marker timeout h \<sigma> \<Longrightarrow> gs_threads \<sigma> t = Some Mutating \<Longrightarrow>
    gate_run marker timeout (Leaves t # h) \<lparr>gs_gate = gate_release (gs_gate \<sigma>), gs_threads = map_del (gs_threads \<sigma>) t\<rparr>"
| stop: "gate_run marker timeout h \<sigma> \<Longrightarrow> activate_emergency_stop True (gs_gate \<sigma>) = (True, g) \<Longrightarrow>
    gate_run marker timeout (StopActivated # h) (\<sigma>\<lparr>gs_gate := g\<rparr>)"
| removed: "gate_run marker timeout h \<sigma> \<Longrightarrow>
    gate_run marker timeout (MarkerRemoved # h) (\<sigma>\<lparr>gs_gate := (gs_gate \<sigma>)\<lparr>dg_marker := False\<rparr>\<rparr>)"

text \<open>Whether the stop is in force after a history.\<close>

fun stopped :: "bool \<Rightarrow> gate_event list \<Rightarrow> bool" where
  "stopped b [] = b"
| "stopped b (StopActivated # h) = True"
| "stopped b (MarkerRemoved # h) = False"
| "stopped b (_ # h) = stopped b h"

text \<open>The threads that hold the gate.\<close>

definition holds :: "(nat \<rightharpoonup> gate_phase) \<Rightarrow> nat \<Rightarrow> bool" where
  "holds threads t \<longleftrightarrow> threads t = Some Validating \<or> threads t = Some Mutating"

lemma holds_same: "\<not> holds threads t \<Longrightarrow> p = None \<or> (\<exists>d. p = Some (AtGate d)) \<Longrightarrow> holds (threads(t := p)) = holds threads"
  by (auto simp: holds_def fun_eq_iff)

lemma holds_upd: "p \<in> {Validating, Mutating} \<Longrightarrow> holds (threads(t \<mapsto> p)) u = (u = t \<or> holds threads u)"
  by (auto simp: holds_def)

lemma holds_del: "holds (map_del threads t) u = (u \<noteq> t \<and> holds threads u)"
  by (auto simp: holds_def)

definition gate_inv :: "bool \<Rightarrow> gate_event list \<Rightarrow> gate_system \<Rightarrow> bool" where
  "gate_inv marker h \<sigma> \<longleftrightarrow>
     (\<forall>t u. holds (gs_threads \<sigma>) t \<longrightarrow> holds (gs_threads \<sigma>) u \<longrightarrow> t = u) \<and>
     (dg_occupied (gs_gate \<sigma>) \<longleftrightarrow> (\<exists>t. holds (gs_threads \<sigma>) t)) \<and>
     dg_marker (gs_gate \<sigma>) = stopped marker h \<and>
     (\<forall>h1 h2 t. h = h1 @ Mutates t # h2 \<longrightarrow> \<not> stopped marker h2)"

lemma gate_inv_step:
  assumes "gate_inv marker h \<sigma>"
    and "\<forall>t u. holds threads t \<longrightarrow> holds threads u \<longrightarrow> t = u" "dg_occupied g \<longleftrightarrow> (\<exists>t. holds threads t)"
      "dg_marker g = stopped marker (e # h)" "(\<exists>t. e = Mutates t) \<Longrightarrow> \<not> stopped marker h"
  shows "gate_inv marker (e # h) \<lparr>gs_gate = g, gs_threads = threads\<rparr>"
  using assms unfolding gate_inv_def by (auto simp: Cons_eq_append_conv)

lemma gate_run_inv: "gate_run marker timeout h \<sigma> \<Longrightarrow> gate_inv marker h \<sigma>"
proof (induction rule: gate_run.induct)
  case init
  then show ?case by (simp add: gate_inv_def holds_def)
next
  case (arrives h \<sigma> t now)
  have "holds ((gs_threads \<sigma>)(t \<mapsto> AtGate (now + timeout))) = holds (gs_threads \<sigma>)"
    using arrives.hyps(2) by (intro holds_same) (simp_all add: holds_def)
  then have "gate_inv marker (Arrives t # h) \<lparr>gs_gate = gs_gate \<sigma>, gs_threads = (gs_threads \<sigma>)(t \<mapsto> AtGate (now + timeout))\<rparr>"
    using arrives.IH by (intro gate_inv_step [OF arrives.IH]) (auto simp: gate_inv_def)
  then show ?case by (cases \<sigma>) simp
next
  case (enters h \<sigma> t d now g)
  then have "\<not> dg_occupied (gs_gate \<sigma>)" "g = (gs_gate \<sigma>)\<lparr>dg_occupied := True\<rparr>"
    by (auto simp: gate_try_def split: if_splits)
  then show ?case using enters.IH by (intro gate_inv_step [OF enters.IH]) (auto simp: gate_inv_def holds_upd simp del: fun_upd_apply)
next
  case (refused h \<sigma> t d now e g)
  have "holds (map_del (gs_threads \<sigma>) t) = holds (gs_threads \<sigma>)"
    using refused.hyps(2) unfolding map_del_def by (intro holds_same) (simp_all add: holds_def)
  moreover have "g = gs_gate \<sigma>" using refused.hyps(3) by (auto simp: gate_try_def split: if_splits)
  ultimately show ?case using refused.IH by (intro gate_inv_step [OF refused.IH]) (auto simp: gate_inv_def)
next
  case (invalid h \<sigma> t valid e g)
  then have "g = gate_release (gs_gate \<sigma>)" by (auto simp: gate_validated_def split: if_splits)
  moreover have "holds (gs_threads \<sigma>) t" using invalid.hyps(2) by (simp add: holds_def)
  ultimately show ?case using invalid.IH
    by (intro gate_inv_step [OF invalid.IH]) (auto simp: gate_inv_def gate_release_def holds_del)
next
  case (mutates h \<sigma> t e g)
  then have "g = gs_gate \<sigma>" "\<not> dg_marker (gs_gate \<sigma>)" by (auto simp: gate_validated_def split: if_splits)
  moreover have "holds (gs_threads \<sigma>) t" using mutates.hyps(2) by (simp add: holds_def)
  ultimately show ?case using mutates.IH
    by (intro gate_inv_step [OF mutates.IH]) (auto simp: gate_inv_def holds_upd simp del: fun_upd_apply)
next
  case (leaves h \<sigma> t)
  have "holds (gs_threads \<sigma>) t" using leaves.hyps(2) by (simp add: holds_def)
  then show ?case using leaves.IH
    by (intro gate_inv_step [OF leaves.IH]) (auto simp: gate_inv_def gate_release_def holds_del)
next
  case (stop h \<sigma> g)
  then have "g = (gs_gate \<sigma>)\<lparr>dg_marker := True\<rparr>" by (simp add: activate_emergency_stop_def)
  then have "gate_inv marker (StopActivated # h) \<lparr>gs_gate = g, gs_threads = gs_threads \<sigma>\<rparr>"
    using stop.IH by (intro gate_inv_step [OF stop.IH]) (auto simp: gate_inv_def)
  then show ?case by (cases \<sigma>) simp
next
  case (removed h \<sigma>)
  then have "gate_inv marker (MarkerRemoved # h) \<lparr>gs_gate = (gs_gate \<sigma>)\<lparr>dg_marker := False\<rparr>, gs_threads = gs_threads \<sigma>\<rparr>"
    by (intro gate_inv_step [OF removed.IH]) (auto simp: gate_inv_def)
  then show ?case by (cases \<sigma>) simp
qed

section \<open>The emergency hotkey\<close>

definition wm_hotkey :: int where "wm_hotkey = 0x0312"
definition wm_quit :: int where "wm_quit = 0x0012"
definition hotkey_id :: int where "hotkey_id = 0x4842"

record hotkey_message =
  hm_message_id :: int
  hm_hotkey_id :: "int option"

datatype hotkey_error = HotkeyOsError | HotkeyValueError

text \<open>
  An activation first persists the marker and then records the audit event; either may raise. \<open>act_writable\<close> and
  \<open>act_audited\<close> say whether they do.
\<close>

record activation =
  act_writable :: bool
  act_audited :: bool

definition activate_local_emergency_stop :: "activation \<Rightarrow> desktop_gate \<Rightarrow> hotkey_error option \<times> desktop_gate" where
  "activate_local_emergency_stop a g =
     (case activate_emergency_stop (act_writable a) g of
        (False, g1) \<Rightarrow> (Some HotkeyOsError, g1)
      | (True, g1) \<Rightarrow> (if act_audited a then None else Some HotkeyValueError, g1))"

text \<open>
  The loop over what \<open>next_message\<close> returns or raises; each hotkey message carries the outcome of its activation. The
  result is the error that ended the loop, if one did.
\<close>

fun hotkey_loop :: "(hotkey_error + hotkey_message \<times> activation) list \<Rightarrow> desktop_gate \<Rightarrow> hotkey_error option \<times> desktop_gate" where
  "hotkey_loop [] g = (None, g)"
| "hotkey_loop (Inl e # ms) g = (Some e, g)"
| "hotkey_loop (Inr (m, a) # ms) g =
     (if hm_message_id m = wm_quit then (None, g)
      else if hm_message_id m = wm_hotkey \<and> hm_hotkey_id m = Some hotkey_id
      then (case activate_local_emergency_stop a g of
              (Some e, g1) \<Rightarrow> (Some e, g1)
            | (None, g1) \<Rightarrow> hotkey_loop ms g1)
      else hotkey_loop ms g)"

record hotkey_end =
  hk_error :: "hotkey_error option"
  hk_failed :: bool
  hk_unregistered :: bool

text \<open>
  \<open>_run\<close>: the registration, the loop, and after a caught error the stop once more (\<open>last_writable\<close> is whether that
  write succeeds) before the failure is announced.
\<close>

definition hotkey_run ::
  "hotkey_error option \<Rightarrow> (hotkey_error + hotkey_message \<times> activation) list \<Rightarrow> bool \<Rightarrow> desktop_gate \<Rightarrow> hotkey_end \<times> desktop_gate" where
  "hotkey_run registration messages last_writable g =
     (case registration of
        Some e \<Rightarrow> (\<lparr>hk_error = Some e, hk_failed = True, hk_unregistered = False\<rparr>, g)
      | None \<Rightarrow>
          (case hotkey_loop messages g of
             (None, g1) \<Rightarrow> (\<lparr>hk_error = None, hk_failed = False, hk_unregistered = True\<rparr>, g1)
           | (Some e, g1) \<Rightarrow>
               (\<lparr>hk_error = Some e, hk_failed = True, hk_unregistered = True\<rparr>,
                snd (activate_emergency_stop last_writable g1))))"

definition hotkey_pressed :: "(hotkey_error + hotkey_message \<times> activation) \<Rightarrow> bool" where
  "hotkey_pressed x \<longleftrightarrow> (case x of Inl _ \<Rightarrow> False
     | Inr (m, a) \<Rightarrow> hm_message_id m = wm_hotkey \<and> hm_hotkey_id m = Some hotkey_id)"

definition quits :: "(hotkey_error + hotkey_message \<times> activation) \<Rightarrow> bool" where
  "quits x \<longleftrightarrow> (case x of Inl _ \<Rightarrow> True | Inr (m, a) \<Rightarrow> hm_message_id m = wm_quit)"

text \<open>The combined stop signal of the worker.\<close>

definition worker_stop_set :: "bool \<Rightarrow> hotkey_end option \<Rightarrow> bool" where
  "worker_stop_set stop hotkey \<longleftrightarrow> stop \<or> (case hotkey of None \<Rightarrow> False | Some k \<Rightarrow> hk_failed k)"

lemma hotkey_loop_effect:
  assumes "hotkey_loop ms g = (e, g')"
  shows "(dg_marker g \<longrightarrow> dg_marker g') \<and> dg_occupied g' = dg_occupied g \<and>
    ((\<exists>x \<in> set (takeWhile (\<lambda>x. \<not> quits x) ms). hotkey_pressed x) \<longrightarrow> dg_marker g' \<or> e \<noteq> None) \<and>
    ((\<exists>x. x \<in> set ms \<and> isl x) \<and> (\<forall>x \<in> set ms. quits x \<longrightarrow> isl x) \<longrightarrow> e \<noteq> None)"
  using assms
proof (induction ms g rule: hotkey_loop.induct)
  case (3 m a ms g)
  show ?case
  proof (cases "hm_message_id m = wm_quit")
    case True
    then show ?thesis using 3(3) by (auto simp: quits_def)
  next
    case go: False
    show ?thesis
    proof (cases "hm_message_id m = wm_hotkey \<and> hm_hotkey_id m = Some hotkey_id")
      case True
      show ?thesis
      proof (cases "activate_local_emergency_stop a g")
        case (Pair x g1)
        have g1: "x = None \<Longrightarrow> dg_marker g1" "dg_marker g \<Longrightarrow> dg_marker g1" "dg_occupied g1 = dg_occupied g"
          using Pair by (auto simp: activate_local_emergency_stop_def activate_emergency_stop_def split: if_splits)
        show ?thesis
        proof (cases x)
          case None
          then have "hotkey_loop ms g1 = (e, g')" using 3(3) go True Pair by simp
          then show ?thesis using 3(1) [OF go True Pair [symmetric] None] g1 None
            by (auto simp: quits_def hotkey_pressed_def)
        next
          case (Some y)
          then show ?thesis using 3(3) go True Pair g1 by auto
        qed
      qed
    next
      case False
      then show ?thesis using 3 go by (auto simp: quits_def hotkey_pressed_def)
    qed
  qed
qed (auto simp: quits_def)

section \<open>Session guards\<close>

datatype worker_session_error = SessionZero | ElevatedToken | SessionNotActive | ServiceIdentity

record os_session =
  os_session_id :: int
  os_username :: pystr
  os_sid :: pystr
  os_elevated :: bool
  os_active :: bool

definition rejected_sids :: "pystr list" where
  "rejected_sids = [ustr ''S-1-5-18'', ustr ''S-1-5-19'', ustr ''S-1-5-20'']"

definition validate_worker_session :: "os_session \<Rightarrow> worker_session_error + os_session" where
  "validate_worker_session s =
     (if os_session_id s = 0 then Inl SessionZero
      else if os_elevated s then Inl ElevatedToken
      else if \<not> os_active s then Inl SessionNotActive
      else if os_username s = [] \<or> os_sid s \<in> set rejected_sids then Inl ServiceIdentity
      else Inr s)"

datatype session_power_operation = SystemLock | SystemSleep

datatype session_power_error = NoninteractiveWorker | ElevatedWorker | WrongSession | SessionPowerApiError session_power_operation

definition require_interactive_session :: "os_session \<Rightarrow> int \<Rightarrow> session_power_error + unit" where
  "require_interactive_session s expected =
     (if \<not> os_active s \<or> os_session_id s = 0 then Inl NoninteractiveWorker
      else if os_elevated s then Inl ElevatedWorker
      else if os_session_id s \<noteq> expected then Inl WrongSession
      else Inr ())"

text \<open>The operation, and the Win32 calls it makes; \<open>accepts\<close> is what the call returns.\<close>

definition session_power ::
  "os_session \<Rightarrow> int \<Rightarrow> bool \<Rightarrow> session_power_operation \<Rightarrow> session_power_operation list \<Rightarrow>
   (session_power_error + session_power_operation) \<times> session_power_operation list" where
  "session_power s expected accepts op calls =
     (case require_interactive_session s expected of
        Inl e \<Rightarrow> (Inl e, calls)
      | Inr _ \<Rightarrow> ((if accepts then Inr op else Inl (SessionPowerApiError op)), calls @ [op]))"

section \<open>Properties\<close>



text \<open>
  Losing the hotkey fails closed. However the message loop ends and whichever writes fail, after the hotkey was
  pressed the stop is in force or the worker is told to stop; an error of the registration or of the loop always tells
  the worker to stop; and the loop never lifts the stop.
\<close>

theorem hotkey_fails_closed:
  assumes "hotkey_run registration messages last_writable g = (k, g')"
  shows "(dg_marker g \<longrightarrow> dg_marker g') \<and>
    (registration = None \<and> (\<exists>x \<in> set (takeWhile (\<lambda>x. \<not> quits x) messages). hotkey_pressed x) \<longrightarrow>
       dg_marker g' \<or> worker_stop_set stop (Some k)) \<and>
    (registration \<noteq> None \<or> (\<exists>x \<in> set messages. isl x) \<and> (\<forall>x \<in> set messages. quits x \<longrightarrow> isl x) \<longrightarrow>
       worker_stop_set stop (Some k)) \<and>
    (hk_failed k \<and> registration = None \<and> last_writable \<longrightarrow> dg_marker g')"
proof (cases registration)
  case (Some e)
  then show ?thesis using assms by (auto simp: hotkey_run_def worker_stop_set_def)
next
  case None
  obtain e g1 where l: "hotkey_loop messages g = (e, g1)" by fastforce
  show ?thesis
    using assms None l hotkey_loop_effect [OF l]
    by (cases e) (auto simp: hotkey_run_def worker_stop_set_def activate_emergency_stop_def split: if_splits)
qed

text \<open>
  A worker that was accepted is interactive, and power only moves inside it. A session that passes the start-up check is
  an active, unprivileged user session; a power call reaches Win32 only in an active session that is not session zero, not
  elevated and the expected one, once per operation, and such a session built from a validated one is never refused.
\<close>

theorem session_power_is_guarded:
  assumes "session_power s expected accepts op calls = (res, calls')"
  shows "(calls' \<noteq> calls \<longrightarrow> calls' = calls @ [op] \<and> os_active s \<and> os_session_id s \<noteq> 0 \<and> \<not> os_elevated s \<and>
       os_session_id s = expected) \<and>
    (res = Inr op \<longrightarrow> accepts \<and> calls' = calls @ [op]) \<and>
    (validate_worker_session s = Inr s \<and> expected = os_session_id s \<longrightarrow>
       calls' = calls @ [op] \<and> res = (if accepts then Inr op else Inl (SessionPowerApiError op)))"
  using assms by (auto simp: session_power_def require_interactive_session_def validate_worker_session_def split: if_splits)

section \<open>Concrete runs\<close>

lemma sample_mutation:
  "gate_run False 5 [Mutates 1, Enters 1, Arrives 1]
     \<lparr>gs_gate = \<lparr>dg_marker = False, dg_occupied = True\<rparr>, gs_threads = [1 \<mapsto> Mutating]\<rparr>"
proof -
  have "gate_run False 5 [Arrives 1] \<lparr>gs_gate = \<lparr>dg_marker = False, dg_occupied = False\<rparr>, gs_threads = [1 \<mapsto> AtGate 15]\<rparr>"
    using gate_run.arrives [OF gate_run.init, where t = 1 and marker = False and timeout = 5 and now = 10] by simp
  from gate_run.enters [OF this, where t = 1 and d = 15 and now = 10 and g = "\<lparr>dg_marker = False, dg_occupied = True\<rparr>"]
  have "gate_run False 5 [Enters 1, Arrives 1]
      \<lparr>gs_gate = \<lparr>dg_marker = False, dg_occupied = True\<rparr>, gs_threads = [1 \<mapsto> Validating]\<rparr>"
    by (simp add: gate_try_def)
  from gate_run.mutates [OF this, where t = 1 and e = None and g = "\<lparr>dg_marker = False, dg_occupied = True\<rparr>"] show ?thesis
    by (simp add: gate_validated_def)
qed

lemma sample_waiting:
  "gate_run False 5 [Arrives 2, Mutates 1, Enters 1, Arrives 1]
     \<lparr>gs_gate = \<lparr>dg_marker = False, dg_occupied = True\<rparr>, gs_threads = [1 \<mapsto> Mutating, 2 \<mapsto> AtGate 16]\<rparr>"
  using gate_run.arrives [OF sample_mutation, where t = 2 and now = 11] by simp



definition hotkey_press :: hotkey_message where
  "hotkey_press = \<lparr>hm_message_id = wm_hotkey, hm_hotkey_id = Some hotkey_id\<rparr>"

lemma hotkey_fails_closed_witness:
  "\<exists>k g'. hotkey_run None [Inr (hotkey_press, \<lparr>act_writable = True, act_audited = False\<rparr>)] True
       \<lparr>dg_marker = False, dg_occupied = False\<rparr> = (k, g') \<and> dg_marker g' \<and> hk_failed k"
proof -
  obtain k g' where r: "hotkey_run None [Inr (hotkey_press, \<lparr>act_writable = True, act_audited = False\<rparr>)] True
       \<lparr>dg_marker = False, dg_occupied = False\<rparr> = (k, g')" by fastforce
  then have "hk_failed k"
    by (auto simp: hotkey_run_def activate_local_emergency_stop_def activate_emergency_stop_def hotkey_press_def
        wm_hotkey_def wm_quit_def)
  then show ?thesis using r hotkey_fails_closed [OF r] by blast
qed

definition user_session :: os_session where
  "user_session = \<lparr>os_session_id = 1, os_username = [65], os_sid = [66], os_elevated = False, os_active = True\<rparr>"

lemma session_power_is_guarded_witness:
  "\<exists>res. session_power user_session 1 True SystemLock [] = (res, [SystemLock]) \<and> validate_worker_session user_session = Inr user_session"
proof -
  have "os_sid user_session \<notin> set rejected_sids" by (simp add: user_session_def rejected_sids_def)
  then have v: "validate_worker_session user_session = Inr user_session"
    by (simp add: validate_worker_session_def) (simp add: user_session_def)
  obtain res calls where r: "session_power user_session 1 True SystemLock [] = (res, calls)" by (meson surj_pair)
  have "1 = os_session_id user_session" by (simp add: user_session_def)
  then have "calls = [] @ [SystemLock]"
    using session_power_is_guarded [OF r, THEN conjunct2, THEN conjunct2] v by blast
  then show ?thesis using r v by simp
qed

end
