(* ===== verification/Local_Approval.thy ===== *)
theory Local_Approval
  imports Approvals Ipc_Protocol
begin

text \<open>
  Approval by a dialog on the local desktop (\<open>ipc/local_approval.py\<close>: the wire models;
  \<open>worker/local_approval_handler.py\<close>: the handler of one dialog at a time; \<open>worker/local_approval.py\<close> and
  \<open>worker/local_approval_types.py\<close>: the surface). The desktop, the clock and the person at the dialog are arguments of the
  steps. The lemmas show that only an explicit yes, in time and not cancelled, is reported as an approval.
\<close>

section \<open>Wire models\<close>

datatype power_action = RebootAction | ShutdownAction

record approval_summary =
  as_action :: power_action
  as_delay_seconds :: int
  as_reason :: pystr

record wire_request =
  lw_request_id :: uuid
  lw_approval_id :: uuid
  lw_operation_id :: uuid
  lw_tool_name :: string
  lw_payload_digest :: pystr
  lw_expires_at :: datetime
  lw_summary :: approval_summary

record wire_result =
  lr_request_id :: uuid
  lr_approval_id :: uuid
  lr_operation_id :: uuid
  lr_tool_name :: string
  lr_action :: power_action
  lr_payload_digest :: pystr
  lr_expires_at :: datetime
  lr_approved :: bool

fun tool_by_action :: "power_action \<Rightarrow> string" where
  "tool_by_action RebootAction = ''system_reboot''"
| "tool_by_action ShutdownAction = ''system_shutdown''"

fun action_value :: "power_action \<Rightarrow> string" where
  "action_value RebootAction = ''reboot''"
| "action_value ShutdownAction = ''shutdown''"

datatype wire_error =
    WireFieldError
  | LocalApprovalWireExpiryError
  | LocalApprovalWireBindingError string power_action

text \<open>The schema library's readings of the two text formats, and how it prints a time stamp.\<close>

record wire_codec =
  wc_uuid :: "pystr \<Rightarrow> uuid option"
  wc_datetime :: "pystr \<Rightarrow> datetime option"
  wc_uuid_text :: "uuid \<Rightarrow> pystr"
  wc_datetime_text :: "datetime \<Rightarrow> pystr"

definition closed_fields :: "string list \<Rightarrow> (pystr \<times> json) list \<Rightarrow> bool" where
  "closed_fields names payload \<longleftrightarrow> list_all (\<lambda>kv. fst kv \<in> set (map ustr names)) payload"

definition text_field :: "string \<Rightarrow> (pystr \<times> json) list \<Rightarrow> pystr option" where
  "text_field name payload = (case map_of payload (ustr name) of Some (JStr s) \<Rightarrow> Some s | _ \<Rightarrow> None)"

definition int_field :: "string \<Rightarrow> (pystr \<times> json) list \<Rightarrow> int option" where
  "int_field name payload = (case map_of payload (ustr name) of Some (JInt i) \<Rightarrow> Some i | _ \<Rightarrow> None)"

definition action_of :: "pystr \<Rightarrow> power_action option" where
  "action_of s = (if s = ustr ''reboot'' then Some RebootAction else if s = ustr ''shutdown'' then Some ShutdownAction else None)"

definition power_tool_of :: "pystr \<Rightarrow> string option" where
  "power_tool_of s =
     (if s = ustr ''system_reboot'' then Some ''system_reboot''
      else if s = ustr ''system_shutdown'' then Some ''system_shutdown'' else None)"

definition parse_summary :: "json \<Rightarrow> approval_summary option" where
  "parse_summary v = (case v of
     JObj members \<Rightarrow>
       if \<not> closed_fields [''action'', ''delay_seconds'', ''reason''] members then None
       else (case (Option.bind (text_field ''action'' members) action_of, int_field ''delay_seconds'' members,
                   text_field ''reason'' members) of
               (Some action, Some delay, Some reason) \<Rightarrow>
                 if 0 \<le> delay \<and> delay \<le> 300 \<and> text_ok reason 200
                 then Some \<lparr>as_action = action, as_delay_seconds = delay, as_reason = reason\<rparr> else None
             | _ \<Rightarrow> None)
   | _ \<Rightarrow> None)"

definition require_aware_expiry :: "datetime \<Rightarrow> wire_error + datetime" where
  "require_aware_expiry t = (if tz_missing t then Inl LocalApprovalWireExpiryError else Inr t)"

definition require_matching_tool_and_action :: "wire_request \<Rightarrow> wire_error + wire_request" where
  "require_matching_tool_and_action w =
     (if lw_tool_name w \<noteq> tool_by_action (as_action (lw_summary w))
      then Inl (LocalApprovalWireBindingError (lw_tool_name w) (as_action (lw_summary w))) else Inr w)"

definition wire_fields :: "string list" where
  "wire_fields =
     [''request_id'', ''approval_id'', ''operation_id'', ''tool_name'', ''payload_digest'', ''expires_at'', ''summary'']"

text \<open>The strict model: exactly the declared fields, each of its type, then the validators.\<close>

definition parse_wire_request :: "wire_codec \<Rightarrow> (pystr \<times> json) list \<Rightarrow> wire_error + wire_request" where
  "parse_wire_request codec payload =
     (if \<not> closed_fields wire_fields payload then Inl WireFieldError
      else (case (Option.bind (text_field ''request_id'' payload) (wc_uuid codec),
                  Option.bind (text_field ''approval_id'' payload) (wc_uuid codec),
                  Option.bind (text_field ''operation_id'' payload) (wc_uuid codec),
                  Option.bind (text_field ''tool_name'' payload) power_tool_of,
                  text_field ''payload_digest'' payload,
                  Option.bind (text_field ''expires_at'' payload) (wc_datetime codec),
                  Option.bind (map_of payload (ustr ''summary'')) parse_summary) of
              (Some rid, Some aid, Some oid, Some tool, Some digest, Some expires, Some summary) \<Rightarrow>
                if \<not> sha256_digest_ok digest then Inl WireFieldError
                else bindR (require_aware_expiry expires) (\<lambda>e.
                     require_matching_tool_and_action
                       \<lparr>lw_request_id = rid, lw_approval_id = aid, lw_operation_id = oid, lw_tool_name = tool,
                        lw_payload_digest = digest, lw_expires_at = e, lw_summary = summary\<rparr>)
            | _ \<Rightarrow> Inl WireFieldError))"

definition wire_request_ok :: "wire_request \<Rightarrow> bool" where
  "wire_request_ok w \<longleftrightarrow>
     lw_tool_name w = tool_by_action (as_action (lw_summary w)) \<and> sha256_digest_ok (lw_payload_digest w) \<and>
     \<not> tz_missing (lw_expires_at w) \<and> 0 \<le> as_delay_seconds (lw_summary w) \<and> as_delay_seconds (lw_summary w) \<le> 300 \<and>
     text_ok (as_reason (lw_summary w)) 200"

definition wire_result_payload :: "wire_codec \<Rightarrow> wire_result \<Rightarrow> (pystr \<times> json) list" where
  "wire_result_payload codec r =
     [(ustr ''request_id'', JStr (wc_uuid_text codec (lr_request_id r))),
      (ustr ''approval_id'', JStr (wc_uuid_text codec (lr_approval_id r))),
      (ustr ''operation_id'', JStr (wc_uuid_text codec (lr_operation_id r))),
      (ustr ''tool_name'', JStr (ustr (lr_tool_name r))), (ustr ''action'', JStr (ustr (action_value (lr_action r)))),
      (ustr ''payload_digest'', JStr (lr_payload_digest r)),
      (ustr ''expires_at'', JStr (wc_datetime_text codec (lr_expires_at r))), (ustr ''approved'', JBool (lr_approved r))]"

text \<open>What the gateway would send for a wire request.\<close>

definition wire_request_payload :: "wire_codec \<Rightarrow> wire_request \<Rightarrow> (pystr \<times> json) list" where
  "wire_request_payload codec w =
     [(ustr ''request_id'', JStr (wc_uuid_text codec (lw_request_id w))),
      (ustr ''approval_id'', JStr (wc_uuid_text codec (lw_approval_id w))),
      (ustr ''operation_id'', JStr (wc_uuid_text codec (lw_operation_id w))),
      (ustr ''tool_name'', JStr (ustr (lw_tool_name w))), (ustr ''payload_digest'', JStr (lw_payload_digest w)),
      (ustr ''expires_at'', JStr (wc_datetime_text codec (lw_expires_at w))),
      (ustr ''summary'', JObj [(ustr ''action'', JStr (ustr (action_value (as_action (lw_summary w))))),
         (ustr ''delay_seconds'', JInt (as_delay_seconds (lw_summary w))), (ustr ''reason'', JStr (as_reason (lw_summary w)))])]"

section \<open>The dialog\<close>

datatype desktop_availability = Available | Locked | SecureDesktop | Unavailable

datatype dialog_decision = Approve | Deny | CancelDialog

record dialog_request =
  lq_approval_id :: uuid
  lq_operation_id :: uuid
  lq_tool_name :: string
  lq_payload_digest :: pystr
  lq_expires_at :: datetime
  lq_summary :: "approval_summary option"

section \<open>The handler\<close>

datatype handler_error =
    HandlerWireError wire_error
  | LocalApprovalRequestIdMismatchError uuid uuid
  | LocalApprovalHandlerClosedError
  | LocalApprovalHandlerBusyError

text \<open>Each active request with its cancellation event.\<close>

record approval_handler =
  ah_active :: "(uuid \<times> bool) list"
  ah_closed :: bool

definition handler_admit ::
  "wire_codec \<Rightarrow> ipc_request \<Rightarrow> approval_handler \<Rightarrow> (handler_error + wire_request) \<times> approval_handler" where
  "handler_admit codec q s =
     (case parse_wire_request codec (rq_payload q) of
        Inl e \<Rightarrow> (Inl (HandlerWireError e), s)
      | Inr w \<Rightarrow>
          if lw_request_id w \<noteq> rq_request_id q
          then (Inl (LocalApprovalRequestIdMismatchError (rq_request_id q) (lw_request_id w)), s)
          else if ah_closed s then (Inl LocalApprovalHandlerClosedError, s)
          else if ah_active s \<noteq> [] then (Inl LocalApprovalHandlerBusyError, s)
          else (Inr w, s\<lparr>ah_active := [(rq_request_id q, False)]\<rparr>))"

definition effective_expiry :: "ipc_request \<Rightarrow> wire_request \<Rightarrow> int \<Rightarrow> int" where
  "effective_expiry q w now = min (dt_instant (lw_expires_at w)) (now + 1000 * rq_timeout_ms q)"

text \<open>\<open>_resolve\<close> up to the dialog: the request it shows, if it shows one.\<close>

definition dialog_shown :: "ipc_request \<Rightarrow> wire_request \<Rightarrow> int \<Rightarrow> desktop_availability \<Rightarrow> dialog_request option" where
  "dialog_shown q w now desktop =
     (if desktop = Available \<and> now < effective_expiry q w now
      then Some \<lparr>lq_approval_id = lw_approval_id w, lq_operation_id = lw_operation_id w, lq_tool_name = lw_tool_name w,
                 lq_payload_digest = lw_payload_digest w, lq_expires_at = Aware (effective_expiry q w now),
                 lq_summary = Some (lw_summary w)\<rparr>
      else None)"

text \<open>The rest of \<open>_resolve\<close>: the decision, the cancellation event and the clock after the dialog.\<close>

definition resolved ::
  "ipc_request \<Rightarrow> wire_request \<Rightarrow> int \<Rightarrow> desktop_availability \<Rightarrow> (dialog_request \<Rightarrow> dialog_decision) \<Rightarrow> bool \<Rightarrow> int \<Rightarrow> wire_result" where
  "resolved q w now desktop person cancelled later =
     \<lparr>lr_request_id = lw_request_id w, lr_approval_id = lw_approval_id w, lr_operation_id = lw_operation_id w,
      lr_tool_name = lw_tool_name w, lr_action = as_action (lw_summary w), lr_payload_digest = lw_payload_digest w,
      lr_expires_at = lw_expires_at w,
      lr_approved = (case dialog_shown q w now desktop of
          None \<Rightarrow> False
        | Some d \<Rightarrow> person d = Approve \<and> \<not> cancelled \<and> later < effective_expiry q w now)\<rparr>"

definition handler_release :: "uuid \<Rightarrow> approval_handler \<Rightarrow> approval_handler" where
  "handler_release rid s = s\<lparr>ah_active := filter (\<lambda>kv. fst kv \<noteq> rid) (ah_active s)\<rparr>"

definition handler_cancel :: "uuid \<Rightarrow> approval_handler \<Rightarrow> bool \<times> approval_handler" where
  "handler_cancel rid s =
     (case map_of (ah_active s) rid of
        None \<Rightarrow> (False, s)
      | Some _ \<Rightarrow> (True, s\<lparr>ah_active := map (\<lambda>(i, c). (i, c \<or> i = rid)) (ah_active s)\<rparr>))"

definition handler_close :: "approval_handler \<Rightarrow> approval_handler" where
  "handler_close s = s\<lparr>ah_closed := True, ah_active := map (\<lambda>(i, c). (i, True)) (ah_active s)\<rparr>"

section \<open>The surface\<close>

text \<open>\<open>resolve\<close> of the surface the gateway could call directly: no answer in time is a no.\<close>

definition local_surface_resolve ::
  "desktop_availability \<Rightarrow> int \<Rightarrow> (dialog_request \<Rightarrow> dialog_decision option) \<Rightarrow> int \<Rightarrow> approval_record \<Rightarrow> bool" where
  "local_surface_resolve desktop now person later r =
     (if desktop \<noteq> Available then False
      else if dt_instant (ar_expires_at r) - now \<le> 0 then False
      else (case person \<lparr>lq_approval_id = ar_approval_id r, lq_operation_id = ar_operation_id r, lq_tool_name = ar_tool_name r,
                         lq_payload_digest = ar_payload_digest r, lq_expires_at = ar_expires_at r, lq_summary = None\<rparr> of
              None \<Rightarrow> False
            | Some d \<Rightarrow> if dt_instant (ar_expires_at r) \<le> later then False else d = Approve))"

section \<open>Runs of the handler\<close>

datatype handler_event =
    Admits ipc_request wire_request
  | Reports uuid int desktop_availability "dialog_request \<Rightarrow> dialog_decision" int wire_result
  | HandlerCancels uuid bool
  | HandlerCloses

record handler_system =
  hs_handler :: approval_handler
  hs_call :: "(ipc_request \<times> wire_request) option"

inductive handler_run :: "wire_codec \<Rightarrow> handler_event list \<Rightarrow> handler_system \<Rightarrow> bool" for codec where
  init: "handler_run codec [] \<lparr>hs_handler = \<lparr>ah_active = [], ah_closed = False\<rparr>, hs_call = None\<rparr>"
| admits: "handler_run codec h \<sigma> \<Longrightarrow> handler_admit codec q (hs_handler \<sigma>) = (Inr w, s) \<Longrightarrow>
    handler_run codec (Admits q w # h) \<lparr>hs_handler = s, hs_call = Some (q, w)\<rparr>"
| reports: "handler_run codec h \<sigma> \<Longrightarrow> hs_call \<sigma> = Some (q, w) \<Longrightarrow>
    map_of (ah_active (hs_handler \<sigma>)) (rq_request_id q) = Some cancelled \<Longrightarrow>
    res = resolved q w now desktop person cancelled later \<Longrightarrow>
    handler_run codec (Reports (rq_request_id q) now desktop person later res # h)
      \<lparr>hs_handler = handler_release (rq_request_id q) (hs_handler \<sigma>), hs_call = None\<rparr>"
| cancels: "handler_run codec h \<sigma> \<Longrightarrow> handler_cancel i (hs_handler \<sigma>) = (b, s) \<Longrightarrow>
    handler_run codec (HandlerCancels i b # h) (\<sigma>\<lparr>hs_handler := s\<rparr>)"
| closes: "handler_run codec h \<sigma> \<Longrightarrow> handler_run codec (HandlerCloses # h) (\<sigma>\<lparr>hs_handler := handler_close (hs_handler \<sigma>)\<rparr>)"

inductive_cases handler_run_ReportsE: "handler_run codec (Reports i now desktop person later res # h) \<sigma>"

text \<open>What has happened since the latest admission.\<close>

fun since_admission :: "handler_event list \<Rightarrow> handler_event list" where
  "since_admission [] = []"
| "since_admission (Admits q w # h) = []"
| "since_admission (e # h) = e # since_admission h"

definition handler_inv :: "wire_codec \<Rightarrow> handler_event list \<Rightarrow> handler_system \<Rightarrow> bool" where
  "handler_inv codec h \<sigma> \<longleftrightarrow>
     (ah_closed (hs_handler \<sigma>) \<longleftrightarrow> HandlerCloses \<in> set h) \<and>
     (case hs_call \<sigma> of
        None \<Rightarrow> ah_active (hs_handler \<sigma>) = []
      | Some (q, w) \<Rightarrow>
          Admits q w \<in> set h \<and> parse_wire_request codec (rq_payload q) = Inr w \<and> lw_request_id w = rq_request_id q \<and>
          (\<exists>c. ah_active (hs_handler \<sigma>) = [(rq_request_id q, c)] \<and>
             (c \<longleftrightarrow> HandlerCancels (rq_request_id q) True \<in> set (since_admission h) \<or>
                  HandlerCloses \<in> set (since_admission h))))"

lemma handler_run_inv: "handler_run codec h \<sigma> \<Longrightarrow> handler_inv codec h \<sigma>"
proof (induction rule: handler_run.induct)
  case init
  then show ?case by (simp add: handler_inv_def)
next
  case (admits h \<sigma> q w s)
  then show ?case
    by (auto simp: handler_inv_def handler_admit_def split: sum.splits if_splits option.splits)
next
  case (reports h \<sigma> q w cancelled res now desktop person later)
  then show ?case by (auto simp: handler_inv_def handler_release_def)
next
  case (cancels h \<sigma> i b s)
  then show ?case
    by (cases "hs_call \<sigma>") (auto simp: handler_inv_def handler_cancel_def split: if_splits option.splits)
next
  case (closes h \<sigma>)
  then show ?case by (cases "hs_call \<sigma>") (auto simp: handler_inv_def handler_close_def)
qed

section \<open>Properties\<close>

lemma parse_wire_request_ok:
  assumes "parse_wire_request codec payload = Inr w"
  shows "wire_request_ok w"
  using assms
  by (auto simp: parse_wire_request_def wire_request_ok_def require_aware_expiry_def require_matching_tool_and_action_def
      bindR_eq_Inr parse_summary_def split: if_splits option.splits json.splits bind_splits)

text \<open>
  A local approval is a timely yes to this very request. In every run of the handler a reported result names the
  request that was admitted, digest and expiry included; and it approves only if the desktop was available, the
  dialog showed exactly the admitted request, bounded by its expiry and its timeout, the person chose to approve before that
  bound, and neither a cancellation of the request nor the shutdown came in between.
\<close>

theorem local_approval_is_a_timely_yes:
  assumes "handler_run codec (Reports i now desktop person later res # h) \<sigma>"
  shows "\<exists>q w. Admits q w \<in> set h \<and> rq_request_id q = i \<and> lw_request_id w = i \<and> wire_request_ok w \<and>
    parse_wire_request codec (rq_payload q) = Inr w \<and>
    lr_request_id res = i \<and> lr_approval_id res = lw_approval_id w \<and> lr_operation_id res = lw_operation_id w \<and>
    lr_tool_name res = lw_tool_name w \<and> lr_action res = as_action (lw_summary w) \<and>
    lr_payload_digest res = lw_payload_digest w \<and> lr_expires_at res = lw_expires_at w \<and>
    (lr_approved res \<longrightarrow>
       desktop = Available \<and> HandlerCancels i True \<notin> set (since_admission h) \<and> HandlerCloses \<notin> set (since_admission h) \<and>
       later < dt_instant (lw_expires_at w) \<and> later < now + 1000 * rq_timeout_ms q \<and>
       (\<exists>d. dialog_shown q w now desktop = Some d \<and> person d = Approve \<and> lq_approval_id d = lw_approval_id w \<and>
          lq_payload_digest d = lw_payload_digest w \<and> lq_summary d = Some (lw_summary w)))"
proof -
  obtain \<sigma>0 q w cancelled where S: "i = rq_request_id q" "handler_run codec h \<sigma>0" "hs_call \<sigma>0 = Some (q, w)"
    "map_of (ah_active (hs_handler \<sigma>0)) (rq_request_id q) = Some cancelled"
    "res = resolved q w now desktop person cancelled later"
    using assms by (rule handler_run_ReportsE) auto
  have I: "Admits q w \<in> set h" "parse_wire_request codec (rq_payload q) = Inr w" "lw_request_id w = rq_request_id q"
    "cancelled \<longleftrightarrow> HandlerCancels (rq_request_id q) True \<in> set (since_admission h) \<or>
      HandlerCloses \<in> set (since_admission h)"
    using handler_run_inv [OF S(2)] S(3,4) by (auto simp: handler_inv_def)
  have "lr_approved res \<longrightarrow> desktop = Available \<and> \<not> cancelled \<and> later < effective_expiry q w now \<and>
     (\<exists>d. dialog_shown q w now desktop = Some d \<and> person d = Approve \<and> lq_approval_id d = lw_approval_id w \<and>
          lq_payload_digest d = lw_payload_digest w \<and> lq_summary d = Some (lw_summary w))"
    by (auto simp: S(5) resolved_def dialog_shown_def split: if_splits option.splits)
  then show ?thesis using I S(1) parse_wire_request_ok [OF I(2)]
    by (intro exI [where x = q] exI [where x = w]) (auto simp: S(5) resolved_def effective_expiry_def)
qed

lemma wire_request_parse:
  assumes "wire_request_ok w" "\<And>u. wc_uuid codec (wc_uuid_text codec u) = Some u"
    "\<And>t. \<not> tz_missing t \<Longrightarrow> wc_datetime codec (wc_datetime_text codec t) = Some t"
  shows "parse_wire_request codec (wire_request_payload codec w) = Inr w"
proof -
  have tool: "power_tool_of (ustr (lw_tool_name w)) = Some (lw_tool_name w)"
    using assms(1) by (cases "as_action (lw_summary w)") (auto simp: wire_request_ok_def power_tool_of_def)
  have action: "action_of (ustr (action_value (as_action (lw_summary w)))) = Some (as_action (lw_summary w))"
    by (cases "as_action (lw_summary w)") (auto simp: action_of_def)
  have "parse_summary (JObj [(ustr ''action'', JStr (ustr (action_value (as_action (lw_summary w))))),
      (ustr ''delay_seconds'', JInt (as_delay_seconds (lw_summary w))), (ustr ''reason'', JStr (as_reason (lw_summary w)))]) =
      Some (lw_summary w)"
    using assms(1) action by (simp add: parse_summary_def closed_fields_def text_field_def int_field_def wire_request_ok_def)
  then show ?thesis
    using assms tool
    by (auto simp: parse_wire_request_def wire_request_payload_def closed_fields_def wire_fields_def text_field_def
        wire_request_ok_def require_aware_expiry_def require_matching_tool_and_action_def)
qed

text \<open>
  Wire requests round-trip. A well-formed request printed by the gateway is parsed to itself by the
  worker, and nothing else than a well-formed request, whose tool names its action, is ever parsed.
\<close>

theorem wire_request_roundtrip:
  assumes "wire_request_ok w" "\<And>u. wc_uuid codec (wc_uuid_text codec u) = Some u"
    "\<And>t. \<not> tz_missing t \<Longrightarrow> wc_datetime codec (wc_datetime_text codec t) = Some t"
  shows "parse_wire_request codec (wire_request_payload codec w) = Inr w \<and>
    (\<forall>payload w'. parse_wire_request codec payload = Inr w' \<longrightarrow> wire_request_ok w')"
  using wire_request_parse [OF assms] parse_wire_request_ok by blast

lemma local_surface_yes:
  "local_surface_resolve desktop now person later r \<longleftrightarrow>
    desktop = Available \<and> now < dt_instant (ar_expires_at r) \<and> later < dt_instant (ar_expires_at r) \<and>
    person \<lparr>lq_approval_id = ar_approval_id r, lq_operation_id = ar_operation_id r, lq_tool_name = ar_tool_name r,
      lq_payload_digest = ar_payload_digest r, lq_expires_at = ar_expires_at r, lq_summary = None\<rparr> = Some Approve"
  by (auto simp: local_surface_resolve_def split: option.splits)

section \<open>A concrete dialog\<close>

definition sample_wire_codec :: wire_codec where
  "sample_wire_codec =
     \<lparr>wc_uuid = (\<lambda>s. Some (length s)), wc_datetime = (\<lambda>s. case s of [neg, n] \<Rightarrow> Some (Aware (if neg = 1 then - int n else int n)) | _ \<Rightarrow> None),
      wc_uuid_text = (\<lambda>u. replicate u 65), wc_datetime_text = (\<lambda>t. [if dt_instant t < 0 then 1 else 0, nat \<bar>dt_instant t\<bar>])\<rparr>"

definition sample_wire :: wire_request where
  "sample_wire =
     \<lparr>lw_request_id = 7, lw_approval_id = 1, lw_operation_id = 2, lw_tool_name = ''system_reboot'',
      lw_payload_digest = replicate 64 97, lw_expires_at = Aware 100,
      lw_summary = \<lparr>as_action = RebootAction, as_delay_seconds = 5, as_reason = [114]\<rparr>\<rparr>"

definition sample_ipc :: ipc_request where
  "sample_ipc =
     \<lparr>rq_request_id = 7, rq_operation = ''local_approval'', rq_payload = wire_request_payload sample_wire_codec sample_wire,
      rq_timeout_ms = 5000\<rparr>"

lemma sample_wire_ok: "wire_request_ok sample_wire"
proof -
  have "sha256_digest_ok (replicate 64 97)" by (simp add: sha256_digest_ok_def list_all_iff lower_hex_def)
  then show ?thesis by (simp add: wire_request_ok_def sample_wire_def text_ok_def del: replicate.simps)
qed

lemma sample_codec_ok:
  "wc_uuid sample_wire_codec (wc_uuid_text sample_wire_codec u) = Some u"
  "\<not> tz_missing t \<Longrightarrow> wc_datetime sample_wire_codec (wc_datetime_text sample_wire_codec t) = Some t"
  by (simp_all add: sample_wire_codec_def) (cases t; simp)

lemma wire_request_roundtrip_witness:
  "parse_wire_request sample_wire_codec (wire_request_payload sample_wire_codec sample_wire) = Inr sample_wire"
  using wire_request_roundtrip [OF sample_wire_ok sample_codec_ok] by blast

lemma local_approval_is_a_timely_yes_witness:
  "\<exists>h \<sigma>. handler_run sample_wire_codec h \<sigma> \<and> lr_approved (resolved sample_ipc sample_wire 10 Available (\<lambda>_. Approve) False 20) \<and>
     (\<exists>q w. Admits q w \<in> set h \<and> rq_request_id q = 7)"
proof -
  have p: "parse_wire_request sample_wire_codec (rq_payload sample_ipc) = Inr sample_wire"
    using wire_request_parse [OF sample_wire_ok sample_codec_ok] by (simp add: sample_ipc_def)
  let ?res = "resolved sample_ipc sample_wire 10 Available (\<lambda>_. Approve) False 20"
  let ?s = "\<lparr>hs_handler = \<lparr>ah_active = [(7, False)], ah_closed = False\<rparr>, hs_call = Some (sample_ipc, sample_wire)\<rparr>"
  have rid: "rq_request_id sample_ipc = 7" "lw_request_id sample_wire = 7" by (simp_all add: sample_ipc_def sample_wire_def)
  have a: "handler_run sample_wire_codec [Admits sample_ipc sample_wire] ?s"
    using p rid by (intro handler_run.admits [OF handler_run.init]) (simp add: handler_admit_def)
  have r: "handler_run sample_wire_codec (Reports 7 10 Available (\<lambda>_. Approve) 20 ?res # [Admits sample_ipc sample_wire])
      \<lparr>hs_handler = handler_release 7 (hs_handler ?s), hs_call = None\<rparr>"
    using handler_run.reports [OF a, of sample_ipc sample_wire False ?res 10 Available "\<lambda>_. Approve" 20] rid by simp
  have y: "lr_approved ?res" by (simp add: resolved_def dialog_shown_def effective_expiry_def sample_ipc_def sample_wire_def)
  have "\<exists>q w. Admits q w \<in> set [Admits sample_ipc sample_wire] \<and> rq_request_id q = 7"
    using local_approval_is_a_timely_yes [OF r] by (elim exE conjE) (intro exI conjI)
  with a y show ?thesis by (intro exI [where x = "[Admits sample_ipc sample_wire]"] exI [where x = ?s] conjI)
qed

end
