(* ===== verification/Path_Safety.thy ===== *)
theory Path_Safety
  imports Py_Text "HOL-Library.Sublist"
begin

text \<open>
  The path policy of the worker (\<open>worker/path_safety.py\<close>): the namespace check on the text of a path, the containment of
  resolved paths in the allowed roots, and the guards that hold directories open while a file operation runs. What
  the operating system answers (resolution, handles, final paths) and the library's case functions are arguments. The
  lemmas show what an accepted path looks like and that every handle opened is either kept by the guard or closed.
\<close>

section \<open>Text\<close>

definition backslash :: nat where "backslash = 92"

definition windows_text :: "pystr \<Rightarrow> pystr" where
  "windows_text s = map (\<lambda>c. if c = 47 then backslash else c) s"

fun split_on :: "nat \<Rightarrow> pystr \<Rightarrow> pystr list" where
  "split_on d [] = [[]]"
| "split_on d (c # s) =
     (if c = d then [] # split_on d s
      else (case split_on d s of [] \<Rightarrow> [[c]] | p # ps \<Rightarrow> (c # p) # ps))"

definition rstrip_chars :: "nat list \<Rightarrow> pystr \<Rightarrow> pystr" where
  "rstrip_chars cs s = rev (dropWhile (\<lambda>c. c \<in> set cs) (rev s))"

section \<open>Reserved names\<close>

text \<open>
  \<open>re.IGNORECASE\<close>: a letter of the pattern matches both cases; besides, the Kelvin sign matches a K, and the Turkish
  dotted and dotless letters match an I.
\<close>

definition letter_matches :: "nat \<Rightarrow> nat \<Rightarrow> bool" where
  "letter_matches l c \<longleftrightarrow>
     c = l \<or> (65 \<le> l \<and> l \<le> 90 \<and> c = l + 32) \<or> (l = 75 \<and> c = 0x212A) \<or> (l = 73 \<and> (c = 0x130 \<or> c = 0x131))"

definition word_matches :: "string \<Rightarrow> pystr \<Rightarrow> bool" where
  "word_matches w s \<longleftrightarrow> list_all2 letter_matches (ustr w) s"

definition port_digit :: "nat \<Rightarrow> bool" where
  "port_digit c \<longleftrightarrow> (49 \<le> c \<and> c \<le> 57) \<or> c \<in> {0xB9, 0xB2, 0xB3}"

definition reserved_device :: "pystr \<Rightarrow> bool" where
  "reserved_device s \<longleftrightarrow>
     (\<exists>w \<in> set [''CON'', ''PRN'', ''AUX'', ''NUL'', ''CLOCK$'', ''CONIN$'', ''CONOUT$'']. word_matches w s) \<or>
     (s \<noteq> [] \<and> port_digit (last s) \<and> (word_matches ''COM'' (butlast s) \<or> word_matches ''LPT'' (butlast s)))"

definition device_prefixes :: "pystr list" where
  "device_prefixes = [[92, 92, 46, 92], [92, 92, 63, 92], [92, 63, 63, 92]]"

section \<open>The policy\<close>

text \<open>A resolved path: its drive or share, whether it is rooted, and its components.\<close>

record win_path =
  wp_drive :: pystr
  wp_root :: pystr
  wp_parts :: "pystr list"

record path_policy =
  pp_allowed_roots :: "win_path list"
  pp_deny_device_paths :: bool
  pp_allow_unc :: bool
  pp_allow_streams :: bool

datatype path_error = PathPolicyError string pystr | PathNotFound

text \<open>What the code asks of the operating system and the library.\<close>

record path_host =
  ph_casefold :: "pystr \<Rightarrow> pystr"
  ph_lower :: "pystr \<Rightarrow> pystr"
  ph_normcase :: "pystr \<Rightarrow> pystr"
  ph_path :: "pystr \<Rightarrow> win_path"

definition colon_indexes :: "pystr \<Rightarrow> nat list" where
  "colon_indexes s = filter (\<lambda>i. s ! i = 58) [0..<length s]"

definition component_name :: "pystr \<Rightarrow> pystr" where
  "component_name s = takeWhile (\<lambda>c. c \<noteq> 46) (rstrip_chars [32, 46] s)"

definition validate_namespace :: "path_host \<Rightarrow> path_policy \<Rightarrow> pystr \<Rightarrow> path_error + unit" where
  "validate_namespace host policy raw =
     (let w = windows_text raw in
      if raw = [] \<or> 0 \<in> set raw then Inl (PathPolicyError ''malformed_path'' raw)
      else if pp_deny_device_paths policy \<and> list_ex (\<lambda>p. prefix p (ph_casefold host w)) device_prefixes
      then Inl (PathPolicyError ''device_namespace_denied'' raw)
      else if \<not> pp_allow_unc policy \<and> prefix [92, 92] w then Inl (PathPolicyError ''unc_denied'' raw)
      else if \<not> pp_allow_streams policy \<and> list_ex (\<lambda>i. i \<noteq> 1) (colon_indexes w)
      then Inl (PathPolicyError ''alternate_data_stream_denied'' raw)
      else if pp_deny_device_paths policy \<and> list_ex (\<lambda>s. reserved_device (component_name s)) (split_on backslash w)
      then Inl (PathPolicyError ''device_namespace_denied'' raw)
      else Inr ())"

fun join_parts :: "pystr list \<Rightarrow> pystr" where
  "join_parts [] = []"
| "join_parts [p] = p"
| "join_parts (p # q # ps) = p @ backslash # join_parts (q # ps)"

definition path_text :: "win_path \<Rightarrow> pystr" where
  "path_text p = wp_drive p @ wp_root p @ join_parts (wp_parts p)"

text \<open>\<open>os.path.commonpath\<close> of two resolved paths; \<open>None\<close> is the \<open>ValueError\<close> of different drives.\<close>

definition common_path :: "path_host \<Rightarrow> win_path \<Rightarrow> win_path \<Rightarrow> win_path option" where
  "common_path host p r =
     (if ph_lower host (wp_drive p) \<noteq> ph_lower host (wp_drive r) \<or> wp_root p \<noteq> wp_root r then None
      else Some (p\<lparr>wp_parts := take (length (longest_common_prefix (map (ph_lower host) (wp_parts p))
                                                                   (map (ph_lower host) (wp_parts r)))) (wp_parts p)\<rparr>))"

definition is_within :: "path_host \<Rightarrow> win_path \<Rightarrow> win_path \<Rightarrow> bool" where
  "is_within host p r =
     (case common_path host p r of
        None \<Rightarrow> False
      | Some common \<Rightarrow> ph_normcase host (path_text common) = ph_normcase host (path_text r))"

definition require_allowed :: "path_host \<Rightarrow> path_policy \<Rightarrow> pystr \<Rightarrow> win_path \<Rightarrow> path_error + unit" where
  "require_allowed host policy raw p =
     (if \<not> list_ex (is_within host p) (pp_allowed_roots policy) then Inl (PathPolicyError ''outside_allowed_roots'' raw)
      else Inr ())"

definition require_same_path :: "path_host \<Rightarrow> pystr \<Rightarrow> win_path \<Rightarrow> win_path \<Rightarrow> path_error + unit" where
  "require_same_path host raw latest opened =
     (if ph_normcase host (path_text latest) \<noteq> ph_normcase host (path_text opened)
      then Inl (PathPolicyError ''outside_allowed_roots'' raw) else Inr ())"

text \<open>A root is resolved strictly and has to be a directory when the policy is made.\<close>

datatype root_answer = RootUnresolved | RootFile | RootDirectory win_path

fun resolve_roots :: "(pystr \<Rightarrow> root_answer) \<Rightarrow> pystr list \<Rightarrow> path_error + win_path list" where
  "resolve_roots answer [] = Inr []"
| "resolve_roots answer (r # rs) =
     (case answer r of
        RootUnresolved \<Rightarrow> Inl (PathPolicyError ''invalid_allowed_root'' r)
      | RootFile \<Rightarrow> Inl (PathPolicyError ''allowed_root_not_directory'' r)
      | RootDirectory p \<Rightarrow> bindR (resolve_roots answer rs) (\<lambda>ps. Inr (p # ps)))"

definition make_path_policy :: "(pystr \<Rightarrow> root_answer) \<Rightarrow> pystr list \<Rightarrow> bool \<Rightarrow> bool \<Rightarrow> bool \<Rightarrow> path_error + path_policy" where
  "make_path_policy answer roots deny unc streams =
     (if roots = [] then Inl (PathPolicyError ''allowed_roots_empty'' [])
      else bindR (resolve_roots answer roots) (\<lambda>ps.
        Inr \<lparr>pp_allowed_roots = ps, pp_deny_device_paths = deny, pp_allow_unc = unc, pp_allow_streams = streams\<rparr>))"

datatype resolve_answer = ResolvesTo win_path | ResolveNotFound | ResolveFails

definition parse_path :: "path_host \<Rightarrow> path_policy \<Rightarrow> (pystr \<Rightarrow> resolve_answer) \<Rightarrow> pystr \<Rightarrow> path_error + win_path" where
  "parse_path host policy resolve raw =
     bindR (validate_namespace host policy raw) (\<lambda>_.
       (case resolve raw of
          ResolveNotFound \<Rightarrow> Inl PathNotFound
        | ResolveFails \<Rightarrow> Inl (PathPolicyError ''malformed_path'' raw)
        | ResolvesTo p \<Rightarrow> bindR (require_allowed host policy raw p) (\<lambda>_. Inr p)))"

section \<open>Guards\<close>

definition normalize_handle_path :: "path_host \<Rightarrow> pystr \<Rightarrow> win_path" where
  "normalize_handle_path host raw =
     (let folded = ph_casefold host raw in
      if prefix [92, 92, 63, 92, 117, 110, 99, 92] folded then ph_path host ([92, 92] @ drop 8 raw)
      else if prefix [92, 92, 63, 92] folded then ph_path host (drop 4 raw)
      else ph_path host raw)"

datatype guard_error = GuardPolicy path_error | GuardOsError int | GuardValueError

text \<open>The calls of a guard: opening a path, the final path of a handle; both may fail with an error number.\<close>

record handle_host =
  hh_open :: "win_path \<Rightarrow> int + nat"
  hh_final :: "nat \<Rightarrow> int + pystr"

fun guarded_paths :: "win_path \<Rightarrow> pystr list \<Rightarrow> win_path list" where
  "guarded_paths root [] = [root]"
| "guarded_paths root (p # ps) = root # guarded_paths (root\<lparr>wp_parts := wp_parts root @ [p]\<rparr>) ps"

text \<open>The loop: the handles opened so far, in order, with the error that ended it or the last final path.\<close>

fun open_chain ::
  "path_host \<Rightarrow> path_policy \<Rightarrow> handle_host \<Rightarrow> pystr \<Rightarrow> win_path list \<Rightarrow> win_path \<Rightarrow> nat list \<Rightarrow> (guard_error + win_path) \<times> nat list" where
  "open_chain host policy hh raw [] final handles = (Inr final, handles)"
| "open_chain host policy hh raw (d # ds) final handles =
     (case hh_open hh d of
        Inl n \<Rightarrow> (Inl (GuardOsError n), handles)
      | Inr k \<Rightarrow>
          (case hh_final hh k of
             Inl n \<Rightarrow> (Inl (GuardOsError n), handles @ [k])
           | Inr t \<Rightarrow>
               (let p = normalize_handle_path host t in
                case require_allowed host policy raw p of
                  Inl e \<Rightarrow> (Inl (GuardPolicy e), handles @ [k])
                | Inr _ \<Rightarrow> open_chain host policy hh raw ds p (handles @ [k]))))"

definition deepest_root :: "path_host \<Rightarrow> path_policy \<Rightarrow> win_path \<Rightarrow> win_path option" where
  "deepest_root host policy p =
     (let candidates = filter (is_within host p) (pp_allowed_roots policy) in
      find (\<lambda>r. list_all (\<lambda>q. length (wp_parts q) \<le> length (wp_parts r)) candidates) candidates)"

text \<open>\<open>relative_to\<close>, which compares components without case; \<open>None\<close> is its \<open>ValueError\<close>.\<close>

definition relative_parts :: "path_host \<Rightarrow> win_path \<Rightarrow> win_path \<Rightarrow> pystr list option" where
  "relative_parts host p r =
     (if ph_lower host (wp_drive p) = ph_lower host (wp_drive r) \<and> wp_root p = wp_root r \<and>
         prefix (map (ph_lower host) (wp_parts r)) (map (ph_lower host) (wp_parts p))
      then Some (drop (length (wp_parts r)) (wp_parts p)) else None)"

record directory_guard =
  guard_handles :: "nat list"
  guard_final :: win_path

text \<open>
  The result and the handles closed. The path is resolved before the handles are opened and again afterwards;
  \<open>again\<close> is what the second resolution answers.
\<close>

definition guard_directory ::
  "path_host \<Rightarrow> path_policy \<Rightarrow> handle_host \<Rightarrow> (pystr \<Rightarrow> resolve_answer) \<Rightarrow> (pystr \<Rightarrow> resolve_answer) \<Rightarrow> pystr \<Rightarrow>
   (guard_error + directory_guard) \<times> nat list" where
  "guard_directory host policy hh resolve again raw =
     (case parse_path host policy resolve raw of
        Inl e \<Rightarrow> (Inl (GuardPolicy e), [])
      | Inr p \<Rightarrow>
          (case deepest_root host policy p of
             None \<Rightarrow> (Inl GuardValueError, [])
           | Some root \<Rightarrow>
               (case relative_parts host p root of
                  None \<Rightarrow> (Inl GuardValueError, [])
                | Some rel \<Rightarrow>
                    (case open_chain host policy hh raw (guarded_paths root rel) root [] of
                       (Inl e, handles) \<Rightarrow> (Inl e, rev handles)
                     | (Inr final, handles) \<Rightarrow>
                         (case parse_path host policy again raw of
                            Inl e \<Rightarrow> (Inl (GuardPolicy e), rev handles)
                          | Inr latest \<Rightarrow>
                              (case require_same_path host raw latest final of
                                 Inl e \<Rightarrow> (Inl (GuardPolicy e), rev handles)
                               | Inr _ \<Rightarrow> (Inr \<lparr>guard_handles = handles, guard_final = final\<rparr>, [])))))))"

definition release_guard :: "directory_guard \<Rightarrow> nat list" where
  "release_guard g = rev (guard_handles g)"

text \<open>\<open>open_verified_binary\<close>: the stream is closed unless the final path of its own handle is allowed.\<close>

definition open_verified_binary ::
  "path_host \<Rightarrow> path_policy \<Rightarrow> handle_host \<Rightarrow> (pystr \<Rightarrow> resolve_answer) \<Rightarrow> pystr \<Rightarrow> (guard_error + nat \<times> win_path) \<times> nat list" where
  "open_verified_binary host policy hh resolve raw =
     (case parse_path host policy resolve raw of
        Inl e \<Rightarrow> (Inl (GuardPolicy e), [])
      | Inr p \<Rightarrow>
          (case hh_open hh p of
             Inl n \<Rightarrow> (Inl (GuardOsError n), [])
           | Inr k \<Rightarrow>
               (case hh_final hh k of
                  Inl n \<Rightarrow> (Inl (GuardOsError n), [k])
                | Inr t \<Rightarrow>
                    (let actual = normalize_handle_path host t in
                     case require_allowed host policy raw actual of
                       Inl e \<Rightarrow> (Inl (GuardPolicy e), [k])
                     | Inr _ \<Rightarrow> (Inr (k, actual), [])))))"

section \<open>Containment\<close>

lemma longest_common_prefix_whole: "longest_common_prefix (xs @ ys) xs = xs"
proof (induction xs)
  case Nil
  then show ?case by (cases ys) simp_all
qed simp

text \<open>Everything literally below a root is within it, whatever the case functions do.\<close>

lemma extension_is_within:
  assumes "wp_drive p = wp_drive r" "wp_root p = wp_root r" "wp_parts p = wp_parts r @ rest"
  shows "is_within host p r"
proof -
  have "path_text (p\<lparr>wp_parts := wp_parts r\<rparr>) = path_text r" using assms by (simp add: path_text_def)
  then show ?thesis using assms by (simp add: is_within_def common_path_def longest_common_prefix_whole)
qed

definition clean_parts :: "pystr list \<Rightarrow> bool" where
  "clean_parts ps \<longleftrightarrow> list_all (\<lambda>p. p \<noteq> [] \<and> backslash \<notin> set p \<and> 47 \<notin> set p) ps"

lemma join_parts_inject:
  assumes "clean_parts ps" "clean_parts qs" "map f (join_parts ps) = map f (join_parts qs)"
    and f: "\<And>c. f c = backslash \<longleftrightarrow> c = backslash \<or> c = 47"
  shows "map (map f) ps = map (map f) qs"
proof -
  have sep: "x = y \<and> s = t" if "x @ backslash # s = y @ backslash # t" "backslash \<notin> set x" "backslash \<notin> set y" for x y s t :: pystr
  proof -
    have "takeWhile (\<lambda>c. c \<noteq> backslash) (x @ backslash # s) = x" "takeWhile (\<lambda>c. c \<noteq> backslash) (y @ backslash # t) = y"
      using that(2,3) by (auto simp: takeWhile_append)
    then have "x = y" using that(1) by simp
    then show ?thesis using that(1) by simp
  qed
  have cl: "backslash \<notin> set (map f p)" if "clean_parts (p # ps)" for p ps
  proof
    assume "backslash \<in> set (map f p)"
    then obtain c where "c \<in> set p" "f c = backslash" by auto
    then show False using that f by (auto simp: clean_parts_def)
  qed
  show ?thesis
    using assms(1-3)
  proof (induction ps arbitrary: qs rule: join_parts.induct)
    case 1
    then show ?case by (cases qs rule: join_parts.cases) (auto simp: clean_parts_def)
  next
    case (2 p)
    show ?case
    proof (cases qs rule: join_parts.cases)
      case (3 q r rs)
      then have "map f p = map f q @ f backslash # map f (join_parts (r # rs))" using 2 by simp
      then have "f backslash \<in> set (map f p)" by simp
      moreover have "f backslash = backslash" using f by simp
      ultimately have "backslash \<in> set (map f p)" by (simp only:)
      then show ?thesis using cl [OF 2(1)] by blast
    qed (use 2 in \<open>auto simp: clean_parts_def\<close>)
  next
    case (3 p p' ps)
    have fb: "f backslash = backslash" using f by simp
    show ?case
    proof (cases qs rule: join_parts.cases)
      case 1
      then show ?thesis using 3 by (auto simp: clean_parts_def)
    next
      case (2 q)
      then have "map f q = map f p @ f backslash # map f (join_parts (p' # ps))" using 3 by simp
      then have "f backslash \<in> set (map f q)" by simp
      then have "backslash \<in> set (map f q)" by (simp only: fb)
      then show ?thesis using cl [of q "[]"] 3(3) 2 by auto
    next
      case (3 q q' rs)
      have "map f p @ backslash # map f (join_parts (p' # ps)) = map f q @ backslash # map f (join_parts (q' # rs))"
        using "3.prems"(3) 3 fb by simp
      then have "map f p = map f q \<and> map f (join_parts (p' # ps)) = map f (join_parts (q' # rs))"
        using cl [OF "3.prems"(1)] cl [of q "q' # rs"] "3.prems"(2) 3 by (intro sep) auto
      moreover from this have "map (map f) (p' # ps) = map (map f) (q' # rs)"
        using "3.prems"(1,2) 3 by (intro "3.IH") (auto simp: clean_parts_def)
      ultimately show ?thesis using 3 by simp
    qed
  qed
qed

lemma clean_take: "clean_parts ps \<Longrightarrow> clean_parts (take n ps)"
  by (auto simp: clean_parts_def list_all_iff dest: in_set_takeD)

section \<open>Properties\<close>

text \<open>
  Containment is component-wise. With a case mapping that works character by character and keeps the separators, a
  resolved path is within a root only if drive and root agree and its components start with all the components of the
  root, up to case: no sibling whose name merely begins like the root's is ever within it; and everything literally
  below the root is.
\<close>

theorem containment_is_componentwise:
  assumes "ph_normcase host = map f" "\<And>c. f c = backslash \<longleftrightarrow> c = backslash \<or> c = 47"
    and "clean_parts (wp_parts p)" "clean_parts (wp_parts r)"
    and "length (ph_lower host (wp_drive p)) = length (wp_drive p)" "length (ph_lower host (wp_drive r)) = length (wp_drive r)"
  shows "(is_within host p r \<longrightarrow> map f (wp_drive p) = map f (wp_drive r) \<and> wp_root p = wp_root r \<and>
      prefix (map (map f) (wp_parts r)) (map (map f) (wp_parts p))) \<and>
    (wp_drive p = wp_drive r \<and> wp_root p = wp_root r \<and> prefix (wp_parts r) (wp_parts p) \<longrightarrow> is_within host p r)"
proof (intro conjI impI)
  assume w: "is_within host p r"
  obtain n where c: "common_path host p r = Some (p\<lparr>wp_parts := take n (wp_parts p)\<rparr>)"
    "ph_lower host (wp_drive p) = ph_lower host (wp_drive r)" "wp_root p = wp_root r"
    using w by (auto simp: is_within_def common_path_def split: if_splits)
  have len: "length (wp_drive p) = length (wp_drive r)" using c(2) assms(5,6) by metis
  have "map f (wp_drive p @ wp_root p @ join_parts (take n (wp_parts p))) = map f (wp_drive r @ wp_root r @ join_parts (wp_parts r))"
    using w c assms(1) by (simp add: is_within_def path_text_def)
  then have "map f (wp_drive p) = map f (wp_drive r)" "map f (join_parts (take n (wp_parts p))) = map f (join_parts (wp_parts r))"
    using len c(3) by (auto simp: append_eq_append_conv)
  moreover from this(2) have "map (map f) (take n (wp_parts p)) = map (map f) (wp_parts r)"
    by (intro join_parts_inject clean_take assms(2-4))
  ultimately show "map f (wp_drive p) = map f (wp_drive r)" "wp_root p = wp_root r"
      "prefix (map (map f) (wp_parts r)) (map (map f) (wp_parts p))"
    using c(3) take_is_prefix [of n "map (map f) (wp_parts p)"] by (simp_all add: take_map)
next
  assume "wp_drive p = wp_drive r \<and> wp_root p = wp_root r \<and> prefix (wp_parts r) (wp_parts p)"
  then show "is_within host p r" using extension_is_within [of p r] by (auto elim: prefixE)
qed


lemma open_chain_handles:
  assumes "open_chain host policy hh raw ds final hs = (res, hs')"
  shows "\<exists>opened. hs' = hs @ opened \<and>
    list_all2 (\<lambda>d k. hh_open hh d = Inr k) (take (length opened) ds) opened \<and>
    (\<forall>final'. res = Inr final' \<longrightarrow> length opened = length ds \<and>
       (ds \<noteq> [] \<longrightarrow> require_allowed host policy raw final' = Inr ()))"
  using assms
proof (induction ds arbitrary: final hs)
  case (Cons d ds)
  show ?case
  proof (cases "hh_open hh d")
    case (Inl n)
    then show ?thesis using Cons(2) by auto
  next
    case (Inr k)
    note Some = Inr
    show ?thesis
    proof (cases "\<exists>t. hh_final hh k = Inr t \<and> require_allowed host policy raw (normalize_handle_path host t) = Inr ()")
      case False
      then have "(\<exists>e. res = Inl e) \<and> hs' = hs @ [k]"
        using Cons(2) Some by (auto simp: Let_def split: option.splits sum.splits)
      then show ?thesis using Some by (intro exI [of _ "[k]"]) auto
    next
      case True
      then obtain t where t: "hh_final hh k = Inr t" "require_allowed host policy raw (normalize_handle_path host t) = Inr ()" by blast
      have "open_chain host policy hh raw ds (normalize_handle_path host t) (hs @ [k]) = (res, hs')"
        using Cons(2) Some t by (simp add: Let_def)
      from Cons(1) [OF this] obtain opened where o: "hs' = (hs @ [k]) @ opened"
        "list_all2 (\<lambda>d k. hh_open hh d = Inr k) (take (length opened) ds) opened"
        "\<forall>final'. res = Inr final' \<longrightarrow> length opened = length ds \<and> (ds \<noteq> [] \<longrightarrow> require_allowed host policy raw final' = Inr ())"
        by blast
      have "require_allowed host policy raw final' = Inr ()" if "res = Inr final'" for final'
        using o(3) that t(2) Cons(2) Some t by (cases ds) (auto simp: Let_def)
      then show ?thesis using o Some by (intro exI [of _ "k # opened"]) auto
    qed
  qed
qed simp

text \<open>
  A guard keeps or closes every handle. When guarding fails, exactly the handles it opened have been closed, once each
  and the innermost first; when it succeeds none has, the guard holds one handle for the root and one for every
  directory down to the target, the target's final path is allowed and is the path that resolves again, and releasing
  the guard closes them all.
\<close>

theorem guard_keeps_or_closes_handles:
  assumes "guard_directory host policy hh resolve again raw = (res, closed)"
  shows "\<exists>opened paths. list_all2 (\<lambda>d k. hh_open hh d = Inr k) (take (length opened) paths) opened \<and>
    (\<forall>e. res = Inl e \<longrightarrow> closed = rev opened) \<and>
    (\<forall>g. res = Inr g \<longrightarrow> closed = [] \<and> guard_handles g = opened \<and> release_guard g = rev opened \<and>
       length opened = length paths \<and> require_allowed host policy raw (guard_final g) = Inr () \<and>
       (\<exists>p root rel latest. parse_path host policy resolve raw = Inr p \<and> root \<in> set (pp_allowed_roots policy) \<and>
          is_within host p root \<and> relative_parts host p root = Some rel \<and> paths = guarded_paths root rel \<and>
          parse_path host policy again raw = Inr latest \<and>
          ph_normcase host (path_text latest) = ph_normcase host (path_text (guard_final g))))"
proof -
  have early: ?thesis if "\<exists>e. res = Inl e" "closed = []"
    using that by (intro exI [of _ "[]"] exI [of _ "[]"]) auto
  show ?thesis
  proof (cases "parse_path host policy resolve raw")
    case (Inl e)
    then show ?thesis using assms by (intro early) (auto simp: guard_directory_def)
  next
    case (Inr p)
    show ?thesis
    proof (cases "Option.bind (deepest_root host policy p) (\<lambda>root. map_option (Pair root) (relative_parts host p root))")
      case None
      then show ?thesis using assms Inr
        by (intro early) (auto simp: guard_directory_def Option.bind_eq_None_conv split: option.splits)
    next
      case (Some rr)
      then obtain root rel where r: "deepest_root host policy p = Some root" "relative_parts host p root = Some rel"
        by (auto simp: Option.bind_eq_Some_conv)
      have root: "root \<in> set (pp_allowed_roots policy)" "is_within host p root"
      proof -
        have "root \<in> set (filter (is_within host p) (pp_allowed_roots policy))"
          using r(1) unfolding deepest_root_def Let_def find_Some_iff by (metis nth_mem)
        then show "root \<in> set (pp_allowed_roots policy)" "is_within host p root" by auto
      qed
      obtain out handles where c: "open_chain host policy hh raw (guarded_paths root rel) root [] = (out, handles)" by fastforce
      have ne: "guarded_paths root rel \<noteq> []" by (cases rel) auto
      from open_chain_handles [OF c] obtain opened where o: "handles = opened"
        "list_all2 (\<lambda>d k. hh_open hh d = Inr k) (take (length opened) (guarded_paths root rel)) opened"
        "\<forall>final'. out = Inr final' \<longrightarrow> length opened = length (guarded_paths root rel) \<and> require_allowed host policy raw final' = Inr ()"
        using ne by auto
      have "guard_directory host policy hh resolve again raw =
          (case out of Inl e \<Rightarrow> (Inl e, rev opened)
           | Inr final \<Rightarrow> (case parse_path host policy again raw of
                Inl e \<Rightarrow> (Inl (GuardPolicy e), rev opened)
              | Inr latest \<Rightarrow> (case require_same_path host raw latest final of
                   Inl e \<Rightarrow> (Inl (GuardPolicy e), rev opened)
                 | Inr _ \<Rightarrow> (Inr \<lparr>guard_handles = opened, guard_final = final\<rparr>, []))))"
        using Inr r c o(1) by (simp add: guard_directory_def)
      then show ?thesis
        using assms o Inr r(2) root
        by (intro exI [of _ opened] exI [of _ "guarded_paths root rel"])
          (auto simp: release_guard_def require_same_path_def split: sum.splits if_splits)
    qed
  qed
qed

text \<open>A reserved name followed by a space and an extension is not recognized.\<close>

lemma spaced_device_name_is_accepted:
  "\<not> reserved_device (component_name (ustr ''CON .txt''))"
  by (simp add: component_name_def rstrip_chars_def reserved_device_def word_matches_def port_digit_def letter_matches_def)

section \<open>A concrete path\<close>

definition sample_host :: path_host where
  "sample_host =
     \<lparr>ph_casefold = id, ph_lower = id, ph_normcase = map (\<lambda>c. if c = 47 then backslash else c),
      ph_path = (\<lambda>s. \<lparr>wp_drive = ustr ''C:'', wp_root = [backslash], wp_parts = [ustr ''work'']\<rparr>)\<rparr>"

definition work_root :: win_path where
  "work_root = \<lparr>wp_drive = ustr ''C:'', wp_root = [backslash], wp_parts = [ustr ''work'']\<rparr>"

definition sample_policy :: path_policy where
  "sample_policy =
     \<lparr>pp_allowed_roots = [work_root], pp_deny_device_paths = True, pp_allow_unc = False, pp_allow_streams = False\<rparr>"

lemma work_within: "is_within sample_host work_root work_root"
  by (rule extension_is_within [where rest = "[]"]) simp_all

lemma containment_is_componentwise_witness:
  "\<not> is_within sample_host (work_root\<lparr>wp_parts := [ustr ''workshop'']\<rparr>) work_root"
proof -
  let ?f = "\<lambda>c. if c = 47 then backslash else (c :: nat)"
  have "\<not> prefix (map (map ?f) [ustr ''work'']) (map (map ?f) [ustr ''workshop''])" by (simp add: backslash_def)
  then show ?thesis
    using containment_is_componentwise [of sample_host ?f "work_root\<lparr>wp_parts := [ustr ''workshop'']\<rparr>" work_root]
    by (auto simp: sample_host_def work_root_def clean_parts_def backslash_def)
qed

lemma sample_namespace: "validate_namespace sample_host sample_policy (ustr ''w'') = Inr ()"
  by (simp add: validate_namespace_def sample_host_def sample_policy_def windows_text_def device_prefixes_def colon_indexes_def
      backslash_def component_name_def rstrip_chars_def reserved_device_def word_matches_def port_digit_def letter_matches_def)

lemma sample_parse: "parse_path sample_host sample_policy (\<lambda>_. ResolvesTo work_root) (ustr ''w'') = Inr work_root"
  using sample_namespace work_within by (simp add: parse_path_def require_allowed_def sample_policy_def)


lemma guard_keeps_or_closes_handles_witness:
  "guard_directory sample_host sample_policy \<lparr>hh_open = (\<lambda>_. Inr 3), hh_final = (\<lambda>_. Inl 5)\<rparr>
     (\<lambda>_. ResolvesTo work_root) (\<lambda>_. ResolvesTo work_root) (ustr ''w'') = (Inl (GuardOsError 5), [3])"
proof -
  let ?hh = "\<lparr>hh_open = (\<lambda>_ :: win_path. Inr (3 :: nat) :: int + nat), hh_final = (\<lambda>_ :: nat. Inl 5 :: int + pystr)\<rparr>"
  have root: "deepest_root sample_host sample_policy work_root = Some work_root"
    using work_within by (simp add: deepest_root_def sample_policy_def)
  have "relative_parts sample_host work_root work_root = Some []" by (simp add: relative_parts_def)
  then have g: "guard_directory sample_host sample_policy ?hh (\<lambda>_. ResolvesTo work_root) (\<lambda>_. ResolvesTo work_root) (ustr ''w'') =
      (Inl (GuardOsError 5), [3])"
    using sample_parse root by (simp add: guard_directory_def)
  from guard_keeps_or_closes_handles [OF g] obtain opened where "[3] = rev opened" by auto
  then show ?thesis using g by simp
qed

end
