(* ===== verification/Inline_Codec.thy ===== *)
theory Inline_Codec
  imports Py_Text
begin

text \<open>
  The inline payloads of the file tools (\<open>tools/filesystem.py\<close>: \<open>encode_utf8\<close>, \<open>decode_base64\<close>, the exclusive
  choice of \<open>WriteInput\<close>), with the base64 functions of the standard library they use. The lemmas show that the sizes
  computed before an allocation are exact and that a binary payload is accepted only in its canonical spelling.
\<close>

section \<open>UTF-8 with a limit\<close>

datatype inline_operation = InlineRead | InlineWrite

datatype inline_error =
    InlineSizeLimitError inline_operation int
  | InlineUnicodeError
  | InvalidBase64Error
  | AmbiguousPayloadError

definition utf8_codepoint_size :: "nat \<Rightarrow> int" where
  "utf8_codepoint_size c = (if c \<le> 0x7F then 1 else if c \<le> 0x7FF then 2 else if c \<le> 0xFFFF then 3 else 4)"

definition encode_utf8 :: "int \<Rightarrow> pystr \<Rightarrow> inline_error + bytes" where
  "encode_utf8 max_bytes value =
     (if max_bytes < sum_list (map utf8_codepoint_size value) then Inl (InlineSizeLimitError InlineWrite max_bytes)
      else (case utf8_encode value of
              None \<Rightarrow> Inl InlineUnicodeError
            | Some encoded \<Rightarrow>
                if max_bytes < int (length encoded) then Inl (InlineSizeLimitError InlineWrite max_bytes) else Inr encoded))"

section \<open>Base64\<close>

definition b64_char :: "nat \<Rightarrow> nat" where
  "b64_char i = (if i < 26 then 65 + i else if i < 52 then 71 + i else if i < 62 then i - 4 else if i = 62 then 43 else 47)"

definition b64_index :: "nat \<Rightarrow> nat option" where
  "b64_index c =
     (if 65 \<le> c \<and> c \<le> 90 then Some (c - 65) else if 97 \<le> c \<and> c \<le> 122 then Some (c - 71)
      else if 48 \<le> c \<and> c \<le> 57 then Some (c + 4) else if c = 43 then Some 62 else if c = 47 then Some 63 else None)"

definition pad_char :: nat where "pad_char = 61"

fun b64encode :: "bytes \<Rightarrow> pystr" where
  "b64encode [] = []"
| "b64encode [a] = [b64_char (unat a div 4), b64_char (unat a mod 4 * 16), pad_char, pad_char]"
| "b64encode [a, b] =
     [b64_char (unat a div 4), b64_char (unat a mod 4 * 16 + unat b div 16), b64_char (unat b mod 16 * 4), pad_char]"
| "b64encode (a # b # c # r) =
     b64_char (unat a div 4) # b64_char (unat a mod 4 * 16 + unat b div 16) #
     b64_char (unat b mod 16 * 4 + unat c div 64) # b64_char (unat c mod 64) # b64encode r"

text \<open>
  \<open>b64decode(validate=True)\<close> of text whose length is a multiple of four: \<open>None\<close> is \<open>binascii.Error\<close>. Bits that the
  padding makes unused are ignored, as the library does.
\<close>

fun b64decode :: "pystr \<Rightarrow> bytes option" where
  "b64decode [] = Some []"
| "b64decode (p # q # r # s # rest) =
     (case (b64_index p, b64_index q) of
        (Some i, Some j) \<Rightarrow>
          (case b64_index r of
             None \<Rightarrow> if r = pad_char \<and> s = pad_char \<and> rest = [] then Some [mkb (i * 4 + j div 16)] else None
           | Some k \<Rightarrow>
               (case b64_index s of
                  None \<Rightarrow> if s = pad_char \<and> rest = []
                          then Some [mkb (i * 4 + j div 16), mkb (j mod 16 * 16 + k div 4)] else None
                | Some l \<Rightarrow>
                    map_option (\<lambda>t. mkb (i * 4 + j div 16) # mkb (j mod 16 * 16 + k div 4) # mkb (k mod 4 * 64 + l) # t)
                      (b64decode rest)))
      | _ \<Rightarrow> None)"
| "b64decode _ = None"

definition decode_base64 :: "int \<Rightarrow> pystr \<Rightarrow> inline_error + bytes" where
  "decode_base64 max_bytes value =
     (let max_encoded_length = (max_bytes + 2) div 3 * 4 in
      if max_encoded_length < int (length value) then Inl (InlineSizeLimitError InlineWrite max_bytes)
      else if length value mod 4 \<noteq> 0 \<or> list_ex (\<lambda>c. 127 < c) value then Inl InvalidBase64Error
      else (case b64decode value of
              None \<Rightarrow> Inl InvalidBase64Error
            | Some decoded \<Rightarrow>
                if b64encode decoded \<noteq> value then Inl InvalidBase64Error
                else if max_bytes < int (length decoded) then Inl (InlineSizeLimitError InlineWrite max_bytes)
                else Inr decoded))"

section \<open>The payload of a write\<close>

definition require_exactly_one_payload :: "pystr option \<Rightarrow> pystr option \<Rightarrow> inline_error + unit" where
  "require_exactly_one_payload body binary = (if (body = None) = (binary = None) then Inl AmbiguousPayloadError else Inr ())"

definition write_data :: "int \<Rightarrow> pystr option \<Rightarrow> pystr option \<Rightarrow> inline_error + bytes" where
  "write_data max_bytes body binary =
     bindR (require_exactly_one_payload body binary) (\<lambda>_.
       (case body of
          Some t \<Rightarrow> encode_utf8 max_bytes t
        | None \<Rightarrow> decode_base64 max_bytes (case binary of None \<Rightarrow> [] | Some b \<Rightarrow> b)))"

section \<open>Exactness\<close>

lemma utf8_size_char: "utf8_char c = Some bs \<Longrightarrow> utf8_codepoint_size c = int (length bs)"
  by (auto simp: utf8_char_def utf8_codepoint_size_def split: if_splits)

lemma utf8_size: "utf8_encode s = Some bs \<Longrightarrow> sum_list (map utf8_codepoint_size s) = int (length bs)"
  by (induction s arbitrary: bs) (auto simp: utf8_size_char split: option.splits)

lemma b64_index_char: "i < 64 \<Longrightarrow> b64_index (b64_char i) = Some i"
  by (auto simp: b64_index_def b64_char_def)

lemma b64_pad [simp]: "b64_index pad_char = None"
  by (simp add: b64_index_def pad_char_def)

lemma b64_char_ascii: "b64_char i < 128"
  unfolding b64_char_def by auto

lemma b64_decode_encode: "b64decode (b64encode bs) = Some bs"
proof (induction bs rule: b64encode.induct)
  case (2 a)
  have "unat a < 256" by (rule unat_byte_less)
  then show ?case by (simp add: b64_index_char less_mult_imp_div_less)
next
  case (3 a b)
  have "unat a < 256" "unat b < 256" by (rule unat_byte_less)+
  moreover have "(unat a mod 4 * 16 + unat b div 16) div 16 = unat a mod 4" using calculation by simp
  moreover have "(unat a mod 4 * 16 + unat b div 16) mod 16 = unat b div 16" using calculation by simp
  ultimately show ?case by (simp add: b64_index_char less_mult_imp_div_less)
next
  case (4 a b c r)
  have "unat a < 256" "unat b < 256" "unat c < 256" by (rule unat_byte_less)+
  moreover have "(unat a mod 4 * 16 + unat b div 16) div 16 = unat a mod 4" using calculation by simp
  moreover have "(unat a mod 4 * 16 + unat b div 16) mod 16 = unat b div 16" using calculation by simp
  moreover have "(unat b mod 16 * 4 + unat c div 64) div 4 = unat b mod 16" using calculation by simp
  moreover have "(unat b mod 16 * 4 + unat c div 64) mod 4 = unat c div 64" using calculation by simp
  ultimately show ?case using 4 by (simp add: b64_index_char less_mult_imp_div_less)
qed simp

lemma length_b64encode: "length (b64encode bs) = (length bs + 2) div 3 * 4"
proof (induction bs rule: b64encode.induct)
  case (4 a b c r)
  have "(5 + length r) div 3 = Suc ((2 + length r) div 3)" by (simp add: div_add_self2 [symmetric])
  then show ?case using 4 by simp
qed auto

lemma b64encode_ascii: "list_all (\<lambda>c. c < 128) (b64encode bs)"
  by (induction bs rule: b64encode.induct) (auto simp: b64_char_ascii pad_char_def)

section \<open>Properties\<close>

text \<open>
  Inline payloads are exact. A text payload is accepted exactly when it is valid Unicode whose UTF-8 encoding fits the
  limit, and yields that encoding; a binary payload is accepted exactly when it is the canonical base64 spelling of bytes that
  fit the limit, and yields those bytes, so each content has one accepted spelling.
\<close>

theorem inline_payload_is_exact:
  "(encode_utf8 m t = Inr b \<longleftrightarrow> utf8_encode t = Some b \<and> int (length b) \<le> m) \<and>
   (decode_base64 m v = Inr d \<longleftrightarrow> v = b64encode d \<and> int (length d) \<le> m)"
proof
  show "encode_utf8 m t = Inr b \<longleftrightarrow> utf8_encode t = Some b \<and> int (length b) \<le> m"
    using utf8_size [of t] by (auto simp: encode_utf8_def split: option.splits)
  show "decode_base64 m v = Inr d \<longleftrightarrow> v = b64encode d \<and> int (length d) \<le> m"
  proof
    assume "decode_base64 m v = Inr d"
    then show "v = b64encode d \<and> int (length d) \<le> m"
      by (auto simp: decode_base64_def Let_def split: if_splits option.splits)
  next
    assume a: "v = b64encode d \<and> int (length d) \<le> m"
    have "(length d + 2) div 3 * 4 mod 4 = 0" by simp
    moreover have "int ((length d + 2) div 3 * 4) \<le> (m + 2) div 3 * 4"
    proof -
      have "(int (length d) + 2) div 3 \<le> (m + 2) div 3" using a by (intro zdiv_mono1) simp_all
      then show ?thesis by (simp add: zdiv_int)
    qed
    moreover have "\<not> list_ex (\<lambda>c. 127 < c) v" using b64encode_ascii [of d] a by (auto simp: list_ex_iff list_all_iff)
    ultimately show "decode_base64 m v = Inr d"
      using a by (auto simp: decode_base64_def Let_def b64_decode_encode length_b64encode)
  qed
qed

end
