(* ===== verification/File_Store.thy ===== *)
theory File_Store
  imports Path_Safety Inline_Codec "HOL-Library.AList"
begin

text \<open>
  The file system as the worker uses it: a store of files, directories and links keyed by path, the calls of the
  operating system that change it, and the checked access to it that \<open>worker/path_safety.py\<close> gives: resolution, directory
  guards and verified streams over a store. The lemmas show that every standing file or directory below a root passes the
  guard, for a host that resolves paths as documented.
\<close>

section \<open>The store\<close>

datatype fs_node = FileNode bytes | DirNode | LinkNode win_path

type_synonym file_store = "(win_path \<times> fs_node) list"

definition child :: "win_path \<Rightarrow> pystr \<Rightarrow> win_path" where
  "child p n = p\<lparr>wp_parts := wp_parts p @ [n]\<rparr>"

definition parent :: "win_path \<Rightarrow> win_path" where
  "parent p = p\<lparr>wp_parts := butlast (wp_parts p)\<rparr>"

definition path_name :: "win_path \<Rightarrow> pystr" where
  "path_name p = (if wp_parts p = [] then [] else last (wp_parts p))"

definition below :: "win_path \<Rightarrow> win_path \<Rightarrow> bool" where
  "below q p \<longleftrightarrow> wp_drive q = wp_drive p \<and> wp_root q = wp_root p \<and> prefix (wp_parts p) (wp_parts q)"

definition child_of :: "win_path \<Rightarrow> win_path \<Rightarrow> bool" where
  "child_of p q \<longleftrightarrow> wp_parts q \<noteq> [] \<and> parent q = p"

definition child_names :: "file_store \<Rightarrow> win_path \<Rightarrow> pystr list" where
  "child_names fs p = map (path_name \<circ> fst) (filter (child_of p \<circ> fst) fs)"

definition is_dir :: "file_store \<Rightarrow> win_path \<Rightarrow> bool" where
  "is_dir fs p \<longleftrightarrow> map_of fs p = Some DirNode"

definition is_file :: "file_store \<Rightarrow> win_path \<Rightarrow> bool" where
  "is_file fs p \<longleftrightarrow> (case map_of fs p of Some (FileNode _) \<Rightarrow> True | _ \<Rightarrow> False)"

definition file_data :: "file_store \<Rightarrow> win_path \<Rightarrow> bytes" where
  "file_data fs p = (case map_of fs p of Some (FileNode b) \<Rightarrow> b | _ \<Rightarrow> [])"

section \<open>Calls of the operating system\<close>

text \<open>The Python classes of an \<open>OSError\<close> the worker tells apart.\<close>

datatype os_error = OsPermission | OsNotFound | OsExists | OsOther

definition os_rmdir :: "win_path \<Rightarrow> file_store \<Rightarrow> os_error + file_store" where
  "os_rmdir p fs =
     (case map_of fs p of
        None \<Rightarrow> Inl OsNotFound
      | Some DirNode \<Rightarrow> if child_names fs p \<noteq> [] then Inl OsOther else Inr (AList.delete p fs)
      | Some _ \<Rightarrow> Inl OsOther)"

definition os_unlink :: "win_path \<Rightarrow> file_store \<Rightarrow> os_error + file_store" where
  "os_unlink p fs =
     (case map_of fs p of
        None \<Rightarrow> Inl OsNotFound
      | Some DirNode \<Rightarrow> Inl OsPermission
      | Some _ \<Rightarrow> Inr (AList.delete p fs))"

definition os_mkdir :: "win_path \<Rightarrow> file_store \<Rightarrow> os_error + file_store" where
  "os_mkdir p fs =
     (if map_of fs p \<noteq> None then (if is_dir fs p then Inr fs else Inl OsExists)
      else if \<not> is_dir fs (parent p) then Inl OsNotFound
      else Inr (fs @ [(p, DirNode)]))"

definition os_replace :: "win_path \<Rightarrow> win_path \<Rightarrow> file_store \<Rightarrow> os_error + file_store" where
  "os_replace source target fs =
     (case map_of fs source of
        None \<Rightarrow> Inl OsNotFound
      | Some node \<Rightarrow>
          if is_dir fs target then Inl OsPermission
          else if \<not> is_dir fs (parent target) then Inl OsNotFound
          else Inr (AList.update target node (AList.delete source fs)))"

section \<open>Checked access\<close>

text \<open>
  The host: the library's path functions, the policy, and what the operating system answers. Resolution and
  times depend on the store; a denied path cannot be opened or removed.
\<close>

record fs_host =
  fh_paths :: path_host
  fh_policy :: path_policy
  fh_resolve :: "file_store \<Rightarrow> bool \<Rightarrow> pystr \<Rightarrow> resolve_answer"
  fh_denied :: "win_path \<Rightarrow> bool"
  fh_mtime :: "file_store \<Rightarrow> win_path \<Rightarrow> int"
  fh_dir_size :: "file_store \<Rightarrow> win_path \<Rightarrow> int"

definition vet :: "fs_host \<Rightarrow> file_store \<Rightarrow> bool \<Rightarrow> win_path \<Rightarrow> path_error + win_path" where
  "vet h fs strict p = parse_path (fh_paths h) (fh_policy h) (fh_resolve h fs strict) (path_text p)"

fun entry_index :: "win_path \<Rightarrow> file_store \<Rightarrow> nat option" where
  "entry_index p [] = None"
| "entry_index p ((q, _) # fs) = (if q = p then Some 0 else map_option Suc (entry_index p fs))"

definition handle_prefix :: pystr where
  "handle_prefix = [92, 92, 63, 92]"

text \<open>A handle is the position of the entry it was opened on; its final path has the prefix of extended paths.\<close>

definition handles_with :: "int \<Rightarrow> (win_path \<Rightarrow> bool) \<Rightarrow> fs_host \<Rightarrow> file_store \<Rightarrow> handle_host" where
  "handles_with denied_code refused h fs =
     \<lparr>hh_open = (\<lambda>d.
        case fh_resolve h fs True (path_text d) of
          ResolveNotFound \<Rightarrow> Inl 2
        | ResolveFails \<Rightarrow> Inl 22
        | ResolvesTo q \<Rightarrow>
            if refused q then Inl denied_code
            else (case entry_index q fs of None \<Rightarrow> Inl 2 | Some k \<Rightarrow> Inr k)),
      hh_final = (\<lambda>k. if k < length fs then Inr (handle_prefix @ path_text (fst (fs ! k))) else Inl 6)\<rparr>"

text \<open>
  The directory guard reports the code of Win32, of which 5 is access denied; \<open>open\<close> reports the error number of the
  C library, of which 13 is access denied, also for a directory.
\<close>

definition dir_handles :: "fs_host \<Rightarrow> file_store \<Rightarrow> handle_host" where
  "dir_handles h fs = handles_with 5 (fh_denied h) h fs"

definition file_handles :: "fs_host \<Rightarrow> file_store \<Rightarrow> handle_host" where
  "file_handles h fs = handles_with 13 (\<lambda>q. fh_denied h q \<or> is_dir fs q) h fs"

text \<open>\<open>OSError(code, ...)\<close> becomes the subclass that belongs to the error number.\<close>

definition os_class :: "int \<Rightarrow> os_error" where
  "os_class n = (if n = 2 then OsNotFound else if n = 1 \<or> n = 13 then OsPermission else if n = 17 then OsExists else OsOther)"

datatype file_error =
    FilePath path_error
  | FileOs os_error
  | FileValue
  | FileInline inline_error
  | FileUnicode
  | UnsafeMutation
  | BulkApprovalRequired win_path int
  | RecursionLimit

fun of_guard :: "guard_error \<Rightarrow> file_error" where
  "of_guard (GuardPolicy e) = FilePath e"
| "of_guard (GuardOsError n) = FileOs (os_class n)"
| "of_guard GuardValueError = FileValue"

text \<open>Nobody else changes the store while an operation runs, so the guard's second resolution sees the same store.\<close>

definition guarded :: "fs_host \<Rightarrow> file_store \<Rightarrow> win_path \<Rightarrow> file_error + win_path" where
  "guarded h fs p =
     mapErr of_guard
       (bindR (fst (guard_directory (fh_paths h) (fh_policy h) (dir_handles h fs) (fh_resolve h fs True)
                      (fh_resolve h fs True) (path_text p)))
          (\<lambda>g. Inr (guard_final g)))"

text \<open>A verified stream: the data of the entry that was opened, and its final path.\<close>

definition opened_file :: "fs_host \<Rightarrow> file_store \<Rightarrow> win_path \<Rightarrow> file_error + bytes \<times> win_path" where
  "opened_file h fs p =
     mapErr of_guard
       (bindR (fst (open_verified_binary (fh_paths h) (fh_policy h) (file_handles h fs) (fh_resolve h fs True) (path_text p)))
          (\<lambda>(k, final). Inr (file_data fs (fst (fs ! k)), final)))"

section \<open>Well-formed stores\<close>

definition clean_path :: "win_path \<Rightarrow> bool" where
  "clean_path p \<longleftrightarrow> length (wp_drive p) = 2 \<and> wp_root p = [backslash] \<and> clean_parts (wp_parts p)"

definition store_ok :: "file_store \<Rightarrow> bool" where
  "store_ok fs \<longleftrightarrow> distinct (map fst fs) \<and>
     list_all (\<lambda>(q, _). clean_path q \<and> (wp_parts q \<noteq> [] \<longrightarrow> is_dir fs (parent q))) fs"

definition standing :: "file_store \<Rightarrow> win_path \<Rightarrow> bool" where
  "standing fs p \<longleftrightarrow> is_dir fs p \<or> is_file fs p"

lemma is_dir_standing [intro]: "is_dir fs p \<Longrightarrow> standing fs p"
  by (simp add: standing_def)

lemma standing_map_of: "standing fs p \<longleftrightarrow> map_of fs p = Some DirNode \<or> (\<exists>b. map_of fs p = Some (FileNode b))"
  by (auto simp: standing_def is_dir_def is_file_def split: option.splits fs_node.splits)

lemma standing_in: "standing fs p \<Longrightarrow> p \<in> fst ` set fs"
  by (auto simp: standing_map_of dest: map_of_SomeD intro: rev_image_eqI)

lemma store_ok_in:
  assumes "store_ok fs" "p \<in> fst ` set fs"
  shows "clean_path p" "wp_parts p \<noteq> [] \<Longrightarrow> is_dir fs (parent p)"
  using assms by (auto simp: store_ok_def list_all_iff)

lemma parent_simps [simp]:
  "wp_drive (parent p) = wp_drive p" "wp_root (parent p) = wp_root p" "wp_parts (parent p) = butlast (wp_parts p)"
  by (simp_all add: parent_def)

lemma child_simps [simp]:
  "wp_drive (child p n) = wp_drive p" "wp_root (child p n) = wp_root p" "wp_parts (child p n) = wp_parts p @ [n]"
  "parent (child p n) = p" "path_name (child p n) = n"
  by (simp_all add: child_def parent_def path_name_def)

lemma child_parent: "wp_parts p \<noteq> [] \<Longrightarrow> child (parent p) (path_name p) = p"
  by (simp add: child_def parent_def path_name_def)

lemma below_refl [simp, intro]: "below p p"
  by (simp add: below_def)

lemma below_trans: "below a b \<Longrightarrow> below b c \<Longrightarrow> below a c"
  by (auto simp: below_def)

lemma below_child [simp, intro]: "below (child p n) p"
  by (simp add: below_def)

lemma below_antisym: "below a b \<Longrightarrow> below b a \<Longrightarrow> a = b"
  by (auto simp: below_def intro!: win_path.equality)

lemma below_parent: "wp_parts p \<noteq> [] \<Longrightarrow> below p (parent p)"
  by (metis below_child child_parent)

text \<open>Every ancestor of an entry is a directory of the store.\<close>

lemma ancestor_is_dir:
  assumes "store_ok fs" "below p a" "a \<noteq> p" "p \<in> fst ` set fs"
  shows "is_dir fs a"
  using assms(2-4)
proof (induction "length (wp_parts p)" arbitrary: p)
  case 0
  then show ?case by (auto simp: below_def intro!: win_path.equality)
next
  case (Suc n)
  then have ne: "wp_parts p \<noteq> []" by auto
  then have d: "is_dir fs (parent p)" using store_ok_in(2) [OF assms(1)] Suc by blast
  have pre: "prefix (wp_parts a) (butlast (wp_parts p))"
  proof -
    have "prefix (wp_parts a) (butlast (wp_parts p) @ [last (wp_parts p)])" using Suc(3) ne by (simp add: below_def)
    moreover have "wp_parts a \<noteq> wp_parts p" using Suc(3,4) by (auto simp: below_def intro!: win_path.equality)
    ultimately show ?thesis using ne by (metis prefix_snoc append_butlast_last_id)
  qed
  then have b: "below (parent p) a" using Suc(3) by (simp add: below_def)
  show ?case
  proof (cases "parent p = a")
    case True then show ?thesis using d by simp
  next
    case False
    have "n = length (wp_parts (parent p))" using Suc(2) by simp
    then show ?thesis using Suc(1) [of "parent p"] b False is_dir_standing [OF d, THEN standing_in] by blast
  qed
qed

lemma entry_index_Some: "p \<in> fst ` set fs \<Longrightarrow> \<exists>k. entry_index p fs = Some k \<and> k < length fs \<and> fst (fs ! k) = p"
proof (induction fs)
  case (Cons e fs)
  obtain q x where e: "e = (q, x)" by (cases e)
  show ?case
  proof (cases "q = p")
    case True
    then show ?thesis using e by simp
  next
    case False
    with Cons e obtain k where "entry_index p fs = Some k" "k < length fs" "fst (fs ! k) = p" by auto
    then show ?thesis using e False by (intro exI [where x = "Suc k"]) simp
  qed
qed simp

section \<open>What is documented of the host\<close>

text \<open>
  Resolution answers a file or directory that is reached through directories by itself, and strictness only
  matters for what is missing; the library reads the final path of a handle back as that path.
\<close>

definition host_laws :: "fs_host \<Rightarrow> bool" where
  "host_laws h \<longleftrightarrow>
     (\<forall>fs strict p. store_ok fs \<and> standing fs p \<longrightarrow> fh_resolve h fs strict (path_text p) = ResolvesTo p) \<and>
     (\<forall>fs t p. fh_resolve h fs True t = ResolvesTo p \<longrightarrow> fh_resolve h fs False t = ResolvesTo p) \<and>
     (\<forall>p. clean_path p \<longrightarrow> normalize_handle_path (fh_paths h) (handle_prefix @ path_text p) = p)"

text \<open>The policy admits a path: its text passes, and it stands below a root whenever it counts as within it.\<close>

definition admitted :: "fs_host \<Rightarrow> win_path \<Rightarrow> bool" where
  "admitted h p \<longleftrightarrow> validate_namespace (fh_paths h) (fh_policy h) (path_text p) = Inr () \<and>
     list_ex (below p) (pp_allowed_roots (fh_policy h)) \<and>
     list_all (\<lambda>r. is_within (fh_paths h) p r \<longrightarrow> below p r) (pp_allowed_roots (fh_policy h))"

lemma host_resolves: "host_laws h \<Longrightarrow> store_ok fs \<Longrightarrow> standing fs p \<Longrightarrow> fh_resolve h fs strict (path_text p) = ResolvesTo p"
  by (simp add: host_laws_def)

lemma below_within: "below p r \<Longrightarrow> is_within host p r"
  by (auto simp: below_def elim!: prefixE intro: extension_is_within)

lemma below_require_allowed:
  "below p r \<Longrightarrow> r \<in> set (pp_allowed_roots policy) \<Longrightarrow> require_allowed host policy raw p = Inr ()"
  using below_within by (auto simp: require_allowed_def list_ex_iff)

lemma admitted_root: "admitted h p \<Longrightarrow> \<exists>r \<in> set (pp_allowed_roots (fh_policy h)). below p r"
  by (auto simp: admitted_def list_ex_iff)

lemma vet_standing:
  assumes "host_laws h" "store_ok fs" "standing fs p" "admitted h p"
  shows "vet h fs strict p = Inr p"
  using assms admitted_root [OF assms(4)]
  by (auto simp: vet_def parse_path_def host_resolves admitted_def below_require_allowed)

lemma guarded_paths_shape: "guarded_paths r rel = map (\<lambda>i. r\<lparr>wp_parts := wp_parts r @ take i rel\<rparr>) [0..<Suc (length rel)]"
proof (induction rel arbitrary: r)
  case (Cons p ps)
  have "map (\<lambda>i. r\<lparr>wp_parts := wp_parts r @ take i (p # ps)\<rparr>) [0..<Suc (length (p # ps))] =
      r # map (\<lambda>i. r\<lparr>wp_parts := wp_parts r @ take (Suc i) (p # ps)\<rparr>) [0..<Suc (length ps)]"
    by (simp only: list.size add_Suc_right add_0_right map_upt_Suc) simp
  then show ?case using Cons [of "r\<lparr>wp_parts := wp_parts r @ [p]\<rparr>"] by simp
qed simp

lemma open_chain_succeeds:
  assumes "\<And>d. d \<in> set ds \<Longrightarrow> \<exists>k t. hh_open hh d = Inr k \<and> hh_final hh k = Inr t \<and> normalize_handle_path host t = d \<and>
      require_allowed host policy raw d = Inr ()"
  shows "\<exists>hs'. open_chain host policy hh raw ds final hs = (Inr (last (final # ds)), hs')"
  using assms
proof (induction ds arbitrary: final hs)
  case (Cons d ds)
  obtain k t where d: "hh_open hh d = Inr k" "hh_final hh k = Inr t" "normalize_handle_path host t = d"
    "require_allowed host policy raw d = Inr ()"
    using Cons(2) by force
  obtain hs' where "open_chain host policy hh raw ds d (hs @ [k]) = (Inr (last (d # ds)), hs')"
    using Cons(1) [of d "hs @ [k]"] Cons(2) by auto
  then show ?case using d by simp
qed simp

text \<open>A standing entry that the policy admits passes its guard and names the final path of the guard.\<close>

lemma dir_handle:
  assumes "host_laws h" "store_ok fs" "standing fs p" "\<not> fh_denied h p"
  shows "\<exists>k t. hh_open (dir_handles h fs) p = Inr k \<and> hh_final (dir_handles h fs) k = Inr t \<and>
    normalize_handle_path (fh_paths h) t = p"
proof -
  obtain k where "entry_index p fs = Some k" "k < length fs" "fst (fs ! k) = p"
    using entry_index_Some [OF standing_in [OF assms(3)]] by blast
  moreover have "clean_path p" using store_ok_in(1) [OF assms(2) standing_in [OF assms(3)]] .
  ultimately show ?thesis
    using assms by (simp add: dir_handles_def handles_with_def host_resolves) (simp add: host_laws_def)
qed

lemma relative_below: "below p r \<Longrightarrow> relative_parts host p r = Some (drop (length (wp_parts r)) (wp_parts p))"
  by (auto simp: relative_parts_def below_def map_mono_prefix)

lemma deepest_exists:
  assumes "r0 \<in> set (pp_allowed_roots policy)" "is_within host p r0"
  shows "\<exists>r. deepest_root host policy p = Some r \<and> r \<in> set (pp_allowed_roots policy) \<and> is_within host p r"
proof -
  let ?c = "filter (is_within host p) (pp_allowed_roots policy)"
  let ?P = "\<lambda>r. list_all (\<lambda>q. length (wp_parts q) \<le> length (wp_parts r)) ?c"
  have ne: "set ?c \<noteq> {}" using assms by auto
  let ?m = "Max ((\<lambda>q. length (wp_parts q)) ` set ?c)"
  have "?m \<in> (\<lambda>q. length (wp_parts q)) ` set ?c" using ne by (intro Max_in) auto
  then obtain r where r: "r \<in> set ?c" "length (wp_parts r) = ?m" by auto
  have "?P r" using r(2) by (auto simp: list_all_iff)
  then have "find ?P ?c \<noteq> None" using r(1) by (auto simp: find_None_iff)
  then obtain r' where "find ?P ?c = Some r'" by blast
  moreover from this have "r' \<in> set ?c" unfolding find_Some_iff by (metis nth_mem)
  ultimately show ?thesis by (auto simp: deepest_root_def Let_def)
qed

text \<open>The directories a guard opens: from an allowed root down to the path, all of them standing.\<close>

lemma guard_chain:
  assumes "host_laws h" "store_ok fs" "standing fs p" "admitted h p"
  obtains r ds where
    "\<And>res hs. open_chain (fh_paths h) (fh_policy h) (dir_handles h fs) (path_text p) (ds @ [p]) r [] = (res, hs) \<Longrightarrow>
      res = Inr p \<or> isl res \<Longrightarrow> guarded h fs p = mapErr of_guard res"
    "\<And>d. d \<in> set (ds @ [p]) \<Longrightarrow> standing fs d \<and> below p d \<and>
      require_allowed (fh_paths h) (fh_policy h) (path_text p) d = Inr ()"
    "p \<notin> set ds"
proof -
  let ?host = "fh_paths h" and ?policy = "fh_policy h" and ?hh = "dir_handles h fs"
  obtain r0 where r0: "r0 \<in> set (pp_allowed_roots ?policy)" "below p r0" using admitted_root [OF assms(4)] by blast
  obtain r where r: "deepest_root ?host ?policy p = Some r" "r \<in> set (pp_allowed_roots ?policy)" "is_within ?host p r"
    using deepest_exists [OF r0(1) below_within [OF r0(2)]] by blast
  have bel: "below p r" using assms(4) r(2,3) by (auto simp: admitted_def list_all_iff)
  obtain rel where parts: "wp_parts p = wp_parts r @ rel" using bel by (auto simp: below_def elim: prefixE)
  define at where "at = (\<lambda>i. r\<lparr>wp_parts := wp_parts r @ take i rel\<rparr>)"
  have p: "at (length rel) = p"
    using bel parts by (auto simp: at_def below_def intro!: win_path.equality)
  let ?ds = "map at [0..<length rel]"
  have chain: "guarded_paths r rel = ?ds @ [p]"
    unfolding p [symmetric] guarded_paths_shape at_def by (simp only: upt_Suc_append le0 map_append list.map)
  have relative: "relative_parts ?host p r = Some rel" using relative_below [OF bel] parts by simp
  have member: "below p d \<and> below d r" if "d \<in> set (?ds @ [p])" for d
  proof -
    have "below p (at i) \<and> below (at i) r" for i
    proof -
      have "prefix (wp_parts r @ take i rel) (wp_parts r @ rel)" by (simp add: take_is_prefix)
      then show ?thesis using bel parts by (simp add: below_def at_def)
    qed
    then show ?thesis using that bel by auto
  qed
  show thesis
  proof (rule that)
    show "guarded h fs p = mapErr of_guard res"
      if c: "open_chain ?host ?policy ?hh (path_text p) (?ds @ [p]) r [] = (res, hs)" "res = Inr p \<or> isl res" for res hs
    proof -
      have v: "parse_path ?host ?policy (fh_resolve h fs True) (path_text p) = Inr p"
        using vet_standing [OF assms] by (simp add: vet_def)
      have "guard_directory ?host ?policy ?hh (fh_resolve h fs True) (fh_resolve h fs True) (path_text p) =
          (case res of Inl e \<Rightarrow> (Inl e, rev hs)
           | Inr final \<Rightarrow> (case require_same_path ?host (path_text p) p final of
                Inl e \<Rightarrow> (Inl (GuardPolicy e), rev hs)
              | Inr _ \<Rightarrow> (Inr \<lparr>guard_handles = hs, guard_final = final\<rparr>, [])))"
        by (simp only: guard_directory_def v r(1) relative chain c(1) sum.case option.case prod.case)
      then show ?thesis
        using c(2) by (cases res) (simp_all add: guarded_def require_same_path_def)
    qed
    show "standing fs d \<and> below p d \<and> require_allowed ?host ?policy (path_text p) d = Inr ()" if "d \<in> set (?ds @ [p])" for d
    proof -
      have "standing fs d"
        using member [OF that] assms(3) ancestor_is_dir [OF assms(2) _ _ standing_in [OF assms(3)]] is_dir_standing by metis
      then show ?thesis using member [OF that] below_require_allowed [OF _ r(2)] by blast
    qed
    show "p \<notin> set ?ds"
    proof
      assume "p \<in> set ?ds"
      then obtain i where i: "i < length rel" "at i = p" by auto
      then have "length (wp_parts (at i)) = length (wp_parts r) + length rel" using parts by simp
      then show False using i(1) by (simp add: at_def)
    qed
  qed
qed

lemma guarded_standing:
  assumes "host_laws h" "store_ok fs" "standing fs p" "admitted h p"
    and free: "\<And>q. standing fs q \<Longrightarrow> below p q \<Longrightarrow> \<not> fh_denied h q"
  shows "guarded h fs p = Inr p"
proof (rule guard_chain [OF assms(1-4)])
  fix r ds
  assume c: "\<And>res hs. open_chain (fh_paths h) (fh_policy h) (dir_handles h fs) (path_text p) (ds @ [p]) r [] = (res, hs) \<Longrightarrow>
      res = Inr p \<or> isl res \<Longrightarrow> guarded h fs p = mapErr of_guard res"
    "\<And>d. d \<in> set (ds @ [p]) \<Longrightarrow> standing fs d \<and> below p d \<and>
      require_allowed (fh_paths h) (fh_policy h) (path_text p) d = Inr ()" "p \<notin> set ds"
  have "\<exists>k t. hh_open (dir_handles h fs) d = Inr k \<and> hh_final (dir_handles h fs) k = Inr t \<and>
      normalize_handle_path (fh_paths h) t = d \<and> require_allowed (fh_paths h) (fh_policy h) (path_text p) d = Inr ()"
    if "d \<in> set (ds @ [p])" for d
    using dir_handle [OF assms(1,2), of d] c(2) [OF that] free by blast
  from open_chain_succeeds [of "ds @ [p]", OF this] obtain hs where
    "open_chain (fh_paths h) (fh_policy h) (dir_handles h fs) (path_text p) (ds @ [p]) r [] = (Inr p, hs)" by fastforce
  from c(1) [OF this] show ?thesis by simp
qed

text \<open>A denied entry: the guard fails with Win32's code 5, which is no error number of a refused permission.\<close>

lemma open_chain_fails:
  assumes "\<And>d. d \<in> set ds \<Longrightarrow> \<exists>k t. hh_open hh d = Inr k \<and> hh_final hh k = Inr t \<and> normalize_handle_path host t = d \<and>
      require_allowed host policy raw d = Inr ()"
    and "hh_open hh p = Inl n"
  shows "\<exists>hs'. open_chain host policy hh raw (ds @ [p]) final hs = (Inl (GuardOsError n), hs')"
  using assms(1)
proof (induction ds arbitrary: final hs)
  case Nil
  then show ?case using assms(2) by simp
next
  case (Cons d ds)
  obtain k t where d: "hh_open hh d = Inr k" "hh_final hh k = Inr t" "normalize_handle_path host t = d"
    "require_allowed host policy raw d = Inr ()"
    using Cons(2) by force
  obtain hs' where "open_chain host policy hh raw (ds @ [p]) d (hs @ [k]) = (Inl (GuardOsError n), hs')"
    using Cons(1) [of d "hs @ [k]"] Cons(2) by auto
  then show ?case using d by simp
qed

lemma guarded_denied:
  assumes "host_laws h" "store_ok fs" "standing fs p" "admitted h p" "fh_denied h p"
    and free: "\<And>q. standing fs q \<Longrightarrow> below p q \<Longrightarrow> q \<noteq> p \<Longrightarrow> \<not> fh_denied h q"
  shows "guarded h fs p = Inl (FileOs OsOther)"
proof (rule guard_chain [OF assms(1-4)])
  fix r ds
  assume c: "\<And>res hs. open_chain (fh_paths h) (fh_policy h) (dir_handles h fs) (path_text p) (ds @ [p]) r [] = (res, hs) \<Longrightarrow>
      res = Inr p \<or> isl res \<Longrightarrow> guarded h fs p = mapErr of_guard res"
    "\<And>d. d \<in> set (ds @ [p]) \<Longrightarrow> standing fs d \<and> below p d \<and>
      require_allowed (fh_paths h) (fh_policy h) (path_text p) d = Inr ()" "p \<notin> set ds"
  have "\<exists>k t. hh_open (dir_handles h fs) d = Inr k \<and> hh_final (dir_handles h fs) k = Inr t \<and>
      normalize_handle_path (fh_paths h) t = d \<and> require_allowed (fh_paths h) (fh_policy h) (path_text p) d = Inr ()"
    if "d \<in> set ds" for d
  proof -
    have "d \<in> set (ds @ [p])" "d \<noteq> p" using that c(3) by auto
    then show ?thesis using dir_handle [OF assms(1,2), of d] c(2) [of d] free by blast
  qed
  moreover have "hh_open (dir_handles h fs) p = Inl 5"
    using host_resolves [OF assms(1-3)] assms(5) by (simp add: dir_handles_def handles_with_def)
  ultimately obtain hs where
    "open_chain (fh_paths h) (fh_policy h) (dir_handles h fs) (path_text p) (ds @ [p]) r [] = (Inl (GuardOsError 5), hs)"
    using open_chain_fails [of ds] by metis
  from c(1) [OF this] show ?thesis by (simp add: os_class_def)
qed

lemma opened_standing:
  assumes "host_laws h" "store_ok fs" "is_file fs p" "admitted h p" "\<not> fh_denied h p"
  shows "opened_file h fs p = Inr (file_data fs p, p)"
proof -
  have st: "standing fs p" using assms(3) by (simp add: standing_def)
  obtain k where k: "entry_index p fs = Some k" "k < length fs" "fst (fs ! k) = p"
    using entry_index_Some [OF standing_in [OF st]] by blast
  have nd: "\<not> is_dir fs p" using assms(3) by (auto simp: is_file_def is_dir_def)
  have "clean_path p" using store_ok_in(1) [OF assms(2) standing_in [OF st]] .
  then have n: "normalize_handle_path (fh_paths h) (handle_prefix @ path_text p) = p" using assms(1) by (simp add: host_laws_def)
  obtain r0 where "r0 \<in> set (pp_allowed_roots (fh_policy h))" "below p r0" using admitted_root [OF assms(4)] by blast
  then have "require_allowed (fh_paths h) (fh_policy h) (path_text p) p = Inr ()" by (simp add: below_require_allowed)
  moreover have "parse_path (fh_paths h) (fh_policy h) (fh_resolve h fs True) (path_text p) = Inr p"
    using vet_standing [OF assms(1,2) st assms(4)] by (simp add: vet_def)
  ultimately show ?thesis
    using k n nd assms(5) host_resolves [OF assms(1,2) st]
    by (simp add: opened_file_def open_verified_binary_def file_handles_def handles_with_def Let_def)
qed

text \<open>A verified stream holds the data of the file the path resolves to.\<close>

lemma vet_resolves: "vet h fs strict p = Inr q \<Longrightarrow> fh_resolve h fs strict (path_text p) = ResolvesTo q"
  by (auto simp: vet_def parse_path_def bindR_eq_Inr split: resolve_answer.splits)

lemma vet_allowed: "vet h fs strict p = Inr q \<Longrightarrow> \<exists>r \<in> set (pp_allowed_roots (fh_policy h)). is_within (fh_paths h) q r"
  by (auto simp: vet_def parse_path_def bindR_eq_Inr require_allowed_def list_ex_iff split: resolve_answer.splits if_splits)

lemma opened_data:
  assumes "host_laws h" "store_ok fs" "opened_file h fs p = Inr (content, final)"
    and "fh_resolve h fs True (path_text p) = ResolvesTo q" "is_file fs q"
  shows "content = file_data fs q" "final = q"
proof -
  have st: "standing fs q" using assms(5) by (simp add: standing_def)
  obtain k where k: "entry_index q fs = Some k" "k < length fs" "fst (fs ! k) = q"
    using entry_index_Some [OF standing_in [OF st]] by blast
  have "clean_path q" using store_ok_in(1) [OF assms(2) standing_in [OF st]] .
  then have n: "normalize_handle_path (fh_paths h) (handle_prefix @ path_text q) = q" using assms(1) by (simp add: host_laws_def)
  show "content = file_data fs q" "final = q"
    using assms(3,4) k n host_resolves [OF assms(1,2) st]
    by (auto simp: opened_file_def open_verified_binary_def file_handles_def handles_with_def Let_def parse_path_def bindR_eq_Inr
        require_allowed_def split: sum.splits if_splits)
qed

section \<open>Parts of a store\<close>

definition keeping :: "(win_path \<Rightarrow> bool) \<Rightarrow> file_store \<Rightarrow> file_store" where
  "keeping K fs = filter (K \<circ> fst) fs"

definition without :: "file_store \<Rightarrow> win_path \<Rightarrow> file_store" where
  "without fs p = keeping (\<lambda>q. \<not> below q p) fs"

lemma map_of_keeping: "map_of (keeping K fs) q = (if K q then map_of fs q else None)"
  by (induction fs) (auto simp: keeping_def)

lemma is_dir_keeping [simp]: "is_dir (keeping K fs) q \<longleftrightarrow> K q \<and> is_dir fs q"
  by (simp add: is_dir_def map_of_keeping)

lemma standing_keeping [simp]: "standing (keeping K fs) q \<longleftrightarrow> K q \<and> standing fs q"
  by (auto simp: standing_map_of map_of_keeping)

lemma keys_keeping: "fst ` set (keeping K fs) = {q \<in> fst ` set fs. K q}"
  by (auto simp: keeping_def)

lemma keeping_keeping: "keeping K (keeping L fs) = keeping (\<lambda>q. L q \<and> K q) fs"
  by (simp add: keeping_def comp_def)

lemma keeping_cong: "(\<And>q. q \<in> fst ` set fs \<Longrightarrow> K q = L q) \<Longrightarrow> keeping K fs = keeping L fs"
  unfolding keeping_def by (rule filter_cong [OF refl]) simp

lemma delete_keeping: "AList.delete p fs = keeping (\<lambda>q. q \<noteq> p) fs"
  by (auto simp: keeping_def AList.delete_eq intro!: filter_cong)

lemma store_ok_keeping:
  assumes "store_ok fs" "\<And>q. wp_parts q \<noteq> [] \<Longrightarrow> K q \<Longrightarrow> K (parent q)"
  shows "store_ok (keeping K fs)"
  using assms by (auto simp: store_ok_def list_all_iff) (auto simp: keeping_def distinct_map_filter)

lemma child_names_keeping: "child_names (keeping K fs) p = map (path_name \<circ> fst) (filter (child_of p \<circ> fst) (filter (K \<circ> fst) fs))"
  by (simp add: child_names_def keeping_def)

lemma child_names_iff: "n \<in> set (child_names fs p) \<longleftrightarrow> child p n \<in> fst ` set fs"
proof
  assume "n \<in> set (child_names fs p)"
  then obtain q x where q: "(q, x) \<in> set fs" "child_of p q" "n = path_name q" by (auto simp: child_names_def)
  then have "q = child p n" using child_parent [of q] by (auto simp: child_of_def)
  then show "child p n \<in> fst ` set fs" using q(1) by (auto intro: rev_image_eqI)
next
  assume "child p n \<in> fst ` set fs"
  then obtain x where "(child p n, x) \<in> set fs" by auto
  then show "n \<in> set (child_names fs p)"
    unfolding child_names_def set_map set_filter by (intro rev_image_eqI [where x = "(child p n, x)"]) (auto simp: child_of_def)
qed

lemma distinct_child_names: "store_ok fs \<Longrightarrow> distinct (child_names fs p)"
proof -
  assume ok: "store_ok fs"
  have "inj_on (path_name \<circ> fst) (set (filter (child_of p \<circ> fst) fs))"
  proof (rule inj_onI)
    fix a b assume ab: "a \<in> set (filter (child_of p \<circ> fst) fs)" "b \<in> set (filter (child_of p \<circ> fst) fs)" "(path_name \<circ> fst) a = (path_name \<circ> fst) b"
    then have "fst a = fst b" using child_parent [of "fst a"] child_parent [of "fst b"] by (auto simp: child_of_def)
    then show "a = b" using ab(1,2) ok by (cases a; cases b) (auto simp: store_ok_def dest: eq_key_imp_eq_value)
  qed
  moreover have "distinct (filter (child_of p \<circ> fst) fs)" using ok by (auto simp: store_ok_def distinct_map)
  ultimately show ?thesis by (simp add: child_names_def distinct_map)
qed

text \<open>What is below a path is the path or below one of its children.\<close>

lemma below_cases:
  assumes "store_ok fs" "q \<in> fst ` set fs" "below q p" "q \<noteq> p"
  shows "\<exists>n \<in> set (child_names fs p). below q (child p n)"
proof -
  obtain ps where ps: "wp_parts q = wp_parts p @ ps" using assms(3) by (auto simp: below_def elim: prefixE)
  have "ps \<noteq> []" using ps assms(3,4) by (auto simp: below_def intro!: win_path.equality)
  then obtain n r where n: "ps = n # r" by (cases ps) auto
  have b: "below q (child p n)" using assms(3) ps n by (simp add: below_def)
  have "child p n \<in> fst ` set fs"
    using ancestor_is_dir [OF assms(1) b _ assms(2)] assms(2) standing_in [OF is_dir_standing] by (cases "child p n = q") auto
  then show ?thesis using b child_names_iff by blast
qed

section \<open>A concrete host\<close>

definition read_back :: "pystr \<Rightarrow> win_path" where
  "read_back s = \<lparr>wp_drive = take 2 s, wp_root = take 1 (drop 2 s),
                  wp_parts = filter (\<lambda>p. p \<noteq> []) (split_on backslash (drop 3 s))\<rparr>"

definition sample_resolve :: "file_store \<Rightarrow> bool \<Rightarrow> pystr \<Rightarrow> resolve_answer" where
  "sample_resolve fs strict t =
     (case find (\<lambda>e. path_text (fst e) = t) fs of
        Some (q, LinkNode u) \<Rightarrow> ResolvesTo u
      | Some (q, _) \<Rightarrow> ResolvesTo q
      | None \<Rightarrow> if strict then ResolveNotFound else ResolvesTo (read_back t))"

definition store_host :: fs_host where
  "store_host =
     \<lparr>fh_paths = \<lparr>ph_casefold = id, ph_lower = id, ph_normcase = map (\<lambda>c. if c = 47 then backslash else c),
                  ph_path = read_back\<rparr>,
      fh_policy = sample_policy, fh_resolve = sample_resolve, fh_denied = (\<lambda>_. False), fh_mtime = (\<lambda>_ _. 0),
      fh_dir_size = (\<lambda>_ _. 0)\<rparr>"

lemma split_on_append: "d \<notin> set p \<Longrightarrow> split_on d (p @ d # s) = p # split_on d s"
  by (induction p) auto

lemma split_on_single: "d \<notin> set p \<Longrightarrow> split_on d p = [p]"
  by (induction p) auto

lemma split_join: "clean_parts ps \<Longrightarrow> ps \<noteq> [] \<Longrightarrow> split_on backslash (join_parts ps) = ps"
  by (induction ps rule: join_parts.induct) (auto simp: clean_parts_def split_on_append split_on_single)

lemma read_back_text:
  assumes "clean_path p"
  shows "read_back (path_text p) = p"
proof -
  obtain a b where d: "wp_drive p = [a, b]" using assms by (auto simp: clean_path_def length_Suc_conv numeral_2_eq_2)
  have "filter (\<lambda>p. p \<noteq> []) (split_on backslash (join_parts (wp_parts p))) = wp_parts p"
  proof (cases "wp_parts p = []")
    case False
    then show ?thesis using assms split_join [of "wp_parts p"] by (auto simp: clean_path_def clean_parts_def list_all_iff filter_id_conv)
  qed simp
  then show ?thesis using assms d by (auto simp: read_back_def path_text_def clean_path_def intro!: win_path.equality)
qed

lemma store_host_laws: "host_laws store_host"
  unfolding host_laws_def
proof (intro conjI allI impI)
  fix fs strict p assume a: "store_ok fs \<and> standing fs p"
  have p: "p \<in> fst ` set fs" "clean_path p" using a standing_in store_ok_in(1) by blast+
  then obtain e where e: "find (\<lambda>e. path_text (fst e) = path_text p) fs = Some e"
    by (cases "find (\<lambda>e. path_text (fst e) = path_text p) fs") (auto simp: find_None_iff)
  then have "e \<in> set fs" "path_text (fst e) = path_text p" by (auto simp: find_Some_iff)
  then have "fst e = p" using read_back_text p a store_ok_in(1) by (metis image_eqI)
  moreover obtain q n where qn: "e = (q, n)" by (cases e)
  ultimately have "map_of fs p = Some n" using \<open>e \<in> set fs\<close> a by (auto simp: store_ok_def)
  then show "fh_resolve store_host fs strict (path_text p) = ResolvesTo p"
    using e qn a \<open>fst e = p\<close> by (auto simp: store_host_def sample_resolve_def standing_map_of)
next
  fix fs t p assume "fh_resolve store_host fs True t = ResolvesTo p"
  then show "fh_resolve store_host fs False t = ResolvesTo p"
    by (auto simp: store_host_def sample_resolve_def split: option.splits prod.splits fs_node.splits)
next
  fix p assume c: "clean_path p"
  then obtain a b where "wp_drive p = [a, b]" by (auto simp: clean_path_def length_Suc_conv numeral_2_eq_2)
  then have "path_text p = a # b # 92 # join_parts (wp_parts p)" using c by (simp add: path_text_def clean_path_def backslash_def)
  then show "normalize_handle_path (fh_paths store_host) (handle_prefix @ path_text p) = p"
    using read_back_text [OF c] by (simp add: normalize_handle_path_def store_host_def handle_prefix_def)
qed

definition sample_path :: "string list \<Rightarrow> win_path" where
  "sample_path ns = \<lparr>wp_drive = ustr ''C:'', wp_root = [backslash], wp_parts = map ustr ns\<rparr>"

definition sample_store :: file_store where
  "sample_store =
     [(sample_path [], DirNode), (sample_path [''work''], DirNode), (sample_path [''work'', ''d''], DirNode),
      (sample_path [''work'', ''d'', ''f''], FileNode [1])]"

lemma sample_path_eq [simp]: "sample_path ns = sample_path ms \<longleftrightarrow> ns = ms"
  by (auto simp: sample_path_def inj_map_eq_map inj_def)

lemma parent_sample [simp]: "parent (sample_path ns) = sample_path (butlast ns)"
  by (simp add: parent_def sample_path_def map_butlast)

lemma below_sample: "below (sample_path ns) (sample_path ms) \<longleftrightarrow> prefix ms ns"
proof -
  have "inj ustr" by (simp add: inj_def)
  then have "prefix (map ustr ms) (map ustr ns) \<longleftrightarrow> prefix ms ns"
    by (auto simp: prefix_def map_eq_append_conv inj_map_eq_map)
  then show ?thesis by (simp add: below_def sample_path_def)
qed

lemma sample_store_ok: "store_ok sample_store"
  by (simp add: store_ok_def sample_store_def is_dir_def)
    (auto simp: clean_path_def sample_path_def clean_parts_def backslash_def)

lemma sample_is_within: "is_within (fh_paths store_host) (sample_path (''work'' # ns)) work_root"
  by (rule extension_is_within) (simp_all add: sample_path_def work_root_def)

lemma sample_admitted: "ns \<in> {[''work''], [''work'', ''d''], [''work'', ''d'', ''f''], [''work'', ''g'']} \<Longrightarrow> admitted store_host (sample_path ns)"
  by (auto simp: admitted_def store_host_def sample_policy_def below_def work_root_def sample_path_def path_text_def
      validate_namespace_def windows_text_def device_prefixes_def colon_indexes_def backslash_def component_name_def
      rstrip_chars_def reserved_device_def word_matches_def port_digit_def letter_matches_def)

end
