(* ===== verification/Filesystem_Worker.thy ===== *)
theory Filesystem_Worker
  imports File_Store
begin

text \<open>
  The file operations of the worker (\<open>worker/filesystem.py\<close>, and \<open>delete_safely\<close> of \<open>tools/filesystem.py\<close>) over the
  store of \<open>File_Store\<close>. An operation that changes the store returns its result with the stores it passed through, one
  per call of the operating system, so that what a crash or a failing call leaves behind can be stated. The lemmas show that
  files are replaced as a whole, that a move never loses its data, that a listing reports every child, and that a deletion
  removes what was counted for the approval.
\<close>

section \<open>Limits and results\<close>

record file_limits =
  fl_max_read :: int
  fl_max_write :: int
  fl_bulk_threshold :: int
  fl_approval_categories :: "string list"

record file_stat =
  st_final_path :: win_path
  st_name :: pystr
  st_size :: int
  st_modified :: int
  st_directory :: bool

record mutation_result =
  mu_final_path :: win_path
  mu_changed :: bool
  mu_size :: "int option"
  mu_modified :: "int option"

record list_result =
  ls_final_path :: win_path
  ls_entries :: "file_stat list"
  ls_unavailable :: "(pystr \<times> string) list"

datatype read_encoding = EncodeText | EncodeBase64

record read_result =
  rd_final_path :: win_path
  rd_size :: int
  rd_modified :: int
  rd_text :: "pystr option"
  rd_base64 :: "pystr option"

definition node_size :: "fs_host \<Rightarrow> file_store \<Rightarrow> win_path \<Rightarrow> int" where
  "node_size h fs p = (if is_file fs p then int (length (file_data fs p)) else fh_dir_size h fs p)"

section \<open>Reading\<close>

definition stat_file :: "fs_host \<Rightarrow> file_store \<Rightarrow> win_path \<Rightarrow> file_error + file_stat" where
  "stat_file h fs p =
     bindR (guarded h fs p) (\<lambda>target.
       if \<not> standing fs target then Inl (FileOs OsNotFound)
       else Inr \<lparr>st_final_path = target, st_name = path_name target, st_size = node_size h fs target,
                 st_modified = fh_mtime h fs target, st_directory = is_dir fs target\<rparr>)"

text \<open>Why a child is unavailable; \<open>None\<close> is an exception that \<open>list\<close> does not catch.\<close>

fun unavailable_reason :: "file_error \<Rightarrow> string option" where
  "unavailable_reason (FilePath (PathPolicyError reason _)) = Some reason"
| "unavailable_reason (FilePath PathNotFound) = Some ''not_found''"
| "unavailable_reason (FileOs OsPermission) = Some ''access_denied''"
| "unavailable_reason (FileOs OsNotFound) = Some ''not_found''"
| "unavailable_reason (FileOs _) = Some ''metadata_unavailable''"
| "unavailable_reason _ = None"

primrec list_children ::
  "fs_host \<Rightarrow> file_store \<Rightarrow> win_path \<Rightarrow> pystr list \<Rightarrow> file_error + file_stat list \<times> (pystr \<times> string) list" where
  "list_children h fs target [] = Inr ([], [])"
| "list_children h fs target (n # ns) =
     (case stat_file h fs (child target n) of
        Inr st \<Rightarrow> bindR (list_children h fs target ns) (\<lambda>(es, us). Inr (st # es, us))
      | Inl e \<Rightarrow>
          (case unavailable_reason e of
             None \<Rightarrow> Inl e
           | Some reason \<Rightarrow> bindR (list_children h fs target ns) (\<lambda>(es, us). Inr (es, (n, reason) # us))))"

definition list_directory :: "fs_host \<Rightarrow> file_store \<Rightarrow> win_path \<Rightarrow> file_error + list_result" where
  "list_directory h fs p =
     bindR (guarded h fs p) (\<lambda>target.
       if \<not> is_dir fs target then Inl (FileOs OsOther)
       else bindR (list_children h fs target (sort (child_names fs target))) (\<lambda>(es, us).
         Inr \<lparr>ls_final_path = target, ls_entries = es, ls_unavailable = us\<rparr>))"

definition read_window :: "nat \<Rightarrow> nat option \<Rightarrow> bytes \<Rightarrow> nat" where
  "read_window offset len data = (case len of None \<Rightarrow> length data - offset | Some n \<Rightarrow> n)"

definition read_file ::
  "fs_host \<Rightarrow> file_limits \<Rightarrow> file_store \<Rightarrow> win_path \<Rightarrow> nat \<Rightarrow> nat option \<Rightarrow> read_encoding \<Rightarrow> file_error + read_result" where
  "read_file h lim fs p offset len encoding =
     bindR (opened_file h fs p) (\<lambda>(content, target).
       let requested = read_window offset len content in
       if fl_max_read lim < int requested then Inl (FileInline (InlineSizeLimitError InlineRead (fl_max_read lim)))
       else
         (let more = take (requested + 1) (drop offset content);
              chunk = (if requested < length more then take requested more else more);
              result = \<lparr>rd_final_path = target, rd_size = int (length content), rd_modified = fh_mtime h fs target,
                        rd_text = None, rd_base64 = None\<rparr>
          in (case encoding of
                EncodeText \<Rightarrow> (case utf8_decode chunk of None \<Rightarrow> Inl FileUnicode | Some t \<Rightarrow> Inr (result\<lparr>rd_text := Some t\<rparr>))
              | EncodeBase64 \<Rightarrow> Inr (result\<lparr>rd_base64 := Some (b64encode chunk)\<rparr>))))"

section \<open>Writing\<close>

text \<open>
  Which call of the operating system fails, if any. A failing write leaves part of the data. The stores an
  operation passes through are listed in order; the last one, or the one it started from, is what it leaves.
\<close>

record file_faults =
  ff_create :: "os_error option"
  ff_write :: "(os_error \<times> nat) option"
  ff_sync :: "os_error option"
  ff_replace :: "os_error option"
  ff_unlink :: "os_error option"

type_synonym 'r mutation = "(file_error + 'r) \<times> file_store list"

definition final_store :: "file_store \<Rightarrow> file_store list \<Rightarrow> file_store" where
  "final_store fs states = last (fs # states)"

definition mutation_stat :: "fs_host \<Rightarrow> file_store \<Rightarrow> win_path \<Rightarrow> bool \<Rightarrow> file_error + mutation_result" where
  "mutation_stat h fs p changed =
     (if \<not> standing fs p then Inl (FileOs OsNotFound)
      else Inr \<lparr>mu_final_path = p, mu_changed = changed, mu_size = Some (node_size h fs p),
                mu_modified = Some (fh_mtime h fs p)\<rparr>)"

definition file_matches :: "fs_host \<Rightarrow> file_store \<Rightarrow> win_path \<Rightarrow> bytes \<Rightarrow> file_error + bool" where
  "file_matches h fs p expected =
     (case fh_resolve h fs True (path_text p) of
        ResolvesTo q \<Rightarrow>
          if \<not> is_file fs q \<or> length (file_data fs q) \<noteq> length expected then Inr False
          else bindR (opened_file h fs p) (\<lambda>(content, _). Inr (take (length expected + 1) content = expected))
      | _ \<Rightarrow> Inr False)"

text \<open>\<open>NamedTemporaryFile\<close> picks a name that does not exist; \<open>token\<close> is the part it draws.\<close>

definition temporary_path :: "win_path \<Rightarrow> pystr \<Rightarrow> win_path" where
  "temporary_path target token =
     child (parent target) (ustr ''.'' @ path_name target @ ustr ''.'' @ token @ ustr ''.tmp'')"

definition write_temporary ::
  "file_faults \<Rightarrow> pystr \<Rightarrow> win_path \<Rightarrow> bytes \<Rightarrow> file_store \<Rightarrow> win_path mutation" where
  "write_temporary faults token target data fs =
     (let temp = temporary_path target token in
      if \<not> is_dir fs (parent target) then (Inl (FileOs OsNotFound), [])
      else if map_of fs temp \<noteq> None then (Inl (FileOs OsExists), [])
      else (case ff_create faults of
              Some e \<Rightarrow> (Inl (FileOs e), [])
            | None \<Rightarrow>
                (case ff_write faults of
                   Some (e, n) \<Rightarrow> (Inl (FileOs e), [fs @ [(temp, FileNode [])], fs @ [(temp, FileNode (take n data))]])
                 | None \<Rightarrow>
                     (case ff_sync faults of
                        Some e \<Rightarrow> (Inl (FileOs e), [fs @ [(temp, FileNode [])], fs @ [(temp, FileNode data)]])
                      | None \<Rightarrow> (Inr temp, [fs @ [(temp, FileNode [])], fs @ [(temp, FileNode data)]])))))"

definition replace_target :: "file_faults \<Rightarrow> win_path \<Rightarrow> win_path \<Rightarrow> file_store \<Rightarrow> os_error + file_store" where
  "replace_target faults temp target fs = (case ff_replace faults of Some e \<Rightarrow> Inl e | None \<Rightarrow> os_replace temp target fs)"

definition write_file ::
  "fs_host \<Rightarrow> file_limits \<Rightarrow> file_faults \<Rightarrow> pystr \<Rightarrow> win_path \<Rightarrow> bytes \<Rightarrow> file_store \<Rightarrow> mutation_result mutation" where
  "write_file h lim faults token p data fs =
     (if fl_max_write lim < int (length data)
      then (Inl (FileInline (InlineSizeLimitError InlineWrite (fl_max_write lim))), [])
      else (case bindR (guarded h fs (parent p)) (\<lambda>_. bindR (mapErr FilePath (vet h fs False p)) (\<lambda>target.
                    bindR (file_matches h fs p data) (\<lambda>same. Inr (target, same)))) of
              Inl e \<Rightarrow> (Inl e, [])
            | Inr (target, True) \<Rightarrow> (mutation_stat h fs target False, [])
            | Inr (target, False) \<Rightarrow>
                (case write_temporary faults token target data fs of
                   (Inl e, states) \<Rightarrow> (Inl e, states)
                 | (Inr temp, states) \<Rightarrow>
                     (let fs1 = final_store fs states in
                      case vet h fs1 False p of
                        Inl e \<Rightarrow> (Inl (FilePath e), states @ [AList.delete temp fs1])
                      | Inr target' \<Rightarrow>
                          (case replace_target faults temp target' fs1 of
                             Inl e \<Rightarrow> (Inl (FileOs e), states @ [AList.delete temp fs1])
                           | Inr fs2 \<Rightarrow> (mutation_stat h fs2 target' True, states @ [fs2]))))))"

text \<open>\<open>_copy_file\<close>: the temporary file is removed on every path on which it was created and not yet renamed.\<close>

definition copy_file ::
  "fs_host \<Rightarrow> file_faults \<Rightarrow> pystr \<Rightarrow> win_path \<Rightarrow> win_path \<Rightarrow> file_store \<Rightarrow> win_path mutation" where
  "copy_file h faults token source destination fs =
     (case opened_file h fs source of
        Inl e \<Rightarrow> (Inl e, [])
      | Inr (content, opened) \<Rightarrow>
          (case write_temporary faults token destination content fs of
             (Inl e, states) \<Rightarrow>
               (Inl e, if states = [] then []
                       else states @ [AList.delete (temporary_path destination token) (final_store fs states)])
           | (Inr temp, states) \<Rightarrow>
               (let fs1 = final_store fs states in
                case replace_target faults temp destination fs1 of
                  Inl e \<Rightarrow> (Inl (FileOs e), states @ [AList.delete temp fs1])
                | Inr fs2 \<Rightarrow> (Inr opened, states @ [fs2]))))"

definition move_file ::
  "fs_host \<Rightarrow> file_faults \<Rightarrow> pystr \<Rightarrow> win_path \<Rightarrow> win_path \<Rightarrow> file_store \<Rightarrow> mutation_result mutation" where
  "move_file h faults token source destination fs =
     (case bindR (guarded h fs (parent source)) (\<lambda>_. bindR (guarded h fs (parent destination)) (\<lambda>_.
             bindR (mapErr FilePath (vet h fs True source)) (\<lambda>s.
             bindR (mapErr FilePath (vet h fs False destination)) (\<lambda>d. Inr (s, d))))) of
        Inl e \<Rightarrow> (Inl e, [])
      | Inr (s, d) \<Rightarrow>
          if \<not> is_file fs s then (Inl UnsafeMutation, [])
          else if standing fs d then (Inl (FileOs OsExists), [])
          else (case copy_file h faults token source d fs of
                  (Inl e, states) \<Rightarrow> (Inl e, states)
                | (Inr opened, states) \<Rightarrow>
                    (let fs1 = final_store fs states in
                     case vet h fs1 True source of
                       Inl e \<Rightarrow> (Inl (FilePath e), states)
                     | Inr latest \<Rightarrow>
                         if ph_normcase (fh_paths h) (path_text opened) \<noteq> ph_normcase (fh_paths h) (path_text latest)
                         then (Inl UnsafeMutation, states)
                         else (case (case ff_unlink faults of Some e \<Rightarrow> Inl e | None \<Rightarrow> os_unlink s fs1) of
                                 Inl e \<Rightarrow> (Inl (FileOs e), states)
                               | Inr fs2 \<Rightarrow> (mutation_stat h fs2 d True, states @ [fs2])))))"

definition copy_to ::
  "fs_host \<Rightarrow> file_faults \<Rightarrow> pystr \<Rightarrow> win_path \<Rightarrow> win_path \<Rightarrow> file_store \<Rightarrow> mutation_result mutation" where
  "copy_to h faults token source destination fs =
     (case bindR (guarded h fs (parent destination)) (\<lambda>_.
             bindR (mapErr FilePath (vet h fs True source)) (\<lambda>s.
             bindR (mapErr FilePath (vet h fs False destination)) (\<lambda>d. Inr (s, d)))) of
        Inl e \<Rightarrow> (Inl e, [])
      | Inr (s, d) \<Rightarrow>
          if \<not> is_file fs s then (Inl UnsafeMutation, [])
          else (case copy_file h faults token source d fs of
                  (Inl e, states) \<Rightarrow> (Inl e, states)
                | (Inr opened, states) \<Rightarrow> (mutation_stat h (final_store fs states) d True, states)))"

text \<open>\<open>path.parent.exists()\<close> looks at the path as it was given.\<close>

definition raw_exists :: "fs_host \<Rightarrow> file_store \<Rightarrow> win_path \<Rightarrow> bool" where
  "raw_exists h fs p = (case fh_resolve h fs True (path_text p) of ResolvesTo q \<Rightarrow> standing fs q | _ \<Rightarrow> False)"

definition make_directory :: "fs_host \<Rightarrow> bool \<Rightarrow> win_path \<Rightarrow> file_store \<Rightarrow> mutation_result mutation" where
  "make_directory h parents p fs =
     (if parents \<and> \<not> raw_exists h fs (parent p) then (Inl UnsafeMutation, [])
      else (case bindR (guarded h fs (parent p)) (\<lambda>_. mapErr FilePath (vet h fs False p)) of
              Inl e \<Rightarrow> (Inl e, [])
            | Inr target \<Rightarrow>
                (let existed = standing fs target in
                 case os_mkdir target fs of
                   Inl e \<Rightarrow> (Inl (FileOs e), [])
                 | Inr fs1 \<Rightarrow>
                     (case vet h fs1 True p of
                        Inl e \<Rightarrow> (Inl (FilePath e), [fs1])
                      | Inr latest \<Rightarrow> (mutation_stat h fs1 latest (\<not> existed), [fs1])))))"

section \<open>Deleting\<close>

text \<open>A loop that stops at the first exception.\<close>

primrec run_each :: "('a \<Rightarrow> 's \<Rightarrow> ('e + unit) \<times> 's) \<Rightarrow> 'a list \<Rightarrow> 's \<Rightarrow> ('e + unit) \<times> 's" where
  "run_each f [] s = (Inr (), s)"
| "run_each f (x # xs) s = (case f x s of (Inl e, s') \<Rightarrow> (Inl e, s') | (Inr _, s') \<Rightarrow> run_each f xs s')"

text \<open>The end of \<open>delete_safely\<close>: the path has to resolve to the target again, which is then removed.\<close>

definition remove_latest :: "fs_host \<Rightarrow> win_path \<Rightarrow> win_path \<Rightarrow> file_store \<Rightarrow> (file_error + unit) \<times> file_store" where
  "remove_latest h p target fs =
     (case vet h fs True p of
        Inl e \<Rightarrow> (Inl (FilePath e), fs)
      | Inr latest \<Rightarrow>
          if ph_normcase (fh_paths h) (path_text latest) \<noteq> ph_normcase (fh_paths h) (path_text target)
          then (Inl UnsafeMutation, fs)
          else if fh_denied h latest then (Inl (FileOs OsPermission), fs)
          else (case (if is_dir fs latest then os_rmdir latest fs else os_unlink latest fs) of
                  Inl e \<Rightarrow> (Inl (FileOs e), fs)
                | Inr fs' \<Rightarrow> (Inr (), fs')))"

text \<open>The first argument is the depth of calls the interpreter still allows.\<close>

primrec delete_safely ::
  "nat \<Rightarrow> fs_host \<Rightarrow> bool \<Rightarrow> win_path \<Rightarrow> file_store \<Rightarrow> (file_error + unit) \<times> file_store" where
  "delete_safely 0 h recursive p fs = (Inl RecursionLimit, fs)"
| "delete_safely (Suc n) h recursive p fs =
     (case vet h fs True p of
        Inl e \<Rightarrow> (Inl (FilePath e), fs)
      | Inr target \<Rightarrow>
          if is_dir fs target
          then (case guarded h fs p of
                  Inl e \<Rightarrow> (Inl e, fs)
                | Inr dir \<Rightarrow>
                    (let children = child_names fs dir in
                     case (if children \<noteq> [] \<and> \<not> recursive then os_rmdir dir fs else Inr fs) of
                       Inl e \<Rightarrow> (Inl (FileOs e), fs)
                     | Inr fs1 \<Rightarrow>
                         (case run_each (\<lambda>c. delete_safely n h True (child dir c)) children fs1 of
                            (Inl e, fs2) \<Rightarrow> (Inl e, fs2)
                          | (Inr _, fs2) \<Rightarrow> remove_latest h p target fs2)))
          else (case opened_file h fs p of
                  Inl e \<Rightarrow> (Inl e, fs)
                | Inr (_, final) \<Rightarrow> remove_latest h p final fs))"

text \<open>\<open>os.walk\<close> does not enter links, so it meets the entries stored below the directory.\<close>

definition count_items :: "file_store \<Rightarrow> win_path \<Rightarrow> int" where
  "count_items fs p =
     (if \<not> is_dir fs p then 1 else 1 + int (length (filter (\<lambda>(q, _). below q p \<and> q \<noteq> p) fs)))"

definition requires_approval :: "file_limits \<Rightarrow> int \<Rightarrow> bool" where
  "requires_approval lim n \<longleftrightarrow> ''bulk_delete'' \<in> set (fl_approval_categories lim) \<and> fl_bulk_threshold lim \<le> n"

definition delete_path ::
  "nat \<Rightarrow> fs_host \<Rightarrow> file_limits \<Rightarrow> (win_path \<Rightarrow> int \<Rightarrow> bool) \<Rightarrow> bool \<Rightarrow> win_path \<Rightarrow> file_store \<Rightarrow>
   (file_error + mutation_result) \<times> file_store" where
  "delete_path depth h lim authorizer recursive p fs =
     (case vet h fs False p of
        Inl e \<Rightarrow> (Inl (FilePath e), fs)
      | Inr target0 \<Rightarrow>
          if \<not> standing fs target0
          then (Inr \<lparr>mu_final_path = target0, mu_changed = False, mu_size = None, mu_modified = None\<rparr>, fs)
          else (case vet h fs True p of
                  Inl e \<Rightarrow> (Inl (FilePath e), fs)
                | Inr target \<Rightarrow>
                    (let n = count_items fs target in
                     if requires_approval lim n \<and> \<not> authorizer target n then (Inl (BulkApprovalRequired target n), fs)
                     else (case guarded h fs (parent p) of
                             Inl e \<Rightarrow> (Inl e, fs)
                           | Inr _ \<Rightarrow>
                               (case delete_safely depth h recursive p fs of
                                  (Inl e, fs') \<Rightarrow> (Inl e, fs')
                                | (Inr _, fs') \<Rightarrow>
                                    (Inr \<lparr>mu_final_path = target, mu_changed = True, mu_size = None, mu_modified = None\<rparr>,
                                     fs'))))))"

definition deny_bulk_delete :: "win_path \<Rightarrow> int \<Rightarrow> bool" where
  "deny_bulk_delete p n = False"

section \<open>Reads and writes\<close>

lemma final_store_simps [simp]: "final_store fs [] = fs" "final_store fs (states @ [s]) = s" "final_store fs [s, t] = t"
  by (simp_all add: final_store_def)

lemma map_of_append_fresh: "map_of fs p = None \<Longrightarrow> map_of (fs @ [(p, n)]) = (map_of fs)(p \<mapsto> n)"
  by (auto simp: map_add_def fun_eq_iff split: option.splits)

lemma delete_append_fresh: "map_of fs p = None \<Longrightarrow> AList.delete p (fs @ [(p, n)]) = fs"
  by (force simp: AList.delete_eq filter_id_conv map_of_eq_None_iff)

text \<open>What a temporary file adds to the store.\<close>

lemma write_temporary_states:
  assumes "write_temporary faults token target data fs = (res, states)"
  shows "\<forall>s \<in> set states. map_of fs (temporary_path target token) = None \<and>
      (\<exists>b. s = fs @ [(temporary_path target token, FileNode b)])"
    and "\<And>temp. res = Inr temp \<Longrightarrow> temp = temporary_path target token \<and> map_of fs temp = None \<and>
      states \<noteq> [] \<and> final_store fs states = fs @ [(temp, FileNode data)]"
    and "\<And>e. res = Inl e \<Longrightarrow> ff_write faults = None \<Longrightarrow> ff_sync faults = None \<Longrightarrow> states = []"
  using assms by (auto simp: write_temporary_def Let_def split: if_splits option.splits prod.splits)

lemma temporary_only:
  assumes "write_temporary faults token target data fs = (res, states)" "s \<in> set states" "q \<noteq> temporary_path target token"
  shows "map_of s q = map_of fs q"
  using write_temporary_states(1) [OF assms(1)] assms(2,3) by (metis map_of_append_fresh fun_upd_other)

lemma replaced_store:
  assumes "replace_target faults temp target (fs @ [(temp, FileNode data)]) = Inr fs2" "map_of fs temp = None"
  shows "map_of fs2 = (map_of fs)(target \<mapsto> FileNode data)"
  using assms
  by (auto simp: replace_target_def os_replace_def map_of_append_fresh delete_append_fresh update_conv' split: option.splits if_splits)

lemma file_data_node: "is_file fs p \<Longrightarrow> map_of fs p = Some (FileNode (file_data fs p))"
  by (auto simp: is_file_def file_data_def split: option.splits fs_node.splits)

lemma matching_file:
  assumes "host_laws h" "store_ok fs" "vet h fs False p = Inr target" "file_matches h fs p data = Inr True"
  shows "map_of fs target = Some (FileNode data)"
proof -
  obtain q where q: "fh_resolve h fs True (path_text p) = ResolvesTo q" "is_file fs q" "length (file_data fs q) = length data"
    using assms(4) by (auto simp: file_matches_def split: resolve_answer.splits if_splits)
  obtain content final where o: "opened_file h fs p = Inr (content, final)" "take (length data + 1) content = data"
    using assms(4) q by (auto simp: file_matches_def bindR_eq_Inr)
  have "content = file_data fs q" by (rule opened_data [OF assms(1,2) o(1) q(1,2)])
  then have "data = file_data fs q" using o(2) q(3) by simp
  moreover have "target = q"
    using vet_resolves [OF assms(3)] q(1) assms(1) by (force simp: host_laws_def)
  ultimately show ?thesis using file_data_node [OF q(2)] by simp
qed

lemma mutation_stat_Inr: "mutation_stat h fs p changed = Inr m \<Longrightarrow> mu_final_path m = p \<and> mu_changed m = changed \<and> standing fs p"
  by (auto simp: mutation_stat_def split: if_splits)

lemma mutation_stat_standing: "standing fs p \<Longrightarrow> \<exists>m. mutation_stat h fs p changed = Inr m \<and> mu_final_path m = p"
  by (simp add: mutation_stat_def)

text \<open>How a write can end.\<close>

lemma write_file_cases:
  assumes "write_file h lim faults token p data fs = (res, states)"
  obtains (refused) e where "res = Inl e" "states = []"
  | (same) target where "vet h fs False p = Inr target" "file_matches h fs p data = Inr True"
      "res = mutation_stat h fs target False" "states = []" "int (length data) \<le> fl_max_write lim"
  | (lost) target e where "write_temporary faults token target data fs = (Inl e, states)" "res = Inl e"
  | (undone) target temp ss e where "write_temporary faults token target data fs = (Inr temp, ss)" "res = Inl e"
      "states = ss @ [AList.delete temp (final_store fs ss)]"
  | (replaced) target temp ss t fs2 where "write_temporary faults token target data fs = (Inr temp, ss)"
      "replace_target faults temp t (final_store fs ss) = Inr fs2" "res = mutation_stat h fs2 t True" "states = ss @ [fs2]"
      "int (length data) \<le> fl_max_write lim"
proof (cases "fl_max_write lim < int (length data)")
  case True
  then show ?thesis using assms refused by (auto simp: write_file_def)
next
  case False
  note size = this
  let ?pre = "bindR (guarded h fs (parent p)) (\<lambda>_. bindR (mapErr FilePath (vet h fs False p)) (\<lambda>target.
      bindR (file_matches h fs p data) (\<lambda>same. Inr (target, same))))"
  show ?thesis
  proof (cases ?pre)
    case (Inl e)
    then show ?thesis using assms size refused [of e] by (simp add: write_file_def)
  next
    case (Inr ts)
    note pre = Inr
    obtain target same' where ts: "ts = (target, same')" by (cases ts)
    then have v: "vet h fs False p = Inr target" "file_matches h fs p data = Inr same'"
      using Inr by (auto simp: bindR_eq_Inr mapErr_def split: sum.splits)
    show ?thesis
    proof (cases same')
      case True
      then show ?thesis using same [OF v(1)] v(2) assms size pre ts by (simp add: write_file_def)
    next
      case False
      obtain r ss where w: "write_temporary faults token target data fs = (r, ss)" by (cases "write_temporary faults token target data fs")
      show ?thesis
      proof (cases r)
        case (Inl e)
        then show ?thesis using lost [of target e] w assms size pre ts False by (simp add: write_file_def)
      next
        case (Inr temp)
        note r = Inr
        show ?thesis
        proof (cases "vet h (final_store fs ss) False p")
          case (Inl e)
          then show ?thesis using undone [of target temp ss "FilePath e"] w r assms size pre ts False by (simp add: write_file_def Let_def)
        next
          case (Inr t)
          show ?thesis
          proof (cases "replace_target faults temp t (final_store fs ss)")
            case (Inl e)
            then show ?thesis using undone [of target temp ss "FileOs e"] Inr w r assms size pre ts False by (simp add: write_file_def Let_def)
          next
            case (Inr fs2)
            then show ?thesis using replaced [of target temp ss t fs2] \<open>vet h (final_store fs ss) False p = Inr t\<close> w r assms size pre ts False
              by (simp add: write_file_def Let_def)
          qed
        qed
      qed
    qed
  qed
qed


section \<open>Moves\<close>

lemma copy_file_states:
  assumes "host_laws h" "store_ok fs" "fh_resolve h fs True (path_text source) = ResolvesTo s" "is_file fs s"
    and "copy_file h faults token source d fs = (res, states)"
  shows "\<forall>st \<in> set states. \<forall>q. map_of fs q \<noteq> None \<and> q \<noteq> d \<longrightarrow> map_of st q = map_of fs q"
    and "\<And>e. res = Inl e \<Longrightarrow> map_of (final_store fs states) = map_of fs"
    and "\<And>opened. res = Inr opened \<Longrightarrow> opened = s \<and> map_of (final_store fs states) = (map_of fs)(d \<mapsto> FileNode (file_data fs s))"
proof -
  let ?A = "\<forall>st \<in> set states. \<forall>q. map_of fs q \<noteq> None \<and> q \<noteq> d \<longrightarrow> map_of st q = map_of fs q"
  let ?B = "\<forall>e. res = Inl e \<longrightarrow> map_of (final_store fs states) = map_of fs"
  let ?C = "\<forall>opened. res = Inr opened \<longrightarrow> opened = s \<and> map_of (final_store fs states) = (map_of fs)(d \<mapsto> FileNode (file_data fs s))"
  have "?A \<and> ?B \<and> ?C"
  proof (cases "opened_file h fs source")
    case (Inl e)
    then show ?thesis using assms(5) by (auto simp: copy_file_def)
  next
    case (Inr co)
    then obtain content opened where o: "opened_file h fs source = Inr (content, opened)" by (cases co) simp
    have data: "content = file_data fs s" "opened = s" using opened_data [OF assms(1,2) o assms(3,4)] by simp_all
    obtain r ss where w: "write_temporary faults token d content fs = (r, ss)" by (cases "write_temporary faults token d content fs")
    let ?temp = "temporary_path d token"
    have only: "\<forall>st \<in> set ss. \<forall>q. map_of fs q \<noteq> None \<longrightarrow> map_of st q = map_of fs q"
      using temporary_only [OF w] write_temporary_states(1) [OF w] by metis
    show ?thesis
    proof (cases r)
      case (Inl e)
      show ?thesis
      proof (cases "ss = []")
        case True
        then have "res = Inl e" "states = []" using assms(5) o w Inl by (simp_all add: copy_file_def)
        then show ?thesis by simp
      next
        case False
        then have "final_store fs ss \<in> set ss" by (auto simp: final_store_def)
        then obtain b where "map_of fs ?temp = None" "final_store fs ss = fs @ [(?temp, FileNode b)]"
          using write_temporary_states(1) [OF w] by blast
        then have "AList.delete ?temp (final_store fs ss) = fs" using delete_append_fresh [of fs ?temp] by auto
        then have "res = Inl e" "states = ss @ [fs]" using assms(5) o w Inl False by (auto simp: copy_file_def)
        then show ?thesis using only by auto
      qed
    next
      case (Inr temp)
      note fs1 = write_temporary_states(2) [OF w Inr]
      show ?thesis
      proof (cases "replace_target faults temp d (final_store fs ss)")
        case (Inl e)
        have "AList.delete temp (final_store fs ss) = fs" using fs1 delete_append_fresh [of fs temp] by auto
        then have "\<exists>e. res = Inl e" "states = ss @ [fs]" using assms(5) o w \<open>r = Inr temp\<close> Inl by (auto simp: copy_file_def Let_def)
        then show ?thesis using only by auto
      next
        case (Inr fs2)
        then have "map_of fs2 = (map_of fs)(d \<mapsto> FileNode content)" using replaced_store [of faults temp d fs content fs2] fs1 by metis
        moreover have "res = Inr opened" "states = ss @ [fs2]" using assms(5) o w \<open>r = Inr temp\<close> Inr by (auto simp: copy_file_def Let_def)
        ultimately show ?thesis using only data by auto
      qed
    qed
  qed
  then show ?A "\<And>e. res = Inl e \<Longrightarrow> map_of (final_store fs states) = map_of fs"
    "\<And>opened. res = Inr opened \<Longrightarrow> opened = s \<and> map_of (final_store fs states) = (map_of fs)(d \<mapsto> FileNode (file_data fs s))"
    by blast+
qed

lemma unlinked_store: "os_unlink p fs = Inr fs' \<Longrightarrow> map_of fs' = (map_of fs)(p := None)"
  by (auto simp: os_unlink_def AList.delete_conv' split: option.splits fs_node.splits)


section \<open>Deletions\<close>

text \<open>Whatever links there are, only what resolves into an allowed root is removed.\<close>

definition only_removes :: "fs_host \<Rightarrow> file_store \<Rightarrow> file_store \<Rightarrow> bool" where
  "only_removes h fs fs' \<longleftrightarrow> (\<forall>q. map_of fs' q = map_of fs q \<or>
     (map_of fs' q = None \<and> list_ex (is_within (fh_paths h) q) (pp_allowed_roots (fh_policy h))))"

lemma only_removes_refl [simp]: "only_removes h fs fs"
  by (simp add: only_removes_def)

lemma only_removes_trans: "only_removes h fs fs1 \<Longrightarrow> only_removes h fs1 fs2 \<Longrightarrow> only_removes h fs fs2"
  unfolding only_removes_def by metis

lemma remove_latest_only: "remove_latest h p target fs = (res, fs') \<Longrightarrow> only_removes h fs fs'"
  by (auto simp: remove_latest_def os_rmdir_def os_unlink_def only_removes_def AList.delete_conv' list_ex_iff dest!: vet_allowed
      split: sum.splits if_splits option.splits fs_node.splits)

lemma rmdir_nonempty: "child_names fs p \<noteq> [] \<Longrightarrow> os_rmdir p fs \<noteq> Inr fs'"
  by (auto simp: os_rmdir_def split: option.splits fs_node.splits)

lemma run_each_only:
  assumes "\<And>x s res s'. f x s = (res, s') \<Longrightarrow> only_removes h s s'" "run_each f xs s = (res, s')"
  shows "only_removes h s s'"
  using assms(2)
proof (induction xs arbitrary: s)
  case (Cons x xs)
  obtain r s1 where f: "f x s = (r, s1)" by (cases "f x s")
  show ?case using Cons f assms(1) [OF f] by (cases r) (auto intro: only_removes_trans)
qed simp

lemma delete_safely_only: "delete_safely n h recursive p fs = (res, fs') \<Longrightarrow> only_removes h fs fs'"
proof (induction n arbitrary: recursive p fs res fs')
  case (Suc n)
  have loop: "only_removes h s s'" if "run_each (\<lambda>c. delete_safely n h True (child dir c)) ns s = (r, s')" for dir ns s r s'
    using that by (rule run_each_only [rotated]) (rule Suc.IH)
  show ?case
    using Suc.prems
    by (auto simp: Let_def rmdir_nonempty dest!: remove_latest_only loop intro: only_removes_trans
        split: sum.splits if_splits prod.splits)
qed simp

text \<open>A quiet part of a store: no links, everything admitted by the policy, nothing denied.\<close>

definition quiet :: "fs_host \<Rightarrow> file_store \<Rightarrow> win_path \<Rightarrow> bool" where
  "quiet h fs p \<longleftrightarrow> (\<forall>q \<in> fst ` set fs. \<not> fh_denied h q \<and> (below q p \<longrightarrow> standing fs q \<and> admitted h q))"

definition within_depth :: "file_store \<Rightarrow> win_path \<Rightarrow> nat \<Rightarrow> bool" where
  "within_depth fs p n \<longleftrightarrow> (\<forall>q \<in> fst ` set fs. below q p \<longrightarrow> length (wp_parts q) < length (wp_parts p) + n)"

lemma quiet_keeping: "quiet h fs p \<Longrightarrow> below q p \<Longrightarrow> quiet h (keeping K fs) q"
  by (auto simp: quiet_def keys_keeping intro: below_trans)

lemma within_depth_child:
  "within_depth fs p (Suc n) \<Longrightarrow> within_depth (keeping K fs) (child p c) n"
  using below_trans [OF _ below_child, of _ p c] by (fastforce simp: within_depth_def keys_keeping)

lemma remove_standing:
  assumes "host_laws h" "store_ok fs" "standing fs p" "admitted h p" "\<not> fh_denied h p" "is_dir fs p \<Longrightarrow> child_names fs p = []"
  shows "remove_latest h p p fs = (Inr (), keeping (\<lambda>q. q \<noteq> p) fs)"
  using vet_standing [OF assms(1-4), of True] assms(3,5,6)
  by (auto simp: remove_latest_def os_rmdir_def os_unlink_def delete_keeping standing_map_of is_dir_def)

definition sparing :: "win_path \<Rightarrow> pystr set \<Rightarrow> win_path \<Rightarrow> bool" where
  "sparing p R q \<longleftrightarrow> (\<forall>n \<in> R. \<not> below q (child p n))"

lemma store_ok_sparing: "store_ok fs \<Longrightarrow> store_ok (keeping (sparing p R) fs)"
  by (rule store_ok_keeping) (auto simp: sparing_def dest: below_trans [OF below_parent])

lemma without_child: "without (keeping (sparing p R) fs) (child p n) = keeping (sparing p (insert n R)) fs"
  unfolding without_def keeping_keeping by (rule keeping_cong) (auto simp: sparing_def)

lemma sibling_spared: "n \<notin> R \<Longrightarrow> sparing p R (child p n)"
  by (auto simp: sparing_def below_def)

lemma delete_children:
  assumes del: "\<And>R c. c \<in> set (child_names fs p) \<Longrightarrow> c \<notin> R \<Longrightarrow>
      f c (keeping (sparing p R) fs) = (Inr (), without (keeping (sparing p R) fs) (child p c))"
    and "set ns \<subseteq> set (child_names fs p)" "distinct ns" "set ns \<inter> R = {}"
  shows "run_each f ns (keeping (sparing p R) fs) = (Inr (), keeping (sparing p (R \<union> set ns)) fs)"
  using assms(2-4)
proof (induction ns arbitrary: R)
  case (Cons n ns)
  have "f n (keeping (sparing p R) fs) = (Inr (), keeping (sparing p (insert n R)) fs)"
    using del [of n R] Cons.prems by (simp add: without_child)
  moreover have "run_each f ns (keeping (sparing p (insert n R)) fs) = (Inr (), keeping (sparing p (insert n R \<union> set ns)) fs)"
    using Cons.prems by (intro Cons.IH) auto
  ultimately show ?case by simp
qed simp

lemma delete_subtree:
  assumes "host_laws h" "store_ok fs" "standing fs p" "quiet h fs p" "within_depth fs p n"
    and "recursive \<or> child_names fs p = []"
  shows "delete_safely n h recursive p fs = (Inr (), without fs p)"
  using assms(2-6)
proof (induction n arbitrary: recursive p fs)
  case 0
  then show ?case using standing_in by (fastforce simp: within_depth_def)
next
  case (Suc n)
  note ok = Suc.prems(1) and st = Suc.prems(2) and q = Suc.prems(3)
  have p: "\<not> fh_denied h p" "admitted h p" using q standing_in [OF st] by (auto simp: quiet_def)
  have v: "vet h fs True p = Inr p" by (rule vet_standing [OF assms(1) ok st p(2)])
  show ?case
  proof (cases "is_dir fs p")
    case False
    then have f: "is_file fs p" using st by (simp add: standing_def)
    have "without fs p = keeping (\<lambda>q. q \<noteq> p) fs"
      unfolding without_def using ancestor_is_dir [OF ok] False by (intro keeping_cong) auto
    then show ?thesis
      using v False opened_standing [OF assms(1) ok f p(2,1)] remove_standing [OF assms(1) ok st p(2,1)] by simp
  next
    case True
    let ?ns = "child_names fs p" and ?f = "\<lambda>c. delete_safely n h True (child p c)"
    have "\<not> fh_denied h q'" if "standing fs q'" for q' using q standing_in [OF that] by (auto simp: quiet_def)
    then have g: "guarded h fs p = Inr p" by (intro guarded_standing [OF assms(1) ok st p(2)]) blast
    have each: "?f c (keeping (sparing p R) fs) = (Inr (), without (keeping (sparing p R) fs) (child p c))"
      if "c \<in> set ?ns" "c \<notin> R" for R c
    proof (rule Suc.IH)
      show "store_ok (keeping (sparing p R) fs)" by (rule store_ok_sparing [OF ok])
      have "child p c \<in> fst ` set fs" using that(1) child_names_iff by blast
      then have "standing fs (child p c)" using q below_child unfolding quiet_def by blast
      then show "standing (keeping (sparing p R) fs) (child p c)" using that(2) by (simp add: sibling_spared)
      show "quiet h (keeping (sparing p R) fs) (child p c)" by (rule quiet_keeping [OF q]) simp
      show "within_depth (keeping (sparing p R) fs) (child p c) n" by (rule within_depth_child [OF Suc.prems(4)])
    qed simp
    let ?left = "keeping (sparing p (set ?ns)) fs"
    have whole: "keeping (sparing p {}) fs = fs" by (simp add: sparing_def keeping_def comp_def)
    have "run_each ?f ?ns (keeping (sparing p {}) fs) = (Inr (), keeping (sparing p ({} \<union> set ?ns)) fs)"
      by (rule delete_children) (use each distinct_child_names [OF ok] in auto)
    then have run: "run_each ?f ?ns fs = (Inr (), ?left)" unfolding whole by simp
    have left: "keeping (\<lambda>q. q \<noteq> p) ?left = without fs p"
      unfolding without_def keeping_keeping using below_cases [OF ok]
      by (intro keeping_cong) (auto simp: sparing_def dest: below_trans [OF _ below_child])
    have "child_names ?left p = []"
    proof (rule ccontr)
      assume "child_names ?left p \<noteq> []"
      then have "hd (child_names ?left p) \<in> set (child_names ?left p)" by (rule hd_in_set)
      then have "child p (hd (child_names ?left p)) \<in> fst ` set ?left" by (simp only: child_names_iff)
      then have "child p (hd (child_names ?left p)) \<in> fst ` set fs" "sparing p (set ?ns) (child p (hd (child_names ?left p)))"
        unfolding keys_keeping by blast+
      then show False using child_names_iff below_refl unfolding sparing_def by blast
    qed
    moreover have "sparing p (set ?ns) p" by (auto simp: sparing_def below_def)
    ultimately have "remove_latest h p p ?left = (Inr (), without fs p)"
      using remove_standing [OF assms(1) store_ok_sparing [OF ok], of p "set ?ns" p] st p left by simp
    then show ?thesis using v True g run Suc.prems(5) by (auto simp: Let_def)
  qed
qed

lemma count_items_exact:
  assumes "store_ok fs" "standing fs p"
  shows "int (length fs) = int (length (without fs p)) + count_items fs p"
proof -
  have split: "length fs = length (without fs p) + length (keeping (\<lambda>q. below q p) fs)"
    using sum_length_filter_compl [of "\<lambda>e. below (fst e) p" fs] by (simp add: without_def keeping_def comp_def)
  have one: "length (filter (\<lambda>e. fst e = p) fs) = 1"
  proof -
    have "distinct (map fst fs)" using assms(1) by (simp add: store_ok_def)
    moreover obtain x where "(p, x) \<in> set fs" using standing_in [OF assms(2)] by auto
    ultimately have "set (filter (\<lambda>e. fst e = p) fs) = {(p, x)}" by (auto dest: eq_key_imp_eq_value)
    moreover have "distinct (filter (\<lambda>e. fst e = p) fs)" using \<open>distinct (map fst fs)\<close> by (simp add: distinct_map)
    ultimately show ?thesis by (metis distinct_card card_1_singleton_iff One_nat_def)
  qed
  have "filter (\<lambda>e. below (fst e) p \<and> fst e = p) fs = filter (\<lambda>e. fst e = p) fs"
    by (rule filter_cong) auto
  then have "length (keeping (\<lambda>q. below q p) fs) =
      length (filter (\<lambda>e. fst e = p) fs) + length (filter (\<lambda>e. below (fst e) p \<and> fst e \<noteq> p) fs)"
    using sum_length_filter_compl [of "\<lambda>e. fst e = p" "keeping (\<lambda>q. below q p) fs"]
    by (simp add: keeping_def comp_def)
  moreover have "filter (\<lambda>e. below (fst e) p \<and> fst e \<noteq> p) fs = []" if "\<not> is_dir fs p"
    using ancestor_is_dir [OF assms(1)] that by (force simp: filter_empty_conv)
  ultimately show ?thesis using split one by (auto simp: count_items_def case_prod_unfold)
qed

text \<open>
  A deletion removes exactly what was counted for the approval. In a store without links below the path, where the
  policy admits the path, its parent and all that is below it, and the tree is no deeper than the calls allowed, the
  deletion ends and removes the path with all that is below it and nothing else, as many entries as were counted; from the
  threshold on it does so only if it was authorized for this path and this number, and otherwise leaves the store as it is.
\<close>

theorem deletion_is_exact:
  assumes "host_laws h" "store_ok fs" "standing fs p" "quiet h fs p" "within_depth fs p depth"
    and "wp_parts p \<noteq> []" "admitted h (parent p)" "recursive \<or> child_names fs p = []"
  shows "delete_path depth h lim authorizer recursive p fs =
      (if requires_approval lim (count_items fs p) \<and> \<not> authorizer p (count_items fs p)
       then (Inl (BulkApprovalRequired p (count_items fs p)), fs)
       else (Inr \<lparr>mu_final_path = p, mu_changed = True, mu_size = None, mu_modified = None\<rparr>, without fs p)) \<and>
    int (length fs) = int (length (without fs p)) + count_items fs p \<and>
    (\<forall>q. map_of (without fs p) q = (if below q p then None else map_of fs q))"
proof -
  have adm: "admitted h p" using assms(4) standing_in [OF assms(3)] below_refl unfolding quiet_def by blast
  have v: "vet h fs strict p = Inr p" for strict by (rule vet_standing [OF assms(1-3) adm])
  have par: "standing fs (parent p)" using store_ok_in(2) [OF assms(2) standing_in [OF assms(3)] assms(6)] by (rule is_dir_standing)
  have "guarded h fs (parent p) = Inr (parent p)"
    using guarded_standing [OF assms(1,2) par assms(7)] assms(4) standing_in unfolding quiet_def by blast
  then show ?thesis
    using v assms(3) delete_subtree [OF assms(1-5,8)] count_items_exact [OF assms(2,3)]
    by (auto simp: delete_path_def Let_def without_def map_of_keeping)
qed

text \<open>
  Deletions stay within the allowed roots and need their approval. Whatever links the store holds and however the
  deletion ends, every entry is as it was or was removed at a path within an allowed root; and nothing is removed
  unless the number of items counted was below the threshold, outside the approval category, or authorized.
\<close>

theorem deletion_stays_in_roots:
  assumes "delete_path depth h lim authorizer recursive p fs = (res, fs')"
  shows "(\<forall>q. map_of fs' q = map_of fs q \<or>
      (map_of fs' q = None \<and> (\<exists>r \<in> set (pp_allowed_roots (fh_policy h)). is_within (fh_paths h) q r))) \<and>
    (fs' \<noteq> fs \<longrightarrow> (\<exists>target. vet h fs True p = Inr target \<and>
       (''bulk_delete'' \<in> set (fl_approval_categories lim) \<and> fl_bulk_threshold lim \<le> count_items fs target \<longrightarrow>
        authorizer target (count_items fs target))))"
proof -
  have "fs' = fs \<or> (\<exists>target r. vet h fs True p = Inr target \<and>
      (requires_approval lim (count_items fs target) \<longrightarrow> authorizer target (count_items fs target)) \<and>
      delete_safely depth h recursive p fs = (r, fs'))"
    using assms by (auto simp: delete_path_def Let_def split: sum.splits if_splits prod.splits)
  then show ?thesis
  proof (elim disjE exE conjE)
    fix target r
    assume d: "delete_safely depth h recursive p fs = (r, fs')" "vet h fs True p = Inr target"
      "requires_approval lim (count_items fs target) \<longrightarrow> authorizer target (count_items fs target)"
    have "only_removes h fs fs'" by (rule delete_safely_only [OF d(1)])
    then show ?thesis using d(2,3) by (auto simp: only_removes_def list_ex_iff requires_approval_def)
  qed simp
qed

section \<open>Listings and windows\<close>

text \<open>
  A listing reports every child once. For a standing, admitted and permitted directory without links, whose children the
  policy admits, the listing has, in the order of the names, one entry with its own path for every child that
  can be opened, and names every other child as unavailable; the reason is always that its metadata is unavailable, also
  when access was denied.
\<close>

theorem listing_reports_every_child:
  assumes "host_laws h" "store_ok fs" "is_dir fs p" "admitted h p"
    and "\<And>q. standing fs q \<Longrightarrow> below p q \<Longrightarrow> \<not> fh_denied h q"
    and "\<And>n. n \<in> set (child_names fs p) \<Longrightarrow> standing fs (child p n) \<and> admitted h (child p n)"
  shows "\<exists>r. list_directory h fs p = Inr r \<and> ls_final_path r = p \<and>
    map st_final_path (ls_entries r) = map (child p) (filter (\<lambda>n. \<not> fh_denied h (child p n)) (sort (child_names fs p))) \<and>
    map st_name (ls_entries r) = filter (\<lambda>n. \<not> fh_denied h (child p n)) (sort (child_names fs p)) \<and>
    ls_unavailable r =
      map (\<lambda>n. (n, ''metadata_unavailable'')) (filter (\<lambda>n. fh_denied h (child p n)) (sort (child_names fs p)))"
proof -
  have one: "stat_file h fs (child p n) =
      (if fh_denied h (child p n) then Inl (FileOs OsOther)
       else Inr \<lparr>st_final_path = child p n, st_name = n, st_size = node_size h fs (child p n),
                 st_modified = fh_mtime h fs (child p n), st_directory = is_dir fs (child p n)\<rparr>)"
    if "n \<in> set (child_names fs p)" for n
  proof -
    have st: "standing fs (child p n)" "admitted h (child p n)" using assms(6) [OF that] by simp_all
    have up: "\<not> fh_denied h q" if "standing fs q" "below (child p n) q" "q \<noteq> child p n" for q
    proof -
      have "below p q" using that(2,3) by (auto simp: below_def prefix_snoc intro!: win_path.equality)
      then show ?thesis using assms(5) that(1) by blast
    qed
    have "guarded h fs (child p n) = (if fh_denied h (child p n) then Inl (FileOs OsOther) else Inr (child p n))"
    proof (cases "fh_denied h (child p n)")
      case True
      then show ?thesis using guarded_denied [OF assms(1,2) st True up] by simp
    next
      case False
      then have "\<not> fh_denied h q" if "standing fs q" "below (child p n) q" for q using up that by metis
      then show ?thesis using guarded_standing [OF assms(1,2) st] False by simp
    qed
    then show ?thesis using st by (auto simp: stat_file_def)
  qed
  have all: "\<exists>es us. list_children h fs p ns = Inr (es, us) \<and>
      map st_final_path es = map (child p) (filter (\<lambda>n. \<not> fh_denied h (child p n)) ns) \<and>
      map st_name es = filter (\<lambda>n. \<not> fh_denied h (child p n)) ns \<and>
      us = map (\<lambda>n. (n, ''metadata_unavailable'')) (filter (\<lambda>n. fh_denied h (child p n)) ns)"
    if "set ns \<subseteq> set (child_names fs p)" for ns
    using that by (induction ns) (auto simp: one)
  obtain es us where l: "list_children h fs p (sort (child_names fs p)) = Inr (es, us)"
    "map st_final_path es = map (child p) (filter (\<lambda>n. \<not> fh_denied h (child p n)) (sort (child_names fs p)))"
    "map st_name es = filter (\<lambda>n. \<not> fh_denied h (child p n)) (sort (child_names fs p))"
    "us = map (\<lambda>n. (n, ''metadata_unavailable'')) (filter (\<lambda>n. fh_denied h (child p n)) (sort (child_names fs p)))"
    using all [of "sort (child_names fs p)"] by auto
  have "guarded h fs p = Inr p" using guarded_standing [OF assms(1,2) is_dir_standing [OF assms(3)] assms(4,5)] .
  then show ?thesis using l assms(3) by (simp add: list_directory_def)
qed

text \<open>
  A read returns exactly the requested window, or fails. What is returned of a file is never more than the limit; from
  its base64 text the bytes of the window are recovered, and its plain text encodes them; without a length the window reaches
  to the end of the file.
\<close>

theorem read_returns_window:
  assumes "host_laws h" "store_ok fs" "vet h fs True p = Inr q" "is_file fs q"
    and "read_file h lim fs p offset len encoding = Inr r"
  shows "\<exists>w. w = take (read_window offset len (file_data fs q)) (drop offset (file_data fs q)) \<and>
    int (length w) \<le> fl_max_read lim \<and> rd_final_path r = q \<and> rd_size r = int (length (file_data fs q)) \<and>
    (len = None \<longrightarrow> w = drop offset (file_data fs q)) \<and>
    (case encoding of
       EncodeText \<Rightarrow> rd_base64 r = None \<and> (\<exists>t. rd_text r = Some t \<and> utf8_encode t = Some w)
     | EncodeBase64 \<Rightarrow> rd_text r = None \<and> (\<exists>t. rd_base64 r = Some t \<and> b64decode t = Some w))"
proof -
  obtain content final where o: "opened_file h fs p = Inr (content, final)" using assms(5) by (auto simp: read_file_def bindR_eq_Inr)
  have data: "content = file_data fs q" "final = q" using opened_data [OF assms(1,2) o vet_resolves [OF assms(3)] assms(4)] by simp_all
  let ?n = "read_window offset len content"
  have chunk: "(if ?n < length (take (?n + 1) (drop offset content)) then take ?n (take (?n + 1) (drop offset content))
      else take (?n + 1) (drop offset content)) = take ?n (drop offset content)"
    by (auto simp: min_def split: if_splits)
  have small: "\<not> fl_max_read lim < int ?n" using assms(5) o by (auto simp: read_file_def Let_def)
  have "read_file h lim fs p offset len encoding =
      (let result = \<lparr>rd_final_path = final, rd_size = int (length content), rd_modified = fh_mtime h fs final,
                     rd_text = None, rd_base64 = None\<rparr>
       in (case encoding of
             EncodeText \<Rightarrow> (case utf8_decode (take ?n (drop offset content)) of None \<Rightarrow> Inl FileUnicode
               | Some t \<Rightarrow> Inr (result\<lparr>rd_text := Some t\<rparr>))
           | EncodeBase64 \<Rightarrow> Inr (result\<lparr>rd_base64 := Some (b64encode (take ?n (drop offset content)))\<rparr>)))"
    by (simp only: read_file_def o bindR_simps prod.case Let_def small if_False chunk)
  then have r: "(case encoding of
      EncodeText \<Rightarrow> (case utf8_decode (take ?n (drop offset content)) of None \<Rightarrow> False
        | Some t \<Rightarrow> rd_text r = Some t \<and> rd_base64 r = None)
    | EncodeBase64 \<Rightarrow> rd_text r = None \<and> rd_base64 r = Some (b64encode (take ?n (drop offset content)))) \<and>
    rd_final_path r = final \<and> rd_size r = int (length content)"
    using assms(5) by (auto simp: Let_def split: read_encoding.splits option.splits)
  show ?thesis
    using r small
    by (intro exI [where x = "take ?n (drop offset content)"])
      (auto simp: data read_window_def b64_decode_encode utf8_encode_decode split: read_encoding.splits option.splits)
qed

section \<open>Concrete operations\<close>

definition sample_limits :: file_limits where
  "sample_limits = \<lparr>fl_max_read = 10, fl_max_write = 10, fl_bulk_threshold = 3, fl_approval_categories = [''bulk_delete'']\<rparr>"

definition no_faults :: file_faults where
  "no_faults = \<lparr>ff_create = None, ff_write = None, ff_sync = None, ff_replace = None, ff_unlink = None\<rparr>"

abbreviation "sample_dir \<equiv> sample_path [''work'', ''d'']"
abbreviation "sample_file \<equiv> sample_path [''work'', ''d'', ''f'']"

text \<open>
  A link below a deleted directory: two items are counted, so no approval is needed; what the link leads to is
  deleted, outside the directory, and then the directory is found not to be empty.
\<close>

definition link_store :: file_store where
  "link_store =
     [(sample_path [], DirNode), (sample_path [''work''], DirNode), (sample_dir, DirNode),
      (sample_path [''work'', ''d'', ''l''], LinkNode (sample_path [''work'', ''x''])), (sample_path [''work'', ''x''], DirNode),
      (sample_path [''work'', ''x'', ''f''], FileNode [1])]"

lemma recursive_delete_follows_links:
  "count_items link_store sample_dir = 2 \<and>
   delete_path 4 store_host sample_limits deny_bulk_delete True sample_dir link_store =
     (Inl (FileOs OsOther), without link_store (sample_path [''work'', ''x'']))"
  by code_simp

text \<open>A write through a link to a root puts its temporary file beside the root.\<close>

lemma temporary_file_leaves_roots:
  "let fs = [(sample_path [], DirNode), (sample_path [''work''], DirNode), (sample_path [''work'', ''l''], LinkNode work_root)]
   in snd (write_file store_host sample_limits no_faults (ustr ''t'') (sample_path [''work'', ''l'']) [7] fs) =
      [fs @ [(sample_path [''.work.t.tmp''], FileNode [])], fs @ [(sample_path [''.work.t.tmp''], FileNode [7])], fs]"
  by code_simp

text \<open>A write that fails while the temporary file is written leaves it behind.\<close>

lemma failed_write_leaves_temporary:
  "snd (write_file store_host sample_limits (no_faults\<lparr>ff_write := Some (OsOther, 1)\<rparr>) (ustr ''t'') sample_file [7, 8] sample_store) =
     [sample_store @ [(sample_path [''work'', ''d'', ''.f.t.tmp''], FileNode [])],
      sample_store @ [(sample_path [''work'', ''d'', ''.f.t.tmp''], FileNode [7])]]"
  by code_simp

lemma sample_write:
  "write_file store_host sample_limits no_faults (ustr ''t'') sample_file [7] sample_store =
     (Inr \<lparr>mu_final_path = sample_file, mu_changed = True, mu_size = Some 1, mu_modified = Some 0\<rparr>,
      [sample_store @ [(sample_path [''work'', ''d'', ''.f.t.tmp''], FileNode [])],
       sample_store @ [(sample_path [''work'', ''d'', ''.f.t.tmp''], FileNode [7])],
       [(sample_path [], DirNode), (sample_path [''work''], DirNode), (sample_dir, DirNode), (sample_file, FileNode [7])]])"
  by code_simp


abbreviation "sample_new \<equiv> sample_path [''work'', ''g'']"

lemma sample_move:
  "move_file store_host no_faults (ustr ''t'') sample_file sample_new sample_store =
     (Inr \<lparr>mu_final_path = sample_new, mu_changed = True, mu_size = Some 1, mu_modified = Some 0\<rparr>,
      [sample_store @ [(sample_path [''work'', ''.g.t.tmp''], FileNode [])],
       sample_store @ [(sample_path [''work'', ''.g.t.tmp''], FileNode [1])],
       sample_store @ [(sample_new, FileNode [1])],
       [(sample_path [], DirNode), (sample_path [''work''], DirNode), (sample_dir, DirNode), (sample_new, FileNode [1])]])"
  by code_simp


lemma sample_standing: "standing sample_store sample_dir" "is_dir sample_store sample_dir" "is_file sample_store sample_file"
  by (simp_all add: standing_map_of is_dir_def is_file_def sample_store_def)

lemma sample_quiet: "quiet store_host sample_store sample_dir"
proof -
  have "standing sample_store sample_file" using sample_standing(3) by (simp add: standing_def)
  then show ?thesis
    using sample_standing(1) sample_admitted [of "[''work'', ''d'']"] sample_admitted [of "[''work'', ''d'', ''f'']"]
    by (auto simp: quiet_def sample_store_def below_sample store_host_def)
qed

lemma deletion_is_exact_witness:
  "delete_path 2 store_host sample_limits deny_bulk_delete True sample_dir sample_store =
     (Inr \<lparr>mu_final_path = sample_dir, mu_changed = True, mu_size = None, mu_modified = None\<rparr>, without sample_store sample_dir)"
proof -
  have n: "count_items sample_store sample_dir = 2"
    by (simp add: count_items_def sample_standing) (simp add: sample_store_def below_sample)
  have d: "within_depth sample_store sample_dir 2"
    by (simp add: within_depth_def sample_store_def below_sample) (simp add: sample_path_def)
  have a: "wp_parts sample_dir \<noteq> []" "admitted store_host (parent sample_dir)"
    using sample_admitted [of "[''work'']"] by (simp_all add: sample_path_def parent_def)
  show ?thesis
    using deletion_is_exact [OF store_host_laws sample_store_ok sample_standing(1) sample_quiet d a,
        where recursive = True and lim = sample_limits and authorizer = deny_bulk_delete]
    by (simp add: n requires_approval_def sample_limits_def)
qed

lemma deletion_stays_in_roots_witness:
  "is_within (fh_paths store_host) (sample_path [''work'', ''x'', ''f'']) work_root"
proof -
  let ?x = "sample_path [''work'', ''x'', ''f'']"
  have "map_of (without link_store (sample_path [''work'', ''x''])) ?x = None" "map_of link_store ?x = Some (FileNode [1])"
    by (simp_all add: without_def map_of_keeping below_sample link_store_def)
  then show ?thesis
    using deletion_stays_in_roots [OF conjunct2 [OF recursive_delete_follows_links]]
    by (force simp: store_host_def sample_policy_def)
qed

lemma sample_denied [simp]: "\<not> fh_denied store_host p"
  by (simp add: store_host_def)

lemma sample_listing_children: "child_names sample_store sample_dir = [ustr ''f'']"
  by code_simp

lemma listing_reports_every_child_witness:
  "\<exists>r. list_directory store_host sample_store sample_dir = Inr r \<and> map st_name (ls_entries r) = [ustr ''f''] \<and> ls_unavailable r = []"
proof -
  have f: "child sample_dir (ustr ''f'') = sample_file" by (simp add: child_def sample_path_def)
  have ch: "standing sample_store (child sample_dir n) \<and> admitted store_host (child sample_dir n)"
    if "n \<in> set (child_names sample_store sample_dir)" for n
  proof -
    have "n = ustr ''f''" using that unfolding sample_listing_children by simp
    then show ?thesis using sample_standing(3) sample_admitted [of "[''work'', ''d'', ''f'']"] f by (simp only: standing_def) simp
  qed
  have a: "admitted store_host sample_dir" by (rule sample_admitted) simp
  obtain r where "list_directory store_host sample_store sample_dir = Inr r"
    "map st_name (ls_entries r) =
      filter (\<lambda>n. \<not> fh_denied store_host (child sample_dir n)) (sort (child_names sample_store sample_dir))"
    "ls_unavailable r = map (\<lambda>n. (n, ''metadata_unavailable''))
      (filter (\<lambda>n. fh_denied store_host (child sample_dir n)) (sort (child_names sample_store sample_dir)))"
    using listing_reports_every_child [OF store_host_laws sample_store_ok sample_standing(2) a sample_denied ch] by blast
  then show ?thesis by (intro exI [where x = r]) (simp add: sample_listing_children)
qed

lemma sample_read:
  "read_file store_host sample_limits sample_store sample_file 0 None EncodeBase64 =
     Inr \<lparr>rd_final_path = sample_file, rd_size = 1, rd_modified = 0, rd_text = None, rd_base64 = Some (ustr ''AQ=='')\<rparr>"
  by code_simp

lemma read_returns_window_witness: "b64decode (ustr ''AQ=='') = Some (file_data sample_store sample_file)"
proof -
  have "vet store_host sample_store True sample_file = Inr sample_file" by code_simp
  from read_returns_window [OF store_host_laws sample_store_ok this sample_standing(3) sample_read]
  show ?thesis by auto
qed

end
