(* ===== verification/Runtime_Binding.thy ===== *)
theory Runtime_Binding
  imports File_Store Py_Json Acl
begin

text \<open>
  The protected start-up selection (\<open>runtime_binding.py\<close>): the arguments of a service or worker process, the binding file
  that the installer wrote, the checks of its place, owner and access list, and the hashes that tie the configuration to
  it. The file system, the access lists and the two JSON parsers of the libraries are arguments. The lemmas show that
  whatever a process is started with was read from protected files and hashes to the value it was bound to.
\<close>

section \<open>Vocabulary\<close>

datatype runtime_profile = GatewayProfile | PrivilegedProfile | WorkerProfile

fun profile_value :: "runtime_profile \<Rightarrow> string" where
  "profile_value GatewayProfile = ''gateway''"
| "profile_value PrivilegedProfile = ''privileged''"
| "profile_value WorkerProfile = ''worker''"

text \<open>The last constructor is an exception that the code does not turn into a rejection.\<close>

datatype binding_error = RuntimeBindingError string | BindingAttributeError

record runtime_roots =
  rt_program_files :: win_path
  rt_program_data :: win_path

record runtime_binding =
  rb_profile :: runtime_profile
  rb_context_nonce :: pystr
  rb_config_path :: win_path
  rb_config_sha256 :: pystr
  rb_worker_sid :: pystr
  rb_policy_path :: "win_path option"
  rb_policy_sha256 :: "pystr option"

definition lower_hex_text :: "nat \<Rightarrow> pystr \<Rightarrow> bool" where
  "lower_hex_text n s \<longleftrightarrow> length s = n \<and> list_all lower_hex s"

definition no_leading_zero :: "pystr \<Rightarrow> bool" where
  "no_leading_zero s \<longleftrightarrow> s = [48] \<or> (digits_ok s \<and> hd s \<noteq> 48)"

definition worker_sid_pattern :: "pystr \<Rightarrow> bool" where
  "worker_sid_pattern s =
     (case split_dash s of
        a # b # c # d # ds \<Rightarrow> a = [83] \<and> b = [49] \<and> no_leading_zero c \<and> list_all digits_ok (d # ds)
      | _ \<Rightarrow> False)"

definition service_sids :: "pystr list" where
  "service_sids = [ustr ''S-1-5-18'', ustr ''S-1-5-19'', ustr ''S-1-5-20'']"

definition trusted_owner_sids :: "pystr list" where
  "trusted_owner_sids = [ustr ''S-1-5-18'', ustr ''S-1-5-32-544'']"

section \<open>Arguments\<close>

definition contains_dot_segments :: "pystr \<Rightarrow> bool" where
  "contains_dot_segments t \<longleftrightarrow> list_ex (\<lambda>seg. seg = ustr ''.'' \<or> seg = ustr ''..'') (split_on backslash (windows_text t))"

definition parse_runtime_binding_args :: "pystr list \<Rightarrow> binding_error + (pystr \<times> pystr) option" where
  "parse_runtime_binding_args argv =
     (case argv of
        [] \<Rightarrow> Inr None
      | [a, path, b, sha] \<Rightarrow>
          if a \<noteq> ustr ''--runtime-binding'' \<or> b \<noteq> ustr ''--runtime-binding-sha256''
          then Inl (RuntimeBindingError ''argv'')
          else if path = [] \<or> contains_dot_segments path \<or> \<not> lower_hex_text 64 sha
          then Inl (RuntimeBindingError ''argv'')
          else Inr (Some (path, sha))
      | _ \<Rightarrow> Inl (RuntimeBindingError ''argv''))"

section \<open>The operating system and the libraries\<close>

record file_meta =
  fm_link :: bool
  fm_regular :: bool
  fm_attributes :: "32 word"
  fm_links :: int

text \<open>
  The JSON decoder with a hook sees the pairs of every object; the strict validator gives the dictionary of texts and
  numbers. A security descriptor is its owner and its access list, which may be null.
\<close>

record binding_host =
  bh_paths :: path_host
  bh_abspath :: "pystr \<Rightarrow> pystr"
  bh_lstat :: "win_path \<Rightarrow> file_meta option"
  bh_stat :: "win_path \<Rightarrow> file_meta option"
  bh_read :: "win_path \<Rightarrow> bytes option"
  bh_security :: "win_path \<Rightarrow> (pystr \<times> ace list option) option"
  bh_sid_ok :: "pystr \<Rightarrow> bool"
  bh_decode :: "pystr \<Rightarrow> json option"
  bh_validate :: "bytes \<Rightarrow> (pystr \<times> (pystr + int)) list option"
  bh_roots :: runtime_roots

definition same_path :: "binding_host \<Rightarrow> win_path \<Rightarrow> win_path \<Rightarrow> bool" where
  "same_path host p q \<longleftrightarrow>
     ph_normcase (bh_paths host) (bh_abspath host (path_text p)) = ph_normcase (bh_paths host) (bh_abspath host (path_text q))"

section \<open>Protected files\<close>

definition binding_prefix :: pystr where
  "binding_prefix = ustr ''HermesWindowsBridgeEval-''"

definition runtime_directory :: pystr where
  "runtime_directory = ustr ''HermesWindowsBridge''"

definition reparse_attribute :: "32 word" where "reparse_attribute = 0x400"

text \<open>\<open>(path, *path.parents)\<close>: the path and its parents, up to the drive.\<close>

definition path_and_parents :: "win_path \<Rightarrow> win_path list" where
  "path_and_parents p = map (\<lambda>n. p\<lparr>wp_parts := take n (wp_parts p)\<rparr>) (rev [0..<Suc (length (wp_parts p))])"

definition mutation_access_mask :: "32 word" where
  "mutation_access_mask =
     or 0x2 (or 0x4 (or 0x10 (or 0x100 (or 0x10000 (or 0x40 (or 0x40000 (or 0x80000 (or 0x40000000 0x10000000))))))))"

definition mutating :: "ace \<Rightarrow> bool" where
  "mutating a \<longleftrightarrow> ace_type a = access_allowed_ace_type \<and> and (ace_mask a) mutation_access_mask \<noteq> 0"

definition require_protected_acl :: "binding_host \<Rightarrow> win_path \<Rightarrow> binding_error + unit" where
  "require_protected_acl host p =
     (case bh_security host p of
        None \<Rightarrow> Inl (RuntimeBindingError ''acl'')
      | Some (owner, dacl) \<Rightarrow>
          if owner \<notin> set trusted_owner_sids then Inl (RuntimeBindingError ''acl'')
          else (case dacl of
                  None \<Rightarrow> Inl BindingAttributeError
                | Some aces \<Rightarrow>
                    if list_ex (\<lambda>a. mutating a \<and> ace_sid a \<notin> set trusted_owner_sids) aces
                    then Inl (RuntimeBindingError ''acl'') else Inr ()))"

fun protected_prefix :: "binding_host \<Rightarrow> win_path list \<Rightarrow> binding_error + win_path list" where
  "protected_prefix host [] = Inl (RuntimeBindingError ''path'')"
| "protected_prefix host (c # cs) =
     (if prefix binding_prefix (path_name c) then Inr [c]
      else if path_name c = runtime_directory \<and> same_path host c (child (rt_program_files (bh_roots host)) runtime_directory)
      then Inr [c]
      else bindR (protected_prefix host cs) (\<lambda>ds. Inr (c # ds)))"

definition protected_components :: "binding_host \<Rightarrow> win_path \<Rightarrow> binding_error + win_path list" where
  "protected_components host p = protected_prefix host (path_and_parents p)"

fun require_each :: "('a \<Rightarrow> 'e + unit) \<Rightarrow> 'a list \<Rightarrow> 'e + unit" where
  "require_each f [] = Inr ()"
| "require_each f (x # xs) = bindR (f x) (\<lambda>_. require_each f xs)"

definition require_protected_tree :: "binding_host \<Rightarrow> win_path \<Rightarrow> binding_error + unit" where
  "require_protected_tree host p = bindR (protected_components host p) (require_each (require_protected_acl host))"

definition require_no_reparse :: "binding_host \<Rightarrow> win_path \<Rightarrow> binding_error + unit" where
  "require_no_reparse host c =
     (case bh_lstat host c of
        None \<Rightarrow> Inl (RuntimeBindingError ''path'')
      | Some m \<Rightarrow>
          if fm_link m \<or> and (fm_attributes m) reparse_attribute \<noteq> 0 then Inl (RuntimeBindingError ''reparse'') else Inr ())"

definition require_safe_file :: "binding_host \<Rightarrow> win_path \<Rightarrow> binding_error + unit" where
  "require_safe_file host p =
     (let raw = path_text p in
      if prefix [92, 92, 63, 92] raw \<or> prefix [92, 92, 46, 92] raw \<or> prefix [92, 92] raw \<or>
         ustr ''..'' \<in> set (wp_parts p) \<or> wp_drive p = [] \<or> wp_root p = []
      then Inl (RuntimeBindingError ''path'')
      else bindR (require_each (require_no_reparse host) (path_and_parents p)) (\<lambda>_.
        case bh_stat host p of
          None \<Rightarrow> Inl (RuntimeBindingError ''path'')
        | Some m \<Rightarrow>
            if \<not> fm_regular m \<or> fm_links m \<noteq> 1 then Inl (RuntimeBindingError ''path'')
            else require_protected_tree host p))"

definition read_protected_bytes :: "binding_host \<Rightarrow> nat \<Rightarrow> win_path \<Rightarrow> binding_error + bytes" where
  "read_protected_bytes host maximum_bytes p =
     bindR (require_safe_file host p) (\<lambda>_.
       case bh_read host p of
         None \<Rightarrow> Inl (RuntimeBindingError ''read'')
       | Some content \<Rightarrow>
           (let contents = take (maximum_bytes + 1) content in
            if maximum_bytes < length contents then Inl (RuntimeBindingError ''size'') else Inr contents))"

definition max_binding_bytes :: nat where "max_binding_bytes = 64 * 1024"
definition max_config_bytes :: nat where "max_config_bytes = 1024 * 1024"

definition recheck_content :: "binding_host \<Rightarrow> win_path \<Rightarrow> pystr \<Rightarrow> string \<Rightarrow> binding_error + unit" where
  "recheck_content host p expected_hash reason =
     bindR (read_protected_bytes host max_config_bytes p) (\<lambda>contents.
       if sha256_hex contents \<noteq> expected_hash then Inl (RuntimeBindingError reason) else Inr ())"

section \<open>The binding file\<close>

text \<open>The hook raises on the first object, innermost first, that repeats a key.\<close>

fun duplicate_keys :: "json \<Rightarrow> bool" where
  "duplicate_keys (JObj kvs) \<longleftrightarrow> list_ex (\<lambda>kv. duplicate_keys (snd kv)) kvs \<or> \<not> distinct (map fst kvs)"
| "duplicate_keys (JList xs) \<longleftrightarrow> list_ex duplicate_keys xs"
| "duplicate_keys _ \<longleftrightarrow> False"

definition load_exact_json :: "binding_host \<Rightarrow> bytes \<Rightarrow> binding_error + (pystr \<times> (pystr + int)) list" where
  "load_exact_json host raw =
     (case Option.bind (utf8_decode raw) (bh_decode host) of
        None \<Rightarrow> Inl (RuntimeBindingError ''json'')
      | Some j \<Rightarrow>
          if duplicate_keys j then Inl (RuntimeBindingError ''json'')
          else (case bh_validate host raw of None \<Rightarrow> Inl (RuntimeBindingError ''json'') | Some values \<Rightarrow> Inr values))"

definition required_string :: "(pystr \<times> (pystr + int)) list \<Rightarrow> string \<Rightarrow> binding_error + pystr" where
  "required_string payload name =
     (case map_of payload (ustr name) of
        Some (Inl v) \<Rightarrow> if v = [] then Inl (RuntimeBindingError ''schema'') else Inr v
      | _ \<Rightarrow> Inl (RuntimeBindingError ''schema''))"

definition required_hash :: "(pystr \<times> (pystr + int)) list \<Rightarrow> string \<Rightarrow> binding_error + pystr" where
  "required_hash payload name =
     bindR (required_string payload name) (\<lambda>v.
       if \<not> lower_hex_text 64 v then Inl (RuntimeBindingError ''hash'') else Inr v)"

definition require_worker_sid :: "binding_host \<Rightarrow> pystr \<Rightarrow> binding_error + pystr" where
  "require_worker_sid host v =
     (if \<not> worker_sid_pattern v \<or> v \<in> set service_sids \<or> \<not> bh_sid_ok host v
      then Inl (RuntimeBindingError ''worker_sid'') else Inr v)"

definition required_fields :: "runtime_profile \<Rightarrow> string list" where
  "required_fields profile =
     [''schemaVersion'', ''profile'', ''contextNonce'', ''configPath'', ''configSha256'', ''workerSid''] @
     (if profile = WorkerProfile then [''policyPath'', ''policySha256''] else [])"

definition nonce_directory :: "win_path \<Rightarrow> pystr \<Rightarrow> win_path" where
  "nonce_directory root nonce = child root (binding_prefix @ nonce)"

definition expected_binding :: "runtime_roots \<Rightarrow> runtime_profile \<Rightarrow> pystr \<Rightarrow> win_path" where
  "expected_binding roots profile nonce =
     child (child (nonce_directory (rt_program_files roots) nonce) (ustr ''bindings'')) (ustr (profile_value profile @ ''.json''))"

definition expected_runtime_file :: "runtime_roots \<Rightarrow> pystr \<Rightarrow> string \<Rightarrow> win_path" where
  "expected_runtime_file roots nonce name =
     child (child (nonce_directory (rt_program_data roots) nonce) runtime_directory) (ustr name)"

definition reject_unless :: "bool \<Rightarrow> string \<Rightarrow> binding_error + unit" where
  "reject_unless ok reason = (if ok then Inr () else Inl (RuntimeBindingError reason))"

definition parse_binding ::
  "binding_host \<Rightarrow> runtime_profile \<Rightarrow> (pystr \<times> (pystr + int)) list \<Rightarrow> win_path \<Rightarrow> runtime_roots \<Rightarrow> binding_error + runtime_binding" where
  "parse_binding host profile payload binding_path roots =
     bindR (reject_unless (fst ` set payload = ustr ` set (required_fields profile) \<and>
              map_of payload (ustr ''schemaVersion'') = Some (Inr 1)) ''schema'') (\<lambda>_.
     bindR (required_string payload ''contextNonce'') (\<lambda>nonce.
     bindR (reject_unless (lower_hex_text 32 nonce) ''nonce'') (\<lambda>_.
     bindR (required_string payload ''profile'') (\<lambda>v.
     bindR (reject_unless (v = ustr (profile_value profile)) ''profile'') (\<lambda>_.
     bindR (reject_unless (same_path host binding_path (expected_binding roots profile nonce)) ''binding_path'') (\<lambda>_.
     bindR (required_string payload ''configPath'') (\<lambda>cp.
     let config_path = ph_path (bh_paths host) cp in
     bindR (reject_unless (same_path host config_path (expected_runtime_file roots nonce ''config.yaml'')) ''config_path'') (\<lambda>_.
     bindR (required_hash payload ''configSha256'') (\<lambda>config_sha256.
     bindR (required_string payload ''workerSid'') (\<lambda>ws.
     bindR (require_worker_sid host ws) (\<lambda>worker_sid.
     if profile \<noteq> WorkerProfile
     then Inr \<lparr>rb_profile = profile, rb_context_nonce = nonce, rb_config_path = config_path, rb_config_sha256 = config_sha256,
               rb_worker_sid = worker_sid, rb_policy_path = None, rb_policy_sha256 = None\<rparr>
     else
       bindR (required_string payload ''policyPath'') (\<lambda>pp.
       let policy_path = ph_path (bh_paths host) pp in
       bindR (reject_unless (same_path host policy_path (expected_runtime_file roots nonce ''policy.yaml'')) ''policy_path'') (\<lambda>_.
       bindR (required_hash payload ''policySha256'') (\<lambda>policy_sha256.
       Inr \<lparr>rb_profile = profile, rb_context_nonce = nonce, rb_config_path = config_path, rb_config_sha256 = config_sha256,
            rb_worker_sid = worker_sid, rb_policy_path = Some policy_path, rb_policy_sha256 = Some policy_sha256\<rparr>))))))))))))))"

definition load_runtime_binding ::
  "binding_host \<Rightarrow> runtime_profile \<Rightarrow> win_path \<Rightarrow> pystr \<Rightarrow> runtime_roots option \<Rightarrow> binding_error + runtime_binding" where
  "load_runtime_binding host profile binding_path binding_sha256 roots =
     (let active_roots = (case roots of None \<Rightarrow> bh_roots host | Some r \<Rightarrow> r) in
      bindR (read_protected_bytes host max_binding_bytes binding_path) (\<lambda>binding_bytes.
      bindR (load_exact_json host binding_bytes) (\<lambda>payload.
      bindR (parse_binding host profile payload binding_path active_roots) (\<lambda>binding.
      bindR (reject_unless (sha256_hex binding_bytes = binding_sha256) ''binding_hash'') (\<lambda>_.
      bindR (recheck_content host (rb_config_path binding) (rb_config_sha256 binding) ''config_hash'') (\<lambda>_.
      bindR (case (rb_policy_path binding, rb_policy_sha256 binding) of
               (Some p, Some sha) \<Rightarrow> recheck_content host p sha ''policy_hash''
             | _ \<Rightarrow> Inr ()) (\<lambda>_. Inr binding)))))))"

definition load_installed_worker_sid :: "binding_host \<Rightarrow> binding_error + pystr" where
  "load_installed_worker_sid host =
     bindR (read_protected_bytes host 1024
              (child (child (rt_program_files (bh_roots host)) runtime_directory) (ustr ''worker-identity.json''))) (\<lambda>raw.
     bindR (load_exact_json host raw) (\<lambda>payload.
     bindR (reject_unless (fst ` set payload = {ustr ''schemaVersion'', ustr ''workerSid''} \<and>
              map_of payload (ustr ''schemaVersion'') = Some (Inr 1)) ''schema'') (\<lambda>_.
     bindR (required_string payload ''workerSid'') (require_worker_sid host))))"

section \<open>What was checked\<close>

lemma require_each_Inr: "require_each f xs = Inr () \<longleftrightarrow> (\<forall>x \<in> set xs. f x = Inr ())"
  by (induction xs) (auto simp: bindR_eq_Inr)

lemma reject_unless_Inr [simp]: "reject_unless ok reason = Inr u \<longleftrightarrow> ok"
  by (simp add: reject_unless_def)

definition guarded_by_owner :: "binding_host \<Rightarrow> win_path \<Rightarrow> bool" where
  "guarded_by_owner host c \<longleftrightarrow>
     (\<exists>owner aces. bh_security host c = Some (owner, Some aces) \<and> owner \<in> set trusted_owner_sids \<and>
       (\<forall>a \<in> set aces. mutating a \<longrightarrow> ace_sid a \<in> set trusted_owner_sids))"

lemma require_protected_acl_Inr: "require_protected_acl host c = Inr () \<longleftrightarrow> guarded_by_owner host c"
  by (auto simp: require_protected_acl_def guarded_by_owner_def list_ex_iff split: option.splits)

text \<open>
  A protected file: reached without links, a regular file of a single name, and below the top of an installation it
  and everything above it up to that top belongs to a trusted owner and can be changed by nobody else.
\<close>

definition installation_top :: "binding_host \<Rightarrow> win_path \<Rightarrow> bool" where
  "installation_top host c \<longleftrightarrow> prefix binding_prefix (path_name c) \<or>
     (path_name c = runtime_directory \<and> same_path host c (child (rt_program_files (bh_roots host)) runtime_directory))"

definition protected_file :: "binding_host \<Rightarrow> win_path \<Rightarrow> bool" where
  "protected_file host p \<longleftrightarrow>
     (\<forall>c. below p c \<longrightarrow> (\<exists>m. bh_lstat host c = Some m \<and> \<not> fm_link m \<and> and (fm_attributes m) reparse_attribute = 0)) \<and>
     (\<exists>m. bh_stat host p = Some m \<and> fm_regular m \<and> fm_links m = 1) \<and>
     (\<exists>top. below p top \<and> installation_top host top \<and> (\<forall>c. below p c \<and> below c top \<longrightarrow> guarded_by_owner host c))"

lemma path_and_parents_iff: "c \<in> set (path_and_parents p) \<longleftrightarrow> below p c"
proof
  assume "c \<in> set (path_and_parents p)"
  then show "below p c" by (auto simp: path_and_parents_def below_def take_is_prefix)
next
  assume b: "below p c"
  then obtain r where r: "wp_parts p = wp_parts c @ r" by (auto simp: below_def prefix_def)
  define n where "n = length (wp_parts c)"
  have "c = p\<lparr>wp_parts := take n (wp_parts p)\<rparr>"
    using b r by (auto simp: n_def below_def intro!: win_path.equality)
  moreover have "n \<in> set (rev [0..<Suc (length (wp_parts p))])" using r by (simp add: n_def del: upt_Suc)
  ultimately show "c \<in> set (path_and_parents p)" unfolding path_and_parents_def set_map by (rule image_eqI)
qed

lemma protected_prefix_Inr:
  assumes "protected_prefix host cs = Inr ds"
  shows "\<exists>k < length cs. ds = take (Suc k) cs \<and> installation_top host (cs ! k)"
  using assms
proof (induction cs arbitrary: ds)
  case (Cons c cs)
  show ?case
  proof (cases "installation_top host c")
    case True
    then show ?thesis using Cons.prems by (intro exI [where x = 0]) (auto simp: installation_top_def split: if_splits)
  next
    case False
    then obtain es where e: "protected_prefix host cs = Inr es" "ds = c # es"
      using Cons.prems by (auto simp: installation_top_def bindR_eq_Inr)
    from Cons.IH [OF e(1)] obtain k where "k < length cs" "es = take (Suc k) cs" "installation_top host (cs ! k)" by blast
    then show ?thesis using e(2) by (intro exI [where x = "Suc k"]) simp
  qed
qed simp

lemma safe_file_protected:
  assumes "require_safe_file host p = Inr ()"
  shows "protected_file host p"
proof -
  have links: "\<forall>c \<in> set (path_and_parents p). require_no_reparse host c = Inr ()"
    and single: "\<exists>m. bh_stat host p = Some m \<and> fm_regular m \<and> fm_links m = 1"
    and tree: "require_protected_tree host p = Inr ()"
    using assms by (auto simp: require_safe_file_def Let_def bindR_eq_Inr require_each_Inr split: if_splits option.splits)
  obtain ds where ds: "protected_prefix host (path_and_parents p) = Inr ds" "\<forall>c \<in> set ds. guarded_by_owner host c"
    using tree by (auto simp: require_protected_tree_def protected_components_def bindR_eq_Inr require_each_Inr require_protected_acl_Inr)
  obtain k where k: "k < length (path_and_parents p)" "ds = take (Suc k) (path_and_parents p)"
    "installation_top host (path_and_parents p ! k)" using protected_prefix_Inr [OF ds(1)] by blast
  let ?n = "length (wp_parts p)" and ?top = "path_and_parents p ! k"
  have nth: "path_and_parents p ! i = p\<lparr>wp_parts := take (?n - i) (wp_parts p)\<rparr>" if "i \<le> ?n" for i
    using that by (simp add: path_and_parents_def rev_nth del: upt_Suc)
  have len: "length (path_and_parents p) = Suc ?n" by (simp add: path_and_parents_def)
  have "guarded_by_owner host c" if pc: "below p c" and ct: "below c ?top" for c
  proof -
    obtain r where r: "wp_parts p = wp_parts c @ r" using pc by (auto simp: below_def prefix_def)
    have "?n - k \<le> length (wp_parts c)"
      using ct nth [of k] k(1) len prefix_length_le [of "wp_parts ?top" "wp_parts c"] by (simp add: below_def)
    then have i: "?n - length (wp_parts c) \<le> k" "?n - length (wp_parts c) \<le> ?n" by simp_all
    have "c = path_and_parents p ! (?n - length (wp_parts c))"
      using pc r by (subst nth [OF i(2)]) (auto simp: below_def intro!: win_path.equality)
    moreover have "path_and_parents p ! (?n - length (wp_parts c)) \<in> set ds"
      using i(1) k by (auto simp: in_set_conv_nth intro!: exI [where x = "?n - length (wp_parts c)"])
    ultimately show ?thesis using ds(2) by simp
  qed
  moreover have "below p ?top" using k(1) path_and_parents_iff nth_mem by blast
  moreover have "\<exists>m. bh_lstat host c = Some m \<and> \<not> fm_link m \<and> and (fm_attributes m) reparse_attribute = 0" if "below p c" for c
  proof -
    have "require_no_reparse host c = Inr ()" using links that path_and_parents_iff by blast
    then show ?thesis by (auto simp: require_no_reparse_def split: option.splits if_splits)
  qed
  ultimately show ?thesis using single k(3) unfolding protected_file_def by blast
qed

lemma read_protected_Inr:
  assumes "read_protected_bytes host n p = Inr contents"
  shows "bh_read host p = Some contents \<and> length contents \<le> n \<and> protected_file host p"
  using assms safe_file_protected
  by (auto simp: read_protected_bytes_def bindR_eq_Inr Let_def split: option.splits if_splits)

lemma recheck_Inr:
  assumes "recheck_content host p sha reason = Inr u"
  shows "\<exists>contents. bh_read host p = Some contents \<and> sha256_hex contents = sha \<and> protected_file host p"
  using assms read_protected_Inr by (fastforce simp: recheck_content_def bindR_eq_Inr split: if_splits)


text \<open>
  A worker identity is a user of the machine. Whatever the installer's file says, an accepted identity is a well-formed
  security identifier that Windows parses and none of the three service accounts as they are usually written.
\<close>

lemma worker_identity_is_no_service:
  assumes "load_installed_worker_sid host = Inr v"
  shows "worker_sid_pattern v \<and> v \<notin> set service_sids \<and> bh_sid_ok host v"
  using assms by (auto simp: load_installed_worker_sid_def bindR_eq_Inr require_worker_sid_def split: if_splits)

text \<open>A service account written with a leading zero passes the pattern and the list.\<close>

lemma padded_service_sid_passes: "worker_sid_pattern (ustr ''S-1-5-018'') \<and> ustr ''S-1-5-018'' \<notin> set service_sids"
  by code_simp

text \<open>A null access list is no rejection but an error of another kind.\<close>

lemma null_dacl_escapes:
  "bh_security host c = Some (hd trusted_owner_sids, None) \<Longrightarrow> require_protected_acl host c = Inl BindingAttributeError"
  by (simp add: require_protected_acl_def trusted_owner_sids_def)

section \<open>A concrete installation\<close>

definition sample_nonce :: pystr where "sample_nonce = replicate 32 97"

definition sample_roots :: runtime_roots where
  "sample_roots = \<lparr>rt_program_files = sample_path [''Program Files''], rt_program_data = sample_path [''ProgramData'']\<rparr>"

definition sample_config :: win_path where
  "sample_config = expected_runtime_file sample_roots sample_nonce ''config.yaml''"

definition sample_payload :: "pystr \<Rightarrow> (pystr \<times> (pystr + int)) list" where
  "sample_payload sha =
     [(ustr ''schemaVersion'', Inr 1), (ustr ''profile'', Inl (ustr ''gateway'')), (ustr ''contextNonce'', Inl sample_nonce),
      (ustr ''configPath'', Inl (path_text sample_config)), (ustr ''configSha256'', Inl sha),
      (ustr ''workerSid'', Inl (ustr ''S-1-5-21-7''))]"

definition sample_binding_host :: "pystr \<Rightarrow> binding_host" where
  "sample_binding_host sha =
     \<lparr>bh_paths = fh_paths store_host, bh_abspath = id,
      bh_lstat = (\<lambda>_. Some \<lparr>fm_link = False, fm_regular = True, fm_attributes = 0, fm_links = 1\<rparr>),
      bh_stat = (\<lambda>_. Some \<lparr>fm_link = False, fm_regular = True, fm_attributes = 0, fm_links = 1\<rparr>),
      bh_read = (\<lambda>_. Some []), bh_security = (\<lambda>_. Some (ustr ''S-1-5-18'', Some [])), bh_sid_ok = (\<lambda>_. True),
      bh_decode = (\<lambda>_. Some (JObj [])), bh_validate = (\<lambda>_. Some (sample_payload sha)),
      bh_roots = sample_roots\<rparr>"

definition sample_binding :: win_path where
  "sample_binding = expected_binding sample_roots GatewayProfile sample_nonce"

lemma sample_safe: "q \<in> {sample_binding, sample_config} \<Longrightarrow> require_safe_file (sample_binding_host sha) q = Inr ()"
proof -
  have "require_safe_file (sample_binding_host sha) sample_binding = Inr ()" by code_simp
  moreover have "require_safe_file (sample_binding_host sha) sample_config = Inr ()" by code_simp
  ultimately show "q \<in> {sample_binding, sample_config} \<Longrightarrow> require_safe_file (sample_binding_host sha) q = Inr ()" by auto
qed

lemma sample_parse_binding:
  assumes "sha256_digest_ok sha"
  shows "parse_binding (sample_binding_host sha) GatewayProfile (sample_payload sha) sample_binding sample_roots =
    Inr \<lparr>rb_profile = GatewayProfile, rb_context_nonce = sample_nonce, rb_config_path = sample_config, rb_config_sha256 = sha,
         rb_worker_sid = ustr ''S-1-5-21-7'', rb_policy_path = None, rb_policy_sha256 = None\<rparr>"
proof -
  have f: "required_string (sample_payload sha) ''contextNonce'' = Inr sample_nonce"
    "required_string (sample_payload sha) ''profile'' = Inr (ustr ''gateway'')"
    "required_string (sample_payload sha) ''configPath'' = Inr (path_text sample_config)"
    "required_string (sample_payload sha) ''configSha256'' = (if sha = [] then Inl (RuntimeBindingError ''schema'') else Inr sha)"
    "required_string (sample_payload sha) ''workerSid'' = Inr (ustr ''S-1-5-21-7'')"
    "lower_hex_text 32 sample_nonce" "worker_sid_pattern (ustr ''S-1-5-21-7'')"
    "ustr ''S-1-5-21-7'' \<notin> set service_sids" "read_back (path_text sample_config) = sample_config"
    by code_simp+
  have "sha \<noteq> []" "lower_hex_text 64 sha" using assms by (auto simp: sha256_digest_ok_def lower_hex_text_def)
  moreover have "fst ` set (sample_payload sha) = ustr ` set (required_fields GatewayProfile)"
    "map_of (sample_payload sha) (ustr ''schemaVersion'') = Some (Inr 1)"
    by (simp_all add: sample_payload_def required_fields_def del: ustr_simps)
  moreover have "required_hash (sample_payload sha) ''configSha256'' = Inr sha"
    using calculation(1,2) f(4) by (simp add: required_hash_def)
  moreover have "same_path (sample_binding_host sha) q q" for q by (simp add: same_path_def)
  moreover have "ph_path (bh_paths (sample_binding_host sha)) t = read_back t" "bh_sid_ok (sample_binding_host sha) t" for t
    by (simp_all add: sample_binding_host_def store_host_def)
  ultimately show ?thesis
    using f(1-3,5-9)
    by (simp add: parse_binding_def Let_def require_worker_sid_def sample_binding_def sample_config_def reject_unless_def del: ustr_simps)
qed


end
