(* ===== verification/Service_Child.thy ===== *)
theory Service_Child
  imports Runtime_Binding
begin

text \<open>
  The child process of the two Windows services (\<open>service_child.py\<close>): its arguments, and the life of one run as a
  step relation over the tasks of its event loop: the watcher of the parent's control pipe, the runtime, which reports
  itself ready from its own thread, and the main task that waits for the end. The lemmas show that the child says it is ready
  at most once and never after a stop, and that a stop by the parent lets the runtime finish.
\<close>

section \<open>Arguments\<close>

datatype service_profile = ServiceGateway | ServicePrivileged

fun profile_of_service :: "service_profile \<Rightarrow> runtime_profile" where
  "profile_of_service ServiceGateway = GatewayProfile"
| "profile_of_service ServicePrivileged = PrivilegedProfile"

datatype child_error = ServiceChildUsageError | ChildBinding binding_error

definition parse_profile :: "pystr list \<Rightarrow> child_error + service_profile" where
  "parse_profile argv =
     (if argv = [ustr ''--profile'', ustr ''gateway''] then Inr ServiceGateway
      else if argv = [ustr ''--profile'', ustr ''privileged''] then Inr ServicePrivileged
      else Inl ServiceChildUsageError)"

definition parse_service_child_args :: "pystr list \<Rightarrow> child_error + service_profile \<times> (pystr \<times> pystr) option" where
  "parse_service_child_args argv =
     (if length argv = 2 then bindR (parse_profile argv) (\<lambda>p. Inr (p, None))
      else if length argv \<noteq> 6 then Inl ServiceChildUsageError
      else bindR (parse_profile (take 2 argv)) (\<lambda>p.
             bindR (mapErr ChildBinding (parse_runtime_binding_args (drop 2 argv))) (\<lambda>b. Inr (p, b))))"

text \<open>What \<open>main\<close> does with the arguments: exit with code 2, fail with another exception, or run.\<close>

datatype child_start = ExitsWithUsage | RaisesInMain | Runs service_profile "runtime_binding option"

definition child_main :: "binding_host \<Rightarrow> pystr list \<Rightarrow> child_start" where
  "child_main host argv =
     (case bindR (parse_service_child_args argv) (\<lambda>(profile, args).
             case args of
               None \<Rightarrow> Inr (profile, None)
             | Some (path, sha) \<Rightarrow>
                 bindR (mapErr ChildBinding (load_runtime_binding host (profile_of_service profile)
                          (ph_path (bh_paths host) path) sha None)) (\<lambda>b. Inr (profile, Some b))) of
        Inr (profile, b) \<Rightarrow> Runs profile b
      | Inl (ChildBinding BindingAttributeError) \<Rightarrow> RaisesInMain
      | Inl _ \<Rightarrow> ExitsWithUsage)"

section \<open>State\<close>

datatype runtime_phase = NotStarted | RuntimeRuns | RuntimeEnded

datatype main_phase = MainStarting | MainWaits bool | MainWaitsForRuntime | MainExited | MainRaised

record child_state =
  ch_thread_stop :: bool
  ch_async_stop :: bool
  ch_ready_announced :: bool
  ch_parent_stop_requested :: bool
  ch_runtime_finished :: bool
  ch_helper_runtime :: bool
  ch_helper_stops :: nat
  ch_runtime :: runtime_phase
  ch_main :: main_phase

definition new_child :: child_state where
  "new_child =
     \<lparr>ch_thread_stop = False, ch_async_stop = False, ch_ready_announced = False, ch_parent_stop_requested = False,
      ch_runtime_finished = False, ch_helper_runtime = False, ch_helper_stops = 0, ch_runtime = NotStarted, ch_main = MainStarting\<rparr>"

definition request_stop :: "child_state \<Rightarrow> child_state" where
  "request_stop c =
     c\<lparr>ch_thread_stop := True, ch_async_stop := True,
       ch_helper_stops := (if ch_helper_runtime c then Suc (ch_helper_stops c) else ch_helper_stops c)\<rparr>"

text \<open>The callback of the runtime; the flag tells whether the ready line was written.\<close>

definition announce_ready :: "child_state \<Rightarrow> bool \<times> child_state" where
  "announce_ready c =
     (if ch_ready_announced c \<or> ch_thread_stop c then (False, c) else (True, c\<lparr>ch_ready_announced := True\<rparr>))"

definition stop_line :: "bytes" where
  "stop_line = map mkb [83, 84, 79, 80, 10]"

definition watch_line :: "bytes \<Rightarrow> child_state \<Rightarrow> child_state" where
  "watch_line line c =
     (if line = stop_line \<or> line = [] then request_stop (c\<lparr>ch_parent_stop_requested := True\<rparr>) else c)"

text \<open>One read of the control pipe: \<open>readline(16)\<close> returns at most 16 bytes, through the first line feed.\<close>

fun read_upto :: "nat \<Rightarrow> bytes \<Rightarrow> bytes \<times> bytes" where
  "read_upto 0 inp = ([], inp)"
| "read_upto (Suc n) [] = ([], [])"
| "read_upto (Suc n) (b # inp) = (if b = mkb 10 then ([b], inp) else (case read_upto n inp of (l, rest) \<Rightarrow> (b # l, rest)))"

definition read_parent_line :: "bytes \<Rightarrow> bytes \<times> bytes" where
  "read_parent_line inp = read_upto 16 inp"

lemma read_upto_consumes: "read_upto n inp = (l, rest) \<Longrightarrow> inp = l @ rest \<and> length l \<le> n \<and> (0 < n \<and> inp \<noteq> [] \<longrightarrow> l \<noteq> [])"
  by (induction n inp arbitrary: l rule: read_upto.induct) (auto split: if_splits prod.splits)

text \<open>The whole watcher, over what the parent writes until it closes the pipe; the number of reads is returned too.\<close>

function watch_parent :: "bytes \<Rightarrow> child_state \<Rightarrow> nat \<times> child_state" where
  "watch_parent inp c =
     (let (l, rest) = read_parent_line inp; c' = watch_line l c
      in if l = stop_line \<or> l = [] then (1, c') else (case watch_parent rest c' of (n, c'') \<Rightarrow> (Suc n, c'')))"
  by pat_completeness auto
termination
proof (relation "measure (\<lambda>(inp, c). length inp)", simp)
  fix inp c p l rest c' assume e: "p = read_parent_line inp" "(l, rest) = p" "\<not> (l = stop_line \<or> l = [])"
  then have "inp = l @ rest" using read_upto_consumes [of 16 inp l rest] by (simp add: read_parent_line_def)
  then show "((rest, c'), inp, c) \<in> measure (\<lambda>(inp, c). length inp)" using e by (cases l) auto
qed

declare watch_parent.simps [simp del]

text \<open>Whatever the parent writes, the watcher ends with a stop, and until then changes nothing.\<close>

lemma watch_parent_stops:
  "snd (watch_parent inp c) = request_stop (c\<lparr>ch_parent_stop_requested := True\<rparr>)"
proof (induction inp c rule: watch_parent.induct)
  case (1 inp c)
  obtain l rest where r: "read_parent_line inp = (l, rest)" by (cases "read_parent_line inp")
  show ?case
  proof (cases "l = stop_line \<or> l = []")
    case True
    then show ?thesis using r by (subst watch_parent.simps) (auto simp: watch_line_def)
  next
    case False
    then have "watch_line l c = c" by (simp add: watch_line_def)
    then show ?thesis using "1.IH" [OF r [symmetric] refl refl False] r False
      by (subst watch_parent.simps) (cases "watch_parent rest c", simp)
  qed
qed

text \<open>A line is cut at 16 bytes, so the end of a longer line can be taken for the stop line.\<close>

lemma long_line_ends_in_stop:
  assumes "length l = 16" "mkb 10 \<notin> set l"
  shows "fst (watch_parent (l @ stop_line @ tail) c) = 2"
proof -
  have cut: "read_upto n (xs @ r) = (xs, r)" if "length xs = n" "mkb 10 \<notin> set xs" for n xs r
    using that by (induction xs arbitrary: n) auto
  have ends: "read_upto n (xs @ mkb 10 # r) = (xs @ [mkb 10], r)" if "length xs < n" "mkb 10 \<notin> set xs" for n xs r
    using that
  proof (induction xs arbitrary: n)
    case Nil
    then show ?case by (cases n) auto
  next
    case (Cons x xs)
    then show ?case by (cases n) auto
  qed
  have "l \<noteq> stop_line" "l \<noteq> []" using assms by (auto simp: stop_line_def)
  moreover have "read_parent_line (l @ stop_line @ tail) = (l, stop_line @ tail)"
    using cut [OF assms, of "stop_line @ tail"] by (simp add: read_parent_line_def)
  moreover have "read_parent_line (stop_line @ tail) = (stop_line, tail)"
    using ends [of "map mkb [83, 84, 79, 80]" 16 tail] by (simp add: read_parent_line_def stop_line_def mkb_def)
  ultimately show ?thesis
    by (subst watch_parent.simps, simp, subst watch_parent.simps) (simp split: prod.splits)
qed

text \<open>After its checkpoint the main task starts the runtime, unless the parent has already stopped it; creating the helper may fail.\<close>

definition start_runtime :: "service_profile \<Rightarrow> bool \<Rightarrow> child_state \<Rightarrow> child_state" where
  "start_runtime profile created c =
     (if ch_thread_stop c then c\<lparr>ch_main := MainWaits False\<rparr>
      else (case profile of
              ServiceGateway \<Rightarrow> c\<lparr>ch_runtime := RuntimeRuns, ch_main := MainWaits True\<rparr>
            | ServicePrivileged \<Rightarrow>
                if \<not> created then c\<lparr>ch_main := MainRaised\<rparr>
                else c\<lparr>ch_helper_runtime := True, ch_runtime := RuntimeRuns, ch_main := MainWaits True\<rparr>))"

text \<open>The end of the runtime task; an exception of it cancels the main task.\<close>

definition runtime_end :: "service_profile \<Rightarrow> bool \<Rightarrow> child_state \<Rightarrow> child_state" where
  "runtime_end profile raised c =
     (let c1 = (case profile of ServiceGateway \<Rightarrow> c | ServicePrivileged \<Rightarrow> c\<lparr>ch_helper_stops := Suc (ch_helper_stops c)\<rparr>);
          c2 = request_stop (c1\<lparr>ch_runtime_finished := True, ch_runtime := RuntimeEnded\<rparr>)
      in if raised then c2\<lparr>ch_main := MainRaised\<rparr> else c2)"

definition main_wakes :: "child_state \<Rightarrow> child_state option" where
  "main_wakes c =
     (case ch_main c of
        MainWaits started \<Rightarrow>
          if \<not> ch_async_stop c then None
          else if ch_parent_stop_requested c \<and> started then Some (c\<lparr>ch_main := MainWaitsForRuntime\<rparr>)
          else Some (c\<lparr>ch_main := MainExited\<rparr>)
      | MainWaitsForRuntime \<Rightarrow> if ch_runtime_finished c then Some (c\<lparr>ch_main := MainExited\<rparr>) else None
      | _ \<Rightarrow> None)"

section \<open>Runs\<close>

datatype child_event = ReadsLine bytes | Starts bool | WritesReady | StaysSilent | Ends bool | Wakes

definition waiting :: "child_state \<Rightarrow> bool" where
  "waiting c \<longleftrightarrow> ch_main c \<notin> {MainExited, MainRaised}"

inductive child_run :: "service_profile \<Rightarrow> child_event list \<Rightarrow> child_state \<Rightarrow> bool" for profile where
  start: "child_run profile [] new_child"
| line: "child_run profile h c \<Longrightarrow> waiting c \<Longrightarrow> \<not> ch_parent_stop_requested c \<Longrightarrow>
    child_run profile (ReadsLine l # h) (watch_line l c)"
| begin_runtime: "child_run profile h c \<Longrightarrow> ch_main c = MainStarting \<Longrightarrow>
    child_run profile (Starts created # h) (start_runtime profile created c)"
| announce: "child_run profile h c \<Longrightarrow> ch_runtime c = RuntimeRuns \<Longrightarrow> announce_ready c = (wrote, c') \<Longrightarrow>
    child_run profile ((if wrote then WritesReady else StaysSilent) # h) c'"
| finish: "child_run profile h c \<Longrightarrow> ch_runtime c = RuntimeRuns \<Longrightarrow>
    child_run profile (Ends raised # h) (runtime_end profile raised c)"
| wake: "child_run profile h c \<Longrightarrow> main_wakes c = Some c' \<Longrightarrow> child_run profile (Wakes # h) c'"

text \<open>The history is newest first. A stop is a control line of the parent or the end of the runtime.\<close>

definition stops :: "child_event \<Rightarrow> bool" where
  "stops e \<longleftrightarrow> (case e of ReadsLine l \<Rightarrow> l = stop_line \<or> l = [] | Ends _ \<Rightarrow> True | _ \<Rightarrow> False)"

section \<open>The order of the end\<close>

text \<open>What each phase of the main task tells of the runtime and of the two stop flags.\<close>

fun phase_ok :: "main_phase \<Rightarrow> runtime_phase \<Rightarrow> bool \<Rightarrow> bool \<Rightarrow> bool" where
  "phase_ok MainStarting r stop told \<longleftrightarrow> r = NotStarted \<and> (stop \<longrightarrow> told)"
| "phase_ok (MainWaits started) r stop told \<longleftrightarrow>
     (if started then r \<noteq> NotStarted \<and> (stop \<and> \<not> told \<longrightarrow> r = RuntimeEnded) else r = NotStarted \<and> stop)"
| "phase_ok MainWaitsForRuntime r stop told \<longleftrightarrow> r \<noteq> NotStarted \<and> stop \<and> told"
| "phase_ok MainExited r stop told \<longleftrightarrow> stop \<and> r \<noteq> RuntimeRuns"
| "phase_ok MainRaised r stop told \<longleftrightarrow> r \<noteq> RuntimeRuns"

definition phase_inv :: "child_state \<Rightarrow> bool" where
  "phase_inv c \<longleftrightarrow> phase_ok (ch_main c) (ch_runtime c) (ch_thread_stop c) (ch_parent_stop_requested c)"

definition helper_inv :: "child_state \<Rightarrow> bool" where
  "helper_inv c \<longleftrightarrow> (ch_helper_runtime c \<longrightarrow> ch_runtime c \<noteq> NotStarted \<and> (ch_thread_stop c \<longrightarrow> 0 < ch_helper_stops c))"

definition signal_inv :: "child_event list \<Rightarrow> child_state \<Rightarrow> bool" where
  "signal_inv h c \<longleftrightarrow>
     list_ex stops h = ch_thread_stop c \<and> ch_async_stop c = ch_thread_stop c \<and>
     (WritesReady \<in> set h) = ch_ready_announced c \<and>
     ch_runtime_finished c = (ch_runtime c = RuntimeEnded) \<and> (ch_parent_stop_requested c \<longrightarrow> ch_thread_stop c)"

lemma stops_simps [simp]:
  "stops (ReadsLine l) \<longleftrightarrow> l = stop_line \<or> l = []" "stops (Ends r)" "\<not> stops (Starts b)" "\<not> stops WritesReady"
  "\<not> stops StaysSilent" "\<not> stops Wakes"
  by (simp_all add: stops_def)

lemma announce_cases:
  assumes "announce_ready c = (wrote, c')"
  shows "(wrote \<and> c' = c\<lparr>ch_ready_announced := True\<rparr> \<and> \<not> ch_ready_announced c \<and> \<not> ch_thread_stop c) \<or> (\<not> wrote \<and> c' = c)"
  using assms by (auto simp: announce_ready_def split: if_splits)

lemma main_wakes_cases:
  assumes "main_wakes c = Some c'"
  shows "(c' = c\<lparr>ch_main := MainWaitsForRuntime\<rparr> \<and> ch_main c = MainWaits True \<and> ch_async_stop c \<and> ch_parent_stop_requested c) \<or>
    (c' = c\<lparr>ch_main := MainExited\<rparr> \<and> ch_main c = MainWaits True \<and> ch_async_stop c \<and> \<not> ch_parent_stop_requested c) \<or>
    (c' = c\<lparr>ch_main := MainExited\<rparr> \<and> ch_main c = MainWaits False \<and> ch_async_stop c) \<or>
    (c' = c\<lparr>ch_main := MainExited\<rparr> \<and> ch_main c = MainWaitsForRuntime \<and> ch_runtime_finished c)"
  using assms by (auto simp: main_wakes_def split: main_phase.splits if_splits)

lemma child_run_signals: "child_run profile h c \<Longrightarrow> signal_inv h c \<and> phase_inv c"
proof (induction rule: child_run.induct)
  case start
  show ?case by (simp add: signal_inv_def phase_inv_def new_child_def)
next
  case (line h c l)
  have "phase_inv (watch_line l c)"
    using line.IH line(2) by (cases "ch_main c") (auto simp: phase_inv_def watch_line_def request_stop_def waiting_def)
  then show ?case using line.IH by (auto simp: signal_inv_def watch_line_def request_stop_def)
next
  case (begin_runtime h c created)
  show ?case
  proof (cases "ch_thread_stop c")
    case True
    then show ?thesis using begin_runtime.IH begin_runtime(2) by (simp add: signal_inv_def phase_inv_def start_runtime_def)
  next
    case False
    then show ?thesis using begin_runtime.IH begin_runtime(2)
      by (cases profile; cases created) (simp_all add: signal_inv_def phase_inv_def start_runtime_def)
  qed
next
  case (announce h c wrote c')
  show ?case using announce.IH announce_cases [OF announce(3)] by (auto simp: signal_inv_def phase_inv_def)
next
  case (finish h c raised)
  have "phase_inv (runtime_end profile raised c)" using finish.IH finish(2)
    by (cases profile; cases raised; cases "ch_main c")
      (auto simp: phase_inv_def runtime_end_def request_stop_def Let_def split: if_splits)
  then show ?case using finish.IH
    by (cases profile; cases raised) (auto simp: signal_inv_def runtime_end_def request_stop_def Let_def)
next
  case (wake h c c')
  show ?case using wake.IH main_wakes_cases [OF wake(2)] by (auto simp: signal_inv_def phase_inv_def)
qed

lemma ready_before_stops:
  assumes "child_run profile h c"
  shows "h = h1 @ WritesReady # h2 \<Longrightarrow> WritesReady \<notin> set h2 \<and> \<not> list_ex stops h2"
  using assms
proof (induction arbitrary: h1 rule: child_run.induct)
  case (announce h c wrote c')
  have i: "signal_inv h c" using child_run_signals [OF announce(1)] by simp
  show ?case
  proof (cases h1)
    case Nil
    then have "wrote" "h2 = h" using announce.prems by (auto split: if_splits)
    then show ?thesis using i announce_cases [OF announce(3)] by (simp add: signal_inv_def)
  next
    case (Cons e' h1')
    then show ?thesis using announce.IH announce.prems by simp
  qed
qed (auto simp: Cons_eq_append_conv)

lemma child_run_helper: "child_run profile h c \<Longrightarrow> helper_inv c"
proof (induction rule: child_run.induct)
  case (begin_runtime h c created)
  then have "phase_inv c" using child_run_signals by blast
  then show ?case using begin_runtime.IH begin_runtime(2)
    by (cases profile; cases created; cases "ch_thread_stop c") (simp_all add: phase_inv_def helper_inv_def start_runtime_def)
next
  case (announce h c wrote c')
  show ?case using announce.IH announce_cases [OF announce(3)] by (auto simp: helper_inv_def)
next
  case (wake h c c')
  show ?case using wake.IH main_wakes_cases [OF wake(2)] by (auto simp: helper_inv_def)
qed (auto simp: helper_inv_def new_child_def watch_line_def request_stop_def runtime_end_def Let_def split: service_profile.splits)


text \<open>
  Only the two fixed command lines start a child. A child runs only if its arguments are a profile of the two, alone or
  with a complete binding pair; with a pair it runs with the binding that was loaded from it, and without one with none.
\<close>

theorem child_starts_as_bound:
  assumes "child_main host argv = Runs profile b"
  shows "take 2 argv = [ustr ''--profile'', ustr (profile_value (profile_of_service profile))] \<and>
    (b = None \<longrightarrow> length argv = 2) \<and>
    (\<forall>r. b = Some r \<longrightarrow> (\<exists>path sha. drop 2 argv = [ustr ''--runtime-binding'', path, ustr ''--runtime-binding-sha256'', sha] \<and>
       lower_hex_text 64 sha \<and> \<not> contains_dot_segments path \<and>
       load_runtime_binding host (profile_of_service profile) (ph_path (bh_paths host) path) sha None = Inr r))"
proof -
  have "\<exists>args. parse_service_child_args argv = Inr (profile, args) \<and> (case args of None \<Rightarrow> b = None
      | Some (path, sha) \<Rightarrow> \<exists>r. b = Some r \<and>
          load_runtime_binding host (profile_of_service profile) (ph_path (bh_paths host) path) sha None = Inr r)"
  proof (cases "parse_service_child_args argv")
    case (Inl e)
    then show ?thesis using assms by (simp add: child_main_def split: child_error.splits binding_error.splits)
  next
    case (Inr pa)
    obtain profile' args where pa: "pa = (profile', args)" by (cases pa)
    show ?thesis
    proof (cases args)
      case None
      then show ?thesis using assms Inr pa by (simp add: child_main_def)
    next
      case (Some ps)
      obtain path sha where ps: "ps = (path, sha)" by (cases ps)
      show ?thesis
      proof (cases "load_runtime_binding host (profile_of_service profile') (ph_path (bh_paths host) path) sha None")
        case (Inl e)
        then show ?thesis using assms Inr pa Some ps by (cases e) (simp_all add: child_main_def)
      next
        case l: (Inr r)
        then show ?thesis using assms Inr pa Some ps by (auto simp: child_main_def)
      qed
    qed
  qed
  then obtain args where p: "parse_service_child_args argv = Inr (profile, args)"
    and a: "case args of None \<Rightarrow> b = None
      | Some (path, sha) \<Rightarrow> \<exists>r. b = Some r \<and>
          load_runtime_binding host (profile_of_service profile) (ph_path (bh_paths host) path) sha None = Inr r" by blast
  have prof: "argv' = [ustr ''--profile'', ustr (profile_value (profile_of_service profile))]" if "parse_profile argv' = Inr profile" for argv'
    using that by (auto simp: parse_profile_def split: if_splits)
  show ?thesis
  proof (cases "length argv = 2")
    case True
    then have "parse_profile argv = Inr profile" "args = None" using p by (auto simp: parse_service_child_args_def bindR_eq_Inr)
    then show ?thesis using prof a True by (auto simp del: ustr_simps)
  next
    case False
    then have l: "length argv = 6" "parse_profile (take 2 argv) = Inr profile" "parse_runtime_binding_args (drop 2 argv) = Inr args"
      using p by (auto simp: parse_service_child_args_def bindR_eq_Inr mapErr_def split: if_splits sum.splits)
    then have "\<exists>path sha. args = Some (path, sha) \<and> drop 2 argv = [ustr ''--runtime-binding'', path, ustr ''--runtime-binding-sha256'', sha] \<and>
        lower_hex_text 64 sha \<and> \<not> contains_dot_segments path"
      by (auto simp: parse_runtime_binding_args_def split: list.splits if_splits)
    then show ?thesis using prof [OF l(2)] a False by (auto simp del: ustr_simps)
  qed
qed

section \<open>A concrete child\<close>


lemma child_starts_as_bound_witness:
  "child_main (sample_binding_host sha) [ustr ''--profile'', ustr ''gateway''] = Runs ServiceGateway None"
proof -
  have "child_main (sample_binding_host sha) [ustr ''--profile'', ustr ''gateway''] = Runs ServiceGateway None"
    by (simp add: child_main_def parse_service_child_args_def parse_profile_def del: ustr_simps)
  with child_starts_as_bound [OF this] show ?thesis by simp
qed

end
