(* ===== verification/Configuration.thy ===== *)
theory Configuration
  imports Path_Safety Py_Json Acl "HOL-Library.Sublist" "HOL-Library.Monad_Syntax"
begin

text \<open>
  The configuration of the bridge (\<open>models/config.py\<close>, \<open>config.py\<close>): the frozen models with their bounds and defaults, the
  expansion of environment variables in paths, and the loading of the configuration, the policy and the token. The YAML
  reader, the lax reading of truth values by the schema library, the files and the path parser are arguments. The
  lemmas show what every loaded setting satisfies and which environment a path was expanded from.
\<close>

section \<open>Environment variables in paths\<close>

type_synonym environment = "(pystr \<times> pystr) list"

definition ident_start :: "nat \<Rightarrow> bool" where
  "ident_start c \<longleftrightarrow> 65 \<le> c \<and> c \<le> 90 \<or> 97 \<le> c \<and> c \<le> 122 \<or> c = 95"

definition ident_char :: "nat \<Rightarrow> bool" where
  "ident_char c \<longleftrightarrow> ident_start c \<or> 48 \<le> c \<and> c \<le> 57"

text \<open>The pattern at the head of a text: \<open>%name%\<close>, \<open>${name}\<close> or \<open>$name\<close>, with the text after it.\<close>

fun match_variable :: "pystr \<Rightarrow> (pystr \<times> pystr) option" where
  "match_variable (c # s) =
     (if c = 37 then
        (let v = takeWhile (\<lambda>d. d \<noteq> 37) s; r = dropWhile (\<lambda>d. d \<noteq> 37) s
         in if v \<noteq> [] \<and> r \<noteq> [] then Some (v, tl r) else None)
      else if c = 36 then
        (case s of
           [] \<Rightarrow> None
         | d # t \<Rightarrow>
             if d = 123 then
               (let v = takeWhile ident_char t; r = dropWhile ident_char t
                in if v \<noteq> [] \<and> ident_start (hd v) \<and> r \<noteq> [] \<and> hd r = 125 then Some (v, tl r) else None)
             else if ident_start d then Some (takeWhile ident_char s, dropWhile ident_char s)
             else None)
      else None)"
| "match_variable [] = None"

lemma length_tl_dropWhile: "length (tl (dropWhile P t)) \<le> length t" "length (dropWhile P t) \<le> length t"
  using length_dropWhile_le [of P t] by simp_all

lemma match_variable_shorter: "match_variable s = Some (v, r) \<Longrightarrow> length r < length s"
proof (induction s rule: match_variable.induct)
  case (1 c s)
  show ?case
  proof (cases "c = 37")
    case True
    then show ?thesis using 1 length_tl_dropWhile(1) [of "\<lambda>d. d \<noteq> 37" s] by (auto simp: Let_def split: if_splits)
  next
    case False
    then obtain d t where s: "s = d # t" "c = 36" using 1 by (auto split: if_splits list.splits)
    show ?thesis
      using 1 s length_tl_dropWhile(1) [of ident_char t] length_tl_dropWhile(2) [of ident_char s]
      by (auto simp: Let_def split: if_splits)
  qed
qed simp

function expand_text :: "(pystr \<Rightarrow> pystr option) \<Rightarrow> pystr \<Rightarrow> pystr option" where
  "expand_text look [] = Some []"
| "expand_text look (c # s) =
     (case match_variable (c # s) of
        None \<Rightarrow> map_option (Cons c) (expand_text look s)
      | Some (v, r) \<Rightarrow> Option.bind (look v) (\<lambda>t. map_option (append t) (expand_text look r)))"
  by pat_completeness auto
termination
  by (relation "measure (\<lambda>(look, s). length s)") (auto simp del: match_variable.simps dest: match_variable_shorter)

definition env_lookup :: "path_host \<Rightarrow> environment \<Rightarrow> pystr \<Rightarrow> pystr option" where
  "env_lookup host env v = map_of (rev (map (\<lambda>(k, item). (ph_casefold host k, item)) env)) (ph_casefold host v)"

definition absolute_clean :: "win_path \<Rightarrow> bool" where
  "absolute_clean p \<longleftrightarrow> wp_drive p \<noteq> [] \<and> wp_root p \<noteq> [] \<and> ustr ''..'' \<notin> set (wp_parts p)"

definition expand_windows_path :: "path_host \<Rightarrow> environment \<Rightarrow> pystr \<Rightarrow> win_path option" where
  "expand_windows_path host env value =
     (case expand_text (env_lookup host env) value of
        None \<Rightarrow> None
      | Some expanded \<Rightarrow>
          (let p = ph_path host expanded in if absolute_clean p then Some p else None))"

lemma expand_plain: "36 \<notin> set s \<Longrightarrow> 37 \<notin> set s \<Longrightarrow> expand_text look s = Some s"
  by (induction s) auto

lemma expand_windows_path_ok: "expand_windows_path host env value = Some p \<Longrightarrow> absolute_clean p"
  by (auto simp: expand_windows_path_def Let_def split: option.splits if_splits)

section \<open>Reading values\<close>

text \<open>
  What the loader is given: the path functions, the lax reading of a truth value by the schema library, the environment of the
  process, the files, and the YAML reader, whose values are those of JSON with dictionaries keyed by texts.
\<close>

datatype file_answer = FileMissing | FileFails | FileBytes bytes

record config_host =
  ch_paths :: path_host
  ch_bool :: "json \<Rightarrow> bool option"
  ch_environ :: environment
  ch_file :: "win_path \<Rightarrow> file_answer"
  ch_yaml :: "pystr \<Rightarrow> json option"

definition closed_keys :: "string list \<Rightarrow> (pystr \<times> json) list \<Rightarrow> bool" where
  "closed_keys names kvs \<longleftrightarrow> list_all (\<lambda>kv. fst kv \<in> ustr ` set names) kvs"

text \<open>A field has its default when its key is absent; the default may be invalid.\<close>

definition setting :: "(pystr \<times> json) list \<Rightarrow> string \<Rightarrow> (json \<Rightarrow> 'a option) \<Rightarrow> 'a option \<Rightarrow> 'a option" where
  "setting kvs name read fallback = (case map_of kvs (ustr name) of None \<Rightarrow> fallback | Some v \<Rightarrow> read v)"

fun text_value :: "json \<Rightarrow> pystr option" where
  "text_value (JStr t) = Some t"
| "text_value _ = None"

fun optional_text :: "json \<Rightarrow> pystr option option" where
  "optional_text JNull = Some None"
| "optional_text v = map_option Some (text_value v)"

definition literal_value :: "string list \<Rightarrow> json \<Rightarrow> pystr option" where
  "literal_value names v =
     (case text_value v of None \<Rightarrow> None | Some t \<Rightarrow> if t \<in> ustr ` set names then Some t else None)"

fun integer_between :: "int \<Rightarrow> int \<Rightarrow> json \<Rightarrow> int option" where
  "integer_between lo hi (JInt n) = (if lo \<le> n \<and> n \<le> hi then Some n else None)"
| "integer_between lo hi _ = None"

fun integer_from :: "int \<Rightarrow> json \<Rightarrow> int option" where
  "integer_from lo (JInt n) = (if lo \<le> n then Some n else None)"
| "integer_from lo _ = None"

fun all_some :: "'a option list \<Rightarrow> 'a list option" where
  "all_some [] = Some []"
| "all_some (x # xs) = (case x of None \<Rightarrow> None | Some a \<Rightarrow> map_option (Cons a) (all_some xs))"

fun text_list :: "json \<Rightarrow> pystr list option" where
  "text_list (JList vs) = all_some (map text_value vs)"
| "text_list _ = None"

text \<open>A path is first a path of the library, whose text is then expanded.\<close>

definition config_path :: "config_host \<Rightarrow> environment \<Rightarrow> json \<Rightarrow> win_path option" where
  "config_path host env v =
     Option.bind (text_value v) (\<lambda>t. expand_windows_path (ch_paths host) env (path_text (ph_path (ch_paths host) t)))"

fun path_list :: "config_host \<Rightarrow> environment \<Rightarrow> json \<Rightarrow> win_path list option" where
  "path_list host env (JList vs) = all_some (map (config_path host env) vs)"
| "path_list host env _ = None"

definition mcp_path_value :: "json \<Rightarrow> pystr option" where
  "mcp_path_value v =
     (case text_value v of
        None \<Rightarrow> None
      | Some t \<Rightarrow> if \<not> prefix [47] t \<or> prefix [47, 47] t then None else Some t)"

datatype trust_mode = Untrusted | TrustedUserControl

definition trust_value :: "json \<Rightarrow> trust_mode option" where
  "trust_value v =
     (case text_value v of
        None \<Rightarrow> None
      | Some t \<Rightarrow>
          if t = ustr ''untrusted'' then Some Untrusted
          else if t = ustr ''trusted_user_control'' then Some TrustedUserControl else None)"

fun section_value :: "((pystr \<times> json) list \<Rightarrow> 'a option) \<Rightarrow> json \<Rightarrow> 'a option" where
  "section_value read (JObj kvs) = read kvs"
| "section_value read _ = None"

section \<open>The models\<close>

text \<open>
  Unknown keys are refused. The default of a nested section is built by its constructor, which has no loading context: it
  expands its paths from the environment of the process.
\<close>

record server_settings =
  sv_host :: pystr
  sv_port :: int
  sv_mcp_path :: pystr
  sv_allowed_hosts :: "pystr list"
  sv_allowed_origins :: "pystr list"

definition parse_server_settings :: "(pystr \<times> json) list \<Rightarrow> server_settings option" where
  "parse_server_settings kvs =
     (if \<not> closed_keys [''host'', ''port'', ''mcp_path'', ''allowed_hosts'', ''allowed_origins''] kvs then None else do {
        v_host \<leftarrow> setting kvs ''host'' (literal_value [''127.0.0.1'', ''::1'']) (Some (ustr ''127.0.0.1''));
        v_port \<leftarrow> setting kvs ''port'' (integer_between 1 65535) (Some 8765);
        v_mcp_path \<leftarrow> setting kvs ''mcp_path'' mcp_path_value (Some (ustr ''/mcp''));
        v_allowed_hosts \<leftarrow> setting kvs ''allowed_hosts'' text_list (Some [ustr ''127.0.0.1'', ustr ''localhost'']);
        v_allowed_origins \<leftarrow> setting kvs ''allowed_origins'' text_list (Some []);
        Some \<lparr>sv_host = v_host, sv_port = v_port, sv_mcp_path = v_mcp_path, sv_allowed_hosts = v_allowed_hosts, sv_allowed_origins = v_allowed_origins\<rparr>
      })"

record ipc_settings =
  ip_worker_pipe :: pystr
  ip_privileged_pipe :: pystr
  ip_protocol_version :: int
  ip_heartbeat_seconds :: int
  ip_offline_after_seconds :: int

definition parse_ipc_settings :: "(pystr \<times> json) list \<Rightarrow> ipc_settings option" where
  "parse_ipc_settings kvs =
     (if \<not> closed_keys [''worker_pipe'', ''privileged_pipe'', ''protocol_version'', ''heartbeat_seconds'', ''offline_after_seconds''] kvs then None else do {
        v_worker_pipe \<leftarrow> setting kvs ''worker_pipe'' text_value (Some ([92, 92, 46, 92] @ ustr ''pipe'' @ backslash # ustr ''HermesWindowsBridgeWorker''));
        v_privileged_pipe \<leftarrow> setting kvs ''privileged_pipe'' text_value (Some ([92, 92, 46, 92] @ ustr ''pipe'' @ backslash # ustr ''HermesWindowsBridgePrivileged''));
        v_protocol_version \<leftarrow> setting kvs ''protocol_version'' (integer_from 1) (Some 1);
        v_heartbeat_seconds \<leftarrow> setting kvs ''heartbeat_seconds'' (integer_from 1) (Some 5);
        v_offline_after_seconds \<leftarrow> setting kvs ''offline_after_seconds'' (integer_from 1) (Some 15);
        Some \<lparr>ip_worker_pipe = v_worker_pipe, ip_privileged_pipe = v_privileged_pipe, ip_protocol_version = v_protocol_version, ip_heartbeat_seconds = v_heartbeat_seconds, ip_offline_after_seconds = v_offline_after_seconds\<rparr>
      })"

record tailscale_settings =
  tl_require_app_capability :: bool
  tl_app_capability :: "pystr option"

definition parse_tailscale_settings :: "config_host \<Rightarrow> (pystr \<times> json) list \<Rightarrow> tailscale_settings option" where
  "parse_tailscale_settings host kvs =
     (if \<not> closed_keys [''require_app_capability'', ''app_capability''] kvs then None else do {
        v_require_app_capability \<leftarrow> setting kvs ''require_app_capability'' (ch_bool host) (Some True);
        v_app_capability \<leftarrow> setting kvs ''app_capability'' optional_text (Some (Some (ustr ''hermes.local/windows-control'')));
        Some \<lparr>tl_require_app_capability = v_require_app_capability, tl_app_capability = v_app_capability\<rparr>
      })"

record runtime_paths =
  rp_program_data :: win_path
  rp_user_data :: win_path
  rp_token_file :: win_path

definition parse_runtime_paths :: "config_host \<Rightarrow> environment \<Rightarrow> (pystr \<times> json) list \<Rightarrow> runtime_paths option" where
  "parse_runtime_paths host env kvs =
     (if \<not> closed_keys [''program_data'', ''user_data'', ''token_file''] kvs then None else do {
        v_program_data \<leftarrow> setting kvs ''program_data'' (config_path host env) (expand_windows_path (ch_paths host) env (ustr ''%ProgramData%'' @ backslash # ustr ''HermesWindowsBridge''));
        v_user_data \<leftarrow> setting kvs ''user_data'' (config_path host env) (expand_windows_path (ch_paths host) env (ustr ''%LOCALAPPDATA%'' @ backslash # ustr ''HermesWindowsBridge''));
        v_token_file \<leftarrow> setting kvs ''token_file'' (config_path host env) (expand_windows_path (ch_paths host) env (ustr ''%ProgramData%'' @ backslash # ustr ''HermesWindowsBridge'' @ backslash # ustr ''secrets'' @ backslash # ustr ''token''));
        Some \<lparr>rp_program_data = v_program_data, rp_user_data = v_user_data, rp_token_file = v_token_file\<rparr>
      })"

record browser_settings =
  bs_enabled :: bool
  bs_profile_dir :: win_path
  bs_headless :: bool

definition parse_browser_settings :: "config_host \<Rightarrow> environment \<Rightarrow> (pystr \<times> json) list \<Rightarrow> browser_settings option" where
  "parse_browser_settings host env kvs =
     (if \<not> closed_keys [''enabled'', ''profile_dir'', ''headless''] kvs then None else do {
        v_enabled \<leftarrow> setting kvs ''enabled'' (ch_bool host) (Some True);
        v_profile_dir \<leftarrow> setting kvs ''profile_dir'' (config_path host env) (expand_windows_path (ch_paths host) env (ustr ''%LOCALAPPDATA%'' @ backslash # ustr ''HermesWindowsBridge'' @ backslash # ustr ''browser-profile''));
        v_headless \<leftarrow> setting kvs ''headless'' (ch_bool host) (Some False);
        Some \<lparr>bs_enabled = v_enabled, bs_profile_dir = v_profile_dir, bs_headless = v_headless\<rparr>
      })"

record codex_settings =
  cx_enabled :: bool
  cx_executable :: pystr
  cx_record_git_preflight :: bool

definition parse_codex_settings :: "config_host \<Rightarrow> (pystr \<times> json) list \<Rightarrow> codex_settings option" where
  "parse_codex_settings host kvs =
     (if \<not> closed_keys [''enabled'', ''executable'', ''record_git_preflight''] kvs then None else do {
        v_enabled \<leftarrow> setting kvs ''enabled'' (ch_bool host) (Some True);
        v_executable \<leftarrow> setting kvs ''executable'' text_value (Some (ustr ''codex''));
        v_record_git_preflight \<leftarrow> setting kvs ''record_git_preflight'' (ch_bool host) (Some True);
        Some \<lparr>cx_enabled = v_enabled, cx_executable = v_executable, cx_record_git_preflight = v_record_git_preflight\<rparr>
      })"

record computer_settings =
  cs_enabled :: bool
  cs_serialize_input :: bool
  cs_emergency_stop_hotkey :: pystr
  cs_emergency_stop_persistent :: bool

definition parse_computer_settings :: "config_host \<Rightarrow> (pystr \<times> json) list \<Rightarrow> computer_settings option" where
  "parse_computer_settings host kvs =
     (if \<not> closed_keys [''enabled'', ''serialize_input'', ''emergency_stop_hotkey'', ''emergency_stop_persistent''] kvs then None else do {
        v_enabled \<leftarrow> setting kvs ''enabled'' (ch_bool host) (Some True);
        v_serialize_input \<leftarrow> setting kvs ''serialize_input'' (ch_bool host) (Some True);
        v_emergency_stop_hotkey \<leftarrow> setting kvs ''emergency_stop_hotkey'' text_value (Some (ustr ''ctrl+alt+shift+f11''));
        v_emergency_stop_persistent \<leftarrow> setting kvs ''emergency_stop_persistent'' (ch_bool host) (Some True);
        Some \<lparr>cs_enabled = v_enabled, cs_serialize_input = v_serialize_input, cs_emergency_stop_hotkey = v_emergency_stop_hotkey, cs_emergency_stop_persistent = v_emergency_stop_persistent\<rparr>
      })"

record job_settings =
  jb_max_concurrent :: int
  jb_retention_hours :: int
  jb_use_windows_job_objects :: bool

definition parse_job_settings :: "config_host \<Rightarrow> (pystr \<times> json) list \<Rightarrow> job_settings option" where
  "parse_job_settings host kvs =
     (if \<not> closed_keys [''max_concurrent'', ''retention_hours'', ''use_windows_job_objects''] kvs then None else do {
        v_max_concurrent \<leftarrow> setting kvs ''max_concurrent'' (integer_from 1) (Some 4);
        v_retention_hours \<leftarrow> setting kvs ''retention_hours'' (integer_from 1) (Some 24);
        v_use_windows_job_objects \<leftarrow> setting kvs ''use_windows_job_objects'' (ch_bool host) (Some True);
        Some \<lparr>jb_max_concurrent = v_max_concurrent, jb_retention_hours = v_retention_hours, jb_use_windows_job_objects = v_use_windows_job_objects\<rparr>
      })"

record idempotency_settings =
  id_enabled :: bool
  id_ttl_minutes :: int

definition parse_idempotency_settings :: "config_host \<Rightarrow> (pystr \<times> json) list \<Rightarrow> idempotency_settings option" where
  "parse_idempotency_settings host kvs =
     (if \<not> closed_keys [''enabled'', ''ttl_minutes''] kvs then None else do {
        v_enabled \<leftarrow> setting kvs ''enabled'' (ch_bool host) (Some True);
        v_ttl_minutes \<leftarrow> setting kvs ''ttl_minutes'' (integer_from 1) (Some 30);
        Some \<lparr>id_enabled = v_enabled, id_ttl_minutes = v_ttl_minutes\<rparr>
      })"

record output_settings =
  os_max_output_bytes :: int
  os_max_inline_read_bytes :: int
  os_max_inline_write_bytes :: int

definition parse_output_settings :: "(pystr \<times> json) list \<Rightarrow> output_settings option" where
  "parse_output_settings kvs =
     (if \<not> closed_keys [''max_output_bytes'', ''max_inline_read_bytes'', ''max_inline_write_bytes''] kvs then None else do {
        v_max_output_bytes \<leftarrow> setting kvs ''max_output_bytes'' (integer_from 1) (Some 200000);
        v_max_inline_read_bytes \<leftarrow> setting kvs ''max_inline_read_bytes'' (integer_from 1) (Some 1000000);
        v_max_inline_write_bytes \<leftarrow> setting kvs ''max_inline_write_bytes'' (integer_from 1) (Some 1000000);
        Some \<lparr>os_max_output_bytes = v_max_output_bytes, os_max_inline_read_bytes = v_max_inline_read_bytes, os_max_inline_write_bytes = v_max_inline_write_bytes\<rparr>
      })"

record logging_settings =
  lg_level :: pystr
  lg_retain_raw_command_output :: bool
  lg_retain_screenshots :: bool

definition parse_logging_settings :: "config_host \<Rightarrow> (pystr \<times> json) list \<Rightarrow> logging_settings option" where
  "parse_logging_settings host kvs =
     (if \<not> closed_keys [''level'', ''retain_raw_command_output'', ''retain_screenshots''] kvs then None else do {
        v_level \<leftarrow> setting kvs ''level'' (literal_value [''DEBUG'', ''INFO'', ''WARNING'', ''ERROR'', ''CRITICAL'']) (Some (ustr ''INFO''));
        v_retain_raw_command_output \<leftarrow> setting kvs ''retain_raw_command_output'' (ch_bool host) (Some False);
        v_retain_screenshots \<leftarrow> setting kvs ''retain_screenshots'' (ch_bool host) (Some False);
        Some \<lparr>lg_level = v_level, lg_retain_raw_command_output = v_retain_raw_command_output, lg_retain_screenshots = v_retain_screenshots\<rparr>
      })"

record bridge_settings =
  bd_server_settings :: server_settings
  bd_ipc_settings :: ipc_settings
  bd_tailscale_settings :: tailscale_settings
  bd_paths :: runtime_paths
  bd_browser_settings :: browser_settings
  bd_codex_settings :: codex_settings
  bd_computer_settings :: computer_settings
  bd_jobs_settings :: job_settings
  bd_idempotency_settings :: idempotency_settings
  bd_output_settings :: output_settings
  bd_logging_settings :: logging_settings

definition parse_bridge_settings :: "config_host \<Rightarrow> environment \<Rightarrow> (pystr \<times> json) list \<Rightarrow> bridge_settings option" where
  "parse_bridge_settings host env kvs =
     (if \<not> closed_keys [''server'', ''ipc'', ''tailscale'', ''paths'', ''browser'', ''codex'', ''computer'', ''jobs'', ''idempotency'', ''output'', ''logging''] kvs then None else do {
        v_server_settings \<leftarrow> setting kvs ''server'' (section_value (parse_server_settings)) (parse_server_settings []);
        v_ipc_settings \<leftarrow> setting kvs ''ipc'' (section_value (parse_ipc_settings)) (parse_ipc_settings []);
        v_tailscale_settings \<leftarrow> setting kvs ''tailscale'' (section_value (parse_tailscale_settings host)) (parse_tailscale_settings host []);
        v_paths \<leftarrow> setting kvs ''paths'' (section_value (parse_runtime_paths host env)) (parse_runtime_paths host (ch_environ host) []);
        v_browser_settings \<leftarrow> setting kvs ''browser'' (section_value (parse_browser_settings host env)) (parse_browser_settings host (ch_environ host) []);
        v_codex_settings \<leftarrow> setting kvs ''codex'' (section_value (parse_codex_settings host)) (parse_codex_settings host []);
        v_computer_settings \<leftarrow> setting kvs ''computer'' (section_value (parse_computer_settings host)) (parse_computer_settings host []);
        v_jobs_settings \<leftarrow> setting kvs ''jobs'' (section_value (parse_job_settings host)) (parse_job_settings host []);
        v_idempotency_settings \<leftarrow> setting kvs ''idempotency'' (section_value (parse_idempotency_settings host)) (parse_idempotency_settings host []);
        v_output_settings \<leftarrow> setting kvs ''output'' (section_value (parse_output_settings)) (parse_output_settings []);
        v_logging_settings \<leftarrow> setting kvs ''logging'' (section_value (parse_logging_settings host)) (parse_logging_settings host []);
        Some \<lparr>bd_server_settings = v_server_settings, bd_ipc_settings = v_ipc_settings, bd_tailscale_settings = v_tailscale_settings, bd_paths = v_paths, bd_browser_settings = v_browser_settings, bd_codex_settings = v_codex_settings, bd_computer_settings = v_computer_settings, bd_jobs_settings = v_jobs_settings, bd_idempotency_settings = v_idempotency_settings, bd_output_settings = v_output_settings, bd_logging_settings = v_logging_settings\<rparr>
      })"

text \<open>The policy.\<close>

record audit_policy =
  ap_enabled :: bool
  ap_store_raw_stdout :: bool
  ap_store_screenshots :: bool
  ap_redact_secrets :: bool

definition parse_audit_policy :: "config_host \<Rightarrow> (pystr \<times> json) list \<Rightarrow> audit_policy option" where
  "parse_audit_policy host kvs =
     (if \<not> closed_keys [''enabled'', ''store_raw_stdout'', ''store_screenshots'', ''redact_secrets''] kvs then None else do {
        v_enabled \<leftarrow> setting kvs ''enabled'' (ch_bool host) (Some True);
        v_store_raw_stdout \<leftarrow> setting kvs ''store_raw_stdout'' (ch_bool host) (Some False);
        v_store_screenshots \<leftarrow> setting kvs ''store_screenshots'' (ch_bool host) (Some False);
        v_redact_secrets \<leftarrow> setting kvs ''redact_secrets'' (ch_bool host) (Some True);
        Some \<lparr>ap_enabled = v_enabled, ap_store_raw_stdout = v_store_raw_stdout, ap_store_screenshots = v_store_screenshots, ap_redact_secrets = v_redact_secrets\<rparr>
      })"

record approval_policy =
  aq_method :: pystr
  aq_timeout_seconds :: int
  aq_required_for :: "pystr list"
  aq_bulk_delete_threshold :: int

definition parse_approval_policy :: "(pystr \<times> json) list \<Rightarrow> approval_policy option" where
  "parse_approval_policy kvs =
     (if \<not> closed_keys [''method'', ''timeout_seconds'', ''required_for'', ''bulk_delete_threshold''] kvs then None else do {
        v_method \<leftarrow> setting kvs ''method'' (literal_value [''elicitation_then_local'']) (Some (ustr ''elicitation_then_local''));
        v_timeout_seconds \<leftarrow> setting kvs ''timeout_seconds'' (integer_from 1) (Some 300);
        v_required_for \<leftarrow> setting kvs ''required_for'' text_list (Some []);
        v_bulk_delete_threshold \<leftarrow> setting kvs ''bulk_delete_threshold'' (integer_from 1) (Some 100);
        Some \<lparr>aq_method = v_method, aq_timeout_seconds = v_timeout_seconds, aq_required_for = v_required_for, aq_bulk_delete_threshold = v_bulk_delete_threshold\<rparr>
      })"

record shell_policy =
  sp_user_level_only :: bool
  sp_inspect_commands_for_accident_prevention :: bool
  sp_max_sync_seconds :: int
  sp_max_output_bytes :: int

definition parse_shell_policy :: "config_host \<Rightarrow> (pystr \<times> json) list \<Rightarrow> shell_policy option" where
  "parse_shell_policy host kvs =
     (if \<not> closed_keys [''user_level_only'', ''inspect_commands_for_accident_prevention'', ''max_sync_seconds'', ''max_output_bytes''] kvs then None else do {
        v_user_level_only \<leftarrow> setting kvs ''user_level_only'' (ch_bool host) (Some True);
        v_inspect_commands_for_accident_prevention \<leftarrow> setting kvs ''inspect_commands_for_accident_prevention'' (ch_bool host) (Some True);
        v_max_sync_seconds \<leftarrow> setting kvs ''max_sync_seconds'' (integer_from 1) (Some 110);
        v_max_output_bytes \<leftarrow> setting kvs ''max_output_bytes'' (integer_from 1) (Some 200000);
        Some \<lparr>sp_user_level_only = v_user_level_only, sp_inspect_commands_for_accident_prevention = v_inspect_commands_for_accident_prevention, sp_max_sync_seconds = v_max_sync_seconds, sp_max_output_bytes = v_max_output_bytes\<rparr>
      })"

record filesystem_policy =
  fp_resolve_reparse_points :: bool
  fp_additional_allowed_roots :: "win_path list"
  fp_deny_device_paths :: bool
  fp_allow_unc :: bool
  fp_allow_alternate_data_streams :: bool
  fp_max_inline_read_bytes :: int
  fp_max_inline_write_bytes :: int

definition parse_filesystem_policy :: "config_host \<Rightarrow> environment \<Rightarrow> (pystr \<times> json) list \<Rightarrow> filesystem_policy option" where
  "parse_filesystem_policy host env kvs =
     (if \<not> closed_keys [''resolve_reparse_points'', ''additional_allowed_roots'', ''deny_device_paths'', ''allow_unc'', ''allow_alternate_data_streams'', ''max_inline_read_bytes'', ''max_inline_write_bytes''] kvs then None else do {
        v_resolve_reparse_points \<leftarrow> setting kvs ''resolve_reparse_points'' (ch_bool host) (Some True);
        v_additional_allowed_roots \<leftarrow> setting kvs ''additional_allowed_roots'' (path_list host env) (Some []);
        v_deny_device_paths \<leftarrow> setting kvs ''deny_device_paths'' (ch_bool host) (Some True);
        v_allow_unc \<leftarrow> setting kvs ''allow_unc'' (ch_bool host) (Some False);
        v_allow_alternate_data_streams \<leftarrow> setting kvs ''allow_alternate_data_streams'' (ch_bool host) (Some False);
        v_max_inline_read_bytes \<leftarrow> setting kvs ''max_inline_read_bytes'' (integer_from 1) (Some 1000000);
        v_max_inline_write_bytes \<leftarrow> setting kvs ''max_inline_write_bytes'' (integer_from 1) (Some 1000000);
        Some \<lparr>fp_resolve_reparse_points = v_resolve_reparse_points, fp_additional_allowed_roots = v_additional_allowed_roots, fp_deny_device_paths = v_deny_device_paths, fp_allow_unc = v_allow_unc, fp_allow_alternate_data_streams = v_allow_alternate_data_streams, fp_max_inline_read_bytes = v_max_inline_read_bytes, fp_max_inline_write_bytes = v_max_inline_write_bytes\<rparr>
      })"

record computer_policy =
  cp_serialize_input :: bool
  cp_emergency_stop_requires_local_reset :: bool

definition parse_computer_policy :: "config_host \<Rightarrow> (pystr \<times> json) list \<Rightarrow> computer_policy option" where
  "parse_computer_policy host kvs =
     (if \<not> closed_keys [''serialize_input'', ''emergency_stop_requires_local_reset''] kvs then None else do {
        v_serialize_input \<leftarrow> setting kvs ''serialize_input'' (ch_bool host) (Some True);
        v_emergency_stop_requires_local_reset \<leftarrow> setting kvs ''emergency_stop_requires_local_reset'' (ch_bool host) (Some True);
        Some \<lparr>cp_serialize_input = v_serialize_input, cp_emergency_stop_requires_local_reset = v_emergency_stop_requires_local_reset\<rparr>
      })"

record policy_settings =
  ps_mode :: trust_mode
  ps_audit_rules :: audit_policy
  ps_approval_rules :: approval_policy
  ps_hard_deny :: "pystr list"
  ps_shell_rules :: shell_policy
  ps_filesystem_rules :: filesystem_policy
  ps_computer_rules :: computer_policy
  ps_idempotency_rules :: idempotency_settings

definition parse_policy_settings :: "config_host \<Rightarrow> environment \<Rightarrow> (pystr \<times> json) list \<Rightarrow> policy_settings option" where
  "parse_policy_settings host env kvs =
     (if \<not> closed_keys [''mode'', ''audit'', ''approval'', ''hard_deny'', ''shell'', ''filesystem'', ''computer'', ''idempotency''] kvs then None else do {
        v_mode \<leftarrow> setting kvs ''mode'' trust_value (Some Untrusted);
        v_audit_rules \<leftarrow> setting kvs ''audit'' (section_value (parse_audit_policy host)) (parse_audit_policy host []);
        v_approval_rules \<leftarrow> setting kvs ''approval'' (section_value (parse_approval_policy)) (parse_approval_policy []);
        v_hard_deny \<leftarrow> setting kvs ''hard_deny'' text_list (Some []);
        v_shell_rules \<leftarrow> setting kvs ''shell'' (section_value (parse_shell_policy host)) (parse_shell_policy host []);
        v_filesystem_rules \<leftarrow> setting kvs ''filesystem'' (section_value (parse_filesystem_policy host env)) (parse_filesystem_policy host (ch_environ host) []);
        v_computer_rules \<leftarrow> setting kvs ''computer'' (section_value (parse_computer_policy host)) (parse_computer_policy host []);
        v_idempotency_rules \<leftarrow> setting kvs ''idempotency'' (section_value (parse_idempotency_settings host)) (parse_idempotency_settings host []);
        Some \<lparr>ps_mode = v_mode, ps_audit_rules = v_audit_rules, ps_approval_rules = v_approval_rules, ps_hard_deny = v_hard_deny, ps_shell_rules = v_shell_rules, ps_filesystem_rules = v_filesystem_rules, ps_computer_rules = v_computer_rules, ps_idempotency_rules = v_idempotency_rules\<rparr>
      })"

definition require_absolute_mcp_python :: "win_path \<Rightarrow> win_path option" where
  "require_absolute_mcp_python p = (if wp_drive p = [] \<or> wp_root p = [] then None else Some p)"

section \<open>Loading\<close>

datatype config_error =
    ConfigurationFileNotFoundError win_path
  | InvalidConfigurationError win_path
  | MissingTokenFileError win_path
  | EmptyTokenError win_path
  | ConfigOsError
  | ConfigUnicodeDecodeError bytes

text \<open>\<open>read_text\<close>: every line ending becomes a line feed.\<close>

fun universal_newlines :: "pystr \<Rightarrow> pystr" where
  "universal_newlines (c # s) =
     (if c = 13 then (case s of [] \<Rightarrow> [10] | d # t \<Rightarrow> if d = 10 then 10 # universal_newlines t else 10 # universal_newlines s)
      else c # universal_newlines s)"
| "universal_newlines [] = []"

definition load_model :: "config_host \<Rightarrow> win_path \<Rightarrow> (environment \<Rightarrow> (pystr \<times> json) list \<Rightarrow> 'a option) \<Rightarrow> environment option \<Rightarrow> config_error + 'a" where
  "load_model host config_file model environ =
     (case ch_file host config_file of
        FileMissing \<Rightarrow> Inl (ConfigurationFileNotFoundError config_file)
      | FileFails \<Rightarrow> Inl ConfigOsError
      | FileBytes bs \<Rightarrow>
          (case utf8_decode bs of
             None \<Rightarrow> Inl (InvalidConfigurationError config_file)
           | Some contents \<Rightarrow>
               (let environment = (case environ of None \<Rightarrow> ch_environ host | Some e \<Rightarrow> e) in
                case Option.bind (ch_yaml host (universal_newlines contents)) (section_value (model environment)) of
                  None \<Rightarrow> Inl (InvalidConfigurationError config_file)
                | Some m \<Rightarrow> Inr m)))"

definition load_bridge_settings :: "config_host \<Rightarrow> win_path \<Rightarrow> environment option \<Rightarrow> config_error + bridge_settings" where
  "load_bridge_settings host config_file environ = load_model host config_file (parse_bridge_settings host) environ"

definition load_policy_settings :: "config_host \<Rightarrow> win_path \<Rightarrow> config_error + policy_settings" where
  "load_policy_settings host policy_file = load_model host policy_file (parse_policy_settings host) None"

record startup_settings =
  su_bridge :: bridge_settings
  su_bearer_token :: pystr

definition load_startup_settings :: "config_host \<Rightarrow> win_path \<Rightarrow> environment option \<Rightarrow> config_error + startup_settings" where
  "load_startup_settings host config_file environ =
     bindR (load_bridge_settings host config_file environ) (\<lambda>bridge.
       let token_file = rp_token_file (bd_paths bridge) in
       case ch_file host token_file of
         FileMissing \<Rightarrow> Inl (MissingTokenFileError token_file)
       | FileFails \<Rightarrow> Inl ConfigOsError
       | FileBytes bs \<Rightarrow>
           (case utf8_decode bs of
              None \<Rightarrow> Inl (ConfigUnicodeDecodeError bs)
            | Some contents \<Rightarrow>
                (let token = py_strip (universal_newlines contents) in
                 if token = [] then Inl (EmptyTokenError token_file)
                 else Inr \<lparr>su_bridge = bridge, su_bearer_token = token\<rparr>)))"

text \<open>The places derived from the paths.\<close>

definition below_path :: "win_path \<Rightarrow> string \<Rightarrow> win_path" where
  "below_path p name = p\<lparr>wp_parts := wp_parts p @ [ustr name]\<rparr>"

definition gateway_logs :: "runtime_paths \<Rightarrow> win_path" where "gateway_logs p = below_path (rp_program_data p) ''logs''"
definition jobs_path :: "runtime_paths \<Rightarrow> win_path" where "jobs_path p = below_path (rp_program_data p) ''jobs''"
definition secrets_path :: "runtime_paths \<Rightarrow> win_path" where "secrets_path p = below_path (rp_program_data p) ''secrets''"
definition browser_profile :: "runtime_paths \<Rightarrow> win_path" where "browser_profile p = below_path (rp_user_data p) ''browser-profile''"
definition worker_logs :: "runtime_paths \<Rightarrow> win_path" where "worker_logs p = below_path (rp_user_data p) ''logs''"

section \<open>What a loaded configuration satisfies\<close>

lemma setting_Some:
  "setting kvs name read fallback = Some v \<longleftrightarrow>
     (map_of kvs (ustr name) = None \<and> fallback = Some v) \<or> (\<exists>j. map_of kvs (ustr name) = Some j \<and> read j = Some v)"
  by (cases "map_of kvs (ustr name)") (auto simp: setting_def)

lemma setting_satisfies:
  assumes "setting kvs name read fallback = Some v" "\<And>j x. read j = Some x \<Longrightarrow> P x" "\<And>x. fallback = Some x \<Longrightarrow> P x"
  shows "P v"
  using assms by (auto simp: setting_Some)

lemma section_valueE: "section_value read v = Some x \<Longrightarrow> (\<And>kvs. v = JObj kvs \<Longrightarrow> read kvs = Some x \<Longrightarrow> P) \<Longrightarrow> P"
  by (cases v) auto

lemma nested_satisfies:
  assumes "setting kvs name (section_value read) fallback = Some v" "\<And>o' x. read o' = Some x \<Longrightarrow> P x"
    "\<And>x. fallback = Some x \<Longrightarrow> P x"
  shows "P v"
  using assms by (auto simp: setting_Some elim: section_valueE)

lemma read_values:
  "integer_from lo j = Some n \<Longrightarrow> lo \<le> n"
  "integer_between lo hi j = Some n \<Longrightarrow> lo \<le> n \<and> n \<le> hi"
  "literal_value names j = Some t \<Longrightarrow> t \<in> ustr ` set names"
  "mcp_path_value j = Some t \<Longrightarrow> prefix [47] t \<and> \<not> prefix [47, 47] t"
  "config_path host env j = Some p \<Longrightarrow> absolute_clean p"
proof -
  show "integer_from lo j = Some n \<Longrightarrow> lo \<le> n" by (cases j) (auto split: if_splits)
  show "integer_between lo hi j = Some n \<Longrightarrow> lo \<le> n \<and> n \<le> hi" by (cases j) (auto split: if_splits)
  show "literal_value names j = Some t \<Longrightarrow> t \<in> ustr ` set names" by (auto simp: literal_value_def split: option.splits if_splits)
  show "mcp_path_value j = Some t \<Longrightarrow> prefix [47] t \<and> \<not> prefix [47, 47] t"
    by (auto simp: mcp_path_value_def split: option.splits if_splits)
  show "config_path host env j = Some p \<Longrightarrow> absolute_clean p"
    by (auto simp: config_path_def bind_eq_Some_conv expand_windows_path_ok)
qed

lemma server_settings_valid:
  assumes "parse_server_settings kvs = Some s"
  shows "sv_host s \<in> {ustr ''127.0.0.1'', ustr ''::1''} \<and> 1 \<le> sv_port s \<and> sv_port s \<le> 65535 \<and>
    prefix [47] (sv_mcp_path s) \<and> \<not> prefix [47, 47] (sv_mcp_path s)"
proof -
  obtain h p m where s: "sv_host s = h" "sv_port s = p" "sv_mcp_path s = m"
    and h: "setting kvs ''host'' (literal_value [''127.0.0.1'', ''::1'']) (Some (ustr ''127.0.0.1'')) = Some h"
    and p: "setting kvs ''port'' (integer_between 1 65535) (Some 8765) = Some p"
    and m: "setting kvs ''mcp_path'' mcp_path_value (Some (ustr ''/mcp'')) = Some m"
    using assms by (auto simp: parse_server_settings_def bind_eq_Some_conv split: if_splits)
  have "h \<in> {ustr ''127.0.0.1'', ustr ''::1''}" using h by (rule setting_satisfies) (use read_values(3) [of "[''127.0.0.1'', ''::1'']"] in \<open>force+\<close>)
  moreover have "1 \<le> p \<and> p \<le> 65535" using p by (rule setting_satisfies) (auto dest: read_values(2))
  moreover have "prefix [47] m \<and> \<not> prefix [47, 47] m" using m by (rule setting_satisfies) (auto dest: read_values(4))
  ultimately show ?thesis using s by simp
qed

lemma runtime_paths_valid:
  assumes "parse_runtime_paths host env kvs = Some p"
  shows "absolute_clean (rp_program_data p) \<and> absolute_clean (rp_user_data p) \<and> absolute_clean (rp_token_file p)"
  using assms
  by (auto simp: parse_runtime_paths_def bind_eq_Some_conv split: if_splits
      elim!: setting_satisfies [where P = absolute_clean] dest: read_values(5) expand_windows_path_ok)

lemma browser_settings_valid:
  assumes "parse_browser_settings host env kvs = Some b"
  shows "absolute_clean (bs_profile_dir b)"
  using assms
  by (auto simp: parse_browser_settings_def bind_eq_Some_conv split: if_splits
      elim!: setting_satisfies [where P = absolute_clean] dest: read_values(5) expand_windows_path_ok)

lemma positive_setting:
  assumes "setting kvs name (integer_from 1) (Some d) = Some n" "1 \<le> d"
  shows "1 \<le> n"
  using assms(1) by (rule setting_satisfies) (use assms(2) in \<open>auto dest: read_values(1)\<close>)

lemma ipc_settings_valid:
  "parse_ipc_settings kvs = Some i \<Longrightarrow> 1 \<le> ip_protocol_version i \<and> 1 \<le> ip_heartbeat_seconds i \<and> 1 \<le> ip_offline_after_seconds i"
  by (auto simp: parse_ipc_settings_def bind_eq_Some_conv split: if_splits dest!: positive_setting)

lemma job_settings_valid: "parse_job_settings host kvs = Some j \<Longrightarrow> 1 \<le> jb_max_concurrent j \<and> 1 \<le> jb_retention_hours j"
  by (auto simp: parse_job_settings_def bind_eq_Some_conv split: if_splits dest!: positive_setting)

lemma idempotency_settings_valid: "parse_idempotency_settings host kvs = Some j \<Longrightarrow> 1 \<le> id_ttl_minutes j"
  by (auto simp: parse_idempotency_settings_def bind_eq_Some_conv split: if_splits dest!: positive_setting)

lemma output_settings_valid:
  "parse_output_settings kvs = Some z \<Longrightarrow> 1 \<le> os_max_output_bytes z \<and> 1 \<le> os_max_inline_read_bytes z \<and> 1 \<le> os_max_inline_write_bytes z"
  by (auto simp: parse_output_settings_def bind_eq_Some_conv split: if_splits dest!: positive_setting)

text \<open>The document that a loader has read.\<close>

definition document_of :: "config_host \<Rightarrow> win_path \<Rightarrow> (pystr \<times> json) list option" where
  "document_of host f =
     (case ch_file host f of
        FileBytes bs \<Rightarrow> Option.bind (Option.bind (utf8_decode bs) (\<lambda>t. ch_yaml host (universal_newlines t))) (section_value Some)
      | _ \<Rightarrow> None)"

lemma load_model_Inr:
  "load_model host f model environ = Inr m \<longleftrightarrow>
     (\<exists>kvs. document_of host f = Some kvs \<and> model (case environ of None \<Rightarrow> ch_environ host | Some e \<Rightarrow> e) kvs = Some m)"
  by (auto simp: load_model_def document_of_def Let_def bind_eq_Some_conv split: file_answer.splits option.splits elim: section_valueE)

text \<open>
  Every loaded configuration is within its bounds. The server listens on a loopback address, on a port from 1 to 65535 and
  a path with one leading slash; every limit, period and lifetime is at least 1; every directory and the token file
  are absolute paths without a step upwards; and the document has no key the models do not know.
\<close>

theorem loaded_settings_are_in_bounds:
  assumes "load_bridge_settings host f environ = Inr b"
  shows "sv_host (bd_server_settings b) \<in> {ustr ''127.0.0.1'', ustr ''::1''} \<and>
    1 \<le> sv_port (bd_server_settings b) \<and> sv_port (bd_server_settings b) \<le> 65535 \<and>
    prefix [47] (sv_mcp_path (bd_server_settings b)) \<and> \<not> prefix [47, 47] (sv_mcp_path (bd_server_settings b)) \<and>
    1 \<le> ip_heartbeat_seconds (bd_ipc_settings b) \<and> 1 \<le> ip_offline_after_seconds (bd_ipc_settings b) \<and>
    1 \<le> jb_max_concurrent (bd_jobs_settings b) \<and> 1 \<le> jb_retention_hours (bd_jobs_settings b) \<and>
    1 \<le> id_ttl_minutes (bd_idempotency_settings b) \<and>
    1 \<le> os_max_output_bytes (bd_output_settings b) \<and> 1 \<le> os_max_inline_read_bytes (bd_output_settings b) \<and>
    1 \<le> os_max_inline_write_bytes (bd_output_settings b) \<and>
    absolute_clean (rp_program_data (bd_paths b)) \<and> absolute_clean (rp_user_data (bd_paths b)) \<and>
    absolute_clean (rp_token_file (bd_paths b)) \<and> absolute_clean (bs_profile_dir (bd_browser_settings b)) \<and>
    (\<exists>kvs. document_of host f = Some kvs \<and>
      fst ` set kvs \<subseteq> ustr ` {''server'', ''ipc'', ''tailscale'', ''paths'', ''browser'', ''codex'', ''computer'', ''jobs'',
                             ''idempotency'', ''output'', ''logging''})"
proof -
  let ?env = "case environ of None \<Rightarrow> ch_environ host | Some e \<Rightarrow> e"
  obtain kvs where doc: "document_of host f = Some kvs" and p: "parse_bridge_settings host ?env kvs = Some b"
    using assms by (auto simp: load_bridge_settings_def load_model_Inr)
  have keys: "fst ` set kvs \<subseteq> ustr ` {''server'', ''ipc'', ''tailscale'', ''paths'', ''browser'', ''codex'', ''computer'', ''jobs'',
                             ''idempotency'', ''output'', ''logging''}"
    using p by (auto simp: parse_bridge_settings_def closed_keys_def list_all_iff split: if_splits)
  have parts: "setting kvs ''server'' (section_value parse_server_settings) (parse_server_settings []) = Some (bd_server_settings b)"
    "setting kvs ''ipc'' (section_value parse_ipc_settings) (parse_ipc_settings []) = Some (bd_ipc_settings b)"
    "setting kvs ''paths'' (section_value (parse_runtime_paths host ?env)) (parse_runtime_paths host (ch_environ host) []) = Some (bd_paths b)"
    "setting kvs ''browser'' (section_value (parse_browser_settings host ?env)) (parse_browser_settings host (ch_environ host) []) = Some (bd_browser_settings b)"
    "setting kvs ''jobs'' (section_value (parse_job_settings host)) (parse_job_settings host []) = Some (bd_jobs_settings b)"
    "setting kvs ''idempotency'' (section_value (parse_idempotency_settings host)) (parse_idempotency_settings host []) = Some (bd_idempotency_settings b)"
    "setting kvs ''output'' (section_value parse_output_settings) (parse_output_settings []) = Some (bd_output_settings b)"
    using p by (auto simp: parse_bridge_settings_def bind_eq_Some_conv split: if_splits)
  note server = nested_satisfies [OF parts(1), of "\<lambda>s. sv_host s \<in> {ustr ''127.0.0.1'', ustr ''::1''} \<and> 1 \<le> sv_port s \<and>
      sv_port s \<le> 65535 \<and> prefix [47] (sv_mcp_path s) \<and> \<not> prefix [47, 47] (sv_mcp_path s)", OF server_settings_valid server_settings_valid]
  note ipc = nested_satisfies [OF parts(2), of "\<lambda>i. 1 \<le> ip_protocol_version i \<and> 1 \<le> ip_heartbeat_seconds i \<and> 1 \<le> ip_offline_after_seconds i",
      OF ipc_settings_valid ipc_settings_valid]
  note paths = nested_satisfies [OF parts(3), of "\<lambda>p. absolute_clean (rp_program_data p) \<and> absolute_clean (rp_user_data p) \<and> absolute_clean (rp_token_file p)",
      OF runtime_paths_valid runtime_paths_valid]
  note browser = nested_satisfies [OF parts(4), of "\<lambda>b. absolute_clean (bs_profile_dir b)", OF browser_settings_valid browser_settings_valid]
  note jobs = nested_satisfies [OF parts(5), of "\<lambda>j. 1 \<le> jb_max_concurrent j \<and> 1 \<le> jb_retention_hours j", OF job_settings_valid job_settings_valid]
  note idem = nested_satisfies [OF parts(6), of "\<lambda>j. 1 \<le> id_ttl_minutes j", OF idempotency_settings_valid idempotency_settings_valid]
  note outp = nested_satisfies [OF parts(7), of "\<lambda>z. 1 \<le> os_max_output_bytes z \<and> 1 \<le> os_max_inline_read_bytes z \<and> 1 \<le> os_max_inline_write_bytes z",
      OF output_settings_valid output_settings_valid]
  show ?thesis using server ipc paths browser jobs idem outp keys doc by simp
qed

text \<open>
  What a path is expanded from. With a snapshot of the environment, a configuration that has both sections with paths is
  read from the snapshot alone; without the section the paths come from the environment of the process, whatever
  snapshot is given.
\<close>

theorem paths_come_from_snapshot:
  assumes "document_of host f = Some kvs"
  shows "(ustr ''paths'' \<in> fst ` set kvs \<and> ustr ''browser'' \<in> fst ` set kvs \<longrightarrow>
      load_bridge_settings (host\<lparr>ch_environ := other\<rparr>) f (Some env) = load_bridge_settings host f (Some env)) \<and>
    (\<forall>b. load_bridge_settings host f (Some env) = Inr b \<longrightarrow> ustr ''paths'' \<notin> fst ` set kvs \<longrightarrow>
      parse_runtime_paths host (ch_environ host) [] = Some (bd_paths b))"
proof (intro conjI impI allI)
  assume k: "ustr ''paths'' \<in> fst ` set kvs \<and> ustr ''browser'' \<in> fst ` set kvs"
  let ?host = "host\<lparr>ch_environ := other\<rparr>"
  have path: "config_path ?host env = config_path host env" by (rule ext) (simp add: config_path_def)
  have host: "parse_tailscale_settings ?host = parse_tailscale_settings host" "parse_codex_settings ?host = parse_codex_settings host"
    "parse_computer_settings ?host = parse_computer_settings host" "parse_job_settings ?host = parse_job_settings host"
    "parse_idempotency_settings ?host = parse_idempotency_settings host" "parse_logging_settings ?host = parse_logging_settings host"
    "parse_runtime_paths ?host env = parse_runtime_paths host env" "parse_browser_settings ?host env = parse_browser_settings host env"
    by (rule ext, simp add: parse_tailscale_settings_def parse_codex_settings_def parse_computer_settings_def parse_job_settings_def
        parse_idempotency_settings_def parse_logging_settings_def parse_runtime_paths_def parse_browser_settings_def path)+
  have here: "setting kvs name rd a = setting kvs name rd b" if "ustr name \<in> fst ` set kvs" for name rd and a b :: "'x option"
    using that map_of_eq_None_iff [of kvs "ustr name"] by (auto simp: setting_def split: option.splits)
  have "parse_bridge_settings ?host env kvs = parse_bridge_settings host env kvs"
    unfolding parse_bridge_settings_def host
    using k by (simp add: here [of "''paths''" _ "parse_runtime_paths ?host other []" "parse_runtime_paths host (ch_environ host) []"]
        here [of "''browser''" _ "parse_browser_settings ?host other []" "parse_browser_settings host (ch_environ host) []"])
  moreover have "document_of ?host f = Some kvs" using assms by (simp add: document_of_def split: file_answer.splits)
  ultimately show "load_bridge_settings ?host f (Some env) = load_bridge_settings host f (Some env)"
    using assms
    by (auto simp: load_bridge_settings_def load_model_def document_of_def Let_def bind_eq_Some_conv
        split: file_answer.splits option.splits elim!: section_valueE)
next
  fix b assume l: "load_bridge_settings host f (Some env) = Inr b" and n: "ustr ''paths'' \<notin> fst ` set kvs"
  then have "setting kvs ''paths'' (section_value (parse_runtime_paths host env)) (parse_runtime_paths host (ch_environ host) []) = Some (bd_paths b)"
    using assms by (auto simp: load_bridge_settings_def load_model_Inr parse_bridge_settings_def bind_eq_Some_conv split: if_splits)
  then show "parse_runtime_paths host (ch_environ host) [] = Some (bd_paths b)"
    using n map_of_eq_None_iff [of kvs "ustr ''paths''"] by (simp add: setting_def)
qed

text \<open>
  A field of a section of the document.
\<close>

definition field_says :: "(pystr \<times> json) list \<Rightarrow> string \<Rightarrow> string \<Rightarrow> (json \<Rightarrow> bool) \<Rightarrow> bool" where
  "field_says kvs sec name P \<longleftrightarrow> (\<exists>inner j. map_of kvs (ustr sec) = Some (JObj inner) \<and> map_of inner (ustr name) = Some j \<and> P j)"

lemma filesystem_policy_closed:
  assumes "parse_filesystem_policy host env o' = Some fp"
  shows "(fp_allow_unc fp \<longrightarrow> (\<exists>j. map_of o' (ustr ''allow_unc'') = Some j \<and> ch_bool host j = Some True)) \<and>
    (fp_allow_alternate_data_streams fp \<longrightarrow> (\<exists>j. map_of o' (ustr ''allow_alternate_data_streams'') = Some j \<and> ch_bool host j = Some True)) \<and>
    (\<not> fp_deny_device_paths fp \<longrightarrow> (\<exists>j. map_of o' (ustr ''deny_device_paths'') = Some j \<and> ch_bool host j = Some False)) \<and>
    (fp_additional_allowed_roots fp \<noteq> [] \<longrightarrow> (\<exists>j. map_of o' (ustr ''additional_allowed_roots'') = Some j)) \<and>
    (\<forall>r \<in> set (fp_additional_allowed_roots fp). absolute_clean r)"
proof -
  have all: "\<forall>x \<in> set ys. \<exists>v. config_path host env v = Some x" if "all_some (map (config_path host env) vs) = Some ys" for vs ys
    using that by (induction vs arbitrary: ys) (auto split: option.splits)
  have roots: "setting o' ''additional_allowed_roots'' (path_list host env) (Some []) = Some (fp_additional_allowed_roots fp)"
    and "setting o' ''allow_unc'' (ch_bool host) (Some False) = Some (fp_allow_unc fp)"
    and "setting o' ''allow_alternate_data_streams'' (ch_bool host) (Some False) = Some (fp_allow_alternate_data_streams fp)"
    and "setting o' ''deny_device_paths'' (ch_bool host) (Some True) = Some (fp_deny_device_paths fp)"
    using assms by (auto simp: parse_filesystem_policy_def bind_eq_Some_conv split: if_splits)
  moreover have "\<forall>r \<in> set (fp_additional_allowed_roots fp). absolute_clean r"
  proof (rule setting_satisfies [OF roots, where P = "\<lambda>rs. \<forall>r \<in> set rs. absolute_clean r"])
    fix j x assume "path_list host env j = Some x"
    then show "\<forall>r \<in> set x. absolute_clean r" by (cases j) (auto dest!: all read_values(5))
  qed simp
  ultimately show ?thesis by (auto simp: setting_Some)
qed

text \<open>
  A policy relaxes nothing that its file does not relax. Trust, network paths, alternate streams, device paths and further
  roots are as strict as possible unless the file says otherwise in its own field, and every further root is an absolute
  path without a step upwards.
\<close>

theorem policy_relaxes_only_as_written:
  assumes "load_policy_settings host f = Inr p" "document_of host f = Some kvs"
  shows "(ps_mode p = TrustedUserControl \<longrightarrow> map_of kvs (ustr ''mode'') = Some (JStr (ustr ''trusted_user_control''))) \<and>
    (fp_allow_unc (ps_filesystem_rules p) \<longrightarrow> field_says kvs ''filesystem'' ''allow_unc'' (\<lambda>j. ch_bool host j = Some True)) \<and>
    (fp_allow_alternate_data_streams (ps_filesystem_rules p) \<longrightarrow>
       field_says kvs ''filesystem'' ''allow_alternate_data_streams'' (\<lambda>j. ch_bool host j = Some True)) \<and>
    (\<not> fp_deny_device_paths (ps_filesystem_rules p) \<longrightarrow> field_says kvs ''filesystem'' ''deny_device_paths'' (\<lambda>j. ch_bool host j = Some False)) \<and>
    (fp_additional_allowed_roots (ps_filesystem_rules p) \<noteq> [] \<longrightarrow> field_says kvs ''filesystem'' ''additional_allowed_roots'' (\<lambda>_. True)) \<and>
    (\<forall>r \<in> set (fp_additional_allowed_roots (ps_filesystem_rules p)). absolute_clean r)"
proof -
  have pp: "parse_policy_settings host (ch_environ host) kvs = Some p" using assms by (simp add: load_policy_settings_def load_model_Inr)
  have m: "setting kvs ''mode'' trust_value (Some Untrusted) = Some (ps_mode p)"
    and fs: "setting kvs ''filesystem'' (section_value (parse_filesystem_policy host (ch_environ host)))
        (parse_filesystem_policy host (ch_environ host) []) = Some (ps_filesystem_rules p)"
    using pp by (auto simp: parse_policy_settings_def bind_eq_Some_conv split: if_splits)
  have trust: "j = JStr (ustr ''trusted_user_control'')" if "trust_value j = Some TrustedUserControl" for j
    using that by (cases j) (auto simp: trust_value_def split: if_splits)
  show ?thesis using m fs trust filesystem_policy_closed
    unfolding setting_Some field_says_def by (fastforce elim!: section_valueE)
qed

lemma load_startup_settings_Inr:
  assumes l: "load_startup_settings host f environ = Inr s"
  shows "\<exists>bs t. load_bridge_settings host f environ = Inr (su_bridge s) \<and>
    ch_file host (rp_token_file (bd_paths (su_bridge s))) = FileBytes bs \<and> utf8_decode bs = Some t \<and>
    su_bearer_token s = py_strip (universal_newlines t) \<and> su_bearer_token s \<noteq> []"
proof -
  obtain b where b: "load_bridge_settings host f environ = Inr b"
    using l by (auto simp: load_startup_settings_def bindR_eq_Inr)
  obtain bs where bs: "ch_file host (rp_token_file (bd_paths b)) = FileBytes bs"
    using l b by (cases "ch_file host (rp_token_file (bd_paths b))") (auto simp: load_startup_settings_def Let_def)
  obtain t where t: "utf8_decode bs = Some t"
    using l b bs by (cases "utf8_decode bs") (auto simp: load_startup_settings_def Let_def)
  have "su_bridge s = b \<and> su_bearer_token s = py_strip (universal_newlines t) \<and> su_bearer_token s \<noteq> []"
    using l b bs t by (auto simp: load_startup_settings_def Let_def split: if_splits)
  then show ?thesis using b bs t by blast
qed

text \<open>
  The gateway starts with a token or not at all. A start-up configuration has the token that its token file holds, without
  white space around it and not empty; a missing, empty or blank file gives no configuration.
\<close>

theorem startup_has_token:
  "(\<forall>s. load_startup_settings host f environ = Inr s \<longrightarrow>
     su_bearer_token s \<noteq> [] \<and> \<not> py_space (hd (su_bearer_token s)) \<and> \<not> py_space (last (su_bearer_token s)) \<and>
     (\<exists>bs t. ch_file host (rp_token_file (bd_paths (su_bridge s))) = FileBytes bs \<and> utf8_decode bs = Some t \<and>
       sublist (su_bearer_token s) (universal_newlines t))) \<and>
   (\<forall>b. load_bridge_settings host f environ = Inr b \<longrightarrow>
     ch_file host (rp_token_file (bd_paths b)) \<in> {FileMissing, FileBytes []} \<longrightarrow>
     load_startup_settings host f environ \<in> {Inl (MissingTokenFileError (rp_token_file (bd_paths b))), Inl (EmptyTokenError (rp_token_file (bd_paths b)))})"
proof -
  have strip: "\<not> py_space (hd (py_strip t)) \<and> \<not> py_space (last (py_strip t)) \<and> sublist (py_strip t) t" if ne: "py_strip t \<noteq> []" for t
  proof -
    let ?d = "dropWhile py_space t"
    have d: "?d \<noteq> []" using ne unfolding py_strip_def by (metis dropWhile.simps(1) rev.simps(1))
    have s: "suffix (dropWhile py_space (rev ?d)) (rev ?d)" by (rule suffix_dropWhile)
    then have pre: "prefix (py_strip t) ?d" by (simp add: py_strip_def suffix_to_prefix)
    then have "hd (py_strip t) = hd ?d" using ne by (auto simp: prefix_def)
    moreover have "\<not> py_space (hd ?d)" using hd_dropWhile [of py_space t] d by blast
    moreover have "\<not> py_space (last (py_strip t))"
      using hd_dropWhile [of py_space "rev ?d"] ne by (simp add: py_strip_def last_rev)
    moreover have "sublist (py_strip t) t"
      using pre suffix_dropWhile [of py_space t] prefix_imp_sublist suffix_imp_sublist sublist_order.order_trans by blast
    ultimately show ?thesis by simp
  qed
  have blank: "py_strip [] = []" by (simp add: py_strip_def)
  let ?ok = "\<lambda>s. su_bearer_token s \<noteq> [] \<and> \<not> py_space (hd (su_bearer_token s)) \<and> \<not> py_space (last (su_bearer_token s)) \<and>
     (\<exists>bs t. ch_file host (rp_token_file (bd_paths (su_bridge s))) = FileBytes bs \<and> utf8_decode bs = Some t \<and>
       sublist (su_bearer_token s) (universal_newlines t))"
  have "?ok s" if l: "load_startup_settings host f environ = Inr s" for s
  proof -
    show ?thesis using load_startup_settings_Inr [OF l] strip by metis
  qed
  moreover have "load_startup_settings host f environ \<in> {Inl (MissingTokenFileError (rp_token_file (bd_paths b))), Inl (EmptyTokenError (rp_token_file (bd_paths b)))}"
    if "load_bridge_settings host f environ = Inr b" "ch_file host (rp_token_file (bd_paths b)) \<in> {FileMissing, FileBytes []}" for b
    using that blank by (auto simp: load_startup_settings_def Let_def)
  ultimately show ?thesis by blast
qed

section \<open>A concrete configuration\<close>

text \<open>Two files: a configuration without any section, and a token with a line ending.\<close>

definition sample_config_file :: win_path where
  "sample_config_file = \<lparr>wp_drive = ustr ''C:'', wp_root = [backslash], wp_parts = [ustr ''config.yaml'']\<rparr>"

definition sample_config_host :: "(pystr \<times> json) list \<Rightarrow> config_host" where
  "sample_config_host kvs =
     \<lparr>ch_paths = sample_host, ch_bool = (\<lambda>j. case j of JBool b \<Rightarrow> Some b | _ \<Rightarrow> None),
      ch_environ = [(ustr ''ProgramData'', ustr ''D''), (ustr ''LOCALAPPDATA'', ustr ''L'')],
      ch_file = (\<lambda>p. if p = sample_config_file then FileBytes [] else FileBytes (map mkb [116, 13, 10])),
      ch_yaml = (\<lambda>_. Some (JObj kvs))\<rparr>"

lemma sample_document: "document_of (sample_config_host kvs) sample_config_file = Some kvs"
  by (simp add: document_of_def sample_config_host_def)

lemma sample_bridge: "\<exists>b. load_bridge_settings (sample_config_host []) sample_config_file None = Inr b"
  unfolding load_bridge_settings_def load_model_Inr by (rule exI)+ (rule conjI [OF sample_document], code_simp)

lemma loaded_settings_are_in_bounds_witness:
  "\<exists>b. load_bridge_settings (sample_config_host []) sample_config_file None = Inr b \<and> 1 \<le> sv_port (bd_server_settings b)"
proof -
  obtain b where b: "load_bridge_settings (sample_config_host []) sample_config_file None = Inr b" using sample_bridge by blast
  with loaded_settings_are_in_bounds [OF b] show ?thesis by blast
qed

text \<open>The paths of a configuration without sections, although the snapshot is empty.\<close>

lemma sample_bridge_snapshot: "\<exists>b. load_bridge_settings (sample_config_host []) sample_config_file (Some []) = Inr b"
  unfolding load_bridge_settings_def load_model_Inr by (rule exI)+ (rule conjI [OF sample_document], code_simp)

lemma sample_paths: "map_option rp_token_file (parse_runtime_paths (sample_config_host []) (ch_environ (sample_config_host [])) []) = Some work_root"
  by code_simp

lemma paths_come_from_snapshot_witness:
  "\<exists>b. load_bridge_settings (sample_config_host []) sample_config_file (Some []) = Inr b \<and>
     parse_runtime_paths (sample_config_host []) (ch_environ (sample_config_host [])) [] = Some (bd_paths b)"
proof -
  obtain b where b: "load_bridge_settings (sample_config_host []) sample_config_file (Some []) = Inr b" using sample_bridge_snapshot by blast
  with paths_come_from_snapshot [OF sample_document [of "[]"], of undefined "[]"] show ?thesis by simp
qed

lemma policy_relaxes_only_as_written_witness:
  "\<exists>p. load_policy_settings (sample_config_host []) sample_config_file = Inr p \<and> \<not> fp_allow_unc (ps_filesystem_rules p)"
proof -
  have "\<exists>p. load_policy_settings (sample_config_host []) sample_config_file = Inr p"
    unfolding load_policy_settings_def load_model_Inr by (rule exI)+ (rule conjI [OF sample_document], code_simp)
  then obtain p where p: "load_policy_settings (sample_config_host []) sample_config_file = Inr p" by blast
  with policy_relaxes_only_as_written [OF p sample_document] show ?thesis by (auto simp: field_says_def)
qed

lemma startup_has_token_witness:
  "\<exists>s. load_startup_settings (sample_config_host []) sample_config_file (Some []) = Inr s \<and> su_bearer_token s \<noteq> []"
proof -
  let ?host = "sample_config_host []"
  obtain b where b: "load_bridge_settings ?host sample_config_file (Some []) = Inr b" using sample_bridge_snapshot by blast
  then have "parse_runtime_paths ?host (ch_environ ?host) [] = Some (bd_paths b)"
    using sample_document [of "[]"]
    by (auto simp: load_bridge_settings_def load_model_Inr parse_bridge_settings_def bind_eq_Some_conv setting_def split: if_splits)
  then have "rp_token_file (bd_paths b) = work_root" using sample_paths by simp
  then have f: "ch_file ?host (rp_token_file (bd_paths b)) = FileBytes (map mkb [116, 13, 10])"
    by (simp add: sample_config_host_def sample_config_file_def work_root_def)
  have "utf8_decode (map mkb [116, 13, 10]) = Some [116, 13, 10]" by (rule utf8_decode_encode, rule utf8_encode_ascii) simp
  moreover have "py_strip (universal_newlines [116, 13, 10]) = [116]" by (simp add: py_strip_def py_space_def)
  ultimately have "\<exists>s. load_startup_settings ?host sample_config_file (Some []) = Inr s"
    using b f by (simp add: load_startup_settings_def Let_def)
  then show ?thesis using startup_has_token by blast
qed

end
