(* ===== verification/Worker_Process.thy ===== *)
theory Worker_Process
  imports Configuration Runtime_Binding Worker_Desktop
begin

text \<open>
  The worker process (\<open>worker/main.py\<close> and the start-up parts of \<open>worker/runtime.py\<close>): its arguments, the choice and the
  loading of its configuration for every generation, and the watchdog that builds, runs and closes one runtime after the
  other. The lemmas show that a generation starts only for the bound user, that every runtime is closed before
  the next one is built, and that the waits between the generations are bounded.
\<close>

section \<open>The places of the installed configuration\<close>

datatype worker_failure = SessionUnavailable | OsFailure | FatalFailure

definition env_get :: "environment \<Rightarrow> string \<Rightarrow> pystr option" where
  "env_get env name = map_of env (ustr name)"

definition installed_config_paths :: "path_host \<Rightarrow> environment \<Rightarrow> worker_failure + win_path \<times> win_path" where
  "installed_config_paths host env =
     (let program_data = (case env_get env ''ProgramData'' of Some v \<Rightarrow> if v = [] then env_get env ''PROGRAMDATA'' else Some v
                                                          | None \<Rightarrow> env_get env ''PROGRAMDATA'')
      in case program_data of
           None \<Rightarrow> Inl SessionUnavailable
         | Some d \<Rightarrow>
             (let root = child (ph_path host d) runtime_directory;
                  pick = (\<lambda>name file. case env_get env name of Some v \<Rightarrow> ph_path host v | None \<Rightarrow> child root (ustr file))
              in Inr (pick ''HERMES_BRIDGE_CONFIG_FILE'' ''config.yaml'', pick ''HERMES_BRIDGE_POLICY_FILE'' ''policy.yaml'')))"

definition emergency_hotkey_virtual_key :: "pystr \<Rightarrow> nat option" where
  "emergency_hotkey_virtual_key configured =
     (if configured = ustr ''ctrl+alt+shift+f10'' then Some 0x79
      else if configured = ustr ''ctrl+alt+shift+f11'' then Some 0x7A else None)"

section \<open>One generation\<close>

datatype generation_error =
    GenerationSession string
  | GenerationSessionRejected worker_session_error
  | GenerationBinding binding_error
  | GenerationConfig config_error
  | GenerationHotkey
  | GenerationOther worker_failure

record worker_factory =
  wf_config_path :: win_path
  wf_policy_path :: win_path
  wf_expected_worker_sid :: "pystr option"
  wf_binding_path :: "win_path option"
  wf_binding_sha256 :: "pystr option"

text \<open>What a runtime is built from: the two configurations, the accepted session and the key of the emergency stop.\<close>

record worker_build =
  wb_bridge :: bridge_settings
  wb_policy :: policy_settings
  wb_session :: os_session
  wb_virtual_key :: nat

definition build_worker_runtime :: "bridge_settings \<Rightarrow> policy_settings \<Rightarrow> os_session \<Rightarrow> generation_error + worker_build" where
  "build_worker_runtime bridge policy session =
     bindR (mapErr GenerationSessionRejected (validate_worker_session session)) (\<lambda>accepted.
       case emergency_hotkey_virtual_key (cs_emergency_stop_hotkey (bd_computer_settings bridge)) of
         None \<Rightarrow> Inl GenerationHotkey
       | Some key \<Rightarrow> Inr \<lparr>wb_bridge = bridge, wb_policy = policy, wb_session = accepted, wb_virtual_key = key\<rparr>)"

text \<open>The selected files, the expected user and the environment of the expansion; without a snapshot it is that of the process.\<close>

definition select_configuration ::
  "binding_host \<Rightarrow> worker_factory \<Rightarrow> generation_error + win_path \<times> win_path \<times> pystr option \<times> environment option" where
  "select_configuration bh f =
     (case (wf_binding_path f, wf_binding_sha256 f) of
        (None, None) \<Rightarrow> Inr (wf_config_path f, wf_policy_path f, wf_expected_worker_sid f, None)
      | (Some p, Some sha) \<Rightarrow>
          bindR (mapErr GenerationBinding (load_runtime_binding bh WorkerProfile p sha None)) (\<lambda>b.
            case rb_policy_path b of
              None \<Rightarrow> Inl (GenerationBinding (RuntimeBindingError ''worker_binding''))
            | Some q \<Rightarrow> Inr (rb_config_path b, q, Some (rb_worker_sid b), Some []))
      | _ \<Rightarrow> Inl (GenerationBinding (RuntimeBindingError ''worker_binding'')))"

definition build_generation :: "binding_host \<Rightarrow> config_host \<Rightarrow> worker_factory \<Rightarrow> os_session \<Rightarrow> generation_error + worker_build" where
  "build_generation bh ch f session =
     bindR (select_configuration bh f) (\<lambda>(config_path, policy_path, expected, environ).
       if expected \<noteq> None \<and> expected \<noteq> Some (os_sid session) then Inl (GenerationSession ''binding_identity'')
       else bindR (mapErr GenerationConfig (load_bridge_settings ch config_path environ)) (\<lambda>bridge.
            bindR (mapErr GenerationConfig (load_policy_settings ch policy_path)) (\<lambda>policy.
              build_worker_runtime bridge policy session)))"

fun failure_of :: "generation_error \<Rightarrow> worker_failure" where
  "failure_of (GenerationSession _) = SessionUnavailable"
| "failure_of (GenerationSessionRejected _) = SessionUnavailable"
| "failure_of (GenerationConfig ConfigOsError) = OsFailure"
| "failure_of (GenerationOther k) = k"
| "failure_of _ = FatalFailure"

text \<open>
  A generation starts only for the user it is bound to. A runtime that was built has a live, unelevated session of no
  service account; with a binding, both configurations are the protected files that the binding names, and the session is
  the bound user.
\<close>

theorem generation_is_for_bound_user:
  assumes "build_generation bh ch f session = Inr w"
  shows "wb_session w = session \<and> os_session_id session \<noteq> 0 \<and> os_active session \<and> \<not> os_elevated session \<and> os_sid session \<notin> set rejected_sids \<and>
    (\<forall>p. wf_binding_path f = Some p \<longrightarrow>
      (\<exists>b sha q. wf_binding_sha256 f = Some sha \<and> load_runtime_binding bh WorkerProfile p sha None = Inr b \<and>
         rb_policy_path b = Some q \<and> os_sid session = rb_worker_sid b \<and>
         load_bridge_settings ch (rb_config_path b) (Some []) = Inr (wb_bridge w) \<and>
         load_policy_settings ch q = Inr (wb_policy w)))"
proof -
  obtain cp pp expected environ where sel: "select_configuration bh f = Inr (cp, pp, expected, environ)"
    and sid: "expected = None \<or> expected = Some (os_sid session)"
    and bridge: "load_bridge_settings ch cp environ = Inr (wb_bridge w)"
    and policy: "load_policy_settings ch pp = Inr (wb_policy w)"
    and v: "validate_worker_session session = Inr (wb_session w)"
    using assms
    by (auto simp: build_generation_def build_worker_runtime_def bindR_eq_Inr mapErr_def split: if_splits sum.splits option.splits)
  have s: "wb_session w = session \<and> os_session_id session \<noteq> 0 \<and> os_active session \<and> \<not> os_elevated session \<and> os_sid session \<notin> set rejected_sids"
    using v by (auto simp: validate_worker_session_def split: if_splits)
  have "\<exists>b sha q. wf_binding_sha256 f = Some sha \<and> load_runtime_binding bh WorkerProfile p sha None = Inr b \<and>
         rb_policy_path b = Some q \<and> os_sid session = rb_worker_sid b \<and>
         load_bridge_settings ch (rb_config_path b) (Some []) = Inr (wb_bridge w) \<and> load_policy_settings ch q = Inr (wb_policy w)"
    if p: "wf_binding_path f = Some p" for p
    using sel p sid bridge policy
    by (auto simp: select_configuration_def bindR_eq_Inr mapErr_def split: option.splits sum.splits)
  with s show ?thesis by blast
qed

section \<open>The watchdog\<close>

text \<open>Times are milliseconds; the jitter is what the random source returns, before it is clamped.\<close>

record watchdog_policy =
  wd_initial_backoff :: int
  wd_max_backoff :: int
  wd_jitter_cap :: int

definition make_watchdog_policy :: "int \<Rightarrow> int \<Rightarrow> int \<Rightarrow> watchdog_policy option" where
  "make_watchdog_policy initial maximum cap =
     (if initial \<le> 0 \<or> maximum < initial \<or> cap < 0 then None
      else Some \<lparr>wd_initial_backoff = initial, wd_max_backoff = maximum, wd_jitter_cap = cap\<rparr>)"

definition default_watchdog_policy :: watchdog_policy where
  "default_watchdog_policy = \<lparr>wd_initial_backoff = 250, wd_max_backoff = 5000, wd_jitter_cap = 250\<rparr>"

text \<open>
  What happens in one round of the loop: whether the runtime could be built, how it ended, whether closing it raised, whether
  the stop is set afterwards, the jitter, and whether the wait was ended by the stop.
\<close>

record watchdog_round =
  wr_build :: "worker_failure option"
  wr_run :: "worker_failure option"
  wr_close :: "worker_failure option"
  wr_stopped :: bool
  wr_jitter :: int
  wr_wait_stopped :: bool

datatype failure_kind = SessionUnavailableKind | OsErrorKind | RuntimeStoppedKind

fun failure_kind_of :: "worker_failure \<Rightarrow> failure_kind option" where
  "failure_kind_of SessionUnavailable = Some SessionUnavailableKind"
| "failure_kind_of OsFailure = Some OsErrorKind"
| "failure_kind_of FatalFailure = None"

record watchdog_receipt =
  rc_attempts :: nat
  rc_recoverable_failures :: nat
  rc_last_failure :: "failure_kind option"

definition fresh_receipt :: watchdog_receipt where
  "fresh_receipt = \<lparr>rc_attempts = 0, rc_recoverable_failures = 0, rc_last_failure = None\<rparr>"

definition recoverable :: "failure_kind \<Rightarrow> watchdog_receipt \<Rightarrow> watchdog_receipt" where
  "recoverable k r =
     r\<lparr>rc_attempts := Suc (rc_attempts r), rc_recoverable_failures := Suc (rc_recoverable_failures r), rc_last_failure := Some k\<rparr>"

datatype watchdog_event = RuntimeBuilt | RuntimeClosed | WaitedFor int

datatype watchdog_end = Returned | RaisedOut | StillRunning

definition clamp_jitter :: "watchdog_policy \<Rightarrow> int \<Rightarrow> int" where
  "clamp_jitter p j = min (max j 0) (wd_jitter_cap p)"

text \<open>The receipt after the guarded part of a round, or the exception that leaves the loop.\<close>

definition round_receipt :: "watchdog_round \<Rightarrow> watchdog_receipt \<Rightarrow> watchdog_receipt option" where
  "round_receipt rd r =
     (case (wr_build rd, wr_run rd) of
        (Some k, _) \<Rightarrow> map_option (\<lambda>kind. recoverable kind r) (failure_kind_of k)
      | (None, Some k) \<Rightarrow> map_option (\<lambda>kind. recoverable kind r) (failure_kind_of k)
      | (None, None) \<Rightarrow>
          Some (if wr_stopped rd then r\<lparr>rc_attempts := Suc (rc_attempts r)\<rparr> else recoverable RuntimeStoppedKind r))"

fun watchdog_run ::
  "watchdog_policy \<Rightarrow> int \<Rightarrow> watchdog_round list \<Rightarrow> watchdog_receipt \<Rightarrow> watchdog_end \<times> watchdog_receipt \<times> watchdog_event list" where
  "watchdog_run p backoff [] r = (StillRunning, r, [])"
| "watchdog_run p backoff (rd # rds) r =
     (let built = (wr_build rd = None);
          events = (if built then [RuntimeBuilt, RuntimeClosed] else [])
      in case round_receipt rd r of
           None \<Rightarrow> (RaisedOut, r, events)
         | Some r1 \<Rightarrow>
             if built \<and> wr_close rd \<noteq> None then (RaisedOut, r1, events)
             else if wr_stopped rd then (Returned, r1, events)
             else
               (let delay = min backoff (wd_max_backoff p) + clamp_jitter p (wr_jitter rd)
                in if wr_wait_stopped rd then (Returned, r1, events @ [WaitedFor delay])
                   else (case watchdog_run p (min (backoff * 2) (wd_max_backoff p)) rds r1 of
                           (e, r2, evs) \<Rightarrow> (e, r2, events @ WaitedFor delay # evs))))"

text \<open>Every runtime that was built is closed next.\<close>

fun closes_each :: "watchdog_event list \<Rightarrow> bool" where
  "closes_each [] \<longleftrightarrow> True"
| "closes_each (RuntimeBuilt # es) \<longleftrightarrow> (case es of RuntimeClosed # es' \<Rightarrow> closes_each es' | _ \<Rightarrow> False)"
| "closes_each (RuntimeClosed # es) \<longleftrightarrow> False"
| "closes_each (WaitedFor _ # es) \<longleftrightarrow> closes_each es"

definition waits :: "watchdog_event list \<Rightarrow> int list" where
  "waits es = concat (map (\<lambda>e. case e of WaitedFor d \<Rightarrow> [d] | _ \<Rightarrow> []) es)"

lemma watchdog_closes: "watchdog_run p b rds r = (e, r', es) \<Longrightarrow> closes_each es"
  by (induction p b rds r arbitrary: e r' es rule: watchdog_run.induct)
    (auto simp: Let_def split: option.splits if_splits prod.splits)

lemma waits_simps [simp]:
  "waits [] = []" "waits (RuntimeBuilt # es) = waits es" "waits (RuntimeClosed # es) = waits es" "waits (WaitedFor d # es) = d # waits es"
  "waits (es @ fs) = waits es @ waits fs"
  by (simp_all add: waits_def)

text \<open>One unfolding of the loop: it ends in this round, or waits and goes on.\<close>

lemma watchdog_run_Cons:
  assumes "watchdog_run p b (rd # rds) r = (e, r', es)"
  obtains (ends) "e \<noteq> StillRunning" "e = RaisedOut \<longrightarrow> round_receipt rd r = None \<or> wr_build rd = None \<and> wr_close rd \<noteq> None"
      "waits es = [] \<or> waits es = [min b (wd_max_backoff p) + clamp_jitter p (wr_jitter rd)]"
      "Some r' = round_receipt rd r \<or> r' = r"
    | (goes) r1 evs where "round_receipt rd r = Some r1"
      "watchdog_run p (min (b * 2) (wd_max_backoff p)) rds r1 = (e, r', evs)"
      "waits es = (min b (wd_max_backoff p) + clamp_jitter p (wr_jitter rd)) # waits evs"
  using assms by (auto simp: Let_def split: option.splits if_splits prod.splits)

lemma backoff_double:
  fixes b m :: int
  assumes "0 < b" "0 < m"
  shows "min (min (b * 2) m * 2 ^ k) m = min (b * 2 ^ Suc k) m"
proof -
  have m: "m * 1 \<le> m * 2 ^ k" using assms(2) by (intro mult_left_mono) simp_all
  have b: "b * 2 * 1 \<le> b * 2 * 2 ^ k" using assms(1) by (intro mult_left_mono) simp_all
  show ?thesis
  proof (cases "b * 2 \<le> m")
    case True
    then show ?thesis by (simp add: min_def)
  next
    case False
    then have "min (b * 2) m * 2 ^ k = m * 2 ^ k" by simp
    then show ?thesis using m b False by simp
  qed
qed

lemma watchdog_waits:
  assumes "watchdog_run p b rds r = (e, r', es)" "0 < b" "0 < wd_max_backoff p" "0 \<le> wd_jitter_cap p" "k < length (waits es)"
  shows "min (b * 2 ^ k) (wd_max_backoff p) \<le> waits es ! k \<and> waits es ! k \<le> min (b * 2 ^ k) (wd_max_backoff p) + wd_jitter_cap p"
  using assms
proof (induction rds arbitrary: b r e r' es k)
  case (Cons rd rds)
  have j: "0 \<le> clamp_jitter p x" "clamp_jitter p x \<le> wd_jitter_cap p" for x using Cons.prems(4) by (auto simp: clamp_jitter_def)
  from Cons.prems(1) show ?case
  proof (cases rule: watchdog_run_Cons)
    case ends
    then have "k = 0" "waits es = [min b (wd_max_backoff p) + clamp_jitter p (wr_jitter rd)]" using Cons.prems(5) by auto
    then show ?thesis using j by simp
  next
    case (goes r1 evs)
    show ?thesis
    proof (cases k)
      case 0
      then show ?thesis using goes(3) j by simp
    next
      case (Suc n)
      then show ?thesis
        using Cons.IH [OF goes(2) _ Cons.prems(3,4), of n] goes(3) Cons.prems(2,3,5) backoff_double [of b "wd_max_backoff p" n]
        by simp
    qed
  qed
qed simp

lemma round_receipt_counts:
  "round_receipt rd r = Some r1 \<Longrightarrow> rc_attempts r1 = Suc (rc_attempts r) \<and>
     rc_recoverable_failures r1 \<le> Suc (rc_recoverable_failures r)"
  by (auto simp: round_receipt_def recoverable_def split: option.splits if_splits)

lemma round_receipt_None: "round_receipt rd r = None \<Longrightarrow> wr_build rd = Some FatalFailure \<or> wr_run rd = Some FatalFailure"
  by (auto simp: round_receipt_def split: option.splits elim!: failure_kind_of.elims)

lemma watchdog_counts:
  assumes "watchdog_run p b rds r = (e, r', es)" "rc_recoverable_failures r \<le> rc_attempts r"
  shows "rc_recoverable_failures r' \<le> rc_attempts r' \<and> rc_attempts r' \<le> rc_attempts r + length rds \<and>
    (e = StillRunning \<longrightarrow> rc_attempts r' = rc_attempts r + length rds) \<and>
    (e = RaisedOut \<longrightarrow> (\<exists>rd \<in> set rds. wr_build rd = Some FatalFailure \<or> wr_run rd = Some FatalFailure \<or> wr_close rd \<noteq> None))"
  using assms
proof (induction rds arbitrary: b r e r' es)
  case (Cons rd rds)
  from Cons.prems(1) show ?case
  proof (cases rule: watchdog_run_Cons)
    case ends
    then show ?thesis using Cons.prems(2) round_receipt_counts [of rd r r'] round_receipt_None [of rd r] by fastforce
  next
    case (goes r1 evs)
    then show ?thesis using Cons.IH [OF goes(2)] Cons.prems(2) round_receipt_counts [of rd r r1] by fastforce
  qed
qed simp

text \<open>
  The watchdog is orderly. Every runtime it built is closed before anything else happens; the wait after the k-th attempt is
  the initial back-off doubled k times, cut at the maximum, and at most the jitter cap longer; every round counts as one
  attempt; and an exception leaves the loop only if it is no session or operating system error, or if it came from closing.
\<close>

theorem watchdog_is_orderly:
  assumes "make_watchdog_policy initial maximum cap = Some p" "watchdog_run p (wd_initial_backoff p) rds fresh_receipt = (e, r, es)"
  shows "closes_each es \<and>
    (\<forall>k < length (waits es). min (initial * 2 ^ k) maximum \<le> waits es ! k \<and> waits es ! k \<le> min (initial * 2 ^ k) maximum + cap) \<and>
    rc_recoverable_failures r \<le> rc_attempts r \<and> rc_attempts r \<le> length rds \<and> (e = StillRunning \<longrightarrow> rc_attempts r = length rds) \<and>
    (e = RaisedOut \<longrightarrow> (\<exists>rd \<in> set rds. wr_build rd = Some FatalFailure \<or> wr_run rd = Some FatalFailure \<or> wr_close rd \<noteq> None))"
proof -
  have p: "wd_initial_backoff p = initial" "wd_max_backoff p = maximum" "wd_jitter_cap p = cap" "0 < initial" "0 < maximum" "0 \<le> cap"
    using assms(1) by (auto simp: make_watchdog_policy_def split: if_splits)
  have "min (initial * 2 ^ k) maximum \<le> waits es ! k \<and> waits es ! k \<le> min (initial * 2 ^ k) maximum + cap" if "k < length (waits es)" for k
    using watchdog_waits [OF assms(2) _ _ _ that] p by simp
  moreover have "rc_recoverable_failures fresh_receipt \<le> rc_attempts fresh_receipt" "rc_attempts fresh_receipt = 0"
    by (simp_all add: fresh_receipt_def)
  ultimately show ?thesis using watchdog_closes [OF assms(2)] watchdog_counts [OF assms(2)] by simp
qed

section \<open>The task and the command line\<close>

definition account_char :: "nat \<Rightarrow> bool" where
  "account_char c \<longleftrightarrow> 65 \<le> c \<and> c \<le> 90 \<or> 97 \<le> c \<and> c \<le> 122 \<or> 48 \<le> c \<and> c \<le> 57 \<or> c \<in> {95, 46, 64, 45}"

definition account_pattern :: "pystr \<Rightarrow> bool" where
  "account_pattern s \<longleftrightarrow>
     (case split_on backslash s of
        [a] \<Rightarrow> a \<noteq> [] \<and> list_all account_char a
      | [a, b] \<Rightarrow> a \<noteq> [] \<and> b \<noteq> [] \<and> list_all account_char a \<and> list_all account_char b
      | _ \<Rightarrow> False)"

record worker_task_manifest =
  wt_name :: string
  wt_user_id :: pystr
  wt_trigger :: string
  wt_logon_type :: string
  wt_run_level :: string
  wt_restart_on_failure :: bool
  wt_hidden :: bool
  wt_argv :: "pystr list"

definition build_worker_task_manifest :: "win_path \<Rightarrow> pystr \<Rightarrow> worker_task_manifest option" where
  "build_worker_task_manifest executable user_id =
     (if \<not> account_pattern user_id then None
      else Some \<lparr>wt_name = ''HermesWindowsBridgeWorker'', wt_user_id = user_id, wt_trigger = ''AtLogOn'',
                 wt_logon_type = ''InteractiveToken'', wt_run_level = ''Limited'', wt_restart_on_failure = True, wt_hidden = True,
                 wt_argv = [path_text (child (parent executable) (ustr ''pythonw.exe'')), ustr ''-m'', ustr ''hermes_windows_bridge.worker.main'']\<rparr>)"

text \<open>What \<open>main\<close> does: exit with code 2, fail with another exception, or run the watchdog with a factory.\<close>

datatype worker_start = WorkerExitsWithUsage | WorkerRaises | WorkerRuns worker_factory

definition installed_factory ::
  "path_host \<Rightarrow> environment \<Rightarrow> runtime_binding option \<Rightarrow> (win_path \<times> pystr) option \<Rightarrow> worker_factory option" where
  "installed_factory host env b source =
     (case b of
        None \<Rightarrow>
          (case installed_config_paths host env of
             Inl _ \<Rightarrow> None
           | Inr (c, q) \<Rightarrow> Some \<lparr>wf_config_path = c, wf_policy_path = q, wf_expected_worker_sid = None, wf_binding_path = None, wf_binding_sha256 = None\<rparr>)
      | Some rb \<Rightarrow>
          (case (rb_policy_path rb, source) of
             (Some q, Some (path, sha)) \<Rightarrow>
               if rb_profile rb \<noteq> WorkerProfile then None
               else Some \<lparr>wf_config_path = rb_config_path rb, wf_policy_path = q, wf_expected_worker_sid = Some (rb_worker_sid rb),
                          wf_binding_path = Some path, wf_binding_sha256 = Some sha\<rparr>
           | _ \<Rightarrow> None))"

definition worker_main :: "binding_host \<Rightarrow> environment \<Rightarrow> pystr list \<Rightarrow> worker_start" where
  "worker_main bh env argv =
     (case parse_runtime_binding_args argv of
        Inl _ \<Rightarrow> WorkerExitsWithUsage
      | Inr None \<Rightarrow> (case installed_factory (bh_paths bh) env None None of None \<Rightarrow> WorkerRaises | Some f \<Rightarrow> WorkerRuns f)
      | Inr (Some (path, sha)) \<Rightarrow>
          (let p = ph_path (bh_paths bh) path in
           case load_runtime_binding bh WorkerProfile p sha None of
             Inl BindingAttributeError \<Rightarrow> WorkerRaises
           | Inl _ \<Rightarrow> WorkerExitsWithUsage
           | Inr b \<Rightarrow> (case installed_factory (bh_paths bh) env (Some b) (Some (p, sha)) of None \<Rightarrow> WorkerRaises | Some f \<Rightarrow> WorkerRuns f)))"

text \<open>A worker with arguments checks its binding again for every generation.\<close>

lemma bound_worker_stays_bound:
  assumes "worker_main bh env argv = WorkerRuns f" "argv \<noteq> []"
  shows "\<exists>path sha b. argv = [ustr ''--runtime-binding'', path, ustr ''--runtime-binding-sha256'', sha] \<and>
    load_runtime_binding bh WorkerProfile (ph_path (bh_paths bh) path) sha None = Inr b \<and>
    wf_binding_path f = Some (ph_path (bh_paths bh) path) \<and> wf_binding_sha256 f = Some sha \<and> wf_expected_worker_sid f = Some (rb_worker_sid b)"
  using assms
  by (auto simp: worker_main_def parse_runtime_binding_args_def installed_factory_def Let_def
      split: list.splits if_splits sum.splits option.splits binding_error.splits)

section \<open>A concrete watchdog\<close>

definition sample_round :: "worker_failure option \<Rightarrow> bool \<Rightarrow> watchdog_round" where
  "sample_round k halted = \<lparr>wr_build = None, wr_run = k, wr_close = None, wr_stopped = halted, wr_jitter = 400, wr_wait_stopped = False\<rparr>"

lemma watchdog_is_orderly_witness:
  "\<exists>r es. watchdog_run default_watchdog_policy 250 [sample_round (Some OsFailure) False, sample_round None True] fresh_receipt = (Returned, r, es) \<and>
     closes_each es \<and> waits es = [500]"
proof -
  have m: "make_watchdog_policy 250 5000 250 = Some default_watchdog_policy" by (simp add: make_watchdog_policy_def default_watchdog_policy_def)
  have i: "wd_initial_backoff default_watchdog_policy = 250" by (simp add: default_watchdog_policy_def)
  obtain r es where w: "watchdog_run default_watchdog_policy (wd_initial_backoff default_watchdog_policy)
      [sample_round (Some OsFailure) False, sample_round None True] fresh_receipt = (Returned, r, es)" and "waits es = [500]"
    by (simp add: sample_round_def default_watchdog_policy_def round_receipt_def clamp_jitter_def)
  with watchdog_is_orderly [OF m w] i show ?thesis by auto
qed

definition sample_factory :: worker_factory where
  "sample_factory = \<lparr>wf_config_path = sample_config_file, wf_policy_path = sample_config_file, wf_expected_worker_sid = None,
                     wf_binding_path = None, wf_binding_sha256 = None\<rparr>"

lemma generation_is_for_bound_user_witness:
  "\<exists>w. build_generation (sample_binding_host []) (sample_config_host []) sample_factory user_session = Inr w \<and> wb_session w = user_session"
proof -
  let ?host = "sample_config_host []"
  obtain b where b: "load_bridge_settings ?host sample_config_file None = Inr b" using sample_bridge by blast
  have "map_option (\<lambda>b. cs_emergency_stop_hotkey (bd_computer_settings b)) (parse_bridge_settings ?host (ch_environ ?host) [])
      = Some (ustr ''ctrl+alt+shift+f11'')" by code_simp
  then have h: "cs_emergency_stop_hotkey (bd_computer_settings b) = ustr ''ctrl+alt+shift+f11''"
    using b sample_document [of "[]"] by (auto simp: load_bridge_settings_def load_model_Inr)
  have "\<exists>p. load_policy_settings ?host sample_config_file = Inr p"
    unfolding load_policy_settings_def load_model_Inr by (rule exI)+ (rule conjI [OF sample_document], code_simp)
  then obtain p where p: "load_policy_settings ?host sample_config_file = Inr p" by blast
  have "validate_worker_session user_session = Inr user_session" by code_simp
  then obtain w where w: "build_generation (sample_binding_host []) ?host sample_factory user_session = Inr w"
    using b p h by (simp add: build_generation_def select_configuration_def sample_factory_def build_worker_runtime_def emergency_hotkey_virtual_key_def)
  with generation_is_for_bound_user [OF w] show ?thesis by blast
qed

end
