(* ===== verification/Gateway_Access.thy ===== *)
theory Gateway_Access
  imports Path_Safety Py_Json Acl "HOL-Library.Sublist" "HOL-Library.AList"
begin

text \<open>
  Who may call the gateway (\<open>gateway/auth.py\<close>, \<open>gateway/origin_host.py\<close>, \<open>gateway/tailscale_identity.py\<close>,
  \<open>gateway/mcp_server.py\<close>): the bearer token, the host and origin lists, the Tailscale capability with its middleware, the
  closed input models of the server, and the entry that the bridge adds to a Hermes configuration. The lower-case
  function of the library, its JSON reader and the web server are arguments. The lemmas show what a request that
  reaches a tool must have carried.
\<close>

section \<open>The bearer token\<close>

datatype access_error = InvalidBearerTokenConfigurationError | CompareTypeError | HeaderEncodeError | ServerError pystr

record access_token =
  at_token :: pystr
  at_client_id :: pystr
  at_scopes :: "pystr list"

definition gateway_client_id :: pystr where "gateway_client_id = ustr ''hermes-windows-bridge''"

text \<open>\<open>hmac.compare_digest\<close> takes texts only if both are ASCII.\<close>

definition ascii_text :: "pystr \<Rightarrow> bool" where
  "ascii_text s \<longleftrightarrow> list_all (\<lambda>c. c < 128) s"

definition compare_digest :: "pystr \<Rightarrow> pystr \<Rightarrow> access_error + bool" where
  "compare_digest a b = (if ascii_text a \<and> ascii_text b then Inr (a = b) else Inl CompareTypeError)"

definition make_token_verifier :: "pystr \<Rightarrow> access_error + pystr" where
  "make_token_verifier expected = (if expected = [] then Inl InvalidBearerTokenConfigurationError else Inr expected)"

definition verify_token :: "pystr \<Rightarrow> pystr \<Rightarrow> access_error + access_token option" where
  "verify_token expected token =
     bindR (compare_digest token expected) (\<lambda>same.
       Inr (if same then Some \<lparr>at_token = token, at_client_id = gateway_client_id, at_scopes = []\<rparr> else None))"

lemma verify_token_exact: "verify_token expected token = Inr (Some a) \<Longrightarrow> token = expected \<and> at_token a = token"
  by (auto simp: verify_token_def compare_digest_def bindR_eq_Inr split: if_splits)

text \<open>A token with a character outside ASCII is no mismatch but an exception, on either side.\<close>

lemma non_ascii_token_raises: "\<not> ascii_text token \<or> \<not> ascii_text expected \<Longrightarrow> verify_token expected token = Inl CompareTypeError"
  by (auto simp: verify_token_def compare_digest_def)

section \<open>Hosts and origins\<close>

datatype allowlist_error = EmptyAllowlist | UnsafeAllowlistEntry

record transport_policy =
  tp_allowed_hosts :: "pystr list"
  tp_allowed_origins :: "pystr list"

definition reject_empty_or_wildcard_entries :: "pystr list \<Rightarrow> allowlist_error + pystr list" where
  "reject_empty_or_wildcard_entries entries =
     (if entries = [] then Inl EmptyAllowlist
      else if list_ex (\<lambda>e. py_strip e = [] \<or> 42 \<in> set e) entries then Inl UnsafeAllowlistEntry
      else Inr entries)"

definition make_transport_policy :: "pystr list \<Rightarrow> pystr list \<Rightarrow> allowlist_error + transport_policy" where
  "make_transport_policy hosts origins =
     bindR (reject_empty_or_wildcard_entries hosts) (\<lambda>h.
     bindR (reject_empty_or_wildcard_entries origins) (\<lambda>r.
       Inr \<lparr>tp_allowed_hosts = h, tp_allowed_origins = r\<rparr>))"

record sdk_transport_settings =
  ts_enable_dns_rebinding_protection :: bool
  ts_allowed_hosts :: "pystr list"
  ts_allowed_origins :: "pystr list"

definition sdk_settings :: "transport_policy \<Rightarrow> sdk_transport_settings" where
  "sdk_settings p =
     \<lparr>ts_enable_dns_rebinding_protection = True, ts_allowed_hosts = tp_allowed_hosts p, ts_allowed_origins = tp_allowed_origins p\<rparr>"

definition csv_values :: "pystr \<Rightarrow> pystr list" where
  "csv_values s = map py_strip (filter (\<lambda>v. py_strip v \<noteq> []) (split_on 44 s))"

definition transport_policy_from_csv :: "pystr \<Rightarrow> pystr \<Rightarrow> allowlist_error + transport_policy" where
  "transport_policy_from_csv hosts origins = make_transport_policy (csv_values hosts) (csv_values origins)"

lemma make_transport_policy_safe:
  assumes "make_transport_policy hosts origins = Inr p"
  shows "tp_allowed_hosts p = hosts \<and> tp_allowed_origins p = origins \<and> hosts \<noteq> [] \<and> origins \<noteq> [] \<and>
    (\<forall>e \<in> set hosts \<union> set origins. py_strip e \<noteq> [] \<and> 42 \<notin> set e)"
  using assms by (auto simp: make_transport_policy_def reject_empty_or_wildcard_entries_def bindR_eq_Inr list_ex_iff split: if_splits)

section \<open>Addresses\<close>

text \<open>\<open>ipaddress.ip_address\<close>: the dotted form, or the colon form with one gap and a dotted tail.\<close>

datatype ip_value = IPv4 int | IPv6 int

definition ipv4_octet :: "pystr \<Rightarrow> int option" where
  "ipv4_octet s =
     (if digits_ok s \<and> length s \<le> 3 \<and> (s = [48] \<or> hd s \<noteq> 48) \<and> undec s \<le> 255 then Some (int (undec s)) else None)"

definition ipv4_number :: "pystr \<Rightarrow> int option" where
  "ipv4_number s =
     (case map ipv4_octet (split_on 46 s) of
        [Some a, Some b, Some c, Some d] \<Rightarrow> Some (((a * 256 + b) * 256 + c) * 256 + d)
      | _ \<Rightarrow> None)"

definition hex_value :: "nat \<Rightarrow> int option" where
  "hex_value c =
     (if 48 \<le> c \<and> c \<le> 57 then Some (int (c - 48))
      else if 97 \<le> c \<and> c \<le> 102 then Some (int (c - 87))
      else if 65 \<le> c \<and> c \<le> 70 then Some (int (c - 55)) else None)"

definition parse_hextet :: "pystr \<Rightarrow> int option" where
  "parse_hextet s =
     (if s = [] \<or> 4 < length s then None
      else foldl (\<lambda>acc c. case (acc, hex_value c) of (Some n, Some d) \<Rightarrow> Some (n * 16 + d) | _ \<Rightarrow> None) (Some 0) s)"

fun hextets :: "int \<Rightarrow> pystr list \<Rightarrow> int option" where
  "hextets n [] = Some n"
| "hextets n (p # ps) = (case parse_hextet p of None \<Rightarrow> None | Some d \<Rightarrow> hextets (n * 65536 + d) ps)"

text \<open>The pieces between the colons; a dotted last piece counts for two.\<close>

definition ipv6_pieces :: "pystr \<Rightarrow> (pystr list \<times> int option) option" where
  "ipv6_pieces s =
     (let ps = split_on 58 s in
      if length ps < 3 then None
      else if 46 \<in> set (last ps)
      then (case ipv4_number (last ps) of None \<Rightarrow> None | Some n \<Rightarrow> Some (butlast ps, Some n))
      else Some (ps, None))"

definition ipv6_number :: "pystr \<Rightarrow> int option" where
  "ipv6_number s =
     (case ipv6_pieces s of
        None \<Rightarrow> None
      | Some (ps, tail) \<Rightarrow>
          (let extra = (if tail = None then 0 else 2);
               close = (\<lambda>n. case tail of None \<Rightarrow> n | Some v \<Rightarrow> n * 4294967296 + v);
               inner = [1..<length ps + extra - 1]
           in if 9 < length ps + extra then None
              else (case filter (\<lambda>i. i < length ps \<and> ps ! i = []) inner of
                      [] \<Rightarrow> if length ps + extra \<noteq> 8 then None else map_option close (hextets 0 ps)
                    | [k] \<Rightarrow>
                        (let hi = take k ps; lo = drop (Suc k) ps;
                             hi' = (if hd ps = [] then tl hi else hi);
                             lo' = (if tail = None \<and> last ps = [] then butlast lo else lo)
                         in if (hd ps = [] \<and> hi' \<noteq> []) \<or> (tail = None \<and> last ps = [] \<and> lo' \<noteq> [])
                            then None
                            else if 7 < length hi' + length lo' + extra then None
                            else (case hextets 0 hi' of
                                    None \<Rightarrow> None
                                  | Some n \<Rightarrow>
                                      map_option close (hextets (n * 65536 ^ (8 - (length hi' + length lo' + extra))) lo')))
                    | _ \<Rightarrow> None)))"

definition ip_address :: "pystr \<Rightarrow> ip_value option" where
  "ip_address s =
     (case ipv4_number s of
        Some n \<Rightarrow> Some (IPv4 n)
      | None \<Rightarrow>
          (let a = takeWhile (\<lambda>c. c \<noteq> 37) s; scope = drop (length a) s in
           if 47 \<in> set s \<or> scope = [37] \<or> 37 \<in> set (tl scope) then None else map_option IPv6 (ipv6_number a)))"

fun is_loopback :: "ip_value \<Rightarrow> bool" where
  "is_loopback (IPv4 n) \<longleftrightarrow> n div 16777216 = 127"
| "is_loopback (IPv6 n) \<longleftrightarrow>
     (if n div 4294967296 = 65535 then (n mod 4294967296) div 16777216 = 127 else n = 1)"


lemma loopback_samples:
  "map_option is_loopback (ip_address (ustr ''127.0.0.1'')) = Some True"
  "map_option is_loopback (ip_address (ustr ''::1'')) = Some True"
  "map_option is_loopback (ip_address (ustr ''::ffff:127.0.0.1'')) = Some True"
  "map_option is_loopback (ip_address (ustr ''10.0.0.1'')) = Some False"
  "map_option is_loopback (ip_address (ustr ''fe80::1%eth0'')) = Some False"
  "ip_address (ustr ''127.0.0.01'') = None" "ip_address (ustr ''localhost'') = None" "ip_address (ustr ''1::2::3'') = None"
  by code_simp+

section \<open>The capability policy\<close>

text \<open>
  The lower-case function of texts and the JSON reader of the schema library, which gives the last value of a
  repeated key. The headers of a request are found by name, the client is the peer of the connection.
\<close>

record access_host =
  ah_lower :: "pystr \<Rightarrow> pystr"
  ah_parse :: "pystr \<Rightarrow> json option"

record http_request =
  rq_client :: "pystr option"
  rq_header :: "string \<Rightarrow> pystr option"

definition header_text :: "http_request \<Rightarrow> string \<Rightarrow> pystr" where
  "header_text rq name = (case rq_header rq name of None \<Rightarrow> [] | Some v \<Rightarrow> v)"

definition app_capabilities_header :: string where "app_capabilities_header = ''Tailscale-App-Capabilities''"
definition default_app_capability :: pystr where "default_app_capability = ustr ''hermes.local/windows-control''"
definition max_app_capabilities_header_bytes :: nat where "max_app_capabilities_header_bytes = 8192"

record app_capability_policy =
  ac_capability :: pystr
  ac_serve_host :: pystr

datatype capability_policy_error = InvalidCapability | InvalidServeHost

definition require_namespaced_capability :: "pystr \<Rightarrow> capability_policy_error + pystr" where
  "require_namespaced_capability c =
     (if 47 \<notin> set c \<or> py_strip c = [] \<or> list_ex py_space c then Inl InvalidCapability else Inr c)"

definition scheme_mark :: pystr where "scheme_mark = [58, 47, 47]"

definition require_exact_serve_host :: "access_host \<Rightarrow> pystr \<Rightarrow> capability_policy_error + pystr" where
  "require_exact_serve_host host h =
     (let normalized = rstrip_chars [46] (ah_lower host (py_strip h)) in
      if normalized = [] \<or> sublist scheme_mark normalized \<or> 42 \<in> set normalized \<or> 47 \<in> set normalized
      then Inl InvalidServeHost else Inr normalized)"

definition make_capability_policy :: "access_host \<Rightarrow> pystr \<Rightarrow> pystr \<Rightarrow> capability_policy_error + app_capability_policy" where
  "make_capability_policy host capability serve_host =
     bindR (require_namespaced_capability capability) (\<lambda>c.
     bindR (require_exact_serve_host host serve_host) (\<lambda>h. Inr \<lparr>ac_capability = c, ac_serve_host = h\<rparr>))"

definition has_trusted_serve_context :: "access_host \<Rightarrow> app_capability_policy \<Rightarrow> http_request \<Rightarrow> bool" where
  "has_trusted_serve_context host policy rq =
     (case rq_client rq of
        None \<Rightarrow> False
      | Some client \<Rightarrow>
          (case ip_address client of
             None \<Rightarrow> False
           | Some peer \<Rightarrow>
               (let h = rstrip_chars [46] (ah_lower host (header_text rq ''host'')) in
                is_loopback peer \<and> (h = ac_serve_host policy \<or> h = ac_serve_host policy @ ustr '':443''))))"

fun source_ok :: "json \<Rightarrow> bool" where
  "source_ok (JStr t) \<longleftrightarrow> py_strip t \<noteq> []"
| "source_ok _ \<longleftrightarrow> False"

text \<open>A grant is an object with nothing but its sources, of which none is blank.\<close>

fun grant_ok :: "json \<Rightarrow> bool" where
  "grant_ok (JObj [(k, JList sources)]) \<longleftrightarrow>
     k = ustr ''src'' \<and> sources \<noteq> [] \<and> list_all source_ok sources"
| "grant_ok _ \<longleftrightarrow> False"

fun grants_ok :: "json \<Rightarrow> bool" where
  "grants_ok (JList gs) \<longleftrightarrow> list_all grant_ok gs"
| "grants_ok _ \<longleftrightarrow> False"

fun capability_header :: "json \<Rightarrow> (pystr \<times> json) list option" where
  "capability_header (JObj kvs) = (if list_all (\<lambda>kv. grants_ok (snd kv)) kvs then Some kvs else None)"
| "capability_header _ = None"

definition verifies_header :: "access_host \<Rightarrow> app_capability_policy \<Rightarrow> pystr \<Rightarrow> access_error + bool" where
  "verifies_header host policy value =
     (case utf8_encode value of
        None \<Rightarrow> Inl HeaderEncodeError
      | Some bs \<Rightarrow>
          if max_app_capabilities_header_bytes < length bs then Inr False
          else (case Option.bind (ah_parse host value) capability_header of
                  None \<Rightarrow> Inr False
                | Some kvs \<Rightarrow>
                    Inr (case map_of kvs (ac_capability policy) of Some (JList gs) \<Rightarrow> gs \<noteq> [] | _ \<Rightarrow> False)))"

section \<open>The middleware\<close>

datatype 'r http_response = PlainText nat string | Reply 'r

text \<open>
  The application gets the request and the value of the context variable, and returns a response or raises; its effects are
  the change of the state. The variable is set for the application only and has its old value afterwards.
\<close>

type_synonym ('w, 'r) http_app = "http_request \<Rightarrow> bool \<Rightarrow> 'w \<Rightarrow> (access_error + 'r http_response) \<times> 'w"

definition capability_middleware :: "access_host \<Rightarrow> app_capability_policy \<Rightarrow> ('w, 'r) http_app \<Rightarrow> ('w, 'r) http_app" where
  "capability_middleware host policy call_next rq verified w =
     (if \<not> has_trusted_serve_context host policy rq then (Inr (PlainText 403 ''Untrusted Tailscale Serve context''), w)
      else (case verifies_header host policy (header_text rq app_capabilities_header) of
              Inl e \<Rightarrow> (Inl e, w)
            | Inr False \<Rightarrow> (Inr (PlainText 403 ''Required Tailscale App Capability was not verified''), w)
            | Inr True \<Rightarrow> call_next rq True w))"

definition streamable_http_app :: "access_host \<Rightarrow> app_capability_policy option \<Rightarrow> ('w, 'r) http_app \<Rightarrow> ('w, 'r) http_app" where
  "streamable_http_app host policy sdk = (case policy of None \<Rightarrow> sdk | Some p \<Rightarrow> capability_middleware host p sdk)"

text \<open>
  The application of the library, built with the verifier of the token: it is known to refuse a request whose
  token the verifier does not accept, before anything happens.
\<close>

definition bearer_guarded :: "(pystr \<Rightarrow> access_error + access_token option) \<Rightarrow> (http_request \<Rightarrow> pystr option) \<Rightarrow> ('w, 'r) http_app \<Rightarrow> bool" where
  "bearer_guarded verify bearer sdk \<longleftrightarrow>
     (\<forall>rq v w r w'. sdk rq v w = (r, w') \<longrightarrow> w' \<noteq> w \<longrightarrow> (\<exists>t a. bearer rq = Some t \<and> verify t = Inr (Some a)))"

definition gateway_app ::
  "access_host \<Rightarrow> pystr \<Rightarrow> app_capability_policy option \<Rightarrow> ((pystr \<Rightarrow> access_error + access_token option) \<Rightarrow> ('w, 'r) http_app) \<Rightarrow>
   access_error + ('w, 'r) http_app" where
  "gateway_app host token policy sdk =
     bindR (make_token_verifier token) (\<lambda>expected. Inr (streamable_http_app host policy (sdk (verify_token expected))))"

text \<open>What a header that passes shows.\<close>

definition carries_grant :: "access_host \<Rightarrow> app_capability_policy \<Rightarrow> pystr \<Rightarrow> bool" where
  "carries_grant host policy value \<longleftrightarrow>
     (\<exists>bs kvs k sources gs. utf8_encode value = Some bs \<and> length bs \<le> 8192 \<and> ah_parse host value = Some (JObj kvs) \<and>
       map_of kvs (ac_capability policy) = Some (JList (JObj [(k, JList sources)] # gs)) \<and> sources \<noteq> [] \<and>
       (\<forall>s \<in> set sources. \<exists>t. s = JStr t \<and> py_strip t \<noteq> []))"

lemma source_ok_shape: "source_ok s \<longleftrightarrow> (\<exists>t. s = JStr t \<and> py_strip t \<noteq> [])"
  by (cases s) auto

lemma grant_ok_shape: "grant_ok g \<Longrightarrow> \<exists>k sources. g = JObj [(k, JList sources)] \<and> sources \<noteq> [] \<and>
    (\<forall>s \<in> set sources. \<exists>t. s = JStr t \<and> py_strip t \<noteq> [])"
  by (induction g rule: grant_ok.induct) (auto simp: list_all_iff source_ok_shape)

lemma verified_header_carries_grant:
  assumes "verifies_header host policy value = Inr True"
  shows "carries_grant host policy value"
proof -
  obtain bs j kvs where h: "utf8_encode value = Some bs" "length bs \<le> 8192" "ah_parse host value = Some j" "capability_header j = Some kvs"
    and g: "\<exists>gs. map_of kvs (ac_capability policy) = Some (JList gs) \<and> gs \<noteq> []"
    using assms by (auto simp: verifies_header_def max_app_capabilities_header_bytes_def bind_eq_Some_conv
        split: option.splits if_splits json.splits)
  have j: "j = JObj kvs" "\<forall>v \<in> set kvs. grants_ok (snd v)"
    using h(4) by (cases j; auto simp: list_all_iff split: if_splits)+
  obtain gs where gs: "map_of kvs (ac_capability policy) = Some (JList gs)" "gs \<noteq> []" using g by blast
  then obtain x xs where x: "gs = x # xs" by (cases gs) auto
  have "grants_ok (JList gs)" using gs(1) j(2) map_of_SomeD [of kvs] by fastforce
  then have "grant_ok x" using x by simp
  then show ?thesis using h j(1) gs(1) x grant_ok_shape [of x] unfolding carries_grant_def by blast
qed

text \<open>
  C40: no request gets past the checks. If a request changes anything behind the gateway, it carried exactly the configured
  token, and with a capability policy its peer was a loopback address, its host the Serve host, and its header a
  non-empty grant of the capability; the tools then see the capability as verified if there is a policy.
\<close>

theorem request_needs_token_and_capability:
  assumes "gateway_app host token policy sdk = Inr app" "bearer_guarded (verify_token token) bearer (sdk (verify_token token))"
    and "app rq False w = (r, w')" "w' \<noteq> w"
  shows "bearer rq = Some token \<and> sdk (verify_token token) rq (policy \<noteq> None) w = (r, w') \<and>
    (\<forall>p. policy = Some p \<longrightarrow>
       (\<exists>client peer. rq_client rq = Some client \<and> ip_address client = Some peer \<and> is_loopback peer) \<and>
       rstrip_chars [46] (ah_lower host (header_text rq ''host'')) \<in> {ac_serve_host p, ac_serve_host p @ ustr '':443''} \<and>
       carries_grant host p (header_text rq app_capabilities_header))"
proof -
  have app: "app = streamable_http_app host policy (sdk (verify_token token))"
    using assms(1) by (auto simp: gateway_app_def make_token_verifier_def bindR_eq_Inr split: if_splits)
  have "sdk (verify_token token) rq (policy \<noteq> None) w = (r, w') \<and>
    (\<forall>p. policy = Some p \<longrightarrow> has_trusted_serve_context host p rq \<and>
       verifies_header host p (header_text rq app_capabilities_header) = Inr True)"
    using assms(3,4) unfolding app
    by (auto simp: streamable_http_app_def capability_middleware_def split: option.splits if_splits sum.splits bool.splits)
  moreover from this obtain t a where "bearer rq = Some t" "verify_token token t = Inr (Some a)"
    using assms(2,4) unfolding bearer_guarded_def by blast
  ultimately show ?thesis using verify_token_exact verified_header_carries_grant
    by (fastforce simp: has_trusted_serve_context_def Let_def split: option.splits)
qed

section \<open>The server\<close>

text \<open>A closed input model checks the arguments of a tool and gives their dump, or the text of its complaint.\<close>

record input_model =
  im_validate :: "json \<Rightarrow> pystr + json"
  im_schema :: json

record mcp_tool =
  tl_name :: pystr
  tl_input_schema :: json

type_synonym closed_inputs = "pystr \<rightharpoonup> input_model"

definition add_closed_tool :: "closed_inputs \<Rightarrow> pystr \<Rightarrow> input_model \<Rightarrow> closed_inputs" where
  "add_closed_tool inputs name model = inputs(name \<mapsto> model)"

definition list_tools :: "closed_inputs \<Rightarrow> mcp_tool list \<Rightarrow> mcp_tool list" where
  "list_tools inputs tools =
     map (\<lambda>t. case inputs (tl_name t) of None \<Rightarrow> t | Some m \<Rightarrow> t\<lparr>tl_input_schema := im_schema m\<rparr>) tools"

definition call_tool :: "closed_inputs \<Rightarrow> (pystr \<Rightarrow> json \<Rightarrow> 'w \<Rightarrow> (pystr + 'r) \<times> 'w) \<Rightarrow> pystr \<Rightarrow> json \<Rightarrow> 'w \<Rightarrow> (pystr + 'r) \<times> 'w" where
  "call_tool inputs sdk name arguments w =
     (case inputs name of
        None \<Rightarrow> sdk name arguments w
      | Some model \<Rightarrow>
          (case im_validate model arguments of
             Inl complaint \<Rightarrow> (Inl (ustr ''Error executing tool '' @ name @ ustr '': '' @ complaint), w)
           | Inr validated \<Rightarrow> sdk name validated w))"

text \<open>A registered tool runs only on arguments that its model accepted, and its published schema is the one of this model.\<close>

lemma closed_tool_is_closed:
  assumes "inputs = add_closed_tool others name model"
  shows "(im_validate model arguments = Inl complaint \<longrightarrow> snd (call_tool inputs sdk name arguments w) = w) \<and>
    (im_validate model arguments = Inr j \<longrightarrow> call_tool inputs sdk name arguments w = sdk name j w) \<and>
    (\<forall>t \<in> set (list_tools inputs tools). tl_name t = name \<longrightarrow> tl_input_schema t = im_schema model) \<and>
    map tl_name (list_tools inputs tools) = map tl_name tools"
  using assms by (auto simp: add_closed_tool_def call_tool_def list_tools_def split: option.splits)

section \<open>The entry in a Hermes configuration\<close>

datatype merge_error = MergePolicyError capability_policy_error | MergeYamlError | MergeValidationError

definition hermes_windows_server :: "pystr \<Rightarrow> json" where
  "hermes_windows_server serve_host =
     JObj [(ustr ''url'', JStr (ustr ''https://'' @ serve_host @ ustr ''/mcp'')),
           (ustr ''headers'', JObj [(ustr ''Authorization'', JStr (ustr ''Bearer ${HERMES_WINDOWS_BRIDGE_TOKEN}''))]),
           (ustr ''timeout'', JInt 120),
           (ustr ''connect_timeout'', JInt 20),
           (ustr ''supports_parallel_tool_calls'', JBool False),
           (ustr ''trust'', JStr (ustr ''untrusted'')),
           (ustr ''elicitation'', JObj [(ustr ''enabled'', JBool True), (ustr ''timeout'', JInt 300)]),
           (ustr ''tools'', JObj [(ustr ''resources'', JBool False), (ustr ''prompts'', JBool False)])]"

definition mcp_servers_key :: pystr where "mcp_servers_key = ustr ''mcp_servers''"
definition windows_pc_key :: pystr where "windows_pc_key = ustr ''windows_pc''"

text \<open>The document with its declared field first, then the other keys in their order.\<close>

definition merged_document :: "pystr \<Rightarrow> json \<Rightarrow> merge_error + json" where
  "merged_document serve_host existing =
     (case existing of
        JObj kvs \<Rightarrow>
          (case (case map_of kvs mcp_servers_key of None \<Rightarrow> Some [] | Some (JObj servers) \<Rightarrow> Some servers | Some _ \<Rightarrow> None) of
             None \<Rightarrow> Inl MergeValidationError
           | Some servers \<Rightarrow>
               Inr (JObj ((mcp_servers_key, JObj (AList.update windows_pc_key (hermes_windows_server serve_host) servers)) #
                          filter (\<lambda>kv. fst kv \<noteq> mcp_servers_key) kvs)))
      | _ \<Rightarrow> Inl MergeValidationError)"

definition merge_hermes_config ::
  "access_host \<Rightarrow> (pystr \<Rightarrow> json option) \<Rightarrow> (json \<Rightarrow> pystr) \<Rightarrow> pystr \<Rightarrow> pystr \<Rightarrow> merge_error + pystr" where
  "merge_hermes_config host load dump existing_yaml serve_host =
     bindR (mapErr MergePolicyError (make_capability_policy host default_app_capability serve_host)) (\<lambda>policy.
       case (if py_strip existing_yaml \<noteq> [] then load existing_yaml else Some (JObj [])) of
         None \<Rightarrow> Inl MergeYamlError
       | Some j \<Rightarrow> bindR (merged_document (ac_serve_host policy) j) (\<lambda>d. Inr (dump d)))"

definition config_value :: "json \<Rightarrow> pystr \<Rightarrow> json option" where
  "config_value j k = (case j of JObj kvs \<Rightarrow> map_of kvs k | _ \<Rightarrow> None)"

lemma update_twice: "AList.update k v (AList.update k v xs) = AList.update k v xs"
  by (induction xs) auto

text \<open>
  Adding the bridge to a configuration keeps the rest and can be repeated. Every other key keeps its value and every other
  server its entry; the bridge's entry is the one written; merging the result again gives the result.
\<close>

theorem merge_keeps_configuration:
  assumes "merged_document serve_host doc = Inr new"
  shows "(\<forall>k. k \<noteq> mcp_servers_key \<longrightarrow> config_value new k = config_value doc k) \<and>
    (\<exists>servers. config_value new mcp_servers_key = Some servers \<and>
       config_value servers windows_pc_key = Some (hermes_windows_server serve_host) \<and>
       (\<forall>name. name \<noteq> windows_pc_key \<longrightarrow>
          config_value servers name = Option.bind (config_value doc mcp_servers_key) (\<lambda>s. config_value s name))) \<and>
    merged_document serve_host new = Inr new"
proof -
  obtain kvs servers where doc: "doc = JObj kvs"
    and s: "(case map_of kvs mcp_servers_key of None \<Rightarrow> Some [] | Some (JObj servers) \<Rightarrow> Some servers | Some _ \<Rightarrow> None) = Some servers"
    and new: "new = JObj ((mcp_servers_key, JObj (AList.update windows_pc_key (hermes_windows_server serve_host) servers)) #
        filter (\<lambda>kv. fst kv \<noteq> mcp_servers_key) kvs)"
    using assms unfolding merged_document_def by (cases doc; simp split: option.splits)
  have keep: "map_of (filter (\<lambda>kv. fst kv \<noteq> mcp_servers_key) kvs) k = map_of kvs k" if "k \<noteq> mcp_servers_key" for k
    using that by (induction kvs) auto
  have old: "map_of servers name = Option.bind (config_value doc mcp_servers_key) (\<lambda>s. config_value s name)" for name
    using s doc by (auto simp: config_value_def split: option.splits json.splits)
  have "merged_document serve_host new = Inr new"
    using new by (simp add: merged_document_def update_twice)
  then show ?thesis using keep old new doc by (auto simp: config_value_def update_conv)
qed

section \<open>A concrete gateway\<close>

definition sample_access_host :: access_host where
  "sample_access_host = \<lparr>ah_lower = id,
     ah_parse = (\<lambda>_. Some (JObj [(default_app_capability, JList [JObj [(ustr ''src'', JList [JStr (ustr ''tag:agent'')])]])]))\<rparr>"

definition sample_request :: http_request where
  "sample_request = \<lparr>rq_client = Some (ustr ''127.0.0.1''),
     rq_header = (\<lambda>name. if name = ''host'' then Some (ustr ''pc.example.ts.net'')
                         else if name = ''Authorization'' then Some (ustr ''secret'') else Some (ustr ''{}''))\<rparr>"

definition sample_capability :: app_capability_policy where
  "sample_capability = \<lparr>ac_capability = default_app_capability, ac_serve_host = ustr ''pc.example.ts.net''\<rparr>"

definition sample_sdk :: "(pystr \<Rightarrow> access_error + access_token option) \<Rightarrow> (nat, unit) http_app" where
  "sample_sdk verify rq v w =
     (case rq_header rq ''Authorization'' of
        None \<Rightarrow> (Inr (PlainText 401 ''''), w)
      | Some t \<Rightarrow> (case verify t of Inr (Some a) \<Rightarrow> (Inr (Reply ()), Suc w) | _ \<Rightarrow> (Inr (PlainText 401 ''''), w)))"

lemma request_needs_token_and_capability_witness:
  "\<exists>app. gateway_app sample_access_host (ustr ''secret'') (Some sample_capability) sample_sdk = Inr app \<and>
     app sample_request False 0 = (Inr (Reply ()), 1)"
proof -
  define t where "t = ustr ''secret''"
  define sdk where "sdk = (sample_sdk :: _ \<Rightarrow> (nat, unit) http_app)"
  define app where "app = capability_middleware sample_access_host sample_capability (sdk (verify_token t))"
  have a: "gateway_app sample_access_host t (Some sample_capability) sdk = Inr app"
    by (simp add: gateway_app_def make_token_verifier_def streamable_http_app_def app_def t_def)
  have g: "bearer_guarded (verify_token t) (\<lambda>rq. rq_header rq ''Authorization'') (sdk (verify_token t))"
    by (auto simp: bearer_guarded_def sdk_def sample_sdk_def split: option.splits sum.splits)
  have "has_trusted_serve_context sample_access_host sample_capability sample_request" by code_simp
  moreover have "verifies_header sample_access_host sample_capability (header_text sample_request app_capabilities_header) = Inr True"
  proof -
    have "header_text sample_request app_capabilities_header = [123, 125]"
      by (simp add: header_text_def sample_request_def app_capabilities_header_def)
    moreover have "utf8_encode [123, 125] = Some (map mkb [123, 125])" by (rule utf8_encode_ascii) simp
    moreover have "py_strip (ustr ''tag:agent'') \<noteq> []" by (simp add: py_strip_def py_space_def)
    ultimately show ?thesis
      by (simp add: verifies_header_def max_app_capabilities_header_bytes_def sample_access_host_def sample_capability_def)
  qed
  moreover have "\<exists>x. verify_token t t = Inr (Some x)" by (simp add: verify_token_def compare_digest_def ascii_text_def t_def)
  moreover have "rq_header sample_request ''Authorization'' = Some t" by (simp add: sample_request_def t_def)
  ultimately have r: "app sample_request False 0 = (Inr (Reply ()), 1)"
    by (auto simp: app_def capability_middleware_def sdk_def sample_sdk_def)
  from request_needs_token_and_capability [OF a g r] a r show ?thesis unfolding t_def sdk_def by auto
qed

lemma merge_keeps_configuration_witness:
  "\<exists>new. merged_document (ustr ''pc.ts.net'') (JObj [(ustr ''theme'', JStr (ustr ''dark''))]) = Inr new \<and>
     config_value new (ustr ''theme'') = Some (JStr (ustr ''dark''))"
proof -
  let ?doc = "JObj [(ustr ''theme'', JStr (ustr ''dark''))]"
  obtain new where n: "merged_document (ustr ''pc.ts.net'') ?doc = Inr new" by (simp add: merged_document_def mcp_servers_key_def)
  have "config_value new (ustr ''theme'') = config_value ?doc (ustr ''theme'')"
    using merge_keeps_configuration [OF n] by (simp add: mcp_servers_key_def)
  then show ?thesis using n by (simp add: config_value_def)
qed

end
