(* ===== verification/Gateway_Main.thy ===== *)
theory Gateway_Main
  imports Configuration Gateway_Access Runtime_Binding
begin

text \<open>
  The start of the gateway process (\<open>gateway/main.py\<close>): where its token, lists, port, pipes and expected worker come from in
  its three ways to start, and the life of its HTTP server between the ready report and the stop. The web server is an
  argument. The lemmas show that no way to start leaves a check out, and that the process becomes ready, stops and
  ends in order.
\<close>

section \<open>Selecting the configuration\<close>

definition loopback_host :: pystr where "loopback_host = ustr ''127.0.0.1''"
definition default_port :: int where "default_port = 8765"

datatype gateway_start_error =
    GatewayEnvironmentError string
  | StartConfiguration config_error
  | StartAllowlist allowlist_error
  | StartCapability capability_policy_error
  | StartToken access_error
  | StartBinding binding_error

record start_host =
  sh_access :: access_host
  sh_config :: config_host
  sh_binding :: binding_host

definition start_environ :: "start_host \<Rightarrow> string \<Rightarrow> pystr option" where
  "start_environ host name = map_of (ch_environ (sh_config host)) (ustr name)"

definition required_environment :: "start_host \<Rightarrow> string \<Rightarrow> gateway_start_error + pystr" where
  "required_environment host variable =
     (case start_environ host variable of
        None \<Rightarrow> Inl (GatewayEnvironmentError variable)
      | Some v \<Rightarrow> if v = [] then Inl (GatewayEnvironmentError variable) else Inr v)"

definition load_app_capability_policy :: "start_host \<Rightarrow> gateway_start_error + app_capability_policy option" where
  "load_app_capability_policy host =
     (let serve_host = py_strip (case start_environ host ''HERMES_BRIDGE_TAILSCALE_SERVE_HOST'' of None \<Rightarrow> [] | Some v \<Rightarrow> v);
          capability = py_strip (case start_environ host ''HERMES_BRIDGE_TAILSCALE_APP_CAPABILITY'' of None \<Rightarrow> default_app_capability | Some v \<Rightarrow> v)
      in if serve_host = [] then Inr None
         else mapErr StartCapability (bindR (make_capability_policy (sh_access host) capability serve_host) (\<lambda>p. Inr (Some p))))"

definition configured_app_capability_policy ::
  "start_host \<Rightarrow> startup_settings \<Rightarrow> win_path \<Rightarrow> gateway_start_error + app_capability_policy option" where
  "configured_app_capability_policy host settings config_file =
     (let tailscale = bd_tailscale_settings (su_bridge settings);
          serve_hosts = filter (\<lambda>h. suffix (ustr ''.ts.net'') h) (sv_allowed_hosts (bd_server_settings (su_bridge settings)))
      in if \<not> tl_require_app_capability tailscale then Inr None
         else (case (serve_hosts, tl_app_capability tailscale) of
                 ([h], Some capability) \<Rightarrow>
                   mapErr StartCapability (bindR (make_capability_policy (sh_access host) capability h) (\<lambda>p. Inr (Some p)))
               | _ \<Rightarrow> Inl (StartConfiguration (InvalidConfigurationError config_file))))"

record gateway_setup =
  gs_port :: int
  gs_audit_root :: "win_path option"
  gs_token :: pystr
  gs_transport :: transport_policy
  gs_capability :: "app_capability_policy option"
  gs_worker_pipe :: "pystr option"
  gs_privileged_pipe :: "pystr option"
  gs_expected_worker_sid :: "pystr option"

text \<open>The part the two ways with a configuration file share; \<open>None\<close> for a pipe stands for its fixed name.\<close>

definition setup_from_settings :: "start_host \<Rightarrow> win_path \<Rightarrow> startup_settings \<Rightarrow> pystr option \<Rightarrow> gateway_start_error + gateway_setup" where
  "setup_from_settings host config_file settings expected =
     (let server = bd_server_settings (su_bridge settings) in
      bindR (mapErr StartAllowlist (make_transport_policy (sv_allowed_hosts server) (sv_allowed_origins server))) (\<lambda>policy.
      bindR (configured_app_capability_policy host settings config_file) (\<lambda>capability.
        Inr \<lparr>gs_port = sv_port server, gs_audit_root = Some (gateway_logs (bd_paths (su_bridge settings))),
             gs_token = su_bearer_token settings, gs_transport = policy, gs_capability = capability,
             gs_worker_pipe = Some (ip_worker_pipe (bd_ipc_settings (su_bridge settings))),
             gs_privileged_pipe = Some (ip_privileged_pipe (bd_ipc_settings (su_bridge settings))),
             gs_expected_worker_sid = expected\<rparr>)))"

definition setup_from_environment :: "start_host \<Rightarrow> gateway_start_error + gateway_setup" where
  "setup_from_environment host =
     bindR (required_environment host ''HERMES_BRIDGE_TOKEN'') (\<lambda>token.
     bindR (required_environment host ''HERMES_BRIDGE_ALLOWED_HOSTS'') (\<lambda>hosts.
     bindR (required_environment host ''HERMES_BRIDGE_ALLOWED_ORIGINS'') (\<lambda>origins.
     bindR (mapErr StartAllowlist (transport_policy_from_csv hosts origins)) (\<lambda>policy.
     bindR (load_app_capability_policy host) (\<lambda>capability.
       Inr \<lparr>gs_port = default_port, gs_audit_root = None, gs_token = token, gs_transport = policy, gs_capability = capability,
            gs_worker_pipe = None, gs_privileged_pipe = None, gs_expected_worker_sid = None\<rparr>)))))"

definition installed_config_file :: "start_host \<Rightarrow> gateway_start_error + win_path" where
  "installed_config_file host =
     bindR (required_environment host ''ProgramData'') (\<lambda>d.
       Inr (child (child (ph_path (ch_paths (sh_config host)) d) runtime_directory) (ustr ''config.yaml'')))"

text \<open>The whole start: the configuration, the server with its token, and then the worker to expect.\<close>

definition run_gateway_setup :: "start_host \<Rightarrow> bool \<Rightarrow> runtime_binding option \<Rightarrow> gateway_start_error + gateway_setup" where
  "run_gateway_setup host from_environment binding =
     bindR (case binding of
              Some b \<Rightarrow>
                if rb_profile b \<noteq> GatewayProfile then Inl (GatewayEnvironmentError ''runtime_binding_profile'')
                else bindR (mapErr StartConfiguration (load_startup_settings (sh_config host) (rb_config_path b) (Some []))) (\<lambda>settings.
                       setup_from_settings host (rb_config_path b) settings (Some (rb_worker_sid b)))
            | None \<Rightarrow>
                if from_environment then setup_from_environment host
                else bindR (installed_config_file host) (\<lambda>config_file.
                       bindR (mapErr StartConfiguration (load_startup_settings (sh_config host) config_file None)) (\<lambda>settings.
                         setup_from_settings host config_file settings None))) (\<lambda>setup.
     bindR (mapErr StartToken (make_token_verifier (gs_token setup))) (\<lambda>_.
       if binding = None \<and> \<not> from_environment
       then bindR (mapErr StartBinding (load_installed_worker_sid (sh_binding host))) (\<lambda>sid.
              Inr (setup\<lparr>gs_expected_worker_sid := Some sid\<rparr>))
       else Inr setup))"

lemma setup_from_settings_Inr:
  assumes "setup_from_settings host f s expected = Inr g"
  shows "make_transport_policy (sv_allowed_hosts (bd_server_settings (su_bridge s))) (sv_allowed_origins (bd_server_settings (su_bridge s))) = Inr (gs_transport g) \<and>
    configured_app_capability_policy host s f = Inr (gs_capability g) \<and> gs_token g = su_bearer_token s \<and>
    gs_port g = sv_port (bd_server_settings (su_bridge s)) \<and> gs_expected_worker_sid g = expected"
  using assms by (auto simp: setup_from_settings_def Let_def bindR_eq_Inr mapErr_def split: sum.splits)

text \<open>The configuration that a way to start reads, if it reads one.\<close>

definition start_settings :: "start_host \<Rightarrow> runtime_binding option \<Rightarrow> gateway_start_error + win_path \<times> startup_settings" where
  "start_settings host binding =
     (case binding of
        Some b \<Rightarrow> bindR (mapErr StartConfiguration (load_startup_settings (sh_config host) (rb_config_path b) (Some []))) (\<lambda>s. Inr (rb_config_path b, s))
      | None \<Rightarrow> bindR (installed_config_file host) (\<lambda>f.
                  bindR (mapErr StartConfiguration (load_startup_settings (sh_config host) f None)) (\<lambda>s. Inr (f, s))))"

lemma mapErr_Inr [simp]: "mapErr h x = Inr y \<longleftrightarrow> x = Inr y"
  by (cases x) auto

lemma run_gateway_setup_file:
  assumes "run_gateway_setup host env binding = Inr g" "binding \<noteq> None \<or> \<not> env"
  shows "\<exists>f s expected h. start_settings host binding = Inr (f, s) \<and> setup_from_settings host f s expected = Inr h \<and>
    gs_token g = gs_token h \<and> gs_port g = gs_port h \<and> gs_transport g = gs_transport h \<and> gs_capability g = gs_capability h \<and>
    (\<exists>sid. gs_expected_worker_sid g = Some sid \<and>
      (case binding of Some b \<Rightarrow> sid = rb_worker_sid b | None \<Rightarrow> load_installed_worker_sid (sh_binding host) = Inr sid))"
proof (cases binding)
  case None
  then have "\<not> env" using assms(2) by simp
  then obtain f where f: "installed_config_file host = Inr f"
    using assms(1) None by (cases "installed_config_file host") (simp_all add: run_gateway_setup_def)
  obtain s where s: "load_startup_settings (sh_config host) f None = Inr s"
    using assms(1) None f \<open>\<not> env\<close> by (cases "load_startup_settings (sh_config host) f None") (simp_all add: run_gateway_setup_def)
  obtain h where h: "setup_from_settings host f s None = Inr h"
    using assms(1) None f s \<open>\<not> env\<close> by (cases "setup_from_settings host f s None") (simp_all add: run_gateway_setup_def)
  obtain sid where sid: "load_installed_worker_sid (sh_binding host) = Inr sid" "g = h\<lparr>gs_expected_worker_sid := Some sid\<rparr>"
    using assms(1) None f s h \<open>\<not> env\<close>
    by (cases "load_installed_worker_sid (sh_binding host)") (auto simp: run_gateway_setup_def bindR_eq_Inr)
  have "start_settings host binding = Inr (f, s)" using None f s by (simp add: start_settings_def)
  then show ?thesis using h sid None by (intro exI [of _ f] exI [of _ s] exI [of _ None] exI [of _ h]) simp
next
  case (Some b)
  then have "rb_profile b = GatewayProfile" using assms(1) by (auto simp: run_gateway_setup_def split: if_splits)
  then obtain s where s: "load_startup_settings (sh_config host) (rb_config_path b) (Some []) = Inr s"
    using assms(1) Some by (cases "load_startup_settings (sh_config host) (rb_config_path b) (Some [])") (simp_all add: run_gateway_setup_def)
  then have h: "setup_from_settings host (rb_config_path b) s (Some (rb_worker_sid b)) = Inr g"
    using assms(1) Some \<open>rb_profile b = GatewayProfile\<close> by (auto simp: run_gateway_setup_def bindR_eq_Inr)
  have "start_settings host binding = Inr (rb_config_path b, s)" using Some s by (simp add: start_settings_def)
  moreover have "gs_expected_worker_sid g = Some (rb_worker_sid b)" using setup_from_settings_Inr [OF h] by simp
  ultimately show ?thesis using h Some by (intro exI [of _ "rb_config_path b"] exI [of _ s] exI [of _ "Some (rb_worker_sid b)"] exI [of _ g]) simp
qed

text \<open>
  No way to start the gateway leaves a check out. A started gateway has a token, and lists of exact hosts and origins that
  are not empty; unless it takes its values from the environment, it expects the worker of the binding or of the protected
  installation, its port is a valid one, and it asks for the capability exactly if its configuration does.
\<close>

theorem started_gateway_is_guarded:
  assumes "run_gateway_setup host env binding = Inr g"
  shows "gs_token g \<noteq> [] \<and> tp_allowed_hosts (gs_transport g) \<noteq> [] \<and> tp_allowed_origins (gs_transport g) \<noteq> [] \<and>
    (\<forall>e \<in> set (tp_allowed_hosts (gs_transport g)) \<union> set (tp_allowed_origins (gs_transport g)). py_strip e \<noteq> [] \<and> 42 \<notin> set e) \<and>
    (binding \<noteq> None \<or> \<not> env \<longrightarrow>
      (\<exists>f s sid. start_settings host binding = Inr (f, s) \<and> gs_token g = su_bearer_token s \<and>
        gs_port g = sv_port (bd_server_settings (su_bridge s)) \<and>
        (gs_capability g = None) = (\<not> tl_require_app_capability (bd_tailscale_settings (su_bridge s))) \<and>
        gs_expected_worker_sid g = Some sid \<and>
        (case binding of Some b \<Rightarrow> sid = rb_worker_sid b | None \<Rightarrow> load_installed_worker_sid (sh_binding host) = Inr sid)))"
proof -
  have token: "gs_token g \<noteq> []"
    using assms by (auto simp: run_gateway_setup_def bindR_eq_Inr make_token_verifier_def split: if_splits)
  show ?thesis
  proof (cases "binding \<noteq> None \<or> \<not> env")
    case True
    obtain f s expected h where s: "start_settings host binding = Inr (f, s)" "setup_from_settings host f s expected = Inr h"
      and g: "gs_token g = gs_token h" "gs_port g = gs_port h" "gs_transport g = gs_transport h" "gs_capability g = gs_capability h"
      and sid: "\<exists>sid. gs_expected_worker_sid g = Some sid \<and>
        (case binding of Some b \<Rightarrow> sid = rb_worker_sid b | None \<Rightarrow> load_installed_worker_sid (sh_binding host) = Inr sid)"
      using run_gateway_setup_file [OF assms True] by blast
    note i = setup_from_settings_Inr [OF s(2)]
    have c: "(gs_capability h = None) = (\<not> tl_require_app_capability (bd_tailscale_settings (su_bridge s)))"
      using i by (cases "gs_capability h") (auto simp: configured_app_capability_policy_def Let_def bindR_eq_Inr split: if_splits list.splits option.splits)
    have t: "tp_allowed_hosts (gs_transport g) \<noteq> [] \<and> tp_allowed_origins (gs_transport g) \<noteq> [] \<and>
        (\<forall>e \<in> set (tp_allowed_hosts (gs_transport g)) \<union> set (tp_allowed_origins (gs_transport g)). py_strip e \<noteq> [] \<and> 42 \<notin> set e)"
      using make_transport_policy_safe [OF i [THEN conjunct1]] g by simp
    have "gs_token h = su_bearer_token s" "gs_port h = sv_port (bd_server_settings (su_bridge s))" using i by simp_all
    then show ?thesis using token t s(1) c g sid by metis
  next
    case False
    then have "\<exists>hosts origins. transport_policy_from_csv hosts origins = Inr (gs_transport g)"
      using assms by (auto simp: run_gateway_setup_def setup_from_environment_def bindR_eq_Inr) blast
    then show ?thesis using token False make_transport_policy_safe unfolding transport_policy_from_csv_def by metis
  qed
qed

text \<open>The defaults of the configuration do not start the gateway: its list of origins is empty.\<close>

lemma default_origins_do_not_start:
  assumes "sv_allowed_origins (bd_server_settings (su_bridge s)) = []"
  shows "\<exists>e. setup_from_settings host f s expected = Inl (StartAllowlist e)"
  using assms
  by (auto simp: setup_from_settings_def make_transport_policy_def reject_empty_or_wildcard_entries_def bindR_def Let_def split: sum.splits)

lemma default_settings_have_no_origins:
  "map_option (\<lambda>s. (sv_allowed_origins s, sv_allowed_hosts s)) (parse_server_settings []) = Some ([], [loopback_host, ustr ''localhost''])"
  by code_simp

section \<open>The life of the server\<close>

text \<open>
  The server of the library starts and finishes by itself; the process waits for its start, reports itself ready, waits for
  the stop of its parent or the end of the server, and then for the end.
\<close>

datatype serve_phase = AwaitsStart | AwaitsStop | AwaitsFinish | ServeEnded

record serve_state =
  se_started :: bool
  se_finished :: bool
  se_stop_requested :: bool
  se_should_exit :: bool
  se_ready :: bool
  se_phase :: serve_phase

definition serve_init :: serve_state where
  "serve_init = \<lparr>se_started = False, se_finished = False, se_stop_requested = False, se_should_exit = False, se_ready = False,
                 se_phase = AwaitsStart\<rparr>"

definition after_start :: "bool \<Rightarrow> serve_state \<Rightarrow> serve_state option" where
  "after_start has_stop s =
     (if se_phase s = AwaitsStart \<and> (se_started s \<or> se_finished s)
      then Some (s\<lparr>se_ready := se_started s, se_phase := (if has_stop then AwaitsStop else AwaitsFinish)\<rparr>) else None)"

definition after_stop :: "serve_state \<Rightarrow> serve_state option" where
  "after_stop s =
     (if se_phase s = AwaitsStop \<and> (se_stop_requested s \<or> se_finished s)
      then Some (s\<lparr>se_should_exit := se_stop_requested s, se_phase := AwaitsFinish\<rparr>) else None)"

definition after_finish :: "serve_state \<Rightarrow> serve_state option" where
  "after_finish s = (if se_phase s = AwaitsFinish \<and> se_finished s then Some (s\<lparr>se_phase := ServeEnded\<rparr>) else None)"

inductive serve_run :: "bool \<Rightarrow> serve_state \<Rightarrow> bool" for has_stop where
  init: "serve_run has_stop serve_init"
| server_starts: "serve_run has_stop s \<Longrightarrow> \<not> se_finished s \<Longrightarrow> serve_run has_stop (s\<lparr>se_started := True\<rparr>)"
| server_finishes: "serve_run has_stop s \<Longrightarrow> serve_run has_stop (s\<lparr>se_finished := True\<rparr>)"
| parent_stops: "serve_run has_stop s \<Longrightarrow> has_stop \<Longrightarrow> serve_run has_stop (s\<lparr>se_stop_requested := True\<rparr>)"
| started: "serve_run has_stop s \<Longrightarrow> after_start has_stop s = Some s' \<Longrightarrow> serve_run has_stop s'"
| stopped: "serve_run has_stop s \<Longrightarrow> after_stop s = Some s' \<Longrightarrow> serve_run has_stop s'"
| ended: "serve_run has_stop s \<Longrightarrow> after_finish s = Some s' \<Longrightarrow> serve_run has_stop s'"

lemma serve_run_inv:
  "serve_run has_stop s \<Longrightarrow>
     (se_ready s \<longrightarrow> se_started s) \<and> (se_should_exit s \<longrightarrow> se_stop_requested s) \<and> (se_phase s = AwaitsStart \<longrightarrow> \<not> se_ready s) \<and>
     (se_phase s = ServeEnded \<longrightarrow> se_finished s) \<and>
     (se_phase s = AwaitsFinish \<and> has_stop \<and> \<not> se_finished s \<longrightarrow> se_should_exit s) \<and> (se_phase s = AwaitsStop \<longrightarrow> has_stop)"
  by (induction rule: serve_run.induct)
    (auto simp: serve_init_def after_start_def after_stop_def after_finish_def split: if_splits)

text \<open>
  The server's life is in order. The process reports itself ready only once the listener has started, tells the server to exit
  only because the parent asked for it, and ends only after the server; and it never waits for anything but the start, the
  parent or the server, which it has told to exit if it was asked to.
\<close>

theorem server_ends_in_order:
  assumes "serve_run has_stop s"
  shows "(se_ready s \<longrightarrow> se_started s) \<and> (se_should_exit s \<longrightarrow> se_stop_requested s) \<and> (se_phase s = ServeEnded \<longrightarrow> se_finished s) \<and>
    (se_phase s \<noteq> ServeEnded \<longrightarrow>
      after_start has_stop s \<noteq> None \<or> after_stop s \<noteq> None \<or> after_finish s \<noteq> None \<or>
      (se_phase s = AwaitsStart \<and> \<not> se_started s \<and> \<not> se_finished s) \<or>
      (se_phase s = AwaitsStop \<and> \<not> se_stop_requested s \<and> \<not> se_finished s) \<or>
      (se_phase s = AwaitsFinish \<and> \<not> se_finished s \<and> (has_stop \<longrightarrow> se_should_exit s)))"
proof -
  note i = serve_run_inv [OF assms]
  then show ?thesis by (cases "se_phase s") (auto simp: after_start_def after_stop_def after_finish_def)
qed

section \<open>A concrete start\<close>

definition sample_start_host :: start_host where
  "sample_start_host = \<lparr>sh_access = sample_access_host,
     sh_config = (sample_config_host [])\<lparr>ch_environ := [(ustr ''HERMES_BRIDGE_TOKEN'', ustr ''t''), (ustr ''HERMES_BRIDGE_ALLOWED_HOSTS'', ustr ''a,b''),
                                                      (ustr ''HERMES_BRIDGE_ALLOWED_ORIGINS'', ustr ''c'')]\<rparr>,
     sh_binding = sample_binding_host []\<rparr>"

lemma started_gateway_is_guarded_witness:
  "\<exists>g. run_gateway_setup sample_start_host True None = Inr g \<and> gs_token g \<noteq> []"
proof -
  have v: "csv_values (ustr ''a,b'') = [ustr ''a'', ustr ''b'']" "csv_values (ustr ''c'') = [ustr ''c'']"
    by (simp_all add: csv_values_def py_strip_def py_space_def)
  have e: "start_environ sample_start_host ''HERMES_BRIDGE_TOKEN'' = Some (ustr ''t'')"
    "start_environ sample_start_host ''HERMES_BRIDGE_ALLOWED_HOSTS'' = Some (ustr ''a,b'')"
    "start_environ sample_start_host ''HERMES_BRIDGE_ALLOWED_ORIGINS'' = Some (ustr ''c'')"
    "start_environ sample_start_host ''HERMES_BRIDGE_TAILSCALE_SERVE_HOST'' = None"
    by (simp_all add: start_environ_def sample_start_host_def)
  have n: "ustr ''t'' \<noteq> []" "ustr ''a,b'' \<noteq> []" "ustr ''c'' \<noteq> []" by simp_all
  have "\<exists>p. make_transport_policy [ustr ''a'', ustr ''b''] [ustr ''c''] = Inr p"
    by (simp add: make_transport_policy_def reject_empty_or_wildcard_entries_def py_strip_def py_space_def)
  then obtain g where g: "run_gateway_setup sample_start_host True None = Inr g"
    by (auto simp: run_gateway_setup_def setup_from_environment_def required_environment_def e transport_policy_from_csv_def v
        load_app_capability_policy_def py_strip_def make_token_verifier_def n simp del: ustr_simps)
  with started_gateway_is_guarded [OF g] show ?thesis by blast
qed

lemma server_ends_in_order_witness: "\<exists>s. serve_run True s \<and> se_ready s \<and> se_started s"
proof -
  let ?s = "serve_init\<lparr>se_started := True\<rparr>"
  have "serve_run True ?s" by (rule serve_run.server_starts [OF serve_run.init]) (simp add: serve_init_def)
  then have r: "serve_run True (?s\<lparr>se_ready := True, se_phase := AwaitsStop\<rparr>)"
    by (rule serve_run.started) (simp add: after_start_def serve_init_def)
  have "se_ready (?s\<lparr>se_ready := True, se_phase := AwaitsStop\<rparr>)" by simp
  with server_ends_in_order [OF r] r show ?thesis by blast
qed

end
