(* ===== verification/Status_Tool.thy ===== *)
theory Status_Tool
  imports Gateway_Access
begin

text \<open>
  The status tool (\<open>tools/status.py\<close>, \<open>tools/tailscale_probe.py\<close> and the result models of \<open>models/tool_results.py\<close>): its sensors
  with their time limits, the strict reading of the worker's answer, and the assembled result. The probes of the operating
  system, the dispatcher's answer and the registries are arguments. The lemmas show that a failing sensor costs its
  own fields and one warning, and nothing else, and that nothing is reported as online or verified without evidence.
\<close>

section \<open>Results\<close>

datatype status_sensor = SystemSensor | TailscaleSensor | WorkerSensor | ResourceSensor

datatype warning_code = SensorFailed | SensorTimeout | WorkerUnavailable | InvalidWorkerResponse

type_synonym status_warning = "status_sensor \<times> warning_code"

record tailscale_status =
  ts_connected :: bool
  ts_ip :: "pystr option"
  ts_app_capability_verified :: bool

definition disconnected_tailscale :: "bool \<Rightarrow> tailscale_status" where
  "disconnected_tailscale verified = \<lparr>ts_connected = False, ts_ip = None, ts_app_capability_verified = verified\<rparr>"

record interactive_worker_status =
  iw_online :: bool
  iw_username :: "pystr option"
  iw_session_id :: "int option"
  iw_desktop_unlocked :: "bool option"
  iw_remote_input_enabled :: "bool option"

definition offline_worker :: interactive_worker_status where
  "offline_worker = \<lparr>iw_online = False, iw_username = None, iw_session_id = None, iw_desktop_unlocked = None, iw_remote_input_enabled = None\<rparr>"

record active_window_status =
  aw_title :: "pystr option"
  aw_process :: "pystr option"

definition unavailable_window :: active_window_status where
  "unavailable_window = \<lparr>aw_title = None, aw_process = None\<rparr>"

record 'q resource_status =
  rs_cpu_percent :: "'q option"
  rs_ram_used_gb :: "'q option"
  rs_ram_total_gb :: "'q option"
  rs_disk_free_gb :: "'q option"

definition unavailable_resources :: "'q resource_status" where
  "unavailable_resources = \<lparr>rs_cpu_percent = None, rs_ram_used_gb = None, rs_ram_total_gb = None, rs_disk_free_gb = None\<rparr>"

datatype public_acl_state = AclVerified | AclMismatch | AclUnverified | AclOffline

definition parse_pipe_acl_state :: "pystr \<Rightarrow> public_acl_state" where
  "parse_pipe_acl_state s =
     (if s = ustr ''verified'' then AclVerified
      else if s = ustr ''mismatch'' then AclMismatch
      else if s = ustr ''unverified'' then AclUnverified
      else if s = ustr ''offline'' then AclOffline else AclUnverified)"

record status_system_info =
  si_hostname :: pystr
  si_windows_version :: pystr

record 'q status_result =
  sr_hostname :: "pystr option"
  sr_gateway_uptime :: int
  sr_windows_version :: "pystr option"
  sr_tailscale :: tailscale_status
  sr_interactive_worker :: interactive_worker_status
  sr_privileged_online :: bool
  sr_resources :: "'q resource_status"
  sr_active_window :: active_window_status
  sr_worker_acl :: public_acl_state
  sr_privileged_acl :: public_acl_state
  sr_warnings :: "status_warning list"

section \<open>The worker's answer\<close>

record connection_snapshot =
  cn_connected :: bool
  cn_ip :: "pystr option"

record worker_payload =
  wp_username :: pystr
  wp_session_id :: int
  wp_desktop_unlocked :: bool
  wp_remote_input_enabled :: bool
  wp_active_window :: active_window_status
  wp_tailscale :: "connection_snapshot option"

definition only_keys :: "string list \<Rightarrow> (pystr \<times> json) list \<Rightarrow> bool" where
  "only_keys names kvs \<longleftrightarrow> list_all (\<lambda>kv. fst kv \<in> ustr ` set names) kvs"

definition key_value :: "(pystr \<times> json) list \<Rightarrow> string \<Rightarrow> json option" where
  "key_value kvs name = map_of kvs (ustr name)"

fun bounded_text :: "nat \<Rightarrow> nat \<Rightarrow> json \<Rightarrow> pystr option" where
  "bounded_text lo hi (JStr t) = (if lo \<le> length t \<and> length t \<le> hi then Some t else None)"
| "bounded_text lo hi _ = None"

fun nullable_text :: "nat \<Rightarrow> nat \<Rightarrow> json \<Rightarrow> pystr option option" where
  "nullable_text lo hi JNull = Some None"
| "nullable_text lo hi v = map_option Some (bounded_text lo hi v)"

fun strict_bool :: "json \<Rightarrow> bool option" where
  "strict_bool (JBool b) = Some b"
| "strict_bool _ = None"

fun natural :: "json \<Rightarrow> int option" where
  "natural (JInt n) = (if 0 \<le> n then Some n else None)"
| "natural _ = None"

fun parse_window :: "json \<Rightarrow> active_window_status option" where
  "parse_window (JObj kvs) =
     (if \<not> only_keys [''title'', ''process''] kvs then None
      else (case (Option.bind (key_value kvs ''title'') (nullable_text 0 512), Option.bind (key_value kvs ''process'') (nullable_text 0 260)) of
              (Some t, Some p) \<Rightarrow> Some \<lparr>aw_title = t, aw_process = p\<rparr>
            | _ \<Rightarrow> None))"
| "parse_window _ = None"

definition require_ip_address :: "pystr option \<Rightarrow> pystr option option" where
  "require_ip_address ip = (case ip of None \<Rightarrow> Some None | Some v \<Rightarrow> if ip_address v = None then None else Some (Some v))"

fun parse_snapshot :: "json \<Rightarrow> connection_snapshot option" where
  "parse_snapshot (JObj kvs) =
     (if \<not> only_keys [''connected'', ''ip''] kvs then None
      else (case (Option.bind (key_value kvs ''connected'') strict_bool,
                  Option.bind (Option.bind (key_value kvs ''ip'') (nullable_text 2 45)) require_ip_address) of
              (Some c, Some i) \<Rightarrow> Some \<lparr>cn_connected = c, cn_ip = i\<rparr>
            | _ \<Rightarrow> None))"
| "parse_snapshot _ = None"

fun parse_optional_snapshot :: "json option \<Rightarrow> connection_snapshot option option" where
  "parse_optional_snapshot None = Some None"
| "parse_optional_snapshot (Some JNull) = Some None"
| "parse_optional_snapshot (Some v) = map_option Some (parse_snapshot v)"

fun parse_worker_payload :: "json \<Rightarrow> worker_payload option" where
  "parse_worker_payload (JObj kvs) =
     (if \<not> only_keys [''username'', ''session_id'', ''desktop_unlocked'', ''remote_input_enabled'', ''active_window'', ''tailscale''] kvs then None
      else Option.bind (Option.bind (key_value kvs ''username'') (bounded_text 1 256)) (\<lambda>user.
           Option.bind (Option.bind (key_value kvs ''session_id'') natural) (\<lambda>session.
           Option.bind (Option.bind (key_value kvs ''desktop_unlocked'') strict_bool) (\<lambda>unlocked.
           Option.bind (Option.bind (key_value kvs ''remote_input_enabled'') strict_bool) (\<lambda>enabled.
           Option.bind (Option.bind (key_value kvs ''active_window'') parse_window) (\<lambda>window.
           Option.bind (parse_optional_snapshot (key_value kvs ''tailscale'')) (\<lambda>snapshot.
             Some \<lparr>wp_username = user, wp_session_id = session, wp_desktop_unlocked = unlocked, wp_remote_input_enabled = enabled,
                   wp_active_window = window, wp_tailscale = snapshot\<rparr>)))))))"
| "parse_worker_payload _ = None"

section \<open>Sensors\<close>

text \<open>
  What a probe does within its time limit: it gives a value, runs out of time, raises one of the exceptions that the collector
  expects, or raises another one.
\<close>

datatype 'a probe = ProbeValue 'a | ProbeTimeout | ProbeFails | ProbeEscapes

datatype 'a sensor_result = SensorSuccess 'a | Warned status_warning

fun bounded :: "status_sensor \<Rightarrow> 'a probe \<Rightarrow> 'a sensor_result option" where
  "bounded sensor (ProbeValue v) = Some (SensorSuccess v)"
| "bounded sensor ProbeTimeout = Some (Warned (sensor, SensorTimeout))"
| "bounded sensor ProbeFails = Some (Warned (sensor, SensorFailed))"
| "bounded sensor ProbeEscapes = None"

datatype content_item = TextItem pystr | OtherItem

text \<open>The dispatched status call; the answer is an error flag and the items of its content.\<close>

type_synonym worker_value = "interactive_worker_status \<times> active_window_status \<times> connection_snapshot option"

definition worker_sensor :: "(pystr \<Rightarrow> json option) \<Rightarrow> (bool \<times> content_item list) probe \<Rightarrow> worker_value sensor_result option" where
  "worker_sensor parse outcome =
     (case bounded WorkerSensor outcome of
        None \<Rightarrow> None
      | Some (Warned w) \<Rightarrow> Some (Warned w)
      | Some (SensorSuccess (is_error, content)) \<Rightarrow>
          if is_error then Some (Warned (WorkerSensor, WorkerUnavailable))
          else (case content of
                  [TextItem t] \<Rightarrow>
                    (case Option.bind (parse t) parse_worker_payload of
                       None \<Rightarrow> Some (Warned (WorkerSensor, InvalidWorkerResponse))
                     | Some p \<Rightarrow>
                         Some (SensorSuccess
                           (\<lparr>iw_online = True, iw_username = Some (wp_username p), iw_session_id = Some (wp_session_id p),
                             iw_desktop_unlocked = Some (wp_desktop_unlocked p), iw_remote_input_enabled = Some (wp_remote_input_enabled p)\<rparr>,
                            wp_active_window p, wp_tailscale p)))
                | _ \<Rightarrow> Some (Warned (WorkerSensor, InvalidWorkerResponse))))"

definition worker_timeout_ms :: "int \<Rightarrow> int" where
  "worker_timeout_ms sensor_timeout_ms = min 350 (max 1 sensor_timeout_ms)"

text \<open>The call fits the limits of a request: at least one millisecond and at most 350.\<close>

lemma worker_timeout_range: "1 \<le> worker_timeout_ms t \<and> worker_timeout_ms t \<le> 350"
  by (simp add: worker_timeout_ms_def)

definition tailscale_value ::
  "worker_value sensor_result \<Rightarrow> tailscale_status sensor_result option \<Rightarrow> bool \<Rightarrow> tailscale_status" where
  "tailscale_value worker legacy verified =
     (case legacy of
        Some (SensorSuccess t) \<Rightarrow> t\<lparr>ts_app_capability_verified := verified\<rparr>
      | _ \<Rightarrow>
          (case worker of
             SensorSuccess (_, _, Some s) \<Rightarrow>
               \<lparr>ts_connected = cn_connected s, ts_ip = cn_ip s, ts_app_capability_verified = verified\<rparr>
           | _ \<Rightarrow> disconnected_tailscale verified))"

section \<open>The collector\<close>

text \<open>
  What the collector finds: its probes, the context variable, the times, and whether the registries answer. A registry
  that raises one of the expected exceptions gives \<open>ProbeFails\<close>; there may be no worker registry and no probe of its own
  for Tailscale.
\<close>

record 'q status_world =
  sw_system :: "status_system_info probe"
  sw_tailscale :: "tailscale_status probe option"
  sw_resources :: "'q resource_status probe"
  sw_worker :: "(bool \<times> content_item list) probe"
  sw_capability_verified :: bool
  sw_now :: int
  sw_started_at :: int
  sw_helper_current :: "unit probe"
  sw_worker_acl :: "pystr probe option"
  sw_helper_acl :: "pystr probe"

definition warnings_of :: "'a sensor_result \<Rightarrow> status_warning list" where
  "warnings_of r = (case r of Warned w \<Rightarrow> [w] | SensorSuccess _ \<Rightarrow> [])"

definition acl_of :: "pystr probe \<Rightarrow> public_acl_state option" where
  "acl_of p = (case p of ProbeValue s \<Rightarrow> Some (parse_pipe_acl_state s) | ProbeEscapes \<Rightarrow> None | _ \<Rightarrow> Some AclUnverified)"

definition assemble ::
  "'q status_world \<Rightarrow> status_system_info sensor_result \<Rightarrow> tailscale_status sensor_result option \<Rightarrow> 'q resource_status sensor_result \<Rightarrow>
   worker_value sensor_result \<Rightarrow> bool \<Rightarrow> public_acl_state \<Rightarrow> public_acl_state \<Rightarrow> 'q status_result" where
  "assemble w sys tail res wrk helper wacl hacl =
     \<lparr>sr_hostname = (case sys of SensorSuccess i \<Rightarrow> Some (si_hostname i) | Warned _ \<Rightarrow> None),
      sr_gateway_uptime = max 0 (sw_now w - sw_started_at w),
      sr_windows_version = (case sys of SensorSuccess i \<Rightarrow> Some (si_windows_version i) | Warned _ \<Rightarrow> None),
      sr_tailscale = tailscale_value wrk tail (sw_capability_verified w),
      sr_interactive_worker = (case wrk of SensorSuccess v \<Rightarrow> fst v | Warned _ \<Rightarrow> offline_worker),
      sr_privileged_online = helper,
      sr_resources = (case res of SensorSuccess r \<Rightarrow> r | Warned _ \<Rightarrow> unavailable_resources),
      sr_active_window = (case wrk of SensorSuccess v \<Rightarrow> fst (snd v) | Warned _ \<Rightarrow> unavailable_window),
      sr_worker_acl = wacl, sr_privileged_acl = hacl,
      sr_warnings = warnings_of sys @ (case tail of None \<Rightarrow> [] | Some t \<Rightarrow> warnings_of t) @ warnings_of res @ warnings_of wrk @
        (if tail = None \<and> (case wrk of SensorSuccess (_, _, None) \<Rightarrow> True | _ \<Rightarrow> False) then [(TailscaleSensor, SensorFailed)] else [])\<rparr>"

definition collect :: "(pystr \<Rightarrow> json option) \<Rightarrow> 'q status_world \<Rightarrow> 'q status_result option" where
  "collect parse w =
     Option.bind (bounded SystemSensor (sw_system w)) (\<lambda>sys.
     Option.bind (case sw_tailscale w of None \<Rightarrow> Some None | Some p \<Rightarrow> map_option Some (bounded TailscaleSensor p)) (\<lambda>tail.
     Option.bind (bounded ResourceSensor (sw_resources w)) (\<lambda>res.
     Option.bind (worker_sensor parse (sw_worker w)) (\<lambda>wrk.
     Option.bind (case sw_helper_current w of ProbeValue _ \<Rightarrow> Some True | ProbeEscapes \<Rightarrow> None | _ \<Rightarrow> Some False) (\<lambda>helper.
     Option.bind (case sw_worker_acl w of None \<Rightarrow> Some AclUnverified | Some p \<Rightarrow> acl_of p) (\<lambda>wacl.
     Option.bind (acl_of (sw_helper_acl w)) (\<lambda>hacl.
       Some (assemble w sys tail res wrk helper wacl hacl))))))))"

section \<open>What a status shows\<close>

definition escapes :: "'a probe \<Rightarrow> bool" where
  "escapes p \<longleftrightarrow> (case p of ProbeEscapes \<Rightarrow> True | _ \<Rightarrow> False)"

lemma bounded_Some: "bounded s p = Some r \<longleftrightarrow>
    (\<exists>v. p = ProbeValue v \<and> r = SensorSuccess v) \<or> (p = ProbeTimeout \<and> r = Warned (s, SensorTimeout)) \<or> (p = ProbeFails \<and> r = Warned (s, SensorFailed))"
  by (cases p) auto

lemma bounded_None: "bounded s p = None \<longleftrightarrow> escapes p"
  by (cases p) (simp_all add: escapes_def)

lemma worker_sensor_None: "worker_sensor parse p = None \<longleftrightarrow> escapes p"
  by (cases p) (auto simp: worker_sensor_def escapes_def split: option.splits list.splits content_item.splits)

lemma worker_sensor_online:
  assumes "worker_sensor parse p = Some (SensorSuccess (iw, window, snap))"
  shows "iw_online iw \<and> (\<exists>t j payload. p = ProbeValue (False, [TextItem t]) \<and> parse t = Some j \<and> parse_worker_payload j = Some payload \<and>
    iw_session_id iw = Some (wp_session_id payload) \<and> window = wp_active_window payload \<and> snap = wp_tailscale payload)"
  using assms
  by (cases p) (auto simp: worker_sensor_def bind_eq_Some_conv split: option.splits list.splits content_item.splits if_splits)

lemma collect_None:
  "collect parse w = None \<longleftrightarrow> escapes (sw_system w) \<or> (\<exists>p. sw_tailscale w = Some p \<and> escapes p) \<or> escapes (sw_resources w) \<or>
     escapes (sw_worker w) \<or> escapes (sw_helper_current w) \<or> (\<exists>p. sw_worker_acl w = Some p \<and> escapes p) \<or> escapes (sw_helper_acl w)"
proof -
  have acl: "acl_of p = None \<longleftrightarrow> escapes p" for p by (cases p) (simp_all add: acl_of_def escapes_def)
  have cur: "(case p of ProbeValue _ \<Rightarrow> Some True | ProbeEscapes \<Rightarrow> None | _ \<Rightarrow> Some False) = None \<longleftrightarrow> escapes p" for p :: "unit probe"
    by (cases p) (simp_all add: escapes_def)
  have tl: "(case q of None \<Rightarrow> Some None | Some p \<Rightarrow> map_option Some (bounded TailscaleSensor p)) = None \<longleftrightarrow> (\<exists>p. q = Some p \<and> escapes p)"
    for q :: "tailscale_status probe option"
    by (cases q) (simp_all add: bounded_None)
  have wa: "(case q of None \<Rightarrow> Some AclUnverified | Some p \<Rightarrow> acl_of p) = None \<longleftrightarrow> (\<exists>p. q = Some p \<and> escapes p)" for q
    by (cases q) (simp_all add: acl)
  show ?thesis unfolding collect_def bind_eq_None_conv bounded_None worker_sensor_None acl cur tl wa by auto
qed

lemma collect_Some:
  assumes "collect parse w = Some r"
  shows "\<exists>sys tail res wrk helper wacl hacl. bounded SystemSensor (sw_system w) = Some sys \<and>
    (case sw_tailscale w of None \<Rightarrow> tail = None | Some p \<Rightarrow> \<exists>t. tail = Some t \<and> bounded TailscaleSensor p = Some t) \<and>
    bounded ResourceSensor (sw_resources w) = Some res \<and> worker_sensor parse (sw_worker w) = Some wrk \<and>
    helper = (sw_helper_current w = ProbeValue ()) \<and>
    (case sw_worker_acl w of None \<Rightarrow> wacl = AclUnverified | Some p \<Rightarrow> acl_of p = Some wacl) \<and> acl_of (sw_helper_acl w) = Some hacl \<and>
    r = assemble w sys tail res wrk helper wacl hacl"
proof -
  have cur: "h = (p = ProbeValue ())" if "(case p of ProbeValue _ \<Rightarrow> Some True | ProbeEscapes \<Rightarrow> None | _ \<Rightarrow> Some False) = Some h" for h and p :: "unit probe"
    using that by (cases p) auto
  obtain sys tail res wrk h wacl hacl where o: "bounded SystemSensor (sw_system w) = Some sys"
    "(case sw_tailscale w of None \<Rightarrow> Some None | Some p \<Rightarrow> map_option Some (bounded TailscaleSensor p)) = Some tail"
    "bounded ResourceSensor (sw_resources w) = Some res" "worker_sensor parse (sw_worker w) = Some wrk"
    "(case sw_helper_current w of ProbeValue _ \<Rightarrow> Some True | ProbeEscapes \<Rightarrow> None | _ \<Rightarrow> Some False) = Some h"
    "(case sw_worker_acl w of None \<Rightarrow> Some AclUnverified | Some p \<Rightarrow> acl_of p) = Some wacl" "acl_of (sw_helper_acl w) = Some hacl"
    "r = assemble w sys tail res wrk h wacl hacl"
    using assms unfolding collect_def bind_eq_Some_conv by blast
  have "case sw_tailscale w of None \<Rightarrow> tail = None | Some p \<Rightarrow> \<exists>t. tail = Some t \<and> bounded TailscaleSensor p = Some t"
    using o(2) by (cases "sw_tailscale w") auto
  moreover have "case sw_worker_acl w of None \<Rightarrow> wacl = AclUnverified | Some p \<Rightarrow> acl_of p = Some wacl"
    using o(6) by (cases "sw_worker_acl w") auto
  ultimately show ?thesis using o(1,3,4,7,8) cur [OF o(5)] by blast
qed

lemma acl_of_verified: "acl_of p = Some AclVerified \<Longrightarrow> p = ProbeValue (ustr ''verified'')"
  by (cases p) (auto simp: acl_of_def parse_pipe_acl_state_def split: if_splits)

lemma warned_by:
  "bounded s p = Some r \<Longrightarrow> (s', c) \<in> set (warnings_of r) \<Longrightarrow> s' = s \<and> (\<exists>x. r = Warned x) \<and> (\<forall>v. p \<noteq> ProbeValue v)"
  by (auto simp: bounded_Some warnings_of_def)

lemma worker_warned_by: "worker_sensor parse p = Some r \<Longrightarrow> (s', c) \<in> set (warnings_of r) \<Longrightarrow> s' = WorkerSensor \<and> (\<exists>x. r = Warned x)"
  by (auto simp: worker_sensor_def warnings_of_def bounded_Some split: option.splits sensor_result.splits list.splits content_item.splits if_splits prod.splits)

lemma status_warnings:
  assumes "collect parse w = Some r" "(s, c) \<in> set (sr_warnings r)"
  shows "(s = SystemSensor \<longrightarrow> sr_hostname r = None \<and> (\<forall>v. sw_system w \<noteq> ProbeValue v)) \<and>
    (s = ResourceSensor \<longrightarrow> sr_resources r = unavailable_resources \<and> (\<forall>v. sw_resources w \<noteq> ProbeValue v)) \<and>
    (s = WorkerSensor \<longrightarrow> sr_interactive_worker r = offline_worker)"
proof -
  obtain sys tail res wrk helper wacl hacl where
    sys: "bounded SystemSensor (sw_system w) = Some sys" and
    tail: "case sw_tailscale w of None \<Rightarrow> tail = None | Some p \<Rightarrow> \<exists>t. tail = Some t \<and> bounded TailscaleSensor p = Some t" and
    res: "bounded ResourceSensor (sw_resources w) = Some res" and wrk: "worker_sensor parse (sw_worker w) = Some wrk" and
    r: "r = assemble w sys tail res wrk helper wacl hacl"
    using collect_Some [OF assms(1)] by blast
  have t: "s = TailscaleSensor" if "tail = Some t" "(s, c) \<in> set (warnings_of t)" for t
    using tail that warned_by [of TailscaleSensor _ t s c] by (auto split: option.splits)
  consider (sys) "(s, c) \<in> set (warnings_of sys)" | (res) "(s, c) \<in> set (warnings_of res)" | (wrk) "(s, c) \<in> set (warnings_of wrk)"
    | (tail) "s = TailscaleSensor"
    using assms(2) t unfolding r assemble_def by (auto split: option.splits if_splits)
  then show ?thesis
  proof cases
    case sys': sys
    with warned_by [OF sys sys'] show ?thesis unfolding r by (auto simp: assemble_def)
  next
    case res': res
    with warned_by [OF res res'] show ?thesis unfolding r by (auto simp: assemble_def)
  next
    case wrk': wrk
    with worker_warned_by [OF wrk wrk'] show ?thesis unfolding r by (auto simp: assemble_def)
  qed simp
qed

text \<open>
  A status is complete and claims nothing without evidence. It is always produced unless a probe raises an unexpected
  exception; every failed sensor gives exactly its own warning; a worker is reported online only with a well-formed answer, the
  helper only if its registry has it, a pipe as verified only if its registry said so, and the capability as verified
  exactly if it was for this request.
\<close>

theorem status_is_evidence:
  "(collect parse w \<noteq> None \<longleftrightarrow> \<not> (escapes (sw_system w) \<or> (\<exists>p. sw_tailscale w = Some p \<and> escapes p) \<or> escapes (sw_resources w) \<or>
      escapes (sw_worker w) \<or> escapes (sw_helper_current w) \<or> (\<exists>p. sw_worker_acl w = Some p \<and> escapes p) \<or> escapes (sw_helper_acl w))) \<and>
   (\<forall>r. collect parse w = Some r \<longrightarrow>
      (\<forall>s \<in> {SystemSensor, ResourceSensor, WorkerSensor}. \<forall>c. (s, c) \<in> set (sr_warnings r) \<longrightarrow>
         (s = SystemSensor \<longrightarrow> sr_hostname r = None \<and> (\<forall>v. sw_system w \<noteq> ProbeValue v)) \<and>
         (s = ResourceSensor \<longrightarrow> sr_resources r = unavailable_resources \<and> (\<forall>v. sw_resources w \<noteq> ProbeValue v)) \<and>
         (s = WorkerSensor \<longrightarrow> sr_interactive_worker r = offline_worker)) \<and>
      (iw_online (sr_interactive_worker r) \<longrightarrow>
         (\<exists>t j p. sw_worker w = ProbeValue (False, [TextItem t]) \<and> parse t = Some j \<and> parse_worker_payload j = Some p \<and>
            iw_session_id (sr_interactive_worker r) = Some (wp_session_id p))) \<and>
      sr_privileged_online r = (sw_helper_current w = ProbeValue ()) \<and>
      (sr_worker_acl r = AclVerified \<longrightarrow> sw_worker_acl w = Some (ProbeValue (ustr ''verified''))) \<and>
      (sr_privileged_acl r = AclVerified \<longrightarrow> sw_helper_acl w = ProbeValue (ustr ''verified'')) \<and>
      ts_app_capability_verified (sr_tailscale r) = sw_capability_verified w)"
proof (intro conjI allI impI ballI)
  show "collect parse w \<noteq> None \<longleftrightarrow> \<not> (escapes (sw_system w) \<or> (\<exists>p. sw_tailscale w = Some p \<and> escapes p) \<or> escapes (sw_resources w) \<or>
      escapes (sw_worker w) \<or> escapes (sw_helper_current w) \<or> (\<exists>p. sw_worker_acl w = Some p \<and> escapes p) \<or> escapes (sw_helper_acl w))"
    unfolding collect_None by blast
next
  fix r assume c: "collect parse w = Some r"
  obtain sys tail res wrk helper wacl hacl where
    wrk: "worker_sensor parse (sw_worker w) = Some wrk" and helper: "helper = (sw_helper_current w = ProbeValue ())" and
    wacl: "case sw_worker_acl w of None \<Rightarrow> wacl = AclUnverified | Some p \<Rightarrow> acl_of p = Some wacl" and hacl: "acl_of (sw_helper_acl w) = Some hacl" and
    r: "r = assemble w sys tail res wrk helper wacl hacl"
    using collect_Some [OF c] by blast
  show "sr_privileged_online r = (sw_helper_current w = ProbeValue ())" using r helper by (simp add: assemble_def)
  show "sr_worker_acl r = AclVerified \<Longrightarrow> sw_worker_acl w = Some (ProbeValue (ustr ''verified''))"
    using r wacl acl_of_verified by (auto simp: assemble_def split: option.splits)
  show "sr_privileged_acl r = AclVerified \<Longrightarrow> sw_helper_acl w = ProbeValue (ustr ''verified'')"
    using r hacl acl_of_verified by (auto simp: assemble_def)
  show "ts_app_capability_verified (sr_tailscale r) = sw_capability_verified w"
    using r by (auto simp: assemble_def tailscale_value_def disconnected_tailscale_def split: option.splits sensor_result.splits prod.splits)
  show "\<exists>t j p. sw_worker w = ProbeValue (False, [TextItem t]) \<and> parse t = Some j \<and> parse_worker_payload j = Some p \<and>
      iw_session_id (sr_interactive_worker r) = Some (wp_session_id p)" if on: "iw_online (sr_interactive_worker r)"
  proof (cases wrk)
    case (SensorSuccess v)
    then show ?thesis using worker_sensor_online [of parse "sw_worker w" "fst v" "fst (snd v)" "snd (snd v)"] wrk r by (auto simp: assemble_def)
  next
    case (Warned x)
    then show ?thesis using on r by (simp add: assemble_def offline_worker_def)
  qed
  fix s c' assume "(s, c') \<in> set (sr_warnings r)"
  note status_warnings [OF c this]
  then show "s = SystemSensor \<Longrightarrow> sr_hostname r = None" "\<And>v. s = SystemSensor \<Longrightarrow> sw_system w \<noteq> ProbeValue v"
    "s = ResourceSensor \<Longrightarrow> sr_resources r = unavailable_resources" "\<And>v. s = ResourceSensor \<Longrightarrow> sw_resources w \<noteq> ProbeValue v"
    "s = WorkerSensor \<Longrightarrow> sr_interactive_worker r = offline_worker" by blast+
qed

section \<open>The Tailscale probe\<close>

record tailscale_output =
  to_backend_state :: pystr
  to_ips :: "pystr list"
  to_self_online :: bool

text \<open>The first address of version 4; an address before it that is none raises.\<close>

fun first_ipv4 :: "pystr list \<Rightarrow> pystr option option" where
  "first_ipv4 [] = Some None"
| "first_ipv4 (v # vs) = (case ip_address v of None \<Rightarrow> None | Some (IPv4 _) \<Rightarrow> Some (Some v) | Some (IPv6 _) \<Rightarrow> first_ipv4 vs)"

definition probe_tailscale_connection :: "tailscale_output \<Rightarrow> connection_snapshot option" where
  "probe_tailscale_connection out =
     (case first_ipv4 (to_ips out) of
        None \<Rightarrow> None
      | Some ip \<Rightarrow>
          (let connected = (to_backend_state out = ustr ''Running'' \<and> to_self_online out)
           in Some \<lparr>cn_connected = connected, cn_ip = (if connected then ip else None)\<rparr>))"

lemma first_ipv4_valid: "first_ipv4 vs = Some (Some v) \<Longrightarrow> v \<in> set vs \<and> (\<exists>n. ip_address v = Some (IPv4 n))"
  by (induction vs) (auto split: option.splits ip_value.splits)

text \<open>What the probe reports is accepted again by the gateway: an address only when connected, and then a valid one.\<close>

lemma probed_snapshot_is_valid:
  assumes "probe_tailscale_connection out = Some s"
  shows "(\<forall>ip. cn_ip s = Some ip \<longrightarrow> cn_connected s \<and> (\<exists>n. ip_address ip = Some (IPv4 n))) \<and> require_ip_address (cn_ip s) = Some (cn_ip s)"
  using assms first_ipv4_valid by (fastforce simp: probe_tailscale_connection_def require_ip_address_def Let_def split: option.splits if_splits)

section \<open>A concrete status\<close>

definition sample_world :: "nat status_world" where
  "sample_world = \<lparr>sw_system = ProbeValue \<lparr>si_hostname = [72], si_windows_version = [87]\<rparr>, sw_tailscale = None, sw_resources = ProbeTimeout,
     sw_worker = ProbeFails, sw_capability_verified = True, sw_now = 5, sw_started_at = 2, sw_helper_current = ProbeFails,
     sw_worker_acl = None, sw_helper_acl = ProbeValue (ustr ''offline'')\<rparr>"

lemma status_is_evidence_witness:
  "\<exists>r. collect (\<lambda>_. None) sample_world = Some r \<and> sr_warnings r = [(ResourceSensor, SensorTimeout), (WorkerSensor, SensorFailed)] \<and>
     sr_resources r = unavailable_resources"
proof -
  obtain r where r: "collect (\<lambda>_. None) sample_world = Some r" "sr_warnings r = [(ResourceSensor, SensorTimeout), (WorkerSensor, SensorFailed)]"
    by (simp add: collect_def sample_world_def worker_sensor_def acl_of_def assemble_def warnings_of_def)
  with status_is_evidence [of "\<lambda>_. None" sample_world] have "sr_resources r = unavailable_resources" by fastforce
  with r show ?thesis by blast
qed

end
