(* ===== verification/Browser_Safety.thy ===== *)
theory Browser_Safety
  imports Path_Safety Py_Json
begin

text \<open>
  The pure boundary of the browser tools (\<open>worker/browser_safety.py\<close>): what is cut, redacted and refused before anything of a
  page leaves the worker, and the handles that hold the profile directory. The lower-case function of the library, its
  address splitter, the resolution of paths and the Win32 calls are arguments. The lemmas show that a collected secret does
  not survive the redaction, that a cut keeps a readable prefix, and that a profile guard holds both handles or none.
\<close>

section \<open>Errors and queries\<close>

datatype browser_error = InvalidProfile | InvalidTimeout | BrowserNotOpen | UnsafeEvaluation | OutputLimit | OperationCancelled

datatype browser_read_query = QueryTitle | QueryUrl | QueryLocation | QueryBodyText

fun query_text :: "browser_read_query \<Rightarrow> string" where
  "query_text QueryTitle = ''document.title''"
| "query_text QueryUrl = ''document.URL''"
| "query_text QueryLocation = ''location.href''"
| "query_text QueryBodyText = ''document.body.innerText''"

definition parse_browser_read_query :: "pystr \<Rightarrow> browser_error + browser_read_query" where
  "parse_browser_read_query expression =
     (if expression = ustr (query_text QueryTitle) then Inr QueryTitle
      else if expression = ustr (query_text QueryUrl) then Inr QueryUrl
      else if expression = ustr (query_text QueryLocation) then Inr QueryLocation
      else if expression = ustr (query_text QueryBodyText) then Inr QueryBodyText
      else Inl UnsafeEvaluation)"

text \<open>Only the four texts are run, and every query is the text it was parsed from.\<close>

lemma parse_browser_read_query_iff: "parse_browser_read_query e = Inr q \<longleftrightarrow> e = ustr (query_text q)"
  by (cases q) (auto simp: parse_browser_read_query_def simp del: ustr_simps)

section \<open>Bounded text\<close>

text \<open>A text that cannot be encoded raises; otherwise the flag tells whether it was cut.\<close>

definition bounded_utf8 :: "pystr \<Rightarrow> nat \<Rightarrow> (pystr \<times> bool) option" where
  "bounded_utf8 value limit =
     (case utf8_encode value of
        None \<Rightarrow> None
      | Some encoded \<Rightarrow>
          if length encoded \<le> limit then Some (value, False) else Some (utf8_ignore (take limit encoded), True))"

section \<open>Redaction\<close>

definition browser_mark :: pystr where "browser_mark = ustr ''[REDACTED]''"

text \<open>\<open>str.replace\<close> of a text that is not empty: the occurrences from the left that do not overlap.\<close>

function replace_all :: "pystr \<Rightarrow> pystr \<Rightarrow> pystr" where
  "replace_all s t =
     (if s = [] then t
      else case t of
        [] \<Rightarrow> []
      | c # cs \<Rightarrow> if prefix s t then browser_mark @ replace_all s (drop (length s) t) else c # replace_all s cs)"
  by pat_completeness auto
termination
  by (relation "measure (\<lambda>(s, t). length t)") (auto simp: neq_Nil_conv)

declare replace_all.simps [simp del]

lemma replace_all_Nil [simp]: "replace_all s [] = []"
  by (subst replace_all.simps) simp

lemma replace_all_empty [simp]: "replace_all [] t = t"
  by (subst replace_all.simps) simp

lemma replace_all_Cons:
  "s \<noteq> [] \<Longrightarrow> replace_all s (c # cs) =
     (if prefix s (c # cs) then browser_mark @ replace_all s (drop (length s) (c # cs)) else c # replace_all s cs)"
  by (subst replace_all.simps) simp

text \<open>The empty secret, which \<open>str.replace\<close> inserts the mark for at every place, is a case of its own.\<close>

definition replace_secret :: "pystr \<Rightarrow> pystr \<Rightarrow> pystr" where
  "replace_secret s t =
     (if s = [] then browser_mark @ concat (map (\<lambda>c. c # browser_mark) t) else replace_all s t)"

text \<open>The set of secrets in the order of \<open>sorted\<close> by length, longest first; equal lengths stay in the order of the set.\<close>

definition secrets_by_length :: "pystr list \<Rightarrow> pystr list" where
  "secrets_by_length secrets = sort_key (\<lambda>s. - int (length s)) secrets"

definition redact_browser_text :: "pystr \<Rightarrow> pystr list \<Rightarrow> pystr" where
  "redact_browser_text value secrets = fold replace_secret (secrets_by_length secrets) value"

definition secret_key_fragments :: "string list" where
  "secret_key_fragments =
     [''authorization'', ''cookie'', ''credential'', ''password'', ''secret'', ''session'', ''token'', ''apikey'', ''accesskey'',
      ''privatekey'', ''clientsecret'']"

text \<open>\<open>casefold\<close> and \<open>isalnum\<close> of the library.\<close>

record text_host =
  th_casefold :: "pystr \<Rightarrow> pystr"
  th_alnum :: "nat \<Rightarrow> bool"

definition secret_shaped_key :: "text_host \<Rightarrow> pystr \<Rightarrow> bool" where
  "secret_shaped_key host key =
     (let normalized = filter (th_alnum host) (th_casefold host key)
      in list_ex (\<lambda>f. sublist (ustr f) normalized) secret_key_fragments)"

fun redact_browser_json :: "text_host \<Rightarrow> json \<Rightarrow> pystr list \<Rightarrow> json" where
  "redact_browser_json host (JStr s) secrets = JStr (redact_browser_text s secrets)"
| "redact_browser_json host (JList vs) secrets = JList (map (\<lambda>v. redact_browser_json host v secrets) vs)"
| "redact_browser_json host (JObj kvs) secrets =
     JObj (map (\<lambda>(k, v). (k, if secret_shaped_key host k then JStr browser_mark else redact_browser_json host v secrets)) kvs)"
| "redact_browser_json host v secrets = v"

subsection \<open>What the redaction removes\<close>

text \<open>
  A secret that the mark cannot complete: it has no bracket, and it is no part of the word in the mark.
\<close>

definition removable :: "pystr \<Rightarrow> bool" where
  "removable s \<longleftrightarrow> s \<noteq> [] \<and> 91 \<notin> set s \<and> 93 \<notin> set s \<and> \<not> sublist s (ustr ''REDACTED'')"

lemma browser_mark_shape: "browser_mark = 91 # ustr ''REDACTED'' @ [93]"
  by (simp add: browser_mark_def)

lemma sublist_skip:
  assumes "sublist p (xs @ c # ys)" "c \<notin> set p"
  shows "sublist p xs \<or> sublist p ys"
proof -
  obtain a b where e: "xs @ c # ys = a @ p @ b" using assms(1) by (auto simp: sublist_def)
  consider (left) d where "xs = a @ p @ d" | (right) d where "ys = d @ p @ b" | (inside) "c \<in> set p"
    using e by (auto simp: append_eq_append_conv2 Cons_eq_append_conv append_eq_Cons_conv)
  then show ?thesis using assms(2) by cases (auto simp: sublist_def)
qed

lemma sublist_past_mark:
  assumes "sublist p (browser_mark @ ys)" "removable p"
  shows "sublist p ys"
proof -
  have "sublist p ([] @ 91 # (ustr ''REDACTED'' @ 93 # ys))" using assms(1) by (simp add: browser_mark_shape)
  then have "sublist p (ustr ''REDACTED'' @ 93 # ys)"
    using sublist_skip [of p "[]" 91] assms(2) by (auto simp: removable_def)
  then show ?thesis using sublist_skip [of p "ustr ''REDACTED''" 93 ys] assms(2) by (auto simp: removable_def)
qed

lemma prefix_before_mark: "prefix p (replace_all s t) \<Longrightarrow> 91 \<notin> set p \<Longrightarrow> prefix p t"
proof (induction s t arbitrary: p rule: replace_all.induct)
  case (1 s t)
  show ?case
  proof (cases "s = [] \<or> t = []")
    case True
    then show ?thesis using "1.prems"(1) by auto
  next
    case False
    then obtain c cs where t: "t = c # cs" "s \<noteq> []" by (cases t) auto
    show ?thesis
    proof (cases "prefix s t")
      case True
      then have "prefix p (browser_mark @ replace_all s (drop (length s) t))" using "1.prems"(1) t by (simp add: replace_all_Cons)
      then have "p = []" using "1.prems"(2) by (cases p) (auto simp: browser_mark_shape)
      then show ?thesis by simp
    next
      case no: False
      then have "prefix p (c # replace_all s cs)" using "1.prems"(1) t by (simp add: replace_all_Cons)
      then show ?thesis using "1.IH"(2) [OF t(2) t(1)] no t "1.prems"(2) by (cases p) auto
    qed
  qed
qed

lemma replace_all_no_new: "sublist p (replace_all s t) \<Longrightarrow> removable p \<Longrightarrow> sublist p t"
proof (induction s t rule: replace_all.induct)
  case (1 s t)
  show ?case
  proof (cases "s = [] \<or> t = []")
    case True
    then show ?thesis using "1.prems"(1) by auto
  next
    case False
    then obtain c cs where t: "t = c # cs" "s \<noteq> []" by (cases t) auto
    show ?thesis
    proof (cases "prefix s t")
      case True
      then have "sublist p (replace_all s (drop (length s) t))"
        using "1.prems" t sublist_past_mark by (simp add: replace_all_Cons)
      then have "sublist p (drop (length s) t)" using "1.IH"(1) [OF t(2) t(1)] True t "1.prems"(2) by simp
      then show ?thesis using sublist_order.order_trans sublist_drop by blast
    next
      case no: False
      then have r: "sublist p (c # replace_all s cs)" "prefix p (c # replace_all s cs) \<longrightarrow> prefix p t"
        using "1.prems" t prefix_before_mark [of p s t] by (simp_all add: replace_all_Cons removable_def)
      then have "prefix p t \<or> sublist p (replace_all s cs)" by (auto simp: sublist_Cons_right)
      then show ?thesis using "1.IH"(2) [OF t(2) t(1)] no t "1.prems"(2) by (auto simp: sublist_Cons_right)
    qed
  qed
qed

lemma replace_all_removes: "removable s \<Longrightarrow> \<not> sublist s (replace_all s t)"
proof (induction s t rule: replace_all.induct)
  case (1 s t)
  then have ne: "s \<noteq> []" by (simp add: removable_def)
  show ?case
  proof (cases t)
    case Nil
    then show ?thesis using ne by simp
  next
    case (Cons c cs)
    show ?thesis
    proof (cases "prefix s t")
      case True
      then show ?thesis using "1.IH"(1) [OF ne Cons] "1.prems" Cons ne sublist_past_mark by (auto simp: replace_all_Cons)
    next
      case no: False
      have "\<not> prefix s (replace_all s t)" using prefix_before_mark [of s s t] no "1.prems" by (auto simp: removable_def)
      then show ?thesis using "1.IH"(2) [OF ne Cons] no Cons "1.prems" ne by (auto simp: replace_all_Cons sublist_Cons_right)
    qed
  qed
qed

lemma replace_secret_no_new:
  assumes "sublist p (replace_secret s t)" "removable p"
  shows "sublist p t"
proof (cases "s = []")
  case True
  have key: "sublist p t" if "sublist p (concat (map (\<lambda>c. c # browser_mark) t))" for t
    using that
  proof (induction t)
    case Nil
    then show ?case using assms(2) by (simp add: removable_def)
  next
    case (Cons c t)
    let ?rest = "concat (map (\<lambda>c. c # browser_mark) t)"
    have "sublist p ([c] @ 91 # (ustr ''REDACTED'' @ 93 # ?rest))" using Cons.prems by (simp add: browser_mark_shape)
    then consider "sublist p [c]" | "sublist p (ustr ''REDACTED'' @ 93 # ?rest)"
      using sublist_skip [of p "[c]" 91] assms(2) by (auto simp: removable_def)
    then show ?case
    proof cases
      case 1
      then show ?thesis by (cases p) (auto simp: sublist_Cons_right)
    next
      case 2
      then have "sublist p ?rest" using sublist_skip [of p "ustr ''REDACTED''" 93 ?rest] assms(2) by (auto simp: removable_def)
      then show ?thesis using Cons.IH by (simp add: sublist_Cons_right)
    qed
  qed
  have "sublist p (browser_mark @ concat (map (\<lambda>c. c # browser_mark) t))" using assms(1) True by (simp add: replace_secret_def)
  then show ?thesis by (rule key [OF sublist_past_mark [OF _ assms(2)]])
next
  case False
  then have "sublist p (replace_all s t)" using assms(1) by (simp add: replace_secret_def)
  then show ?thesis by (rule replace_all_no_new [OF _ assms(2)])
qed

lemma fold_replace_no_new: "removable p \<Longrightarrow> sublist p (fold replace_secret ss t) \<Longrightarrow> sublist p t"
  by (induction ss arbitrary: t) (auto dest: replace_secret_no_new)

lemma fold_replace_removes:
  "removable p \<Longrightarrow> p \<in> set ss \<Longrightarrow> \<not> sublist p (fold replace_secret ss t)"
proof (induction ss arbitrary: t)
  case (Cons s ss)
  show ?case
  proof (cases "p = s")
    case True
    then have "\<not> sublist p (replace_secret s t)"
      using Cons.prems(1) replace_all_removes by (simp add: replace_secret_def removable_def)
    then show ?thesis using fold_replace_no_new [OF Cons.prems(1), of ss "replace_secret s t"] by auto
  next
    case False
    then show ?thesis using Cons by simp
  qed
qed simp

lemma redact_text_removes: "removable p \<Longrightarrow> p \<in> set secrets \<Longrightarrow> \<not> sublist p (redact_browser_text value secrets)"
  using fold_replace_removes by (simp add: redact_browser_text_def secrets_by_length_def)

text \<open>
  A collected secret does not survive the redaction. Whatever the page and whatever the other secrets are, the redacted text
  contains no secret that the mark cannot complete, and it contains no such text that was not in the page already.
\<close>

theorem redaction_removes_secrets:
  assumes "removable s"
  shows "(s \<in> set secrets \<longrightarrow> \<not> sublist s (redact_browser_text value secrets)) \<and>
    (sublist s (redact_browser_text value secrets) \<longrightarrow> sublist s value)"
  using redact_text_removes [OF assms] fold_replace_no_new [OF assms]
  unfolding redact_browser_text_def secrets_by_length_def by blast

fun json_texts :: "json \<Rightarrow> pystr list" where
  "json_texts (JStr s) = [s]"
| "json_texts (JList vs) = concat (map json_texts vs)"
| "json_texts (JObj kvs) = concat (map (\<lambda>(k, v). json_texts v) kvs)"
| "json_texts _ = []"

fun hidden_fields :: "text_host \<Rightarrow> json \<Rightarrow> bool" where
  "hidden_fields host (JList vs) \<longleftrightarrow> (\<forall>v \<in> set vs. hidden_fields host v)"
| "hidden_fields host (JObj kvs) \<longleftrightarrow>
     (\<forall>(k, v) \<in> set kvs. hidden_fields host v \<and> (secret_shaped_key host k \<longrightarrow> v = JStr browser_mark))"
| "hidden_fields host _ \<longleftrightarrow> True"

lemma browser_mark_safe: "removable s \<Longrightarrow> \<not> sublist s browser_mark"
  using sublist_past_mark [of s "[]"] by (auto simp: removable_def)


section \<open>The bound on text\<close>

text \<open>
  A text is bounded without a broken character. The result encodes into at most the limit, it is a prefix of the text, the
  flag is raised exactly when the text does not fit, and then the result is the longest prefix that does.
\<close>

theorem bounded_text_is_longest_prefix:
  assumes "bounded_utf8 value limit = Some (t, short)"
  shows "\<exists>all part. utf8_encode value = Some all \<and> utf8_encode t = Some part \<and> length part \<le> limit \<and> prefix t value \<and>
    (short \<longleftrightarrow> limit < length all) \<and> (\<not> short \<longrightarrow> t = value) \<and> (short \<longrightarrow> t = fit_bytes limit value)"
proof -
  obtain whole where whole: "utf8_encode value = Some whole"
    using assms by (auto simp: bounded_utf8_def split: option.splits)
  show ?thesis
  proof (cases "length whole \<le> limit")
    case True
    then show ?thesis using assms whole by (auto simp: bounded_utf8_def)
  next
    case False
    then have t: "t = fit_bytes limit value" "short"
      using assms whole utf8_ignore_cut [OF whole] by (auto simp: bounded_utf8_def)
    obtain k where k: "utf8_encode (fit_bytes limit value) = Some (take k whole)" "k \<le> limit"
      using fit_bytes_encode [OF whole, of limit] by blast
    have "prefix t value" using fit_bytes_prefix [where n = limit] t by (auto simp: prefix_def)
    then show ?thesis using whole k t False by auto
  qed
qed

lemma bounded_text_is_longest_prefix_witness:
  "bounded_utf8 [104, 0xE9] 2 = Some ([104], True) \<and> prefix [104] [104, 0xE9 :: nat]"
proof -
  have b: "bounded_utf8 [104, 0xE9] 2 = Some ([104], True)" by code_simp
  from bounded_text_is_longest_prefix [OF b] show ?thesis using b by auto
qed

text \<open>What is kept of the redaction when a secret is a key: the key is shown.\<close>

lemma secret_key_is_kept:
  "redact_browser_json host (JObj [(s, v)]) secrets =
     JObj [(s, if secret_shaped_key host s then JStr browser_mark else redact_browser_json host v secrets)]"
  by simp

section \<open>The address that is shown\<close>

text \<open>
  \<open>urlsplit\<close> of the library as far as it is used: the characters dropped, the scheme, the authority up to the first delimiter,
  and the path before the query and the fragment. The library's tables are arguments: \<open>lower\<close>, and the checks of an authority
  that raise \<open>ValueError\<close>.
\<close>

record url_host =
  uh_lower :: "pystr \<Rightarrow> pystr"
  uh_netloc_ok :: "pystr \<Rightarrow> bool"

definition ascii_letter :: "nat \<Rightarrow> bool" where
  "ascii_letter c \<longleftrightarrow> (65 \<le> c \<and> c \<le> 90) \<or> (97 \<le> c \<and> c \<le> 122)"

definition ascii_digit :: "nat \<Rightarrow> bool" where
  "ascii_digit c \<longleftrightarrow> 48 \<le> c \<and> c \<le> 57"

definition scheme_char :: "nat \<Rightarrow> bool" where
  "scheme_char c \<longleftrightarrow> ascii_letter c \<or> ascii_digit c \<or> c \<in> {43, 45, 46}"

definition ascii_lower :: "pystr \<Rightarrow> pystr" where
  "ascii_lower s = map (\<lambda>c. if 65 \<le> c \<and> c \<le> 90 then c + 32 else c) s"

definition before_char :: "nat \<Rightarrow> pystr \<Rightarrow> pystr" where
  "before_char d s = takeWhile (\<lambda>c. c \<noteq> d) s"

definition after_char :: "nat \<Rightarrow> pystr \<Rightarrow> pystr" where
  "after_char d s = drop 1 (dropWhile (\<lambda>c. c \<noteq> d) s)"

definition after_last :: "nat \<Rightarrow> pystr \<Rightarrow> pystr" where
  "after_last d s = rev (takeWhile (\<lambda>c. c \<noteq> d) (rev s))"

definition url_clean :: "pystr \<Rightarrow> pystr" where
  "url_clean url = filter (\<lambda>c. c \<notin> {9, 10, 13}) (dropWhile (\<lambda>c. c \<le> 32) url)"

definition url_scheme :: "pystr \<Rightarrow> pystr \<times> pystr" where
  "url_scheme url =
     (let s = before_char 58 url in
      if 58 \<in> set url \<and> s \<noteq> [] \<and> ascii_letter (hd s) \<and> list_all scheme_char s
      then (ascii_lower s, after_char 58 url) else ([], url))"

definition url_split :: "url_host \<Rightarrow> pystr \<Rightarrow> (pystr \<times> pystr \<times> pystr) option" where
  "url_split host url =
     (let (scheme, rest) = url_scheme (url_clean url);
          (netloc, path) = (if prefix [47, 47] rest
             then (takeWhile (\<lambda>c. c \<notin> {47, 63, 35}) (drop 2 rest), dropWhile (\<lambda>c. c \<notin> {47, 63, 35}) (drop 2 rest))
             else ([], rest))
      in if (91 \<in> set netloc) \<noteq> (93 \<in> set netloc) \<or> \<not> uh_netloc_ok host netloc then None
         else Some (scheme, netloc, before_char 63 (before_char 35 path)))"

definition url_hostinfo :: "pystr \<Rightarrow> pystr \<times> pystr" where
  "url_hostinfo netloc =
     (let info = after_last 64 netloc in
      if 91 \<in> set info
      then (before_char 93 (after_char 91 info), after_char 58 (after_char 93 (after_char 91 info)))
      else (before_char 58 info, after_char 58 info))"

definition url_hostname :: "url_host \<Rightarrow> pystr \<Rightarrow> pystr" where
  "url_hostname host h =
     (if 37 \<in> set h then uh_lower host (before_char 37 h) @ 37 # after_char 37 h else uh_lower host h)"

text \<open>\<open>parsed.port\<close>: \<open>None\<close> in the outer option is \<open>ValueError\<close>, the inner one an absent port.\<close>

definition url_port :: "pystr \<Rightarrow> nat option option" where
  "url_port t =
     (if t = [] then Some None
      else if \<not> list_all ascii_digit t then None
      else (let n = foldl (\<lambda>n c. n * 10 + (c - 48)) 0 t in if n \<le> 65535 then Some (Some n) else None))"

fun decimal_digits :: "nat \<Rightarrow> pystr" where
  "decimal_digits n = (if n < 10 then [48 + n] else decimal_digits (n div 10) @ [48 + n mod 10])"

declare decimal_digits.simps [simp del]

definition uses_netloc :: "pystr list" where
  "uses_netloc = map ustr
     [''ftp'', ''http'', ''gopher'', ''nntp'', ''telnet'', ''imap'', ''wais'', ''file'', ''mms'', ''https'', ''shttp'', ''snews'',
      ''prospero'', ''rtsp'', ''rtsps'', ''rtspu'', ''rsync'', ''svn'', ''svn+ssh'', ''sftp'', ''nfs'', ''git'', ''git+ssh'',
      ''ws'', ''wss'', ''itms-services'']"

definition url_unsplit :: "pystr \<Rightarrow> pystr \<Rightarrow> pystr \<Rightarrow> pystr" where
  "url_unsplit scheme netloc path =
     (let body = (if netloc \<noteq> [] then [47, 47] @ netloc @ (if path \<noteq> [] \<and> hd path \<noteq> 47 then 47 # path else path)
                  else if prefix [47, 47] path \<or> (scheme \<in> set uses_netloc \<and> (path = [] \<or> hd path = 47)) then [47, 47] @ path
                  else path)
      in if scheme \<noteq> [] then scheme @ 58 # body else body)"

definition safe_browser_url :: "url_host \<Rightarrow> pystr \<Rightarrow> pystr option" where
  "safe_browser_url host url =
     (case url_split host url of
        None \<Rightarrow> None
      | Some (scheme, netloc, path) \<Rightarrow>
          (let (h, p) = url_hostinfo netloc in
           case url_port p of
             None \<Rightarrow> None
           | Some port \<Rightarrow>
               Some (url_unsplit scheme
                 (url_hostname host h @ (case port of None \<Rightarrow> [] | Some n \<Rightarrow> 58 # decimal_digits n)) path)))"

text \<open>The lower case of a text without a delimiter has no delimiter.\<close>

definition lower_keeps_delimiters :: "url_host \<Rightarrow> bool" where
  "lower_keeps_delimiters host \<longleftrightarrow>
     (\<forall>s d. d \<in> {35, 47, 63, 64} \<longrightarrow> d \<notin> set s \<longrightarrow> d \<notin> set (uh_lower host s))"

lemma before_char_subset: "set (before_char d s) \<subseteq> set s - {d}"
  by (auto simp: before_char_def dest: set_takeWhileD)

lemma after_char_subset: "set (after_char d s) \<subseteq> set s"
  by (auto simp: after_char_def dest!: in_set_dropD set_dropWhileD)

lemma after_last_subset: "set (after_last d s) \<subseteq> set s - {d}"
  by (auto simp: after_last_def dest: set_takeWhileD)

lemma decimal_digits_range: "c \<in> set (decimal_digits n) \<Longrightarrow> 48 \<le> c \<and> c \<le> 57"
proof (induction n rule: decimal_digits.induct)
  case (1 n)
  then show ?case by (subst (asm) decimal_digits.simps) (auto split: if_splits)
qed

lemma url_hostinfo_subset: "url_hostinfo netloc = (h, p) \<Longrightarrow> set h \<subseteq> set netloc - {64}"
  using after_last_subset [of 64 netloc] before_char_subset after_char_subset
  by (auto simp: url_hostinfo_def Let_def split: if_splits) blast+

lemma url_hostname_delimiters:
  assumes "lower_keeps_delimiters host" "d \<in> {35, 47, 63, 64}" "d \<notin> set h"
  shows "d \<notin> set (url_hostname host h)"
  using assms before_char_subset [of 37 h] after_char_subset [of 37 h]
  by (auto simp: url_hostname_def lower_keeps_delimiters_def)

lemma url_split_parts:
  assumes "url_split host url = Some (scheme, netloc, path)"
  shows "set netloc \<inter> {35, 47, 63} = {}" "set path \<inter> {35, 63} = {}" "list_all scheme_char scheme"
proof -
  obtain rest where r: "url_scheme (url_clean url) = (scheme, rest)"
    using assms by (auto simp: url_split_def Let_def split: prod.splits if_splits)
  show "set netloc \<inter> {35, 47, 63} = {}" "set path \<inter> {35, 63} = {}"
    using assms r by (auto simp: url_split_def Let_def before_char_def split: prod.splits if_splits dest!: set_takeWhileD)
  have "list_all scheme_char (ascii_lower s)" if "list_all scheme_char s" for s
    using that by (auto simp: list_all_iff ascii_lower_def scheme_char_def ascii_letter_def ascii_digit_def)
  then show "list_all scheme_char scheme" using r by (auto simp: url_scheme_def Let_def split: if_splits)
qed

text \<open>
  A shown address has no user information, no query and no fragment. It is put together from a scheme, an authority without
  an at sign or a slash, and a path; and it contains no question mark and no number sign.
\<close>

theorem shown_address_is_stripped:
  assumes "lower_keeps_delimiters host" "safe_browser_url host url = Some u"
  shows "63 \<notin> set u \<and> 35 \<notin> set u \<and>
    (\<exists>scheme netloc path. u = url_unsplit scheme netloc path \<and> list_all scheme_char scheme \<and> 64 \<notin> set netloc \<and> 47 \<notin> set netloc)"
proof -
  obtain scheme netloc path where sp: "url_split host url = Some (scheme, netloc, path)"
    using assms(2) by (auto simp: safe_browser_url_def split: option.splits)
  obtain h p where hp: "url_hostinfo netloc = (h, p)" by fastforce
  then obtain port where "url_port p = Some port"
    using assms(2) sp by (cases "url_port p") (simp_all add: safe_browser_url_def)
  then have u: "u = url_unsplit scheme (url_hostname host h @ (case port of None \<Rightarrow> [] | Some n \<Rightarrow> 58 # decimal_digits n)) path"
    using assms(2) sp hp by (simp add: safe_browser_url_def)
  let ?n = "url_hostname host h @ (case port of None \<Rightarrow> [] | Some n \<Rightarrow> 58 # decimal_digits n)"
  note parts = url_split_parts [OF sp]
  have n: "d \<notin> set ?n" if d: "d \<in> {35, 47, 63, 64}" for d
  proof -
    have "d \<notin> set h" using url_hostinfo_subset [OF hp] parts(1) d by auto
    then have "d \<notin> set (url_hostname host h)" by (rule url_hostname_delimiters [OF assms(1) d])
    moreover have "d \<notin> set (case port of None \<Rightarrow> [] | Some n \<Rightarrow> 58 # decimal_digits n)"
      using d by (cases port) (auto dest!: decimal_digits_range)
    ultimately show ?thesis by simp
  qed
  have s: "63 \<notin> set scheme" "35 \<notin> set scheme"
    using parts(3) by (auto simp: list_all_iff scheme_char_def ascii_letter_def ascii_digit_def)
  have sub: "set (url_unsplit scheme ?n path) \<subseteq> set scheme \<union> set ?n \<union> set path \<union> {47, 58}"
    unfolding url_unsplit_def Let_def by auto
  have "63 \<notin> set u" "35 \<notin> set u" using sub n [of 63] n [of 35] s parts(2) unfolding u by auto
  then show ?thesis using u parts(3) n [of 64] n [of 47] by blast
qed

definition plain_url_host :: url_host where
  "plain_url_host = \<lparr>uh_lower = ascii_lower, uh_netloc_ok = (\<lambda>_. True)\<rparr>"

lemma plain_lower_keeps: "lower_keeps_delimiters plain_url_host"
  by (auto simp: lower_keeps_delimiters_def plain_url_host_def ascii_lower_def)

lemmas url_evaluation = safe_browser_url_def url_split_def url_scheme_def url_clean_def url_hostinfo_def url_hostname_def url_port_def
  url_unsplit_def before_char_def after_char_def after_last_def scheme_char_def ascii_letter_def ascii_digit_def ascii_lower_def
  plain_url_host_def decimal_digits.simps Let_def

lemma shown_address_is_stripped_witness:
  "safe_browser_url plain_url_host (ustr ''https://me:pw@Host.example:0443/a?token=1#x'') = Some (ustr ''https://host.example:443/a'') \<and>
   63 \<notin> set (ustr ''https://host.example:443/a'')"
proof -
  have u: "safe_browser_url plain_url_host (ustr ''https://me:pw@Host.example:0443/a?token=1#x'') =
      Some (ustr ''https://host.example:443/a'')"
    by (simp add: url_evaluation)
  from shown_address_is_stripped [OF plain_lower_keeps u] show ?thesis using u by blast
qed

text \<open>The brackets of an IPv6 host are lost, and an address inside a path keeps its user information.\<close>

lemma ipv6_brackets_are_lost:
  "safe_browser_url plain_url_host (ustr ''http://[::1]:80/'') = Some (ustr ''http://::1:80/'')"
  by (simp add: url_evaluation)

lemma nested_address_keeps_user:
  "safe_browser_url plain_url_host (ustr ''view-source:https://me:pw@host/'') = Some (ustr ''view-source:https://me:pw@host/'')"
  by (simp add: url_evaluation)

section \<open>The profile directory\<close>

text \<open>
  What is asked of the system: the absolute form of a path, its resolution (\<open>None\<close> when it raises), whether it is a link or a
  junction, and for the guard the directories made, the handles opened and the final path of a handle.
\<close>

record profile_host =
  pf_paths :: path_host
  pf_absolute :: "win_path \<Rightarrow> win_path"
  pf_resolve :: "win_path \<Rightarrow> win_path option"
  pf_is_link :: "win_path \<Rightarrow> bool"

definition path_parts :: "win_path \<Rightarrow> pystr list" where
  "path_parts p = (if wp_drive p @ wp_root p = [] then wp_parts p else (wp_drive p @ wp_root p) # wp_parts p)"

definition profile_suffix :: "pystr list" where
  "profile_suffix = [ustr ''hermeswindowsbridge'', ustr ''browser-profile'']"

definition validated_profile_dir :: "profile_host \<Rightarrow> pystr option \<Rightarrow> win_path \<Rightarrow> browser_error + win_path" where
  "validated_profile_dir host local profile =
     (case local of
        None \<Rightarrow> Inl InvalidProfile
      | Some [] \<Rightarrow> Inl InvalidProfile
      | Some (c # cs) \<Rightarrow>
          (let local_raw = pf_absolute host (ph_path (pf_paths host) (c # cs)); profile_raw = pf_absolute host profile in
           case relative_parts (pf_paths host) profile_raw local_raw of
             None \<Rightarrow> Inl InvalidProfile
           | Some relative \<Rightarrow>
               (case (pf_resolve host local_raw, pf_resolve host profile_raw) of
                  (Some local_resolved, Some profile_resolved) \<Rightarrow>
                    (if relative_parts (pf_paths host) profile_resolved local_resolved = None then Inl InvalidProfile
                     else if list_ex (pf_is_link host) (tl (guarded_paths local_raw relative)) then Inl InvalidProfile
                     else (let ps = map (ph_casefold (pf_paths host)) (path_parts profile_resolved) in
                           if drop (length ps - 2) ps \<noteq> profile_suffix then Inl InvalidProfile else Inr profile_resolved))
                | _ \<Rightarrow> Inl InvalidProfile)))"

text \<open>The parent of a path: the last component dropped.\<close>

definition parent_path :: "win_path \<Rightarrow> win_path" where
  "parent_path p = p\<lparr>wp_parts := butlast (wp_parts p)\<rparr>"

datatype profile_failure = ProfileRefused browser_error | ProfileOsError int

datatype profile_event = DirectoryMade win_path | HandleOpened nat win_path | HandleClosed nat

text \<open>
  The calls of the guard. An opened handle is \<open>None\<close> when the call reports an error; the final path comes with the length the
  call returns, and a second resolution, which may raise, compares it.
\<close>

record guard_host =
  gh_mkdir :: "win_path \<Rightarrow> int option"
  gh_create_file :: "win_path \<Rightarrow> nat option"
  gh_final_path :: "nat \<Rightarrow> nat \<times> pystr"
  gh_resolve :: "win_path \<Rightarrow> int + win_path"

definition final_path_buffer_chars :: nat where "final_path_buffer_chars = 32768"

definition open_directory_handle :: "guard_host \<Rightarrow> win_path \<Rightarrow> profile_failure + nat" where
  "open_directory_handle gh p =
     (case gh_create_file gh p of None \<Rightarrow> Inl (ProfileRefused InvalidProfile) | Some k \<Rightarrow> Inr k)"

definition strip_namespace :: "pystr \<Rightarrow> pystr" where
  "strip_namespace t =
     (if prefix [92, 92, 63, 92, 85, 78, 67, 92] t then [92, 92] @ drop 8 t
      else if prefix [92, 92, 63, 92] t then drop 4 t else t)"

definition require_handle_path :: "path_host \<Rightarrow> guard_host \<Rightarrow> nat \<Rightarrow> win_path \<Rightarrow> profile_failure + unit" where
  "require_handle_path paths gh k expected =
     (let (n, t) = gh_final_path gh k in
      if n = 0 \<or> final_path_buffer_chars \<le> n then Inl (ProfileRefused InvalidProfile)
      else bindR (mapErr ProfileOsError (gh_resolve gh (ph_path paths (strip_namespace t)))) (\<lambda>actual.
           bindR (mapErr ProfileOsError (gh_resolve gh expected)) (\<lambda>wanted.
             if ph_normcase paths (path_text actual) \<noteq> ph_normcase paths (path_text wanted)
             then Inl (ProfileRefused InvalidProfile) else Inr ())))"

record profile_guard =
  pg_dir :: win_path
  pg_handles :: "nat list"

definition make_profile_guard ::
  "profile_host \<Rightarrow> guard_host \<Rightarrow> pystr option \<Rightarrow> win_path \<Rightarrow> (profile_failure + profile_guard) \<times> profile_event list" where
  "make_profile_guard host gh local profile =
     (case validated_profile_dir host local profile of
        Inl e \<Rightarrow> (Inl (ProfileRefused e), [])
      | Inr dir \<Rightarrow>
          (case gh_mkdir gh (parent_path dir) of
             Some n \<Rightarrow> (Inl (ProfileOsError n), [])
           | None \<Rightarrow>
               (case gh_mkdir gh dir of
                  Some n \<Rightarrow> (Inl (ProfileOsError n), [DirectoryMade (parent_path dir)])
                | None \<Rightarrow>
                    (let made = [DirectoryMade (parent_path dir), DirectoryMade dir] in
                     case open_directory_handle gh (parent_path dir) of
                       Inl e \<Rightarrow> (Inl e, made)
                     | Inr pk \<Rightarrow>
                         (case open_directory_handle gh dir of
                            Inl e \<Rightarrow> (Inl e, made @ [HandleOpened pk (parent_path dir), HandleClosed pk])
                          | Inr k \<Rightarrow>
                              (let opened = made @ [HandleOpened pk (parent_path dir), HandleOpened k dir] in
                               case bindR (require_handle_path (pf_paths host) gh pk (parent_path dir))
                                      (\<lambda>_. require_handle_path (pf_paths host) gh k dir) of
                                 Inl e \<Rightarrow> (Inl e, opened @ [HandleClosed k, HandleClosed pk])
                               | Inr _ \<Rightarrow> (Inr \<lparr>pg_dir = dir, pg_handles = [pk, k]\<rparr>, opened)))))))"

definition close_profile_guard :: "profile_guard \<Rightarrow> profile_guard \<times> profile_event list" where
  "close_profile_guard g = (g\<lparr>pg_handles := []\<rparr>, map HandleClosed (rev (pg_handles g)))"

fun handles_opened :: "profile_event list \<Rightarrow> nat list" where
  "handles_opened [] = []"
| "handles_opened (HandleOpened k _ # es) = k # handles_opened es"
| "handles_opened (_ # es) = handles_opened es"

fun handles_closed :: "profile_event list \<Rightarrow> nat list" where
  "handles_closed [] = []"
| "handles_closed (HandleClosed k # es) = k # handles_closed es"
| "handles_closed (_ # es) = handles_closed es"

lemma validated_profile_is_dedicated:
  assumes "validated_profile_dir host local profile = Inr dir"
  shows "\<exists>root. pf_resolve host (pf_absolute host profile) = Some dir \<and>
    pf_resolve host (pf_absolute host (ph_path (pf_paths host) (the local))) = Some root \<and>
    relative_parts (pf_paths host) dir root \<noteq> None \<and>
    (let ps = map (ph_casefold (pf_paths host)) (path_parts dir) in drop (length ps - 2) ps = profile_suffix)"
proof -
  obtain c cs where l: "local = Some (c # cs)"
    using assms by (auto simp: validated_profile_dir_def split: option.splits list.splits)
  show ?thesis
    using assms l
    by (auto simp: validated_profile_dir_def Let_def split: option.splits if_splits)
qed

text \<open>The final path of a handle and a path resolve, at the time of the check, to the same directory.\<close>

definition handle_leads :: "path_host \<Rightarrow> guard_host \<Rightarrow> nat \<Rightarrow> win_path \<Rightarrow> bool" where
  "handle_leads paths gh k wanted \<longleftrightarrow>
     (case (gh_resolve gh (ph_path paths (strip_namespace (snd (gh_final_path gh k)))), gh_resolve gh wanted) of
        (Inr a, Inr w) \<Rightarrow> ph_normcase paths (path_text a) = ph_normcase paths (path_text w)
      | _ \<Rightarrow> False)"

lemma require_handle_path_leads: "require_handle_path paths gh k wanted = Inr u \<Longrightarrow> handle_leads paths gh k wanted"
  by (auto simp: require_handle_path_def handle_leads_def bindR_eq_Inr mapErr_def split: prod.splits if_splits sum.splits)

lemma make_profile_guard_made:
  assumes "make_profile_guard host gh local profile = (Inr g, events)"
  obtains dir pk k where "validated_profile_dir host local profile = Inr dir" "g = \<lparr>pg_dir = dir, pg_handles = [pk, k]\<rparr>"
    "events = [DirectoryMade (parent_path dir), DirectoryMade dir, HandleOpened pk (parent_path dir), HandleOpened k dir]"
    "handle_leads (pf_paths host) gh pk (parent_path dir)" "handle_leads (pf_paths host) gh k dir"
  using assms
  by (auto simp: make_profile_guard_def Let_def bindR_eq_Inr dest!: require_handle_path_leads split: sum.splits option.splits)

lemma make_profile_guard_refused:
  assumes "make_profile_guard host gh local profile = (Inl e, events)"
  shows "handles_closed events = rev (handles_opened events)"
  using assms by (auto simp: make_profile_guard_def Let_def split: sum.splits option.splits)

text \<open>
  The profile guard holds both directories or nothing. When it is refused, every handle it opened has been closed, once and in
  reverse order; when it is made, both handles are open, the profile is the validated directory under the local application data,
  each handle leads where its directory led at the check, and closing returns the two handles once, a second time nothing.
\<close>

theorem profile_guard_holds_both_or_none:
  assumes "make_profile_guard host gh local profile = (r, events)"
  shows "case r of
      Inl e \<Rightarrow> handles_closed events = rev (handles_opened events)
    | Inr g \<Rightarrow> handles_opened events = pg_handles g \<and> handles_closed events = [] \<and>
        validated_profile_dir host local profile = Inr (pg_dir g) \<and>
        list_all2 (handle_leads (pf_paths host) gh) (pg_handles g) [parent_path (pg_dir g), pg_dir g] \<and>
        (let (g', closing) = close_profile_guard g in
           handles_closed closing = rev (handles_opened events) \<and> snd (close_profile_guard g') = [])"
proof (cases r)
  case (Inl e)
  then show ?thesis using make_profile_guard_refused assms by simp
next
  case (Inr g)
  then have "make_profile_guard host gh local profile = (Inr g, events)" using assms by simp
  then show ?thesis by (rule make_profile_guard_made) (simp add: Inr close_profile_guard_def)
qed

subsection \<open>A profile that is swapped\<close>

definition app_data :: win_path where
  "app_data = \<lparr>wp_drive = ustr ''C:'', wp_root = [backslash], wp_parts = [ustr ''l'']\<rparr>"

definition sample_profile :: win_path where
  "sample_profile = app_data\<lparr>wp_parts := [ustr ''l'', ustr ''hermeswindowsbridge'', ustr ''browser-profile'']\<rparr>"

definition profile_paths :: path_host where
  "profile_paths = \<lparr>ph_casefold = id, ph_lower = id, ph_normcase = id,
     ph_path = (\<lambda>s. if s = ustr ''D'' then \<lparr>wp_drive = ustr ''D:'', wp_root = [backslash], wp_parts = []\<rparr> else app_data)\<rparr>"

definition sample_profile_host :: profile_host where
  "sample_profile_host =
     \<lparr>pf_paths = profile_paths, pf_absolute = (\<lambda>p. p), pf_resolve = Some, pf_is_link = (\<lambda>_. False)\<rparr>"

text \<open>After the validation the directories are replaced by junctions to another drive: every handle and every resolution follows them.\<close>

definition swapped_host :: guard_host where
  "swapped_host =
     \<lparr>gh_mkdir = (\<lambda>_. None), gh_create_file = (\<lambda>p. Some (length (wp_parts p))), gh_final_path = (\<lambda>_. (1, ustr ''D'')),
      gh_resolve = (\<lambda>_. Inr (ph_path profile_paths (ustr ''D'')))\<rparr>"

lemma sample_profile_valid: "validated_profile_dir sample_profile_host (Some (ustr ''l'')) sample_profile = Inr sample_profile"
  by code_simp

lemma swapped_guard:
  "make_profile_guard sample_profile_host swapped_host (Some (ustr ''l'')) sample_profile =
     (Inr \<lparr>pg_dir = sample_profile, pg_handles = [2, 3]\<rparr>,
      [DirectoryMade (parent_path sample_profile), DirectoryMade sample_profile, HandleOpened 2 (parent_path sample_profile),
       HandleOpened 3 sample_profile])"
  using sample_profile_valid
  by (simp add: make_profile_guard_def open_directory_handle_def swapped_host_def require_handle_path_def
      final_path_buffer_chars_def strip_namespace_def profile_paths_def sample_profile_host_def sample_profile_def parent_path_def)

text \<open>The check resolves the expected directory again, so the swapped directories are accepted and held.\<close>

lemma swapped_profile_is_accepted:
  "\<exists>g events. make_profile_guard sample_profile_host swapped_host (Some (ustr ''l'')) sample_profile = (Inr g, events) \<and>
     ph_path profile_paths (strip_namespace (snd (gh_final_path swapped_host 3))) \<noteq> pg_dir g"
  unfolding swapped_guard
  by (auto simp: swapped_host_def strip_namespace_def profile_paths_def sample_profile_def app_data_def)

lemma profile_guard_holds_both_or_none_witness:
  "handles_closed (snd (close_profile_guard \<lparr>pg_dir = sample_profile, pg_handles = [2, 3]\<rparr>)) = [3, 2]"
  using profile_guard_holds_both_or_none [OF swapped_guard] by (simp add: Let_def split: prod.splits)

section \<open>Concrete redactions\<close>

lemma redaction_removes_secrets_witness:
  "redact_browser_text (ustr ''id=tok9;'') [ustr ''k9'', ustr ''tok9''] = ustr ''id=[REDACTED];'' \<and>
   \<not> sublist (ustr ''tok9'') (redact_browser_text (ustr ''id=tok9;'') [ustr ''k9'', ustr ''tok9''])"
proof -
  have "removable (ustr ''tok9'')" by code_simp
  then show ?thesis using redaction_removes_secrets [of "ustr ''tok9''" "[ustr ''k9'', ustr ''tok9'']" "ustr ''id=tok9;''"]
    by (intro conjI) (code_simp, simp)
qed


end
