(* ===== verification/Effects.thy ===== *)
theory Effects
  imports Prelude
begin

text \<open>
  Operations that change a state and may raise: the code that drives the operating system is written with them, in the order of the
  source, so that each call sees the world as the calls before it left it. A raised error keeps the state reached so far; \<open>try ... except\<close>
  selects errors, \<open>try ... finally\<close> always runs its second part. The lemmas carry predicates of the state through a composition.
\<close>

section \<open>Operations\<close>

type_synonym ('s, 'e, 'a) effect = "'s \<Rightarrow> ('e + 'a) \<times> 's"

definition retD :: "'a \<Rightarrow> ('s, 'e, 'a) effect" where "retD x s = (Inr x, s)"

definition failD :: "'e \<Rightarrow> ('s, 'e, 'a) effect" where "failD e s = (Inl e, s)"

definition bindD :: "('s, 'e, 'a) effect \<Rightarrow> ('a \<Rightarrow> ('s, 'e, 'b) effect) \<Rightarrow> ('s, 'e, 'b) effect" where
  "bindD m f s = (case m s of (Inl e, s') \<Rightarrow> (Inl e, s') | (Inr x, s') \<Rightarrow> f x s')"

text \<open>\<open>try ... except\<close>: the errors that \<open>p\<close> selects go to the handler.\<close>

definition catchD :: "('e \<Rightarrow> bool) \<Rightarrow> ('s, 'e, 'a) effect \<Rightarrow> ('e \<Rightarrow> ('s, 'e, 'a) effect) \<Rightarrow> ('s, 'e, 'a) effect" where
  "catchD p m h s = (case m s of (Inl e, s') \<Rightarrow> if p e then h e s' else (Inl e, s') | (Inr x, s') \<Rightarrow> (Inr x, s'))"

definition liftD :: "'e + 'a \<Rightarrow> ('s, 'e, 'a) effect" where
  "liftD r s = (r, s)"

text \<open>\<open>try ... finally\<close>: an error of the second part replaces the result of the first.\<close>

definition finallyD :: "('s, 'e, 'a) effect \<Rightarrow> ('s, 'e, unit) effect \<Rightarrow> ('s, 'e, 'a) effect" where
  "finallyD m f s = (let (r, s1) = m s in case f s1 of (Inl e, s2) \<Rightarrow> (Inl e, s2) | (Inr _, s2) \<Rightarrow> (r, s2))"

section \<open>How they compose\<close>

lemma bindD_Inr: "bindD m f s = (Inr y, s') \<longleftrightarrow> (\<exists>x s1. m s = (Inr x, s1) \<and> f x s1 = (Inr y, s'))"
  by (auto simp: bindD_def split: prod.splits sum.splits)

lemma bindD_Inl: "bindD m f s = (Inl e, s') \<longleftrightarrow> m s = (Inl e, s') \<or> (\<exists>x s1. m s = (Inr x, s1) \<and> f x s1 = (Inl e, s'))"
  by (auto simp: bindD_def split: prod.splits sum.splits)

text \<open>An operation keeps a predicate of the state on every branch.\<close>

definition keeps :: "('s \<Rightarrow> bool) \<Rightarrow> ('s, 'e, 'a) effect \<Rightarrow> bool" where
  "keeps P m \<longleftrightarrow> (\<forall>s. P s \<longrightarrow> P (snd (m s)))"

named_theorems keeps_intros \<open>which operations keep a predicate\<close>

lemma keepsI: "(\<And>s r s'. P s \<Longrightarrow> m s = (r, s') \<Longrightarrow> P s') \<Longrightarrow> keeps P m"
  unfolding keeps_def by (metis prod.collapse)

lemma keepsD: "keeps P m \<Longrightarrow> m s = (r, s') \<Longrightarrow> P s \<Longrightarrow> P s'"
  unfolding keeps_def by (metis snd_conv)

lemma keeps_ret [keeps_intros]: "keeps P (retD x)"
  by (rule keepsI) (simp add: retD_def)

lemma keeps_fail [keeps_intros]: "keeps P (failD e)"
  by (rule keepsI) (simp add: failD_def)

lemma keeps_lift [keeps_intros]: "keeps P (liftD r)"
  by (rule keepsI) (simp add: liftD_def)

lemma keeps_bind [keeps_intros]: "keeps P m \<Longrightarrow> (\<And>x. keeps P (f x)) \<Longrightarrow> keeps P (bindD m f)"
  unfolding keeps_def bindD_def by (auto split: prod.splits sum.splits)

lemma keeps_catch [keeps_intros]: "keeps P m \<Longrightarrow> (\<And>e. keeps P (h e)) \<Longrightarrow> keeps P (catchD p m h)"
  unfolding keeps_def catchD_def by (auto split: prod.splits sum.splits)

lemma keeps_finally [keeps_intros]: "keeps P m \<Longrightarrow> keeps P f \<Longrightarrow> keeps P (finallyD m f)"
  unfolding keeps_def finallyD_def by (auto simp: Let_def split: prod.splits sum.splits)

lemma catchD_Inr: "catchD p m h s = (Inr y, s') \<Longrightarrow> (\<And>e s1. h e s1 \<noteq> (Inr y, s')) \<Longrightarrow> m s = (Inr y, s')"
  by (auto simp: catchD_def split: prod.splits sum.splits if_splits)

section \<open>Triples\<close>

text \<open>From a state with \<open>P\<close>, a value comes with \<open>Q\<close> of it and the state, a raised error with \<open>E\<close> of it and the state.\<close>

definition triple :: "('s \<Rightarrow> bool) \<Rightarrow> ('s, 'e, 'a) effect \<Rightarrow> ('a \<Rightarrow> 's \<Rightarrow> bool) \<Rightarrow> ('e \<Rightarrow> 's \<Rightarrow> bool) \<Rightarrow> bool" where
  "triple P m Q E \<longleftrightarrow> (\<forall>s. P s \<longrightarrow> (case m s of (Inr x, s') \<Rightarrow> Q x s' | (Inl e, s') \<Rightarrow> E e s'))"

lemma tripleI: "(\<And>s x s'. P s \<Longrightarrow> m s = (Inr x, s') \<Longrightarrow> Q x s') \<Longrightarrow> (\<And>s e s'. P s \<Longrightarrow> m s = (Inl e, s') \<Longrightarrow> E e s') \<Longrightarrow> triple P m Q E"
  unfolding triple_def by (auto split: prod.splits sum.splits)

lemma tripleD: "triple P m Q E \<Longrightarrow> P s \<Longrightarrow> m s = (Inr x, s') \<Longrightarrow> Q x s'"
    "triple P m Q E \<Longrightarrow> P s \<Longrightarrow> m s = (Inl e, s') \<Longrightarrow> E e s'"
  unfolding triple_def by fastforce+

lemma triple_ret: "(\<And>s. P s \<Longrightarrow> Q x s) \<Longrightarrow> triple P (retD x) Q E"
  by (simp add: triple_def retD_def)

lemma triple_fail: "(\<And>s. P s \<Longrightarrow> E e s) \<Longrightarrow> triple P (failD e) Q E"
  by (simp add: triple_def failD_def)

lemma triple_bind: "triple P m R E \<Longrightarrow> (\<And>x. triple (R x) (f x) Q E) \<Longrightarrow> triple P (bindD m f) Q E"
  unfolding triple_def bindD_def by (fastforce split: prod.splits sum.splits)

lemma triple_run: "triple P m Q E \<Longrightarrow> P s \<Longrightarrow> (case m s of (Inr x, s') \<Rightarrow> Q x s' | (Inl e, s') \<Rightarrow> E e s')"
  by (simp add: triple_def)

lemma triple_catch:
  assumes "triple P m Q F" "\<And>e. p e \<Longrightarrow> triple (F e) (h e) Q E" "\<And>e s. \<not> p e \<Longrightarrow> F e s \<Longrightarrow> E e s"
  shows "triple P (catchD p m h) Q E"
  unfolding triple_def
proof (intro allI impI)
  fix s assume "P s"
  note m = triple_run [OF assms(1) this]
  show "case catchD p m h s of (Inr x, s') \<Rightarrow> Q x s' | (Inl e, s') \<Rightarrow> E e s'"
  proof (cases "m s")
    case (Pair r s1)
    then show ?thesis
      using m triple_run [OF assms(2)] assms(3) by (cases r) (simp_all add: catchD_def)
  qed
qed

lemma triple_finally:
  assumes "triple P m R F" "\<And>x. triple (R x) f (\<lambda>_. Q x) E" "\<And>e. triple (F e) f (\<lambda>_. E e) E"
  shows "triple P (finallyD m f) Q E"
  unfolding triple_def
proof (intro allI impI)
  fix s assume "P s"
  note m = triple_run [OF assms(1) this]
  obtain r s1 where r: "m s = (r, s1)" by fastforce
  obtain q s2 where q: "f s1 = (q, s2)" by fastforce
  show "case finallyD m f s of (Inr x, s') \<Rightarrow> Q x s' | (Inl e, s') \<Rightarrow> E e s'"
  proof (cases r)
    case (Inl e)
    then show ?thesis using m r q triple_run [OF assms(3), of e s1] by (cases q) (simp_all add: finallyD_def)
  next
    case (Inr x)
    then show ?thesis using m r q triple_run [OF assms(2), of x s1] by (cases q) (simp_all add: finallyD_def)
  qed
qed

lemma triple_weaken:
  assumes "triple P m Q E" "\<And>s. P' s \<Longrightarrow> P s" "\<And>x s. Q x s \<Longrightarrow> Q' x s" "\<And>e s. E e s \<Longrightarrow> E' e s"
  shows "triple P' m Q' E'"
  using assms tripleD [OF assms(1)] by (intro tripleI) blast+

lemma triple_pure: "triple (\<lambda>s. P s \<and> c) m Q E \<longleftrightarrow> (c \<longrightarrow> triple P m Q E)"
  by (auto simp: triple_def)

end
