(* ===== verification/Desktop_Input.thy ===== *)
theory Desktop_Input
  imports Complex_Main Effects Worker_Desktop Py_Hash "HOL-Library.Sublist"
begin

text \<open>
  Pointer and keyboard input (\<open>worker/desktop_input.py\<close>: the guards of a mutation, the map of coordinates and the answer;
  \<open>worker/win32_input.py\<close>: the batches handed to \<open>SendInput\<close>, the check of the pointer and the compensation). The system
  is an argument: each call to it takes its state and returns an answer, so that anything may change between two calls. A log
  records every batch and every boundary check that passed. The lemmas show that no batch is sent without a fresh check, that a
  refusal has sent nothing, and that a success has sent the whole mutation.
\<close>

section \<open>Mutations\<close>

datatype coordinate_space = Physical | Observation

record input_point =
  ip_x :: int
  ip_y :: int
  ip_space :: coordinate_space

definition physical_point :: "int \<times> int \<Rightarrow> input_point" where
  "physical_point p = \<lparr>ip_x = fst p, ip_y = snd p, ip_space = Physical\<rparr>"

record input_guard =
  ig_process :: "pystr option"
  ig_title_contains :: "pystr option"
  ig_state_token :: "pystr option"

datatype mouse_button = LeftButton | MiddleButton | RightButton

datatype desktop_mutation =
    ClickPointer input_point mouse_button nat
  | MovePointer input_point
  | ScrollWheel int int
  | TypeText pystr
  | Hotkey "pystr list"
  | PressKey pystr nat

record foreground =
  fg_title :: pystr
  fg_process :: "pystr option"
  fg_pid :: int
  fg_bounds :: "int \<times> int \<times> int \<times> int"
  fg_handle :: "int option"

record desktop_runtime =
  dr_available :: bool
  dr_unlocked :: bool
  dr_foreground :: "foreground option"

text \<open>The scale is kept as the exact value of the float; the rounded product is an answer of the host.\<close>

record observation_transform =
  ot_token :: pystr
  ot_left :: int
  ot_top :: int
  ot_width :: int
  ot_height :: int
  ot_scale_x :: rat
  ot_scale_y :: rat

text \<open>The codes of the virtual keys.\<close>

definition key_codes :: "(pystr \<times> int) list" where
  "key_codes =
     zip (map ustr [''backspace'', ''tab'', ''enter'', ''shift'', ''ctrl'', ''alt'', ''escape'', ''space''])
         [8, 9, 13, 16, 17, 18, 27, 32] @
     zip (map ustr [''pageup'', ''pagedown'', ''end'', ''home'', ''left'', ''up'', ''right'', ''down'', ''delete'', ''win''])
         [33, 34, 35, 36, 37, 38, 39, 40, 46, 91] @
     map (\<lambda>n. ([n + 32], int n)) [65..<91] @
     map (\<lambda>n. ([48 + n], 48 + int n)) [0..<10] @
     map (\<lambda>n. (ustr ''f'' @ (if n < 10 then [48 + n] else [49, 38 + n]), 111 + int n)) [1..<13]"

section \<open>Errors and state\<close>

text \<open>
  The two errors of the gate, the three errors of a mutation with the points they carry, and any other exception, which
  leaves the controller as it is (an unknown key, a failing probe, a text that cannot be encoded).
\<close>

type_synonym pixel = "int \<times> int"

datatype input_error =
    GateRefused desktop_error
  | LimitationError "pixel option" "pixel option" "pixel option"
  | StateConflictError
  | StateUncertainError "pixel option" "pixel option" "pixel option"
  | EscapedError string

fun is_mutation_error :: "input_error \<Rightarrow> bool" where
  "is_mutation_error (GateRefused _) = True"
| "is_mutation_error (LimitationError _ _ _) = True"
| "is_mutation_error StateConflictError = True"
| "is_mutation_error _ = False"

text \<open>One \<open>INPUT\<close> structure: the fields keep the width that \<open>ctypes\<close> gives them.\<close>

datatype input_event =
    MouseInput int int "32 word" "32 word"
  | KeyInput "16 word" "16 word" "32 word"

datatype desk_event = BoundaryPassed "foreground option" | SentInput "input_event list" nat

text \<open>
  What is asked of the system, in order: the probe of the desktop (\<open>None\<close> when it raises), whether the marker of the
  emergency stop is absent, the answer of the gate's waiting loop (\<^const>\<open>gate_try\<close>), \<open>SendInput\<close> with the number it inserted, the
  cursor, the virtual screen, and how many readings of the cursor the clock allows in 100 ms. Then the library: \<open>casefold\<close>, the
  \<open>repr\<close> of a foreground, and \<open>round(x * scale)\<close>.
\<close>

record 'w desk_host =
  dh_probe :: "'w \<Rightarrow> desktop_runtime option \<times> 'w"
  dh_enabled :: "'w \<Rightarrow> bool \<times> 'w"
  dh_enter :: "'w \<Rightarrow> desktop_error option \<times> 'w"
  dh_send_input :: "input_event list \<Rightarrow> 'w \<Rightarrow> nat \<times> 'w"
  dh_cursor :: "'w \<Rightarrow> pixel option \<times> 'w"
  dh_metrics :: "'w \<Rightarrow> (int \<times> int \<times> int \<times> int) \<times> 'w"
  dh_polls :: "'w \<Rightarrow> nat \<times> 'w"
  dh_casefold :: "pystr \<Rightarrow> pystr"
  dh_repr :: "foreground \<Rightarrow> pystr"
  dh_round :: "int \<Rightarrow> rat \<Rightarrow> int"

text \<open>The state of one call of \<open>mutate\<close>: the world, the variables of its closures, and the log, newest first.\<close>

record 'w desk =
  ds_world :: 'w
  ds_initial :: "foreground option"
  ds_validated :: bool
  ds_point :: "input_point option"
  ds_log :: "desk_event list"

type_synonym ('w, 'a) desk_op = "('w desk, input_error, 'a) effect"

definition askD :: "('w \<Rightarrow> 'a \<times> 'w) \<Rightarrow> ('w, 'a) desk_op" where
  "askD q s = (let (x, w) = q (ds_world s) in (Inr x, s\<lparr>ds_world := w\<rparr>))"

definition logD :: "desk_event \<Rightarrow> ('w, unit) desk_op" where
  "logD e s = (Inr (), s\<lparr>ds_log := e # ds_log s\<rparr>)"

section \<open>Validation\<close>

definition desktop_state_token :: "'w desk_host \<Rightarrow> foreground option \<Rightarrow> pystr option" where
  "desktop_state_token host fg =
     map_option (\<lambda>b. take 16 (sha256_hex b))
       (utf8_encode (case fg of None \<Rightarrow> ustr ''no-foreground-window'' | Some f \<Rightarrow> dh_repr host f))"

text \<open>The conditions of the guard, in the order of the code; \<open>None\<close> when the token cannot be computed.\<close>

definition guard_answer :: "'w desk_host \<Rightarrow> input_guard \<Rightarrow> foreground option \<Rightarrow> bool option" where
  "guard_answer host guard fg =
     (if (case ig_process guard of None \<Rightarrow> False | Some p \<Rightarrow>
            (case fg of None \<Rightarrow> True | Some f \<Rightarrow>
               (case fg_process f of None \<Rightarrow> True | Some q \<Rightarrow> dh_casefold host q \<noteq> dh_casefold host p))) then Some False
      else if (case ig_title_contains guard of None \<Rightarrow> False | Some t \<Rightarrow>
            (case fg of None \<Rightarrow> True | Some f \<Rightarrow> \<not> sublist (dh_casefold host t) (dh_casefold host (fg_title f)))) then Some False
      else (case ig_state_token guard of None \<Rightarrow> Some True | Some t \<Rightarrow>
              map_option (\<lambda>u. t = u) (desktop_state_token host fg)))"

definition validate_foreground :: "'w desk_host \<Rightarrow> input_guard \<Rightarrow> foreground option \<Rightarrow> bool \<Rightarrow> ('w, foreground option) desk_op" where
  "validate_foreground host guard initial enforce =
     bindD (askD (dh_probe host)) (\<lambda>answer.
       case answer of None \<Rightarrow> failD (EscapedError ''probe'') | Some r \<Rightarrow>
         if \<not> dr_available r \<or> \<not> dr_unlocked r then failD (LimitationError None None None)
         else if enforce \<and> dr_foreground r \<noteq> initial then failD StateConflictError
         else (case guard_answer host guard (dr_foreground r) of
                 None \<Rightarrow> failD (EscapedError ''UnicodeEncodeError'')
               | Some False \<Rightarrow> failD StateConflictError
               | Some True \<Rightarrow> retD (dr_foreground r)))"

definition validate_once :: "'w desk_host \<Rightarrow> input_guard \<Rightarrow> ('w, unit) desk_op" where
  "validate_once host guard s =
     bindD (validate_foreground host guard (ds_initial s) (ds_validated s))
       (\<lambda>fg s'. (Inr (), s'\<lparr>ds_initial := fg, ds_validated := True\<rparr>)) s"

text \<open>\<open>boundary_check\<close>: the marker, then the validation. That it passed is logged with the foreground it saw.\<close>

definition boundary_check :: "'w desk_host \<Rightarrow> input_guard \<Rightarrow> ('w, unit) desk_op" where
  "boundary_check host guard =
     bindD (askD (dh_enabled host)) (\<lambda>enabled.
       if \<not> enabled then failD (GateRefused EmergencyStopActiveError)
       else bindD (validate_once host guard) (\<lambda>_ s. logD (BoundaryPassed (ds_initial s)) s))"

section \<open>Events\<close>

definition mouse_event :: "int \<Rightarrow> int \<Rightarrow> int \<Rightarrow> int \<Rightarrow> input_event" where
  "mouse_event flags data x y = MouseInput x y (word_of_int data) (word_of_int flags)"

definition key_event :: "int \<Rightarrow> int \<Rightarrow> int \<Rightarrow> input_event" where
  "key_event key scan flags = KeyInput (word_of_int key) (word_of_int scan) (word_of_int flags)"

definition keyup_flag :: int where "keyup_flag = 2"
definition unicode_flag :: int where "unicode_flag = 4"

fun button_flags :: "mouse_button \<Rightarrow> int \<times> int" where
  "button_flags LeftButton = (2, 4)"
| "button_flags RightButton = (8, 16)"
| "button_flags MiddleButton = (32, 64)"

definition absolute_coordinate :: "int \<Rightarrow> int \<Rightarrow> int \<Rightarrow> int" where
  "absolute_coordinate pixel origin extent =
     (let offset = max 0 (min (extent - 1) (pixel - origin)); denominator = max (extent - 1) 1
      in min ((offset * 65535 + denominator - 1) div denominator) 65535)"

text \<open>\<open>encode("utf-16-le", errors="surrogatepass")\<close>, two bytes at a time, least significant first.\<close>

definition utf16_units :: "nat \<Rightarrow> int list" where
  "utf16_units c = (if c < 0x10000 then [int c] else [0xD800 + (int c - 0x10000) div 0x400, 0xDC00 + (int c - 0x10000) mod 0x400])"

definition text_events :: "pystr \<Rightarrow> input_event list" where
  "text_events text =
     concat (map (\<lambda>u. [key_event 0 u unicode_flag, key_event 0 u (unicode_flag + keyup_flag)]) (concat (map utf16_units text)))"

text \<open>\<open>None\<close> is the \<open>KeyError\<close> of an unknown key.\<close>

fun key_list :: "pystr list \<Rightarrow> int list option" where
  "key_list [] = Some []"
| "key_list (k # ks) = (case map_of key_codes k of None \<Rightarrow> None | Some c \<Rightarrow> map_option (Cons c) (key_list ks))"

fun mutation_events :: "desktop_mutation \<Rightarrow> input_event list option" where
  "mutation_events (ScrollWheel x y) =
     Some ((if x \<noteq> 0 then [mouse_event 0x1000 x 0 0] else []) @ (if y \<noteq> 0 then [mouse_event 0x0800 y 0 0] else []))"
| "mutation_events (TypeText t) = Some (text_events t)"
| "mutation_events (Hotkey ks) =
     map_option (\<lambda>cs. map (\<lambda>c. key_event c 0 0) cs @ map (\<lambda>c. key_event c 0 keyup_flag) (rev cs)) (key_list ks)"
| "mutation_events (PressKey k n) =
     (if n = 0 then Some []
      else map_option (\<lambda>c. concat (replicate n [key_event c 0 0, key_event c 0 keyup_flag])) (map_of key_codes k))"
| "mutation_events _ = None"

definition click_events :: "mouse_button \<Rightarrow> nat \<Rightarrow> input_event list" where
  "click_events b n = concat (replicate n [mouse_event (fst (button_flags b)) 0 0 0, mouse_event (snd (button_flags b)) 0 0 0])"

section \<open>The backend\<close>

definition insert_events :: "'w desk_host \<Rightarrow> input_guard \<Rightarrow> input_event list \<Rightarrow> ('w, nat) desk_op" where
  "insert_events host guard events =
     bindD (boundary_check host guard) (\<lambda>_.
       bindD (askD (dh_send_input host events)) (\<lambda>n. bindD (logD (SentInput events n)) (\<lambda>_. retD n)))"

definition cursor_position :: "'w desk_host \<Rightarrow> ('w, pixel) desk_op" where
  "cursor_position host =
     bindD (askD (dh_cursor host)) (\<lambda>c. case c of None \<Rightarrow> failD (LimitationError None None None) | Some p \<Rightarrow> retD p)"

fun poll_cursor :: "'w desk_host \<Rightarrow> pixel \<Rightarrow> nat \<Rightarrow> ('w, pixel) desk_op" where
  "poll_cursor host target 0 = cursor_position host"
| "poll_cursor host target (Suc n) =
     bindD (cursor_position host) (\<lambda>p. if p = target then retD p else poll_cursor host target n)"

definition wait_for_cursor :: "'w desk_host \<Rightarrow> pixel \<Rightarrow> ('w, pixel) desk_op" where
  "wait_for_cursor host target = bindD (askD (dh_polls host)) (poll_cursor host target)"

definition move_event :: "'w desk_host \<Rightarrow> pixel \<Rightarrow> ('w, input_event) desk_op" where
  "move_event host p =
     bindD (askD (dh_metrics host)) (\<lambda>(left, top, width, height).
       retD (mouse_event (1 + 0x4000 + 0x8000) 0 (absolute_coordinate (fst p) left width) (absolute_coordinate (snd p) top height)))"

definition compensate :: "'w desk_host \<Rightarrow> input_guard \<Rightarrow> pixel \<Rightarrow> pixel option \<Rightarrow> pixel \<Rightarrow> ('w, 'a) desk_op" where
  "compensate host guard before observed target =
     bindD
       (catchD is_mutation_error
         (bindD (move_event host before) (\<lambda>e. bindD (insert_events host guard [e]) (\<lambda>n.
            bindD (wait_for_cursor host before) (\<lambda>restored. retD (n, restored)))))
         (\<lambda>_. failD (StateUncertainError (Some before) observed (Some target))))
       (\<lambda>(repaired, restored).
          if repaired = 1 \<and> restored = before then failD (LimitationError (Some before) (Some restored) (Some target))
          else failD (StateUncertainError (Some before) (Some restored) (Some target)))"

definition repair_failed_click ::
  "'w desk_host \<Rightarrow> input_guard \<Rightarrow> pixel \<Rightarrow> pixel \<Rightarrow> int \<Rightarrow> nat \<Rightarrow> ('w, 'a) desk_op" where
  "repair_failed_click host guard before target button_up inserted =
     bindD
       (catchD is_mutation_error (bindD (cursor_position host) (\<lambda>p. retD (Some p))) (\<lambda>_. retD None)) (\<lambda>observed.
     bindD (move_event host before) (\<lambda>back.
       (let repair = (if inserted mod 2 \<noteq> 0 then [mouse_event button_up 0 0 0] else []) @ [back] in
        bindD
          (catchD is_mutation_error
            (bindD (insert_events host guard repair) (\<lambda>n. bindD (wait_for_cursor host before) (\<lambda>restored. retD (n, restored))))
            (\<lambda>_. failD (StateUncertainError (Some before) observed (Some target))))
          (\<lambda>(repaired, restored).
             if repaired = length repair \<and> restored = before
             then failD (LimitationError (Some before) (Some restored) (Some target))
             else failD (StateUncertainError (Some before) (Some restored) (Some target))))))"

definition move_verified :: "'w desk_host \<Rightarrow> input_guard \<Rightarrow> pixel \<Rightarrow> ('w, pixel) desk_op" where
  "move_verified host guard target =
     bindD (cursor_position host) (\<lambda>before.
     bindD (move_event host target) (\<lambda>e.
     bindD (insert_events host guard [e]) (\<lambda>n.
       if n = 0 then failD (LimitationError None None None)
       else if n \<noteq> 1 then failD (StateUncertainError (Some before) None (Some target))
       else bindD
         (catchD is_mutation_error (wait_for_cursor host target) (\<lambda>_. compensate host guard before None target))
         (\<lambda>observed. if observed = target then retD before else compensate host guard before (Some observed) target))))"

definition pixel_of :: "input_point \<Rightarrow> pixel" where "pixel_of p = (ip_x p, ip_y p)"

definition send_click :: "'w desk_host \<Rightarrow> input_guard \<Rightarrow> pixel \<Rightarrow> mouse_button \<Rightarrow> nat \<Rightarrow> ('w, unit) desk_op" where
  "send_click host guard target button clicks =
     bindD (move_verified host guard target) (\<lambda>before.
       (let events = click_events button clicks; up = snd (button_flags button) in
        bindD
          (catchD is_mutation_error (insert_events host guard events)
            (\<lambda>_. repair_failed_click host guard before target up 0)) (\<lambda>inserted.
        if inserted \<noteq> length events then repair_failed_click host guard before target up inserted
        else bindD
          (catchD is_mutation_error (wait_for_cursor host target) (\<lambda>_. compensate host guard before None target))
          (\<lambda>observed. if observed \<noteq> target then compensate host guard before (Some observed) target else retD ()))))"

fun backend_send :: "'w desk_host \<Rightarrow> input_guard \<Rightarrow> desktop_mutation \<Rightarrow> ('w, unit) desk_op" where
  "backend_send host guard (MovePointer p) = bindD (move_verified host guard (pixel_of p)) (\<lambda>_. retD ())"
| "backend_send host guard (ClickPointer p b n) = send_click host guard (pixel_of p) b n"
| "backend_send host guard m =
     (case mutation_events m of
        None \<Rightarrow> failD (EscapedError ''KeyError'')
      | Some events \<Rightarrow> bindD (insert_events host guard events) (\<lambda>n.
          if n = 0 then failD (LimitationError None None None)
          else if n \<noteq> length events then failD (StateUncertainError None None None)
          else retD ()))"

section \<open>The controller\<close>

definition map_point :: "'w desk_host \<Rightarrow> observation_transform option \<Rightarrow> input_guard \<Rightarrow> input_point \<Rightarrow> input_error + input_point" where
  "map_point host transform guard p =
     (if ip_space p = Physical then Inr p
      else case transform of
        None \<Rightarrow> Inl StateConflictError
      | Some t \<Rightarrow>
          if ig_state_token guard \<noteq> Some (ot_token t) then Inl StateConflictError
          else if ip_x p < 0 \<or> ip_y p < 0 \<or> ot_width t \<le> ip_x p \<or> ot_height t \<le> ip_y p then Inl StateConflictError
          else Inr (physical_point (ot_left t + dh_round host (ip_x p) (ot_scale_x t), ot_top t + dh_round host (ip_y p) (ot_scale_y t))))"

fun map_mutation ::
  "'w desk_host \<Rightarrow> observation_transform option \<Rightarrow> input_guard \<Rightarrow> desktop_mutation \<Rightarrow> input_error + desktop_mutation" where
  "map_mutation host transform guard (ClickPointer p b n) = bindR (map_point host transform guard p) (\<lambda>q. Inr (ClickPointer q b n))"
| "map_mutation host transform guard (MovePointer p) = bindR (map_point host transform guard p) (\<lambda>q. Inr (MovePointer q))"
| "map_mutation host transform guard m = Inr m"

fun mutation_point :: "desktop_mutation \<Rightarrow> input_point option" where
  "mutation_point (ClickPointer p _ _) = Some p"
| "mutation_point (MovePointer p) = Some p"
| "mutation_point _ = None"

definition setPointD :: "input_point option \<Rightarrow> ('w, unit) desk_op" where
  "setPointD p s = (Inr (), s\<lparr>ds_point := p\<rparr>)"

text \<open>The closure \<open>send\<close>: a conflict seen after the input was sent makes the state uncertain.\<close>

definition controlled_send ::
  "'w desk_host \<Rightarrow> observation_transform option \<Rightarrow> input_guard \<Rightarrow> desktop_mutation \<Rightarrow> ('w, unit) desk_op" where
  "controlled_send host transform guard m =
     bindD (liftD (map_mutation host transform guard m)) (\<lambda>mapped.
     bindD (setPointD (mutation_point mapped)) (\<lambda>_.
     bindD (validate_once host guard) (\<lambda>_.
     bindD (backend_send host guard mapped) (\<lambda>_.
       catchD (\<lambda>e. e = StateConflictError) (validate_once host guard) (\<lambda>_. failD (StateUncertainError None None None))))))"

text \<open>\<open>gate.run\<close>, from the answer of its waiting loop to the release of the gate.\<close>

definition gate_run_once ::
  "'w desk_host \<Rightarrow> observation_transform option \<Rightarrow> input_guard \<Rightarrow> desktop_mutation \<Rightarrow> ('w, unit) desk_op" where
  "gate_run_once host transform guard m =
     bindD (askD (dh_enter host)) (\<lambda>refusal. case refusal of
       Some e \<Rightarrow> failD (GateRefused e)
     | None \<Rightarrow>
         bindD (validate_once host guard) (\<lambda>_.
         bindD (askD (dh_enabled host)) (\<lambda>enabled.
           if \<not> enabled then failD (GateRefused EmergencyStopActiveError) else controlled_send host transform guard m)))"

datatype desktop_code = DesktopBusy | EmergencyStop | Limitation | StateConflict | StateUncertain

record desktop_result =
  mr_ok :: bool
  mr_code :: "desktop_code option"
  mr_physical :: "input_point option"
  mr_before :: "input_point option"
  mr_observed :: "input_point option"
  mr_target :: "input_point option"

definition failure_result :: "desktop_code \<Rightarrow> pixel option \<Rightarrow> pixel option \<Rightarrow> pixel option \<Rightarrow> desktop_result" where
  "failure_result code before observed target =
     \<lparr>mr_ok = False, mr_code = Some code, mr_physical = None, mr_before = map_option physical_point before,
      mr_observed = map_option physical_point observed, mr_target = map_option physical_point target\<rparr>"

text \<open>\<open>_failure\<close>; \<open>None\<close> is an exception that is not caught.\<close>

fun mutation_failure :: "input_error \<Rightarrow> desktop_result option" where
  "mutation_failure (GateRefused EmergencyStopActiveError) = Some (failure_result EmergencyStop None None None)"
| "mutation_failure (GateRefused DesktopBusyError) = Some (failure_result DesktopBusy None None None)"
| "mutation_failure (LimitationError b ob t) = Some (failure_result Limitation b ob t)"
| "mutation_failure StateConflictError = Some (failure_result StateConflict None None None)"
| "mutation_failure (StateUncertainError b ob t) = Some (failure_result StateUncertain b ob t)"
| "mutation_failure (EscapedError _) = None"

definition start_desk :: "'w \<Rightarrow> 'w desk" where
  "start_desk w = \<lparr>ds_world = w, ds_initial = None, ds_validated = False, ds_point = None, ds_log = []\<rparr>"

definition mutate_desktop ::
  "'w desk_host \<Rightarrow> observation_transform option \<Rightarrow> desktop_mutation \<Rightarrow> input_guard \<Rightarrow> 'w \<Rightarrow> desktop_result option \<times> 'w desk" where
  "mutate_desktop host transform m guard w =
     (case gate_run_once host transform guard m (start_desk w) of
        (Inl e, s) \<Rightarrow> (mutation_failure e, s)
      | (Inr _, s) \<Rightarrow>
          (Some \<lparr>mr_ok = True, mr_code = None, mr_physical = ds_point s, mr_before = None, mr_observed = None, mr_target = None\<rparr>, s))"

text \<open>A predicate of the log and of what the validation remembers does not see the world.\<close>

definition world_free :: "('w desk \<Rightarrow> bool) \<Rightarrow> bool" where
  "world_free P \<longleftrightarrow> (\<forall>s w. P (s\<lparr>ds_world := w\<rparr>) = P s)"

definition point_free :: "('w desk \<Rightarrow> bool) \<Rightarrow> bool" where
  "point_free P \<longleftrightarrow> (\<forall>s p. P (s\<lparr>ds_point := p\<rparr>) = P s)"

lemma keeps_ask [keeps_intros]: "world_free P \<Longrightarrow> keeps P (askD q)"
  unfolding keeps_def askD_def world_free_def by (auto split: prod.splits)

lemma keeps_point [keeps_intros]: "point_free P \<Longrightarrow> keeps P (setPointD p)"
  unfolding keeps_def setPointD_def point_free_def by auto

lemma keeps_cursor [keeps_intros]: "world_free P \<Longrightarrow> keeps P (cursor_position host)"
  unfolding cursor_position_def by (intro keeps_intros) (simp_all split: option.split add: keeps_intros)

lemma keeps_poll: "world_free P \<Longrightarrow> keeps P (poll_cursor host target n)"
  by (induction n) (simp_all add: keeps_intros)

lemma keeps_wait [keeps_intros]: "world_free P \<Longrightarrow> keeps P (wait_for_cursor host target)"
  unfolding wait_for_cursor_def by (intro keeps_intros keeps_poll)

lemma keeps_move_event [keeps_intros]: "world_free P \<Longrightarrow> keeps P (move_event host p)"
  unfolding move_event_def by (intro keeps_intros) (simp_all split: prod.split add: keeps_intros)

lemma keeps_compensate [keeps_intros]:
  "world_free P \<Longrightarrow> (\<And>es. keeps P (insert_events host guard es)) \<Longrightarrow> keeps P (compensate host guard before observed target)"
  unfolding compensate_def by (intro keeps_intros) (auto split: prod.split intro!: keeps_intros)

lemma keeps_repair [keeps_intros]:
  "world_free P \<Longrightarrow> (\<And>es. keeps P (insert_events host guard es)) \<Longrightarrow>
   keeps P (repair_failed_click host guard before target up n)"
  unfolding repair_failed_click_def Let_def
  by (intro keeps_intros) (auto split: prod.split intro!: keeps_intros)

lemma keeps_move_verified [keeps_intros]:
  "world_free P \<Longrightarrow> (\<And>es. keeps P (insert_events host guard es)) \<Longrightarrow> keeps P (move_verified host guard target)"
  unfolding move_verified_def by (intro keeps_intros) (auto intro!: keeps_intros)

lemma keeps_click [keeps_intros]:
  "world_free P \<Longrightarrow> (\<And>es. keeps P (insert_events host guard es)) \<Longrightarrow> keeps P (send_click host guard target b n)"
  unfolding send_click_def Let_def by (intro keeps_intros) (auto intro!: keeps_intros)

lemma keeps_backend [keeps_intros]:
  "world_free P \<Longrightarrow> (\<And>es. keeps P (insert_events host guard es)) \<Longrightarrow> keeps P (backend_send host guard m)"
  by (cases m) (auto split: option.split intro!: keeps_intros)

lemma keeps_gate_run:
  assumes "world_free P" "point_free P" "\<And>es. keeps P (insert_events host guard es)" "keeps P (validate_once host guard)"
  shows "keeps P (gate_run_once host transform guard m)"
  unfolding gate_run_once_def controlled_send_def
  by (intro keeps_intros assms) (auto split: option.split intro!: keeps_intros assms)

section \<open>Every batch is checked\<close>

text \<open>In a log, newest first, every batch follows directly a boundary check that passed.\<close>

fun checked_sends :: "desk_event list \<Rightarrow> bool" where
  "checked_sends [] \<longleftrightarrow> True"
| "checked_sends (SentInput es n # l) \<longleftrightarrow> (\<exists>f l'. l = BoundaryPassed f # l') \<and> checked_sends l"
| "checked_sends (BoundaryPassed f # l) \<longleftrightarrow> checked_sends l"

definition desk_inv :: "'w desk_host \<Rightarrow> input_guard \<Rightarrow> 'w desk \<Rightarrow> bool" where
  "desk_inv host guard s \<longleftrightarrow>
     checked_sends (ds_log s) \<and>
     (\<forall>f. BoundaryPassed f \<in> set (ds_log s) \<longrightarrow> f = ds_initial s \<and> ds_validated s \<and> guard_answer host guard f = Some True)"

lemma desk_inv_world_free: "world_free (desk_inv host guard)" "point_free (desk_inv host guard)"
  by (simp_all add: world_free_def point_free_def desk_inv_def)

lemma validate_foreground_result:
  assumes "validate_foreground host guard initial enforce s = (r, s')"
  shows "\<exists>w. s' = s\<lparr>ds_world := w\<rparr>" "r = Inr fg \<Longrightarrow> guard_answer host guard fg = Some True \<and> (enforce \<longrightarrow> fg = initial)"
    "r = Inl e \<Longrightarrow> e = LimitationError None None None \<or> e = StateConflictError \<or> (\<exists>x. e = EscapedError x)"
  using assms
  by (auto simp: validate_foreground_def bindD_def askD_def failD_def retD_def split: prod.splits option.splits if_splits bool.splits)

lemma validate_once_result:
  assumes "validate_once host guard s = (r, s')"
  shows "ds_log s' = ds_log s"
    "r = Inr u \<Longrightarrow> ds_validated s' \<and> guard_answer host guard (ds_initial s') = Some True \<and> (ds_validated s \<longrightarrow> ds_initial s' = ds_initial s)"
    "r = Inl e \<Longrightarrow> ds_validated s' = ds_validated s \<and> ds_initial s' = ds_initial s \<and>
       (e = LimitationError None None None \<or> e = StateConflictError \<or> (\<exists>x. e = EscapedError x))"
proof -
  obtain v s1 where v: "validate_foreground host guard (ds_initial s) (ds_validated s) s = (v, s1)" by fastforce
  note f = validate_foreground_result [OF v]
  show "ds_log s' = ds_log s" using assms v f(1) by (cases v) (auto simp: validate_once_def bindD_def)
  show "r = Inr u \<Longrightarrow> ds_validated s' \<and> guard_answer host guard (ds_initial s') = Some True \<and> (ds_validated s \<longrightarrow> ds_initial s' = ds_initial s)"
    using assms v f(2) by (cases v) (auto simp: validate_once_def bindD_def)
  show "r = Inl e \<Longrightarrow> ds_validated s' = ds_validated s \<and> ds_initial s' = ds_initial s \<and>
      (e = LimitationError None None None \<or> e = StateConflictError \<or> (\<exists>x. e = EscapedError x))"
    using assms v f(1,3) by (cases v) (auto simp: validate_once_def bindD_def)
qed

lemma validate_keeps_inv: "keeps (desk_inv host guard) (validate_once host guard)"
proof (rule keepsI)
  fix s r s' assume i: "desk_inv host guard s" and v: "validate_once host guard s = (r, s')"
  note f = validate_once_result [OF v]
  show "desk_inv host guard s'"
    using i f(1) f(2) f(3) by (cases r) (auto simp: desk_inv_def)
qed

lemma boundary_check_result:
  assumes "boundary_check host guard s = (r, s')"
  shows "r = Inl e \<Longrightarrow> ds_log s' = ds_log s \<and> ds_validated s' = ds_validated s \<and> ds_initial s' = ds_initial s"
    "r = Inr u \<Longrightarrow> ds_log s' = BoundaryPassed (ds_initial s') # ds_log s \<and> ds_validated s' \<and>
       guard_answer host guard (ds_initial s') = Some True \<and> (ds_validated s \<longrightarrow> ds_initial s' = ds_initial s)"
proof -
  obtain b w where w: "dh_enabled host (ds_world s) = (b, w)" by fastforce
  obtain v s1 where v: "validate_once host guard (s\<lparr>ds_world := w\<rparr>) = (v, s1)" by fastforce
  note f = validate_once_result [OF v]
  show "r = Inl e \<Longrightarrow> ds_log s' = ds_log s \<and> ds_validated s' = ds_validated s \<and> ds_initial s' = ds_initial s"
    using assms w v f(1) f(3) by (cases b; cases v) (auto simp: boundary_check_def bindD_def askD_def failD_def logD_def)
  show "r = Inr u \<Longrightarrow> ds_log s' = BoundaryPassed (ds_initial s') # ds_log s \<and> ds_validated s' \<and>
      guard_answer host guard (ds_initial s') = Some True \<and> (ds_validated s \<longrightarrow> ds_initial s' = ds_initial s)"
    using assms w v f(1,2) by (cases b; cases v) (auto simp: boundary_check_def bindD_def askD_def failD_def logD_def)
qed

lemma insert_events_result:
  assumes "insert_events host guard events s = (r, s')"
  shows "r = Inl e \<Longrightarrow> boundary_check host guard s = (Inl e, s')"
    "r = Inr n \<Longrightarrow> \<exists>s1 w. boundary_check host guard s = (Inr (), s1) \<and>
       s' = s1\<lparr>ds_world := w, ds_log := SentInput events n # ds_log s1\<rparr>"
  using assms by (auto simp: insert_events_def bindD_def askD_def logD_def retD_def split: prod.splits sum.splits)

lemma insert_keeps_inv: "keeps (desk_inv host guard) (insert_events host guard events)"
proof (rule keepsI)
  fix s r s' assume i: "desk_inv host guard s" and m: "insert_events host guard events s = (r, s')"
  show "desk_inv host guard s'"
  proof (cases r)
    case (Inl e)
    then show ?thesis
      using i boundary_check_result(1) [OF insert_events_result(1) [OF m Inl] refl] by (simp add: desk_inv_def)
  next
    case (Inr n)
    then obtain s1 w where b: "boundary_check host guard s = (Inr (), s1)"
      and s': "s' = s1\<lparr>ds_world := w, ds_log := SentInput events n # ds_log s1\<rparr>"
      using insert_events_result(2) [OF m] by blast
    show ?thesis using i boundary_check_result(2) [OF b refl] by (auto simp: desk_inv_def s')
  qed
qed


section \<open>A refusal has sent nothing\<close>

fun sent_batches :: "desk_event list \<Rightarrow> (input_event list \<times> nat) list" where
  "sent_batches [] = []"
| "sent_batches (SentInput es n # l) = (es, n) # sent_batches l"
| "sent_batches (_ # l) = sent_batches l"

definition refusal :: "input_error \<Rightarrow> bool" where
  "refusal e \<longleftrightarrow> (\<exists>g. e = GateRefused g) \<or> e = StateConflictError"

text \<open>An operation that never refuses; one that refuses only before it has sent anything; one that sends nothing.\<close>

definition settled :: "('w, 'a) desk_op \<Rightarrow> bool" where
  "settled m \<longleftrightarrow> (\<forall>s e s'. m s = (Inl e, s') \<longrightarrow> \<not> refusal e)"

definition refuses_clean :: "('w, 'a) desk_op \<Rightarrow> bool" where
  "refuses_clean m \<longleftrightarrow> (\<forall>s e s'. m s = (Inl e, s') \<longrightarrow> refusal e \<longrightarrow> sent_batches (ds_log s') = sent_batches (ds_log s))"

definition quiet :: "('w, 'a) desk_op \<Rightarrow> bool" where
  "quiet m \<longleftrightarrow> (\<forall>l. keeps (\<lambda>s. sent_batches (ds_log s) = l) m)"

named_theorems settled_intros \<open>which operations never refuse\<close>

lemma quiet_result: "quiet m \<Longrightarrow> m s = (r, s') \<Longrightarrow> sent_batches (ds_log s') = sent_batches (ds_log s)"
  unfolding quiet_def by (blast dest: keepsD)

lemma sends_world_free: "world_free (\<lambda>s. sent_batches (ds_log s) = l)" "point_free (\<lambda>s. sent_batches (ds_log s) = l)"
  by (simp_all add: world_free_def point_free_def)

lemma quiet_validate: "quiet (validate_once host guard)"
  unfolding quiet_def by (auto intro!: keepsI dest: validate_once_result(1))

lemma settled_ret [settled_intros]: "settled (retD x)"
  by (simp add: settled_def retD_def)

lemma settled_fail [settled_intros]: "\<not> refusal e \<Longrightarrow> settled (failD e)"
  by (simp add: settled_def failD_def)

lemma settled_ask [settled_intros]: "settled (askD q)"
  by (simp add: settled_def askD_def split: prod.splits)

lemma settled_bind [settled_intros]: "settled m \<Longrightarrow> (\<And>x. settled (f x)) \<Longrightarrow> settled (bindD m f)"
  unfolding settled_def bindD_Inl by blast

lemma settled_catch [settled_intros]: "(\<And>e. settled (h e)) \<Longrightarrow> settled (catchD is_mutation_error m h)"
  unfolding settled_def catchD_def refusal_def by (fastforce split: prod.splits sum.splits if_splits)

lemma refusal_simps [simp]:
  "\<not> refusal (LimitationError a b c)" "\<not> refusal (StateUncertainError a b c)" "\<not> refusal (EscapedError x)"
  "refusal StateConflictError" "refusal (GateRefused g)"
  by (simp_all add: refusal_def)

lemma settled_cursor [settled_intros]: "settled (cursor_position host)"
  unfolding cursor_position_def by (intro settled_intros) (auto split: option.split intro!: settled_intros)

lemma settled_poll: "settled (poll_cursor host target n)"
  by (induction n) (auto intro!: settled_intros)

lemma settled_wait [settled_intros]: "settled (wait_for_cursor host target)"
  unfolding wait_for_cursor_def by (intro settled_intros settled_poll)

lemma settled_move_event [settled_intros]: "settled (move_event host p)"
  unfolding move_event_def by (intro settled_intros) (auto split: prod.split intro!: settled_intros)

lemma settled_compensate [settled_intros]: "settled (compensate host guard before observed target)"
  unfolding compensate_def by (intro settled_intros) (auto split: prod.split intro!: settled_intros)

lemma settled_repair [settled_intros]: "settled (repair_failed_click host guard before target up n)"
  unfolding repair_failed_click_def Let_def by (intro settled_intros) (auto split: prod.split intro!: settled_intros)

lemma clean_settled: "settled m \<Longrightarrow> refuses_clean m"
  by (auto simp: settled_def refuses_clean_def)

lemma clean_quiet: "quiet m \<Longrightarrow> refuses_clean m"
  unfolding refuses_clean_def by (blast dest: quiet_result)

lemma clean_after_quiet: "quiet m \<Longrightarrow> (\<And>x. refuses_clean (f x)) \<Longrightarrow> refuses_clean (bindD m f)"
  unfolding refuses_clean_def bindD_Inl by (metis quiet_result)

lemma clean_then_settled: "refuses_clean m \<Longrightarrow> (\<And>x. settled (f x)) \<Longrightarrow> refuses_clean (bindD m f)"
  unfolding refuses_clean_def settled_def bindD_Inl by blast

lemma clean_insert: "refuses_clean (insert_events host guard events)"
  unfolding refuses_clean_def using boundary_check_result(1) insert_events_result(1) by (metis)

lemma clean_move_verified: "refuses_clean (move_verified host guard target)"
  unfolding move_verified_def
  by (intro clean_after_quiet clean_then_settled clean_insert)
    (auto simp: quiet_def intro!: keeps_intros sends_world_free settled_intros)

lemma clean_click: "refuses_clean (send_click host guard target b n)"
  unfolding send_click_def Let_def
  by (intro clean_then_settled clean_move_verified) (auto intro!: settled_intros)

lemma clean_fail: "\<not> refusal e \<Longrightarrow> refuses_clean (failD e)"
  by (intro clean_settled settled_fail)

lemma clean_backend: "refuses_clean (backend_send host guard m)"
proof -
  have b: "refuses_clean (bindD (insert_events host guard events) (\<lambda>n.
      if n = 0 then failD (LimitationError None None None)
      else if n \<noteq> length events then failD (StateUncertainError None None None) else retD ()))" for events
    by (intro clean_then_settled clean_insert) (auto intro!: settled_intros)
  have "refuses_clean (bindD (move_verified host guard p) (\<lambda>_. retD ()))" for p
    by (intro clean_then_settled clean_move_verified settled_intros)
  then show ?thesis
    using b clean_click by (cases m) (simp_all add: clean_fail split: option.split del: split_paired_All)
qed

lemma settled_after_input:
  "settled (catchD (\<lambda>e. e = StateConflictError) (validate_once host guard) (\<lambda>_. failD (StateUncertainError None None None)))"
  unfolding settled_def
proof (intro allI impI)
  fix s e s'
  assume c: "catchD (\<lambda>e. e = StateConflictError) (validate_once host guard) (\<lambda>_. failD (StateUncertainError None None None)) s = (Inl e, s')"
  obtain v s1 where v: "validate_once host guard s = (v, s1)" by fastforce
  show "\<not> refusal e"
    using c v validate_once_result(3) [OF v] by (cases v) (auto simp: catchD_def failD_def split: if_splits)
qed

lemma clean_gate_run: "refuses_clean (gate_run_once host transform guard m)"
proof -
  have c: "refuses_clean (controlled_send host transform guard m)"
    unfolding controlled_send_def
    by (intro clean_after_quiet clean_then_settled quiet_validate clean_backend settled_after_input)
      (auto simp: quiet_def intro!: keeps_intros sends_world_free)
  have ask: "quiet (askD q)" for q :: "'w \<Rightarrow> 'v \<times> 'w" by (auto simp: quiet_def intro!: keeps_intros sends_world_free)
  have fail: "refuses_clean (failD e)" for e by (intro clean_quiet) (auto simp: quiet_def intro!: keeps_intros)
  show ?thesis
    unfolding gate_run_once_def
    by (intro clean_after_quiet ask) (simp split: option.split, intro conjI allI impI clean_after_quiet ask fail quiet_validate,
      simp add: c fail)
qed

text \<open>
  C26: a refused mutation has sent nothing. When the answer is that the desktop is busy, that the emergency stop is in force or that
  the state has changed, no input was handed to the system, so the caller may observe and try again; a pointer that could not be
  verified, or a window that changed after the input, is answered as uncertain instead.
\<close>

theorem refused_mutation_sent_nothing:
  assumes "mutate_desktop host transform m guard w = (Some r, s)"
    and "mr_code r \<in> {Some DesktopBusy, Some EmergencyStop, Some StateConflict}"
  shows "sent_batches (ds_log s) = [] \<and> \<not> mr_ok r"
proof -
  obtain e where e: "gate_run_once host transform guard m (start_desk w) = (Inl e, s)" "mutation_failure e = Some r"
    using assms by (auto simp: mutate_desktop_def split: prod.splits sum.splits)
  have "refusal e"
    using e(2) assms(2) by (cases e rule: mutation_failure.cases) (auto simp: failure_result_def)
  then have "sent_batches (ds_log s) = sent_batches (ds_log (start_desk w))"
    using clean_gate_run [of host transform guard m] e(1) unfolding refuses_clean_def by blast
  moreover have "\<not> mr_ok r"
    using e(2) by (cases e rule: mutation_failure.cases) (auto simp: failure_result_def)
  ultimately show ?thesis by (simp add: start_desk_def)
qed

section \<open>A success has sent the whole mutation\<close>

lemma never_returns:
  "compensate host guard b ob t s \<noteq> (Inr x, s')" "repair_failed_click host guard b t up n s \<noteq> (Inr x, s')"
  by (auto simp: compensate_def repair_failed_click_def Let_def bindD_Inr failD_def split: prod.splits if_splits)

lemma insert_events_sends:
  assumes "insert_events host guard events s = (Inr n, s')"
  shows "sent_batches (ds_log s') = (events, n) # sent_batches (ds_log s)"
  using insert_events_result(2) [OF assms refl] boundary_check_result(2) by fastforce

lemma quiet_wait: "quiet (wait_for_cursor host target)" and quiet_cursor: "quiet (cursor_position host)"
  and quiet_move_event: "quiet (move_event host p)"
  by (auto simp: quiet_def intro!: keeps_intros sends_world_free)

definition is_move_to :: "pixel \<Rightarrow> input_event \<Rightarrow> bool" where
  "is_move_to p e \<longleftrightarrow> (\<exists>left top width height.
     e = mouse_event 0xC001 0 (absolute_coordinate (fst p) left width) (absolute_coordinate (snd p) top height))"

lemma move_event_shape: "move_event host p s = (Inr e, s') \<Longrightarrow> is_move_to p e"
  by (auto simp: move_event_def bindD_Inr retD_def is_move_to_def split: prod.splits)

lemma move_verified_sends:
  assumes "move_verified host guard target s = (Inr before, s')"
  shows "\<exists>e. is_move_to target e \<and> sent_batches (ds_log s') = ([e], 1) # sent_batches (ds_log s)"
proof -
  obtain s1 e s2 n s3 where c: "cursor_position host s = (Inr before, s1)" and e: "move_event host target s1 = (Inr e, s2)"
    and n: "insert_events host guard [e] s2 = (Inr n, s3)" and one: "n = 1"
    and rest: "\<exists>ob. wait_for_cursor host target s3 = (Inr ob, s')"
    using assms
    by (auto simp: move_verified_def bindD_Inr failD_def retD_def never_returns split: if_splits
        dest!: catchD_Inr [OF _ never_returns(1)])
  show ?thesis
    using quiet_result [OF quiet_cursor c] quiet_result [OF quiet_move_event e] insert_events_sends [OF n]
      quiet_result [OF quiet_wait] rest move_event_shape [OF e] one by fastforce
qed

lemma send_click_sends:
  assumes "send_click host guard target b n s = (Inr u, s')"
  shows "\<exists>e. is_move_to target e \<and>
    sent_batches (ds_log s') = (click_events b n, length (click_events b n)) # ([e], 1) # sent_batches (ds_log s)"
proof -
  obtain before s1 s2 where m: "move_verified host guard target s = (Inr before, s1)"
    and i: "insert_events host guard (click_events b n) s1 = (Inr (length (click_events b n)), s2)"
    and rest: "\<exists>ob. wait_for_cursor host target s2 = (Inr ob, s')"
    using assms
    by (auto simp: send_click_def Let_def bindD_Inr failD_def retD_def never_returns split: if_splits
        dest!: catchD_Inr [OF _ never_returns(1)] catchD_Inr [OF _ never_returns(2)])
  show ?thesis
    using move_verified_sends [OF m] insert_events_sends [OF i] quiet_result [OF quiet_wait] rest by fastforce
qed

fun sent_for :: "desktop_mutation \<Rightarrow> (input_event list \<times> nat) list \<Rightarrow> bool" where
  "sent_for (MovePointer p) bs \<longleftrightarrow> (\<exists>e. bs = [([e], 1)] \<and> is_move_to (pixel_of p) e)"
| "sent_for (ClickPointer p b n) bs \<longleftrightarrow>
     (\<exists>e. bs = [(click_events b n, length (click_events b n)), ([e], 1)] \<and> is_move_to (pixel_of p) e)"
| "sent_for m bs \<longleftrightarrow> (\<exists>events. mutation_events m = Some events \<and> events \<noteq> [] \<and> bs = [(events, length events)])"

lemma backend_sends:
  assumes "backend_send host guard m s = (Inr u, s')" "sent_batches (ds_log s) = []"
  shows "sent_for m (sent_batches (ds_log s'))"
proof -
  have plain: "\<exists>events. mutation_events m = Some events \<and> events \<noteq> [] \<and> sent_batches (ds_log s') = [(events, length events)]"
    if "(case mutation_events m of None \<Rightarrow> failD (EscapedError ''KeyError'')
      | Some events \<Rightarrow> bindD (insert_events host guard events) (\<lambda>n.
          if n = 0 then failD (LimitationError None None None)
          else if n \<noteq> length events then failD (StateUncertainError None None None) else retD ())) s = (Inr u, s')"
    using that assms(2)
    by (auto simp: bindD_Inr failD_def retD_def split: option.splits if_splits dest!: insert_events_sends)
  show ?thesis
    using assms plain
    by (cases m) (auto simp: bindD_Inr retD_def dest!: move_verified_sends send_click_sends simp del: mutation_events.simps)
qed

lemma mutation_failure_not_ok: "mutation_failure e = Some r \<Longrightarrow> mr_ok r \<Longrightarrow> P"
  by (cases e rule: mutation_failure.cases) (auto simp: failure_result_def)

lemma point_world_free: "world_free (\<lambda>s. ds_point s = p)"
  by (simp add: world_free_def)

lemma point_validate: "keeps (\<lambda>s. ds_point s = p) (validate_once host guard)"
proof (rule keepsI)
  fix s r s' assume p: "ds_point s = p" and m: "validate_once host guard s = (r, s')"
  obtain v s1 where v: "validate_foreground host guard (ds_initial s) (ds_validated s) s = (v, s1)" by fastforce
  show "ds_point s' = p"
    using p m v validate_foreground_result(1) [OF v] by (cases v) (auto simp: validate_once_def bindD_def)
qed

lemma point_insert: "keeps (\<lambda>s. ds_point s = p) (insert_events host guard events)"
proof -
  have l: "keeps (\<lambda>s. ds_point s = p) (\<lambda>s. logD (g s) s)" for g by (simp add: keeps_def logD_def)
  have b: "keeps (\<lambda>s. ds_point s = p) (boundary_check host guard)"
    unfolding boundary_check_def by (intro keeps_intros point_world_free) (auto intro!: keeps_intros point_validate l)
  show ?thesis unfolding insert_events_def by (intro keeps_intros point_world_free b l)
qed

lemma point_backend: "keeps (\<lambda>s. ds_point s = p) (backend_send host guard m)"
  by (intro keeps_intros point_world_free point_insert)

lemma gate_run_once_sends:
  assumes "gate_run_once host transform guard m (start_desk w) = (Inr u, s)"
  obtains w2 where "ds_log w2 = []" "controlled_send host transform guard m w2 = (Inr u, s)"
proof -
  obtain e w0 where e: "dh_enter host w = (e, w0)" by fastforce
  obtain v w1 where v: "validate_once host guard ((start_desk w)\<lparr>ds_world := w0\<rparr>) = (v, w1)" by fastforce
  obtain b x where b: "dh_enabled host (ds_world w1) = (b, x)" by fastforce
  have world: "ds_world (start_desk w) = w" "ds_log (start_desk w) = []" by (simp_all add: start_desk_def)
  have "e = None" using assms e world by (cases e) (simp_all add: gate_run_once_def bindD_def askD_def failD_def)
  moreover obtain y where "v = Inr y"
    using assms e v world \<open>e = None\<close> by (cases v) (simp_all add: gate_run_once_def bindD_def askD_def failD_def)
  moreover have b
    using assms e v b world calculation by (cases b) (simp_all add: gate_run_once_def bindD_def askD_def failD_def)
  ultimately have "controlled_send host transform guard m (w1\<lparr>ds_world := x\<rparr>) = (Inr u, s)"
    using assms e v b world by (simp add: gate_run_once_def bindD_def askD_def)
  moreover have "ds_log (w1\<lparr>ds_world := x\<rparr>) = []" using validate_once_result(1) [OF v] world by simp
  ultimately show ?thesis by (rule that [rotated])
qed


section \<open>Coordinates\<close>

lemma ceiling_bounds:
  assumes "0 < (d :: int)"
  shows "n \<le> (n + d - 1) div d * d" "(n + d - 1) div d * d < n + d"
  using div_mult_mod_eq [of "n + d - 1" d] pos_mod_bound [OF assms, of "n + d - 1"] pos_mod_sign [OF assms, of "n + d - 1"]
  by linarith+

text \<open>
  The coordinate sent is in range and names the pixel. For a screen of at most 65536 pixels the absolute coordinate of a pixel
  on it lies between 0 and 65535 and is the least one that scales back to that pixel; a point outside is clamped to the edge.
\<close>

theorem absolute_coordinate_names_pixel:
  assumes "0 < extent" "extent \<le> 65536"
  shows "0 \<le> absolute_coordinate pixel origin extent \<and> absolute_coordinate pixel origin extent \<le> 65535 \<and>
    (origin \<le> pixel \<and> pixel < origin + extent \<longrightarrow>
       origin + absolute_coordinate pixel origin extent * (extent - 1) div 65535 = pixel \<and>
       (\<forall>c. 0 \<le> c \<and> c < absolute_coordinate pixel origin extent \<longrightarrow> origin + c * (extent - 1) div 65535 < pixel))"
proof -
  define d where "d = max (extent - 1) 1"
  define off where "off = max 0 (min (extent - 1) (pixel - origin))"
  define q where "q = (off * 65535 + d - 1) div d"
  have d: "0 < d" "d \<le> 65535" and off: "0 \<le> off" "off \<le> d" using assms by (auto simp: d_def off_def)
  have q: "off * 65535 \<le> q * d" "q * d < off * 65535 + d" unfolding q_def by (rule ceiling_bounds [OF d(1)])+
  have q0: "0 \<le> q" unfolding q_def using d off by (intro pos_imp_zdiv_nonneg_iff [THEN iffD2]) auto
  have "q * d < 65536 * d" using q(2) off by linarith
  then have q1: "q \<le> 65535" using d(1) by simp
  have a: "absolute_coordinate pixel origin extent = q"
    using q1 by (simp add: absolute_coordinate_def Let_def q_def off_def d_def)
  have "origin + q * (extent - 1) div 65535 = pixel \<and> (\<forall>c. 0 \<le> c \<and> c < q \<longrightarrow> origin + c * (extent - 1) div 65535 < pixel)"
    if p: "origin \<le> pixel" "pixel < origin + extent"
  proof (cases "extent = 1")
    case True
    then have "off = 0" "q = 0" using p by (auto simp: off_def q_def d_def)
    then show ?thesis using True p by auto
  next
    case False
    then have e: "d = extent - 1" "off = pixel - origin" using p assms by (auto simp: d_def off_def)
    have add_left: "x < off \<Longrightarrow> origin + x < pixel" for x using e(2) by linarith
    have eq: "q * d div 65535 = off" using q d by (intro int_div_pos_eq [where r = "q * d - off * 65535"]) auto
    have lt: "c * d div 65535 < off" if c: "c < q" for c
    proof -
      have "c * d \<le> (q - 1) * d" using c d by (intro mult_right_mono) auto
      then have "c * d < off * 65535" using q(2) by (simp add: algebra_simps)
      then show ?thesis using div_mult_mod_eq [of "c * d" 65535] pos_mod_sign [of 65535 "c * d"] by linarith
    qed
    have "origin + c * (extent - 1) div 65535 < pixel" if "c < q" for c 
      unfolding e(1) [symmetric] by (rule add_left [OF lt [OF that]])
    moreover have "origin + q * (extent - 1) div 65535 = pixel" unfolding e(1) [symmetric] eq e(2) by simp
    ultimately show ?thesis by blast
  qed
  then show ?thesis unfolding a using q0 q1 by simp
qed


section \<open>Nothing stays pressed\<close>

datatype held_input = HeldKey "16 word" "16 word" | HeldButton int

fun held_step :: "held_input set \<Rightarrow> input_event \<Rightarrow> held_input set" where
  "held_step H (KeyInput k sc f) = (if bit f 1 then H - {HeldKey k sc} else insert (HeldKey k sc) H)"
| "held_step H (MouseInput x y d f) =
     (if f = 2 then insert (HeldButton 2) H else if f = 4 then H - {HeldButton 2}
      else if f = 8 then insert (HeldButton 8) H else if f = 16 then H - {HeldButton 8}
      else if f = 32 then insert (HeldButton 32) H else if f = 64 then H - {HeldButton 32} else H)"

definition held_after :: "input_event list \<Rightarrow> held_input set" where
  "held_after events = fold (\<lambda>e H. held_step H e) events {}"

lemma held_pairs: "(\<And>H. H \<subseteq> {} \<Longrightarrow> fold (\<lambda>e H. held_step H e) p H = {}) \<Longrightarrow> fold (\<lambda>e H. held_step H e) (concat (replicate n p)) {} = {}"
  by (induction n) auto

lemma key_down_up [simp]: "bit (2 :: 32 word) (Suc 0)" "bit (6 :: 32 word) (Suc 0)" "\<not> bit (4 :: 32 word) (Suc 0)"
  by code_simp+

text \<open>The keys of a chord are released in reverse order.\<close>

lemma held_chord_down:
  "fold (\<lambda>e H. held_step H e) (map (\<lambda>c. key_event c 0 0) cs) H = H \<union> {HeldKey (word_of_int c) 0 | c. c \<in> set cs}"
  by (induction cs arbitrary: H) (auto simp: key_event_def keyup_flag_def)

lemma held_chord_up:
  "fold (\<lambda>e H. held_step H e) (map (\<lambda>c. key_event c 0 keyup_flag) cs) H = H - {HeldKey (word_of_int c) 0 | c. c \<in> set cs}"
  by (induction cs arbitrary: H) (auto simp: key_event_def keyup_flag_def)

lemma held_text: "fold (\<lambda>e H. held_step H e) (text_events t) {} = {}"
proof -
  have "fold (\<lambda>e H. held_step H e)
      (concat (map (\<lambda>u. [key_event 0 u unicode_flag, key_event 0 u (unicode_flag + keyup_flag)]) us)) {} = {}" for us
    by (induction us) (simp_all add: key_event_def unicode_flag_def keyup_flag_def)
  then show ?thesis by (simp add: text_events_def)
qed

lemma button_flag_words:
  "word_of_int (fst (button_flags b)) \<noteq> (word_of_int (snd (button_flags b)) :: 32 word)"
  by (cases b) simp_all

lemma held_clicks: "fold (\<lambda>e H. held_step H e) (click_events b n) {} = {}"
  unfolding click_events_def by (rule held_pairs) (cases b; simp add: mouse_event_def)

lemma take_pairs:
  "k \<le> 2 * n \<Longrightarrow> take k (concat (replicate n [a, b])) = concat (replicate (k div 2) [a, b]) @ (if k mod 2 \<noteq> 0 then [a] else [])"
proof (induction n arbitrary: k)
  case (Suc n)
  show ?case
  proof (cases "k \<le> 1")
    case True
    then show ?thesis by (cases k) auto
  next
    case False
    then obtain j where "k = Suc (Suc j)" by (metis One_nat_def Suc_le_D not_less_eq_eq le_Suc_eq)
    then show ?thesis using Suc by simp
  qed
qed simp

lemma length_click_events: "length (click_events b n) = 2 * n"
  unfolding click_events_def by (induction n) auto

lemma held_mutation:
  assumes "mutation_events m = Some events"
  shows "held_after events = {}"
proof (cases m)
  case (ScrollWheel x y)
  then show ?thesis using assms by (cases "x = 0"; cases "y = 0"; auto simp: held_after_def mouse_event_def)
next
  case (TypeText t)
  then show ?thesis using assms held_text [of t] by (auto simp: held_after_def)
next
  case (Hotkey ks)
  then show ?thesis
    using assms held_chord_down held_chord_up [of "rev cs" for cs] by (auto simp: held_after_def)
next
  case (PressKey k n)
  have "fold (\<lambda>e H. held_step H e) (concat (replicate n [key_event c 0 0, key_event c 0 keyup_flag])) {} = {}" for c
    by (rule held_pairs) (simp add: key_event_def keyup_flag_def)
  then show ?thesis using assms PressKey by (auto simp: held_after_def split: if_splits)
qed (use assms in simp_all)

lemma held_move: "is_move_to p e \<Longrightarrow> held_step H e = H"
  by (auto simp: is_move_to_def mouse_event_def)

text \<open>
  No key and no button stays pressed. The whole batch of every keyboard mutation and of every click leaves nothing down; and when
  only a part of the clicks was inserted, the part followed by the repair batch leaves nothing down either.
\<close>

theorem batches_release_what_they_press:
  "(\<forall>events. mutation_events m = Some events \<longrightarrow> held_after events = {}) \<and>
   held_after (click_events b n) = {} \<and>
   (k \<le> length (click_events b n) \<longrightarrow> is_move_to before back \<longrightarrow>
      held_after (take k (click_events b n) @
        (if k mod 2 \<noteq> 0 then [mouse_event (snd (button_flags b)) 0 0 0] else []) @ [back]) = {})"
proof (intro conjI impI)
  show "\<forall>events. mutation_events m = Some events \<longrightarrow> held_after events = {}" using held_mutation by blast
  show "held_after (click_events b n) = {}" using held_clicks by (simp add: held_after_def)
  assume k: "k \<le> length (click_events b n)" and goes: "is_move_to before back"
  let ?down = "mouse_event (fst (button_flags b)) 0 0 0"
  let ?up = "mouse_event (snd (button_flags b)) 0 0 0"
  have t: "take k (click_events b n) = click_events b (k div 2) @ (if k mod 2 \<noteq> 0 then [?down] else [])"
    using take_pairs [of k n ?down ?up] k length_click_events by (simp add: click_events_def)
  have "held_step (held_step {} ?down) ?up = {}" by (cases b) (simp_all add: mouse_event_def)
  then show "held_after (take k (click_events b n) @ (if k mod 2 \<noteq> 0 then [?up] else []) @ [back]) = {}"
    unfolding t held_after_def using held_clicks [of b "k div 2"] held_move [OF goes] by simp
qed

section \<open>Typed text\<close>

text \<open>The text that the key-down events of a batch spell: the units joined as UTF-16.\<close>

fun join_units :: "nat list \<Rightarrow> pystr" where
  "join_units [] = []"
| "join_units [u] = [u]"
| "join_units (u # v # us) =
     (if 0xD800 \<le> u \<and> u < 0xDC00 \<and> 0xDC00 \<le> v \<and> v < 0xE000
      then (0x10000 + (u - 0xD800) * 0x400 + (v - 0xDC00)) # join_units us else u # join_units (v # us))"

fun typed_units :: "input_event list \<Rightarrow> nat list" where
  "typed_units [] = []"
| "typed_units (KeyInput k sc f # es) = (if f = 4 then [unat sc] else []) @ typed_units es"
| "typed_units (_ # es) = typed_units es"

lemma typed_units_append: "typed_units (es @ fs) = typed_units es @ typed_units fs"
  by (induction es rule: typed_units.induct) simp_all

lemma typed_units_text:
  assumes "\<forall>u \<in> set us. 0 \<le> u \<and> u < 0x10000"
  shows "typed_units (concat (map (\<lambda>u. [key_event 0 u unicode_flag, key_event 0 u (unicode_flag + keyup_flag)]) us)) = map nat us"
  using assms
proof (induction us)
  case (Cons u us)
  then have "unat (word_of_int u :: 16 word) = nat u" by (simp add: unat_eq_nat_uint uint_word_of_int)
  then show ?case using Cons by (simp add: key_event_def unicode_flag_def keyup_flag_def)
qed simp

lemma utf16_units_range: "c < 0x110000 \<Longrightarrow> u \<in> set (utf16_units c) \<Longrightarrow> 0 \<le> u \<and> u < 0x10000"
  by (auto simp: utf16_units_def split: if_splits)

lemma join_units_char:
  assumes "c < 0x110000" "\<not> surrogate c"
  shows "join_units (map nat (utf16_units c) @ us) = c # join_units us"
proof (cases "c < 0x10000")
  case True
  then show ?thesis using assms(2) by (cases us) (auto simp: utf16_units_def surrogate_def)
next
  case False
  define d where "d = c - 0x10000"
  have d: "c = d + 0x10000" "d < 0x100000" using False assms by (auto simp: d_def)
  have h: "map nat (utf16_units c) = [0xD800 + d div 0x400, 0xDC00 + d mod 0x400]"
    by (simp add: utf16_units_def d nat_add_distrib nat_div_distrib nat_mod_distrib)
  have "d div 0x400 < 0x400" "d mod 0x400 < 0x400" using d by auto
  moreover have "d div 0x400 * 0x400 + d mod 0x400 = d" by (rule div_mult_mod_eq)
  ultimately show ?thesis unfolding h using d by simp
qed

text \<open>
  What is typed is the text. The characters spelled by the key-down events are the characters of the text, in order, for every
  text of Unicode characters, those outside the first plane included.
\<close>

theorem typed_text_is_the_text:
  assumes "\<forall>c \<in> set t. c < 0x110000 \<and> \<not> surrogate c"
  shows "join_units (typed_units (text_events t)) = t"
proof -
  have "\<forall>u \<in> set (concat (map utf16_units t)). 0 \<le> u \<and> u < 0x10000"
    using assms utf16_units_range by fastforce
  then have "typed_units (text_events t) = concat (map (\<lambda>c. map nat (utf16_units c)) t)"
    using typed_units_text [of "concat (map utf16_units t)"] unfolding text_events_def
    by (simp add: map_concat comp_def)
  moreover have "join_units (concat (map (\<lambda>c. map nat (utf16_units c)) t)) = t"
    using assms by (induction t) (simp_all add: join_units_char)
  ultimately show ?thesis by simp
qed

lemma typed_text_is_the_text_witness: "join_units (typed_units (text_events [97, 0x1F600])) = [97, 0x1F600]"
  using typed_text_is_the_text [of "[97, 0x1F600]"] by (simp add: surrogate_def)


section \<open>A concrete desktop\<close>

definition sample_desk :: "unit desk_host" where
  "sample_desk =
     \<lparr>dh_probe = (\<lambda>w. (Some \<lparr>dr_available = True, dr_unlocked = True, dr_foreground = None\<rparr>, w)), dh_enabled = (\<lambda>w. (True, w)),
      dh_enter = (\<lambda>w. (None, w)), dh_send_input = (\<lambda>es w. (length es, w)), dh_cursor = (\<lambda>w. (Some (0, 0), w)),
      dh_metrics = (\<lambda>w. ((0, 0, 100, 100), w)), dh_polls = (\<lambda>w. (1, w)), dh_casefold = id, dh_repr = (\<lambda>_. []),
      dh_round = (\<lambda>x s. x)\<rparr>"

definition no_guard :: input_guard where
  "no_guard = \<lparr>ig_process = None, ig_title_contains = None, ig_state_token = None\<rparr>"

lemmas desk_run_simps =
  mutate_desktop_def gate_run_once_def controlled_send_def bindD_def askD_def failD_def retD_def catchD_def liftD_def logD_def
  setPointD_def validate_once_def validate_foreground_def guard_answer_def boundary_check_def insert_events_def start_desk_def
  no_guard_def

lemma sample_success:
  "mutate_desktop sample_desk None (ScrollWheel 0 120) no_guard () =
     (Some \<lparr>mr_ok = True, mr_code = None, mr_physical = None, mr_before = None, mr_observed = None, mr_target = None\<rparr>,
      \<lparr>ds_world = (), ds_initial = None, ds_validated = True, ds_point = None,
       ds_log = [SentInput [mouse_event 0x0800 120 0 0] 1, BoundaryPassed None]\<rparr>)"
  by (simp add: desk_run_simps sample_desk_def)



lemma refused_mutation_sent_nothing_witness:
  "let host = sample_desk\<lparr>dh_enter := (\<lambda>w. (Some DesktopBusyError, w))\<rparr>;
       result = mutate_desktop host None (TypeText (ustr ''a'')) no_guard ()
   in (\<exists>r. fst result = Some r \<and> mr_code r = Some DesktopBusy) \<and> sent_batches (ds_log (snd result)) = []"
proof -
  let ?host = "sample_desk\<lparr>dh_enter := (\<lambda>w. (Some DesktopBusyError, w))\<rparr>"
  have e: "mutate_desktop ?host None (TypeText (ustr ''a'')) no_guard () =
      (Some (failure_result DesktopBusy None None None), start_desk ())"
    by (simp add: desk_run_simps sample_desk_def)
  from refused_mutation_sent_nothing [OF e] show ?thesis unfolding Let_def e by (simp add: failure_result_def)
qed

lemma absolute_coordinate_names_pixel_witness: "absolute_coordinate 10 0 1920 * (1920 - 1) div 65535 = 10"
  using absolute_coordinate_names_pixel [of 1920 10 0] by simp

lemma batches_release_what_they_press_witness:
  "held_after (take 3 (click_events LeftButton 2) @ [mouse_event 4 0 0 0, mouse_event 0xC001 0 0 0]) = {}"
proof -
  have "is_move_to (0, 0) (mouse_event 0xC001 0 0 0)"
    unfolding is_move_to_def by (intro exI [of _ 0] exI [of _ 1]) (simp add: absolute_coordinate_def)
  then show ?thesis
    using batches_release_what_they_press [of "MovePointer undefined" LeftButton 2 3 "(0, 0)" "mouse_event 0xC001 0 0 0"]
    by (simp add: length_click_events)
qed

text \<open>
  A desktop that is locked right after the whole input was inserted: the answer is a plain limitation, though everything was sent.
\<close>

lemma limitation_after_whole_input:
  "let host = \<lparr>dh_probe = (\<lambda>locked. (Some \<lparr>dr_available = True, dr_unlocked = \<not> locked, dr_foreground = None\<rparr>, locked)),
       dh_enabled = (\<lambda>w. (True, w)), dh_enter = (\<lambda>w. (None, w)), dh_send_input = (\<lambda>es w. (length es, True)),
       dh_cursor = (\<lambda>w. (Some (0, 0), w)), dh_metrics = (\<lambda>w. ((0, 0, 100, 100), w)), dh_polls = (\<lambda>w. (1, w)), dh_casefold = id,
       dh_repr = (\<lambda>_. []), dh_round = (\<lambda>x s. x)\<rparr>;
     result = mutate_desktop host None (ScrollWheel 0 120) no_guard False
   in fst result = Some (failure_result Limitation None None None) \<and>
      sent_batches (ds_log (snd result)) = [([mouse_event 0x0800 120 0 0], 1)]"
  by (simp add: desk_run_simps)

text \<open>A wheel mutation that moves nothing is answered with a limitation too.\<close>

lemma empty_scroll_is_a_limitation:
  "fst (mutate_desktop sample_desk None (ScrollWheel 0 0) no_guard ()) = Some (failure_result Limitation None None None)"
  by (simp add: desk_run_simps sample_desk_def)

end
