(* ===== verification/Processes.thy ===== *)
theory Processes
  imports Effects Py_Text "HOL-Library.AList" "HOL-Library.Multiset"
begin

text \<open>
  The processes of the user's session (\<open>worker/processes.py\<close>) and the job objects that hold their descendants
  (\<open>worker/job_object.py\<close>). Every call of the kernel goes through a host with a state of its own and may fail; a log records the
  calls, newest first. The lemmas show that a managed process runs only inside its job, that a failed start leaves no handle, that only handles of processes
  started here are ever used, and that closing returns every handle once.
\<close>

section \<open>Command lines\<close>

text \<open>\<open>subprocess.list2cmdline\<close>: \<open>n\<close> counts the backslashes that are held back.\<close>

fun quote_chars :: "bool \<Rightarrow> nat \<Rightarrow> pystr \<Rightarrow> pystr" where
  "quote_chars q n [] = replicate (if q then 2 * n else n) 92"
| "quote_chars q n (c # cs) =
     (if c = 92 then quote_chars q (Suc n) cs
      else if c = 34 then replicate (2 * n) 92 @ [92, 34] @ quote_chars q 0 cs
      else replicate n 92 @ c # quote_chars q 0 cs)"

definition quote_argument :: "pystr \<Rightarrow> pystr" where
  "quote_argument a =
     (let q = 32 \<in> set a \<or> 9 \<in> set a \<or> a = [] in (if q then [34] else []) @ quote_chars q 0 a @ (if q then [34] else []))"

fun list2cmdline :: "pystr list \<Rightarrow> pystr" where
  "list2cmdline [] = []"
| "list2cmdline [a] = quote_argument a"
| "list2cmdline (a # b # as) = quote_argument a @ 32 # list2cmdline (b # as)"

text \<open>
  The rules by which a started program reads its arguments: the next argument and what follows its separator. An even number of
  backslashes before a quote stands for half of them and the quote opens or closes; an odd number makes the quote literal; other backslashes
  stand for themselves.
\<close>

fun read_argument :: "bool \<Rightarrow> nat \<Rightarrow> pystr \<Rightarrow> pystr \<times> pystr" where
  "read_argument q n [] = (replicate n 92, [])"
| "read_argument q n (c # cs) =
     (if c = 92 then read_argument q (Suc n) cs
      else if c = 34 then
        (let (t, r) = read_argument (if even n then \<not> q else q) 0 cs
         in (replicate (n div 2) 92 @ (if even n then t else 34 # t), r))
      else if \<not> q \<and> (c = 32 \<or> c = 9) then (replicate n 92, cs)
      else (let (t, r) = read_argument q 0 cs in (replicate n 92 @ c # t, r)))"

lemma read_backslashes: "read_argument q n (replicate m 92 @ xs) = read_argument q (n + m) xs"
  by (induction m arbitrary: n) auto

lemma replicate_snoc_92: "replicate (Suc n) 92 @ xs = replicate n 92 @ 92 # xs" for xs :: pystr
  by (simp add: replicate_app_Cons_same)

lemma read_quoted:
  "read_argument True 0 (quote_chars True n a @ 34 # more_text) =
     (replicate n 92 @ a @ fst (read_argument False 0 more_text), snd (read_argument False 0 more_text))"
proof (induction a arbitrary: n)
  case Nil
  then show ?case by (simp add: read_backslashes Let_def split: prod.splits)
next
  case (Cons c cs)
  consider "c = 92" | "c = 34" | "c \<noteq> 92" "c \<noteq> 34" by blast
  then show ?case
  proof cases
    case 1
    then show ?thesis using Cons.IH [of "Suc n"] by (simp add: replicate_app_Cons_same)
  next
    case 2
    then show ?thesis using Cons.IH [of 0] by (simp add: read_backslashes Let_def split: prod.splits)
  next
    case 3
    then show ?thesis using Cons.IH [of 0] by (simp add: read_backslashes Let_def split: prod.splits)
  qed
qed

lemma read_plain:
  assumes "32 \<notin> set a" "9 \<notin> set a"
    and "tail = [] \<and> rest = [] \<or> tail = 32 # rest"
  shows "read_argument False 0 (quote_chars False n a @ tail) = (replicate n 92 @ a, rest)"
  using assms(1,2)
proof (induction a arbitrary: n)
  case Nil
  then show ?case using assms(3) by (auto simp: read_backslashes)
next
  case (Cons c cs)
  consider "c = 92" | "c = 34" | "c \<noteq> 92" "c \<noteq> 34" by blast
  then show ?case
  proof cases
    case 1
    then show ?thesis using Cons.IH [of "Suc n"] Cons.prems by (simp add: replicate_app_Cons_same)
  next
    case 2
    then show ?thesis using Cons.IH [of 0] Cons.prems by (simp add: read_backslashes)
  next
    case 3
    then show ?thesis using Cons.IH [of 0] Cons.prems by (simp add: read_backslashes)
  qed
qed

lemma read_quote_argument:
  assumes "tail = [] \<and> rest = [] \<or> tail = 32 # rest"
  shows "read_argument False 0 (quote_argument a @ tail) = (a, rest)"
proof (cases "32 \<in> set a \<or> 9 \<in> set a \<or> a = []")
  case True
  have "read_argument False 0 tail = ([], rest)" using assms by auto
  then show ?thesis using True read_quoted [where n = 0 and a = a] by (simp add: quote_argument_def Let_def)
next
  case False
  then show ?thesis using read_plain [where n = 0 and a = a and tail = tail and rest = rest] assms by (simp add: quote_argument_def Let_def)
qed

text \<open>
  The arguments reach the program. Reading a command line made of a list of arguments gives the first argument, whatever blanks,
  quotes and backslashes it has, and leaves the command line of the others.
\<close>

theorem arguments_reach_the_program:
  "read_argument False 0 (list2cmdline (a # as)) = (a, list2cmdline as)"
  using read_quote_argument [of "[]" "[]" a] read_quote_argument [of "32 # list2cmdline as" "list2cmdline as" a]
  by (cases as) simp_all

section \<open>Kernel calls\<close>

record process_spec =
  ps_argv :: "pystr list"
  ps_cwd :: "pystr option"
  ps_managed :: bool

record process_info =
  pi_pid :: int
  pi_name :: pystr
  pi_executable :: "pystr option"
  pi_create_time :: int

record started_process =
  sp_pid :: int
  sp_handle :: nat
  sp_managed :: bool

record process_termination =
  pt_pid :: int
  pt_terminated :: bool
  pt_already :: bool

record job_receipt =
  jr_terminated :: bool
  jr_already :: bool

datatype process_error =
    ManagerClosedError
  | ExecutableNotFoundError pystr
  | NotOwnedError int
  | HasNoJobError int
  | JobClosedError string
  | ProcessOsError int
  | ProcessIndexError

fun is_os_error :: "process_error \<Rightarrow> bool" where
  "is_os_error (ProcessOsError _) = True"
| "is_os_error _ = False"

datatype kernel_event =
    ProcessCreated int nat nat
  | JobCreated nat
  | JobAssigned nat nat
  | ThreadResumed nat
  | ProcessTerminated nat
  | JobTerminated nat
  | ProcessWaited nat
  | HandleReleased nat
  | JobReleased nat

text \<open>
  The answers of the kernel: an error number, or the value. \<open>pk_create_process\<close> is \<open>CreateProcess\<close> with the command line, suspended;
  \<open>pk_limit_job\<close> reads and writes the limits of a new job so that closing its last handle kills what is in it.
\<close>

record 'w process_kernel =
  pk_which :: "pystr \<Rightarrow> 'w \<Rightarrow> pystr option \<times> 'w"
  pk_create_process :: "pystr \<Rightarrow> pystr \<Rightarrow> pystr option \<Rightarrow> 'w \<Rightarrow> (int + (nat \<times> nat \<times> int)) \<times> 'w"
  pk_create_job :: "'w \<Rightarrow> (int + nat) \<times> 'w"
  pk_limit_job :: "nat \<Rightarrow> 'w \<Rightarrow> int option \<times> 'w"
  pk_call :: "kernel_event \<Rightarrow> 'w \<Rightarrow> int option \<times> 'w"
  pk_wait :: "nat \<Rightarrow> int \<Rightarrow> 'w \<Rightarrow> int \<times> 'w"

record windows_job =
  wj_handle :: nat
  wj_cancelled :: bool
  wj_closed :: bool

record owned_process =
  op_handle :: nat
  op_job :: "windows_job option"
  op_terminated :: bool

record 'w process_manager =
  pm_world :: 'w
  pm_owned :: "(int \<times> owned_process) list"
  pm_closed :: bool
  pm_log :: "(kernel_event \<times> bool) list"

type_synonym ('w, 'a) process_op = "('w process_manager, process_error, 'a) effect"

definition pm_ask :: "('w \<Rightarrow> 'a \<times> 'w) \<Rightarrow> ('w, 'a) process_op" where
  "pm_ask q s = (let (x, w) = q (pm_world s) in (Inr x, s\<lparr>pm_world := w\<rparr>))"

definition pm_record :: "kernel_event \<Rightarrow> ('w, unit) process_op" where
  "pm_record e s = (Inr (), s\<lparr>pm_log := (e, True) # pm_log s\<rparr>)"

definition pm_get :: "('w process_manager \<Rightarrow> 'a) \<Rightarrow> ('w, 'a) process_op" where
  "pm_get f s = (Inr (f s), s)"

text \<open>A call is recorded with whether it succeeded.\<close>

definition kernel_call :: "'w process_kernel \<Rightarrow> kernel_event \<Rightarrow> ('w, unit) process_op" where
  "kernel_call k e =
     bindD (pm_ask (pk_call k e)) (\<lambda>r s.
       case r of
         None \<Rightarrow> (Inr (), s\<lparr>pm_log := (e, True) # pm_log s\<rparr>)
       | Some n \<Rightarrow> (Inl (ProcessOsError n), s\<lparr>pm_log := (e, False) # pm_log s\<rparr>))"

section \<open>Jobs\<close>

definition create_job :: "'w process_kernel \<Rightarrow> ('w, windows_job) process_op" where
  "create_job k =
     bindD (pm_ask (pk_create_job k)) (\<lambda>r. case r of
       Inl n \<Rightarrow> failD (ProcessOsError n)
     | Inr h \<Rightarrow> bindD (pm_record (JobCreated h)) (\<lambda>_.
         bindD (pm_ask (pk_limit_job k h)) (\<lambda>e. case e of
           Some n \<Rightarrow> bindD (kernel_call k (JobReleased h)) (\<lambda>_. failD (ProcessOsError n))
         | None \<Rightarrow> retD \<lparr>wj_handle = h, wj_cancelled = False, wj_closed = False\<rparr>)))"

definition assign_process :: "'w process_kernel \<Rightarrow> windows_job \<Rightarrow> nat \<Rightarrow> ('w, unit) process_op" where
  "assign_process k j h =
     (if wj_closed j then failD (JobClosedError ''assign_process'') else kernel_call k (JobAssigned (wj_handle j) h))"

definition job_cancel :: "'w process_kernel \<Rightarrow> windows_job \<Rightarrow> ('w, job_receipt \<times> windows_job) process_op" where
  "job_cancel k j =
     (if wj_closed j \<or> wj_cancelled j then retD (\<lparr>jr_terminated = True, jr_already = True\<rparr>, j)
      else bindD (kernel_call k (JobTerminated (wj_handle j)))
        (\<lambda>_. retD (\<lparr>jr_terminated = True, jr_already = False\<rparr>, j\<lparr>wj_cancelled := True\<rparr>)))"

definition job_close :: "'w process_kernel \<Rightarrow> windows_job \<Rightarrow> ('w, windows_job) process_op" where
  "job_close k j =
     (if wj_closed j then retD j
      else bindD (kernel_call k (JobReleased (wj_handle j))) (\<lambda>_. retD (j\<lparr>wj_closed := True, wj_cancelled := True\<rparr>)))"

section \<open>The manager\<close>

definition list_processes :: "process_info option list \<Rightarrow> process_info list" where
  "list_processes snapshot = sort_key pi_pid (List.map_filter id snapshot)"

definition get_owned :: "int \<Rightarrow> ('w, owned_process) process_op" where
  "get_owned pid s = (case map_of (pm_owned s) pid of None \<Rightarrow> (Inl (NotOwnedError pid), s) | Some p \<Rightarrow> (Inr p, s))"

definition set_owned :: "int \<Rightarrow> owned_process \<Rightarrow> ('w, unit) process_op" where
  "set_owned pid p s = (Inr (), s\<lparr>pm_owned := AList.update pid p (pm_owned s)\<rparr>)"

text \<open>
  The body of the \<open>try\<close> in \<open>start\<close>: the error that is caught, if any, with the variable \<open>job\<close> as it is then.
\<close>

definition run_prepared :: "'w process_kernel \<Rightarrow> nat \<Rightarrow> nat \<Rightarrow> windows_job option \<Rightarrow> ('w, process_error option \<times> windows_job option) process_op" where
  "run_prepared k h t job =
     catchD is_os_error
       (bindD (case job of None \<Rightarrow> retD () | Some j \<Rightarrow> assign_process k j h) (\<lambda>_.
          bindD (kernel_call k (ThreadResumed t)) (\<lambda>_. retD (None, job))))
       (\<lambda>e. retD (Some e, job))"

definition prepare_process :: "'w process_kernel \<Rightarrow> bool \<Rightarrow> nat \<Rightarrow> nat \<Rightarrow> ('w, process_error option \<times> windows_job option) process_op" where
  "prepare_process k managed h t =
     (if managed
      then catchD is_os_error (bindD (create_job k) (\<lambda>j. run_prepared k h t (Some j))) (\<lambda>e. retD (Some e, None))
      else run_prepared k h t None)"

definition cleanup_timeout_ms :: int where "cleanup_timeout_ms = 5000"

definition discard_process :: "'w process_kernel \<Rightarrow> windows_job option \<Rightarrow> nat \<Rightarrow> ('w, unit) process_op" where
  "discard_process k job h =
     finallyD
       (bindD (kernel_call k (ProcessTerminated h)) (\<lambda>_.
          bindD (pm_record (ProcessWaited h)) (\<lambda>_. bindD (pm_ask (pk_wait k h cleanup_timeout_ms)) (\<lambda>r.
            if r \<noteq> 0 then failD (ProcessOsError r) else retD ()))))
       (finallyD (case job of None \<Rightarrow> retD () | Some j \<Rightarrow> bindD (job_close k j) (\<lambda>_. retD ())) (kernel_call k (HandleReleased h)))"

definition start_process :: "'w process_kernel \<Rightarrow> process_spec \<Rightarrow> ('w, started_process) process_op" where
  "start_process k spec =
     bindD (pm_get pm_closed) (\<lambda>closed. if closed then failD ManagerClosedError else
     if ps_argv spec = [] then failD ProcessIndexError else
     bindD (pm_ask (pk_which k (hd (ps_argv spec)))) (\<lambda>found. case found of
       None \<Rightarrow> failD (ExecutableNotFoundError (hd (ps_argv spec)))
     | Some executable \<Rightarrow>
         bindD (pm_ask (pk_create_process k executable (list2cmdline (ps_argv spec)) (ps_cwd spec))) (\<lambda>r. case r of
           Inl n \<Rightarrow> failD (ProcessOsError n)
         | Inr (h, t, pid) \<Rightarrow>
             bindD (pm_record (ProcessCreated pid h t)) (\<lambda>_.
             bindD
               (finallyD
                 (bindD (prepare_process k (ps_managed spec) h t) (\<lambda>(failed, job). case failed of
                    None \<Rightarrow> retD job
                  | Some e \<Rightarrow> bindD (discard_process k job h) (\<lambda>_. failD e)))
                 (kernel_call k (HandleReleased t)))
               (\<lambda>job.
                  bindD (set_owned pid \<lparr>op_handle = h, op_job = job, op_terminated = False\<rparr>) (\<lambda>_.
                    retD \<lparr>sp_pid = pid, sp_handle = h, sp_managed = ps_managed spec\<rparr>))))))"

definition wait_process :: "'w process_kernel \<Rightarrow> int \<Rightarrow> int \<Rightarrow> ('w, bool) process_op" where
  "wait_process k pid timeout =
     bindD (get_owned pid) (\<lambda>p. bindD (pm_record (ProcessWaited (op_handle p))) (\<lambda>_.
       bindD (pm_ask (pk_wait k (op_handle p) timeout)) (\<lambda>r.
         if r = 0 then retD True else if r = 258 then retD False else failD (ProcessOsError r))))"

text \<open>The kill of a process: its job if it has one, else the process itself.\<close>

definition kill_owned :: "'w process_kernel \<Rightarrow> int \<Rightarrow> owned_process \<Rightarrow> ('w, unit) process_op" where
  "kill_owned k pid p =
     (case op_job p of
        Some j \<Rightarrow> bindD (job_cancel k j) (\<lambda>(_, j'). set_owned pid (p\<lparr>op_job := Some j'\<rparr>))
      | None \<Rightarrow> kernel_call k (ProcessTerminated (op_handle p)))"

definition mark_terminated :: "int \<Rightarrow> ('w, unit) process_op" where
  "mark_terminated pid = bindD (get_owned pid) (\<lambda>p. set_owned pid (p\<lparr>op_terminated := True\<rparr>))"

definition terminate_process :: "'w process_kernel \<Rightarrow> int \<Rightarrow> ('w, process_termination) process_op" where
  "terminate_process k pid =
     bindD (get_owned pid) (\<lambda>p.
     bindD (if op_terminated p then retD True else wait_process k pid 0) (\<lambda>ended.
       if ended then bindD (mark_terminated pid) (\<lambda>_. retD \<lparr>pt_pid = pid, pt_terminated = True, pt_already = True\<rparr>)
       else bindD (kill_owned k pid p) (\<lambda>_. bindD (mark_terminated pid) (\<lambda>_.
              retD \<lparr>pt_pid = pid, pt_terminated = True, pt_already = False\<rparr>))))"

definition cancel_tree :: "'w process_kernel \<Rightarrow> int \<Rightarrow> ('w, job_receipt) process_op" where
  "cancel_tree k pid =
     bindD (get_owned pid) (\<lambda>p. case op_job p of
       None \<Rightarrow> failD (HasNoJobError pid)
     | Some j \<Rightarrow> bindD (job_cancel k j) (\<lambda>(receipt, j').
         bindD (set_owned pid (p\<lparr>op_job := Some j', op_terminated := True\<rparr>)) (\<lambda>_. retD receipt)))"

definition job_for :: "int \<Rightarrow> ('w, windows_job) process_op" where
  "job_for pid = bindD (get_owned pid) (\<lambda>p. case op_job p of None \<Rightarrow> failD (HasNoJobError pid) | Some j \<Rightarrow> retD j)"

text \<open>One turn of the loop in \<open>close\<close>.\<close>

definition close_owned :: "'w process_kernel \<Rightarrow> int \<Rightarrow> ('w, unit) process_op" where
  "close_owned k pid =
     bindD (get_owned pid) (\<lambda>p.
     bindD (if op_terminated p then retD True else wait_process k pid 0) (\<lambda>ended.
     bindD (if ended then retD () else kill_owned k pid p) (\<lambda>_.
     bindD (get_owned pid) (\<lambda>q.
     bindD (case op_job q of None \<Rightarrow> retD ()
            | Some j \<Rightarrow> bindD (job_close k j) (\<lambda>j'. set_owned pid (q\<lparr>op_job := Some j'\<rparr>))) (\<lambda>_.
       kernel_call k (HandleReleased (op_handle p)))))))"

fun close_all_owned :: "'w process_kernel \<Rightarrow> int list \<Rightarrow> ('w, unit) process_op" where
  "close_all_owned k [] = retD ()"
| "close_all_owned k (pid # pids) = bindD (close_owned k pid) (\<lambda>_. close_all_owned k pids)"

definition close_manager :: "'w process_kernel \<Rightarrow> ('w, unit) process_op" where
  "close_manager k =
     bindD (pm_get pm_closed) (\<lambda>closed. if closed then retD () else
     bindD (pm_get (map fst \<circ> pm_owned)) (\<lambda>pids. bindD (close_all_owned k pids) (\<lambda>_ s. (Inr (), s\<lparr>pm_closed := True\<rparr>))))"

section \<open>Only own handles are used\<close>

definition opened_process :: "nat \<Rightarrow> (kernel_event \<times> bool) list \<Rightarrow> bool" where
  "opened_process h log \<longleftrightarrow> (\<exists>pid t. (ProcessCreated pid h t, True) \<in> set log)"

definition opened_thread :: "nat \<Rightarrow> (kernel_event \<times> bool) list \<Rightarrow> bool" where
  "opened_thread t log \<longleftrightarrow> (\<exists>pid h. (ProcessCreated pid h t, True) \<in> set log)"

definition opened_job :: "nat \<Rightarrow> (kernel_event \<times> bool) list \<Rightarrow> bool" where
  "opened_job j log \<longleftrightarrow> (JobCreated j, True) \<in> set log"

text \<open>What an event uses was opened by an earlier event of the same log.\<close>

fun uses_opened :: "kernel_event \<Rightarrow> (kernel_event \<times> bool) list \<Rightarrow> bool" where
  "uses_opened (JobAssigned j h) log \<longleftrightarrow> opened_job j log \<and> opened_process h log"
| "uses_opened (ThreadResumed t) log \<longleftrightarrow> opened_thread t log"
| "uses_opened (ProcessTerminated h) log \<longleftrightarrow> opened_process h log"
| "uses_opened (ProcessWaited h) log \<longleftrightarrow> opened_process h log"
| "uses_opened (JobTerminated j) log \<longleftrightarrow> opened_job j log"
| "uses_opened (JobReleased j) log \<longleftrightarrow> opened_job j log"
| "uses_opened (HandleReleased h) log \<longleftrightarrow> opened_process h log \<or> opened_thread h log"
| "uses_opened _ log \<longleftrightarrow> True"

fun own_log :: "(kernel_event \<times> bool) list \<Rightarrow> bool" where
  "own_log [] \<longleftrightarrow> True"
| "own_log ((e, ok) # l) \<longleftrightarrow> uses_opened e l \<and> own_log l"

definition owned_opened :: "owned_process \<Rightarrow> (kernel_event \<times> bool) list \<Rightarrow> bool" where
  "owned_opened p log \<longleftrightarrow>
     opened_process (op_handle p) log \<and> (case op_job p of None \<Rightarrow> True | Some j \<Rightarrow> opened_job (wj_handle j) log)"

definition manager_inv :: "'w process_manager \<Rightarrow> bool" where
  "manager_inv s \<longleftrightarrow> own_log (pm_log s) \<and> (\<forall>(pid, p) \<in> set (pm_owned s). owned_opened p (pm_log s))"

text \<open>The invariant together with events that are already in the log: the log only grows.\<close>

definition inv_with :: "(kernel_event \<times> bool) set \<Rightarrow> 'w process_manager \<Rightarrow> bool" where
  "inv_with L s \<longleftrightarrow> manager_inv s \<and> L \<subseteq> set (pm_log s)"

lemma opened_Cons: "opened_process h l \<Longrightarrow> opened_process h (e # l)" "opened_thread h l \<Longrightarrow> opened_thread h (e # l)"
    "opened_job h l \<Longrightarrow> opened_job h (e # l)" "owned_opened p l \<Longrightarrow> owned_opened p (e # l)"
  by (auto simp: opened_process_def opened_thread_def opened_job_def owned_opened_def split: option.splits)

lemma inv_with_log: "inv_with L s \<Longrightarrow> uses_opened e (pm_log s) \<Longrightarrow> inv_with (insert (e, ok) L) (s\<lparr>pm_log := (e, ok) # pm_log s\<rparr>)"
  by (auto simp: inv_with_def manager_inv_def intro: opened_Cons)

lemma inv_with_mono: "inv_with L s \<Longrightarrow> K \<subseteq> L \<Longrightarrow> inv_with K s"
  by (auto simp: inv_with_def)

named_theorems inv_intros \<open>operations that keep the invariant\<close>

abbreviation keeps_inv :: "(kernel_event \<times> bool) set \<Rightarrow> ('w, 'a) process_op \<Rightarrow> bool" where
  "keeps_inv L m \<equiv> triple (inv_with L) m (\<lambda>_. inv_with L) (\<lambda>_. inv_with L)"

lemma inv_ask [inv_intros]: "keeps_inv L (pm_ask q)"
  by (auto simp: triple_def pm_ask_def inv_with_def manager_inv_def split: prod.splits)

lemma inv_ret [inv_intros]: "keeps_inv L (retD x)" and inv_fail [inv_intros]: "keeps_inv L (failD e)"
  by (rule triple_ret triple_fail, assumption)+

lemma inv_bind [inv_intros]: "keeps_inv L m \<Longrightarrow> (\<And>x. keeps_inv L (f x)) \<Longrightarrow> keeps_inv L (bindD m f)"
  by (rule triple_bind)

lemma inv_catch [inv_intros]: "keeps_inv L m \<Longrightarrow> (\<And>e. keeps_inv L (h e)) \<Longrightarrow> keeps_inv L (catchD p m h)"
  by (rule triple_catch) auto

lemma inv_finally [inv_intros]: "keeps_inv L m \<Longrightarrow> keeps_inv L f \<Longrightarrow> keeps_inv L (finallyD m f)"
  by (rule triple_finally) auto

text \<open>The events of \<open>L\<close> justify an event.\<close>

definition justified :: "(kernel_event \<times> bool) set \<Rightarrow> kernel_event \<Rightarrow> bool" where
  "justified L e \<longleftrightarrow> (\<forall>log. L \<subseteq> set log \<longrightarrow> uses_opened e log)"

lemma inv_call [inv_intros]: "justified L e \<Longrightarrow> keeps_inv L (kernel_call k e)"
  unfolding triple_def kernel_call_def bindD_def pm_ask_def justified_def
  by (auto simp: inv_with_def manager_inv_def split: prod.splits option.splits intro: opened_Cons)

lemma inv_record: "justified L e \<Longrightarrow> triple (inv_with L) (pm_record e) (\<lambda>_. inv_with (insert (e, True) L)) (\<lambda>_. inv_with L)"
  unfolding triple_def pm_record_def justified_def
  by (auto simp: inv_with_def manager_inv_def intro: opened_Cons)

lemma justified_simps [simp]:
  "(ProcessCreated pid h t, True) \<in> L \<Longrightarrow> justified L (ProcessTerminated h)"
  "(ProcessCreated pid h t, True) \<in> L \<Longrightarrow> justified L (ProcessWaited h)"
  "(ProcessCreated pid h t, True) \<in> L \<Longrightarrow> justified L (HandleReleased h)"
  "(ProcessCreated pid h t, True) \<in> L \<Longrightarrow> justified L (HandleReleased t)"
  "(ProcessCreated pid h t, True) \<in> L \<Longrightarrow> justified L (ThreadResumed t)"
  "(JobCreated j, True) \<in> L \<Longrightarrow> justified L (JobTerminated j)"
  "(JobCreated j, True) \<in> L \<Longrightarrow> justified L (JobReleased j)"
  "(JobCreated j, True) \<in> L \<Longrightarrow> (ProcessCreated pid h t, True) \<in> L \<Longrightarrow> justified L (JobAssigned j h)"
  "justified L (ProcessCreated pid h t)" "justified L (JobCreated j)"
  unfolding justified_def by (auto simp: opened_process_def opened_thread_def opened_job_def)

text \<open>What holds of a result and of the log so far stays known afterwards.\<close>

lemma inv_bind_facts:
  fixes m :: "('w, 'a) process_op"
  assumes "triple (inv_with L) m (\<lambda>x s. inv_with L s \<and> R x (set (pm_log s))) (\<lambda>_. inv_with L)"
    and "\<And>x L'. L \<subseteq> L' \<Longrightarrow> R x L' \<Longrightarrow> keeps_inv L' (f x)"
  shows "keeps_inv L (bindD m f)"
proof (rule triple_bind [OF assms(1)])
  fix x
  show "triple (\<lambda>s. inv_with L s \<and> R x (set (pm_log s))) (f x) (\<lambda>_. inv_with L) (\<lambda>_. inv_with L)"
    unfolding triple_def
  proof (intro allI impI)
    fix s :: "'w process_manager" assume s: "inv_with L s \<and> R x (set (pm_log s))"
    then have l: "L \<subseteq> set (pm_log s)" by (simp add: inv_with_def)
    have self: "inv_with (set (pm_log s)) s" using s by (auto simp: inv_with_def)
    have "R x (set (pm_log s))" using s by blast
    from triple_run [OF assms(2) [OF l this] self] inv_with_mono [OF _ l]
    show "case f x s of (Inr x, s') \<Rightarrow> inv_with L s' | (Inl e, s') \<Rightarrow> inv_with L s'"
      by (auto split: prod.splits sum.splits)
  qed
qed

lemma inv_frame:
  fixes m :: "('w, 'a) process_op"
  assumes "\<And>L'. L \<subseteq> L' \<Longrightarrow> keeps_inv L' m" "\<And>K K'. K \<subseteq> K' \<Longrightarrow> R K \<Longrightarrow> R K'"
  shows "triple (\<lambda>s. inv_with L s \<and> R (set (pm_log s))) m (\<lambda>_ s. inv_with L s \<and> R (set (pm_log s))) (\<lambda>_. inv_with L)"
  unfolding triple_def
proof (intro allI impI)
  fix s :: "'w process_manager" assume s: "inv_with L s \<and> R (set (pm_log s))"
  then have l: "L \<subseteq> set (pm_log s)" by (simp add: inv_with_def)
  have "R (set (pm_log s'))" if "inv_with (set (pm_log s)) s'" for s' :: "'w process_manager" using that s assms(2) by (auto simp: inv_with_def)
  moreover have "inv_with (set (pm_log s)) s" using s by (auto simp: inv_with_def)
  ultimately  show "case m s of (Inr x, s') \<Rightarrow> inv_with L s' \<and> R (set (pm_log s')) | (Inl e, s') \<Rightarrow> inv_with L s'"
    using triple_run [OF assms(1) [OF l], of s] inv_with_mono [OF _ l] by (auto split: prod.splits sum.splits)
qed

definition owned_in :: "(kernel_event \<times> bool) set \<Rightarrow> owned_process \<Rightarrow> bool" where
  "owned_in L p \<longleftrightarrow> (\<exists>pid t. (ProcessCreated pid (op_handle p) t, True) \<in> L) \<and>
     (\<forall>j. op_job p = Some j \<longrightarrow> (JobCreated (wj_handle j), True) \<in> L)"

lemma owned_in_log: "owned_opened p log = owned_in (set log) p"
  by (auto simp: owned_opened_def owned_in_def opened_process_def opened_job_def split: option.splits)

lemma inv_get_owned: "(\<And>p L'. L \<subseteq> L' \<Longrightarrow> owned_in L' p \<Longrightarrow> keeps_inv L' (f p)) \<Longrightarrow> keeps_inv L (bindD (get_owned pid) f)"
proof (rule inv_bind_facts [where R = "\<lambda>p L. owned_in L p"])
  show "triple (inv_with L) (get_owned pid) (\<lambda>x s. inv_with L s \<and> owned_in (set (pm_log s)) x) (\<lambda>_. inv_with L)"
    by (auto simp: triple_def get_owned_def inv_with_def manager_inv_def owned_in_log dest!: map_of_SomeD split: option.splits)
qed

lemma inv_set_owned: "owned_in L p \<Longrightarrow> keeps_inv L (set_owned pid p)"
proof -
  assume o: "owned_in L p"
  have "owned_in (set log) p" if "L \<subseteq> set log" for log using o that by (auto simp: owned_in_def)
  moreover have "set (AList.update pid p xs) \<subseteq> insert (pid, p) (set xs)" for xs by (induction xs) auto
  ultimately show ?thesis
    by (fastforce simp: triple_def set_owned_def inv_with_def manager_inv_def owned_in_log)
qed

lemma inv_job_result:
  assumes "(JobCreated (wj_handle j), True) \<in> L"
  shows "(\<And>r j'. wj_handle j' = wj_handle j \<Longrightarrow> keeps_inv L (f (r, j'))) \<Longrightarrow> keeps_inv L (bindD (job_cancel k j) f)"
    "(\<And>j'. wj_handle j' = wj_handle j \<Longrightarrow> keeps_inv L (g j')) \<Longrightarrow> keeps_inv L (bindD (job_close k j) g)"
proof -
  have c: "keeps_inv L (kernel_call k (JobTerminated (wj_handle j)))" "keeps_inv L (kernel_call k (JobReleased (wj_handle j)))"
    using assms by (auto intro!: inv_intros)
  assume "\<And>r j'. wj_handle j' = wj_handle j \<Longrightarrow> keeps_inv L (f (r, j'))"
  then show "keeps_inv L (bindD (job_cancel k j) f)"
    by (intro triple_bind [where R = "\<lambda>x s. inv_with L s \<and> wj_handle (snd x) = wj_handle j"])
      (auto simp: job_cancel_def triple_pure intro!: triple_bind [OF c(1)] triple_ret)
next
  have c: "keeps_inv L (kernel_call k (JobReleased (wj_handle j)))"
    using assms by (auto intro!: inv_intros)
  assume "\<And>j'. wj_handle j' = wj_handle j \<Longrightarrow> keeps_inv L (g j')"
  then show "keeps_inv L (bindD (job_close k j) g)"
    by (intro triple_bind [where R = "\<lambda>x s. inv_with L s \<and> wj_handle x = wj_handle j"])
      (auto simp: job_close_def triple_pure intro!: triple_bind [OF c] triple_ret)
qed

lemma inv_bind_record:
  assumes "justified L e" "keeps_inv (insert (e, True) L) m"
  shows "keeps_inv L (bindD (pm_record e) (\<lambda>_. m))"
proof (rule triple_bind [OF inv_record [OF assms(1)]])
  fix u :: unit
  show "triple (inv_with (insert (e, True) L)) m (\<lambda>_. inv_with L) (\<lambda>_. inv_with L)"
    by (rule triple_weaken [OF assms(2)]) (auto elim: inv_with_mono)
qed

lemma owned_justified:
  assumes "owned_in L p"
  shows "justified L (ProcessWaited (op_handle p))" "justified L (ProcessTerminated (op_handle p))"
    "justified L (HandleReleased (op_handle p))"
    "op_job p = Some j \<Longrightarrow> (JobCreated (wj_handle j), True) \<in> L"
  using assms by (auto simp: owned_in_def)

lemma owned_in_mono: "owned_in L p \<Longrightarrow> L \<subseteq> L' \<Longrightarrow> owned_in L' p"
  by (auto simp: owned_in_def)

lemma owned_in_update:
  "owned_in L p \<Longrightarrow> op_job p = Some j \<Longrightarrow> wj_handle j' = wj_handle j \<Longrightarrow> owned_in L (p\<lparr>op_job := Some j'\<rparr>)"
  "owned_in L (p\<lparr>op_terminated := b\<rparr>) = owned_in L p"
  by (auto simp: owned_in_def)

lemma inv_wait: "keeps_inv L (wait_process k pid timeout)"
  unfolding wait_process_def
  by (intro inv_get_owned inv_bind_record) (auto simp: owned_justified intro!: inv_intros)

lemma inv_mark: "keeps_inv L (mark_terminated pid)"
  unfolding mark_terminated_def by (intro inv_get_owned inv_set_owned) (simp add: owned_in_update)

lemma inv_kill:
  assumes "owned_in L p"
  shows "keeps_inv L (kill_owned k pid p)"
proof (cases "op_job p")
  case None
  then show ?thesis using owned_justified(2) [OF assms] by (simp add: kill_owned_def inv_call)
next
  case (Some j)
  show ?thesis
    unfolding kill_owned_def Some option.case
    by (rule inv_job_result(1) [OF owned_justified(4) [OF assms Some]])
      (simp add: inv_set_owned owned_in_update(1) [OF assms Some])
qed

lemma inv_terminate: "keeps_inv L (terminate_process k pid)"
  unfolding terminate_process_def
  by (intro inv_get_owned inv_bind) (auto intro!: inv_intros inv_wait inv_mark inv_kill)

lemma inv_cancel_tree: "keeps_inv L (cancel_tree k pid)"
  unfolding cancel_tree_def
proof (rule inv_get_owned)
  fix p L' assume o: "owned_in L' p"
  show "keeps_inv L' (case op_job p of None \<Rightarrow> failD (HasNoJobError pid)
      | Some j \<Rightarrow> bindD (job_cancel k j) (\<lambda>(receipt, j').
          bindD (set_owned pid (p\<lparr>op_job := Some j', op_terminated := True\<rparr>)) (\<lambda>_. retD receipt)))"
  proof (cases "op_job p")
    case (Some j)
    have upd: "owned_in L' (p\<lparr>op_job := Some j', op_terminated := True\<rparr>)" if "wj_handle j' = wj_handle j" for j'
      using o Some that by (auto simp: owned_in_def)
    show ?thesis
      unfolding Some option.case
      by (rule inv_job_result(1) [OF owned_justified(4) [OF o Some]]) (simp add: inv_bind inv_ret inv_set_owned upd)
  qed (simp add: inv_intros)
qed

lemma inv_close_owned: "keeps_inv L (close_owned k pid)"
  unfolding close_owned_def
proof (rule inv_get_owned, rule inv_bind)
  fix p L1 assume p: "owned_in L1 p"
  show "keeps_inv L1 (if op_terminated p then retD True else wait_process k pid 0)" by (auto intro!: inv_intros inv_wait)
  fix e
  have "keeps_inv L1 (bindD (get_owned pid) (\<lambda>q. bindD (case op_job q of None \<Rightarrow> retD ()
      | Some j \<Rightarrow> bindD (job_close k j) (\<lambda>j'. set_owned pid (q\<lparr>op_job := Some j'\<rparr>)))
      (\<lambda>_. kernel_call k (HandleReleased (op_handle p)))))"
  proof (rule inv_get_owned, rule inv_bind)
    fix q L2 assume sub: "L1 \<subseteq> L2" and q: "owned_in L2 q"
    show "keeps_inv L2 (case op_job q of None \<Rightarrow> retD ()
        | Some j \<Rightarrow> bindD (job_close k j) (\<lambda>j'. set_owned pid (q\<lparr>op_job := Some j'\<rparr>)))"
    proof (cases "op_job q")
      case (Some j)
      show ?thesis
        unfolding Some option.case
        by (rule inv_job_result(2) [OF owned_justified(4) [OF q Some]])
          (simp add: inv_set_owned owned_in_update(1) [OF q Some])
    qed (simp add: inv_intros)
    show "keeps_inv L2 (kernel_call k (HandleReleased (op_handle p)))"
      using owned_justified(3) [OF owned_in_mono [OF p sub]] by (intro inv_call)
  qed
  then show "keeps_inv L1 (bindD (if e then retD () else kill_owned k pid p) (\<lambda>_. bindD (get_owned pid) (\<lambda>q.
      bindD (case op_job q of None \<Rightarrow> retD ()
      | Some j \<Rightarrow> bindD (job_close k j) (\<lambda>j'. set_owned pid (q\<lparr>op_job := Some j'\<rparr>)))
      (\<lambda>_. kernel_call k (HandleReleased (op_handle p))))))"
    by (rule inv_bind [rotated]) (use p in \<open>auto intro!: inv_ret inv_kill\<close>)
qed

lemma inv_close_manager: "keeps_inv L (close_manager k)"
proof -
  have all: "keeps_inv L (close_all_owned k pids)" for pids
    by (induction pids) (simp_all add: inv_ret inv_bind inv_close_owned)
  have get: "keeps_inv L (pm_get f)" for f by (simp add: triple_def pm_get_def)
  have "keeps_inv L (\<lambda>s. (Inr (), s\<lparr>pm_closed := True\<rparr>))" by (auto simp: triple_def inv_with_def manager_inv_def)
  then show ?thesis unfolding close_manager_def by (auto intro!: inv_intros all get)
qed

definition job_known :: "(kernel_event \<times> bool) set \<Rightarrow> windows_job option \<Rightarrow> bool" where
  "job_known L job \<longleftrightarrow> (\<forall>j. job = Some j \<longrightarrow> (JobCreated (wj_handle j), True) \<in> L)"

lemma job_known_mono: "job_known K j \<Longrightarrow> K \<subseteq> K' \<Longrightarrow> job_known K' j"
  by (auto simp: job_known_def)

lemma inv_create_job:
  "triple (inv_with L) (create_job k) (\<lambda>j s. inv_with L s \<and> job_known (set (pm_log s)) (Some j)) (\<lambda>_. inv_with L)"
  unfolding triple_def create_job_def bindD_def pm_ask_def pm_record_def kernel_call_def retD_def failD_def
  by (auto simp: inv_with_def manager_inv_def job_known_def opened_job_def intro!: opened_Cons
      split: prod.splits option.splits sum.splits)

lemma inv_run:
  assumes "(ProcessCreated pid h t, True) \<in> L" "job_known L job"
  shows "triple (inv_with L) (run_prepared k h t job) (\<lambda>x s. inv_with L s \<and> snd x = job) (\<lambda>_. inv_with L)"
proof -
  have "keeps_inv L (case job of None \<Rightarrow> retD () | Some j \<Rightarrow> assign_process k j h)"
    using assms by (auto simp: assign_process_def job_known_def split: option.split intro!: inv_intros)
  moreover have "keeps_inv L (kernel_call k (ThreadResumed t))" using assms by (auto intro!: inv_intros)
  ultimately show ?thesis
    unfolding run_prepared_def
    by (intro triple_catch [where F = "\<lambda>_. inv_with L"] triple_bind [where R = "\<lambda>_. inv_with L"] triple_ret) auto
qed

lemma triple_at_log:
  fixes m :: "('w, 'a) process_op"
  assumes "\<And>K. L \<subseteq> K \<Longrightarrow> R K \<Longrightarrow> triple (inv_with K) m (\<lambda>x s. inv_with K s \<and> Z K x) (\<lambda>_. inv_with K)"
  shows "triple (\<lambda>s. inv_with L s \<and> R (set (pm_log s))) m
    (\<lambda>x s. inv_with L s \<and> (\<exists>K. L \<subseteq> K \<and> R K \<and> Z K x \<and> K \<subseteq> set (pm_log s))) (\<lambda>_. inv_with L)"
  unfolding triple_def
proof (intro allI impI)
  fix s :: "'w process_manager" assume s: "inv_with L s \<and> R (set (pm_log s))"
  then have l: "L \<subseteq> set (pm_log s)" and rl: "R (set (pm_log s))" by (auto simp: inv_with_def)
  have self: "inv_with (set (pm_log s)) s" using s by (auto simp: inv_with_def)
  have grown: "set (pm_log s) \<subseteq> set (pm_log s')" if "inv_with (set (pm_log s)) s'" for s' :: "'w process_manager"
    using that by (auto simp: inv_with_def)
  show "case m s of (Inr x, s') \<Rightarrow> inv_with L s' \<and> (\<exists>K. L \<subseteq> K \<and> R K \<and> Z K x \<and> K \<subseteq> set (pm_log s')) | (Inl e, s') \<Rightarrow> inv_with L s'"
  proof (cases "m s")
    case (Pair r s')
    show ?thesis
    proof (cases r)
      case (Inl e)
      then show ?thesis using triple_run [OF assms [OF l rl] self] Pair inv_with_mono [OF _ l] by simp
    next
      case (Inr x)
      then have "inv_with (set (pm_log s)) s'" "Z (set (pm_log s)) x" using triple_run [OF assms [OF l rl] self] Pair by simp_all
      then show ?thesis using Inr Pair l rl grown inv_with_mono [OF _ l] by auto
    qed
  qed
qed

lemma inv_prepare:
  assumes "(ProcessCreated pid h t, True) \<in> L"
  shows "triple (inv_with L) (prepare_process k managed h t)
    (\<lambda>x s. inv_with L s \<and> job_known (set (pm_log s)) (snd x)) (\<lambda>_. inv_with L)"
proof (cases managed)
  case True
  have "triple (\<lambda>s. inv_with L s \<and> job_known (set (pm_log s)) (Some j)) (run_prepared k h t (Some j))
      (\<lambda>x s. inv_with L s \<and> job_known (set (pm_log s)) (snd x)) (\<lambda>_. inv_with L)" for j
    by (rule triple_weaken [OF triple_at_log [where R = "\<lambda>K. job_known K (Some j)" and Z = "\<lambda>_ x. snd x = Some j"]])
      (use assms in \<open>auto intro: inv_run job_known_mono\<close>)
  then show ?thesis
    unfolding prepare_process_def using True
    by (simp, intro triple_catch [where F = "\<lambda>_. inv_with L"] triple_bind [OF inv_create_job] triple_ret)
      (auto simp: job_known_def)
next
  case False
  show ?thesis
    unfolding prepare_process_def using False
    by (simp, intro triple_weaken [OF inv_run [OF assms, of None]]) (auto simp: job_known_def)
qed

lemma inv_discard:
  assumes "(ProcessCreated pid h t, True) \<in> L" "job_known L job"
  shows "keeps_inv L (discard_process k job h)"
proof -
  have w: "keeps_inv L (bindD (pm_record (ProcessWaited h)) (\<lambda>_. bindD (pm_ask (pk_wait k h cleanup_timeout_ms)) (\<lambda>r.
      if r \<noteq> 0 then failD (ProcessOsError r) else retD ())))"
    by (intro inv_bind_record) (use assms in \<open>auto intro!: inv_intros\<close>)
  have "keeps_inv L (case job of None \<Rightarrow> retD () | Some j \<Rightarrow> bindD (job_close k j) (\<lambda>_. retD ()))"
  proof (cases job)
    case (Some j)
    then have known: "(JobCreated (wj_handle j), True) \<in> L" using assms(2) by (simp add: job_known_def)
    show ?thesis unfolding Some option.case by (rule inv_job_result(2) [OF known]) (rule inv_ret)
  qed (simp add: inv_ret)
  then show ?thesis
    unfolding discard_process_def by (intro inv_finally inv_bind w) (use assms in \<open>auto intro!: inv_intros\<close>)
qed

text \<open>From the created process to the job that the manager keeps.\<close>

lemma inv_start_body:
  assumes "(ProcessCreated pid h t, True) \<in> L"
  shows "triple (inv_with L)
    (finallyD
      (bindD (prepare_process k managed h t) (\<lambda>(failed, job). case failed of
         None \<Rightarrow> retD job
       | Some e \<Rightarrow> bindD (discard_process k job h) (\<lambda>_. failD e)))
      (kernel_call k (HandleReleased t)))
    (\<lambda>job s. inv_with L s \<and> job_known (set (pm_log s)) job) (\<lambda>_. inv_with L)"
proof (rule triple_finally [where R = "\<lambda>job s. inv_with L s \<and> job_known (set (pm_log s)) job" and F = "\<lambda>_. inv_with L"])
  show "triple (inv_with L) (bindD (prepare_process k managed h t) (\<lambda>(failed, job). case failed of
         None \<Rightarrow> retD job | Some e \<Rightarrow> bindD (discard_process k job h) (\<lambda>_. failD e)))
      (\<lambda>job s. inv_with L s \<and> job_known (set (pm_log s)) job) (\<lambda>_. inv_with L)"
  proof (rule triple_bind [OF inv_prepare [OF assms]])
    fix x :: "process_error option \<times> windows_job option"
    obtain failed job where x: "x = (failed, job)" by fastforce
    have "triple (\<lambda>s. inv_with L s \<and> job_known (set (pm_log s)) job) (discard_process k job h)
        (\<lambda>_. inv_with L) (\<lambda>_. inv_with L)"
      by (rule triple_weaken [OF triple_at_log [where R = "\<lambda>K. job_known K job" and Z = "\<lambda>_ _. True"]])
        (use assms in \<open>auto intro: inv_discard\<close>)
    then have "triple (\<lambda>s. inv_with L s \<and> job_known (set (pm_log s)) job) (bindD (discard_process k job h) (\<lambda>_. failD e))
        (\<lambda>job s. inv_with L s \<and> job_known (set (pm_log s)) job) (\<lambda>_. inv_with L)" for e
      by (rule triple_bind) (rule triple_fail)
    then show "triple (\<lambda>s. inv_with L s \<and> job_known (set (pm_log s)) (snd x))
        (case x of (failed, job) \<Rightarrow> case failed of None \<Rightarrow> retD job | Some e \<Rightarrow> bindD (discard_process k job h) (\<lambda>_. failD e))
        (\<lambda>job s. inv_with L s \<and> job_known (set (pm_log s)) job) (\<lambda>_. inv_with L)"
      by (cases failed) (simp_all add: x triple_ret)
  qed
  fix job
  show "triple (\<lambda>s. inv_with L s \<and> job_known (set (pm_log s)) job) (kernel_call k (HandleReleased t))
      (\<lambda>_ s. inv_with L s \<and> job_known (set (pm_log s)) job) (\<lambda>_. inv_with L)"
    by (rule inv_frame [where R = "\<lambda>K. job_known K job"]) (use assms in \<open>auto intro!: inv_call intro: job_known_mono\<close>)
next
  show "keeps_inv L (kernel_call k (HandleReleased t))" using assms by (auto intro!: inv_call)
qed

lemma inv_start: "keeps_inv L (start_process k spec)"
proof -
  have get: "keeps_inv L (pm_get f)" for f by (simp add: triple_def pm_get_def)
  have own: "keeps_inv K (bindD (set_owned pid \<lparr>op_handle = h, op_job = job, op_terminated = False\<rparr>) (\<lambda>_. retD x))"
    if "(ProcessCreated pid h t, True) \<in> K" "job_known K job" for K pid h t job and x :: started_process
    using that by (intro inv_bind inv_ret inv_set_owned) (auto simp: owned_in_def job_known_def)
  have "keeps_inv L (bindD (pm_record (ProcessCreated pid h t)) (\<lambda>_. bindD
      (finallyD
        (bindD (prepare_process k (ps_managed spec) h t) (\<lambda>(failed, job). case failed of
           None \<Rightarrow> retD job | Some e \<Rightarrow> bindD (discard_process k job h) (\<lambda>_. failD e)))
        (kernel_call k (HandleReleased t)))
      (\<lambda>job. bindD (set_owned pid \<lparr>op_handle = h, op_job = job, op_terminated = False\<rparr>) (\<lambda>_.
         retD \<lparr>sp_pid = pid, sp_handle = h, sp_managed = ps_managed spec\<rparr>))))" for pid h t
    by (rule inv_bind_record, simp, rule inv_bind_facts [where R = "\<lambda>job K. job_known K job"], rule inv_start_body [where pid = pid],
      simp, rule own) auto
  then show ?thesis
    unfolding start_process_def
    by (intro inv_bind get) (auto split: option.split sum.split intro!: inv_ask inv_fail inv_bind)
qed

text \<open>A run of the manager: its operations in any order, whatever they answer.\<close>

inductive manager_run :: "'w process_kernel \<Rightarrow> 'w process_manager \<Rightarrow> bool" for k where
  init: "manager_run k \<lparr>pm_world = w, pm_owned = [], pm_closed = False, pm_log = []\<rparr>"
| start: "manager_run k s \<Longrightarrow> manager_run k (snd (start_process k spec s))"
| terminate: "manager_run k s \<Longrightarrow> manager_run k (snd (terminate_process k pid s))"
| cancel: "manager_run k s \<Longrightarrow> manager_run k (snd (cancel_tree k pid s))"
| wait: "manager_run k s \<Longrightarrow> manager_run k (snd (wait_process k pid timeout s))"
| close: "manager_run k s \<Longrightarrow> manager_run k (snd (close_manager k s))"
| world: "manager_run k s \<Longrightarrow> manager_run k (s\<lparr>pm_world := w\<rparr>)"

lemma keeps_inv_snd: "keeps_inv {} m \<Longrightarrow> manager_inv s \<Longrightarrow> manager_inv (snd (m s))"
  using triple_run [of "inv_with {}" m "\<lambda>_. inv_with {}" "\<lambda>_. inv_with {}" s]
  by (auto simp: inv_with_def split: prod.splits sum.splits)

text \<open>
  C30: the manager controls only what it started. In every run of it, each process, thread and job that is terminated, resumed, waited for,
  assigned or released was opened earlier by the manager itself, whatever process identifiers the callers pass.
\<close>

theorem only_started_processes_are_controlled:
  assumes "manager_run k s"
  shows "own_log (pm_log s)"
proof -
  from assms have "manager_inv s"
  proof induction
    case (init w)
    then show ?case by (simp add: manager_inv_def)
  next
    case (world s w)
    then show ?case by (simp add: manager_inv_def)
  qed (simp_all add: keeps_inv_snd inv_start inv_terminate inv_cancel_tree inv_wait inv_close_manager)
  then show ?thesis by (simp add: manager_inv_def)
qed

section \<open>Starting a process\<close>

definition fresh_job :: "nat \<Rightarrow> windows_job" where
  "fresh_job j = \<lparr>wj_handle = j, wj_cancelled = False, wj_closed = False\<rparr>"

text \<open>The five things that can happen between the creation of the process and the end of the \<open>try\<close>.\<close>

definition prepared ::
  "bool \<Rightarrow> nat \<Rightarrow> nat \<Rightarrow> process_error option \<Rightarrow> windows_job option \<Rightarrow> (kernel_event \<times> bool) list \<Rightarrow> bool" where
  "prepared managed h t failed job new \<longleftrightarrow>
     (if managed
      then (job = None \<and> failed \<noteq> None \<and> (new = [] \<or> (\<exists>j ok. new = [(JobReleased j, ok), (JobCreated j, True)]))) \<or>
        (\<exists>j. job = Some (fresh_job j) \<and>
          ((failed \<noteq> None \<and> new = [(JobAssigned j h, False), (JobCreated j, True)]) \<or>
           new = [(ThreadResumed t, failed = None), (JobAssigned j h, True), (JobCreated j, True)]))
      else job = None \<and> new = [(ThreadResumed t, failed = None)])"

lemma kernel_call_result:
  assumes "kernel_call k e s = (r, s')"
  shows "(r = Inr () \<and> pm_log s' = (e, True) # pm_log s \<or> (\<exists>n. r = Inl (ProcessOsError n)) \<and> pm_log s' = (e, False) # pm_log s) \<and>
    pm_owned s' = pm_owned s \<and> pm_closed s' = pm_closed s"
  using assms by (auto simp: kernel_call_def bindD_def pm_ask_def split: prod.splits option.splits)

lemma run_prepared_result:
  assumes "run_prepared k h t job s = (r, s')" "\<And>j. job = Some j \<Longrightarrow> \<not> wj_closed j"
  shows "\<exists>failed new. r = Inr (failed, job) \<and> pm_log s' = new @ pm_log s \<and> pm_owned s' = pm_owned s \<and>
    (case job of None \<Rightarrow> new = [(ThreadResumed t, failed = None)]
     | Some j \<Rightarrow> (failed \<noteq> None \<and> new = [(JobAssigned (wj_handle j) h, False)]) \<or>
         new = [(ThreadResumed t, failed = None), (JobAssigned (wj_handle j) h, True)])"
proof (cases job)
  case None
  obtain q s1 where q: "kernel_call k (ThreadResumed t) s = (q, s1)" by fastforce
  show ?thesis
    using assms None q kernel_call_result [OF q]
    by (auto simp: run_prepared_def bindD_def catchD_def retD_def split: sum.splits)
next
  case (Some j)
  obtain q s1 where q: "kernel_call k (JobAssigned (wj_handle j) h) s = (q, s1)" by fastforce
  obtain q2 s2 where q2: "kernel_call k (ThreadResumed t) s1 = (q2, s2)" by fastforce
  show ?thesis
    using assms Some q q2 kernel_call_result [OF q] kernel_call_result [OF q2]
    by (auto simp: run_prepared_def assign_process_def bindD_def catchD_def retD_def split: sum.splits)
qed

lemma create_job_result:
  assumes "create_job k s = (r, s')"
  shows "pm_owned s' = pm_owned s \<and>
    ((\<exists>n. r = Inl (ProcessOsError n)) \<and> (pm_log s' = pm_log s \<or> (\<exists>j ok. pm_log s' = (JobReleased j, ok) # (JobCreated j, True) # pm_log s)) \<or>
     (\<exists>j. r = Inr (fresh_job j) \<and> pm_log s' = (JobCreated j, True) # pm_log s))"
  using assms
  by (auto simp: create_job_def kernel_call_def bindD_def pm_ask_def pm_record_def failD_def retD_def fresh_job_def
      split: prod.splits sum.splits option.splits)

lemma prepare_result:
  assumes "prepare_process k managed h t s = (r, s')"
  shows "\<exists>failed job new. r = Inr (failed, job) \<and> pm_log s' = new @ pm_log s \<and> pm_owned s' = pm_owned s \<and> prepared managed h t failed job new"
proof (cases managed)
  case False
  then show ?thesis
    using assms run_prepared_result [of k h t None s r s'] by (auto simp: prepare_process_def prepared_def)
next
  case True
  obtain q s1 where q: "create_job k s = (q, s1)" by fastforce
  note c = create_job_result [OF q]
  show ?thesis
  proof (cases q)
    case (Inl e)
    then have "r = Inr (Some e, None)" "s' = s1"
      using assms True q c by (auto simp: prepare_process_def catchD_def bindD_def retD_def)
    then show ?thesis using Inl c True by (auto simp: prepared_def)
  next
    case (Inr j)
    then obtain i where i: "j = fresh_job i" "pm_log s1 = (JobCreated i, True) # pm_log s" "pm_owned s1 = pm_owned s" using c by auto
    obtain v s2 where v: "run_prepared k h t (Some j) s1 = (v, s2)" by fastforce
    obtain failed new where n: "v = Inr (failed, Some j)" "pm_log s2 = new @ pm_log s1" "pm_owned s2 = pm_owned s1"
      "failed \<noteq> None \<and> new = [(JobAssigned i h, False)] \<or> new = [(ThreadResumed t, failed = None), (JobAssigned i h, True)]"
      using run_prepared_result [OF v] i by (auto simp: fresh_job_def)
    have "r = v" "s' = s2"
      using assms True q Inr v n(1) by (auto simp: prepare_process_def catchD_def bindD_def)
    then show ?thesis using n i True by (auto simp: prepared_def)
  qed
qed

fun handles_released :: "(kernel_event \<times> bool) list \<Rightarrow> nat list" where
  "handles_released [] = []"
| "handles_released ((HandleReleased h, _) # l) = h # handles_released l"
| "handles_released (_ # l) = handles_released l"

fun jobs_released :: "(kernel_event \<times> bool) list \<Rightarrow> nat list" where
  "jobs_released [] = []"
| "jobs_released ((JobReleased j, _) # l) = j # jobs_released l"
| "jobs_released (_ # l) = jobs_released l"

fun jobs_created :: "(kernel_event \<times> bool) list \<Rightarrow> nat list" where
  "jobs_created [] = []"
| "jobs_created ((JobCreated j, _) # l) = j # jobs_created l"
| "jobs_created (_ # l) = jobs_created l"

lemma handles_released_append [simp]: "handles_released (l @ m) = handles_released l @ handles_released m"
  by (induction l rule: handles_released.induct) simp_all

lemma jobs_released_append [simp]: "jobs_released (l @ m) = jobs_released l @ jobs_released m"
  by (induction l rule: jobs_released.induct) simp_all

lemma jobs_created_append [simp]: "jobs_created (l @ m) = jobs_created l @ jobs_created m"
  by (induction l rule: jobs_created.induct) simp_all

lemma job_close_result:
  assumes "job_close k j s = (r, s')" "\<not> wj_closed j"
  shows "(\<exists>ok. pm_log s' = (JobReleased (wj_handle j), ok) # pm_log s) \<and> pm_owned s' = pm_owned s \<and> pm_closed s' = pm_closed s \<and>
    (\<forall>j'. r = Inr j' \<longrightarrow> j' = j\<lparr>wj_closed := True, wj_cancelled := True\<rparr>)"
proof -
  obtain q s1 where q: "kernel_call k (JobReleased (wj_handle j)) s = (q, s1)" by fastforce
  show ?thesis
    using assms q kernel_call_result [OF q] by (cases q) (auto simp: job_close_def bindD_def retD_def)
qed

lemma discard_kill_result:
  assumes "bindD (kernel_call k (ProcessTerminated h)) (\<lambda>_.
      bindD (pm_record (ProcessWaited h)) (\<lambda>_. bindD (pm_ask (pk_wait k h cleanup_timeout_ms)) (\<lambda>r.
        if r \<noteq> 0 then failD (ProcessOsError r) else retD ()))) s = (r, s')"
  shows "pm_owned s' = pm_owned s \<and>
    (pm_log s' = (ProcessTerminated h, False) # pm_log s \<or> pm_log s' = (ProcessWaited h, True) # (ProcessTerminated h, True) # pm_log s)"
proof -
  obtain q s1 where q: "kernel_call k (ProcessTerminated h) s = (q, s1)" by fastforce
  show ?thesis
    using assms q kernel_call_result [OF q]
    by (cases q) (auto simp: bindD_def pm_record_def pm_ask_def failD_def retD_def split: prod.splits if_splits)
qed

lemma discard_release_result:
  assumes "finallyD (case job of None \<Rightarrow> retD () | Some j \<Rightarrow> bindD (job_close k j) (\<lambda>_. retD ())) (kernel_call k (HandleReleased h)) s = (r, s')"
    and "\<And>j. job = Some j \<Longrightarrow> \<not> wj_closed j"
  shows "\<exists>new. pm_log s' = new @ pm_log s \<and> pm_owned s' = pm_owned s \<and> handles_released new = [h] \<and> jobs_created new = [] \<and>
    jobs_released new = (case job of None \<Rightarrow> [] | Some j \<Rightarrow> [wj_handle j]) \<and> (\<forall>p. ThreadResumed p \<notin> fst ` set new)"
proof -
  obtain a s1 where a: "(case job of None \<Rightarrow> retD () | Some j \<Rightarrow> bindD (job_close k j) (\<lambda>_. retD ())) s = (a, s1)" by fastforce
  obtain b s2 where b: "kernel_call k (HandleReleased h) s1 = (b, s2)" by fastforce
  have s': "s' = s2" using assms(1) a b by (auto simp: finallyD_def Let_def split: sum.splits)
  have one: "\<exists>new. pm_log s1 = new @ pm_log s \<and> pm_owned s1 = pm_owned s \<and> handles_released new = [] \<and> jobs_created new = [] \<and>
      jobs_released new = (case job of None \<Rightarrow> [] | Some j \<Rightarrow> [wj_handle j]) \<and> (\<forall>p. ThreadResumed p \<notin> fst ` set new)"
  proof (cases job)
    case None
    then show ?thesis using a by (auto simp: retD_def)
  next
    case (Some j)
    obtain c s3 where c: "job_close k j s = (c, s3)" by fastforce
    have "s1 = s3" using a c Some by (auto simp: bindD_def retD_def split: sum.splits)
    then show ?thesis using job_close_result [OF c assms(2) [OF Some]] Some by auto
  qed
  then obtain new where "pm_log s1 = new @ pm_log s" "pm_owned s1 = pm_owned s" "handles_released new = []" "jobs_created new = []"
    "jobs_released new = (case job of None \<Rightarrow> [] | Some j \<Rightarrow> [wj_handle j])" "\<forall>p. ThreadResumed p \<notin> fst ` set new" by blast
  moreover obtain ok where "pm_log s2 = (HandleReleased h, ok) # pm_log s1" "pm_owned s2 = pm_owned s1"
    using kernel_call_result [OF b] by blast
  ultimately show ?thesis unfolding s' by (intro exI [of _ "(HandleReleased h, ok) # new"]) auto
qed

lemma discard_result:
  assumes "discard_process k job h s = (r, s')" "\<And>j. job = Some j \<Longrightarrow> \<not> wj_closed j"
  shows "\<exists>new ok. pm_log s' = new @ pm_log s \<and> pm_owned s' = pm_owned s \<and> handles_released new = [h] \<and> jobs_created new = [] \<and>
    jobs_released new = (case job of None \<Rightarrow> [] | Some j \<Rightarrow> [wj_handle j]) \<and> (ProcessTerminated h, ok) \<in> set new \<and>
    (\<forall>p. ThreadResumed p \<notin> fst ` set new)"
proof -
  obtain a s1 where a: "bindD (kernel_call k (ProcessTerminated h)) (\<lambda>_.
      bindD (pm_record (ProcessWaited h)) (\<lambda>_. bindD (pm_ask (pk_wait k h cleanup_timeout_ms)) (\<lambda>r.
        if r \<noteq> 0 then failD (ProcessOsError r) else retD ()))) s = (a, s1)" by fastforce
  obtain b s2 where b: "finallyD (case job of None \<Rightarrow> retD () | Some j \<Rightarrow> bindD (job_close k j) (\<lambda>_. retD ()))
      (kernel_call k (HandleReleased h)) s1 = (b, s2)" by fastforce
  have s': "s' = s2" using assms(1) unfolding discard_process_def finallyD_def [of "bindD _ _"] a by (auto simp: b split: sum.splits)
  obtain new where new: "pm_log s2 = new @ pm_log s1" "pm_owned s2 = pm_owned s1" "handles_released new = [h]" "jobs_created new = []"
    "jobs_released new = (case job of None \<Rightarrow> [] | Some j \<Rightarrow> [wj_handle j])" "\<forall>p. ThreadResumed p \<notin> fst ` set new"
    using discard_release_result [OF b assms(2)] by blast
  consider "pm_log s1 = (ProcessTerminated h, False) # pm_log s"
    | "pm_log s1 = (ProcessWaited h, True) # (ProcessTerminated h, True) # pm_log s"
    using discard_kill_result [OF a] by blast
  then show ?thesis
  proof cases
    case 1
    then show ?thesis unfolding s' using new discard_kill_result [OF a]
      by (intro exI [of _ "new @ [(ProcessTerminated h, False)]"] exI [of _ False]) auto
  next
    case 2
    then show ?thesis unfolding s' using new discard_kill_result [OF a]
      by (intro exI [of _ "new @ [(ProcessWaited h, True), (ProcessTerminated h, True)]"] exI [of _ True]) auto
  qed
qed

text \<open>Everything a start can do once the process exists: what was prepared, what was discarded, and the release of the thread's handle.\<close>

definition start_body :: "'w process_kernel \<Rightarrow> bool \<Rightarrow> nat \<Rightarrow> nat \<Rightarrow> ('w, windows_job option) process_op" where
  "start_body k managed h t =
     finallyD
       (bindD (prepare_process k managed h t) (\<lambda>(failed, job). case failed of
          None \<Rightarrow> retD job
        | Some e \<Rightarrow> bindD (discard_process k job h) (\<lambda>_. failD e)))
       (kernel_call k (HandleReleased t))"

lemma prepared_job_open: "prepared managed h t failed job new \<Longrightarrow> job = Some j \<Longrightarrow> \<not> wj_closed j"
  by (auto simp: prepared_def fresh_job_def split: if_splits)

lemma start_body_result:
  assumes "start_body k managed h t s = (r, s')"
  shows "\<exists>failed job new rest ok. pm_log s' = (HandleReleased t, ok) # rest @ new @ pm_log s \<and> pm_owned s' = pm_owned s \<and>
    prepared managed h t failed job new \<and> (\<forall>p. ThreadResumed p \<notin> fst ` set rest) \<and>
    (if failed = None then rest = [] \<and> (if ok then r = Inr job else \<exists>e. r = Inl e)
     else (\<exists>e. r = Inl e) \<and> handles_released rest = [h] \<and> jobs_created rest = [] \<and>
       jobs_released rest = (case job of None \<Rightarrow> [] | Some j \<Rightarrow> [wj_handle j]) \<and> (\<exists>done. (ProcessTerminated h, done) \<in> set rest))"
proof -
  obtain v s1 where v: "prepare_process k managed h t s = (v, s1)" by fastforce
  obtain failed job new where p: "v = Inr (failed, job)" "pm_log s1 = new @ pm_log s" "pm_owned s1 = pm_owned s"
    "prepared managed h t failed job new"
    using prepare_result [OF v] by blast
  show ?thesis
  proof (cases failed)
    case None
    obtain b s2 where b: "kernel_call k (HandleReleased t) s1 = (b, s2)" by fastforce
    have "s' = s2 \<and> r = (case b of Inl e \<Rightarrow> Inl e | Inr _ \<Rightarrow> Inr job)"
      using assms v p(1) b None by (auto simp: start_body_def finallyD_def bindD_def retD_def split: sum.splits)
    then show ?thesis
      using kernel_call_result [OF b] p None
      by (intro exI [of _ failed] exI [of _ job] exI [of _ new] exI [of _ "[]"] exI [of _ "isOk b"]) auto
  next
    case (Some e)
    obtain d s2 where d: "discard_process k job h s1 = (d, s2)" by fastforce
    obtain rest ok where rest: "pm_log s2 = rest @ pm_log s1" "pm_owned s2 = pm_owned s1" "handles_released rest = [h]"
      "jobs_created rest = []" "jobs_released rest = (case job of None \<Rightarrow> [] | Some j \<Rightarrow> [wj_handle j])"
      "(ProcessTerminated h, ok) \<in> set rest" "\<forall>p. ThreadResumed p \<notin> fst ` set rest"
      using discard_result [OF d prepared_job_open [OF p(4)]] by blast
    obtain b s3 where b: "kernel_call k (HandleReleased t) s2 = (b, s3)" by fastforce
    have "s' = s3" "\<exists>x. r = Inl x"
      using assms v p(1) d b Some by (auto simp: start_body_def finallyD_def bindD_def failD_def split: sum.splits)
    then show ?thesis
      using kernel_call_result [OF b] p rest Some
      by (intro exI [of _ failed] exI [of _ job] exI [of _ new] exI [of _ rest] exI [of _ "isOk b"]) auto
  qed
qed

lemma start_process_result:
  assumes "start_process k spec s = (r, s')"
  shows "(pm_log s' = pm_log s \<and> pm_owned s' = pm_owned s \<and> (\<exists>e. r = Inl e)) \<or>
    (\<exists>pid h t v s1 s2. start_body k (ps_managed spec) h t s1 = (v, s2) \<and> pm_log s1 = (ProcessCreated pid h t, True) # pm_log s \<and>
       pm_owned s1 = pm_owned s \<and> pm_log s' = pm_log s2 \<and>
       (case v of
          Inl e \<Rightarrow> r = Inl e \<and> pm_owned s' = pm_owned s2
        | Inr job \<Rightarrow> r = Inr \<lparr>sp_pid = pid, sp_handle = h, sp_managed = ps_managed spec\<rparr> \<and>
            pm_owned s' = AList.update pid \<lparr>op_handle = h, op_job = job, op_terminated = False\<rparr> (pm_owned s2)))"
proof -
  obtain found w1 where found: "pk_which k (hd (ps_argv spec)) (pm_world s) = (found, w1)" by fastforce
  show ?thesis
  proof (cases "pm_closed s \<or> ps_argv spec = [] \<or> found = None")
    case True
    then show ?thesis
      using assms found by (auto simp: start_process_def bindD_def pm_get_def pm_ask_def failD_def split: if_splits)
  next
    case False
    then obtain exe where exe: "found = Some exe" by auto
    obtain c w2 where c: "pk_create_process k exe (list2cmdline (ps_argv spec)) (ps_cwd spec) w1 = (c, w2)" by fastforce
    show ?thesis
    proof (cases c)
      case (Inl n)
      then show ?thesis
        using assms found exe c False by (auto simp: start_process_def bindD_def pm_get_def pm_ask_def failD_def)
    next
      case (Inr q)
      obtain h t pid where q: "q = (h, t, pid)" by (cases q) auto
      let ?s1 = "s\<lparr>pm_world := w2, pm_log := (ProcessCreated pid h t, True) # pm_log s\<rparr>"
      obtain v s2 where v: "start_body k (ps_managed spec) h t ?s1 = (v, s2)" by fastforce
      have "(r, s') = (case v of Inl e \<Rightarrow> (Inl e, s2) | Inr job \<Rightarrow> (Inr \<lparr>sp_pid = pid, sp_handle = h, sp_managed = ps_managed spec\<rparr>,
          s2\<lparr>pm_owned := AList.update pid \<lparr>op_handle = h, op_job = job, op_terminated = False\<rparr> (pm_owned s2)\<rparr>))"
        using assms found exe c Inr q False v
        by (auto simp: start_process_def start_body_def [symmetric] bindD_def pm_get_def pm_ask_def pm_record_def set_owned_def
            retD_def split: sum.splits)
      then show ?thesis
        using v by (intro disjI2 exI [of _ pid] exI [of _ h] exI [of _ t] exI [of _ v] exI [of _ ?s1] exI [of _ s2]) (auto split: sum.splits)
    qed
  qed
qed

text \<open>Every thread that was resumed had its process assigned to a job of the same log before.\<close>

fun resumed_in_job :: "(kernel_event \<times> bool) list \<Rightarrow> bool" where
  "resumed_in_job [] \<longleftrightarrow> True"
| "resumed_in_job ((ThreadResumed t, ok) # l) \<longleftrightarrow>
     (\<exists>pid h j. (ProcessCreated pid h t, True) \<in> set l \<and> (JobCreated j, True) \<in> set l \<and> (JobAssigned j h, True) \<in> set l) \<and> resumed_in_job l"
| "resumed_in_job (_ # l) \<longleftrightarrow> resumed_in_job l"

lemma resumed_in_job_append: "\<forall>p. ThreadResumed p \<notin> fst ` set l \<Longrightarrow> resumed_in_job (l @ m) = resumed_in_job m"
  by (induction l rule: resumed_in_job.induct) auto

lemma start_shape:
  assumes "start_process k spec s = (r, s')"
  obtains (unborn) e where "pm_log s' = pm_log s" "pm_owned s' = pm_owned s" "r = Inl e"
  | (started) pid h t job new where "pm_log s' = (HandleReleased t, True) # new @ (ProcessCreated pid h t, True) # pm_log s"
      "prepared (ps_managed spec) h t None job new" "r = Inr \<lparr>sp_pid = pid, sp_handle = h, sp_managed = ps_managed spec\<rparr>"
      "pm_owned s' = AList.update pid \<lparr>op_handle = h, op_job = job, op_terminated = False\<rparr> (pm_owned s)"
  | (leaked) pid h t job new e where "pm_log s' = (HandleReleased t, False) # new @ (ProcessCreated pid h t, True) # pm_log s"
      "prepared (ps_managed spec) h t None job new" "r = Inl e" "pm_owned s' = pm_owned s"
  | (discarded) pid h t f job new rest ok over e where
      "pm_log s' = (HandleReleased t, ok) # rest @ new @ (ProcessCreated pid h t, True) # pm_log s"
      "prepared (ps_managed spec) h t (Some f) job new" "\<forall>p. ThreadResumed p \<notin> fst ` set rest" "handles_released rest = [h]"
      "jobs_created rest = []" "jobs_released rest = (case job of None \<Rightarrow> [] | Some j \<Rightarrow> [wj_handle j])"
      "(ProcessTerminated h, over) \<in> set rest" "r = Inl e" "pm_owned s' = pm_owned s"
proof -
  consider "pm_log s' = pm_log s \<and> pm_owned s' = pm_owned s \<and> (\<exists>e. r = Inl e)"
    | (body) pid h t v s1 s2 where "start_body k (ps_managed spec) h t s1 = (v, s2)"
      "pm_log s1 = (ProcessCreated pid h t, True) # pm_log s" "pm_owned s1 = pm_owned s" "pm_log s' = pm_log s2"
      "case v of Inl e \<Rightarrow> r = Inl e \<and> pm_owned s' = pm_owned s2
        | Inr job \<Rightarrow> r = Inr \<lparr>sp_pid = pid, sp_handle = h, sp_managed = ps_managed spec\<rparr> \<and>
            pm_owned s' = AList.update pid \<lparr>op_handle = h, op_job = job, op_terminated = False\<rparr> (pm_owned s2)"
    using start_process_result [OF assms] by blast
  then show ?thesis
  proof cases
    case 1
    then show ?thesis using unborn by blast
  next
    case body
    obtain failed job new rest ok where b: "pm_log s2 = (HandleReleased t, ok) # rest @ new @ pm_log s1" "pm_owned s2 = pm_owned s1"
      "prepared (ps_managed spec) h t failed job new" "\<forall>p. ThreadResumed p \<notin> fst ` set rest"
      "if failed = None then rest = [] \<and> (if ok then v = Inr job else \<exists>e. v = Inl e)
       else (\<exists>e. v = Inl e) \<and> handles_released rest = [h] \<and> jobs_created rest = [] \<and>
         jobs_released rest = (case job of None \<Rightarrow> [] | Some j \<Rightarrow> [wj_handle j]) \<and> (\<exists>over. (ProcessTerminated h, over) \<in> set rest)"
      using start_body_result [OF body(1)] by blast
    show ?thesis
    proof (cases failed)
      case None
      show ?thesis
      proof (cases ok)
        case True
        then show ?thesis using b None body by (intro started [of t new pid h job]) simp_all
      next
        case False
        then obtain e where "v = Inl e" using b(5) None by auto
        then show ?thesis using b None body False by (intro leaked [of t new pid h job e]) simp_all
      qed
    next
      case (Some f)
      then obtain e over where "v = Inl e" "(ProcessTerminated h, over) \<in> set rest" using b(5) by auto
      then show ?thesis using b Some body by (intro discarded [of t ok rest new pid h f job over e]) simp_all
    qed
  qed
qed

lemma prepared_in_job:
  assumes "prepared True h t failed job new"
  shows "resumed_in_job (new @ [(ProcessCreated pid h t, True)])"
    "failed = None \<Longrightarrow> \<exists>j. job = Some j \<and> (JobAssigned (wj_handle j) h, True) \<in> set new"
  using assms by (auto simp: prepared_def fresh_job_def)

text \<open>
  C28: a managed process never runs outside its job. Whatever the kernel answers, the first thread of a managed process is resumed only after
  the process was assigned, successfully, to a job made for it; when the start succeeds, the manager keeps that job with the process.
\<close>

theorem managed_process_runs_in_job:
  assumes "start_process k spec s = (r, s')" "ps_managed spec"
  shows "\<exists>new. pm_log s' = new @ pm_log s \<and> resumed_in_job new \<and>
    (\<forall>p. r = Inr p \<longrightarrow> (\<exists>j. map_of (pm_owned s') (sp_pid p) = Some \<lparr>op_handle = sp_handle p, op_job = Some j, op_terminated = False\<rparr> \<and>
       (JobAssigned (wj_handle j) (sp_handle p), True) \<in> set new))"
  using assms(1)
proof (cases rule: start_shape)
  case (unborn e)
  then show ?thesis by auto
next
  case (started pid h t job new)
  have pr: "prepared True h t None job new" using started(2) assms(2) by simp
  obtain j where j: "job = Some j" "(JobAssigned (wj_handle j) h, True) \<in> set new"
    using prepared_in_job(2) [OF pr refl] by blast
  have "resumed_in_job (new @ [(ProcessCreated pid h t, True)])" by (rule prepared_in_job(1) [OF pr])
  then show ?thesis
    using started j by (intro exI [of _ "(HandleReleased t, True) # new @ [(ProcessCreated pid h t, True)]"]) (auto simp: update_conv)
next
  case (leaked pid h t job new e)
  have "resumed_in_job (new @ [(ProcessCreated pid h t, True)])" using prepared_in_job(1) leaked(2) assms(2) by auto
  then show ?thesis
    using leaked by (intro exI [of _ "(HandleReleased t, False) # new @ [(ProcessCreated pid h t, True)]"]) auto
next
  case (discarded pid h t f job new rest ok over e)
  have "resumed_in_job (new @ [(ProcessCreated pid h t, True)])" using prepared_in_job(1) discarded(2) assms(2) by auto
  then show ?thesis
    using discarded resumed_in_job_append [OF discarded(3)]
    by (intro exI [of _ "(HandleReleased t, ok) # rest @ new @ [(ProcessCreated pid h t, True)]"]) auto
qed


section \<open>Closing the manager\<close>

lemma get_owned_result: "get_owned pid s = (r, s') \<Longrightarrow> s' = s \<and> (case r of Inr p \<Rightarrow> map_of (pm_owned s) pid = Some p | Inl e \<Rightarrow> map_of (pm_owned s) pid = None)"
  by (auto simp: get_owned_def split: option.splits)

text \<open>The handles of the owned processes, which no operation changes.\<close>

definition owned_handles :: "'w process_manager \<Rightarrow> (int \<times> nat) list" where
  "owned_handles s = map (\<lambda>(pid, p). (pid, op_handle p)) (pm_owned s)"

lemma owned_handles_update:
  "map_of xs pid = Some p \<Longrightarrow> op_handle q = op_handle p \<Longrightarrow>
   map (\<lambda>(pid, p). (pid, op_handle p)) (AList.update pid q xs) = map (\<lambda>(pid, p). (pid, op_handle p)) xs"
  by (induction xs) auto

text \<open>What an operation leaves alone: the handles released so far, the handles owned, and the flag.\<close>

definition same_handles :: "'w process_manager \<Rightarrow> 'w process_manager \<Rightarrow> int \<Rightarrow> bool" where
  "same_handles s s' pid \<longleftrightarrow>
     handles_released (pm_log s') = handles_released (pm_log s) \<and> owned_handles s' = owned_handles s \<and> pm_closed s' = pm_closed s \<and>
     (\<forall>q. q \<noteq> pid \<longrightarrow> map_of (pm_owned s') q = map_of (pm_owned s) q)"

lemma same_handles_trans: "same_handles s t pid \<Longrightarrow> same_handles t u pid \<Longrightarrow> same_handles s u pid"
  by (simp add: same_handles_def)

lemma same_handles_call:
  assumes "kernel_call k e s = (r, s')" "\<forall>h. e \<noteq> HandleReleased h"
  shows "same_handles s s' pid \<and> pm_owned s' = pm_owned s"
proof -
  have "handles_released ((e, ok) # l) = handles_released l" for ok l using assms(2) by (cases e) simp_all
  then show ?thesis using kernel_call_result [OF assms(1)] by (auto simp: same_handles_def owned_handles_def)
qed

lemma same_handles_set:
  assumes "map_of (pm_owned s) pid = Some p" "op_handle q = op_handle p" "set_owned pid q s = (r, s')"
  shows "same_handles s s' pid \<and> map_of (pm_owned s') pid = Some q"
  using assms owned_handles_update [OF assms(1,2)]
  by (auto simp: same_handles_def set_owned_def owned_handles_def update_conv)

lemma same_handles_wait:
  assumes "wait_process k pid timeout s = (r, s')"
  shows "same_handles s s' x \<and> pm_owned s' = pm_owned s"
  using assms
  by (auto simp: wait_process_def bindD_def get_owned_def pm_record_def pm_ask_def retD_def failD_def same_handles_def owned_handles_def
      split: option.splits prod.splits if_splits)

lemma same_handles_kill:
  assumes "kill_owned k pid p s = (Inr u, s')" "map_of (pm_owned s) pid = Some p"
  shows "same_handles s s' pid \<and> (\<exists>q. map_of (pm_owned s') pid = Some q \<and> op_handle q = op_handle p)"
proof (cases "op_job p")
  case None
  then show ?thesis using assms same_handles_call [of k "ProcessTerminated (op_handle p)" s] by (auto simp: kill_owned_def)
next
  case (Some j)
  then obtain x j' s1 where c: "job_cancel k j s = (Inr (x, j'), s1)" and t: "set_owned pid (p\<lparr>op_job := Some j'\<rparr>) s1 = (Inr u, s')"
    using assms(1) by (auto simp: kill_owned_def bindD_Inr)
  have one: "same_handles s s1 pid \<and> pm_owned s1 = pm_owned s"
  proof (cases "wj_closed j \<or> wj_cancelled j")
    case True
    then show ?thesis using c by (auto simp: job_cancel_def retD_def same_handles_def)
  next
    case False
    then obtain y where "kernel_call k (JobTerminated (wj_handle j)) s = (Inr y, s1)"
      using c by (auto simp: job_cancel_def bindD_Inr retD_def)
    then show ?thesis by (rule same_handles_call) simp
  qed
  have "map_of (pm_owned s1) pid = Some p" using one assms(2) by simp
  from same_handles_set [OF this _ t] one same_handles_trans show ?thesis by auto
qed

lemma close_job_of_result:
  assumes "(case op_job q of None \<Rightarrow> retD ()
      | Some j \<Rightarrow> bindD (job_close k j) (\<lambda>j'. set_owned pid (q\<lparr>op_job := Some j'\<rparr>))) s = (Inr u, s')" "map_of (pm_owned s) pid = Some q"
  shows "same_handles s s' pid \<and>
    (\<exists>p. map_of (pm_owned s') pid = Some p \<and> op_handle p = op_handle q \<and> (\<forall>j. op_job p = Some j \<longrightarrow> wj_closed j))"
proof (cases "op_job q")
  case None
  then show ?thesis using assms by (auto simp: retD_def same_handles_def)
next
  case (Some j)
  then obtain j' s1 where c: "job_close k j s = (Inr j', s1)" and t: "set_owned pid (q\<lparr>op_job := Some j'\<rparr>) s1 = (Inr u, s')"
    using assms(1) by (auto simp: bindD_Inr)
  have one: "same_handles s s1 pid \<and> pm_owned s1 = pm_owned s \<and> wj_closed j'"
  proof (cases "wj_closed j")
    case True
    then show ?thesis using c by (auto simp: job_close_def retD_def same_handles_def)
  next
    case False
    then show ?thesis using job_close_result [OF c] by (auto simp: same_handles_def owned_handles_def)
  qed
  have "map_of (pm_owned s1) pid = Some q" using one assms(2) by simp
  from same_handles_set [OF this _ t] one same_handles_trans show ?thesis by auto
qed

lemma close_owned_result:
  assumes "close_owned k pid s = (Inr u, s')"
  shows "\<exists>h. map_of (owned_handles s) pid = Some h \<and> handles_released (pm_log s') = h # handles_released (pm_log s) \<and>
    owned_handles s' = owned_handles s \<and> pm_closed s' = pm_closed s \<and>
    (\<forall>p j. map_of (pm_owned s') pid = Some p \<longrightarrow> op_job p = Some j \<longrightarrow> wj_closed j) \<and>
    (\<forall>q. q \<noteq> pid \<longrightarrow> map_of (pm_owned s') q = map_of (pm_owned s) q)"
proof -
  obtain p where p: "map_of (pm_owned s) pid = Some p"
    using assms by (cases "map_of (pm_owned s) pid") (auto simp: close_owned_def bindD_def get_owned_def)
  obtain ended s1 where s1: "(if op_terminated p then retD True else wait_process k pid 0) s = (Inr ended, s1)"
    and rest: "bindD (if ended then retD () else kill_owned k pid p) (\<lambda>_. bindD (get_owned pid) (\<lambda>q.
        bindD (case op_job q of None \<Rightarrow> retD ()
          | Some j \<Rightarrow> bindD (job_close k j) (\<lambda>j'. set_owned pid (q\<lparr>op_job := Some j'\<rparr>))) (\<lambda>_.
          kernel_call k (HandleReleased (op_handle p))))) s1 = (Inr u, s')"
    using assms p unfolding close_owned_def bindD_Inr [of "get_owned pid"]
    by (auto simp: get_owned_def bindD_Inr [of "if op_terminated p then retD True else wait_process k pid 0"])
  have one: "same_handles s s1 pid \<and> map_of (pm_owned s1) pid = Some p"
    using s1 p same_handles_wait [of k pid 0 s "Inr ended" s1 pid] by (auto simp: retD_def same_handles_def split: if_splits)
  obtain s2 where s2: "(if ended then retD () else kill_owned k pid p) s1 = (Inr (), s2)"
    and rest2: "bindD (get_owned pid) (\<lambda>q.
        bindD (case op_job q of None \<Rightarrow> retD ()
          | Some j \<Rightarrow> bindD (job_close k j) (\<lambda>j'. set_owned pid (q\<lparr>op_job := Some j'\<rparr>))) (\<lambda>_.
          kernel_call k (HandleReleased (op_handle p)))) s2 = (Inr u, s')"
    using rest by (auto simp: bindD_Inr [of "if ended then retD () else kill_owned k pid p"])
  obtain q where two: "same_handles s1 s2 pid" "map_of (pm_owned s2) pid = Some q" "op_handle q = op_handle p"
    using s2 one same_handles_kill [of k pid p s1 "()" s2] by (cases ended) (auto simp: retD_def same_handles_def)
  obtain s3 where s3: "(case op_job q of None \<Rightarrow> retD ()
          | Some j \<Rightarrow> bindD (job_close k j) (\<lambda>j'. set_owned pid (q\<lparr>op_job := Some j'\<rparr>))) s2 = (Inr (), s3)"
    and s4: "kernel_call k (HandleReleased (op_handle p)) s3 = (Inr u, s')"
    using rest2 two(2) unfolding bindD_Inr [of "get_owned pid"]
    by (auto simp: get_owned_def bindD_Inr [of "case op_job q of None \<Rightarrow> retD () | Some j \<Rightarrow> _ j"])
  note three = close_job_of_result [OF s3 two(2)]
  have four: "pm_log s' = (HandleReleased (op_handle p), True) # pm_log s3" "pm_owned s' = pm_owned s3" "pm_closed s' = pm_closed s3"
    using kernel_call_result [OF s4] by auto
  have all: "same_handles s s3 pid" using one two(1) three same_handles_trans by blast
  have "map_of (owned_handles s) pid = Some (op_handle p)"
    using p by (auto simp: owned_handles_def map_of_map comp_def)
  then show ?thesis using all four three by (auto simp: same_handles_def owned_handles_def)
qed

lemma close_all_result:
  assumes "close_all_owned k pids s = (Inr u, s')" "distinct pids"
  shows "handles_released (pm_log s') = rev (map (the \<circ> map_of (owned_handles s)) pids) @ handles_released (pm_log s) \<and>
    owned_handles s' = owned_handles s \<and> pm_closed s' = pm_closed s \<and>
    (\<forall>pid \<in> set pids. \<forall>p j. map_of (pm_owned s') pid = Some p \<longrightarrow> op_job p = Some j \<longrightarrow> wj_closed j) \<and>
    (\<forall>q. q \<notin> set pids \<longrightarrow> map_of (pm_owned s') q = map_of (pm_owned s) q)"
  using assms
proof (induction pids arbitrary: s)
  case Nil
  then show ?case by (simp add: retD_def)
next
  case (Cons pid pids)
  then obtain v s1 where s1: "close_owned k pid s = (Inr v, s1)" "close_all_owned k pids s1 = (Inr u, s')"
    by (auto simp: bindD_Inr)
  obtain h where c: "map_of (owned_handles s) pid = Some h" "handles_released (pm_log s1) = h # handles_released (pm_log s)"
    "owned_handles s1 = owned_handles s" "pm_closed s1 = pm_closed s"
    "\<forall>p j. map_of (pm_owned s1) pid = Some p \<longrightarrow> op_job p = Some j \<longrightarrow> wj_closed j"
    "\<forall>q. q \<noteq> pid \<longrightarrow> map_of (pm_owned s1) q = map_of (pm_owned s) q"
    using close_owned_result [OF s1(1)] by blast
  have d: "distinct pids" "pid \<notin> set pids" using Cons.prems(2) by simp_all
  show ?case using Cons.IH [OF s1(2) d(1)] c d(2) by auto
qed

text \<open>
  A manager that closes has returned everything. Each handle of an owned process is released exactly once by the call, every job
  is closed, the manager starts nothing any more, and a second call does nothing.
\<close>

theorem closing_returns_every_handle:
  assumes "close_manager k s = (Inr u, s')" "\<not> pm_closed s" "distinct (map fst (pm_owned s))"
  shows "handles_released (pm_log s') = rev (map (op_handle \<circ> snd) (pm_owned s)) @ handles_released (pm_log s) \<and>
    (\<forall>pid p j. map_of (pm_owned s') pid = Some p \<longrightarrow> op_job p = Some j \<longrightarrow> wj_closed j) \<and>
    close_manager k s' = (Inr (), s') \<and> start_process k spec s' = (Inl ManagerClosedError, s')"
proof -
  obtain s1 where s1: "close_all_owned k (map fst (pm_owned s)) s = (Inr (), s1)" and s': "s' = s1\<lparr>pm_closed := True\<rparr>"
    using assms(1,2) by (auto simp: close_manager_def bindD_def pm_get_def split: prod.splits sum.splits)
  note c = close_all_result [OF s1 assms(3)]
  have "map (the \<circ> map_of (map (\<lambda>(pid, p). (pid, op_handle p)) xs)) (map fst xs) = map (op_handle \<circ> snd) xs"
    if "distinct (map fst xs)" for xs :: "(int \<times> owned_process) list"
    using that by (auto simp: map_of_map comp_def)
  then have "map (the \<circ> map_of (owned_handles s)) (map fst (pm_owned s)) = map (op_handle \<circ> snd) (pm_owned s)"
    using assms(3) unfolding owned_handles_def .
  moreover have "wj_closed j" if "map_of (pm_owned s1) pid = Some p" "op_job p = Some j" for pid p j
  proof -
    have "pid \<in> set (map fst (pm_owned s))" using c that(1) by (metis map_of_eq_None_iff option.distinct(1) set_map)
    then show ?thesis using c that by blast
  qed
  moreover have "close_manager k s' = (Inr (), s')" by (simp add: s' close_manager_def bindD_def pm_get_def retD_def)
  moreover have "start_process k spec s' = (Inl ManagerClosedError, s')"
    by (simp add: s' start_process_def bindD_def pm_get_def failD_def)
  ultimately show ?thesis using c s' by auto
qed

section \<open>A concrete kernel\<close>

text \<open>Its world is the list of released handles; waiting for a released handle fails, and process 30 cannot be terminated.\<close>

definition sample_kernel :: "nat list process_kernel" where
  "sample_kernel =
     \<lparr>pk_which = (\<lambda>a w. (Some a, w)), pk_create_process = (\<lambda>_ _ _ w. (Inr (10, 11, 7), w)), pk_create_job = (\<lambda>w. (Inr 20, w)),
      pk_limit_job = (\<lambda>_ w. (None, w)),
      pk_call = (\<lambda>e w. case e of
          HandleReleased h \<Rightarrow> (None, h # w)
        | ProcessTerminated h \<Rightarrow> (if h = 30 then Some 5 else None, w)
        | _ \<Rightarrow> (None, w)),
      pk_wait = (\<lambda>h _ w. (if h \<in> set w then - 1 else 258, w))\<rparr>"

definition new_manager :: "nat list process_manager" where
  "new_manager = \<lparr>pm_world = [], pm_owned = [], pm_closed = False, pm_log = []\<rparr>"

definition sample_spec :: process_spec where
  "sample_spec = \<lparr>ps_argv = [ustr ''x''], ps_cwd = None, ps_managed = True\<rparr>"

lemmas process_run_simps =
  start_process_def prepare_process_def run_prepared_def create_job_def assign_process_def kernel_call_def bindD_def catchD_def
  finallyD_def retD_def failD_def pm_get_def pm_ask_def pm_record_def set_owned_def get_owned_def close_manager_def close_owned_def
  wait_process_def kill_owned_def job_cancel_def job_close_def terminate_process_def mark_terminated_def discard_process_def

definition started_manager :: "nat list process_manager" where
  "started_manager =
     \<lparr>pm_world = [11], pm_owned = [(7, \<lparr>op_handle = 10, op_job = Some (fresh_job 20), op_terminated = False\<rparr>)], pm_closed = False,
      pm_log = [(HandleReleased 11, True), (ThreadResumed 11, True), (JobAssigned 20 10, True), (JobCreated 20, True),
                (ProcessCreated 7 10 11, True)]\<rparr>"

lemma sample_process_start:
  "start_process sample_kernel sample_spec new_manager =
     (Inr \<lparr>sp_pid = 7, sp_handle = 10, sp_managed = True\<rparr>, started_manager)"
  by (simp add: process_run_simps sample_kernel_def sample_spec_def new_manager_def started_manager_def fresh_job_def Let_def)

lemma only_started_processes_are_controlled_witness: "own_log (pm_log started_manager)"
proof -
  have "manager_run sample_kernel (snd (start_process sample_kernel sample_spec new_manager))"
    unfolding new_manager_def by (intro manager_run.intros)
  then have "manager_run sample_kernel started_manager" unfolding sample_process_start by simp
  then show ?thesis by (rule only_started_processes_are_controlled)
qed

lemma managed_process_runs_in_job_witness: "resumed_in_job (pm_log started_manager)"
  using managed_process_runs_in_job [OF sample_process_start] by (simp add: sample_spec_def new_manager_def)


lemma closing_returns_every_handle_witness:
  "\<exists>s'. close_manager sample_kernel started_manager = (Inr (), s') \<and> handles_released (pm_log s') = [10, 11]"
proof -
  obtain s' where c: "close_manager sample_kernel started_manager = (Inr (), s')"
    by (simp add: process_run_simps sample_kernel_def started_manager_def fresh_job_def)
  have "handles_released (pm_log s') = rev (map (op_handle \<circ> snd) (pm_owned started_manager)) @ handles_released (pm_log started_manager)"
    using closing_returns_every_handle [OF c] by (simp add: started_manager_def)
  then show ?thesis using c by (simp add: started_manager_def)
qed

subsection \<open>What is not returned\<close>

definition loose :: "nat \<Rightarrow> owned_process" where
  "loose h = \<lparr>op_handle = h, op_job = None, op_terminated = False\<rparr>"

definition three_processes :: "nat list process_manager" where
  "three_processes = new_manager\<lparr>pm_owned := [(1, loose 10), (2, loose 30), (3, loose 40)]\<rparr>"

text \<open>
  The second of three processes cannot be terminated, so the first call stops after the first handle; the second call waits for that
  released handle, fails at once, and never reaches the others.
\<close>

lemma interrupted_close_never_finishes:
  "let (r, s) = close_manager sample_kernel three_processes; (r', s') = close_manager sample_kernel s
   in r = Inl (ProcessOsError 5) \<and> r' = Inl (ProcessOsError (- 1)) \<and> handles_released (pm_log s') = [10] \<and> \<not> pm_closed s'"
  by (simp add: process_run_simps sample_kernel_def three_processes_def new_manager_def loose_def)

text \<open>After a successful close the processes are still owned: a late \<open>terminate\<close> waits for a released handle.\<close>

lemma closed_manager_uses_released_handle:
  "let (r, s) = close_manager sample_kernel started_manager; (r', s') = terminate_process sample_kernel 7 s
   in r = Inr () \<and> (\<exists>l. pm_log s' = (ProcessWaited 10, True) # (HandleReleased 10, True) # l) \<and> r' = Inl (ProcessOsError (- 1))"
  by (simp add: process_run_simps sample_kernel_def started_manager_def fresh_job_def)

text \<open>The thread's handle cannot be released: the start fails, and the running process is neither owned nor terminated.\<close>

lemma unreleased_thread_leaks_process:
  "let k = sample_kernel\<lparr>pk_call := (\<lambda>e w. (if e = HandleReleased 11 then Some 6 else None, w))\<rparr>;
       (r, s) = start_process k sample_spec new_manager
   in r = Inl (ProcessOsError 6) \<and> pm_owned s = [] \<and> (ThreadResumed 11, True) \<in> set (pm_log s) \<and>
      ProcessTerminated 10 \<notin> fst ` set (pm_log s)"
  by (simp add: process_run_simps sample_kernel_def sample_spec_def new_manager_def Let_def)

end
