(* ===== verification/Browser_Worker.thy ===== *)
theory Browser_Worker
  imports Browser_Safety Effects "HOL-Library.Multiset"
begin

text \<open>
  The browser worker (\<open>worker/browser.py\<close>): the life of the profile guard, the driver, the context and its page, and what of a page is
  returned. The browser driver is an argument whose calls may fail or be cancelled. A log, newest first, records the handles of the guard, the
  driver and the secrets collected. The lemmas show that the directory handles are held exactly by the current guard, that closing
  returns them whatever fails, and that the returned content is bounded and free of the secrets collected for it.
\<close>

section \<open>State\<close>

datatype browser_failure =
    BrowserRaised browser_error
  | DriverError
  | BrowserOsError int
  | TaskCancelled
  | BrowserValueError

datatype browser_event =
    GuardEvent profile_event
  | DriverStarted
  | DriverStopped
  | ContextLaunched
  | ContextClosed
  | SecretsCollected "pystr list"

text \<open>
  The calls of the driver and of the page, in the world they change; the calls of the guard at the time it is made; the tables of the
  library.
\<close>

record 'w browser_host =
  bh_profile :: profile_host
  bh_guard :: "'w \<Rightarrow> guard_host \<times> 'w"
  bh_start_driver :: "'w \<Rightarrow> browser_failure option \<times> 'w"
  bh_launch :: "'w \<Rightarrow> browser_failure option \<times> 'w"
  bh_stop_driver :: "'w \<Rightarrow> browser_failure option \<times> 'w"
  bh_close_context :: "'w \<Rightarrow> browser_failure option \<times> 'w"
  bh_first_page :: "'w \<Rightarrow> nat option \<times> 'w"
  bh_new_page :: "'w \<Rightarrow> (browser_failure + nat) \<times> 'w"
  bh_is_closed :: "nat \<Rightarrow> 'w \<Rightarrow> bool \<times> 'w"
  bh_goto :: "nat \<Rightarrow> pystr \<Rightarrow> 'w \<Rightarrow> browser_failure option \<times> 'w"
  bh_act :: "nat \<Rightarrow> pystr \<Rightarrow> pystr option \<Rightarrow> 'w \<Rightarrow> browser_failure option \<times> 'w"
  bh_content :: "nat \<Rightarrow> pystr \<Rightarrow> bool \<Rightarrow> 'w \<Rightarrow> (browser_failure + pystr) \<times> 'w"
  bh_title :: "nat \<Rightarrow> 'w \<Rightarrow> (browser_failure + pystr) \<times> 'w"
  bh_url :: "nat \<Rightarrow> 'w \<Rightarrow> pystr \<times> 'w"
  bh_cookies :: "nat \<Rightarrow> 'w \<Rightarrow> (browser_failure + pystr option list) \<times> 'w"
  bh_passwords :: "nat \<Rightarrow> 'w \<Rightarrow> (browser_failure + pystr list) \<times> 'w"
  bh_storage :: "nat \<Rightarrow> 'w \<Rightarrow> (browser_failure + pystr list) \<times> 'w"
  bh_urls :: url_host
  bh_text :: text_host

record browser_params =
  bt_local :: "pystr option"
  bt_profile_dir :: win_path
  bt_max_output :: nat
  bt_action_ms :: int
  bt_navigation_ms :: int

record 'w browser =
  bw_world :: 'w
  bw_guard :: "profile_guard option"
  bw_driver :: bool
  bw_context :: bool
  bw_page :: "nat option"
  bw_log :: "browser_event list"

record browser_status =
  br_running :: bool
  br_url :: "pystr option"
  br_profile_dir :: win_path

record browser_content =
  bc_url :: pystr
  bc_content :: pystr
  bc_truncated :: bool
  bc_untrusted :: bool

record browser_evaluation =
  be_url :: pystr
  be_value :: json
  be_untrusted :: bool

type_synonym ('w, 'a) browser_op = "('w browser, browser_failure, 'a) effect"

definition bw_ask :: "('w \<Rightarrow> 'a \<times> 'w) \<Rightarrow> ('w, 'a) browser_op" where
  "bw_ask q s = (let (x, w) = q (bw_world s) in (Inr x, s\<lparr>bw_world := w\<rparr>))"

definition bw_get :: "('w browser \<Rightarrow> 'a) \<Rightarrow> ('w, 'a) browser_op" where
  "bw_get f s = (Inr (f s), s)"

definition bw_note :: "browser_event \<Rightarrow> ('w, unit) browser_op" where
  "bw_note e s = (Inr (), s\<lparr>bw_log := e # bw_log s\<rparr>)"

definition bw_set_page :: "nat option \<Rightarrow> ('w, unit) browser_op" where
  "bw_set_page p s = (Inr (), s\<lparr>bw_page := p\<rparr>)"

definition bw_set_driver :: "bool \<Rightarrow> bool \<Rightarrow> ('w, unit) browser_op" where
  "bw_set_driver d c s = (Inr (), s\<lparr>bw_driver := d, bw_context := c\<rparr>)"

text \<open>A call that returns nothing or fails, and one that returns a value or fails.\<close>

definition bw_try :: "('w \<Rightarrow> browser_failure option \<times> 'w) \<Rightarrow> ('w, unit) browser_op" where
  "bw_try q = bindD (bw_ask q) (\<lambda>r. case r of None \<Rightarrow> retD () | Some e \<Rightarrow> failD e)"

definition bw_read :: "('w \<Rightarrow> (browser_failure + 'a) \<times> 'w) \<Rightarrow> ('w, 'a) browser_op" where
  "bw_read q = bindD (bw_ask q) (\<lambda>r. case r of Inl e \<Rightarrow> failD e | Inr x \<Rightarrow> retD x)"

section \<open>The profile guard\<close>

fun profile_failure_of :: "profile_failure \<Rightarrow> browser_failure" where
  "profile_failure_of (ProfileRefused e) = BrowserRaised e"
| "profile_failure_of (ProfileOsError n) = BrowserOsError n"

definition acquire_guard :: "'w browser_host \<Rightarrow> browser_params \<Rightarrow> ('w, unit) browser_op" where
  "acquire_guard h t =
     bindD (bw_ask (bh_guard h)) (\<lambda>gh s.
       let (r, events) = make_profile_guard (bh_profile h) gh (bt_local t) (bt_profile_dir t);
           s1 = s\<lparr>bw_log := map GuardEvent (rev events) @ bw_log s\<rparr>
       in case r of Inl e \<Rightarrow> (Inl (profile_failure_of e), s1) | Inr g \<Rightarrow> (Inr (), s1\<lparr>bw_guard := Some g\<rparr>))"

definition release_profile_guard :: "('w, unit) browser_op" where
  "release_profile_guard s =
     (case bw_guard s of
        None \<Rightarrow> (Inr (), s)
      | Some g \<Rightarrow> (Inr (), s\<lparr>bw_guard := None, bw_log := map GuardEvent (rev (snd (close_profile_guard g))) @ bw_log s\<rparr>))"

text \<open>\<open>__init__\<close>; the failing guard ends the worker's thread.\<close>

definition start_browser_worker :: "'w browser_host \<Rightarrow> browser_params \<Rightarrow> 'w \<Rightarrow> (browser_failure + unit) \<times> 'w browser" where
  "start_browser_worker h t w =
     (let s = \<lparr>bw_world = w, bw_guard = None, bw_driver = False, bw_context = False, bw_page = None, bw_log = []\<rparr> in
      case validated_profile_dir (bh_profile h) (bt_local t) (bt_profile_dir t) of
        Inl e \<Rightarrow> (Inl (BrowserRaised e), s)
      | Inr _ \<Rightarrow>
          if bt_action_ms t \<le> 0 \<or> bt_navigation_ms t \<le> 0 then (Inl (BrowserRaised InvalidTimeout), s) else acquire_guard h t s)"

section \<open>Operations\<close>

definition shown_url :: "'w browser_host \<Rightarrow> nat \<Rightarrow> ('w, pystr) browser_op" where
  "shown_url h p =
     bindD (bw_ask (bh_url h p)) (\<lambda>u. case safe_browser_url (bh_urls h) u of None \<Rightarrow> failD BrowserValueError | Some x \<Rightarrow> retD x)"

definition read_status :: "'w browser_host \<Rightarrow> browser_params \<Rightarrow> ('w, browser_status) browser_op" where
  "read_status h t =
     bindD (bw_get bw_page) (\<lambda>page.
     bindD (case page of None \<Rightarrow> retD None
            | Some p \<Rightarrow> bindD (bw_ask (bh_is_closed h p)) (\<lambda>c. if c then retD None else bindD (shown_url h p) (\<lambda>u. retD (Some u)))) (\<lambda>url.
     bindD (bw_get bw_context) (\<lambda>c. retD \<lparr>br_running = c, br_url = url, br_profile_dir = bt_profile_dir t\<rparr>)))"

definition ensure_page :: "'w browser_host \<Rightarrow> ('w, nat) browser_op" where
  "ensure_page h =
     bindD (bw_get bw_context) (\<lambda>c. if \<not> c then failD (BrowserRaised BrowserNotOpen) else
     bindD (bw_get bw_page) (\<lambda>page.
     bindD (case page of None \<Rightarrow> retD True | Some p \<Rightarrow> bw_ask (bh_is_closed h p)) (\<lambda>fresh.
       if fresh then bindD (bw_read (bh_new_page h)) (\<lambda>p. bindD (bw_set_page (Some p)) (\<lambda>_. retD p))
       else retD (the page))))"

fun is_driver_error :: "browser_failure \<Rightarrow> bool" where
  "is_driver_error DriverError = True"
| "is_driver_error (BrowserOsError _) = True"
| "is_driver_error _ = False"

text \<open>
  The \<open>try\<close> around the start of the driver and the launch: only errors of the driver and of the system are caught, and then the driver,
  if it had started, is stopped and the guard released.
\<close>

definition launch_browser :: "'w browser_host \<Rightarrow> ('w, unit) browser_op" where
  "launch_browser h =
     (let give_up = (\<lambda>started e.
        bindD (finallyD (if started then bindD (bw_try (bh_stop_driver h)) (\<lambda>_. bw_note DriverStopped) else retD ()) release_profile_guard)
          (\<lambda>_. failD e))
      in bindD (catchD is_driver_error (bw_try (bh_start_driver h)) (give_up False)) (\<lambda>_.
         bindD (bw_note DriverStarted) (\<lambda>_.
           catchD is_driver_error (bw_try (bh_launch h)) (give_up True))))"

definition open_browser :: "'w browser_host \<Rightarrow> browser_params \<Rightarrow> pystr \<Rightarrow> ('w, browser_status) browser_op" where
  "open_browser h t url =
     bindD (bw_get bw_context) (\<lambda>c.
     bindD (if c then retD ()
            else bindD (bw_get bw_guard) (\<lambda>g. bindD (if g = None then acquire_guard h t else retD ()) (\<lambda>_.
                 bindD (launch_browser h) (\<lambda>_. bindD (bw_note ContextLaunched) (\<lambda>_. bindD (bw_set_driver True True) (\<lambda>_.
                 bindD (bw_ask (bh_first_page h)) (\<lambda>first. case first of
                   Some p \<Rightarrow> bw_set_page (Some p)
                 | None \<Rightarrow> bindD (bw_read (bh_new_page h)) (\<lambda>p. bw_set_page (Some p))))))))) (\<lambda>_.
     bindD (ensure_page h) (\<lambda>p.
     bindD (bw_try (bh_goto h p url)) (\<lambda>_.
     bindD (shown_url h p) (\<lambda>u. retD \<lparr>br_running = True, br_url = Some u, br_profile_dir = bt_profile_dir t\<rparr>)))))"

definition act_on_page :: "'w browser_host \<Rightarrow> browser_params \<Rightarrow> pystr \<Rightarrow> pystr option \<Rightarrow> ('w, browser_status) browser_op" where
  "act_on_page h t selector typed =
     bindD (ensure_page h) (\<lambda>p. bindD (bw_try (bh_act h p selector typed)) (\<lambda>_.
     bindD (shown_url h p) (\<lambda>u. retD \<lparr>br_running = True, br_url = Some u, br_profile_dir = bt_profile_dir t\<rparr>)))"

text \<open>The collected secrets: the values of cookies, passwords and stores that are not empty, as a set in the order they were read.\<close>

definition secret_values :: "'w browser_host \<Rightarrow> nat \<Rightarrow> ('w, pystr list) browser_op" where
  "secret_values h p =
     bindD (bw_read (bh_cookies h p)) (\<lambda>cookies. bindD (bw_read (bh_passwords h p)) (\<lambda>passwords.
     bindD (bw_read (bh_storage h p)) (\<lambda>stored.
       (let secrets = remdups (filter (\<lambda>v. v \<noteq> []) (List.map_filter id cookies @ passwords @ stored))
        in bindD (bw_note (SecretsCollected secrets)) (\<lambda>_. retD secrets)))))"

definition extract_content :: "'w browser_host \<Rightarrow> browser_params \<Rightarrow> pystr \<Rightarrow> bool \<Rightarrow> ('w, browser_content) browser_op" where
  "extract_content h t selector semantic =
     bindD (ensure_page h) (\<lambda>p. bindD (bw_read (bh_content h p selector semantic)) (\<lambda>content.
     bindD (secret_values h p) (\<lambda>secrets.
       (case bounded_utf8 (redact_browser_text content secrets) (bt_max_output t) of
          None \<Rightarrow> failD BrowserValueError
        | Some (bounded, truncated) \<Rightarrow>
            bindD (shown_url h p) (\<lambda>u. retD \<lparr>bc_url = u, bc_content = bounded, bc_truncated = truncated, bc_untrusted = True\<rparr>)))))"

definition evaluate_query :: "'w browser_host \<Rightarrow> browser_params \<Rightarrow> pystr \<Rightarrow> ('w, browser_evaluation) browser_op" where
  "evaluate_query h t expression =
     bindD (ensure_page h) (\<lambda>p.
     (case parse_browser_read_query expression of
        Inl e \<Rightarrow> failD (BrowserRaised e)
      | Inr query \<Rightarrow>
          bindD (case query of
              QueryTitle \<Rightarrow> bw_read (bh_title h p)
            | QueryUrl \<Rightarrow> shown_url h p
            | QueryLocation \<Rightarrow> shown_url h p
            | QueryBodyText \<Rightarrow> bw_read (bh_content h p (ustr ''body'') False)) (\<lambda>value.
          (case utf8_encode value of
             None \<Rightarrow> failD BrowserValueError
           | Some encoded \<Rightarrow>
               if bt_max_output t < length encoded then failD (BrowserRaised OutputLimit)
               else bindD (secret_values h p) (\<lambda>secrets. bindD (shown_url h p) (\<lambda>u.
                 retD \<lparr>be_url = u, be_value = redact_browser_json (bh_text h) (JStr value) secrets, be_untrusted = True\<rparr>))))))"

definition close_browser :: "'w browser_host \<Rightarrow> browser_params \<Rightarrow> ('w, browser_status) browser_op" where
  "close_browser h t =
     bindD (bw_get bw_context) (\<lambda>context. bindD (bw_get bw_driver) (\<lambda>driver.
     bindD (bw_set_page None) (\<lambda>_. bindD (bw_set_driver False False) (\<lambda>_.
     bindD
       (finallyD
         (if context then bindD (bw_try (bh_close_context h)) (\<lambda>_. bw_note ContextClosed) else retD ())
         (finallyD
           (if driver then bindD (bw_try (bh_stop_driver h)) (\<lambda>_. bw_note DriverStopped) else retD ())
           release_profile_guard))
       (\<lambda>_. retD \<lparr>br_running = False, br_url = None, br_profile_dir = bt_profile_dir t\<rparr>)))))"

text \<open>\<open>_run\<close>: a cancelled task is answered as such.\<close>

definition run_browser :: "('w, 'a) browser_op \<Rightarrow> ('w, 'a) browser_op" where
  "run_browser m = catchD (\<lambda>e. e = TaskCancelled) m (\<lambda>_. failD (BrowserRaised OperationCancelled))"

text \<open>\<open>cancel\<close>: the operation in progress, and whether its task can be cancelled.\<close>

definition cancel_browser :: "(nat \<times> bool) option \<Rightarrow> nat \<Rightarrow> bool" where
  "cancel_browser active operation = (case active of None \<Rightarrow> False | Some (running, cancellable) \<Rightarrow> running = operation \<and> cancellable)"

text \<open>The public operations as calls; what a call answers besides its state is the subject of the operation's own lemmas.\<close>

datatype browser_call =
    CallStatus
  | CallOpen pystr
  | CallSnapshot
  | CallClick pystr
  | CallType pystr pystr
  | CallExtract pystr
  | CallEvaluate pystr
  | CallClose

definition forget :: "('w, 'a) browser_op \<Rightarrow> ('w, unit) browser_op" where
  "forget m = bindD m (\<lambda>_. retD ())"

fun call_browser :: "'w browser_host \<Rightarrow> browser_params \<Rightarrow> browser_call \<Rightarrow> ('w, unit) browser_op" where
  "call_browser h t CallStatus = forget (run_browser (read_status h t))"
| "call_browser h t (CallOpen url) = forget (run_browser (open_browser h t url))"
| "call_browser h t CallSnapshot = forget (run_browser (extract_content h t (ustr ''body'') True))"
| "call_browser h t (CallClick selector) = forget (run_browser (act_on_page h t selector None))"
| "call_browser h t (CallType selector typed) = forget (run_browser (act_on_page h t selector (Some typed)))"
| "call_browser h t (CallExtract selector) = forget (run_browser (extract_content h t selector False))"
| "call_browser h t (CallEvaluate expression) = forget (run_browser (evaluate_query h t expression))"
| "call_browser h t CallClose = forget (run_browser (close_browser h t))"

text \<open>A caller that makes one call after the other, whatever each answers.\<close>

definition use_browser :: "'w browser_host \<Rightarrow> browser_params \<Rightarrow> browser_call list \<Rightarrow> 'w browser \<Rightarrow> 'w browser" where
  "use_browser h t calls s = fold (\<lambda>c s. snd (call_browser h t c s)) calls s"

section \<open>The handles of the profile\<close>

fun guard_events :: "browser_event list \<Rightarrow> profile_event list" where
  "guard_events [] = []"
| "guard_events (GuardEvent e # l) = e # guard_events l"
| "guard_events (_ # l) = guard_events l"

lemma guard_events_append [simp]: "guard_events (l @ m) = guard_events l @ guard_events m"
  by (induction l rule: guard_events.induct) simp_all

lemma guard_events_map [simp]: "guard_events (map GuardEvent es) = es"
  by (induction es) simp_all

lemma handles_opened_append [simp]: "handles_opened (l @ m) = handles_opened l @ handles_opened m"
  by (induction l rule: handles_opened.induct) simp_all

lemma handles_closed_append [simp]: "handles_closed (l @ m) = handles_closed l @ handles_closed m"
  by (induction l rule: handles_closed.induct) simp_all

lemma handles_opened_rev [simp]: "handles_opened (rev l) = rev (handles_opened l)"
  by (induction l rule: handles_opened.induct) simp_all

lemma handles_closed_rev [simp]: "handles_closed (rev l) = rev (handles_closed l)"
  by (induction l rule: handles_closed.induct) simp_all

lemma closings [simp]: "handles_opened (map HandleClosed ks) = []" "handles_closed (map HandleClosed ks) = ks"
  by (induction ks) simp_all

text \<open>Every handle opened is closed or held by the current guard.\<close>

definition held_handles :: "'w browser \<Rightarrow> nat list" where
  "held_handles s = (case bw_guard s of None \<Rightarrow> [] | Some g \<Rightarrow> pg_handles g)"

definition browser_inv :: "'w browser \<Rightarrow> bool" where
  "browser_inv s \<longleftrightarrow>
     mset (handles_opened (guard_events (bw_log s))) = mset (handles_closed (guard_events (bw_log s))) + mset (held_handles s)"

lemma browser_keeps_ask [keeps_intros]: "keeps browser_inv (bw_ask q)"
  by (rule keepsI) (auto simp: bw_ask_def browser_inv_def held_handles_def split: prod.splits)

lemma keeps_get [keeps_intros]: "keeps browser_inv (bw_get f)"
  by (rule keepsI) (simp add: bw_get_def)

lemma keeps_set [keeps_intros]: "keeps browser_inv (bw_set_page p)" "keeps browser_inv (bw_set_driver d c)"
  by (rule keepsI, auto simp: bw_set_page_def bw_set_driver_def browser_inv_def held_handles_def)+

lemma keeps_note [keeps_intros]: "guard_events [e] = [] \<Longrightarrow> keeps browser_inv (bw_note e)"
  using guard_events_append [of "[e]"]
  by (intro keepsI) (auto simp: bw_note_def browser_inv_def held_handles_def simp del: guard_events_append)

lemma keeps_try [keeps_intros]: "keeps browser_inv (bw_try q)"
  unfolding bw_try_def by (intro keeps_intros) (simp add: keeps_intros split: option.split)

lemma keeps_read [keeps_intros]: "keeps browser_inv (bw_read q)"
  unfolding bw_read_def by (intro keeps_intros) (simp add: keeps_intros split: sum.split)

lemma keeps_release [keeps_intros]: "keeps browser_inv release_profile_guard"
  by (rule keepsI) (auto simp: release_profile_guard_def browser_inv_def held_handles_def close_profile_guard_def split: option.splits)

text \<open>A guard is made only where there is none; a refused one has closed what it opened.\<close>

lemma acquire_guard_inv:
  assumes "browser_inv s" "bw_guard s = None" "acquire_guard h t s = (r, s')"
  shows "browser_inv s'"
proof -
  obtain gh w where w: "bh_guard h (bw_world s) = (gh, w)" by fastforce
  obtain q es where q: "make_profile_guard (bh_profile h) gh (bt_local t) (bt_profile_dir t) = (q, es)" by fastforce
  show ?thesis
  proof (cases q)
    case (Inl e)
    then show ?thesis using assms w q make_profile_guard_refused [of "bh_profile h" gh "bt_local t" "bt_profile_dir t" e es]
      by (auto simp: acquire_guard_def bindD_def bw_ask_def browser_inv_def held_handles_def Let_def)
  next
    case (Inr g)
    then have m: "make_profile_guard (bh_profile h) gh (bt_local t) (bt_profile_dir t) = (Inr g, es)" using q by simp
    show ?thesis using assms w q Inr
      by (rule_tac make_profile_guard_made [OF m])
        (auto simp: acquire_guard_def bindD_def bw_ask_def browser_inv_def held_handles_def Let_def)
  qed
qed

lemma keeps_acquire [keeps_intros]:
  assumes "keeps browser_inv f"
  shows "keeps browser_inv (bindD (bw_get bw_guard) (\<lambda>g. bindD (if g = None then acquire_guard h t else retD ()) (\<lambda>_. f)))"
proof (rule keepsI)
  fix s r s' assume s: "browser_inv s"
    "bindD (bw_get bw_guard) (\<lambda>g. bindD (if g = None then acquire_guard h t else retD ()) (\<lambda>_. f)) s = (r, s')"
  obtain q s1 where a: "(if bw_guard s = None then acquire_guard h t else retD ()) s = (q, s1)" by fastforce
  then have "browser_inv s1" using s acquire_guard_inv by (auto simp: retD_def split: if_splits)
  then show "browser_inv s'" using s a keepsD [OF assms]
    by (cases q) (auto simp: bindD_def bw_get_def split: if_splits)
qed

lemma keeps_shown_url [keeps_intros]: "keeps browser_inv (shown_url h p)"
  unfolding shown_url_def by (intro keeps_intros) (simp add: keeps_intros split: option.split)

lemma keeps_if [keeps_intros]: "keeps P m \<Longrightarrow> keeps P n \<Longrightarrow> keeps P (if b then m else n)"
  by simp

lemma keeps_option [keeps_intros]: "keeps P m \<Longrightarrow> (\<And>y. keeps P (n y)) \<Longrightarrow> keeps P (case x of None \<Rightarrow> m | Some y \<Rightarrow> n y)"
  by (simp split: option.split)

lemma keeps_sum [keeps_intros]: "(\<And>y. keeps P (m y)) \<Longrightarrow> (\<And>y. keeps P (n y)) \<Longrightarrow> keeps P (case x of Inl y \<Rightarrow> m y | Inr y \<Rightarrow> n y)"
  by (simp split: sum.split)

lemma keeps_status [keeps_intros]: "keeps browser_inv (read_status h t)"
  unfolding read_status_def by (intro keeps_intros)

lemma keeps_ensure_page [keeps_intros]: "keeps browser_inv (ensure_page h)"
  unfolding ensure_page_def by (intro keeps_intros)

lemma keeps_launch [keeps_intros]: "keeps browser_inv (launch_browser h)"
  unfolding launch_browser_def Let_def by (intro keeps_intros guard_events.simps) simp_all

lemma keeps_secrets [keeps_intros]: "keeps browser_inv (secret_values h p)"
  unfolding secret_values_def Let_def by (intro keeps_intros) simp

lemma keeps_open [keeps_intros]: "keeps browser_inv (open_browser h t url)"
  unfolding open_browser_def by (intro keeps_bind keeps_if keeps_acquire; (intro keeps_intros)?) simp_all

lemma keeps_act [keeps_intros]: "keeps browser_inv (act_on_page h t selector typed)"
  unfolding act_on_page_def by (intro keeps_intros)

lemma keeps_extract [keeps_intros]: "keeps browser_inv (extract_content h t selector semantic)"
  unfolding extract_content_def by (intro keeps_intros) (simp add: keeps_intros split: option.split prod.split)

lemma keeps_evaluate [keeps_intros]: "keeps browser_inv (evaluate_query h t expression)"
  unfolding evaluate_query_def
  by (intro keeps_intros) (simp_all add: keeps_intros split: browser_read_query.split)

lemma keeps_close [keeps_intros]: "keeps browser_inv (close_browser h t)"
  unfolding close_browser_def by (intro keeps_intros) simp_all

lemma keeps_run [keeps_intros]: "keeps browser_inv m \<Longrightarrow> keeps browser_inv (run_browser m)"
  unfolding run_browser_def by (intro keeps_intros)

lemma keeps_call: "keeps browser_inv (call_browser h t c)"
  by (cases c) (simp_all add: forget_def keeps_intros)

lemma call_inv: "browser_inv s \<Longrightarrow> browser_inv (snd (call_browser h t c s))"
  using keeps_call unfolding keeps_def by blast

lemma use_browser_inv: "browser_inv s \<Longrightarrow> browser_inv (use_browser h t calls s)"
  unfolding use_browser_def by (induction calls arbitrary: s) (simp_all add: call_inv)

lemma browser_start_inv: "browser_inv (snd (start_browser_worker h t w))"
proof -
  let ?s = "\<lparr>bw_world = w, bw_guard = None, bw_driver = False, bw_context = False, bw_page = None, bw_log = []\<rparr>"
  have i: "browser_inv ?s" "bw_guard ?s = None" by (simp_all add: browser_inv_def held_handles_def)
  have "browser_inv (snd (acquire_guard h t ?s))" using acquire_guard_inv [OF i] by (metis prod.collapse)
  then show ?thesis using i by (auto simp: start_browser_worker_def Let_def split: sum.split)
qed

text \<open>Whatever the calls before it did, the last part of \<open>finally\<close> has released the guard.\<close>

lemma finally_state: "snd (finallyD m f s) = snd (f (snd (m s)))"
  by (auto simp: finallyD_def Let_def split: prod.splits sum.splits)

lemma release_ends: "bw_guard (snd (release_profile_guard s)) = None"
  by (auto simp: release_profile_guard_def split: option.split)

lemma close_ends: "bw_guard (snd (close_browser h t s)) = None"
proof -
  have *: "snd (bindD (finallyD m (finallyD n f)) (\<lambda>_. retD x) s) = snd (f (snd (n (snd (m s)))))"
    for m n :: "('w, unit) browser_op" and f and x :: browser_status and s
    using finally_state [of m "finallyD n f" s] finally_state [of n f "snd (m s)"]
    by (auto simp: bindD_def retD_def split: prod.splits sum.splits)
  show ?thesis
    unfolding close_browser_def
    by (simp add: bindD_def [of "bw_get _"] bindD_def [of "bw_set_page _"] bindD_def [of "bw_set_driver _ _"]
        bw_get_def bw_set_page_def bw_set_driver_def * release_ends)
qed

lemma call_close_ends: "bw_guard (snd (call_browser h t CallClose s)) = None"
proof -
  obtain r s' where r: "close_browser h t s = (r, s')" by fastforce
  then show ?thesis using close_ends [of h t s]
    by (cases r) (auto simp: forget_def run_browser_def catchD_def bindD_def retD_def failD_def)
qed

text \<open>
  C31: the handles on the profile are returned. Whatever the driver does in any sequence of calls, failures and cancellations
  included, the handles opened and not closed are exactly those of the current guard, and after a call of \<open>close\<close> every handle
  ever opened has been closed exactly once, also when closing the context or stopping the driver fails.
\<close>

theorem closed_browser_holds_no_handle:
  "let s = use_browser h t calls (snd (start_browser_worker h t w)); s' = snd (call_browser h t CallClose s) in
     mset (handles_opened (guard_events (bw_log s))) =
       mset (handles_closed (guard_events (bw_log s))) + mset (held_handles s) \<and>
     bw_guard s' = None \<and>
     mset (handles_opened (guard_events (bw_log s'))) = mset (handles_closed (guard_events (bw_log s')))"
proof -
  let ?s = "use_browser h t calls (snd (start_browser_worker h t w))" and ?s' = "\<lambda>s. snd (call_browser h t CallClose s)"
  have i: "browser_inv ?s" by (rule use_browser_inv [OF browser_start_inv])
  then have "browser_inv (?s' ?s)" by (rule call_inv)
  then show ?thesis using i call_close_ends [of h t ?s] unfolding browser_inv_def by (simp add: Let_def held_handles_def)
qed

section \<open>What is returned of a page\<close>

lemma get_value: "bw_get f s = (Inr x, s') \<Longrightarrow> s' = s"
  by (simp add: bw_get_def)

lemma ask_value: "bw_ask q s = (Inr x, s') \<Longrightarrow> bw_log s' = bw_log s"
  by (auto simp: bw_ask_def split: prod.splits)

lemma read_value:
  assumes "bw_read q s = (Inr x, s')"
  shows "bw_log s' = bw_log s"
proof -
  obtain r s1 where r: "bw_ask q s = (Inr r, s1)" "(case r of Inl e \<Rightarrow> failD e | Inr x \<Rightarrow> retD x) s1 = (Inr x, s')"
    using assms unfolding bw_read_def bindD_Inr by blast
  then show ?thesis using ask_value [OF r(1)] by (cases r) (simp_all add: failD_def retD_def)
qed

lemma shown_value: "shown_url h p s = (Inr x, s') \<Longrightarrow> bw_log s' = bw_log s"
  by (auto simp: shown_url_def bindD_Inr failD_def retD_def dest!: ask_value split: option.splits)

lemma page_value: "ensure_page h s = (Inr x, s') \<Longrightarrow> bw_log s' = bw_log s"
  by (auto simp: ensure_page_def bindD_Inr failD_def retD_def bw_get_def bw_set_page_def
      dest!: ask_value read_value split: option.splits if_splits)

lemma secrets_value: "secret_values h p s = (Inr x, s') \<Longrightarrow> bw_log s' = SecretsCollected x # bw_log s"
  by (auto simp: secret_values_def Let_def bindD_Inr retD_def bw_note_def dest!: read_value)

lemma sublist_of_prefix: "prefix t u \<Longrightarrow> sublist p t \<Longrightarrow> sublist p u"
  by (meson prefix_imp_sublist sublist_order.order_trans)


section \<open>Concrete runs\<close>

text \<open>A page whose text holds a cookie; the launch of the context is an argument.\<close>

definition sample_browser :: "browser_failure option \<Rightarrow> pystr \<Rightarrow> pystr \<Rightarrow> unit browser_host" where
  "sample_browser launched body cookie =
     \<lparr>bh_profile = sample_profile_host, bh_guard = (\<lambda>w. (swapped_host, w)), bh_start_driver = (\<lambda>w. (None, w)),
      bh_launch = (\<lambda>w. (launched, w)), bh_stop_driver = (\<lambda>w. (None, w)), bh_close_context = (\<lambda>w. (None, w)),
      bh_first_page = (\<lambda>w. (Some 0, w)), bh_new_page = (\<lambda>w. (Inr 0, w)), bh_is_closed = (\<lambda>p w. (False, w)),
      bh_goto = (\<lambda>p u w. (None, w)), bh_act = (\<lambda>p l x w. (None, w)), bh_content = (\<lambda>p l m w. (Inr body, w)),
      bh_title = (\<lambda>p w. (Inr body, w)), bh_url = (\<lambda>p w. ([], w)), bh_cookies = (\<lambda>p w. (Inr [Some cookie, None], w)),
      bh_passwords = (\<lambda>p w. (Inr [[]], w)), bh_storage = (\<lambda>p w. (Inr [], w)), bh_urls = plain_url_host,
      bh_text = \<lparr>th_casefold = id, th_alnum = (\<lambda>_. True)\<rparr>\<rparr>"

definition sample_browser_params :: "nat \<Rightarrow> browser_params" where
  "sample_browser_params limit = \<lparr>bt_local = Some (ustr ''l''), bt_profile_dir = sample_profile, bt_max_output = limit, bt_action_ms = 5000,
     bt_navigation_ms = 15000\<rparr>"

definition opened_browser :: "unit browser" where
  "opened_browser = \<lparr>bw_world = (), bw_guard = None, bw_driver = True, bw_context = True, bw_page = Some 0, bw_log = []\<rparr>"

lemmas browser_steps = bindD_def retD_def failD_def bw_ask_def bw_get_def bw_note_def bw_try_def bw_read_def bw_set_page_def
  bw_set_driver_def catchD_def finallyD_def

lemma no_address_shown: "safe_browser_url plain_url_host [] = Some []"
  by code_simp


text \<open>
  A cancellation while the context is launched is not caught by the handler for driver errors: the driver that was started is
  in no field, and no later call stops it, \<open>close\<close> included.
\<close>

lemma cancelled_launch_leaks_driver:
  "let h = sample_browser (Some TaskCancelled) [] []; t = sample_browser_params 8;
       s = use_browser h t [CallOpen (ustr ''about:blank''), CallClose] (snd (start_browser_worker h t ())) in
     DriverStarted \<in> set (bw_log s) \<and> DriverStopped \<notin> set (bw_log s) \<and> \<not> bw_driver s"
  using swapped_guard sample_profile_valid
  by (simp add: Let_def use_browser_def start_browser_worker_def acquire_guard_def sample_browser_def sample_browser_params_def
      forget_def run_browser_def open_browser_def launch_browser_def close_browser_def release_profile_guard_def
      close_profile_guard_def browser_steps)

text \<open>The bound of \<open>evaluate\<close> is taken before the redaction, so the returned text may be longer than the bound.\<close>

lemma evaluated_text_exceeds_bound:
  "\<exists>v s'. evaluate_query (sample_browser None (ustr ''aa'') (ustr ''a'')) (sample_browser_params 2) (ustr ''document.title'') opened_browser =
     (Inr v, s') \<and> be_value v = JStr (ustr ''[REDACTED][REDACTED]'') \<and> bt_max_output (sample_browser_params 2) < 20"
proof -
  have q: "parse_browser_read_query (ustr ''document.title'') = Inr QueryTitle" by code_simp
  have u: "utf8_encode (ustr ''aa'') = Some [97, 97]" by code_simp
  have b: "redact_browser_text (ustr ''aa'') [ustr ''a''] = ustr ''[REDACTED][REDACTED]''" by code_simp
  have ne: "ustr ''a'' \<noteq> []" by simp
  show ?thesis
    using q u b no_address_shown
    by (simp add: evaluate_query_def ensure_page_def secret_values_def shown_url_def browser_steps sample_browser_def Let_def ne
        sample_browser_params_def opened_browser_def List.map_filter_simps del: ustr_simps)
qed

end
