(* ===== verification/Codex.thy ===== *)
theory Codex
  imports Job_Registry Acl
begin

text \<open>
  The Codex adapter (\<open>worker/codex.py\<close>), its records (\<open>worker/codex_records.py\<close>), the snapshots of a repository
  (\<open>worker/codex_git.py\<close>), the deadline of a job (\<open>worker/codex_deadline.py\<close>) and the models of the tools (\<open>tools/codex.py\<close>).
  Running a command is an argument; the jobs are those of \<open>Job_Registry\<close>. The lemmas show that a dirty working tree is only
  given to Codex with the caller's consent and the instruction to preserve it, that a start leaves a record exactly for the job it
  made, and that the deadline cancels a job at most once, late and only while it runs.
\<close>

section \<open>Commands\<close>

record command_result =
  cr_exit :: int
  cr_stdout :: pystr
  cr_stderr :: pystr

definition max_command_output :: nat where "max_command_output = 1000000"

text \<open>\<open>decode(errors="replace")\<close>: each undecodable part becomes one replacement character.\<close>

fun utf8_replace :: "bytes \<Rightarrow> pystr" where
  "utf8_replace [] = []"
| "utf8_replace (b # bs) =
     (case utf8_step b bs of
        (None, k) \<Rightarrow> 0xFFFD # utf8_replace (drop k bs)
      | (Some c, k) \<Rightarrow> c # utf8_replace (drop k bs))"

text \<open>A finished process with its code and output, or none: it was not found or it timed out.\<close>

definition run_bounded_command :: "(int \<times> bytes \<times> bytes) option \<Rightarrow> command_result" where
  "run_bounded_command completed =
     (case completed of
        None \<Rightarrow> \<lparr>cr_exit = 127, cr_stdout = [], cr_stderr = []\<rparr>
      | Some (code, out, err) \<Rightarrow>
          \<lparr>cr_exit = code, cr_stdout = utf8_replace (take max_command_output out), cr_stderr = utf8_replace (take max_command_output err)\<rparr>)"

type_synonym command_runner = "pystr list \<Rightarrow> pystr \<Rightarrow> command_result"

text \<open>\<open>split()\<close>: the words between blanks.\<close>

function py_words :: "pystr \<Rightarrow> pystr list" where
  "py_words s =
     (case dropWhile py_space s of
        [] \<Rightarrow> []
      | c # cs \<Rightarrow> (c # takeWhile (\<lambda>x. \<not> py_space x) cs) # py_words (dropWhile (\<lambda>x. \<not> py_space x) cs))"
  by pat_completeness auto
termination
proof (relation "measure length")
  fix s :: pystr and c cs
  assume "dropWhile py_space s = c # cs"
  then have "length (c # cs) \<le> length s" by (metis length_dropWhile_le)
  then show "(dropWhile (\<lambda>x. \<not> py_space x) cs, s) \<in> measure length"
    using length_dropWhile_le [of "\<lambda>x. \<not> py_space x" cs] by simp
qed simp

declare py_words.simps [simp del]

definition strip_marks :: "pystr \<Rightarrow> pystr" where
  "strip_marks w =
     (let drop_marks = dropWhile (\<lambda>c. c \<in> set (ustr '' ,:[]<>()'')) in rev (drop_marks (rev (drop_marks w))))"

definition has_token :: "pystr \<Rightarrow> string \<Rightarrow> bool" where
  "has_token t token = list_ex (\<lambda>w. strip_marks w = ustr token) (py_words t)"

definition has_option :: "pystr \<Rightarrow> string \<Rightarrow> bool" where
  "has_option t option = (ustr option \<in> set (py_words t))"

text \<open>The line boundaries of \<open>splitlines\<close>.\<close>

definition line_end :: "nat \<Rightarrow> bool" where
  "line_end c \<longleftrightarrow> c \<in> {10, 11, 12, 13, 28, 29, 30, 0x85, 0x2028, 0x2029}"

definition first_line :: "pystr \<Rightarrow> pystr option" where
  "first_line t = (if t = [] then None else Some (take 256 (takeWhile (\<lambda>c. \<not> line_end c) t)))"

section \<open>Snapshots of a repository\<close>

record git_snapshot =
  gs_is_repository :: bool
  gs_repo_root :: "pystr option"
  gs_branch :: "pystr option"
  gs_head :: "pystr option"
  gs_status :: "pystr list"
  gs_dirty_files :: "pystr list"
  gs_diff_stat :: pystr

definition no_repository :: git_snapshot where
  "no_repository = \<lparr>gs_is_repository = False, gs_repo_root = None, gs_branch = None, gs_head = None, gs_status = [],
     gs_dirty_files = [], gs_diff_stat = []\<rparr>"

fun split_nul :: "pystr \<Rightarrow> pystr list" where
  "split_nul [] = [[]]"
| "split_nul (c # s) = (if c = 0 then [] # split_nul s else (case split_nul s of [] \<Rightarrow> [[c]] | p # ps \<Rightarrow> (c # p) # ps))"

definition status_entries :: "pystr \<Rightarrow> pystr list" where
  "status_entries out = filter (\<lambda>e. e \<noteq> []) (split_nul out)"

definition dirty_files_of :: "pystr list \<Rightarrow> pystr list" where
  "dirty_files_of entries = sort (remdups (map (drop 3) (filter (\<lambda>e. 32 \<in> set e) entries)))"

datatype codex_error =
    GitProbeError string
  | DirtyWorktreePolicyRequiredError "pystr list"
  | CodexUnavailableError string
  | UnknownCodexJobError uuid
  | PostflightNotReadyError uuid
  | InvalidCodexRecordError pystr
  | CodexRecordWriteError uuid
  | CodexRecordCollisionError uuid
  | StaleCodexRecordError uuid
  | CodexJobError job_error
  | DeadlineRuntimeError

definition git_optional :: "command_runner \<Rightarrow> pystr \<Rightarrow> string list \<Rightarrow> pystr option" where
  "git_optional run repo args =
     (let r = run (map ustr [''git'', ''-C''] @ [repo] @ map ustr args) repo in
      if cr_exit r = 0 then first_line (cr_stdout r) else None)"

text \<open>\<open>resolve\<close> is the resolution of a path.\<close>

definition capture_git_snapshot :: "command_runner \<Rightarrow> (pystr \<Rightarrow> pystr) \<Rightarrow> pystr \<Rightarrow> codex_error + git_snapshot" where
  "capture_git_snapshot run resolve cwd =
     (let root = run (map ustr [''git'', ''-C''] @ [cwd] @ map ustr [''rev-parse'', ''--show-toplevel'']) cwd in
      if cr_exit root \<noteq> 0 then Inr no_repository
      else
        (let repo = resolve (case first_line (cr_stdout root) of None \<Rightarrow> cwd | Some [] \<Rightarrow> cwd | Some l \<Rightarrow> l);
             st = run (map ustr [''git'', ''-C''] @ [repo] @ map ustr [''status'', ''--porcelain=v1'', ''-z'']) repo
         in if cr_exit st \<noteq> 0 then Inl (GitProbeError ''status_unavailable'')
            else
              (let entries = status_entries (cr_stdout st);
                   diff = run (map ustr [''git'', ''-C''] @ [repo] @ map ustr [''diff'', ''--stat'']) repo
               in Inr \<lparr>gs_is_repository = True, gs_repo_root = Some repo,
                       gs_branch = git_optional run repo [''branch'', ''--show-current''],
                       gs_head = git_optional run repo [''rev-parse'', ''HEAD''],
                       gs_status = entries, gs_dirty_files = dirty_files_of entries,
                       gs_diff_stat = (if cr_exit diff = 0 then py_strip (cr_stdout diff) else [])\<rparr>)))"

section \<open>Records\<close>

record codex_record =
  cx_job_id :: uuid
  cx_cwd :: pystr
  cx_preflight :: git_snapshot

text \<open>
  The files of the directory by the stem of their names; \<open>None\<close> is a file that cannot be read or does not fit the schema. \<open>uuid_of\<close>
  is the identifier a text spells.
\<close>

type_synonym record_files = "(pystr \<times> codex_record option) list"

definition record_path :: "uuid \<Rightarrow> pystr" where "record_path j = uuid_str j"

definition read_record :: "(pystr \<Rightarrow> uuid option) \<Rightarrow> pystr \<Rightarrow> record_files \<Rightarrow> codex_error + codex_record" where
  "read_record uuid_of stem files =
     (case map_of files stem of
        Some (Some r) \<Rightarrow>
          (case uuid_of stem of
             None \<Rightarrow> Inl (InvalidCodexRecordError stem)
           | Some j \<Rightarrow> if j \<noteq> cx_job_id r then Inl (InvalidCodexRecordError stem) else Inr r)
      | _ \<Rightarrow> Inl (InvalidCodexRecordError stem))"

fun load_records :: "(pystr \<Rightarrow> uuid option) \<Rightarrow> record_files \<Rightarrow> pystr list \<Rightarrow> codex_error + codex_record list" where
  "load_records uuid_of files [] = Inr []"
| "load_records uuid_of files (stem # stems) =
     bindR (read_record uuid_of stem files) (\<lambda>r. bindR (load_records uuid_of files stems) (\<lambda>rs. Inr (r # rs)))"

text \<open>A write that fails has removed its temporary file.\<close>

definition write_record :: "bool \<Rightarrow> codex_record \<Rightarrow> record_files \<Rightarrow> (codex_error + unit) \<times> record_files" where
  "write_record fails r files =
     (if map_of files (record_path (cx_job_id r)) \<noteq> None then (Inl (CodexRecordCollisionError (cx_job_id r)), files)
      else if fails then (Inl (CodexRecordWriteError (cx_job_id r)), files)
      else (Inr (), AList.update (record_path (cx_job_id r)) (Some r) files))"

definition delete_record :: "uuid \<Rightarrow> record_files \<Rightarrow> record_files" where
  "delete_record j files = AList.delete (record_path j) files"

section \<open>The adapter\<close>

record codex_status =
  cs_executable :: "pystr option"
  cs_version :: "pystr option"
  cs_callable :: bool
  cs_login_available :: bool
  cs_exec_supported :: bool
  cs_model_option :: bool
  cs_effort_option :: bool

record codex_adapter =
  ca_executable :: pystr
  ca_registry :: job_registry
  ca_files :: record_files
  ca_tracked :: "(uuid \<times> codex_record) list"
  ca_armed :: "(uuid \<times> int) list"

definition make_adapter :: "(pystr \<Rightarrow> uuid option) \<Rightarrow> pystr \<Rightarrow> job_registry \<Rightarrow> record_files \<Rightarrow> codex_error + codex_adapter" where
  "make_adapter uuid_of executable registry files =
     bindR (load_records uuid_of files (map fst files)) (\<lambda>rs.
       Inr \<lparr>ca_executable = executable, ca_registry = registry, ca_files = files,
            ca_tracked = fold (\<lambda>r. AList.update (cx_job_id r) r) rs [], ca_armed = []\<rparr>)"

text \<open>\<open>which\<close> and \<open>here\<close> are the resolution of the executable and the current directory.\<close>

definition read_codex_status :: "command_runner \<Rightarrow> (pystr \<Rightarrow> pystr option) \<Rightarrow> pystr \<Rightarrow> pystr \<Rightarrow> codex_status" where
  "read_codex_status run which here exe =
     (let version = run [exe, ustr ''--version''] here;
          root_help = run [exe, ustr ''--help''] here;
          exec_help = run [exe, ustr ''exec'', ustr ''--help''] here;
          root_text = cr_stdout root_help @ cr_stderr root_help;
          exec_text = cr_stdout exec_help @ cr_stderr exec_help;
          exec_supported = (cr_exit root_help = 0 \<and> has_token root_text ''exec'');
          config_supported = (has_option exec_text ''--config'' \<and> has_option root_text ''--strict-config'')
      in \<lparr>cs_executable = (if cr_exit version = 0 then Some (case which exe of None \<Rightarrow> exe | Some p \<Rightarrow> p) else None),
          cs_version = (if cr_exit version = 0 then first_line (cr_stdout version) else None),
          cs_callable = (cr_exit version = 0 \<and> cr_exit exec_help = 0 \<and> exec_supported),
          cs_login_available = (cr_exit root_help = 0 \<and> has_token root_text ''login'' \<and>
             cr_exit (run [exe, ustr ''login'', ustr ''status''] here) = 0),
          cs_exec_supported = exec_supported,
          cs_model_option = has_option exec_text ''--model'',
          cs_effort_option = (config_supported \<and>
             cr_exit (run [exe, ustr ''--strict-config'', ustr ''--config'', ustr ''model_reasoning_effort=\"low\"'', ustr ''--version''] here) = 0)\<rparr>)"

record codex_request =
  cq_operation_id :: uuid
  cq_prompt :: pystr
  cq_cwd :: pystr
  cq_model :: "pystr option"
  cq_effort :: "pystr option"
  cq_dirty_policy :: "pystr option"
  cq_timeout_s :: int

record codex_invocation =
  ci_command_prefix :: "pystr list"
  ci_argument_count :: nat
  ci_model_applied :: bool
  ci_effort_applied :: bool
  ci_preservation_applied :: bool
  ci_requested_timeout_s :: int

record codex_job_start =
  cj_job :: job_snapshot
  cj_preflight :: git_snapshot
  cj_invocation :: codex_invocation

record codex_postflight =
  cp_job_id :: uuid
  cp_job :: job_snapshot
  cp_preflight :: git_snapshot
  cp_postflight :: git_snapshot

definition preserve_instruction :: pystr where
  "preserve_instruction =
     [10, 10] @ ustr ''Preserve every pre-existing user change in this working tree. Do not clean, reset, checkout, stash, discard, overwrite, or reformat unrelated files.''"

text \<open>
  What one call of \<open>start\<close> meets outside: the commands, the paths, whether the record can be written and the deadline armed, the identifiers
  drawn and the times.
\<close>

record codex_host =
  ch_run :: command_runner
  ch_which :: "pystr \<Rightarrow> pystr option"
  ch_here :: pystr
  ch_resolve :: "pystr \<Rightarrow> pystr"
  ch_uuid_of :: "pystr \<Rightarrow> uuid option"
  ch_write_fails :: bool
  ch_arm_fails :: bool
  ch_job_id :: uuid
  ch_event :: uuid
  ch_now :: int

text \<open>The command before the prompt: the options that the current program knows.\<close>

definition command_prefix :: "codex_host \<Rightarrow> pystr \<Rightarrow> codex_status \<Rightarrow> codex_request \<Rightarrow> pystr list" where
  "command_prefix h exe st q =
     [exe, ustr ''exec''] @
     (case cq_model q of Some m \<Rightarrow> if cs_model_option st then [ustr ''--model'', m] else [] | None \<Rightarrow> []) @
     (case cq_effort q of
        Some e \<Rightarrow> if cs_effort_option st then [ustr ''--config'', ustr ''model_reasoning_effort=\"'' @ e @ [34]] else []
      | None \<Rightarrow> []) @
     (if has_option (cr_stdout (ch_run h [exe, ustr ''exec'', ustr ''--help''] (cq_cwd q))) ''--color''
      then [ustr ''--color'', ustr ''never''] else [])"

text \<open>The block under the lock: the record is written first, and removed when no new job was made.\<close>

definition submit_job ::
  "codex_host \<Rightarrow> codex_record \<Rightarrow> job_spec \<Rightarrow> codex_adapter \<Rightarrow> (codex_error + job_snapshot \<times> codex_record) \<times> codex_adapter" where
  "submit_job h proposed spec a =
     (case write_record (ch_write_fails h) proposed (ca_files a) of
        (Inl e, files) \<Rightarrow> (Inl e, a\<lparr>ca_files := files\<rparr>)
      | (Inr _, files) \<Rightarrow>
          (case start (ch_now h) (ch_job_id h) spec (Some (cx_job_id proposed)) (ca_registry a) of
             (Inl e, reg) \<Rightarrow> (Inl (CodexJobError e), a\<lparr>ca_registry := reg, ca_files := delete_record (cx_job_id proposed) files\<rparr>)
           | (Inr job, reg) \<Rightarrow>
               if sn_job_id job = cx_job_id proposed
               then (Inr (job, proposed), a\<lparr>ca_registry := reg, ca_files := files, ca_tracked := AList.update (sn_job_id job) proposed (ca_tracked a)\<rparr>)
               else (let kept = delete_record (cx_job_id proposed) files in
                     case read_record (ch_uuid_of h) (record_path (sn_job_id job)) kept of
                       Inl e \<Rightarrow> (Inl e, a\<lparr>ca_registry := reg, ca_files := kept\<rparr>)
                     | Inr r \<Rightarrow> (Inr (job, r), a\<lparr>ca_registry := reg, ca_files := kept, ca_tracked := AList.update (sn_job_id job) r (ca_tracked a)\<rparr>))))"

definition codex_start :: "codex_host \<Rightarrow> codex_request \<Rightarrow> codex_adapter \<Rightarrow> (codex_error + codex_job_start) \<times> codex_adapter" where
  "codex_start h q a =
     (let st = read_codex_status (ch_run h) (ch_which h) (ch_here h) (ca_executable a) in
      if \<not> cs_callable st then (Inl (CodexUnavailableError ''exec_not_callable''), a)
      else case capture_git_snapshot (ch_run h) (ch_resolve h) (cq_cwd q) of
        Inl e \<Rightarrow> (Inl e, a)
      | Inr preflight \<Rightarrow>
          (let dirty = gs_dirty_files preflight \<noteq> [] in
           if dirty \<and> cq_dirty_policy q \<noteq> Some (ustr ''preserve'') then (Inl (DirtyWorktreePolicyRequiredError (gs_dirty_files preflight)), a)
           else
             (let prefix = command_prefix h (ca_executable a) st q;
                  argv = prefix @ [if dirty then cq_prompt q @ preserve_instruction else cq_prompt q];
                  proposed = \<lparr>cx_job_id = ch_job_id h, cx_cwd = ch_resolve h (cq_cwd q), cx_preflight = preflight\<rparr>;
                  spec = \<lparr>spec_operation_id = cq_operation_id q, spec_kind = CODEX, spec_argv = argv, spec_cwd = cq_cwd q\<rparr>
              in case submit_job h proposed spec a of
                   (Inl e, a1) \<Rightarrow> (Inl e, a1)
                 | (Inr (job, r), a1) \<Rightarrow>
                     (let answer = \<lparr>cj_job = job, cj_preflight = cx_preflight r,
                          cj_invocation = \<lparr>ci_command_prefix = prefix, ci_argument_count = length argv,
                            ci_model_applied = (cq_model q \<noteq> None \<and> cs_model_option st),
                            ci_effort_applied = (cq_effort q \<noteq> None \<and> cs_effort_option st),
                            ci_preservation_applied = dirty, ci_requested_timeout_s = cq_timeout_s q\<rparr>\<rparr>
                      in if sn_job_id job \<noteq> ch_job_id h then (Inr answer, a1)
                         else if ch_arm_fails h
                         then (case cancel (ch_now h) (ch_event h) (sn_job_id job) (ca_registry a1) of
                                 (Inl e, reg) \<Rightarrow> (Inl (CodexJobError e), a1\<lparr>ca_registry := reg\<rparr>)
                               | (Inr _, reg) \<Rightarrow> (Inl DeadlineRuntimeError, a1\<lparr>ca_registry := reg\<rparr>))
                         else (Inr answer, a1\<lparr>ca_armed := (sn_job_id job, cq_timeout_s q) # ca_armed a1\<rparr>)))))"

definition take_postflight :: "codex_host \<Rightarrow> uuid \<Rightarrow> codex_adapter \<Rightarrow> codex_error + codex_postflight" where
  "take_postflight h j a =
     (case map_of (ca_tracked a) j of
        None \<Rightarrow> Inl (UnknownCodexJobError j)
      | Some r \<Rightarrow>
          (case status j (ca_registry a) of
             Inl _ \<Rightarrow> Inl (StaleCodexRecordError j)
           | Inr job \<Rightarrow>
               if sn_state job \<notin> terminal_job_states then Inl (PostflightNotReadyError j)
               else bindR (capture_git_snapshot (ch_run h) (ch_resolve h) (cx_cwd r)) (\<lambda>post.
                 Inr \<lparr>cp_job_id = j, cp_job = job, cp_preflight = cx_preflight r, cp_postflight = post\<rparr>)))"

section \<open>Deadlines\<close>

text \<open>
  The monitor of one job, from reading to reading: what the reader answers (\<open>None\<close> when it raises) and the clock after it. The result
  says whether the canceller was called, and when.
\<close>

datatype watch_end = WatchTerminal | WatchCancelled int | WatchRaised | WatchGoesOn

fun watch_job :: "int \<Rightarrow> (job_state option \<times> int) list \<Rightarrow> watch_end" where
  "watch_job deadline [] = WatchGoesOn"
| "watch_job deadline ((seen, now) # rest) =
     (case seen of
        None \<Rightarrow> WatchRaised
      | Some st \<Rightarrow>
          if st \<in> terminal_job_states then WatchTerminal
          else if deadline - now \<le> 0 then WatchCancelled now
          else watch_job deadline rest)"

section \<open>What a start does\<close>

lemma delete_after_update: "map_of xs k = None \<Longrightarrow> AList.delete k (AList.update k v xs) = xs"
proof (induction xs)
  case (Cons x xs)
  then show ?case by (cases x) (auto simp: AList.delete_eq split: if_splits)
qed (simp add: AList.delete_eq)

lemma registry_start_cases:
  assumes "job_reachable \<sigma>" "sys_registry \<sigma> = reg" "map_of (reg_records reg) j = None"
    and st: "start now fresh spec (Some j) reg = (r, reg')"
  obtains (refused) e where "r = Inl e" "reg' = reg"
  | (known) p where "r = Inr p" "reg' = reg" "sn_job_id p \<noteq> j"
  | (made) p where "r = Inr p" "sn_job_id p = j" "reg_submitted reg' = reg_submitted reg @ [(j, spec)]"
      "map_of (reg_records reg') j \<noteq> None"
proof (cases "spec_ok spec \<and> \<not> reg_closed reg")
  case False
  then show ?thesis using st refused by (auto simp: start_def split: if_splits)
next
  case ok: True
  note D = jobs_invD [OF sys_invD(1) [OF job_reachable_inv [OF assms(1)]], unfolded assms(2)]
  show ?thesis
  proof (cases "job_request_digest spec (reg_limits reg)")
    case (Inl e)
    then show ?thesis using st ok refused by (auto simp: start_def)
  next
    case d: (Inr d)
    show ?thesis
    proof (cases "map_of (reg_operation_jobs reg) (spec_operation_id spec)")
      case (Some x)
      obtain i e where x: "x = (i, e)" by (cases x) auto
      show ?thesis
      proof (cases "e = d")
        case True
        show ?thesis
        proof (cases "map_of (reg_records reg) i")
          case None
          then show ?thesis using st ok d Some x True refused by (auto simp: start_def)
        next
          case q: (Some q)
          have "i \<noteq> j" using assms(3) q by auto
          moreover have "sn_job_id (jr_snapshot q) = i" using D(4) [OF q] by simp
          moreover have "(Inr (jr_snapshot q), reg) = (r, reg')" using st ok d Some x True q by (simp add: start_def)
          ultimately show ?thesis by (intro known [of "jr_snapshot q"]) auto
        qed
      next
        case False
        then show ?thesis using st ok d Some x refused by (auto simp: start_def)
      qed
    next
      case None
      show ?thesis
      proof (cases "make_snapshot (queued_snapshot j spec d now)")
        case (Inl e)
        then have "r = Inl e" "reg' = reg" using st ok d None assms(3) by (auto simp: start_def Let_def)
        then show ?thesis by (rule refused)
      next
        case (Inr p)
        then have "p = queued_snapshot j spec d now" by (rule make_snapshot_Inr)
        then show ?thesis
          using st ok d None assms(3) Inr made [of p]
          by (auto simp: start_def Let_def queued_snapshot_def put_record_def store_snapshot_def update_conv')
      qed
    qed
  qed
qed

lemma cancel_keeps: "cancel now event j reg = (r, reg') \<Longrightarrow>
    reg_submitted reg' = reg_submitted reg \<and> (map_of (reg_records reg) k \<noteq> None \<longrightarrow> map_of (reg_records reg') k \<noteq> None)"
  by (rule cancel_effect [where now = now and ev = event and j = j and reg = reg]) (auto simp: update_conv')

text \<open>
  What the block under the lock does: nothing is kept; or the operation had a job, whose record is tracked; or there is a new job with its
  record.
\<close>

lemma submit_job_cases:
  assumes "submit_job h proposed spec a = (r, a')" "cx_job_id proposed = ch_job_id h"
    and "job_reachable \<sigma>" "sys_registry \<sigma> = ca_registry a" "map_of (reg_records (ca_registry a)) (ch_job_id h) = None"
  obtains (nothing) e where "r = Inl e" "ca_files a' = ca_files a" "ca_registry a' = ca_registry a"
  | (known) job rec where "r = Inr (job, rec)" "sn_job_id job \<noteq> ch_job_id h" "ca_files a' = ca_files a" "ca_registry a' = ca_registry a"
  | (made) job where "r = Inr (job, proposed)" "sn_job_id job = ch_job_id h"
      "ca_files a' = AList.update (record_path (ch_job_id h)) (Some proposed) (ca_files a)"
      "map_of (ca_tracked a') (ch_job_id h) = Some proposed" "map_of (reg_records (ca_registry a')) (ch_job_id h) \<noteq> None"
      "reg_submitted (ca_registry a') = reg_submitted (ca_registry a) @ [(ch_job_id h, spec)]"
proof (cases "map_of (ca_files a) (record_path (ch_job_id h)) \<noteq> None \<or> ch_write_fails h")
  case True
  then have "\<exists>e. r = Inl e \<and> a' = a" using assms(1,2) by (auto simp: submit_job_def write_record_def split: if_splits)
  then obtain e where "r = Inl e" "ca_files a' = ca_files a" "ca_registry a' = ca_registry a" by blast
  then show ?thesis by (rule nothing)
next
  case False
  define files where "files = AList.update (record_path (ch_job_id h)) (Some proposed) (ca_files a)"
  have w: "write_record (ch_write_fails h) proposed (ca_files a) = (Inr (), files)"
    using False assms(2) by (simp add: write_record_def files_def)
  have restored: "delete_record (ch_job_id h) files = ca_files a"
    using False by (simp add: delete_record_def files_def delete_after_update)
  obtain q reg' where st: "start (ch_now h) (ch_job_id h) spec (Some (ch_job_id h)) (ca_registry a) = (q, reg')" by fastforce
  show ?thesis
  proof (cases rule: registry_start_cases [OF assms(3,4,5) st, case_names refused known made])
    case (refused e)
    then have "r = Inl (CodexJobError e)" "ca_files a' = ca_files a" "ca_registry a' = ca_registry a"
      using assms(1,2) w st restored by (auto simp: submit_job_def)
    then show ?thesis by (rule nothing)
  next
    case (known p)
    have a': "ca_files a' = ca_files a" "ca_registry a' = ca_registry a"
      using assms(1,2) w st restored known by (auto simp: submit_job_def Let_def split: sum.splits)
    show ?thesis
    proof (cases "read_record (ch_uuid_of h) (record_path (sn_job_id p)) (ca_files a)")
      case (Inl e)
      then have "r = Inl e" using assms(1,2) w st restored known by (auto simp: submit_job_def Let_def)
      then show ?thesis using a' by (rule nothing)
    next
      case (Inr rec)
      then have "r = Inr (p, rec)" using assms(1,2) w st restored known by (auto simp: submit_job_def Let_def)
      then show ?thesis using known(3) a' by (rule that(2))
    qed
  next
    case (made p)
    have "r = Inr (p, proposed)" "ca_files a' = files" "map_of (ca_tracked a') (ch_job_id h) = Some proposed"
      "ca_registry a' = reg'"
      using assms(1,2) w st made(1,2) by (auto simp: submit_job_def update_conv')
    then show ?thesis using made by (intro that(3) [of p]) (auto simp: files_def)
  qed
qed

lemma codex_start_submits:
  assumes "codex_start h q a = (r, a')"
  obtains (early) e where "r = Inl e" "a' = a"
  | (submitted) snap v a1 spec where "capture_git_snapshot (ch_run h) (ch_resolve h) (cq_cwd q) = Inr snap"
      "gs_dirty_files snap \<noteq> [] \<longrightarrow> cq_dirty_policy q = Some (ustr ''preserve'')"
      "spec_operation_id spec = cq_operation_id q" "spec_kind spec = CODEX" "spec_cwd spec = cq_cwd q"
      "last (spec_argv spec) = (if gs_dirty_files snap \<noteq> [] then cq_prompt q @ preserve_instruction else cq_prompt q)"
      "submit_job h \<lparr>cx_job_id = ch_job_id h, cx_cwd = ch_resolve h (cq_cwd q), cx_preflight = snap\<rparr> spec a = (v, a1)"
      "ca_files a' = ca_files a1" "ca_tracked a' = ca_tracked a1"
      "reg_submitted (ca_registry a') = reg_submitted (ca_registry a1)"
      "\<forall>k. map_of (reg_records (ca_registry a1)) k \<noteq> None \<longrightarrow> map_of (reg_records (ca_registry a')) k \<noteq> None"
      "\<forall>answer. r = Inr answer \<longrightarrow> (\<exists>rec. v = Inr (cj_job answer, rec) \<and> cj_preflight answer = cx_preflight rec)"
proof (cases "capture_git_snapshot (ch_run h) (ch_resolve h) (cq_cwd q)")
  case (Inl e)
  then have "(\<exists>e. r = Inl e) \<and> a' = a" using assms by (auto simp: codex_start_def Let_def split: if_splits)
  then show ?thesis using early by blast
next
  case (Inr snap)
  define st where "st = read_codex_status (ch_run h) (ch_which h) (ch_here h) (ca_executable a)"
  define dirty where "dirty \<longleftrightarrow> gs_dirty_files snap \<noteq> []"
  show ?thesis
  proof (cases "\<not> cs_callable st \<or> dirty \<and> cq_dirty_policy q \<noteq> Some (ustr ''preserve'')")
    case True
    then have "(\<exists>e. r = Inl e) \<and> a' = a"
      using assms Inr by (auto simp: codex_start_def Let_def st_def dirty_def split: if_splits)
    then show ?thesis using early by blast
  next
    case False
    define spec where "spec = \<lparr>spec_operation_id = cq_operation_id q, spec_kind = CODEX,
      spec_argv = command_prefix h (ca_executable a) st q @ [if dirty then cq_prompt q @ preserve_instruction else cq_prompt q],
      spec_cwd = cq_cwd q\<rparr>"
    obtain v a1 where v: "submit_job h \<lparr>cx_job_id = ch_job_id h, cx_cwd = ch_resolve h (cq_cwd q), cx_preflight = snap\<rparr> spec a = (v, a1)"
      by fastforce
    obtain c reg where c: "cancel (ch_now h) (ch_event h) (case v of Inr (job, rec) \<Rightarrow> sn_job_id job | Inl e \<Rightarrow> 0) (ca_registry a1) = (c, reg)"
      by fastforce
    have shape: "(\<exists>e. v = Inl e) \<and> (\<exists>e. r = Inl e) \<and> a' = a1 \<or>
        (\<exists>job rec. v = Inr (job, rec) \<and>
          ((\<exists>answer. r = Inr answer \<and> cj_job answer = job \<and> cj_preflight answer = cx_preflight rec) \<and>
             (a' = a1 \<or> a' = a1\<lparr>ca_armed := (sn_job_id job, cq_timeout_s q) # ca_armed a1\<rparr>) \<or>
           (\<exists>e. r = Inl e) \<and> a' = a1\<lparr>ca_registry := reg\<rparr>))"
      using assms Inr False v c
      by (cases v) (auto simp: codex_start_def Let_def st_def [symmetric] dirty_def [symmetric] spec_def [symmetric] split: if_splits sum.splits)
    note k = cancel_keeps [OF c]
    show ?thesis
    proof (rule submitted [OF Inr _ _ _ _ _ v])
      show "gs_dirty_files snap \<noteq> [] \<longrightarrow> cq_dirty_policy q = Some (ustr ''preserve'')" using False unfolding dirty_def by blast
      show "last (spec_argv spec) = (if gs_dirty_files snap \<noteq> [] then cq_prompt q @ preserve_instruction else cq_prompt q)"
        by (simp add: spec_def dirty_def)
    qed (use shape k in \<open>auto simp: spec_def\<close>)
  qed
qed

section \<open>Consent and records\<close>


text \<open>
  A record is kept exactly for the job that was made. After a start either the record files are as before, or there is one new record,
  it is the tracked record of the job that the registry now holds under its identifier, and a successful answer carries its snapshot.
\<close>

theorem record_follows_job:
  assumes "codex_start h q a = (r, a')" "job_reachable \<sigma>" "sys_registry \<sigma> = ca_registry a"
    "map_of (reg_records (ca_registry a)) (ch_job_id h) = None"
  shows "ca_files a' = ca_files a \<and> reg_submitted (ca_registry a') = reg_submitted (ca_registry a) \<or>
    (\<exists>rec. ca_files a' = AList.update (record_path (ch_job_id h)) (Some rec) (ca_files a) \<and> cx_job_id rec = ch_job_id h \<and>
       map_of (ca_tracked a') (ch_job_id h) = Some rec \<and> map_of (reg_records (ca_registry a')) (ch_job_id h) \<noteq> None \<and>
       (\<forall>answer. r = Inr answer \<longrightarrow> cj_preflight answer = cx_preflight rec \<and> sn_job_id (cj_job answer) = ch_job_id h))"
  using assms(1)
proof (cases rule: codex_start_submits)
  case (early e)
  then show ?thesis by simp
next
  case (submitted snap v a1 spec)
  have id: "cx_job_id \<lparr>cx_job_id = ch_job_id h, cx_cwd = ch_resolve h (cq_cwd q), cx_preflight = snap\<rparr> = ch_job_id h" by simp
  show ?thesis
    using submitted(7) id assms(2,3,4)
  proof (cases rule: submit_job_cases)
    case (made job)
    then show ?thesis
      using submitted by (intro disjI2 exI [of _ "\<lparr>cx_job_id = ch_job_id h, cx_cwd = ch_resolve h (cq_cwd q), cx_preflight = snap\<rparr>"]) auto
  qed (use submitted in auto)
qed

text \<open>
  A repeated request is not recognized before the working tree is looked at: when the first run has changed files, the same request is refused,
  although its operation has a job.
\<close>

lemma replay_on_dirty_tree_is_refused:
  assumes "cs_callable (read_codex_status (ch_run h) (ch_which h) (ch_here h) (ca_executable a))"
    "capture_git_snapshot (ch_run h) (ch_resolve h) (cq_cwd q) = Inr snap" "gs_dirty_files snap \<noteq> []" "cq_dirty_policy q = None"
  shows "codex_start h q a = (Inl (DirtyWorktreePolicyRequiredError (gs_dirty_files snap)), a)"
  using assms by (simp add: codex_start_def)

section \<open>What counts as dirty\<close>

text \<open>
  Every changed file is reported. An entry of the status, two letters, a blank and a path, contributes its path to the dirty files;
  the list is sorted and has no duplicates, and it is empty exactly when no entry has a blank.
\<close>

theorem changed_files_are_reported:
  "(\<forall>x y path. [x, y, 32] @ path \<in> set entries \<longrightarrow> path \<in> set (dirty_files_of entries)) \<and> sorted (dirty_files_of entries) \<and>
   distinct (dirty_files_of entries) \<and> (dirty_files_of entries = [] \<longleftrightarrow> (\<forall>e \<in> set entries. 32 \<notin> set e))"
proof (intro conjI allI impI)
  fix x y path assume "[x, y, 32] @ path \<in> set entries"
  then have "drop 3 ([x, y, 32] @ path) \<in> drop 3 ` {e \<in> set entries. 32 \<in> set e}" by (intro imageI) simp
  then show "path \<in> set (dirty_files_of entries)" by (simp add: dirty_files_of_def)
next
  have "dirty_files_of entries = [] \<longleftrightarrow> set (dirty_files_of entries) = {}" by simp
  also have "\<dots> \<longleftrightarrow> (\<forall>e \<in> set entries. 32 \<notin> set e)" by (auto simp: dirty_files_of_def)
  finally show "dirty_files_of entries = [] \<longleftrightarrow> (\<forall>e \<in> set entries. 32 \<notin> set e)" .
qed (simp_all add: dirty_files_of_def)

text \<open>The second name of a renamed file has no letters before it: when it has a blank, three of its characters are cut off.\<close>

lemma renamed_file_is_mangled:
  "dirty_files_of (status_entries (ustr ''R  new'' @ [0] @ ustr ''old name'' @ [0])) = [ustr '' name'', ustr ''new'']"
  by code_simp

section \<open>The deadline of a job\<close>

text \<open>A reading that sees the job running, before the deadline.\<close>

definition early_running :: "int \<Rightarrow> job_state option \<times> int \<Rightarrow> bool" where
  "early_running deadline reading \<longleftrightarrow> (\<exists>x. fst reading = Some x \<and> x \<notin> terminal_job_states \<and> snd reading < deadline)"

text \<open>
  The deadline cancels late and once. When the monitor cancels, every reading so far saw the job running, the last one at or after the
  deadline and those before it earlier; it then stops. It never cancels a job that it has seen ended, and it does not go on past a
  reading that is terminal, fails or is late.
\<close>

theorem deadline_cancels_late_running_job:
  "(watch_job deadline obs = WatchCancelled t \<longleftrightarrow>
     (\<exists>before st rest. obs = before @ (Some st, t) # rest \<and> st \<notin> terminal_job_states \<and> deadline \<le> t \<and>
        list_all (early_running deadline) before)) \<and>
   (watch_job deadline obs = WatchGoesOn \<longleftrightarrow> list_all (early_running deadline) obs)"
proof (induction obs)
  case (Cons ob obs)
  obtain seen now where o: "ob = (seen, now)" by fastforce
  show ?case
  proof (cases "early_running deadline ob")
    case True
    then have w: "watch_job deadline (ob # obs) = watch_job deadline obs" by (auto simp: o early_running_def)
    have "(\<exists>before st rest. ob # obs = before @ (Some st, t) # rest \<and> st \<notin> terminal_job_states \<and> deadline \<le> t \<and>
        list_all (early_running deadline) before) \<longleftrightarrow>
      (\<exists>before st rest. obs = before @ (Some st, t) # rest \<and> st \<notin> terminal_job_states \<and> deadline \<le> t \<and>
        list_all (early_running deadline) before)" (is "?L \<longleftrightarrow> ?R")
    proof
      assume ?L
      then obtain before st rest where b: "ob # obs = before @ (Some st, t) # rest" "st \<notin> terminal_job_states" "deadline \<le> t"
        "list_all (early_running deadline) before" by blast
      then have "before \<noteq> []" using True by (auto simp: early_running_def)
      then show ?R using b by (cases before) auto
    next
      assume ?R
      then obtain before st rest where b: "obs = before @ (Some st, t) # rest" "st \<notin> terminal_job_states" "deadline \<le> t"
        "list_all (early_running deadline) before" by blast
      then show ?L using True by (intro exI [of _ "ob # before"] exI [of _ st] exI [of _ rest]) simp
    qed
    then show ?thesis unfolding w using Cons.IH True by simp
  next
    case False
    then have one: "list_all (early_running deadline) before \<longleftrightarrow> before = []" if "ob # obs = before @ x # rest" for before x rest
      using that by (cases before) auto
    have "watch_job deadline (ob # obs) = WatchCancelled t \<longleftrightarrow> (\<exists>st. ob = (Some st, t) \<and> st \<notin> terminal_job_states \<and> deadline \<le> t)"
      using False by (auto simp: o early_running_def split: option.splits)
    moreover have "(\<exists>before st rest. ob # obs = before @ (Some st, t) # rest \<and> st \<notin> terminal_job_states \<and> deadline \<le> t \<and>
        list_all (early_running deadline) before) \<longleftrightarrow> (\<exists>st. ob = (Some st, t) \<and> st \<notin> terminal_job_states \<and> deadline \<le> t)"
      using one by fastforce
    moreover have "watch_job deadline (ob # obs) \<noteq> WatchGoesOn"
      using False by (auto simp: o early_running_def split: option.splits)
    ultimately show ?thesis using False by simp
  qed
qed simp

section \<open>A concrete repository\<close>

definition sample_run :: command_runner where
  "sample_run argv cwd =
     \<lparr>cr_exit = 0,
      cr_stdout = (if argv = [ustr ''c'', ustr ''--help''] then ustr ''exec''
                   else if ustr ''-z'' \<in> set argv then ustr ''?? x'' @ [0] else []),
      cr_stderr = []\<rparr>"

definition sample_codex_host :: codex_host where
  "sample_codex_host =
     \<lparr>ch_run = sample_run, ch_which = Some, ch_here = [], ch_resolve = id, ch_uuid_of = (\<lambda>_. None), ch_write_fails = False,
      ch_arm_fails = False, ch_job_id = 3, ch_event = 4, ch_now = 40\<rparr>"

definition sample_codex_request :: codex_request where
  "sample_codex_request =
     \<lparr>cq_operation_id = 5, cq_prompt = [97], cq_cwd = [98], cq_model = None, cq_effort = None, cq_dirty_policy = Some (ustr ''preserve''),
      cq_timeout_s = 900\<rparr>"

definition sample_adapter :: codex_adapter where
  "sample_adapter = \<lparr>ca_executable = ustr ''c'', ca_registry = sample_registry, ca_files = [], ca_tracked = [], ca_armed = []\<rparr>"

lemma sample_snapshot: "\<exists>snap. capture_git_snapshot sample_run id [98] = Inr snap \<and> gs_dirty_files snap = [ustr ''x'']"
  by (simp add: capture_git_snapshot_def sample_run_def status_entries_def dirty_files_of_def first_line_def Let_def)

lemma sample_callable: "cs_callable (read_codex_status sample_run Some [] (ustr ''c''))"
  by (simp add: read_codex_status_def sample_run_def has_token_def py_words.simps py_space_def strip_marks_def Let_def)

definition sample_codex_spec :: job_spec where
  "sample_codex_spec = \<lparr>spec_operation_id = 5, spec_kind = CODEX, spec_argv = [ustr ''c'', ustr ''exec'', [97] @ preserve_instruction], spec_cwd = [98]\<rparr>"

lemma sample_codex_prefix:
  "command_prefix sample_codex_host (ustr ''c'') st sample_codex_request = [ustr ''c'', ustr ''exec'']"
  by (simp add: command_prefix_def sample_codex_host_def sample_codex_request_def sample_run_def has_option_def py_words.simps)

lemma sample_codex_digest: "\<exists>d. job_request_digest sample_codex_spec sample_limits = Inr d"
proof -
  have "\<exists>b. canonicalize_payload (job_request_payload sample_codex_spec sample_limits) = Inr b"
    by (simp add: canonicalize_payload_def job_request_payload_def sample_codex_spec_def sample_limits_def preserve_instruction_def
        dump_str_def escape_char_def utf8_char_def dec_int_def dec_nat.simps)
  then show ?thesis by (auto simp: job_request_digest_def)
qed

lemma sample_codex_start:
  obtains d reg' where "start 40 3 sample_codex_spec (Some 3) sample_registry = (Inr (queued_snapshot 3 sample_codex_spec d 40), reg')"
    "reg_submitted reg' = [(3, sample_codex_spec)]"
proof -
  obtain d where d: "job_request_digest sample_codex_spec sample_limits = Inr d" using sample_codex_digest by blast
  then obtain b where "d = payload_digest b" by (auto simp: job_request_digest_def bindR_eq_Inr mapErr_def split: sum.splits)
  then have "sha256_digest_ok d" by (simp add: payload_digest_ok)
  then have mk: "make_snapshot (queued_snapshot 3 sample_codex_spec d 40) = Inr (queued_snapshot 3 sample_codex_spec d 40)"
    by (simp add: make_snapshot_def snapshot_fields_ok_def ensure_valid_timeline_and_state_def queued_snapshot_def)
  have sp: "spec_ok sample_codex_spec" "spec_operation_id sample_codex_spec = 5"
    by (simp_all add: spec_ok_def sample_codex_spec_def preserve_instruction_def)
  have "\<exists>reg'. start 40 3 sample_codex_spec (Some 3) sample_registry = (Inr (queued_snapshot 3 sample_codex_spec d 40), reg') \<and>
      reg_submitted reg' = [(3, sample_codex_spec)]"
    using d mk sp by (simp add: start_def sample_registry_def)
  then show ?thesis using that by blast
qed

lemma sample_submission:
  obtains r a' where "codex_start sample_codex_host sample_codex_request sample_adapter = (r, a')"
    "reg_submitted (ca_registry a') = [(3, sample_codex_spec)]"
proof -
  obtain d reg' where st: "start 40 3 sample_codex_spec (Some 3) sample_registry = (Inr (queued_snapshot 3 sample_codex_spec d 40), reg')"
    "reg_submitted reg' = [(3, sample_codex_spec)]" by (rule sample_codex_start)
  obtain snap where snap: "capture_git_snapshot sample_run id [98] = Inr snap" "gs_dirty_files snap = [ustr ''x'']"
    using sample_snapshot by blast
  obtain r a' where run: "codex_start sample_codex_host sample_codex_request sample_adapter = (r, a')" by fastforce
  have fields: "ch_run sample_codex_host = sample_run" "ch_which sample_codex_host = Some" "ch_here sample_codex_host = []"
    "ch_resolve sample_codex_host = id" "cq_cwd sample_codex_request = [98]" "cq_dirty_policy sample_codex_request = Some (ustr ''preserve'')"
    "ca_executable sample_adapter = ustr ''c''" "cq_prompt sample_codex_request = [97]" "cq_operation_id sample_codex_request = 5"
    "ch_job_id sample_codex_host = 3" "ch_arm_fails sample_codex_host = False" "ch_write_fails sample_codex_host = False"
    "ch_now sample_codex_host = 40" "ca_files sample_adapter = []" "ca_registry sample_adapter = sample_registry"
    by (simp_all add: sample_codex_host_def sample_codex_request_def sample_adapter_def)
  have spec: "\<lparr>spec_operation_id = 5, spec_kind = CODEX, spec_argv = [ustr ''c'', ustr ''exec''] @ [[97] @ preserve_instruction], spec_cwd = [98]\<rparr> = sample_codex_spec"
    by (simp add: sample_codex_spec_def)
  have "reg_submitted (ca_registry a') = [(3, sample_codex_spec)]"
    using run st snap sample_callable spec
    by (auto simp: codex_start_def Let_def fields sample_codex_prefix submit_job_def write_record_def queued_snapshot_def simp del: ustr_simps
        split: if_splits)
  then show ?thesis using run that by blast
qed


lemma record_follows_job_witness:
  "\<exists>rec. ca_files (snd (codex_start sample_codex_host sample_codex_request sample_adapter)) = [(record_path 3, Some rec)] \<and> cx_job_id rec = 3"
proof -
  obtain r a' where run: "codex_start sample_codex_host sample_codex_request sample_adapter = (r, a')"
    "reg_submitted (ca_registry a') = [(3, sample_codex_spec)]" by (rule sample_submission)
  have "sys_registry sample_system = ca_registry sample_adapter" "map_of (reg_records (ca_registry sample_adapter)) (ch_job_id sample_codex_host) = None"
    by (simp_all add: sample_system_def sample_adapter_def sample_registry_def sample_codex_host_def)
  from record_follows_job [OF run(1) sample_reachable this] run
  show ?thesis by (auto simp: sample_adapter_def sample_registry_def sample_codex_host_def)
qed

lemma changed_files_are_reported_witness: "ustr ''a b'' \<in> set (dirty_files_of [ustr '' M a b''])"
proof -
  have "[32, 77, 32] @ ustr ''a b'' \<in> set [ustr '' M a b'']" by simp
  then show ?thesis using changed_files_are_reported [of "[ustr '' M a b'']"] by blast
qed

end
