(* ===== verification/Tool_Inputs.thy ===== *)
theory Tool_Inputs
  imports Status_Tool Desktop_Input Browser_Safety Job_Dispatch Worker_Operations
begin

text \<open>
  The inputs of the tools (\<open>tools/*.py\<close>) on both sides of the pipe: the gateway reads the arguments of a call with the closed model of
  the tool and sends a payload built from it; the worker's router (\<open>worker/adapter_router.py\<close>) reads the payload again. What
  the schema library converts is an argument. The lemmas show that the worker reads the input the gateway accepted, and that
  what it acts upon is in bounds.
\<close>

section \<open>The schema library\<close>

text \<open>
  Lax conversions of numbers, truth values and identifiers; the constructor \<open>UUID\<close> of a text; the text of the path a text names;
  \<open>casefold\<close>; the library's addresses.
\<close>

record schema_host =
  sh_int :: "json \<Rightarrow> int option"
  sh_bool :: "json \<Rightarrow> bool option"
  sh_uuid :: "json \<Rightarrow> uuid option"
  sh_py_uuid :: "pystr \<Rightarrow> uuid option"
  sh_path :: "pystr \<Rightarrow> pystr"
  sh_casefold :: "pystr \<Rightarrow> pystr"
  sh_urls :: url_host

text \<open>A refused input, and the \<open>TypeError\<close> of \<open>Path(value)\<close>, which the library does not turn into a refusal.\<close>

datatype schema_error = InputRefused | InputTypeError

definition need :: "string \<Rightarrow> (json \<Rightarrow> 'a option) \<Rightarrow> (pystr \<times> json) list \<Rightarrow> 'a option" where
  "need name conv kvs = (case key_value kvs name of None \<Rightarrow> None | Some v \<Rightarrow> conv v)"

definition given :: "string \<Rightarrow> (json \<Rightarrow> 'a option) \<Rightarrow> 'a \<Rightarrow> (pystr \<times> json) list \<Rightarrow> 'a option" where
  "given name conv d kvs = (case key_value kvs name of None \<Rightarrow> Some d | Some v \<Rightarrow> conv v)"

definition nullable :: "(json \<Rightarrow> 'a option) \<Rightarrow> json \<Rightarrow> 'a option option" where
  "nullable conv v = (if v = JNull then Some None else map_option Some (conv v))"

definition checked :: "('a \<Rightarrow> bool) \<Rightarrow> (json \<Rightarrow> 'a option) \<Rightarrow> json \<Rightarrow> 'a option" where
  "checked ok conv v = (case conv v of None \<Rightarrow> None | Some x \<Rightarrow> if ok x then Some x else None)"

definition no_nul :: "pystr \<Rightarrow> bool" where "no_nul s \<longleftrightarrow> 0 \<notin> set s"

definition in_range :: "int \<Rightarrow> int \<Rightarrow> int \<Rightarrow> bool" where "in_range lo hi n \<longleftrightarrow> lo \<le> n \<and> n \<le> hi"

fun strict_int :: "json \<Rightarrow> int option" where
  "strict_int (JInt n) = Some n"
| "strict_int _ = None"

fun any_text :: "json \<Rightarrow> pystr option" where
  "any_text (JStr s) = Some s"
| "any_text _ = None"

definition literal :: "(string \<times> 'a) list \<Rightarrow> json \<Rightarrow> 'a option" where
  "literal table v = (case v of JStr s \<Rightarrow> map_of (map (\<lambda>(t, x). (ustr t, x)) table) s | _ \<Rightarrow> None)"

definition text_among :: "string list \<Rightarrow> json \<Rightarrow> pystr option" where
  "text_among texts = checked (\<lambda>s. s \<in> ustr ` set texts) any_text"

definition text_list :: "nat \<Rightarrow> nat \<Rightarrow> json \<Rightarrow> pystr list option" where
  "text_list lo hi v = (case v of
     JList vs \<Rightarrow> (case strings_of vs of None \<Rightarrow> None | Some ts \<Rightarrow> if lo \<le> length ts \<and> length ts \<le> hi then Some ts else None)
   | _ \<Rightarrow> None)"

definition path_of :: "schema_host \<Rightarrow> json \<Rightarrow> pystr option" where
  "path_of h v = map_option (sh_path h) (any_text v)"

section \<open>The inputs\<close>

record uia_selector =
  us_title :: "pystr option"
  us_title_contains :: "pystr option"
  us_automation_id :: "pystr option"
  us_control_type :: "pystr option"
  us_class_name :: "pystr option"
  us_window_title_contains :: "pystr option"

datatype uia_action = UiaInvoke | UiaSetText | UiaFocus | UiaSelect

datatype tool_input =
    NoInput
  | ShellRunInput pystr pystr shell_kind int
  | ListInput pystr
  | ReadInput pystr int "int option" pystr
  | WriteInput pystr "pystr option" "pystr option"
  | MoveInput pystr pystr
  | DeleteInput pystr bool
  | MkdirInput pystr bool
  | ProcessStartInput "pystr list" "pystr option" bool
  | ProcessKillInput int
  | AppOpenInput pystr "pystr list" "pystr option"
  | ComputerObserveInput bool "int option" bool int
  | ComputerInput input_guard desktop_mutation
  | UiaFindInput uia_selector int
  | UiaActionInput uia_selector uia_action "pystr option"
  | BrowserOpenInput pystr
  | BrowserSelectorInput pystr
  | BrowserTypeInput pystr pystr
  | CodexRunInput pystr pystr "pystr option" "pystr option" "pystr option" int
  | JobStartInput job_kind "pystr list" pystr
  | JobIdInput uuid
  | JobOutputInput uuid job_stream int int
  | PowerInput int pystr

definition shell_table :: "(string \<times> shell_kind) list" where
  "shell_table = [(''powershell'', POWERSHELL), (''cmd'', CMD), (''git-bash'', GIT_BASH)]"

definition read_shell_run :: "schema_host \<Rightarrow> (pystr \<times> json) list \<Rightarrow> tool_input option" where
  "read_shell_run h kvs =
     (case (need ''command'' (checked no_nul (bounded_text 1 32767)) kvs, need ''cwd'' (path_of h) kvs,
            given ''shell'' (literal shell_table) POWERSHELL kvs, given ''timeout_s'' (checked (in_range 1 110) (sh_int h)) 60 kvs) of
        (Some c, Some d, Some s, Some t) \<Rightarrow> Some (ShellRunInput c d s t)
      | _ \<Rightarrow> None)"

definition read_list :: "schema_host \<Rightarrow> (pystr \<times> json) list \<Rightarrow> tool_input option" where
  "read_list h kvs = map_option ListInput (need ''path'' (path_of h) kvs)"

definition read_read :: "schema_host \<Rightarrow> (pystr \<times> json) list \<Rightarrow> tool_input option" where
  "read_read h kvs =
     (case (need ''path'' (path_of h) kvs, given ''offset'' (checked (\<lambda>n. 0 \<le> n) strict_int) 0 kvs,
            given ''length'' (nullable (checked (\<lambda>n. 0 \<le> n) strict_int)) None kvs,
            given ''encoding'' (text_among [''utf-8'', ''base64'']) (ustr ''utf-8'') kvs) of
        (Some p, Some offset, Some len, Some enc) \<Rightarrow> Some (ReadInput p offset len enc)
      | _ \<Rightarrow> None)"

definition read_write :: "schema_host \<Rightarrow> (pystr \<times> json) list \<Rightarrow> tool_input option" where
  "read_write h kvs =
     (case (need ''path'' (path_of h) kvs, given ''text'' (nullable any_text) None kvs, given ''base64_data'' (nullable any_text) None kvs) of
        (Some p, Some t, Some d) \<Rightarrow> if (t = None) = (d = None) then None else Some (WriteInput p t d)
      | _ \<Rightarrow> None)"

definition read_move :: "schema_host \<Rightarrow> (pystr \<times> json) list \<Rightarrow> tool_input option" where
  "read_move h kvs =
     (case (need ''source'' (path_of h) kvs, need ''destination'' (path_of h) kvs) of
        (Some p, Some q) \<Rightarrow> Some (MoveInput p q)
      | _ \<Rightarrow> None)"

definition read_flagged :: "schema_host \<Rightarrow> string \<Rightarrow> (pystr \<Rightarrow> bool \<Rightarrow> tool_input) \<Rightarrow> (pystr \<times> json) list \<Rightarrow> tool_input option" where
  "read_flagged h flag mk kvs =
     (case (need ''path'' (path_of h) kvs, given flag strict_bool False kvs) of
        (Some p, Some b) \<Rightarrow> Some (mk p b)
      | _ \<Rightarrow> None)"

definition good_argument :: "pystr \<Rightarrow> bool" where "good_argument a \<longleftrightarrow> a \<noteq> [] \<and> no_nul a"

definition read_process_start :: "schema_host \<Rightarrow> (pystr \<times> json) list \<Rightarrow> tool_input option" where
  "read_process_start h kvs =
     (case (need ''argv'' (checked (list_all good_argument) (text_list 1 256)) kvs, given ''cwd'' (nullable (path_of h)) None kvs,
            given ''lifecycle_managed'' (sh_bool h) True kvs) of
        (Some a, Some d, Some m) \<Rightarrow> Some (ProcessStartInput a d m)
      | _ \<Rightarrow> None)"

definition read_process_kill :: "schema_host \<Rightarrow> (pystr \<times> json) list \<Rightarrow> tool_input option" where
  "read_process_kill h kvs = map_option ProcessKillInput (need ''pid'' (checked (\<lambda>n. 0 < n) (sh_int h)) kvs)"

definition read_app_open :: "schema_host \<Rightarrow> (pystr \<times> json) list \<Rightarrow> tool_input option" where
  "read_app_open h kvs =
     (case (need ''target'' (checked no_nul (bounded_text 1 32767)) kvs,
            given ''arguments'' (checked (list_all no_nul) (text_list 0 255)) [] kvs, given ''cwd'' (nullable (path_of h)) None kvs) of
        (Some t, Some a, Some d) \<Rightarrow> Some (AppOpenInput t a d)
      | _ \<Rightarrow> None)"

definition read_observe :: "schema_host \<Rightarrow> (pystr \<times> json) list \<Rightarrow> tool_input option" where
  "read_observe h kvs =
     (case (given ''screenshot'' (sh_bool h) True kvs, given ''monitor'' (nullable (checked (\<lambda>n. 1 \<le> n) (sh_int h))) None kvs,
            given ''uia'' (sh_bool h) False kvs, given ''max_controls'' (checked (in_range 1 500) (sh_int h)) 150 kvs) of
        (Some s, Some m, Some u, Some n) \<Rightarrow> Some (ComputerObserveInput s m u n)
      | _ \<Rightarrow> None)"

subsection \<open>Desktop input\<close>

definition hex_token :: "pystr \<Rightarrow> bool" where
  "hex_token s \<longleftrightarrow> length s = 16 \<and> list_all (\<lambda>c. 48 \<le> c \<and> c \<le> 57 \<or> 97 \<le> c \<and> c \<le> 102) s"

definition read_guard :: "(pystr \<times> json) list \<Rightarrow> input_guard option" where
  "read_guard kvs =
     (case (given ''expected_process'' (nullable_text 1 260) None kvs,
            given ''expected_window_title_contains'' (nullable_text 1 512) None kvs,
            given ''state_token'' (nullable (checked hex_token any_text)) None kvs) of
        (Some p, Some t, Some k) \<Rightarrow> Some \<lparr>ig_process = p, ig_title_contains = t, ig_state_token = k\<rparr>
      | _ \<Rightarrow> None)"

definition space_table :: "(string \<times> coordinate_space) list" where
  "space_table = [(''physical'', Physical), (''observation'', Observation)]"

definition button_table :: "(string \<times> mouse_button) list" where
  "button_table = [(''left'', LeftButton), (''middle'', MiddleButton), (''right'', RightButton)]"

text \<open>The coordinates, with the validator that an observation needs its token.\<close>

definition read_point :: "input_guard \<Rightarrow> (pystr \<times> json) list \<Rightarrow> input_point option" where
  "read_point g kvs =
     (case (need ''x'' (checked (in_range (-100000) 100000) strict_int) kvs, need ''y'' (checked (in_range (-100000) 100000) strict_int) kvs,
            given ''coordinate_space'' (literal space_table) Physical kvs) of
        (Some x, Some y, Some s) \<Rightarrow>
          if s = Observation \<and> (x < 0 \<or> y < 0 \<or> ig_state_token g = None) then None
          else Some \<lparr>ip_x = x, ip_y = y, ip_space = s\<rparr>
      | _ \<Rightarrow> None)"

definition supported_key :: "pystr \<Rightarrow> bool" where "supported_key k \<longleftrightarrow> k \<in> fst ` set key_codes"

definition read_click :: "input_guard \<Rightarrow> (pystr \<times> json) list \<Rightarrow> desktop_mutation option" where
  "read_click g kvs =
     (case (read_point g kvs, given ''button'' (literal button_table) LeftButton kvs,
            given ''clicks'' (checked (in_range 1 3) strict_int) 1 kvs) of
        (Some p, Some b, Some n) \<Rightarrow> Some (ClickPointer p b (nat n))
      | _ \<Rightarrow> None)"

definition read_scroll :: "(pystr \<times> json) list \<Rightarrow> desktop_mutation option" where
  "read_scroll kvs =
     (case (given ''delta_x'' (checked (in_range (-12000) 12000) strict_int) 0 kvs,
            given ''delta_y'' (checked (in_range (-12000) 12000) strict_int) 0 kvs) of
        (Some x, Some y) \<Rightarrow> if x = 0 \<and> y = 0 then None else Some (ScrollWheel x y)
      | _ \<Rightarrow> None)"

definition read_hotkey :: "schema_host \<Rightarrow> (pystr \<times> json) list \<Rightarrow> desktop_mutation option" where
  "read_hotkey h kvs =
     (case need ''keys'' (text_list 2 4) kvs of
        None \<Rightarrow> None
      | Some ks \<Rightarrow>
          (let normalized = map (sh_casefold h) ks
           in if distinct normalized \<and> list_all supported_key normalized then Some (Hotkey normalized) else None))"

definition read_key :: "schema_host \<Rightarrow> (pystr \<times> json) list \<Rightarrow> desktop_mutation option" where
  "read_key h kvs =
     (case (need ''key'' (bounded_text 1 16) kvs, given ''presses'' (checked (in_range 1 20) strict_int) 1 kvs) of
        (Some k, Some n) \<Rightarrow> if supported_key (sh_casefold h k) then Some (PressKey (sh_casefold h k) (nat n)) else None
      | _ \<Rightarrow> None)"

definition read_computer :: "schema_host \<Rightarrow> string \<Rightarrow> (pystr \<times> json) list \<Rightarrow> tool_input option" where
  "read_computer h name kvs =
     Option.bind (read_guard kvs) (\<lambda>g. map_option (ComputerInput g)
       (if name = ''computer_click'' then read_click g kvs
        else if name = ''computer_move'' then map_option MovePointer (read_point g kvs)
        else if name = ''computer_scroll'' then read_scroll kvs
        else if name = ''computer_type'' then map_option TypeText (need ''text'' (bounded_text 1 10000) kvs)
        else if name = ''computer_hotkey'' then read_hotkey h kvs
        else read_key h kvs))"

subsection \<open>The rest\<close>

definition selector_names :: "string list" where
  "selector_names = [''title'', ''title_contains'', ''automation_id'', ''control_type'', ''class_name'', ''window_title_contains'']"

definition read_selector :: "json \<Rightarrow> uia_selector option" where
  "read_selector v = (case v of
     JObj kvs \<Rightarrow>
       (if \<not> only_keys selector_names kvs then None
        else case (given ''title'' (nullable_text 1 512) None kvs, given ''title_contains'' (nullable_text 1 512) None kvs,
                   given ''automation_id'' (nullable_text 1 260) None kvs, given ''control_type'' (nullable_text 1 128) None kvs,
                   given ''class_name'' (nullable_text 1 260) None kvs, given ''window_title_contains'' (nullable_text 1 512) None kvs) of
          (Some a, Some b, Some c, Some d, Some e, Some f) \<Rightarrow>
            if [a, b, c, d, e, f] = replicate 6 None then None
            else Some \<lparr>us_title = a, us_title_contains = b, us_automation_id = c, us_control_type = d, us_class_name = e,
              us_window_title_contains = f\<rparr>
        | _ \<Rightarrow> None)
   | _ \<Rightarrow> None)"

definition action_table :: "(string \<times> uia_action) list" where
  "action_table = [(''invoke'', UiaInvoke), (''set_text'', UiaSetText), (''focus'', UiaFocus), (''select'', UiaSelect)]"

definition read_uia_find :: "(pystr \<times> json) list \<Rightarrow> tool_input option" where
  "read_uia_find kvs =
     (case (need ''selector'' read_selector kvs, given ''max_results'' (checked (in_range 1 50) strict_int) 20 kvs) of
        (Some s, Some n) \<Rightarrow> Some (UiaFindInput s n)
      | _ \<Rightarrow> None)"

definition read_uia_action :: "(pystr \<times> json) list \<Rightarrow> tool_input option" where
  "read_uia_action kvs =
     (case (need ''selector'' read_selector kvs, need ''action'' (literal action_table) kvs, given ''text'' (nullable_text 1 10000) None kvs) of
        (Some s, Some a, Some t) \<Rightarrow>
          if us_window_title_contains s = None \<or> (a = UiaSetText) \<noteq> (t \<noteq> None) then None else Some (UiaActionInput s a t)
      | _ \<Rightarrow> None)"

definition navigable :: "schema_host \<Rightarrow> pystr \<Rightarrow> bool" where
  "navigable h url \<longleftrightarrow> no_nul url \<and>
     (case url_split (sh_urls h) url of
        None \<Rightarrow> False
      | Some (scheme, _, _) \<Rightarrow> sh_casefold h scheme \<in> ustr ` {''about'', ''http'', ''https''})"

definition read_browser_open :: "schema_host \<Rightarrow> (pystr \<times> json) list \<Rightarrow> tool_input option" where
  "read_browser_open h kvs = map_option BrowserOpenInput (given ''url'' (checked (navigable h) (bounded_text 1 8192)) (ustr ''about:blank'') kvs)"

definition read_browser_selector :: "(pystr \<times> json) list \<Rightarrow> tool_input option" where
  "read_browser_selector kvs = map_option BrowserSelectorInput (need ''selector'' (checked no_nul (bounded_text 1 4096)) kvs)"

definition read_browser_type :: "(pystr \<times> json) list \<Rightarrow> tool_input option" where
  "read_browser_type kvs =
     (case (need ''selector'' (checked no_nul (bounded_text 1 4096)) kvs, need ''text'' (checked no_nul (bounded_text 0 65536)) kvs) of
        (Some s, Some t) \<Rightarrow> Some (BrowserTypeInput s t)
      | _ \<Rightarrow> None)"

definition effort_levels :: "string list" where
  "effort_levels = [''low'', ''medium'', ''high'', ''xhigh'', ''max'', ''ultra'']"

definition read_codex_run :: "schema_host \<Rightarrow> (pystr \<times> json) list \<Rightarrow> tool_input option" where
  "read_codex_run h kvs =
     (case (need ''prompt'' (checked no_nul (bounded_text 1 32767)) kvs, need ''cwd'' (path_of h) kvs,
            given ''model'' (nullable (checked no_nul (bounded_text 1 256))) None kvs, given ''effort'' (nullable (text_among effort_levels)) None kvs,
            given ''dirty_policy'' (nullable (text_among [''preserve''])) None kvs,
            given ''timeout_s'' (checked (in_range 1 86400) (sh_int h)) 900 kvs) of
        (Some p, Some d, Some m, Some e, Some y, Some t) \<Rightarrow> Some (CodexRunInput p d m e y t)
      | _ \<Rightarrow> None)"

definition read_job_start :: "schema_host \<Rightarrow> (pystr \<times> json) list \<Rightarrow> tool_input option" where
  "read_job_start h kvs =
     (case (given ''kind'' kind_of PROCESS kvs, need ''argv'' (checked (list_all good_argument) (text_list 1 256)) kvs, need ''cwd'' (path_of h) kvs) of
        (Some k, Some a, Some d) \<Rightarrow> Some (JobStartInput k a d)
      | _ \<Rightarrow> None)"

definition read_job_output :: "schema_host \<Rightarrow> (pystr \<times> json) list \<Rightarrow> tool_input option" where
  "read_job_output h kvs =
     (case (need ''job_id'' (sh_uuid h) kvs, given ''stream'' stream_of Stdout kvs, given ''offset'' (checked (\<lambda>n. 0 \<le> n) (sh_int h)) 0 kvs,
            given ''limit'' (checked (in_range 1 max_job_output_chunk_bytes) (sh_int h)) max_job_output_chunk_bytes kvs) of
        (Some j, Some s, Some offset, Some limit) \<Rightarrow> Some (JobOutputInput j s offset limit)
      | _ \<Rightarrow> None)"

definition read_power :: "schema_host \<Rightarrow> (pystr \<times> json) list \<Rightarrow> tool_input option" where
  "read_power h kvs =
     (case (given ''delay_seconds'' (checked (in_range 0 300) (sh_int h)) 0 kvs, need ''reason'' (bounded_text 1 200) kvs) of
        (Some d, Some r) \<Rightarrow> Some (PowerInput d r)
      | _ \<Rightarrow> None)"

subsection \<open>The models\<close>

text \<open>
  A model: its fields besides the identifiers, those that pass through \<open>Path(value)\<close>, and its reader. The tools of one kind share a
  model.
\<close>

definition computer_fields :: "string list" where
  "computer_fields = [''expected_process'', ''expected_window_title_contains'', ''state_token'']"

definition path_fields :: "string \<Rightarrow> string list" where
  "path_fields name =
     (if name \<in> {''fs_list'', ''fs_stat'', ''fs_read'', ''fs_write'', ''fs_delete'', ''fs_mkdir''} then [''path'']
      else if name \<in> {''fs_move'', ''fs_copy''} then [''source'', ''destination''] else [])"

definition input_models :: "schema_host \<Rightarrow> (string \<times> string list \<times> ((pystr \<times> json) list \<Rightarrow> tool_input option)) list" where
  "input_models h =
     (let nothing = (\<lambda>_. Some NoInput); computer = (\<lambda>n fs. (n, computer_fields @ fs, read_computer h n)) in
     [(''status'', [], nothing),
      (''shell_run'', [''command'', ''cwd'', ''shell'', ''timeout_s''], read_shell_run h),
      (''fs_list'', [''path''], read_list h),
      (''fs_stat'', [''path'', ''offset'', ''length'', ''encoding''], read_read h),
      (''fs_read'', [''path'', ''offset'', ''length'', ''encoding''], read_read h),
      (''fs_write'', [''path'', ''text'', ''base64_data''], read_write h),
      (''fs_move'', [''source'', ''destination''], read_move h),
      (''fs_copy'', [''source'', ''destination''], read_move h),
      (''fs_delete'', [''path'', ''recursive''], read_flagged h ''recursive'' DeleteInput),
      (''fs_mkdir'', [''path'', ''parents''], read_flagged h ''parents'' MkdirInput),
      (''process_list'', [], nothing),
      (''process_start'', [''argv'', ''cwd'', ''lifecycle_managed''], read_process_start h),
      (''process_kill'', [''pid''], read_process_kill h),
      (''app_open'', [''target'', ''arguments'', ''cwd''], read_app_open h),
      (''computer_observe'', [''screenshot'', ''monitor'', ''uia'', ''max_controls''], read_observe h),
      computer ''computer_click'' [''x'', ''y'', ''coordinate_space'', ''button'', ''clicks''],
      computer ''computer_move'' [''x'', ''y'', ''coordinate_space''],
      computer ''computer_scroll'' [''delta_x'', ''delta_y''],
      computer ''computer_type'' [''text''],
      computer ''computer_hotkey'' [''keys''],
      computer ''computer_key'' [''key'', ''presses''],
      (''uia_find'', [''selector'', ''max_results''], read_uia_find),
      (''uia_action'', [''selector'', ''action'', ''text''], read_uia_action),
      (''browser_status'', [], nothing),
      (''browser_open'', [''url''], read_browser_open h),
      (''browser_navigate'', [''url''], read_browser_open h),
      (''browser_snapshot'', [], nothing),
      (''browser_click'', [''selector''], read_browser_selector),
      (''browser_type'', [''selector'', ''text''], read_browser_type),
      (''browser_extract'', [''selector''], read_browser_selector),
      (''browser_close'', [], nothing),
      (''codex_status'', [], nothing),
      (''codex_run'', [''prompt'', ''cwd'', ''model'', ''effort'', ''dirty_policy'', ''timeout_s''], read_codex_run h),
      (''job_start'', [''kind'', ''argv'', ''cwd''], read_job_start h),
      (''job_status'', [''job_id''], \<lambda>kvs. map_option JobIdInput (need ''job_id'' (sh_uuid h) kvs)),
      (''job_output'', [''job_id'', ''stream'', ''offset'', ''limit''], read_job_output h),
      (''job_cancel'', [''job_id''], \<lambda>kvs. map_option JobIdInput (need ''job_id'' (sh_uuid h) kvs)),
      (''system_lock'', [], nothing),
      (''system_reboot'', [''delay_seconds'', ''reason''], read_power h),
      (''system_shutdown'', [''delay_seconds'', ''reason''], read_power h),
      (''system_sleep'', [], nothing)])"

text \<open>
  How a model takes the identifier of the operation: not at all, by the lax conversion, by the constructor from a text, or, in a strict
  model, only as an object, which no JSON value is; and whether it may be missing.
\<close>

datatype id_rule = WithoutId | LaxId bool | ConvertedId bool | StrictId

definition read_id :: "schema_host \<Rightarrow> id_rule \<Rightarrow> (pystr \<times> json) list \<Rightarrow> uuid option option" where
  "read_id h rule kvs =
     (case (rule, key_value kvs ''operation_id'') of
        (WithoutId, _) \<Rightarrow> Some None
      | (LaxId optional, None) \<Rightarrow> if optional then Some None else None
      | (LaxId _, Some v) \<Rightarrow> map_option Some (sh_uuid h v)
      | (ConvertedId optional, None) \<Rightarrow> if optional then Some None else None
      | (ConvertedId _, Some v) \<Rightarrow> (case v of JStr s \<Rightarrow> map_option Some (sh_py_uuid h s) | _ \<Rightarrow> None)
      | (StrictId, None) \<Rightarrow> Some None
      | (StrictId, Some _) \<Rightarrow> None)"

record tool_request =
  tr_operation :: "uuid option"
  tr_approval :: "uuid option"
  tr_input :: tool_input

definition has_approval :: "string \<Rightarrow> bool" where
  "has_approval name \<longleftrightarrow> name \<in> {''job_start'', ''system_reboot'', ''system_shutdown''}"

text \<open>\<open>model_validate\<close>. A field that is not declared is refused.\<close>

definition read_model :: "schema_host \<Rightarrow> id_rule \<Rightarrow> string \<Rightarrow> (pystr \<times> json) list \<Rightarrow> schema_error + tool_request" where
  "read_model h rule name kvs =
     (case map_of (input_models h) name of
        None \<Rightarrow> Inl InputRefused
      | Some (names, reader) \<Rightarrow>
          if list_ex (\<lambda>f. case key_value kvs f of None \<Rightarrow> False | Some v \<Rightarrow> any_text v = None) (path_fields name) then Inl InputTypeError
          else (case (read_id h rule kvs,
                      if has_approval name then given ''approval_id'' (nullable (sh_uuid h)) None kvs else Some None, reader kvs) of
                  (Some op, Some approval, Some inp) \<Rightarrow>
                    if only_keys (names @ (if rule = WithoutId then [] else [''operation_id'']) @
                         (if has_approval name then [''approval_id''] else [])) kvs
                    then Inr \<lparr>tr_operation = op, tr_approval = approval, tr_input = inp\<rparr> else Inl InputRefused
                | _ \<Rightarrow> Inl InputRefused))"

section \<open>The two sides\<close>

definition gateway_rule :: "string \<Rightarrow> id_rule" where
  "gateway_rule name =
     (if name \<in> {''status'', ''fs_list'', ''fs_stat'', ''fs_read'', ''process_list'', ''job_status'', ''job_output'', ''job_cancel''} then WithoutId
      else if name \<in> {''fs_write'', ''fs_move'', ''fs_copy'', ''fs_delete'', ''fs_mkdir'', ''process_start'', ''process_kill'', ''app_open''}
      then ConvertedId False
      else if name \<in> {''computer_click'', ''computer_move'', ''computer_scroll'', ''computer_type'', ''computer_hotkey'', ''computer_key''}
      then ConvertedId True
      else if name = ''computer_observe'' then LaxId True
      else if name \<in> {''uia_find'', ''uia_action''} then StrictId else LaxId False)"

text \<open>The reading of a call's arguments by the closed model of its tool.\<close>

definition read_call :: "schema_host \<Rightarrow> string \<Rightarrow> (pystr \<times> json) list \<Rightarrow> schema_error + tool_request" where
  "read_call h name arguments = read_model h (gateway_rule name) name arguments"

definition text_or_null :: "pystr option \<Rightarrow> json" where
  "text_or_null t = (case t of None \<Rightarrow> JNull | Some s \<Rightarrow> JStr s)"

definition int_or_null :: "int option \<Rightarrow> json" where
  "int_or_null n = (case n of None \<Rightarrow> JNull | Some i \<Rightarrow> JInt i)"

definition texts :: "pystr list \<Rightarrow> json" where "texts ts = JList (map JStr ts)"

definition literal_text :: "(string \<times> 'a) list \<Rightarrow> 'a \<Rightarrow> json" where
  "literal_text table x = (case map_of (map (\<lambda>(t, y). (y, t)) table) x of None \<Rightarrow> JNull | Some t \<Rightarrow> JStr (ustr t))"

definition guard_payload :: "input_guard \<Rightarrow> (pystr \<times> json) list" where
  "guard_payload g =
     [(ustr ''expected_process'', text_or_null (ig_process g)), (ustr ''expected_window_title_contains'', text_or_null (ig_title_contains g)),
      (ustr ''state_token'', text_or_null (ig_state_token g))]"

definition point_payload :: "input_point \<Rightarrow> (pystr \<times> json) list" where
  "point_payload p = [(ustr ''x'', JInt (ip_x p)), (ustr ''y'', JInt (ip_y p)), (ustr ''coordinate_space'', literal_text space_table (ip_space p))]"

fun mutation_payload :: "desktop_mutation \<Rightarrow> (pystr \<times> json) list" where
  "mutation_payload (ClickPointer p b n) = point_payload p @ [(ustr ''button'', literal_text button_table b), (ustr ''clicks'', JInt (int n))]"
| "mutation_payload (MovePointer p) = point_payload p"
| "mutation_payload (ScrollWheel x y) = [(ustr ''delta_x'', JInt x), (ustr ''delta_y'', JInt y)]"
| "mutation_payload (TypeText t) = [(ustr ''text'', JStr t)]"
| "mutation_payload (Hotkey ks) = [(ustr ''keys'', texts ks)]"
| "mutation_payload (PressKey k n) = [(ustr ''key'', JStr k), (ustr ''presses'', JInt (int n))]"

definition selector_json :: "uia_selector \<Rightarrow> json" where
  "selector_json s = JObj
     [(ustr ''title'', text_or_null (us_title s)), (ustr ''title_contains'', text_or_null (us_title_contains s)),
      (ustr ''automation_id'', text_or_null (us_automation_id s)), (ustr ''control_type'', text_or_null (us_control_type s)),
      (ustr ''class_name'', text_or_null (us_class_name s)), (ustr ''window_title_contains'', text_or_null (us_window_title_contains s))]"

definition stream_table :: "(string \<times> job_stream) list" where
  "stream_table = [(''stdout'', Stdout), (''stderr'', Stderr)]"

text \<open>The payload that goes with the call; the identifiers are not part of it.\<close>

fun dispatch_payload :: "tool_input \<Rightarrow> (pystr \<times> json) list" where
  "dispatch_payload NoInput = []"
| "dispatch_payload (ShellRunInput c d s t) =
     [(ustr ''command'', JStr c), (ustr ''cwd'', JStr d), (ustr ''shell'', literal_text shell_table s), (ustr ''timeout_s'', JInt t)]"
| "dispatch_payload (ListInput p) = [(ustr ''path'', JStr p)]"
| "dispatch_payload (ReadInput p offset len enc) =
     [(ustr ''path'', JStr p), (ustr ''offset'', JInt offset), (ustr ''length'', int_or_null len), (ustr ''encoding'', JStr enc)]"
| "dispatch_payload (WriteInput p t d) = [(ustr ''path'', JStr p), (ustr ''text'', text_or_null t), (ustr ''base64_data'', text_or_null d)]"
| "dispatch_payload (MoveInput p q) = [(ustr ''source'', JStr p), (ustr ''destination'', JStr q)]"
| "dispatch_payload (DeleteInput p b) = [(ustr ''path'', JStr p), (ustr ''recursive'', JBool b)]"
| "dispatch_payload (MkdirInput p b) = [(ustr ''path'', JStr p), (ustr ''parents'', JBool b)]"
| "dispatch_payload (ProcessStartInput a d m) =
     [(ustr ''argv'', texts a), (ustr ''cwd'', text_or_null d), (ustr ''lifecycle_managed'', JBool m)]"
| "dispatch_payload (ProcessKillInput pid) = [(ustr ''pid'', JInt pid)]"
| "dispatch_payload (AppOpenInput t a d) = [(ustr ''target'', JStr t), (ustr ''arguments'', texts a), (ustr ''cwd'', text_or_null d)]"
| "dispatch_payload (ComputerObserveInput s m u n) =
     [(ustr ''screenshot'', JBool s), (ustr ''monitor'', int_or_null m), (ustr ''uia'', JBool u), (ustr ''max_controls'', JInt n)]"
| "dispatch_payload (ComputerInput g m) = guard_payload g @ mutation_payload m"
| "dispatch_payload (UiaFindInput s n) = [(ustr ''selector'', selector_json s), (ustr ''max_results'', JInt n)]"
| "dispatch_payload (UiaActionInput s a t) =
     [(ustr ''selector'', selector_json s), (ustr ''action'', literal_text action_table a), (ustr ''text'', text_or_null t)]"
| "dispatch_payload (BrowserOpenInput u) = [(ustr ''url'', JStr u)]"
| "dispatch_payload (BrowserSelectorInput s) = [(ustr ''selector'', JStr s)]"
| "dispatch_payload (BrowserTypeInput s t) = [(ustr ''selector'', JStr s), (ustr ''text'', JStr t)]"
| "dispatch_payload (CodexRunInput p d m e y t) =
     [(ustr ''prompt'', JStr p), (ustr ''cwd'', JStr d), (ustr ''model'', text_or_null m), (ustr ''effort'', text_or_null e),
      (ustr ''dirty_policy'', text_or_null y), (ustr ''timeout_s'', JInt t)]"
| "dispatch_payload (JobStartInput k a d) = [(ustr ''kind'', JStr (ustr (kind_value k))), (ustr ''argv'', texts a), (ustr ''cwd'', JStr d)]"
| "dispatch_payload (JobIdInput j) = [(ustr ''job_id'', JStr (uuid_str j))]"
| "dispatch_payload (JobOutputInput j s offset limit) =
     [(ustr ''job_id'', JStr (uuid_str j)), (ustr ''stream'', literal_text stream_table s), (ustr ''offset'', JInt offset), (ustr ''limit'', JInt limit)]"
| "dispatch_payload (PowerInput d r) = [(ustr ''delay_seconds'', JInt d), (ustr ''reason'', JStr r)]"

definition dispatch_timeout :: "string \<Rightarrow> tool_input \<Rightarrow> int" where
  "dispatch_timeout name inp =
     (case inp of ShellRunInput _ _ _ t \<Rightarrow> t * 1000
      | _ \<Rightarrow> if take 8 name = ''browser_'' \<or> take 9 name = ''computer_'' \<or> take 4 name = ''uia_'' then 30000
             else if take 6 name = ''codex_'' then 10000 else 5000)"

text \<open>The request a call becomes; a fresh identifier stands in for a missing one.\<close>

definition call_request :: "uuid \<Rightarrow> string \<Rightarrow> tool_request \<Rightarrow> ipc_request" where
  "call_request fresh name r =
     \<lparr>rq_request_id = (case tr_operation r of None \<Rightarrow> fresh | Some u \<Rightarrow> u), rq_operation = name,
      rq_payload = dispatch_payload (tr_input r), rq_timeout_ms = dispatch_timeout name (tr_input r)\<rparr>"

text \<open>
  The router: an operation whose model has the identifier reads the payload joined with the identifier of the request, the others
  read the payload as it is.
\<close>

definition router_rule :: "worker_operation \<Rightarrow> id_rule" where
  "router_rule op =
     (if op \<in> {OpComputerClick, OpComputerMove, OpComputerScroll, OpComputerType, OpComputerHotkey, OpComputerKey} then ConvertedId True
      else if op \<in> {OpUiaFind, OpUiaAction} then StrictId
      else if op = OpComputerObserve then LaxId True
      else if op \<in> {OpShellRun, OpBrowserStatus, OpBrowserOpen, OpBrowserNavigate, OpBrowserSnapshot, OpBrowserClick, OpBrowserType,
        OpBrowserExtract, OpBrowserClose, OpCodexStatus, OpCodexRun, OpJobStart} then LaxId False
      else WithoutId)"

definition correlated :: "ipc_request \<Rightarrow> (pystr \<times> json) list" where
  "correlated q =
     (ustr ''operation_id'', JStr (uuid_str (rq_request_id q))) # filter (\<lambda>kv. fst kv \<noteq> ustr ''operation_id'') (rq_payload q)"

definition route_request :: "schema_host \<Rightarrow> ipc_request \<Rightarrow> schema_error + tool_request" where
  "route_request h q =
     (case map_of worker_operations (rq_operation q) of
        None \<Rightarrow> Inl InputRefused
      | Some op \<Rightarrow> read_model h (router_rule op) (rq_operation q) (if router_rule op = WithoutId then rq_payload q else correlated q))"

section \<open>The worker reads what the gateway accepted\<close>

text \<open>What the library guarantees: JSON numbers and truth values are taken as they are, a path has one text, supported keys are lower case, the
  default address can be opened.\<close>

definition schema_laws :: "schema_host \<Rightarrow> bool" where
  "schema_laws h \<longleftrightarrow> (\<forall>n. sh_int h (JInt n) = Some n) \<and> (\<forall>b. sh_bool h (JBool b) = Some b) \<and>
     (\<forall>s. sh_path h (sh_path h s) = sh_path h s) \<and> (\<forall>k. supported_key k \<longrightarrow> sh_casefold h k = k) \<and>
     navigable h (ustr ''about:blank'')"

text \<open>Both conversions read the text of an identifier.\<close>

definition spells :: "schema_host \<Rightarrow> uuid \<Rightarrow> bool" where
  "spells h u \<longleftrightarrow> sh_uuid h (JStr (uuid_str u)) = Some u \<and> sh_py_uuid h (uuid_str u) = Some u"

lemma key_value_simps [simp]:
  "key_value [] n = None" "key_value ((ustr m, v) # kvs) n = (if m = n then Some v else key_value kvs n)"
  by (simp_all add: key_value_def)

lemma key_value_append: "key_value (kvs @ lvs) n = (case key_value kvs n of None \<Rightarrow> key_value lvs n | Some v \<Rightarrow> Some v)"
  by (simp add: key_value_def map_add_def split: option.split)

text \<open>A reader asks for its fields only; here the payload may carry the identifier besides.\<close>

definition same_fields :: "(pystr \<times> json) list \<Rightarrow> (pystr \<times> json) list \<Rightarrow> bool" where
  "same_fields kvs lvs \<longleftrightarrow> (\<forall>n. n \<noteq> ''operation_id'' \<longrightarrow> key_value kvs n = key_value lvs n)"

lemma checked_Some: "checked ok conv v = Some x \<longleftrightarrow> conv v = Some x \<and> ok x"
  by (auto simp: checked_def split: option.splits if_splits)

lemma bounded_text_Some: "bounded_text lo hi v = Some t \<longleftrightarrow> v = JStr t \<and> lo \<le> length t \<and> length t \<le> hi"
  by (cases v) auto

lemma nullable_text_Some:
  "nullable_text lo hi v = Some t \<longleftrightarrow> v = JNull \<and> t = None \<or> (\<exists>s. v = JStr s \<and> t = Some s \<and> lo \<le> length s \<and> length s \<le> hi)"
  by (cases v) auto

lemma nullable_Some: "nullable conv v = Some t \<longleftrightarrow> v = JNull \<and> t = None \<or> v \<noteq> JNull \<and> (\<exists>x. conv v = Some x \<and> t = Some x)"
  by (auto simp: nullable_def)

lemma any_text_Some: "any_text v = Some t \<longleftrightarrow> v = JStr t"
  by (cases v) auto

lemma strict_int_Some: "strict_int v = Some n \<longleftrightarrow> v = JInt n"
  by (cases v) auto

lemma strict_bool_Some: "strict_bool v = Some b \<longleftrightarrow> v = JBool b"
  by (cases v) auto

lemma need_Some: "need name conv kvs = Some x \<longleftrightarrow> (\<exists>v. key_value kvs name = Some v \<and> conv v = Some x)"
  by (auto simp: need_def split: option.splits)

lemma given_Some: "given name conv d kvs = Some x \<longleftrightarrow>
    (key_value kvs name = None \<and> x = d) \<or> (\<exists>v. key_value kvs name = Some v \<and> conv v = Some x)"
  by (auto simp: given_def split: option.splits)

lemma strings_of_texts [simp]: "strings_of (map JStr ts) = Some ts"
  by (induction ts) auto

lemma text_list_Some: "text_list lo hi v = Some ts \<Longrightarrow> lo \<le> length ts \<and> length ts \<le> hi"
  by (auto simp: text_list_def split: json.splits option.splits if_splits)

lemma text_list_texts [simp]: "text_list lo hi (texts ts) = (if lo \<le> length ts \<and> length ts \<le> hi then Some ts else None)"
  by (simp add: text_list_def texts_def)

lemma path_of_Some: "path_of h v = Some p \<longleftrightarrow> (\<exists>s. v = JStr s \<and> p = sh_path h s)"
  by (cases v) (auto simp: path_of_def)

lemma literal_shell [simp]: "literal shell_table (literal_text shell_table s) = Some s"
  by (cases s) (simp_all add: literal_def literal_text_def shell_table_def del: ustr_simps)

lemma literal_space [simp]: "literal space_table (literal_text space_table s) = Some s"
  by (cases s) (simp_all add: literal_def literal_text_def space_table_def del: ustr_simps)

lemma literal_button [simp]: "literal button_table (literal_text button_table s) = Some s"
  by (cases s) (simp_all add: literal_def literal_text_def button_table_def del: ustr_simps)

lemma literal_action [simp]: "literal action_table (literal_text action_table s) = Some s"
  by (cases s) (simp_all add: literal_def literal_text_def action_table_def del: ustr_simps)

lemma literal_stream [simp]: "stream_of (literal_text stream_table s) = Some s"
  by (cases s) (simp_all add: stream_of_def literal_text_def stream_table_def del: ustr_simps)

lemma literal_kind [simp]: "kind_of (JStr (ustr (kind_value k))) = Some k"
  by (cases k) (simp_all add: kind_of_def del: ustr_simps)

text \<open>A conversion and the JSON value that the payload holds for its result.\<close>

definition reads_back :: "(json \<Rightarrow> 'a option) \<Rightarrow> ('a \<Rightarrow> json) \<Rightarrow> bool" where
  "reads_back conv enc \<longleftrightarrow> (\<forall>v x. conv v = Some x \<longrightarrow> conv (enc x) = Some x)"

named_theorems back_intros \<open>which conversions read back\<close>

lemma back_text [back_intros]: "reads_back (bounded_text lo hi) JStr"
  by (simp add: reads_back_def bounded_text_Some)

lemma back_any_text [back_intros]: "reads_back any_text JStr"
  by (simp add: reads_back_def)

lemma back_nullable_text [back_intros]: "reads_back (nullable_text lo hi) text_or_null"
  by (auto simp: reads_back_def nullable_text_Some text_or_null_def split: option.splits)

lemma back_strict [back_intros]: "reads_back strict_int JInt" "reads_back strict_bool JBool"
  by (simp_all add: reads_back_def)

lemma back_lax [back_intros]:
  assumes "schema_laws h"
  shows "reads_back (sh_int h) JInt" "reads_back (sh_bool h) JBool" "reads_back (path_of h) JStr"
  using assms by (auto simp: reads_back_def schema_laws_def path_of_def any_text_Some)

lemma back_checked [back_intros]: "reads_back conv enc \<Longrightarrow> reads_back (checked ok conv) enc"
  by (simp add: reads_back_def checked_Some) blast

lemma back_among [back_intros]: "reads_back (text_among names) JStr"
  unfolding text_among_def by (intro back_intros)

lemma back_nullable [back_intros]:
  assumes "reads_back conv JStr" shows "reads_back (nullable conv) text_or_null"
  using assms by (auto simp: reads_back_def nullable_Some text_or_null_def split: option.splits)

lemma back_nullable_int [back_intros]:
  assumes "reads_back conv JInt" shows "reads_back (nullable conv) int_or_null"
  using assms by (auto simp: reads_back_def nullable_Some int_or_null_def split: option.splits)

lemma back_list [back_intros]: "reads_back (text_list lo hi) texts"
  using text_list_Some by (auto simp: reads_back_def)

lemma back_literal [back_intros]:
  "reads_back (literal shell_table) (literal_text shell_table)" "reads_back (literal space_table) (literal_text space_table)"
  "reads_back (literal button_table) (literal_text button_table)" "reads_back (literal action_table) (literal_text action_table)"
  "reads_back stream_of (literal_text stream_table)" "reads_back kind_of (\<lambda>k. JStr (ustr (kind_value k)))"
  by (simp_all add: reads_back_def del: ustr_simps)

lemma need_back:
  "need name conv kvs = Some x \<Longrightarrow> reads_back conv enc \<Longrightarrow> key_value lvs name = Some (enc x) \<Longrightarrow> need name conv lvs = Some x"
  by (auto simp: need_def reads_back_def split: option.splits)

lemma given_back:
  assumes "given name conv d kvs = Some x" "reads_back conv enc" "conv (enc d) = Some d" "key_value lvs name = Some (enc x)"
  shows "given name conv d lvs = Some x"
  using assms by (auto simp: given_def reads_back_def split: option.splits)

text \<open>The fields of the payload are found behind the identifier.\<close>

lemma same_fieldsD: "same_fields lvs kvs \<Longrightarrow> n \<noteq> ''operation_id'' \<Longrightarrow> key_value lvs n = key_value kvs n"
  by (simp add: same_fields_def)

text \<open>The values that stand in for missing fields would be read as they are.\<close>

lemma defaults_read_back:
  assumes "schema_laws h"
  shows "checked (in_range 1 110) (sh_int h) (JInt 60) = Some 60" "checked (in_range 1 500) (sh_int h) (JInt 150) = Some 150"
    "checked (in_range 1 86400) (sh_int h) (JInt 900) = Some 900" "checked (in_range 0 300) (sh_int h) (JInt 0) = Some 0"
    "checked (\<lambda>n. 0 \<le> n) (sh_int h) (JInt 0) = Some 0"
    "checked (in_range 1 max_job_output_chunk_bytes) (sh_int h) (JInt max_job_output_chunk_bytes) = Some max_job_output_chunk_bytes"
    "sh_bool h (JBool b) = Some b"
  using assms by (simp_all add: checked_Some schema_laws_def in_range_def max_job_output_chunk_bytes_def)

lemma plain_defaults_read_back [simp]:
  "checked (\<lambda>n. 0 \<le> n) strict_int (JInt 0) = Some 0" "nullable conv (text_or_null None) = Some None"
  "nullable conv (int_or_null None) = Some None" "text_among [''utf-8'', ''base64''] (JStr (ustr ''utf-8'')) = Some (ustr ''utf-8'')"
  "checked (in_range 1 3) strict_int (JInt 1) = Some 1" "checked (in_range 1 20) strict_int (JInt 1) = Some 1"
  "checked (in_range (-12000) 12000) strict_int (JInt 0) = Some 0" "checked (in_range 1 50) strict_int (JInt 20) = Some 20"
  "nullable_text lo hi (text_or_null None) = Some None" "checked (list_all no_nul) (text_list 0 255) (texts []) = Some []"
  "kind_of (JStr (ustr ''process'')) = Some PROCESS" "stream_of (JStr (ustr ''stdout'')) = Some Stdout"
  by (simp_all add: kind_of_def stream_of_def checked_Some nullable_def text_or_null_def int_or_null_def text_among_def in_range_def)

lemma shell_reads_back:
  assumes l: "schema_laws h" and r: "read_shell_run h kvs = Some x" and f: "same_fields lvs (dispatch_payload x)"
  shows "read_shell_run h lvs = Some x"
proof -
  obtain a b c d where x: "x = ShellRunInput a b c d" and n:
      "need ''command'' (checked no_nul (bounded_text 1 32767)) kvs = Some a" "need ''cwd'' (path_of h) kvs = Some b"
      "given ''shell'' (literal shell_table) POWERSHELL kvs = Some c"
      "given ''timeout_s'' (checked (in_range 1 110) (sh_int h)) 60 kvs = Some d"
    using r by (auto simp: read_shell_run_def split: option.splits)
  show ?thesis
    using f back_lax [OF l] defaults_read_back [OF l]
      need_back [where enc = "JStr" and lvs = lvs, OF n(1)] need_back [where enc = "JStr" and lvs = lvs, OF n(2)]
      given_back [where enc = "literal_text shell_table" and lvs = lvs, OF n(3)]
      given_back [where enc = "JInt" and lvs = lvs, OF n(4)]
    by (simp add: read_shell_run_def x same_fieldsD back_intros del: ustr_simps)
qed

lemma read_reads_back:
  assumes l: "schema_laws h" and r: "read_read h kvs = Some x" and f: "same_fields lvs (dispatch_payload x)"
  shows "read_read h lvs = Some x"
proof -
  obtain a b c d where x: "x = ReadInput a b c d" and n:
      "need ''path'' (path_of h) kvs = Some a"
      "given ''offset'' (checked (\<lambda>n. 0 \<le> n) strict_int) 0 kvs = Some b"
      "given ''length'' (nullable (checked (\<lambda>n. 0 \<le> n) strict_int)) None kvs = Some c"
      "given ''encoding'' (text_among [''utf-8'', ''base64'']) (ustr ''utf-8'') kvs = Some d"
    using r by (auto simp: read_read_def split: option.splits)
  show ?thesis
    using f back_lax [OF l] defaults_read_back [OF l]
      need_back [where enc = "JStr" and lvs = lvs, OF n(1)] given_back [where enc = "JInt" and lvs = lvs, OF n(2)]
      given_back [where enc = "int_or_null" and lvs = lvs, OF n(3)] given_back [where enc = "JStr" and lvs = lvs, OF n(4)]
    by (simp add: read_read_def x same_fieldsD back_intros del: ustr_simps)
qed

lemma process_start_reads_back:
  assumes l: "schema_laws h" and r: "read_process_start h kvs = Some x" and f: "same_fields lvs (dispatch_payload x)"
  shows "read_process_start h lvs = Some x"
proof -
  obtain a b c where x: "x = ProcessStartInput a b c" and n:
      "need ''argv'' (checked (list_all good_argument) (text_list 1 256)) kvs = Some a"
      "given ''cwd'' (nullable (path_of h)) None kvs = Some b" "given ''lifecycle_managed'' (sh_bool h) True kvs = Some c"
    using r by (auto simp: read_process_start_def split: option.splits)
  show ?thesis
    using f back_lax [OF l] defaults_read_back [OF l]
      need_back [where enc = "texts" and lvs = lvs, OF n(1)] given_back [where enc = "text_or_null" and lvs = lvs, OF n(2)]
      given_back [where enc = "JBool" and lvs = lvs, OF n(3)]
    by (simp add: read_process_start_def x same_fieldsD back_intros del: ustr_simps)
qed

lemma app_open_reads_back:
  assumes l: "schema_laws h" and r: "read_app_open h kvs = Some x" and f: "same_fields lvs (dispatch_payload x)"
  shows "read_app_open h lvs = Some x"
proof -
  obtain a b c where x: "x = AppOpenInput a b c" and n:
      "need ''target'' (checked no_nul (bounded_text 1 32767)) kvs = Some a"
      "given ''arguments'' (checked (list_all no_nul) (text_list 0 255)) [] kvs = Some b"
      "given ''cwd'' (nullable (path_of h)) None kvs = Some c"
    using r by (auto simp: read_app_open_def split: option.splits)
  show ?thesis
    using f back_lax [OF l] defaults_read_back [OF l]
      need_back [where enc = "JStr" and lvs = lvs, OF n(1)] given_back [where enc = "texts" and lvs = lvs, OF n(2)]
      given_back [where enc = "text_or_null" and lvs = lvs, OF n(3)]
    by (simp add: read_app_open_def x same_fieldsD back_intros del: ustr_simps)
qed

lemma observe_reads_back:
  assumes l: "schema_laws h" and r: "read_observe h kvs = Some x" and f: "same_fields lvs (dispatch_payload x)"
  shows "read_observe h lvs = Some x"
proof -
  obtain a b c d where x: "x = ComputerObserveInput a b c d" and n:
      "given ''screenshot'' (sh_bool h) True kvs = Some a"
      "given ''monitor'' (nullable (checked (\<lambda>n. 1 \<le> n) (sh_int h))) None kvs = Some b"
      "given ''uia'' (sh_bool h) False kvs = Some c"
      "given ''max_controls'' (checked (in_range 1 500) (sh_int h)) 150 kvs = Some d"
    using r by (auto simp: read_observe_def split: option.splits)
  show ?thesis
    using f back_lax [OF l] defaults_read_back [OF l]
      given_back [where enc = "JBool" and lvs = lvs, OF n(1)] given_back [where enc = "int_or_null" and lvs = lvs, OF n(2)]
      given_back [where enc = "JBool" and lvs = lvs, OF n(3)] given_back [where enc = "JInt" and lvs = lvs, OF n(4)]
    by (simp add: read_observe_def x same_fieldsD back_intros del: ustr_simps)
qed

lemma browser_type_reads_back:
  assumes l: "schema_laws h" and r: "read_browser_type kvs = Some x" and f: "same_fields lvs (dispatch_payload x)"
  shows "read_browser_type lvs = Some x"
proof -
  obtain a b where x: "x = BrowserTypeInput a b" and n:
      "need ''selector'' (checked no_nul (bounded_text 1 4096)) kvs = Some a"
      "need ''text'' (checked no_nul (bounded_text 0 65536)) kvs = Some b"
    using r by (auto simp: read_browser_type_def split: option.splits)
  show ?thesis
    using f back_lax [OF l] defaults_read_back [OF l]
      need_back [where enc = "JStr" and lvs = lvs, OF n(1)] need_back [where enc = "JStr" and lvs = lvs, OF n(2)]
    by (simp add: read_browser_type_def x same_fieldsD back_intros del: ustr_simps)
qed

lemma codex_run_reads_back:
  assumes l: "schema_laws h" and r: "read_codex_run h kvs = Some x" and f: "same_fields lvs (dispatch_payload x)"
  shows "read_codex_run h lvs = Some x"
proof -
  obtain a b c d e f where x: "x = CodexRunInput a b c d e f" and n:
      "need ''prompt'' (checked no_nul (bounded_text 1 32767)) kvs = Some a" "need ''cwd'' (path_of h) kvs = Some b"
      "given ''model'' (nullable (checked no_nul (bounded_text 1 256))) None kvs = Some c"
      "given ''effort'' (nullable (text_among effort_levels)) None kvs = Some d"
      "given ''dirty_policy'' (nullable (text_among [''preserve''])) None kvs = Some e"
      "given ''timeout_s'' (checked (in_range 1 86400) (sh_int h)) 900 kvs = Some f"
    using r by (auto simp: read_codex_run_def split: option.splits)
  show ?thesis
    using f back_lax [OF l] defaults_read_back [OF l]
      need_back [where enc = "JStr" and lvs = lvs, OF n(1)] need_back [where enc = "JStr" and lvs = lvs, OF n(2)]
      given_back [where enc = "text_or_null" and lvs = lvs, OF n(3)]
      given_back [where enc = "text_or_null" and lvs = lvs, OF n(4)]
      given_back [where enc = "text_or_null" and lvs = lvs, OF n(5)] given_back [where enc = "JInt" and lvs = lvs, OF n(6)]
    by (simp add: read_codex_run_def x same_fieldsD back_intros del: ustr_simps)
qed

lemma job_start_reads_back:
  assumes l: "schema_laws h" and r: "read_job_start h kvs = Some x" and f: "same_fields lvs (dispatch_payload x)"
  shows "read_job_start h lvs = Some x"
proof -
  obtain a b c where x: "x = JobStartInput a b c" and n:
      "given ''kind'' (kind_of) PROCESS kvs = Some a"
      "need ''argv'' (checked (list_all good_argument) (text_list 1 256)) kvs = Some b"
      "need ''cwd'' (path_of h) kvs = Some c"
    using r by (auto simp: read_job_start_def split: option.splits)
  show ?thesis
    using f back_lax [OF l] defaults_read_back [OF l]
      given_back [where enc = "(\<lambda>k. JStr (ustr (kind_value k)))" and lvs = lvs, OF n(1)]
      need_back [where enc = "texts" and lvs = lvs, OF n(2)] need_back [where enc = "JStr" and lvs = lvs, OF n(3)]
    by (simp add: read_job_start_def x same_fieldsD back_intros del: ustr_simps)
qed

lemma move_reads_back:
  assumes l: "schema_laws h" and r: "read_move h kvs = Some x" and f: "same_fields lvs (dispatch_payload x)"
  shows "read_move h lvs = Some x"
proof -
  obtain a b where x: "x = MoveInput a b" and n:
      "need ''source'' (path_of h) kvs = Some a" "need ''destination'' (path_of h) kvs = Some b"
    using r by (auto simp: read_move_def split: option.splits)
  show ?thesis
    using f back_lax [OF l] defaults_read_back [OF l]
      need_back [where enc = "JStr" and lvs = lvs, OF n(1)] need_back [where enc = "JStr" and lvs = lvs, OF n(2)]
    by (simp add: read_move_def x same_fieldsD back_intros del: ustr_simps)
qed

lemma list_reads_back:
  assumes l: "schema_laws h" and r: "read_list h kvs = Some x" and f: "same_fields lvs (dispatch_payload x)"
  shows "read_list h lvs = Some x"
proof -
  obtain a where x: "x = ListInput a" and n: "need ''path'' (path_of h) kvs = Some a" using r by (auto simp: read_list_def)
  show ?thesis using f back_lax [OF l] need_back [where enc = JStr and lvs = lvs, OF n]
    by (simp add: read_list_def x same_fieldsD back_intros del: ustr_simps)
qed

lemma write_reads_back:
  assumes l: "schema_laws h" and r: "read_write h kvs = Some x" and f: "same_fields lvs (dispatch_payload x)"
  shows "read_write h lvs = Some x"
proof -
  obtain a b c where x: "x = WriteInput a b c" "(b = None) \<noteq> (c = None)" and n: "need ''path'' (path_of h) kvs = Some a"
      "given ''text'' (nullable any_text) None kvs = Some b" "given ''base64_data'' (nullable any_text) None kvs = Some c"
    using r by (auto simp: read_write_def split: option.splits if_splits)
  show ?thesis
    using f x(2) back_lax [OF l] need_back [where enc = JStr and lvs = lvs, OF n(1)]
      given_back [where enc = text_or_null and lvs = lvs, OF n(2)] given_back [where enc = text_or_null and lvs = lvs, OF n(3)]
    by (simp add: read_write_def x(1) same_fieldsD back_intros del: ustr_simps)
qed

lemma flagged_reads_back:
  assumes l: "schema_laws h" and r: "read_flagged h flag mk kvs = Some x" and f: "same_fields lvs (dispatch_payload x)"
    and m: "flag \<noteq> ''operation_id''" "\<And>a b. dispatch_payload (mk a b) = [(ustr ''path'', JStr a), (ustr flag, JBool b)]" "flag \<noteq> ''path''"
  shows "read_flagged h flag mk lvs = Some x"
proof -
  obtain a b where x: "x = mk a b" and n: "need ''path'' (path_of h) kvs = Some a" "given flag strict_bool False kvs = Some b"
    using r by (auto simp: read_flagged_def split: option.splits)
  show ?thesis
    using f m(1,3) back_lax [OF l] need_back [where enc = JStr and lvs = lvs, OF n(1)] given_back [where enc = JBool and lvs = lvs, OF n(2)]
    by (auto simp: read_flagged_def x m(2) same_fieldsD back_intros simp del: ustr_simps)
qed

lemma kill_reads_back:
  assumes l: "schema_laws h" and r: "read_process_kill h kvs = Some x" and f: "same_fields lvs (dispatch_payload x)"
  shows "read_process_kill h lvs = Some x"
proof -
  obtain a where x: "x = ProcessKillInput a" and n: "need ''pid'' (checked (\<lambda>n. 0 < n) (sh_int h)) kvs = Some a"
    using r by (auto simp: read_process_kill_def)
  show ?thesis using f back_lax [OF l] need_back [where enc = JInt and lvs = lvs, OF n]
    by (simp add: read_process_kill_def x same_fieldsD back_intros del: ustr_simps)
qed

lemma browser_open_reads_back:
  assumes l: "schema_laws h" and r: "read_browser_open h kvs = Some x" and f: "same_fields lvs (dispatch_payload x)"
  shows "read_browser_open h lvs = Some x"
proof -
  have d: "checked (navigable h) (bounded_text 1 8192) (JStr (ustr ''about:blank'')) = Some (ustr ''about:blank'')"
    using l by (simp add: checked_Some schema_laws_def)
  obtain a where x: "x = BrowserOpenInput a"
      and n: "given ''url'' (checked (navigable h) (bounded_text 1 8192)) (ustr ''about:blank'') kvs = Some a"
    using r unfolding read_browser_open_def by (auto simp del: ustr_simps)
  show ?thesis using f d given_back [where enc = JStr and lvs = lvs, OF n]
    by (simp add: read_browser_open_def x same_fieldsD back_intros del: ustr_simps)
qed

lemma browser_selector_reads_back:
  assumes r: "read_browser_selector kvs = Some x" and f: "same_fields lvs (dispatch_payload x)"
  shows "read_browser_selector lvs = Some x"
proof -
  obtain a where x: "x = BrowserSelectorInput a" and n: "need ''selector'' (checked no_nul (bounded_text 1 4096)) kvs = Some a"
    using r by (auto simp: read_browser_selector_def)
  show ?thesis using f need_back [where enc = JStr and lvs = lvs, OF n]
    by (simp add: read_browser_selector_def x same_fieldsD back_intros del: ustr_simps)
qed

lemma job_id_reads_back:
  assumes u: "\<forall>j. x = JobIdInput j \<longrightarrow> spells h j" and r: "map_option JobIdInput (need ''job_id'' (sh_uuid h) kvs) = Some x"
    and f: "same_fields lvs (dispatch_payload x)"
  shows "map_option JobIdInput (need ''job_id'' (sh_uuid h) lvs) = Some x"
  using assms by (auto simp: same_fieldsD need_def spells_def simp del: ustr_simps split: option.splits)

lemma job_output_reads_back:
  assumes l: "schema_laws h" and r: "read_job_output h kvs = Some x" and f: "same_fields lvs (dispatch_payload x)"
    and u: "\<forall>j s a b. x = JobOutputInput j s a b \<longrightarrow> spells h j"
  shows "read_job_output h lvs = Some x"
proof -
  obtain j a b c where x: "x = JobOutputInput j a b c" and n: "given ''stream'' stream_of Stdout kvs = Some a"
      "given ''offset'' (checked (\<lambda>n. 0 \<le> n) (sh_int h)) 0 kvs = Some b"
      "given ''limit'' (checked (in_range 1 max_job_output_chunk_bytes) (sh_int h)) max_job_output_chunk_bytes kvs = Some c"
    using r by (auto simp: read_job_output_def split: option.splits)
  have d: "stream_of (literal_text stream_table Stdout) = Some Stdout" by simp
  have "need ''job_id'' (sh_uuid h) lvs = Some j" using u f x by (simp add: need_def same_fieldsD spells_def del: ustr_simps)
  then show ?thesis
    using f d back_lax [OF l] defaults_read_back [OF l] given_back [where enc = "literal_text stream_table" and lvs = lvs, OF n(1)]
      given_back [where enc = JInt and lvs = lvs, OF n(2)] given_back [where enc = JInt and lvs = lvs, OF n(3)]
    by (simp add: read_job_output_def x same_fieldsD back_intros del: ustr_simps)
qed

lemma guard_reads_back:
  assumes r: "read_guard kvs = Some g" and f: "same_fields lvs (guard_payload g @ rest)"
  shows "read_guard lvs = Some g"
proof -
  obtain a b c where x: "g = \<lparr>ig_process = a, ig_title_contains = b, ig_state_token = c\<rparr>"
      and n: "given ''expected_process'' (nullable_text 1 260) None kvs = Some a"
      "given ''expected_window_title_contains'' (nullable_text 1 512) None kvs = Some b"
      "given ''state_token'' (nullable (checked hex_token any_text)) None kvs = Some c"
    using r by (auto simp: read_guard_def split: option.splits)
  show ?thesis
    using f given_back [where enc = text_or_null and lvs = lvs, OF n(1)] given_back [where enc = text_or_null and lvs = lvs, OF n(2)]
      given_back [where enc = text_or_null and lvs = lvs, OF n(3)]
    by (simp add: read_guard_def x guard_payload_def same_fieldsD back_intros del: ustr_simps)
qed

text \<open>The fields of a mutation lie behind those of the guard.\<close>

lemma guarded_key:
  "n \<notin> set computer_fields \<Longrightarrow> n \<noteq> ''operation_id'' \<Longrightarrow> same_fields lvs (guard_payload g @ rest) \<Longrightarrow> key_value lvs n = key_value rest n"
  by (auto simp: same_fieldsD guard_payload_def computer_fields_def simp del: ustr_simps)

lemma point_reads_back:
  assumes r: "read_point g kvs = Some p" and f: "same_fields lvs (guard_payload g' @ point_payload p @ rest)"
  shows "read_point g lvs = Some p"
proof -
  obtain a b c where x: "p = \<lparr>ip_x = a, ip_y = b, ip_space = c\<rparr>" "\<not> (c = Observation \<and> (a < 0 \<or> b < 0 \<or> ig_state_token g = None))"
      and n: "need ''x'' (checked (in_range (-100000) 100000) strict_int) kvs = Some a"
      "need ''y'' (checked (in_range (-100000) 100000) strict_int) kvs = Some b"
      "given ''coordinate_space'' (literal space_table) Physical kvs = Some c"
    using r by (auto simp: read_point_def split: option.splits if_splits)
  have k: "key_value lvs ''x'' = Some (JInt a)" "key_value lvs ''y'' = Some (JInt b)"
      "key_value lvs ''coordinate_space'' = Some (literal_text space_table c)"
    using f x(1) by (simp_all add: guarded_key computer_fields_def point_payload_def del: ustr_simps)
  show ?thesis
    using k x(2) need_back [where enc = JInt and lvs = lvs, OF n(1)] need_back [where enc = JInt and lvs = lvs, OF n(2)]
      given_back [where enc = "literal_text space_table" and lvs = lvs, OF n(3)]
    by (auto simp: read_point_def x(1) back_intros simp del: ustr_simps)
qed

lemma click_reads_back:
  assumes r: "read_click g kvs = Some m" and f: "same_fields lvs (guard_payload g' @ mutation_payload m)"
  shows "read_click g lvs = Some m"
proof -
  obtain p b n where x: "m = ClickPointer p b (nat n)" and d: "read_point g kvs = Some p"
      "given ''button'' (literal button_table) LeftButton kvs = Some b" "given ''clicks'' (checked (in_range 1 3) strict_int) 1 kvs = Some n"
    using r by (auto simp: read_click_def split: option.splits)
  have n: "1 \<le> n" using d(3) by (auto simp: given_Some checked_Some in_range_def)
  have q: "read_point g lvs = Some p" using f x by (intro point_reads_back [OF d(1)]) simp
  have k: "key_value lvs ''button'' = Some (literal_text button_table b)" "key_value lvs ''clicks'' = Some (JInt n)"
    using f x n by (simp_all add: guarded_key computer_fields_def point_payload_def del: ustr_simps)
  show ?thesis
    using k q given_back [where enc = "literal_text button_table" and lvs = lvs, OF d(2)] given_back [where enc = JInt and lvs = lvs, OF d(3)]
    by (simp add: read_click_def x back_intros del: ustr_simps)
qed

lemma move_input_reads_back:
  assumes r: "map_option MovePointer (read_point g kvs) = Some m" and f: "same_fields lvs (guard_payload g' @ mutation_payload m)"
  shows "map_option MovePointer (read_point g lvs) = Some m"
proof -
  obtain p where x: "m = MovePointer p" "read_point g kvs = Some p" using r by auto
  have "read_point g lvs = Some p" using f x by (intro point_reads_back [OF x(2), where rest = "[]" and g' = g']) simp
  then show ?thesis using x by simp
qed

lemma scroll_reads_back:
  assumes r: "read_scroll kvs = Some m" and f: "same_fields lvs (guard_payload g' @ mutation_payload m)"
  shows "read_scroll lvs = Some m"
proof -
  obtain a b where x: "m = ScrollWheel a b" "\<not> (a = 0 \<and> b = 0)"
      and n: "given ''delta_x'' (checked (in_range (-12000) 12000) strict_int) 0 kvs = Some a"
      "given ''delta_y'' (checked (in_range (-12000) 12000) strict_int) 0 kvs = Some b"
    using r by (auto simp: read_scroll_def split: option.splits if_splits)
  have k: "key_value lvs ''delta_x'' = Some (JInt a)" "key_value lvs ''delta_y'' = Some (JInt b)"
    using f x(1) by (simp_all add: guarded_key computer_fields_def del: ustr_simps)
  show ?thesis
    using k x(2) given_back [where enc = JInt and lvs = lvs, OF n(1)] given_back [where enc = JInt and lvs = lvs, OF n(2)]
    by (auto simp: read_scroll_def x(1) back_intros simp del: ustr_simps)
qed

lemma type_reads_back:
  assumes r: "map_option TypeText (need ''text'' (bounded_text 1 10000) kvs) = Some m" and f: "same_fields lvs (guard_payload g' @ mutation_payload m)"
  shows "map_option TypeText (need ''text'' (bounded_text 1 10000) lvs) = Some m"
proof -
  obtain a where x: "m = TypeText a" "need ''text'' (bounded_text 1 10000) kvs = Some a" using r by auto
  have "key_value lvs ''text'' = Some (JStr a)" using f x(1) by (simp add: guarded_key computer_fields_def del: ustr_simps)
  then show ?thesis using need_back [where enc = JStr and lvs = lvs, OF x(2)] x(1) by (simp add: back_intros)
qed

text \<open>The keys are normalized already; the supported ones stay what they are.\<close>

lemma hotkey_reads_back:
  assumes l: "schema_laws h" and r: "read_hotkey h kvs = Some m" and f: "same_fields lvs (guard_payload g' @ mutation_payload m)"
  shows "read_hotkey h lvs = Some m"
proof -
  obtain ks where ks: "need ''keys'' (text_list 2 4) kvs = Some ks" "m = Hotkey (map (sh_casefold h) ks)"
      "distinct (map (sh_casefold h) ks)" "list_all supported_key (map (sh_casefold h) ks)"
    using r by (auto simp: read_hotkey_def Let_def split: option.splits if_splits)
  have "2 \<le> length ks \<and> length ks \<le> 4" using ks(1) text_list_Some by (auto simp: need_Some)
  then have t: "text_list 2 4 (texts (map (sh_casefold h) ks)) = Some (map (sh_casefold h) ks)" by simp
  have k: "key_value lvs ''keys'' = Some (texts (map (sh_casefold h) ks))"
    using f ks(2) by (simp add: guarded_key computer_fields_def del: ustr_simps)
  have i: "map (sh_casefold h) (map (sh_casefold h) ks) = map (sh_casefold h) ks"
    using l ks(4) by (auto simp: schema_laws_def list_all_iff intro!: map_idI)
  show ?thesis using k t i ks by (simp add: read_hotkey_def need_def Let_def del: map_map)
qed

lemma supported_key_short: "supported_key k \<Longrightarrow> 1 \<le> length k \<and> length k \<le> 16"
proof -
  have "list_all (\<lambda>k. 1 \<le> length k \<and> length k \<le> 16) (map fst key_codes)" by code_simp
  then show "supported_key k \<Longrightarrow> 1 \<le> length k \<and> length k \<le> 16" by (auto simp: supported_key_def list_all_iff)
qed

lemma key_reads_back:
  assumes l: "schema_laws h" and r: "read_key h kvs = Some m" and f: "same_fields lvs (guard_payload g' @ mutation_payload m)"
  shows "read_key h lvs = Some m"
proof -
  obtain a n where x: "m = PressKey (sh_casefold h a) (nat n)" "supported_key (sh_casefold h a)"
      and d: "given ''presses'' (checked (in_range 1 20) strict_int) 1 kvs = Some n"
    using r by (auto simp: read_key_def split: option.splits if_splits)
  have n: "1 \<le> n" using d by (auto simp: given_Some checked_Some in_range_def)
  have k: "key_value lvs ''key'' = Some (JStr (sh_casefold h a))" "key_value lvs ''presses'' = Some (JInt n)"
    using f x(1) n by (simp_all add: guarded_key computer_fields_def del: ustr_simps)
  have "need ''key'' (bounded_text 1 16) lvs = Some (sh_casefold h a)" using k(1) supported_key_short [OF x(2)] by (simp add: need_def)
  then show ?thesis
    using l x k(2) given_back [where enc = JInt and lvs = lvs, OF d] by (simp add: read_key_def schema_laws_def back_intros)
qed

lemma computer_reads_back:
  assumes l: "schema_laws h" and r: "read_computer h name kvs = Some x" and f: "same_fields lvs (dispatch_payload x)"
  shows "read_computer h name lvs = Some x"
proof -
  obtain g m where x: "x = ComputerInput g m" "read_guard kvs = Some g" using r by (auto simp: read_computer_def Option.bind_eq_Some_conv)
  have g: "read_guard lvs = Some g" using f x by (intro guard_reads_back [OF x(2)]) simp
  have f': "same_fields lvs (guard_payload g @ mutation_payload m)" using f x by simp
  show ?thesis
    using r x g click_reads_back [OF _ f'] move_input_reads_back [OF _ f'] scroll_reads_back [OF _ f'] type_reads_back [OF _ f']
      hotkey_reads_back [OF l _ f'] key_reads_back [OF l _ f']
    by (simp add: read_computer_def split: if_splits)
qed

text \<open>Every model that the worker can read: its reader reads its payload back, and the payload has all its fields and no other.\<close>

fun input_job :: "tool_input \<Rightarrow> uuid option" where
  "input_job (JobIdInput j) = Some j"
| "input_job (JobOutputInput j _ _ _) = Some j"
| "input_job _ = None"

definition model_reads_back :: "schema_host \<Rightarrow> ((pystr \<times> json) list \<Rightarrow> tool_input option) \<Rightarrow> string list \<Rightarrow> bool" where
  "model_reads_back h reader names \<longleftrightarrow>
     (\<forall>kvs x. reader kvs = Some x \<longrightarrow>
        (\<forall>lvs. same_fields lvs (dispatch_payload x) \<longrightarrow> (\<forall>j. input_job x = Some j \<longrightarrow> spells h j) \<longrightarrow> reader lvs = Some x) \<and>
        map fst (dispatch_payload x) = map ustr names)"

lemma model_reads_backI:
  assumes "\<And>kvs x lvs. reader kvs = Some x \<Longrightarrow> same_fields lvs (dispatch_payload x) \<Longrightarrow> \<forall>j. input_job x = Some j \<longrightarrow> spells h j \<Longrightarrow> reader lvs = Some x"
    "\<And>kvs x. reader kvs = Some x \<Longrightarrow> map fst (dispatch_payload x) = map ustr names"
  shows "model_reads_back h reader names"
  using assms unfolding model_reads_back_def by blast

named_theorems models_back \<open>the models that the worker reads\<close>

lemma nothing_model: "model_reads_back h (\<lambda>_. Some NoInput) []"
  by (rule model_reads_backI) auto

lemma shell_model [models_back]:
  assumes l: "schema_laws h" shows "model_reads_back h (read_shell_run h) [''command'', ''cwd'', ''shell'', ''timeout_s'']"
  by (rule model_reads_backI, erule (1) shell_reads_back [OF l], auto simp: read_shell_run_def simp del: ustr_simps split: option.splits if_splits)

lemma list_model [models_back]:
  assumes l: "schema_laws h" shows "model_reads_back h (read_list h) [''path'']"
  by (rule model_reads_backI, erule (1) list_reads_back [OF l], auto simp: read_list_def simp del: ustr_simps split: option.splits if_splits)

lemma read_model [models_back]:
  assumes l: "schema_laws h" shows "model_reads_back h (read_read h) [''path'', ''offset'', ''length'', ''encoding'']"
  by (rule model_reads_backI, erule (1) read_reads_back [OF l], auto simp: read_read_def simp del: ustr_simps split: option.splits if_splits)

lemma write_model [models_back]:
  assumes l: "schema_laws h" shows "model_reads_back h (read_write h) [''path'', ''text'', ''base64_data'']"
  by (rule model_reads_backI, erule (1) write_reads_back [OF l], auto simp: read_write_def simp del: ustr_simps split: option.splits if_splits)

lemma move_model [models_back]:
  assumes l: "schema_laws h" shows "model_reads_back h (read_move h) [''source'', ''destination'']"
  by (rule model_reads_backI, erule (1) move_reads_back [OF l], auto simp: read_move_def simp del: ustr_simps split: option.splits if_splits)

lemma process_start_model [models_back]:
  assumes l: "schema_laws h" shows "model_reads_back h (read_process_start h) [''argv'', ''cwd'', ''lifecycle_managed'']"
  by (rule model_reads_backI, erule (1) process_start_reads_back [OF l], auto simp: read_process_start_def simp del: ustr_simps split: option.splits if_splits)

lemma kill_model [models_back]:
  assumes l: "schema_laws h" shows "model_reads_back h (read_process_kill h) [''pid'']"
  by (rule model_reads_backI, erule (1) kill_reads_back [OF l], auto simp: read_process_kill_def simp del: ustr_simps split: option.splits if_splits)

lemma app_open_model [models_back]:
  assumes l: "schema_laws h" shows "model_reads_back h (read_app_open h) [''target'', ''arguments'', ''cwd'']"
  by (rule model_reads_backI, erule (1) app_open_reads_back [OF l], auto simp: read_app_open_def simp del: ustr_simps split: option.splits if_splits)

lemma observe_model [models_back]:
  assumes l: "schema_laws h" shows "model_reads_back h (read_observe h) [''screenshot'', ''monitor'', ''uia'', ''max_controls'']"
  by (rule model_reads_backI, erule (1) observe_reads_back [OF l], auto simp: read_observe_def simp del: ustr_simps split: option.splits if_splits)

lemma browser_open_model [models_back]:
  assumes l: "schema_laws h" shows "model_reads_back h (read_browser_open h) [''url'']"
  by (rule model_reads_backI, erule (1) browser_open_reads_back [OF l], auto simp: read_browser_open_def simp del: ustr_simps split: option.splits if_splits)

lemma browser_type_model [models_back]:
  assumes l: "schema_laws h" shows "model_reads_back h (read_browser_type) [''selector'', ''text'']"
  by (rule model_reads_backI, erule (1) browser_type_reads_back [OF l], auto simp: read_browser_type_def simp del: ustr_simps split: option.splits if_splits)

lemma codex_run_model [models_back]:
  assumes l: "schema_laws h" shows "model_reads_back h (read_codex_run h) [''prompt'', ''cwd'', ''model'', ''effort'', ''dirty_policy'', ''timeout_s'']"
  by (rule model_reads_backI, erule (1) codex_run_reads_back [OF l], auto simp: read_codex_run_def simp del: ustr_simps split: option.splits if_splits)

lemma job_start_model [models_back]:
  assumes l: "schema_laws h" shows "model_reads_back h (read_job_start h) [''kind'', ''argv'', ''cwd'']"
  by (rule model_reads_backI, erule (1) job_start_reads_back [OF l], auto simp: read_job_start_def simp del: ustr_simps split: option.splits if_splits)

lemma flagged_model:
  assumes l: "schema_laws h" and m: "flag \<noteq> ''operation_id''" "flag \<noteq> ''path''"
    "\<And>a b. dispatch_payload (mk a b) = [(ustr ''path'', JStr a), (ustr flag, JBool b)]"
  shows "model_reads_back h (read_flagged h flag mk) [''path'', flag]"
proof (rule model_reads_backI)
  show "read_flagged h flag mk lvs = Some x" if "read_flagged h flag mk kvs = Some x" "same_fields lvs (dispatch_payload x)" for kvs lvs x
    by (rule flagged_reads_back [OF l that m(1) m(3) m(2)])
qed (auto simp: read_flagged_def m(3) simp del: ustr_simps split: option.splits)

lemma flagged_models [models_back]:
  assumes l: "schema_laws h"
  shows "model_reads_back h (read_flagged h ''recursive'' DeleteInput) [''path'', ''recursive'']"
    "model_reads_back h (read_flagged h ''parents'' MkdirInput) [''path'', ''parents'']"
  by (rule flagged_model [OF l], simp_all)+

lemma browser_selector_model: "model_reads_back h read_browser_selector [''selector'']"
  by (rule model_reads_backI, erule (1) browser_selector_reads_back, auto simp: read_browser_selector_def simp del: ustr_simps)

lemma job_id_model: "model_reads_back h (\<lambda>kvs. map_option JobIdInput (need ''job_id'' (sh_uuid h) kvs)) [''job_id'']"
proof (rule model_reads_backI)
  show "map_option JobIdInput (need ''job_id'' (sh_uuid h) lvs) = Some x"
    if "map_option JobIdInput (need ''job_id'' (sh_uuid h) kvs) = Some x" "same_fields lvs (dispatch_payload x)"
      "\<forall>j. input_job x = Some j \<longrightarrow> spells h j" for kvs lvs x
    using that(3) by (intro job_id_reads_back [OF _ that(1,2)]) auto
qed (auto simp del: ustr_simps)

lemma job_output_model [models_back]:
  assumes l: "schema_laws h" shows "model_reads_back h (read_job_output h) [''job_id'', ''stream'', ''offset'', ''limit'']"
proof (rule model_reads_backI)
  show "read_job_output h lvs = Some x" if "read_job_output h kvs = Some x" "same_fields lvs (dispatch_payload x)"
      "\<forall>j. input_job x = Some j \<longrightarrow> spells h j" for kvs lvs x
    using that(3) by (intro job_output_reads_back [OF l that(1,2)]) auto
qed (auto simp: read_job_output_def simp del: ustr_simps split: option.splits)

lemma point_names: "read_point g kvs = Some p \<Longrightarrow> map fst (point_payload p) = map ustr [''x'', ''y'', ''coordinate_space'']"
  by (simp add: point_payload_def)

lemma computer_model:
  assumes l: "schema_laws h" and f: "(name, fs) \<in> set [(''computer_click'', [''x'', ''y'', ''coordinate_space'', ''button'', ''clicks'']),
      (''computer_move'', [''x'', ''y'', ''coordinate_space'']), (''computer_scroll'', [''delta_x'', ''delta_y'']), (''computer_type'', [''text'']),
      (''computer_hotkey'', [''keys'']), (''computer_key'', [''key'', ''presses''])]"
  shows "model_reads_back h (read_computer h name) (computer_fields @ fs)"
proof (rule model_reads_backI)
  show "map fst (dispatch_payload x) = map ustr (computer_fields @ fs)" if r: "read_computer h name kvs = Some x" for kvs x
  proof -
    obtain g m where x: "x = ComputerInput g m" using r by (auto simp: read_computer_def Option.bind_eq_Some_conv)
    have "map fst (mutation_payload m) = map ustr fs"
      using f r x by (auto simp: read_computer_def Option.bind_eq_Some_conv read_click_def read_scroll_def read_hotkey_def read_key_def
          point_payload_def Let_def simp del: ustr_simps split: option.splits if_splits)
    then show ?thesis using x by (simp add: guard_payload_def computer_fields_def del: ustr_simps)
  qed
qed (erule (1) computer_reads_back [OF l])

text \<open>The tools whose payload the router reads: not the two of the helper, and not those of UI Automation.\<close>

definition routed :: "string \<Rightarrow> bool" where
  "routed name \<longleftrightarrow> name \<notin> {''uia_find'', ''uia_action'', ''system_reboot'', ''system_shutdown''}"

lemma models_read_back:
  assumes l: "schema_laws h" and m: "map_of (input_models h) name = Some (names, reader)" "routed name"
  shows "model_reads_back h reader names"
proof -
  have "\<forall>e \<in> set (input_models h). routed (fst e) \<longrightarrow> model_reads_back h (snd (snd e)) (fst (snd e))"
    by (simp add: input_models_def Let_def routed_def models_back [OF l] nothing_model browser_selector_model job_id_model computer_model [OF l]
        del: append.simps)
  then show ?thesis using map_of_SomeD [OF m(1)] m(2) by fastforce
qed

lemma approval_is_no_field:
  assumes m: "map_of (input_models h) name = Some (names, reader)"
  shows "''approval_id'' \<notin> set names \<and> ''operation_id'' \<notin> set names"
proof -
  have "\<forall>e \<in> set (input_models h). ''approval_id'' \<notin> set (fst (snd e)) \<and> ''operation_id'' \<notin> set (fst (snd e))"
    by (simp add: input_models_def Let_def computer_fields_def)
  then show ?thesis using map_of_SomeD [OF m] by fastforce
qed

lemma paths_are_texts:
  assumes m: "map_of (input_models h) name = Some (names, reader)" "reader kvs = Some x" "f \<in> set (path_fields name)"
  shows "\<exists>s. key_value (dispatch_payload x) f = Some (JStr s)"
proof -
  have "name \<in> {''fs_list'', ''fs_stat'', ''fs_read'', ''fs_write'', ''fs_delete'', ''fs_mkdir''} \<and> f = ''path'' \<or>
      name \<in> {''fs_move'', ''fs_copy''} \<and> f \<in> {''source'', ''destination''}"
    using m(3) by (auto simp: path_fields_def split: if_splits)
  then show ?thesis
    using m(1,2)
    by (auto simp: input_models_def Let_def read_list_def read_read_def read_write_def read_flagged_def read_move_def simp del: ustr_simps
        split: option.splits if_splits)
qed

lemma key_in_names:
  assumes "map fst kvs = map ustr names" "n \<notin> set names"
  shows "key_value kvs n = None"
proof -
  have "ustr n \<notin> fst ` set kvs" using arg_cong [OF assms(1), of set] assms(2) by auto
  then show ?thesis by (simp add: key_value_def map_of_eq_None_iff)
qed

lemma only_keys_names:
  assumes "map fst kvs = map ustr names" "set names \<subseteq> set ms"
  shows "only_keys ms kvs"
proof -
  have "fst ` set kvs \<subseteq> ustr ` set ms" using arg_cong [OF assms(1), of set] assms(2) by auto
  then show ?thesis by (auto simp: only_keys_def list_all_iff)
qed

definition router_takes_id :: "string \<Rightarrow> bool" where
  "router_takes_id name \<longleftrightarrow> (case map_of worker_operations name of None \<Rightarrow> False | Some op \<Rightarrow> router_rule op \<noteq> WithoutId)"

lemma input_names:
  "map fst (input_models h) =
     [''status'', ''shell_run'', ''fs_list'', ''fs_stat'', ''fs_read'', ''fs_write'', ''fs_move'', ''fs_copy'', ''fs_delete'',
      ''fs_mkdir'', ''process_list'', ''process_start'', ''process_kill'', ''app_open'', ''computer_observe'', ''computer_click'',
      ''computer_move'', ''computer_scroll'', ''computer_type'', ''computer_hotkey'', ''computer_key'', ''uia_find'', ''uia_action'',
      ''browser_status'', ''browser_open'', ''browser_navigate'', ''browser_snapshot'', ''browser_click'', ''browser_type'',
      ''browser_extract'', ''browser_close'', ''codex_status'', ''codex_run'', ''job_start'', ''job_status'', ''job_output'',
      ''job_cancel'', ''system_lock'', ''system_reboot'', ''system_shutdown'', ''system_sleep'']"
  by (simp add: input_models_def Let_def)

definition routed_rule_ok :: "string \<Rightarrow> bool" where
  "routed_rule_ok name \<longleftrightarrow>
     (routed name \<longrightarrow> (case map_of worker_operations name of None \<Rightarrow> False | Some op \<Rightarrow> router_rule op \<noteq> StrictId))"

lemma routed_rules: "list_all routed_rule_ok (map fst (input_models h))"
  unfolding input_names by code_simp

lemma routed_operation:
  assumes "map_of (input_models h) name = Some m" "routed name"
  shows "\<exists>op. map_of worker_operations name = Some op \<and> router_rule op \<noteq> StrictId"
proof -
  have "name \<in> set (map fst (input_models h))" using map_of_SomeD [OF assms(1)] by force
  then have "routed_rule_ok name" using routed_rules by (simp only: list_all_iff)
  then show ?thesis using assms(2) by (simp add: routed_rule_ok_def split: option.splits)
qed

lemma timeouts_fit:
  assumes "map_of (input_models h) name = Some (names, reader)" "reader kvs = Some x"
  shows "timeout_ok (dispatch_timeout name x)"
proof (cases "\<exists>c d s t. x = ShellRunInput c d s t")
  case True
  then obtain c d s t where x: "x = ShellRunInput c d s t" by blast
  have "\<forall>e \<in> set (input_models h). \<forall>kvs. snd (snd e) kvs = Some x \<longrightarrow> fst e = ''shell_run''"
    by (auto simp: x input_models_def Let_def read_list_def read_read_def read_write_def read_move_def read_flagged_def
        read_process_start_def read_process_kill_def read_app_open_def read_observe_def read_computer_def read_uia_find_def
        read_uia_action_def read_browser_open_def read_browser_selector_def read_browser_type_def read_codex_run_def read_job_start_def
        read_job_output_def read_power_def Option.bind_eq_Some_conv split: option.splits if_splits)
  then have "name = ''shell_run''" using map_of_SomeD [OF assms(1)] assms(2) by fastforce
  then have "read_shell_run h kvs = Some x" using assms by (simp add: input_models_def Let_def)
  then show ?thesis
    by (auto simp: x read_shell_run_def given_Some checked_Some in_range_def dispatch_timeout_def timeout_ok_def split: option.splits)
next
  case False
  then show ?thesis by (cases x) (simp_all add: dispatch_timeout_def timeout_ok_def)
qed

lemma read_model_accepts:
  assumes "map_of (input_models h) name = Some (names, reader)"
    "\<not> list_ex (\<lambda>f. case key_value kvs f of None \<Rightarrow> False | Some v \<Rightarrow> any_text v = None) (path_fields name)"
    "read_id h rule kvs = Some op"
    "(if has_approval name then given ''approval_id'' (nullable (sh_uuid h)) None kvs else Some None) = Some approval"
    "reader kvs = Some x"
    "only_keys (names @ (if rule = WithoutId then [] else [''operation_id'']) @ (if has_approval name then [''approval_id''] else [])) kvs"
  shows "read_model h rule name kvs = Inr \<lparr>tr_operation = op, tr_approval = approval, tr_input = x\<rparr>"
  unfolding read_model_def assms(1) option.case prod.case assms(3,4,5) using assms(2,6) by (simp only: if_True if_False refl)

text \<open>
  C20: the worker reads the input that the gateway accepted. Whatever arguments the closed model of a tool accepts, the request built from them
  names an operation of the router, its time limit is one the protocol allows, and the router's model reads from its
  payload the same input, with the identifier of the call where the model has one. The two tools of UI Automation are excepted.
\<close>

theorem worker_reads_accepted_call:
  assumes "schema_laws h" "read_call h name arguments = Inr r" "routed name" "spells h (rq_request_id (call_request fresh name r))"
    "\<forall>j. input_job (tr_input r) = Some j \<longrightarrow> spells h j"
  shows "route_request h (call_request fresh name r) =
      Inr \<lparr>tr_operation = (if router_takes_id name then Some (rq_request_id (call_request fresh name r)) else None),
           tr_approval = None, tr_input = tr_input r\<rparr> \<and>
    timeout_ok (rq_timeout_ms (call_request fresh name r))"
proof -
  obtain names reader where m: "map_of (input_models h) name = Some (names, reader)" and x: "reader arguments = Some (tr_input r)"
    using assms(2) by (auto simp: read_call_def read_model_def split: option.splits if_splits)
  obtain op where op: "map_of worker_operations name = Some op" "router_rule op \<noteq> StrictId"
    using routed_operation [OF m assms(3)] by blast
  let ?u = "rq_request_id (call_request fresh name r)" and ?p = "dispatch_payload (tr_input r)"
  have b: "\<forall>lvs. same_fields lvs ?p \<longrightarrow> reader lvs = Some (tr_input r)" and k: "map fst ?p = map ustr names"
    using models_read_back [OF assms(1) m assms(3)] x assms(5) unfolding model_reads_back_def by blast+
  have n: "key_value ?p ''operation_id'' = None" "key_value ?p ''approval_id'' = None"
    using approval_is_no_field [OF m] by (simp_all add: key_in_names [OF k] del: ustr_simps)
  define kvs where "kvs = (if router_rule op = WithoutId then ?p else (ustr ''operation_id'', JStr (uuid_str ?u)) # ?p)"
  have "filter (\<lambda>kv. fst kv \<noteq> ustr ''operation_id'') ?p = ?p"
    using n(1) by (force simp: filter_id_conv key_value_def map_of_eq_None_iff simp del: ustr_simps)
  then have q: "route_request h (call_request fresh name r) = read_model h (router_rule op) name kvs"
    using op by (simp add: route_request_def call_request_def correlated_def kvs_def)
  have f: "same_fields kvs ?p" by (simp add: kvs_def same_fields_def del: ustr_simps)
  have v: "key_value kvs ''approval_id'' = None" using n(2) by (simp add: kvs_def del: ustr_simps)
  have path: "\<not> list_ex (\<lambda>f. case key_value kvs f of None \<Rightarrow> False | Some v \<Rightarrow> any_text v = None) (path_fields name)"
  proof -
    have "\<exists>s. key_value kvs f = Some (JStr s)" if "f \<in> set (path_fields name)" for f
    proof -
      have "f \<noteq> ''operation_id''" using that by (auto simp: path_fields_def split: if_splits)
      then show ?thesis using paths_are_texts [OF m x that] same_fieldsD [OF f] by simp
    qed
    then show ?thesis by (fastforce simp: list_ex_iff)
  qed
  have i: "read_id h (router_rule op) kvs = Some (if router_rule op = WithoutId then None else Some ?u)"
    using assms(4) op(2) n(1) by (cases "router_rule op") (simp_all add: read_id_def kvs_def spells_def del: ustr_simps)
  have o: "only_keys (names @ (if router_rule op = WithoutId then [] else [''operation_id'']) @ (if has_approval name then [''approval_id''] else [])) kvs"
    (is "only_keys ?ks kvs")
  proof -
    have "only_keys ?ks ?p" by (rule only_keys_names [OF k]) simp
    then show ?thesis by (cases "router_rule op = WithoutId") (simp_all add: kvs_def only_keys_def del: ustr_simps)
  qed
  have a: "(if has_approval name then given ''approval_id'' (nullable (sh_uuid h)) None kvs else Some None) = Some None"
    using v by (simp add: given_def)
  have t: "(if router_rule op = WithoutId then None else Some ?u) = (if router_takes_id name then Some ?u else None)"
    using op(1) by (simp add: router_takes_id_def)
  have "route_request h (call_request fresh name r) =
      Inr \<lparr>tr_operation = (if router_takes_id name then Some ?u else None), tr_approval = None, tr_input = tr_input r\<rparr>"
    unfolding q using b f by (intro read_model_accepts [OF m path i [unfolded t] a _ o]) blast
  then show ?thesis using timeouts_fit [OF m x] by (simp add: call_request_def)
qed

section \<open>What the worker acts upon\<close>

definition text_fits :: "nat \<Rightarrow> nat \<Rightarrow> pystr \<Rightarrow> bool" where
  "text_fits lo hi s \<longleftrightarrow> lo \<le> length s \<and> length s \<le> hi"

definition optional_fits :: "(pystr \<Rightarrow> bool) \<Rightarrow> pystr option \<Rightarrow> bool" where
  "optional_fits ok t = (case t of None \<Rightarrow> True | Some s \<Rightarrow> ok s)"

definition point_ok :: "input_guard \<Rightarrow> input_point \<Rightarrow> bool" where
  "point_ok g p \<longleftrightarrow> in_range (-100000) 100000 (ip_x p) \<and> in_range (-100000) 100000 (ip_y p) \<and>
     (ip_space p = Observation \<longrightarrow> 0 \<le> ip_x p \<and> 0 \<le> ip_y p \<and> ig_state_token g \<noteq> None)"

text \<open>A mutation that the backend can turn into events: every key has a code.\<close>

fun mutation_ok :: "input_guard \<Rightarrow> desktop_mutation \<Rightarrow> bool" where
  "mutation_ok g (ClickPointer p b n) \<longleftrightarrow> point_ok g p \<and> 1 \<le> n \<and> n \<le> 3"
| "mutation_ok g (MovePointer p) \<longleftrightarrow> point_ok g p"
| "mutation_ok g (ScrollWheel x y) \<longleftrightarrow> in_range (-12000) 12000 x \<and> in_range (-12000) 12000 y \<and> (x \<noteq> 0 \<or> y \<noteq> 0)"
| "mutation_ok g (TypeText t) \<longleftrightarrow> text_fits 1 10000 t"
| "mutation_ok g (Hotkey ks) \<longleftrightarrow> distinct ks \<and> 2 \<le> length ks \<and> length ks \<le> 4 \<and> mutation_events (Hotkey ks) \<noteq> None"
| "mutation_ok g (PressKey k n) \<longleftrightarrow> 1 \<le> n \<and> n \<le> 20 \<and> mutation_events (PressKey k n) \<noteq> None"

definition selector_ok :: "uia_selector \<Rightarrow> bool" where
  "selector_ok s \<longleftrightarrow> list_all (optional_fits (text_fits 1 512)) [us_title s, us_title_contains s, us_window_title_contains s] \<and>
     list_all (optional_fits (text_fits 1 260)) [us_automation_id s, us_class_name s] \<and> optional_fits (text_fits 1 128) (us_control_type s)"

fun input_ok :: "tool_input \<Rightarrow> bool" where
  "input_ok (ShellRunInput c d s t) \<longleftrightarrow> text_fits 1 32767 c \<and> no_nul c \<and> in_range 1 110 t"
| "input_ok (ReadInput p n len enc) \<longleftrightarrow> 0 \<le> n \<and> (\<forall>k. len = Some k \<longrightarrow> 0 \<le> k) \<and> enc \<in> {ustr ''utf-8'', ustr ''base64''}"
| "input_ok (WriteInput p t d) \<longleftrightarrow> (t = None) \<noteq> (d = None)"
| "input_ok (ProcessStartInput a d m) \<longleftrightarrow> 1 \<le> length a \<and> length a \<le> 256 \<and> list_all good_argument a"
| "input_ok (ProcessKillInput pid) \<longleftrightarrow> 0 < pid"
| "input_ok (AppOpenInput t a d) \<longleftrightarrow> text_fits 1 32767 t \<and> length a \<le> 255 \<and> list_all no_nul (t # a)"
| "input_ok (ComputerObserveInput s m u n) \<longleftrightarrow> (\<forall>k. m = Some k \<longrightarrow> 1 \<le> k) \<and> in_range 1 500 n"
| "input_ok (ComputerInput g m) \<longleftrightarrow> optional_fits (text_fits 1 260) (ig_process g) \<and> optional_fits (text_fits 1 512) (ig_title_contains g) \<and>
     optional_fits hex_token (ig_state_token g) \<and> mutation_ok g m"
| "input_ok (UiaFindInput s n) \<longleftrightarrow> selector_ok s \<and> in_range 1 50 n"
| "input_ok (UiaActionInput s a t) \<longleftrightarrow> selector_ok s \<and> us_window_title_contains s \<noteq> None \<and> (a = UiaSetText \<longleftrightarrow> t \<noteq> None) \<and>
     optional_fits (text_fits 1 10000) t"
| "input_ok (BrowserOpenInput u) \<longleftrightarrow> text_fits 1 8192 u \<and> no_nul u"
| "input_ok (BrowserSelectorInput s) \<longleftrightarrow> text_fits 1 4096 s \<and> no_nul s"
| "input_ok (BrowserTypeInput s t) \<longleftrightarrow> text_fits 1 4096 s \<and> no_nul s \<and> text_fits 0 65536 t \<and> no_nul t"
| "input_ok (CodexRunInput p d m e y t) \<longleftrightarrow> text_fits 1 32767 p \<and> no_nul p \<and> optional_fits (\<lambda>s. text_fits 1 256 s \<and> no_nul s) m \<and>
     optional_fits (\<lambda>s. s \<in> ustr ` set effort_levels) e \<and> y \<in> {None, Some (ustr ''preserve'')} \<and> in_range 1 86400 t"
| "input_ok (JobStartInput k a d) \<longleftrightarrow> 1 \<le> length a \<and> length a \<le> 256 \<and> list_all good_argument a"
| "input_ok (JobOutputInput j s n limit) \<longleftrightarrow> 0 \<le> n \<and> in_range 1 max_job_output_chunk_bytes limit"
| "input_ok (PowerInput d r) \<longleftrightarrow> in_range 0 300 d \<and> text_fits 1 200 r"
| "input_ok _ \<longleftrightarrow> True"

lemma supported_key_code: "supported_key k \<Longrightarrow> \<exists>c. map_of key_codes k = Some c"
proof -
  assume "supported_key k"
  then have "map_of key_codes k \<noteq> None" by (simp add: supported_key_def map_of_eq_None_iff)
  then show ?thesis by simp
qed

lemma key_list_supported: "list_all supported_key ks \<Longrightarrow> key_list ks \<noteq> None"
proof (induction ks)
  case (Cons k ks)
  then obtain c cs where "map_of key_codes k = Some c" "key_list ks = Some cs" using supported_key_code [of k] by auto
  then show ?case by simp
qed simp

lemma point_accepted:
  assumes "read_point g kvs = Some p"
  shows "point_ok g p"
proof -
  obtain a b c where x: "p = \<lparr>ip_x = a, ip_y = b, ip_space = c\<rparr>" "\<not> (c = Observation \<and> (a < 0 \<or> b < 0 \<or> ig_state_token g = None))"
      and n: "need ''x'' (checked (in_range (-100000) 100000) strict_int) kvs = Some a"
      "need ''y'' (checked (in_range (-100000) 100000) strict_int) kvs = Some b"
    using assms by (auto simp: read_point_def split: option.splits if_splits)
  have "in_range (-100000) 100000 a" "in_range (-100000) 100000 b" using n by (auto simp: need_Some checked_Some)
  then show ?thesis using x by (auto simp: point_ok_def)
qed

text \<open>What a field guarantees once it was read.\<close>

lemma need_text: "need n (bounded_text lo hi) kvs = Some t \<Longrightarrow> text_fits lo hi t"
  by (auto simp: need_Some bounded_text_Some text_fits_def)

lemma need_checked_text: "need n (checked ok (bounded_text lo hi)) kvs = Some t \<Longrightarrow> text_fits lo hi t \<and> ok t"
  by (auto simp: need_Some checked_Some bounded_text_Some text_fits_def)

lemma need_checked: "need n (checked ok conv) kvs = Some x \<Longrightarrow> ok x"
  by (auto simp: need_Some checked_Some)

lemma given_checked: "given n (checked ok conv) d kvs = Some x \<Longrightarrow> ok d \<Longrightarrow> ok x"
  by (auto simp: given_Some checked_Some)

lemma need_texts: "need n (checked (list_all ok) (text_list lo hi)) kvs = Some ts \<Longrightarrow> list_all ok ts \<and> lo \<le> length ts \<and> length ts \<le> hi"
  using text_list_Some by (auto simp: need_Some checked_Some)

lemma given_texts: "given n (checked (list_all ok) (text_list 0 hi)) [] kvs = Some ts \<Longrightarrow> list_all ok ts \<and> length ts \<le> hi"
  using text_list_Some by (auto simp: given_Some checked_Some)

lemma given_optional_text: "given n (nullable_text lo hi) None kvs = Some t \<Longrightarrow> optional_fits (text_fits lo hi) t"
  by (auto simp: given_Some nullable_text_Some optional_fits_def text_fits_def)

lemma given_optional: "given n (nullable (checked ok conv)) None kvs = Some t \<Longrightarrow> (\<forall>x. t = Some x \<longrightarrow> ok x)"
  by (auto simp: given_Some nullable_Some checked_Some)

lemma given_optional_checked: "given n (nullable (checked ok (bounded_text lo hi))) None kvs = Some t \<Longrightarrow> optional_fits (\<lambda>s. text_fits lo hi s \<and> ok s) t"
  by (auto simp: given_Some nullable_Some checked_Some bounded_text_Some optional_fits_def text_fits_def)

lemma given_among: "given n (nullable (text_among names)) None kvs = Some t \<Longrightarrow> optional_fits (\<lambda>s. s \<in> ustr ` set names) t"
  by (auto simp: given_Some nullable_Some text_among_def checked_Some optional_fits_def)

lemma guard_accepted:
  assumes "read_guard kvs = Some g"
  shows "optional_fits (text_fits 1 260) (ig_process g) \<and> optional_fits (text_fits 1 512) (ig_title_contains g) \<and>
    optional_fits hex_token (ig_state_token g)"
proof -
  obtain a b c where x: "g = \<lparr>ig_process = a, ig_title_contains = b, ig_state_token = c\<rparr>"
      and n: "given ''expected_process'' (nullable_text 1 260) None kvs = Some a"
      "given ''expected_window_title_contains'' (nullable_text 1 512) None kvs = Some b"
      "given ''state_token'' (nullable (checked hex_token any_text)) None kvs = Some c"
    using assms by (auto simp: read_guard_def split: option.splits)
  have "optional_fits hex_token c" using given_optional [OF n(3)] by (simp add: optional_fits_def split: option.split)
  then show ?thesis using given_optional_text [OF n(1)] given_optional_text [OF n(2)] x by simp
qed

lemma count_accepted:
  "given name (checked (in_range 1 hi) strict_int) 1 kvs = Some n \<Longrightarrow> 1 \<le> hi \<Longrightarrow> 1 \<le> nat n \<and> nat n \<le> nat hi"
  by (auto simp: given_Some checked_Some in_range_def)

lemma hotkey_accepted: "read_hotkey h kvs = Some m \<Longrightarrow> mutation_ok g m"
proof -
  assume "read_hotkey h kvs = Some m"
  then obtain ks where k: "need ''keys'' (text_list 2 4) kvs = Some ks" "m = Hotkey (map (sh_casefold h) ks)"
      "distinct (map (sh_casefold h) ks)" "list_all supported_key (map (sh_casefold h) ks)"
    by (auto simp: read_hotkey_def Let_def split: option.splits if_splits)
  have "2 \<le> length ks \<and> length ks \<le> 4" using k(1) text_list_Some by (auto simp: need_Some)
  then show ?thesis using k(3) key_list_supported [OF k(4)] unfolding k(2) by simp
qed

lemma key_accepted: "read_key h kvs = Some m \<Longrightarrow> mutation_ok g m"
proof -
  assume "read_key h kvs = Some m"
  then obtain k n where k: "given ''presses'' (checked (in_range 1 20) strict_int) 1 kvs = Some n" "m = PressKey (sh_casefold h k) (nat n)"
      "supported_key (sh_casefold h k)"
    by (auto simp: read_key_def split: option.splits if_splits)
  obtain c where "map_of key_codes (sh_casefold h k) = Some c" using supported_key_code [OF k(3)] by blast
  then show ?thesis using count_accepted [OF k(1)] unfolding k(2) by simp
qed

lemma click_accepted: "read_click g kvs = Some m \<Longrightarrow> mutation_ok g m"
proof -
  assume "read_click g kvs = Some m"
  then obtain p b n where c: "read_point g kvs = Some p" "given ''clicks'' (checked (in_range 1 3) strict_int) 1 kvs = Some n"
      "m = ClickPointer p b (nat n)"
    by (auto simp: read_click_def split: option.splits)
  show ?thesis using point_accepted [OF c(1)] count_accepted [OF c(2)] unfolding c(3) by simp
qed

lemma scroll_accepted: "read_scroll kvs = Some m \<Longrightarrow> mutation_ok g m"
  by (auto simp: read_scroll_def given_Some checked_Some in_range_def split: option.splits if_splits)

lemma type_accepted: "map_option TypeText (need ''text'' (bounded_text 1 10000) kvs) = Some m \<Longrightarrow> mutation_ok g m"
  by (auto simp: need_Some bounded_text_Some text_fits_def)

lemma move_accepted: "map_option MovePointer (read_point g kvs) = Some m \<Longrightarrow> mutation_ok g m"
  using point_accepted [of g kvs] by auto

lemma computer_accepted:
  assumes "read_computer h name kvs = Some x"
  shows "input_ok x"
proof -
  define chosen where "chosen g =
       (if name = ''computer_click'' then read_click g kvs
        else if name = ''computer_move'' then map_option MovePointer (read_point g kvs)
        else if name = ''computer_scroll'' then read_scroll kvs
        else if name = ''computer_type'' then map_option TypeText (need ''text'' (bounded_text 1 10000) kvs)
        else if name = ''computer_hotkey'' then read_hotkey h kvs
        else read_key h kvs)" for g
  obtain g m where x: "read_guard kvs = Some g" "chosen g = Some m" "x = ComputerInput g m"
    using assms unfolding read_computer_def chosen_def by (auto simp only: Option.bind_eq_Some_conv map_option_eq_Some)
  have "mutation_ok g m"
    using x(2) click_accepted move_accepted scroll_accepted type_accepted hotkey_accepted key_accepted
    unfolding chosen_def by (simp only: split: if_splits)
  then show ?thesis using guard_accepted [OF x(1)] unfolding x(3) by simp
qed

lemma shell_accepted: "read_shell_run h kvs = Some x \<Longrightarrow> input_ok x"
  by (auto simp: read_shell_run_def in_range_def split: option.splits dest!: need_checked_text given_checked)

lemma process_start_accepted: "read_process_start h kvs = Some x \<Longrightarrow> input_ok x"
  by (auto simp: read_process_start_def split: option.splits dest!: need_texts)

lemma app_open_accepted: "read_app_open h kvs = Some x \<Longrightarrow> input_ok x"
  by (auto simp: read_app_open_def split: option.splits dest!: need_checked_text given_texts)

lemma observe_accepted: "read_observe h kvs = Some x \<Longrightarrow> input_ok x"
  by (auto simp: read_observe_def in_range_def split: option.splits dest!: given_checked given_optional)

lemma read_accepted: "read_read h kvs = Some x \<Longrightarrow> input_ok x"
  by (auto simp: read_read_def text_among_def simp del: ustr_simps split: option.splits dest!: given_checked given_optional)

lemma write_accepted: "read_write h kvs = Some x \<Longrightarrow> input_ok x"
  by (auto simp: read_write_def split: option.splits if_splits)

lemma browser_accepted:
  "read_browser_selector kvs = Some x \<Longrightarrow> input_ok x" "read_browser_type kvs = Some x \<Longrightarrow> input_ok x"
  by (auto simp: read_browser_selector_def read_browser_type_def split: option.splits dest!: need_checked_text)

lemma browser_open_accepted:
  assumes "read_browser_open h kvs = Some x"
  shows "input_ok x"
proof -
  obtain u where u: "x = BrowserOpenInput u" "given ''url'' (checked (navigable h) (bounded_text 1 8192)) (ustr ''about:blank'') kvs = Some u"
    using assms unfolding read_browser_open_def by blast
  have "text_fits 1 8192 (ustr ''about:blank'') \<and> no_nul (ustr ''about:blank'')" by code_simp
  then have "text_fits 1 8192 u \<and> no_nul u"
    using u(2) by (auto simp: given_Some checked_Some bounded_text_Some text_fits_def navigable_def simp del: ustr_simps)
  then show ?thesis by (simp add: u(1))
qed

lemma codex_accepted:
  assumes "read_codex_run h kvs = Some x"
  shows "input_ok x"
proof -
  obtain p d m e y t where x: "x = CodexRunInput p d m e y t"
      and n: "need ''prompt'' (checked no_nul (bounded_text 1 32767)) kvs = Some p"
      "given ''model'' (nullable (checked no_nul (bounded_text 1 256))) None kvs = Some m"
      "given ''effort'' (nullable (text_among effort_levels)) None kvs = Some e"
      "given ''dirty_policy'' (nullable (text_among [''preserve''])) None kvs = Some y"
      "given ''timeout_s'' (checked (in_range 1 86400) (sh_int h)) 900 kvs = Some t"
    using assms by (auto simp: read_codex_run_def simp del: ustr_simps split: option.splits)
  have "y \<in> {None, Some (ustr ''preserve'')}" using given_among [OF n(4)] by (auto simp: optional_fits_def simp del: ustr_simps split: option.splits)
  then show ?thesis
    using need_checked_text [OF n(1)] given_optional_checked [OF n(2)] given_among [OF n(3)] given_checked [OF n(5)]
    by (simp add: x in_range_def del: ustr_simps)
qed

lemma job_accepted:
  "read_job_start h kvs = Some x \<Longrightarrow> input_ok x" "read_job_output h kvs = Some x \<Longrightarrow> input_ok x"
  by (auto simp: read_job_start_def read_job_output_def in_range_def max_job_output_chunk_bytes_def split: option.splits
      dest!: need_texts given_checked)

lemma kill_accepted: "read_process_kill h kvs = Some x \<Longrightarrow> input_ok x"
  by (auto simp: read_process_kill_def dest!: need_checked)

lemma power_accepted: "read_power h kvs = Some x \<Longrightarrow> input_ok x"
  by (auto simp: read_power_def in_range_def split: option.splits dest!: need_text given_checked)

lemma plain_accepted:
  "read_list h kvs = Some x \<Longrightarrow> input_ok x" "read_move h kvs = Some x \<Longrightarrow> input_ok x"
  "read_flagged h ''recursive'' DeleteInput kvs = Some x \<Longrightarrow> input_ok x" "read_flagged h ''parents'' MkdirInput kvs = Some x \<Longrightarrow> input_ok x"
  "map_option JobIdInput r = Some x \<Longrightarrow> input_ok x" "Some NoInput = Some x \<Longrightarrow> input_ok x"
  by (auto simp: read_list_def read_move_def read_flagged_def split: option.splits)

lemma selector_accepted:
  assumes "read_selector v = Some s"
  shows "selector_ok s"
proof -
  obtain kvs a b c d e f where x: "s = \<lparr>us_title = a, us_title_contains = b, us_automation_id = c, us_control_type = d, us_class_name = e,
        us_window_title_contains = f\<rparr>"
      and n: "given ''title'' (nullable_text 1 512) None kvs = Some a" "given ''title_contains'' (nullable_text 1 512) None kvs = Some b"
      "given ''automation_id'' (nullable_text 1 260) None kvs = Some c" "given ''control_type'' (nullable_text 1 128) None kvs = Some d"
      "given ''class_name'' (nullable_text 1 260) None kvs = Some e" "given ''window_title_contains'' (nullable_text 1 512) None kvs = Some f"
    using assms by (auto simp: read_selector_def simp del: replicate.simps split: json.splits option.splits if_splits)
  show ?thesis using n [THEN given_optional_text] by (simp add: x selector_ok_def)
qed

lemma uia_accepted:
  assumes "read_uia_find kvs = Some x \<or> read_uia_action kvs = Some x"
  shows "input_ok x"
  using assms
proof
  assume "read_uia_find kvs = Some x"
  then obtain s n where x: "x = UiaFindInput s n" "need ''selector'' read_selector kvs = Some s"
      "given ''max_results'' (checked (in_range 1 50) strict_int) 20 kvs = Some n"
    by (auto simp: read_uia_find_def split: option.splits)
  then show ?thesis using given_checked [OF x(3)] selector_accepted by (auto simp: need_Some in_range_def)
next
  assume "read_uia_action kvs = Some x"
  then obtain s a t where x: "x = UiaActionInput s a t" "need ''selector'' read_selector kvs = Some s"
      "given ''text'' (nullable_text 1 10000) None kvs = Some t" "us_window_title_contains s \<noteq> None" "(a = UiaSetText) = (t \<noteq> None)"
    by (auto simp: read_uia_action_def split: option.splits if_splits)
  have "selector_ok s" using x(2) selector_accepted by (auto simp: need_Some)
  then show ?thesis using given_optional_text [OF x(3)] x(4,5) unfolding x(1) input_ok.simps by blast
qed

lemmas accepted = shell_accepted process_start_accepted app_open_accepted observe_accepted read_accepted write_accepted browser_accepted
  browser_open_accepted codex_accepted job_accepted kill_accepted power_accepted plain_accepted computer_accepted
  uia_accepted [OF disjI1] uia_accepted [OF disjI2]

text \<open>
  C21: what the worker acts upon is in bounds. Whatever a request carries, an input that a model accepts has texts of the declared
  lengths without null characters, arguments that are not empty, numbers and times in their ranges, exactly one content to write, a selector for
  the window of an action, and for the desktop only mutations that the backend has events for.
\<close>

theorem accepted_input_is_in_bounds:
  assumes "read_model h rule name kvs = Inr r"
  shows "input_ok (tr_input r)"
proof -
  obtain names reader where m: "map_of (input_models h) name = Some (names, reader)" and x: "reader kvs = Some (tr_input r)"
    using assms by (auto simp: read_model_def split: option.splits if_splits)
  have "\<forall>e \<in> set (input_models h). \<forall>kvs x. snd (snd e) kvs = Some x \<longrightarrow> input_ok x"
    unfolding input_models_def Let_def list.set ball_simps prod.sel by (intro conjI allI impI TrueI; erule accepted)
  then show ?thesis using map_of_SomeD [OF m] x by fastforce
qed

section \<open>UI Automation\<close>

text \<open>
  The strict models of UI Automation have no conversion for the identifier, and the router hands it over as a text: no request is
  accepted, whatever it carries.
\<close>

lemma uia_requests_are_refused:
  assumes "rq_operation q \<in> {''uia_find'', ''uia_action''}"
  shows "route_request h q = Inl InputRefused"
proof -
  have i: "read_id h StrictId (correlated q) = None" by (simp add: read_id_def correlated_def del: ustr_simps)
  have "path_fields (rq_operation q) = []" using assms by (auto simp: path_fields_def)
  with i have m: "read_model h StrictId (rq_operation q) (correlated q) = Inl InputRefused"
    by (auto simp: read_model_def split: option.split)
  have "map_of worker_operations ''uia_find'' = Some OpUiaFind" "map_of worker_operations ''uia_action'' = Some OpUiaAction" by code_simp+
  then obtain op where "map_of worker_operations (rq_operation q) = Some op" "op \<in> {OpUiaFind, OpUiaAction}" using assms by auto
  moreover have "router_rule op = StrictId" if "op \<in> {OpUiaFind, OpUiaAction}" for op using that by (auto simp: router_rule_def)
  ultimately show ?thesis using m by (simp add: route_request_def)
qed

text \<open>The gateway accepts the call and sends it.\<close>

lemma accepted_uia_call_is_refused:
  "\<exists>r. read_call h ''uia_find'' [(ustr ''selector'', JObj [(ustr ''title'', JStr (ustr ''x''))])] = Inr r \<and>
     route_request h (call_request fresh ''uia_find'' r) = Inl InputRefused"
proof -
  have s: "read_selector (JObj [(ustr ''title'', JStr (ustr ''x''))]) =
      Some \<lparr>us_title = Some (ustr ''x''), us_title_contains = None, us_automation_id = None, us_control_type = None, us_class_name = None,
        us_window_title_contains = None\<rparr>"
    by code_simp
  have "\<exists>r. read_call h ''uia_find'' [(ustr ''selector'', JObj [(ustr ''title'', JStr (ustr ''x''))])] = Inr r"
    using s by (simp add: read_call_def gateway_rule_def read_model_def input_models_def Let_def read_id_def read_uia_find_def need_def given_def
        path_fields_def has_approval_def only_keys_def del: ustr_simps)
  then show ?thesis using uia_requests_are_refused [of "call_request fresh ''uia_find'' _" h] by (auto simp: call_request_def)
qed

section \<open>What the tools say of themselves\<close>

text \<open>The hints each tool is registered with: read only, destructive, idempotent, open world.\<close>

definition hints :: "bool \<Rightarrow> bool \<Rightarrow> bool \<Rightarrow> bool \<Rightarrow> tool_annotations" where
  "hints r d i w = \<lparr>read_only_hint = r, destructive_hint = d, idempotent_hint = i, open_world_hint = w\<rparr>"

type_synonym hint_table = "(string \<times> tool_annotations) list"

definition status_hints :: hint_table where "status_hints = [(''status'', hints True False True False)]"

definition shell_hints :: hint_table where "shell_hints = [(''shell_run'', hints False True False True)]"

definition filesystem_hints :: hint_table where
  "filesystem_hints =
     [(''fs_list'', hints True False True False), (''fs_stat'', hints True False True False), (''fs_read'', hints True False True False),
      (''fs_write'', hints False False True False), (''fs_move'', hints False False False False), (''fs_copy'', hints False False False False),
      (''fs_delete'', hints False True True False), (''fs_mkdir'', hints False False True False)]"

definition process_hints :: hint_table where
  "process_hints =
     [(''process_list'', hints True False True False), (''process_start'', hints False False False False),
      (''process_kill'', hints False True False False), (''app_open'', hints False False False False)]"

definition observe_hints :: hint_table where "observe_hints = [(''computer_observe'', hints True False True False)]"

definition computer_hints :: hint_table where
  "computer_hints = map (\<lambda>n. (n, hints False False False False))
     [''computer_click'', ''computer_move'', ''computer_scroll'', ''computer_type'', ''computer_hotkey'', ''computer_key'']"

definition uia_hints :: hint_table where
  "uia_hints = [(''uia_find'', hints True False True False), (''uia_action'', hints False False False False)]"

definition browser_hints :: hint_table where
  "browser_hints =
     map (\<lambda>(n, r, i). (n, hints r False i True))
       [(''browser_status'', True, True), (''browser_open'', False, False), (''browser_navigate'', False, False),
        (''browser_snapshot'', True, True), (''browser_click'', False, False), (''browser_type'', False, False),
        (''browser_extract'', True, True), (''browser_close'', False, True)]"

definition codex_hints :: hint_table where
  "codex_hints = [(''codex_status'', hints True False True False), (''codex_run'', hints False True True True)]"

definition job_hints :: hint_table where
  "job_hints =
     [(''job_start'', hints False True True True), (''job_status'', hints True False True False), (''job_output'', hints True False True False),
      (''job_cancel'', hints False True True False)]"

definition system_hints :: hint_table where
  "system_hints =
     [(''system_lock'', hints False False True False), (''system_reboot'', hints False True True False),
      (''system_shutdown'', hints False True True False), (''system_sleep'', hints False False True False)]"

definition registered_hints :: hint_table where
  "registered_hints = status_hints @ shell_hints @ filesystem_hints @ process_hints @ observe_hints @ computer_hints @ uia_hints @
     browser_hints @ codex_hints @ job_hints @ system_hints"

definition differing_tools :: "string list" where
  "differing_tools = map fst (filter (\<lambda>(n, a). a \<noteq> tp_annotations (registry_entry n)) registered_hints)"

text \<open>
  The registered tools are the policies' tools, in their order; a tool says it reads only, or that its world is open, exactly when its policy says
  so. The other two hints differ for four tools.
\<close>

lemma registered_hints_match_policies:
  "map fst registered_hints = tool_names \<and>
   list_all (\<lambda>(n, a). read_only_hint a = read_only_hint (tp_annotations (registry_entry n)) \<and>
     open_world_hint a = open_world_hint (tp_annotations (registry_entry n))) registered_hints \<and>
   differing_tools = [''shell_run'', ''process_kill'', ''computer_move'', ''codex_run'']"
  by code_simp

section \<open>A concrete call\<close>

definition sample_schema :: schema_host where
  "sample_schema =
     \<lparr>sh_int = strict_int, sh_bool = strict_bool, sh_uuid = (\<lambda>v. if v = JStr (uuid_str 7) then Some 7 else None),
      sh_py_uuid = (\<lambda>s. if s = uuid_str 7 then Some 7 else None), sh_path = id, sh_casefold = id, sh_urls = plain_url_host\<rparr>"

definition sample_arguments :: "(pystr \<times> json) list" where
  "sample_arguments = [(ustr ''operation_id'', JStr (uuid_str 7)), (ustr ''command'', JStr (ustr ''dir'')), (ustr ''cwd'', JStr (ustr ''C''))]"

definition sample_tool_request :: tool_request where
  "sample_tool_request = \<lparr>tr_operation = Some 7, tr_approval = None, tr_input = ShellRunInput (ustr ''dir'') (ustr ''C'') POWERSHELL 60\<rparr>"

lemma sample_schema_laws: "schema_laws sample_schema"
proof -
  have u: "url_split plain_url_host (ustr ''about:blank'') = Some (ustr ''about'', [], ustr ''blank'')" by code_simp
  have n: "0 \<notin> set (ustr ''about:blank'')" by code_simp
  have "navigable sample_schema (ustr ''about:blank'')"
    by (simp add: navigable_def no_nul_def n sample_schema_def u del: ustr_simps)
  then show ?thesis by (simp add: schema_laws_def sample_schema_def del: ustr_simps)
qed

lemma sample_call_read: "read_call sample_schema ''shell_run'' sample_arguments = Inr sample_tool_request"
proof -
  have t: "checked no_nul (bounded_text 1 32767) (JStr (ustr ''dir'')) = Some (ustr ''dir'')"
    by (simp add: checked_def no_nul_def)
  have r: "read_shell_run sample_schema sample_arguments = Some (ShellRunInput (ustr ''dir'') (ustr ''C'') POWERSHELL 60)"
    using t by (simp add: read_shell_run_def sample_arguments_def need_def given_def path_of_def sample_schema_def del: ustr_simps)
  have m: "map_of (input_models sample_schema) ''shell_run'' = Some ([''command'', ''cwd'', ''shell'', ''timeout_s''], read_shell_run sample_schema)"
    by (simp add: input_models_def Let_def)
  have i: "read_id sample_schema (LaxId False) sample_arguments = Some (Some 7)"
    by (simp add: read_id_def sample_arguments_def sample_schema_def del: ustr_simps)
  have k: "only_keys ([''command'', ''cwd'', ''shell'', ''timeout_s''] @ (if LaxId False = WithoutId then [] else [''operation_id'']) @
      (if has_approval ''shell_run'' then [''approval_id''] else [])) sample_arguments"
    by (simp add: only_keys_def sample_arguments_def del: ustr_simps)
  have "gateway_rule ''shell_run'' = LaxId False" "path_fields ''shell_run'' = []" "\<not> has_approval ''shell_run''"
    by (simp_all add: gateway_rule_def path_fields_def has_approval_def)
  then show ?thesis
    using read_model_accepts [OF m _ i _ r k, of None] by (simp add: read_call_def sample_tool_request_def del: ustr_simps)
qed

lemma worker_reads_accepted_call_witness:
  "route_request sample_schema (call_request 0 ''shell_run'' sample_tool_request) =
     Inr \<lparr>tr_operation = Some 7, tr_approval = None, tr_input = ShellRunInput (ustr ''dir'') (ustr ''C'') POWERSHELL 60\<rparr>"
proof -
  have r: "routed ''shell_run''" "router_takes_id ''shell_run''"
    by (simp_all add: routed_def router_takes_id_def worker_operations_def router_rule_def)
  have u: "rq_request_id (call_request 0 ''shell_run'' sample_tool_request) = 7"
    by (simp add: call_request_def sample_tool_request_def)
  have s: "spells sample_schema (rq_request_id (call_request 0 ''shell_run'' sample_tool_request))"
    unfolding u by (simp add: spells_def sample_schema_def)
  have x: "tr_input sample_tool_request = ShellRunInput (ustr ''dir'') (ustr ''C'') POWERSHELL 60" by (simp add: sample_tool_request_def)
  have j: "\<forall>j. input_job (tr_input sample_tool_request) = Some j \<longrightarrow> spells sample_schema j" unfolding x by simp
  show ?thesis using worker_reads_accepted_call [OF sample_schema_laws sample_call_read r(1) s j] unfolding u x if_P [OF r(2)] by blast
qed

lemma accepted_input_is_in_bounds_witness:
  "read_model sample_schema (gateway_rule ''shell_run'') ''shell_run'' sample_arguments = Inr sample_tool_request \<and>
   input_ok (ShellRunInput (ustr ''dir'') (ustr ''C'') POWERSHELL 60)"
  using accepted_input_is_in_bounds [OF sample_call_read [unfolded read_call_def]] sample_call_read
  by (simp add: read_call_def sample_tool_request_def del: ustr_simps input_ok.simps)

end
