(* ===== verification/Spec2Isabelle.thy ===== *)
theory Spec2Isabelle
  imports Dispatcher Worker_Operations Worker_Pipe Worker_Desktop Local_Approval Filesystem_Worker Service_Child
    Worker_Process Gateway_Main Status_Tool Browser_Safety Desktop_Input Processes Browser_Worker Codex Tool_Inputs
begin

text \<open>
  A verification library for the Hermes Windows bridge, a Python program that lets a remote model operate a Windows computer. All file
  names below are relative to \<open>src/src/hermes_windows_bridge\<close>.

  \<^bold>\<open>The program.\<close> A gateway process serves the tools over HTTP. A call passes the access checks of the web server, the closed input model of
  its tool, the policy of the tool and, where the policy asks for it, an approval of the user; the dispatcher then answers it from the
  local job registry, or sends it over a named pipe to the worker in the user's session or to the privileged helper, which only
  reboots and shuts down. Every outcome is audited and an operation that was completed is replayed from a cache. The worker
  reads the request by the model of the operation and hands it to an adapter: files, processes, shell, jobs, desktop input, browser, Codex.
  Two Windows services keep the gateway and the helper alive, and a binding file selects the release they start.

  \<^bold>\<open>Theories, in the order a call passes them.\<close>

  \<^item> \<open>Prelude\<close>: the result type of fallible operations, time stamps, identifiers and the collections of lemmas the proofs share;
    \<open>Effects\<close>: operations that change a state and may raise, with \<open>try\<close>, \<open>except\<close> and \<open>finally\<close>, and the rules by which a
    predicate is carried through them; \<open>Py_Text\<close>, \<open>Py_Json\<close>, \<open>Py_Hash\<close>: text and UTF-8, canonical JSON
    (\<open>models/policy.py\<close>), SHA-256.
  \<^item> \<open>Gateway_Access\<close> (\<open>gateway/auth.py\<close>, \<open>origin_host.py\<close>, \<open>tailscale_identity.py\<close>, \<open>mcp_server.py\<close>) and \<open>Gateway_Main\<close>
    (\<open>gateway/main.py\<close>): who may call, and the life of the server. \<open>Tool_Inputs\<close> (\<open>tools/*.py\<close>,
    \<open>worker/adapter_router.py\<close>): the input models on both sides of the pipe. \<open>Status_Tool\<close> (\<open>tools/status.py\<close>): the sensors.
  \<^item> \<open>Tool_Policy\<close>, \<open>Approvals\<close> (\<open>models/policy.py\<close>, \<open>gateway/policy.py\<close>), \<open>Approval_Flow\<close> (\<open>gateway/approval_*.py\<close>),
    \<open>Local_Approval\<close> (\<open>worker/local_approval*.py\<close>, \<open>ipc/local_approval.py\<close>): decision, life cycle and consent.
  \<^item> \<open>Idempotency\<close>, \<open>Audit_Trail\<close>, \<open>Job_Dispatch\<close>, \<open>Dispatcher\<close> (\<open>gateway/idempotency.py\<close>, \<open>audit.py\<close>, \<open>job_dispatch.py\<close>,
    \<open>dispatcher.py\<close>): one dispatch as a transition of the gateway's state.
  \<^item> \<open>Ipc_Protocol\<close>, \<open>Framing\<close>, \<open>Acl\<close> (\<open>ipc/*.py\<close>), \<open>Pipe_Client\<close>, \<open>Peer_Registry\<close> (\<open>worker/ipc_client.py\<close>,
    \<open>privileged/ipc_server.py\<close>), \<open>Exchange\<close> (\<open>gateway/worker_runtime.py\<close>, \<open>helper_runtime.py\<close>): messages, frames, access
    lists, connections and the registration of peers.
  \<^item> \<open>Worker_Pipe\<close>, \<open>Worker_Operations\<close>, \<open>Worker_Process\<close> (\<open>worker/pipe_server.py\<close>, \<open>operations.py\<close>, \<open>main.py\<close>,
    \<open>runtime.py\<close>), \<open>Privileged\<close> (\<open>privileged/*.py\<close>): the peers' side.
  \<^item> \<open>Job_Store\<close>, \<open>Job_Registry\<close>, \<open>Job_Output\<close> (\<open>gateway/job_*.py\<close>, \<open>jobs.py\<close>, \<open>worker/job_process.py\<close>, \<open>shell.py\<close>): durable jobs.
  \<^item> \<open>Path_Safety\<close>, \<open>Inline_Codec\<close>, \<open>File_Store\<close>, \<open>Filesystem_Worker\<close> (\<open>worker/path_safety.py\<close>, \<open>filesystem.py\<close>,
    \<open>tools/filesystem.py\<close>): files. \<open>Processes\<close> (\<open>worker/processes.py\<close>, \<open>job_object.py\<close>). \<open>Worker_Desktop\<close>, \<open>Desktop_Input\<close>
    (\<open>worker/desktop_lock.py\<close>, \<open>emergency_hotkey.py\<close>, \<open>desktop_input.py\<close>, \<open>win32_input.py\<close>). \<open>Browser_Safety\<close>,
    \<open>Browser_Worker\<close> (\<open>worker/browser_safety.py\<close>, \<open>browser.py\<close>). \<open>Codex\<close> (\<open>worker/codex*.py\<close>, \<open>tools/codex.py\<close>).
  \<^item> \<open>Configuration\<close> (\<open>config.py\<close>, \<open>models/config.py\<close>), \<open>Runtime_Binding\<close> (\<open>runtime_binding.py\<close>), \<open>Service_Child\<close>
    (\<open>service_child.py\<close>): how the processes are configured and started.

  \<^bold>\<open>How code becomes definitions.\<close> A class with state is a record, an enumeration or union a datatype, a method a function from the state to its
  answer and the next state; an exception is the left side of a sum or an \<open>effect\<close>, with one constructor for each error the code
  tells apart. A block under a lock is one step. Threads and peers are interleaved by inductive predicates (\<open>approval_run\<close>, \<open>conn_run\<close>,
  \<open>client_run\<close>, \<open>job_reachable\<close>, \<open>worker_run\<close>, \<open>session_run\<close>, \<open>gate_run\<close>, \<open>handler_run\<close>, \<open>child_run\<close>,
  \<open>serve_run\<close>, \<open>manager_run\<close>), whose invariants are proved by rule induction. What the source only calls is an argument of the model: a record
  named \<open>..._host\<close>, \<open>..._codec\<close> or \<open>..._kernel\<close> holds its answers, changing with the world where the order of calls matters, and the
  laws a theorem needs of it are named hypotheses (\<open>host_laws\<close>, \<open>schema_laws\<close>, \<open>lower_keeps_delimiters\<close>) that a witness
  satisfies with a concrete one.

  \<^bold>\<open>Interfaces.\<close> A component relies on another through a locale interpreted on the model's definitions: \<open>approval_store\<close> (by the approval
  manager), \<open>replay_cache\<close> (by the store of \<open>Idempotency\<close>), \<open>exchange_client\<close> and \<open>peer_registry\<close> (each by the worker's side and the
  helper's), \<open>byte_budget\<close> (by the two captures of output), \<open>job_snapshot_store\<close> (by the files of \<open>Job_Store\<close>).

  \<^bold>\<open>What is shown.\<close>

  \<^item> Authority: an approval is spent at most once and on the payload it was given for; only an explicit yes gives a receipt; every effect of a
    dispatch is authorized, its request is the call, and every outcome is audited, redacted.
  \<^item> Transport: frames survive any cutting of the stream; an exchange returns its own response; only verified peers register; a pipe handle
    has one owner; a session answers each request once; an accepted cancellation is never answered with success.
  \<^item> Inputs: the worker reads the input the gateway accepted, and what it acts upon is in bounds.
  \<^item> Jobs: an operation starts one job; ended jobs stay ended; a restart recovers every job; a call of the dispatcher is a step of the registry.
  \<^item> Adapters: paths obey the policy; a write replaces a whole file or nothing; a move keeps the data; a managed process runs in its job, a failed
    start leaves nothing; desktop input is exclusive, can be stopped, is checked batch by batch and sent whole; a close of the browser
    returns every handle, and what is shown of a page is bounded and free of the collected secrets; Codex gets a dirty tree only with consent.
  \<^item> Start: the selected release is protected; a service's child ends in order; a request needs token and capability.

  \<^bold>\<open>Bounds.\<close> Loops of the source are structural recursion or have a measure (the bytes still to read or write, the text still to scan). Three
  counters stand for a number of rounds. \<open>delete_safely\<close> takes the depth of calls the interpreter allows, whose end is
  its \<open>RecursionError\<close>; \<open>deletion_is_exact\<close> shows that a depth of the tree is enough. \<open>poll_cursor\<close> takes the number of looks
  at the pointer that fit in the wait, given by the clock. \<open>heartbeat_messages\<close> takes the number of heartbeats sent. A monitor
  or watcher that may run for ever (\<open>watch_job\<close>, \<open>watch_parent\<close>, the hotkey loop) reads a list of observations and says when these do not end it.

  \<^bold>\<open>Not modelled.\<close> The task dialog of the local approval (\<open>worker/local_approval_win32.py\<close>) and the Win32 services
  (\<open>gateway/windows_service.py\<close>, \<open>privileged/windows_service.py\<close>, \<open>privileged/main.py\<close>) are calls of the system; so are the capture of
  the screen, UI Automation and the external input server (\<open>worker/desktop.py\<close>, \<open>desktop_capture.py\<close>, \<open>uia*.py\<close>,
  \<open>windows_mcp.py\<close>, \<open>emergency_audit.py\<close>); no request reaches UI Automation, which \<open>uia_requests_are_refused\<close> shows. Of the tools, the
  registration with the server library, the published schemas, the images and the result models of the desktop tools are left out; of the
  worker, the construction of the adapters and the JSON of their results. Logging and package files (\<open>logging_setup.py\<close>,
  \<open>models/common.py\<close>, \<open>models/operation.py\<close>, the \<open>__init__\<close> files) hold nothing to state. The schema library,
  the web server, the browser driver, the JSON and YAML parsers and the kernel are arguments.
\<close>

end
